(* ===== verification/Prelude.thy ===== *)
theory Prelude
  imports Main "HOL-Library.Sublist"
begin

text \<open>
  Shared vocabulary of the development.

  \<^item> The effect type \<open>sem\<close>: a Python function that runs inside a SQLAlchemy session is a function
    from the database state to a result (an exception or a value) and the new state.  The state
    survives an exception, because a raised Python exception does not undo what the session has
    already flushed; only an explicit savepoint or the caller's rollback does.
  \<^item> The locale \<open>tracked\<close>: a reflexive and transitive relation between the states before and after
    an operation, with the lemmas that lift it through the combinators.  The components interpret it
    with their own relations (an invariant is kept, history is append-only, \<dots>).
  \<^item> Calendar dates, timestamps, decimal rendering of integers, and the facts on lists and sums
    that the components share.
\<close>

section \<open>Effects: state and exceptions\<close>

type_synonym ('s, 'e, 'a) sem = "'s \<Rightarrow> ('e + 'a) \<times> 's"

definition ok :: "'a \<Rightarrow> ('s, 'e, 'a) sem" where
  "ok x = (\<lambda>s. (Inr x, s))"

definition throw :: "'e \<Rightarrow> ('s, 'e, 'a) sem" where
  "throw e = (\<lambda>s. (Inl e, s))"

definition andthen :: "('s, 'e, 'a) sem \<Rightarrow> ('a \<Rightarrow> ('s, 'e, 'b) sem) \<Rightarrow> ('s, 'e, 'b) sem" where
  "andthen m f = (\<lambda>s. case m s of (Inl e, t) \<Rightarrow> (Inl e, t) | (Inr x, t) \<Rightarrow> f x t)"

definition catch :: "('s, 'e, 'a) sem \<Rightarrow> ('e \<Rightarrow> ('s, 'e, 'a) sem) \<Rightarrow> ('s, 'e, 'a) sem" where
  "catch m h = (\<lambda>s. case m s of (Inl e, t) \<Rightarrow> h e t | (Inr x, t) \<Rightarrow> (Inr x, t))"

definition asks :: "('s \<Rightarrow> 'a) \<Rightarrow> ('s, 'e, 'a) sem" where
  "asks f = (\<lambda>s. (Inr (f s), s))"

definition change :: "('s \<Rightarrow> 's) \<Rightarrow> ('s, 'e, unit) sem" where
  "change f = (\<lambda>s. (Inr (), f s))"

definition lift :: "'e + 'a \<Rightarrow> ('s, 'e, 'a) sem" where
  "lift r = (\<lambda>s. (r, s))"

definition reads :: "('s \<Rightarrow> 'e + 'a) \<Rightarrow> ('s, 'e, 'a) sem" where
  "reads f = (\<lambda>s. (f s, s))"

primrec for_each :: "('a \<Rightarrow> ('s, 'e, unit) sem) \<Rightarrow> 'a list \<Rightarrow> ('s, 'e, unit) sem" where
  "for_each f [] = ok ()"
| "for_each f (x # xs) = andthen (f x) (\<lambda>_. for_each f xs)"

primrec map_sem :: "('a \<Rightarrow> ('s, 'e, 'b) sem) \<Rightarrow> 'a list \<Rightarrow> ('s, 'e, 'b list) sem" where
  "map_sem f [] = ok []"
| "map_sem f (x # xs) = andthen (f x) (\<lambda>y. andthen (map_sem f xs) (\<lambda>ys. ok (y # ys)))"

lemmas sem_defs = ok_def throw_def andthen_def catch_def asks_def change_def lift_def reads_def

lemma andthen_Inr: "andthen m f s = (Inr y, t) \<longleftrightarrow> (\<exists>x s'. m s = (Inr x, s') \<and> f x s' = (Inr y, t))"
  by (auto simp: andthen_def split: prod.splits sum.splits)

section \<open>Pure results\<close>

definition bindR :: "'e + 'a \<Rightarrow> ('a \<Rightarrow> 'e + 'b) \<Rightarrow> 'e + 'b" where
  "bindR r f = (case r of Inl e \<Rightarrow> Inl e | Inr x \<Rightarrow> f x)"

primrec mapR :: "('a \<Rightarrow> 'e + 'b) \<Rightarrow> 'a list \<Rightarrow> 'e + 'b list" where
  "mapR f [] = Inr []"
| "mapR f (x # xs) = bindR (f x) (\<lambda>y. bindR (mapR f xs) (\<lambda>ys. Inr (y # ys)))"

lemma bindR_simps [simp]: "bindR (Inl e) f = Inl e" "bindR (Inr x) f = f x"
  by (simp_all add: bindR_def)

lemma bindR_eq_Inr: "bindR r f = Inr y \<longleftrightarrow> (\<exists>x. r = Inr x \<and> f x = Inr y)"
  by (cases r) auto

lemma bindR_eq_Inl: "bindR r f = Inl e \<longleftrightarrow> r = Inl e \<or> (\<exists>x. r = Inr x \<and> f x = Inl e)"
  by (cases r) auto

lemma mapR_Inr_iff: "mapR f xs = Inr ys \<longleftrightarrow> list_all2 (\<lambda>x y. f x = Inr y) xs ys"
  by (induction xs arbitrary: ys) (auto simp: bindR_eq_Inr list_all2_Cons1)

lemma mapR_Inr_map: "(\<And>x. x \<in> set xs \<Longrightarrow> f x = Inr (g x)) \<Longrightarrow> mapR f xs = Inr (map g xs)"
  by (induction xs) auto

section \<open>Relations tracked through effects\<close>

definition tracks :: "('s \<Rightarrow> 's \<Rightarrow> bool) \<Rightarrow> ('s, 'e, 'a) sem \<Rightarrow> bool" where
  "tracks R m \<longleftrightarrow> (\<forall>s. R s (snd (m s)))"

named_theorems tracking \<open>operations that track a relation between states\<close>

locale tracked =
  fixes R :: "'s \<Rightarrow> 's \<Rightarrow> bool"
  assumes R_refl: "R s s"
    and R_trans: "R s t \<Longrightarrow> R t u \<Longrightarrow> R s u"
begin

lemma tracks_ok: "tracks R (ok x)"
  by (simp add: tracks_def ok_def R_refl)

lemma tracks_throw: "tracks R (throw e)"
  by (simp add: tracks_def throw_def R_refl)

lemma tracks_asks: "tracks R (asks f)"
  by (simp add: tracks_def asks_def R_refl)

lemma tracks_lift: "tracks R (lift r)"
  by (simp add: tracks_def lift_def R_refl)

lemma tracks_reads: "tracks R (reads f)"
  by (simp add: tracks_def reads_def R_refl)

lemma tracks_change: "(\<And>s. R s (f s)) \<Longrightarrow> tracks R (change f)"
  by (simp add: tracks_def change_def)

lemma tracks_andthen:
  assumes "tracks R m" and "\<And>x. tracks R (f x)"
  shows "tracks R (andthen m f)"
  unfolding tracks_def andthen_def
proof
  fix s
  show "R s (snd (case m s of (Inl e, t) \<Rightarrow> (Inl e, t) | (Inr x, t) \<Rightarrow> f x t))"
  proof (cases "m s")
    case (Pair r t)
    have st: "R s t" using assms(1) Pair by (metis tracks_def snd_conv)
    show ?thesis
    proof (cases r)
      case (Inl e)
      with st Pair show ?thesis by simp
    next
      case (Inr x)
      have "R t (snd (f x t))" using assms(2) by (simp add: tracks_def)
      with st have "R s (snd (f x t))" by (rule R_trans)
      with Pair Inr show ?thesis by simp
    qed
  qed
qed

lemma tracks_catch:
  assumes "tracks R m" and "\<And>e. tracks R (h e)"
  shows "tracks R (catch m h)"
  unfolding tracks_def catch_def
proof
  fix s
  show "R s (snd (case m s of (Inl e, t) \<Rightarrow> h e t | (Inr x, t) \<Rightarrow> (Inr x, t)))"
  proof (cases "m s")
    case (Pair r t)
    have st: "R s t" using assms(1) Pair by (metis tracks_def snd_conv)
    show ?thesis
    proof (cases r)
      case (Inr x)
      with st Pair show ?thesis by simp
    next
      case (Inl e)
      have "R t (snd (h e t))" using assms(2) by (simp add: tracks_def)
      with st have "R s (snd (h e t))" by (rule R_trans)
      with Pair Inl show ?thesis by simp
    qed
  qed
qed

lemma tracks_if: "tracks R m \<Longrightarrow> tracks R n \<Longrightarrow> tracks R (if b then m else n)"
  by simp

lemma tracks_case_option:
  "tracks R m \<Longrightarrow> (\<And>x. tracks R (f x)) \<Longrightarrow> tracks R (case v of None \<Rightarrow> m | Some x \<Rightarrow> f x)"
  by (cases v) simp_all

lemma tracks_case_list:
  "tracks R m \<Longrightarrow> (\<And>x xs. tracks R (f x xs)) \<Longrightarrow> tracks R (case v of [] \<Rightarrow> m | x # xs \<Rightarrow> f x xs)"
  by (cases v) simp_all

lemma tracks_case_prod:
  "(\<And>x y. tracks R (f x y)) \<Longrightarrow> tracks R (case p of (x, y) \<Rightarrow> f x y)"
  by (cases p) simp

lemma tracks_for_each: "(\<And>x. tracks R (f x)) \<Longrightarrow> tracks R (for_each f xs)"
  by (induction xs) (simp_all add: tracks_ok tracks_andthen)

lemma tracks_map_sem: "(\<And>x. tracks R (f x)) \<Longrightarrow> tracks R (map_sem f xs)"
  by (induction xs) (simp_all add: tracks_ok tracks_andthen)

lemmas tracks_rules =
  tracks_ok tracks_throw tracks_asks tracks_lift tracks_reads tracks_andthen tracks_catch
  tracks_if tracks_case_option tracks_case_list tracks_case_prod tracks_for_each tracks_map_sem

end

lemma tracksD: "tracks R m \<Longrightarrow> m s = (r, t) \<Longrightarrow> R s t"
  by (metis tracks_def snd_conv)

section \<open>Decimal rendering of integers\<close>

definition digit :: "nat \<Rightarrow> char" where
  "digit d = char_of (48 + d)"

fun nat_str :: "nat \<Rightarrow> string" where
  "nat_str n = (if n < 10 then [digit n] else nat_str (n div 10) @ [digit (n mod 10)])"

declare nat_str.simps [simp del]

definition int_str :: "int \<Rightarrow> string" where
  "int_str i = (if i < 0 then CHR ''-'' # nat_str (nat (- i)) else nat_str (nat i))"

definition digit_val :: "char \<Rightarrow> nat" where
  "digit_val c = of_char c - 48"

definition str_nat :: "string \<Rightarrow> nat" where
  "str_nat s = foldl (\<lambda>a c. 10 * a + digit_val c) 0 s"

lemma digit_val_digit: "d < 10 \<Longrightarrow> digit_val (digit d) = d"
  by (simp add: digit_val_def digit_def)

lemma digit_inj: "d < 10 \<Longrightarrow> e < 10 \<Longrightarrow> digit d = digit e \<longleftrightarrow> d = e"
  by (metis digit_val_digit)

lemma str_nat_nat_str: "str_nat (nat_str n) = n"
proof (induction n rule: nat_str.induct)
  case (1 n)
  show ?case
  proof (cases "n < 10")
    case True
    then show ?thesis by (simp add: nat_str.simps[of n] str_nat_def digit_val_digit)
  next
    case False
    with 1 have "str_nat (nat_str (n div 10)) = n div 10" by simp
    with False show ?thesis
      by (simp add: nat_str.simps[of n] str_nat_def digit_val_digit)
  qed
qed

lemma nat_str_inject [simp]: "nat_str m = nat_str n \<longleftrightarrow> m = n"
  by (metis str_nat_nat_str)

definition is_digit :: "char \<Rightarrow> bool" where
  "is_digit c \<longleftrightarrow> 48 \<le> (of_char c :: nat) \<and> (of_char c :: nat) \<le> 57"

lemma is_digit_digit [simp]: "d < 10 \<Longrightarrow> is_digit (digit d)"
  by (simp add: is_digit_def digit_def)

lemma nat_str_digits: "c \<in> set (nat_str n) \<Longrightarrow> is_digit c"
proof (induction n rule: nat_str.induct)
  case (1 n)
  then show ?case
    by (cases "n < 10") (auto simp: nat_str.simps[of n])
qed

lemma nat_str_not_Nil [simp]: "nat_str n \<noteq> []"
  by (simp add: nat_str.simps[of n])

lemma not_is_digit [simp]:
  "\<not> is_digit (CHR '':'')" "\<not> is_digit (CHR ''-'')" "\<not> is_digit (CHR '','')"
  "\<not> is_digit (CHR '']'')" "\<not> is_digit (CHR ''}'')"
  by (simp_all add: is_digit_def)

lemma nat_str_notin [simp]: "\<not> is_digit c \<Longrightarrow> c \<notin> set (nat_str n)"
  using nat_str_digits by blast

lemma int_str_inject [simp]: "int_str i = int_str j \<longleftrightarrow> i = j"
proof
  assume eq: "int_str i = int_str j"
  have nm: "CHR ''-'' # xs \<noteq> nat_str n" for xs n
    using nat_str_notin[of "CHR ''-''" n] by (metis list.set_intros(1) not_is_digit(2))
  show "i = j"
    using eq nm nm[symmetric]
    by (auto simp: int_str_def split: if_splits)
qed simp

lemma int_str_chars: "c \<in> set (int_str i) \<Longrightarrow> is_digit c \<or> c = CHR ''-''"
  by (auto simp: int_str_def dest: nat_str_digits split: if_splits)

lemma int_str_not_Nil [simp]: "int_str i \<noteq> []"
  by (simp add: int_str_def)

section \<open>Calendar dates and timestamps\<close>

text \<open>
  \<^verbatim>\<open>datetime.date\<close> is its year, month and day, compared in that order.  A timestamp is held
  normalised to naive UTC, which is what every comparison of the source first converts it to.
\<close>

datatype date = Date (year: nat) (month: nat) (day: nat)

instantiation date :: linorder
begin

definition less_eq_date :: "date \<Rightarrow> date \<Rightarrow> bool" where
  "less_eq_date a b \<longleftrightarrow> year a < year b \<or> year a = year b \<and>
     (month a < month b \<or> month a = month b \<and> day a \<le> day b)"

definition less_date :: "date \<Rightarrow> date \<Rightarrow> bool" where
  "less_date a b \<longleftrightarrow> year a < year b \<or> year a = year b \<and>
     (month a < month b \<or> month a = month b \<and> day a < day b)"

instance
  by standard (auto simp: less_eq_date_def less_date_def intro: date.expand)

end

datatype datetime = Datetime (dt_date: date) (dt_micros: nat)

instantiation datetime :: linorder
begin

definition less_eq_datetime :: "datetime \<Rightarrow> datetime \<Rightarrow> bool" where
  "less_eq_datetime a b \<longleftrightarrow> dt_date a < dt_date b \<or> dt_date a = dt_date b \<and> dt_micros a \<le> dt_micros b"

definition less_datetime :: "datetime \<Rightarrow> datetime \<Rightarrow> bool" where
  "less_datetime a b \<longleftrightarrow> dt_date a < dt_date b \<or> dt_date a = dt_date b \<and> dt_micros a < dt_micros b"

instance
  by standard (auto simp: less_eq_datetime_def less_datetime_def intro: datetime.expand)

end

definition datetime_min :: datetime where
  "datetime_min = Datetime (Date 1 1 1) 0"

text \<open>\<^verbatim>\<open>date.isoformat()\<close>: four, two and two digits.\<close>

definition pad :: "nat \<Rightarrow> string \<Rightarrow> string" where
  "pad w s = replicate (w - length s) (CHR ''0'') @ s"

definition isoformat :: "date \<Rightarrow> string" where
  "isoformat d = pad 4 (nat_str (year d)) @ CHR ''-'' # pad 2 (nat_str (month d)) @
     CHR ''-'' # pad 2 (nat_str (day d))"

lemma str_nat_Cons0: "str_nat (CHR ''0'' # s) = str_nat s"
  by (simp add: str_nat_def digit_val_def)

lemma str_nat_replicate0: "str_nat (replicate k (CHR ''0'') @ s) = str_nat s"
  by (induction k) (simp_all add: str_nat_Cons0)

lemma str_nat_pad: "str_nat (pad w s) = str_nat s"
  by (simp add: pad_def str_nat_replicate0)

lemma pad_nat_str_notin: "\<not> is_digit c \<Longrightarrow> c \<notin> set (pad w (nat_str n))"
proof -
  assume "\<not> is_digit c"
  moreover have "is_digit (CHR ''0'')" by (simp add: is_digit_def)
  ultimately show ?thesis using nat_str_digits by (auto simp: pad_def)
qed

section \<open>Lists, separators and sums\<close>

text \<open>Splitting a string at the first occurrence of a separator is unambiguous.\<close>

lemma append_sep_inject:
  assumes "c \<notin> set xs" and "c \<notin> set ys"
  shows "xs @ c # us = ys @ c # vs \<longleftrightarrow> xs = ys \<and> us = vs"
  using assms
proof (induction xs arbitrary: ys)
  case Nil
  then show ?case by (cases ys) auto
next
  case (Cons x xs)
  then show ?case by (cases ys) auto
qed

lemma isoformat_inject [simp]: "isoformat a = isoformat b \<longleftrightarrow> a = b"
proof
  assume "isoformat a = isoformat b"
  then have "pad 4 (nat_str (year a)) = pad 4 (nat_str (year b))"
    and "pad 2 (nat_str (month a)) = pad 2 (nat_str (month b))"
    and "pad 2 (nat_str (day a)) = pad 2 (nat_str (day b))"
    by (auto simp: isoformat_def append_sep_inject pad_nat_str_notin)
  then have "year a = year b \<and> month a = month b \<and> day a = day b"
    by (metis str_nat_pad str_nat_nat_str)
  then show "a = b" by (auto intro: date.expand)
qed simp

lemma sum_list_uminus: "sum_list (map (\<lambda>x. - f x) xs) = - (sum_list (map f xs) :: int)"
  by (induction xs) auto

lemma sum_list_nonneg_nth: "(\<And>x. x \<in> set xs \<Longrightarrow> 0 \<le> (f x :: int)) \<Longrightarrow> 0 \<le> sum_list (map f xs)"
  by (induction xs) auto

lemma sum_list_filter_split:
  "sum_list (map f (filter P xs)) + sum_list (map f (filter (\<lambda>x. \<not> P x) xs)) =
     (sum_list (map f xs) :: int)"
  by (induction xs) auto

lemma sum_list_update_inc:
  "i < length xs \<Longrightarrow> sum_list (xs[i := xs ! i + d]) = sum_list xs + (d :: int)"
  by (induction xs arbitrary: i) (auto split: nat.splits)

text \<open>A nonempty list of nonzero integers that sums to zero has both signs in it.\<close>

lemma zero_sum_signs:
  fixes xs :: "int list"
  assumes "xs \<noteq> []" and "0 \<notin> set xs" and "sum_list xs = 0"
  shows "\<exists>x\<in>set xs. 0 < x" "\<exists>x\<in>set xs. x < 0" "2 \<le> length xs"
proof -
  obtain a ys where xs: "xs = a # ys" using assms(1) by (cases xs) auto
  have nz: "x \<noteq> 0" if "x \<in> set xs" for x using assms(2) that by metis
  show "\<exists>x\<in>set xs. 0 < x"
  proof (rule ccontr)
    assume "\<not> ?thesis"
    then have neg: "x < 0" if "x \<in> set xs" for x using nz[OF that] that by force
    then have "sum_list ys \<le> 0" using xs by (intro sum_list_nonpos) fastforce
    then show False using neg[of a] assms(3) xs by simp
  qed
  show "\<exists>x\<in>set xs. x < 0"
  proof (rule ccontr)
    assume "\<not> ?thesis"
    then have pos: "0 < x" if "x \<in> set xs" for x using nz[OF that] that by force
    then have "0 \<le> sum_list ys" using xs by (intro sum_list_nonneg) fastforce
    then show False using pos[of a] assms(3) xs by simp
  qed
  show "2 \<le> length xs" using assms xs by (cases ys) auto
qed

text \<open>The first row of a query result, as \<^verbatim>\<open>.first()\<close> returns it.\<close>

definition first :: "'a list \<Rightarrow> 'a option" where
  "first xs = (case xs of [] \<Rightarrow> None | x # _ \<Rightarrow> Some x)"

lemma first_simps [simp]: "first [] = None" "first (x # xs) = Some x"
  by (simp_all add: first_def)

lemma first_None [simp]: "first xs = None \<longleftrightarrow> xs = []"
  by (cases xs) auto

lemma first_in_set: "first xs = Some x \<Longrightarrow> x \<in> set xs"
  by (cases xs) auto

section \<open>Exceptions\<close>

text \<open>
  One constructor per exception class the modelled code raises or catches; the payload is what the
  code reads back or what a report shows, the message text is dropped.
\<close>

datatype exn =
    TypeError
  | AttributeError
  | ValueError
  | InvalidOperation
  | OverflowError
  | ArithmeticError
  | IntegrityError
  | RuntimeError
  | LedgerConfigError
  | UnbalancedEntryError
  | PeriodLockedError date date
  | IssuanceCompositionError int
  | ExpenseCompositionError int int
  | ChokepointBypassError
  | PayPeriodUnconfigured

end
