(* ===== verification/Money.thy ===== *)
theory Money
  imports Prelude "HOL-Library.Product_Lexorder" Complex_Main
begin

text \<open>
  \<^verbatim>\<open>modules/ledger/money.py\<close>: the decimal-to-cents boundary \<open>to_cents\<close> (ROUND_HALF_UP) and the
  sum-preserving largest-remainder split \<open>allocate\<close>.  The lemmas show that \<open>to_cents\<close> is the nearest
  cent with ties away from zero, that \<open>allocate\<close> always returns on admissible weights, that its parts
  add up to the total and stay within one cent of the exact share, and that the internal invariant
  check never fires.
\<close>

section \<open>Python's Decimal\<close>

text \<open>
  A finite \<^verbatim>\<open>Decimal\<close> is a coefficient and a power of ten; the non-finite ones are kept because the
  code has to refuse them.
\<close>

datatype decimal = Fin int int | Inf bool | NaN

definition decimal_rat :: "int \<Rightarrow> int \<Rightarrow> rat" where
  "decimal_rat c e = (if 0 \<le> e then of_int (c * 10 ^ nat e) else of_int c / of_int (10 ^ nat (- e)))"

definition half_up :: "int \<Rightarrow> int \<Rightarrow> int" where
  "half_up c d = sgn c * ((2 * \<bar>c\<bar> + d) div (2 * d))"

text \<open>
  \<^verbatim>\<open>dec.quantize(Decimal("0.01"), rounding=ROUND_HALF_UP)\<close> under the default context: the result has
  exponent \<open>-2\<close>, and a coefficient of more than 28 digits signals InvalidOperation.  A quiet NaN passes.
\<close>

fun quantize_cent :: "decimal \<Rightarrow> exn + decimal" where
  "quantize_cent (Fin c e) =
     (let q = (if -2 \<le> e then c * 10 ^ nat (e + 2) else half_up c (10 ^ nat (-2 - e)))
      in if \<bar>q\<bar> < 10 ^ 28 then Inr (Fin q (-2)) else Inl InvalidOperation)"
| "quantize_cent (Inf _) = Inl InvalidOperation"
| "quantize_cent NaN = Inr NaN"

text \<open>
  Multiplying by 100 is exact here: a product of at most 30 digits loses only its two trailing zeros
  to the 28-digit context.  \<^verbatim>\<open>int()\<close> truncates towards zero.
\<close>

fun times_hundred :: "decimal \<Rightarrow> decimal" where
  "times_hundred (Fin c e) = Fin (c * 100) e"
| "times_hundred d = d"

fun int_of_decimal :: "decimal \<Rightarrow> exn + int" where
  "int_of_decimal (Fin c e) =
     Inr (if 0 \<le> e then c * 10 ^ nat e else sgn c * (\<bar>c\<bar> div 10 ^ nat (- e)))"
| "int_of_decimal (Inf _) = Inl OverflowError"
| "int_of_decimal NaN = Inl ValueError"

subsection \<open>Decimal literals\<close>

text \<open>
  \<^verbatim>\<open>Decimal(str)\<close>: blanks around the text are stripped and underscores dropped; then an optional sign,
  digits with an optional point, an optional exponent, or a spelling of infinity or NaN in any case.
\<close>

definition is_blank :: "char \<Rightarrow> bool" where
  "is_blank c \<longleftrightarrow> c = CHR '' '' \<or> (9 \<le> (of_char c :: nat) \<and> (of_char c :: nat) \<le> 13)"

definition strip :: "string \<Rightarrow> string" where
  "strip s = rev (dropWhile is_blank (rev (dropWhile is_blank s)))"

definition to_lower :: "char \<Rightarrow> char" where
  "to_lower c = (if 65 \<le> (of_char c :: nat) \<and> (of_char c :: nat) \<le> 90 then char_of ((of_char c :: nat) + 32) else c)"

definition lower :: "string \<Rightarrow> string" where
  "lower s = map to_lower s"

definition split_sign :: "string \<Rightarrow> int \<times> string" where
  "split_sign s = (case s of
       c # r \<Rightarrow> (if c = CHR ''-'' then (-1, r) else if c = CHR ''+'' then (1, r) else (1, s))
     | [] \<Rightarrow> (1, s))"

definition parse_decimal :: "string \<Rightarrow> decimal option" where
  "parse_decimal txt =
     (let (sg, body) = split_sign (filter (\<lambda>c. c \<noteq> CHR ''_'') (strip txt));
          low = lower body;
          ip = takeWhile is_digit body;
          r1 = dropWhile is_digit body;
          (fp, r2) = (case r1 of c # r \<Rightarrow> if c = CHR ''.'' then (takeWhile is_digit r, dropWhile is_digit r)
                                          else ([], r1) | [] \<Rightarrow> ([], r1));
          (esg, eds, wf) = (case r2 of
               [] \<Rightarrow> (1, ''0'', True)
             | c # r \<Rightarrow> (let (sg', ds) = split_sign r in
                 (sg', ds, to_lower c = CHR ''e'' \<and> ds \<noteq> [] \<and> list_all is_digit ds)))
      in if low = ''inf'' \<or> low = ''infinity'' then Some (Inf (sg < 0))
         else if low = ''nan'' \<or> low = ''snan'' then Some NaN
         else if wf \<and> ip @ fp \<noteq> [] then
           Some (Fin (sg * int (str_nat (ip @ fp))) (esg * int (str_nat eds) - int (length fp)))
         else None)"

section \<open>to_cents\<close>

datatype amount = ADecimal decimal | AInt int | AStr string | ABool bool | AFloat

definition decimal_to_cents :: "decimal \<Rightarrow> exn + int" where
  "decimal_to_cents d =
     (case bindR (quantize_cent d) (\<lambda>q. int_of_decimal (times_hundred q)) of
        Inl InvalidOperation \<Rightarrow> Inl ValueError | r \<Rightarrow> r)"

fun to_cents :: "amount \<Rightarrow> exn + int" where
  "to_cents (ABool _) = Inl TypeError"
| "to_cents AFloat = Inl TypeError"
| "to_cents (AInt i) = Inr (i * 100)"
| "to_cents (AStr s) =
     (case parse_decimal s of None \<Rightarrow> Inl ValueError | Some d \<Rightarrow> decimal_to_cents d)"
| "to_cents (ADecimal d) = decimal_to_cents d"

text \<open>A database amount is a \<^verbatim>\<open>Numeric(12, 2)\<close> column: cents with exponent \<open>-2\<close>, or NULL.\<close>

definition cents :: "int \<Rightarrow> decimal" where
  "cents c = Fin c (-2)"

lemma half_up_bounds:
  assumes "0 < d"
  shows "2 * \<bar>c\<bar> - d < 2 * d * \<bar>half_up c d\<bar> \<and> 2 * d * \<bar>half_up c d\<bar> \<le> 2 * \<bar>c\<bar> + d"
proof -
  let ?n = "2 * \<bar>c\<bar> + d" and ?m = "2 * d"
  have m: "0 < ?m" using assms by simp
  have nn: "0 \<le> ?n div ?m" using m by (simp add: pos_imp_zdiv_nonneg_iff)
  have c0: "c = 0 \<Longrightarrow> ?n div ?m = 0" using assms by (simp add: div_pos_pos_trivial)
  have eq: "\<bar>half_up c d\<bar> = ?n div ?m"
    using nn c0 by (cases "c = 0") (auto simp: half_up_def abs_mult abs_sgn_eq)
  have "?m * (?n div ?m) \<le> ?n" using m by (metis mult.commute minus_mod_eq_mult_div diff_le_self add.commute
        add_le_same_cancel1 le_add_same_cancel2 mult_div_mod_eq pos_mod_sign)
  moreover have "?n < ?m * (?n div ?m) + ?m"
    using m by (metis add_strict_left_mono mult_div_mod_eq pos_mod_bound)
  ultimately show ?thesis using eq by simp
qed

lemma half_up_sgn: "half_up c d = sgn c * \<bar>half_up c d\<bar>" if "0 < d"
proof -
  have "0 \<le> (2 * \<bar>c\<bar> + d) div (2 * d)" using that by (simp add: pos_imp_zdiv_nonneg_iff)
  then show ?thesis by (simp add: half_up_def abs_mult sgn_if)
qed

lemma decimal_to_cents_Fin:
  "decimal_to_cents (Fin c e) =
     (let q = (if -2 \<le> e then c * 10 ^ nat (e + 2) else half_up c (10 ^ nat (-2 - e)))
      in if \<bar>q\<bar> < 10 ^ 28 then Inr q else Inl ValueError)"
proof -
  have "sgn (q * 100) * (\<bar>q * 100\<bar> div 10 ^ 2) = q" for q :: int
    by (simp add: abs_mult sgn_mult mult_sgn_abs)
  then show ?thesis by (simp add: decimal_to_cents_def Let_def)
qed

lemma to_cents_cents [simp]:
  "\<bar>c\<bar> < 10 ^ 28 \<Longrightarrow> to_cents (ADecimal (cents c)) = Inr c"
  by (simp add: decimal_to_cents_Fin cents_def)

lemma nearest_half_up:
  fixes c d :: int
  assumes "0 < d"
  defines "v \<equiv> of_int c / of_int d :: rat" and "q \<equiv> of_int (half_up c d) :: rat"
  shows "2 * \<bar>q - v\<bar> \<le> 1 \<and> (2 * \<bar>q - v\<bar> = 1 \<longrightarrow> \<bar>v\<bar> < \<bar>q\<bar>)"
proof -
  have d: "(0::rat) < of_int d" using assms by simp
  have "of_int (2 * \<bar>c\<bar> - d) < (of_int (2 * d * \<bar>half_up c d\<bar>) :: rat)"
    "(of_int (2 * d * \<bar>half_up c d\<bar>) :: rat) \<le> of_int (2 * \<bar>c\<bar> + d)"
    using half_up_bounds[OF assms(1), of c] by (simp_all only: of_int_less_iff of_int_le_iff)
  then have b: "2 * \<bar>v\<bar> - 1 < 2 * \<bar>q\<bar>" "2 * \<bar>q\<bar> \<le> 2 * \<bar>v\<bar> + 1"
    using d by (simp_all add: v_def q_def abs_divide field_simps)
  have hc: "half_up c d = sgn c * \<bar>half_up c d\<bar>" using half_up_sgn[OF assms(1)] by blast
  show ?thesis
  proof (cases "0 \<le> c")
    case True
    then have "0 \<le> half_up c d" using hc by (simp add: sgn_if split: if_splits)
    then have "0 \<le> q" "0 \<le> v" using True d by (simp_all add: q_def v_def)
    with b show ?thesis by (simp add: abs_le_iff abs_if)
  next
    case False
    then have "half_up c d \<le> 0" using hc by (simp add: sgn_if)
    then have neg: "q \<le> 0" "v \<le> 0" using False d by (simp_all add: q_def v_def divide_le_0_iff)
    then have "\<bar>q\<bar> = - q" "\<bar>v\<bar> = - v" by simp_all
    with b neg show ?thesis by (auto simp: abs_if[of "q - v"])
  qed
qed

lemma hundred_decimal_rat:
  "100 * decimal_rat c e =
     (if -2 \<le> e then of_int (c * 10 ^ nat (e + 2)) else of_int c / of_int (10 ^ nat (-2 - e)))"
proof -
  consider (a) "0 \<le> e" | (b) "e = -1" | (c) "e = -2" | (d) "e < -2" by linarith
  then show ?thesis
  proof cases
    case a
    then have "nat (e + 2) = nat e + 2" by simp
    with a show ?thesis by (simp add: decimal_rat_def power_add)
  next
    case b then show ?thesis by (simp add: decimal_rat_def)
  next
    case c then show ?thesis by (simp add: decimal_rat_def)
  next
    case d
    then have "nat (- e) = nat (- 2 - e) + 2" by simp
    with d show ?thesis by (simp add: decimal_rat_def power_add)
  qed
qed

text \<open>
  C40.  On a finite decimal whose value in cents has fewer than 28 digits, \<open>to_cents\<close> returns the nearest
  integer number of cents; a value exactly between two cents goes to the one further from zero
  (ROUND_HALF_UP).
\<close>

theorem to_cents_nearest:
  assumes "\<bar>100 * decimal_rat c e\<bar> < 10 ^ 28 - 1"
  shows "\<exists>q. to_cents (ADecimal (Fin c e)) = Inr q \<and>
           2 * \<bar>of_int q - 100 * decimal_rat c e\<bar> \<le> 1 \<and>
           (2 * \<bar>of_int q - 100 * decimal_rat c e\<bar> = 1 \<longrightarrow>
              \<bar>100 * decimal_rat c e\<bar> < \<bar>of_int q\<bar>)"
proof -
  define q where "q = (if -2 \<le> e then c * 10 ^ nat (e + 2) else half_up c (10 ^ nat (-2 - e)))"
  have near: "2 * \<bar>of_int q - 100 * decimal_rat c e\<bar> \<le> 1 \<and>
     (2 * \<bar>of_int q - 100 * decimal_rat c e\<bar> = 1 \<longrightarrow> \<bar>100 * decimal_rat c e\<bar> < \<bar>of_int q\<bar>)"
    using nearest_half_up[of "10 ^ nat (-2 - e)" c]
    by (cases "-2 \<le> e") (simp_all add: q_def hundred_decimal_rat)
  have "\<bar>of_int q :: rat\<bar> < of_int (10 ^ 28)"
    using near assms by (simp add: abs_if split: if_splits)
  then have "\<bar>q\<bar> < 10 ^ 28" by linarith
  then have "to_cents (ADecimal (Fin c e)) = Inr q"
    by (simp add: decimal_to_cents_Fin q_def Let_def)
  with near show ?thesis by blast
qed

theorem to_cents_nearest_witness:
  "\<exists>q. to_cents (ADecimal (Fin 12345 (-3))) = Inr q \<and> 2 * \<bar>of_int q - 100 * decimal_rat 12345 (-3)\<bar> \<le> 1"
  using to_cents_nearest[of 12345 "-3"] by (force simp: decimal_rat_def)

section \<open>allocate\<close>

datatype weight = WInt int | WDec decimal | WBool bool | WFloat

fun fraction_of :: "weight \<Rightarrow> exn + rat" where
  "fraction_of (WInt i) = Inr (of_int i)"
| "fraction_of (WDec (Fin c e)) = Inr (decimal_rat c e)"
| "fraction_of (WDec (Inf _)) = Inl OverflowError"
| "fraction_of (WDec NaN) = Inl ValueError"
| "fraction_of (WBool _) = Inl TypeError"
| "fraction_of WFloat = Inl TypeError"

definition norm_weight :: "weight \<Rightarrow> exn + rat" where
  "norm_weight w = bindR (fraction_of w) (\<lambda>f. if f < 0 then Inl ValueError else Inr f)"

definition exact_shares :: "int \<Rightarrow> rat list \<Rightarrow> rat list" where
  "exact_shares t ws = map (\<lambda>w. of_int t * w / sum_list ws) ws"

text \<open>
  \<^verbatim>\<open>sorted(range(len(norm)), key=lambda i: (exact[i] - parts[i], -i), reverse=True)\<close>.  No two keys are
  equal, so reversing the ascending order is the descending one.
\<close>

definition by_remainder :: "rat list \<Rightarrow> int list \<Rightarrow> nat list" where
  "by_remainder exact parts =
     rev (sort_key (\<lambda>i. (exact ! i - of_int (parts ! i), - int i)) [0..<length exact])"

text \<open>\<^verbatim>\<open>xs[:k]\<close>: a negative bound counts from the end.\<close>

definition slice_to :: "int \<Rightarrow> 'a list \<Rightarrow> 'a list" where
  "slice_to k xs = (if 0 \<le> k then take (nat k) xs else take (length xs - nat (- k)) xs)"

definition bump_all :: "nat list \<Rightarrow> int list \<Rightarrow> int list" where
  "bump_all idx parts = fold (\<lambda>i ps. ps[i := ps ! i + 1]) idx parts"

function allocate :: "int \<Rightarrow> weight list \<Rightarrow> exn + int list" where
  "allocate total_cents weights =
     (if weights = [] then Inl ValueError
      else case mapR norm_weight weights of
        Inl e \<Rightarrow> Inl e
      | Inr ws \<Rightarrow>
          (let weight_sum = sum_list ws in
           if weight_sum = 0 then
             (if total_cents = 0 then Inr (replicate (length ws) 0) else Inl ValueError)
           else if total_cents < 0 then
             (case allocate (- total_cents) weights of
                Inl e \<Rightarrow> Inl e | Inr ps \<Rightarrow> Inr (map uminus ps))
           else
             (let exact = exact_shares total_cents ws;
                  parts = map floor exact;
                  leftover = total_cents - sum_list parts;
                  parts' = bump_all (slice_to leftover (by_remainder exact parts)) parts
              in if sum_list parts' \<noteq> total_cents then Inl ArithmeticError else Inr parts')))"
  by pat_completeness auto
termination
  by (relation "measure (\<lambda>(t, ws). if t < 0 then 1 else 0)") auto

declare allocate.simps [simp del]

subsection \<open>The index order and the increments\<close>

lemma set_by_remainder [simp]: "set (by_remainder exact parts) = {..<length exact}"
  by (auto simp: by_remainder_def)

lemma distinct_by_remainder [simp]: "distinct (by_remainder exact parts)"
  by (simp add: by_remainder_def)

lemma length_by_remainder [simp]: "length (by_remainder exact parts) = length exact"
  by (simp add: by_remainder_def)

lemma by_remainder_descending:
  fixes exact :: "rat list" and parts :: "int list"
  assumes "i < j" and "j < length exact"
  defines "r \<equiv> \<lambda>i. exact ! i - of_int (parts ! i)"
  shows "r (by_remainder exact parts ! j) \<le> r (by_remainder exact parts ! i)"
proof -
  let ?k = "\<lambda>i. (r i, - int i)"
  define srt where "srt = sort_key ?k [0..<length exact]"
  have len: "length srt = length exact" by (simp add: srt_def)
  have "sorted (map ?k srt)" unfolding srt_def by (rule sorted_sort_key)
  moreover have "length exact - 1 - j \<le> length exact - 1 - i" "length exact - 1 - i < length (map ?k srt)"
    using assms len by simp_all
  ultimately have "map ?k srt ! (length exact - 1 - j) \<le> map ?k srt ! (length exact - 1 - i)"
    by (rule sorted_nth_mono)
  then have "r (srt ! (length exact - 1 - j)) \<le> r (srt ! (length exact - 1 - i))"
    using assms len by (auto simp: less_eq_prod_def)
  moreover have "by_remainder exact parts = rev srt"
    by (simp add: by_remainder_def srt_def r_def)
  ultimately show ?thesis using assms len by (simp add: rev_nth)
qed

lemma length_bump_all [simp]: "length (bump_all idx parts) = length parts"
  unfolding bump_all_def by (induction idx arbitrary: parts) auto

lemma nth_bump_all:
  "distinct idx \<Longrightarrow> i < length parts \<Longrightarrow>
     bump_all idx parts ! i = parts ! i + (if i \<in> set idx then 1 else 0)"
  unfolding bump_all_def
proof (induction idx arbitrary: parts)
  case (Cons a idx)
  then show ?case by (cases "a = i") auto
qed simp

lemma sum_bump_all:
  "set idx \<subseteq> {..<length parts} \<Longrightarrow> sum_list (bump_all idx parts) = sum_list parts + int (length idx)"
  unfolding bump_all_def
  by (induction idx arbitrary: parts) (auto simp: sum_list_update_inc)

subsection \<open>Remainders\<close>

lemma sum_exact_shares:
  "sum_list ws \<noteq> 0 \<Longrightarrow> sum_list (exact_shares t ws) = of_int t"
proof -
  assume "sum_list ws \<noteq> 0"
  moreover have "sum_list (map (\<lambda>w. of_int t * w / d) xs) = of_int t * sum_list xs / (d::rat)" for d xs
    by (induction xs) (simp_all add: field_simps add_divide_distrib)
  ultimately show ?thesis by (simp add: exact_shares_def)
qed

lemma exact_shares_nonneg:
  "0 \<le> t \<Longrightarrow> (\<And>w. w \<in> set ws \<Longrightarrow> 0 \<le> w) \<Longrightarrow> e \<in> set (exact_shares t ws) \<Longrightarrow> 0 \<le> e"
proof -
  assume "0 \<le> t" and nn: "\<And>w. w \<in> set ws \<Longrightarrow> 0 \<le> w" and "e \<in> set (exact_shares t ws)"
  moreover have "0 \<le> sum_list ws" using nn by (simp add: sum_list_nonneg)
  ultimately show ?thesis by (auto simp: exact_shares_def)
qed

lemma sum_list_nth: "sum_list xs = (\<Sum>i<length xs. xs ! i)"
  by (simp add: sum_list_sum_nth atLeast0LessThan)

text \<open>
  The cents left over after flooring are the sum of the fractional parts, so there are at most as many
  of them as there are positive fractional parts.
\<close>

lemma sum_below_card:
  fixes r :: "nat \<Rightarrow> rat"
  assumes "finite A" and "\<And>i. i \<in> A \<Longrightarrow> 0 \<le> r i \<and> r i < 1" and "\<exists>i\<in>A. 0 < r i"
  shows "sum r A < of_nat (card {i \<in> A. 0 < r i})"
proof -
  have "sum r A = sum r {i \<in> A. 0 < r i}"
    using assms(1,2) by (intro sum.mono_neutral_right) force+
  also have "\<dots> < (\<Sum>i\<in>{i \<in> A. 0 < r i}. 1)"
    using assms by (intro sum_strict_mono) auto
  finally show ?thesis by simp
qed

lemma leftover_remainders:
  fixes exact :: "rat list" and t :: int
  assumes "sum_list exact = of_int t"
  shows "of_int (t - sum_list (map floor exact)) = (\<Sum>i<length exact. exact ! i - of_int \<lfloor>exact ! i\<rfloor>)"
proof -
  have "(\<Sum>i<length exact. exact ! i - of_int \<lfloor>exact ! i\<rfloor>) =
        (\<Sum>i<length exact. exact ! i) - of_int (\<Sum>i<length exact. \<lfloor>exact ! i\<rfloor>)"
    by (simp add: sum_subtractf)
  then show ?thesis using assms by (simp add: sum_list_nth)
qed

lemma leftover_bounds:
  fixes exact :: "rat list" and t :: int
  assumes "sum_list exact = of_int t"
  defines "leftover \<equiv> t - sum_list (map floor exact)"
  shows "0 \<le> leftover" and "nat leftover \<le> card {i. i < length exact \<and> 0 < exact ! i - of_int \<lfloor>exact ! i\<rfloor>}"
proof -
  let ?r = "\<lambda>i. exact ! i - of_int \<lfloor>exact ! i\<rfloor>"
  let ?P = "{i \<in> {..<length exact}. 0 < ?r i}"
  have rng: "0 \<le> ?r i \<and> ?r i < 1" for i by linarith
  have lo: "of_int leftover = sum ?r {..<length exact}"
    unfolding leftover_def by (rule leftover_remainders[OF assms(1)])
  have "0 \<le> sum ?r {..<length exact}" using rng by (intro sum_nonneg) blast
  with lo show nn: "0 \<le> leftover" by (metis of_int_0_le_iff)
  have "nat leftover \<le> card ?P"
  proof (cases "\<exists>i\<in>{..<length exact}. 0 < ?r i")
    case True
    then have "sum ?r {..<length exact} < of_nat (card ?P)"
      using rng by (intro sum_below_card) auto
    then have "(of_int leftover :: rat) < of_int (int (card ?P))" using lo by simp
    then show ?thesis using nn by linarith
  next
    case False
    then have "?r i = 0" if "i < length exact" for i using rng[of i] that by (metis lessThan_iff order_le_less)
    then have "sum ?r {..<length exact} = 0" by simp
    then show ?thesis using lo by simp
  qed
  then show "nat leftover \<le> card {i. i < length exact \<and> 0 < ?r i}" by simp
qed

lemma taken_have_remainder:
  fixes r :: "nat \<Rightarrow> rat"
  assumes "distinct ord" and "set ord = {..<n}" and "length ord = n"
    and desc: "\<And>i j. i < j \<Longrightarrow> j < n \<Longrightarrow> r (ord ! j) \<le> r (ord ! i)"
    and "k \<le> card {i. i < n \<and> 0 < r i}" and "x \<in> set (take k ord)"
  shows "0 < r x"
proof (rule ccontr)
  assume nx: "\<not> 0 < r x"
  obtain p where p: "p < k" "p < n" "ord ! p = x"
    using assms(3,6) by (auto simp: in_set_conv_nth)
  have "{i. i < n \<and> 0 < r i} \<subseteq> set (take p ord)"
  proof
    fix i assume "i \<in> {i. i < n \<and> 0 < r i}"
    then obtain q where q: "q < n" "ord ! q = i" "0 < r i"
      using assms(2,3) by (metis (no_types, lifting) in_set_conv_nth lessThan_iff mem_Collect_eq)
    have "q < p"
    proof (rule ccontr)
      assume "\<not> q < p"
      then have "r (ord ! q) \<le> r (ord ! p)"
        using desc[of p q] q(1) by (cases "p = q") auto
      with q p nx show False by simp
    qed
    then show "i \<in> set (take p ord)" using q p assms(3) by (auto simp: in_set_conv_nth)
  qed
  then have "card {i. i < n \<and> 0 < r i} \<le> card (set (take p ord))" by (intro card_mono) auto
  also have "\<dots> \<le> p" by (metis card_length length_take min.cobounded2 order_trans)
  finally show False using p assms(5) by simp
qed

subsection \<open>Correctness of allocate\<close>

lemma norm_weight_nonneg: "norm_weight w = Inr f \<Longrightarrow> 0 \<le> f"
  by (auto simp: norm_weight_def bindR_eq_Inr split: if_splits)

lemma norm_weights_nonneg: "mapR norm_weight ws = Inr fs \<Longrightarrow> f \<in> set fs \<Longrightarrow> 0 \<le> f"
  by (auto simp: mapR_Inr_iff list_all2_conv_all_nth in_set_conv_nth dest!: norm_weight_nonneg)

lemma mapR_length: "mapR f xs = Inr ys \<Longrightarrow> length ys = length xs"
  by (simp add: mapR_Inr_iff list_all2_lengthD)

text \<open>The largest-remainder split of a non-negative total, as the body of \<open>allocate\<close> computes it.\<close>

lemma split_correct:
  fixes exact :: "rat list" and t :: int
  assumes sum: "sum_list exact = of_int t"
  defines "parts \<equiv> map floor exact"
  defines "res \<equiv> bump_all (slice_to (t - sum_list parts) (by_remainder exact parts)) parts"
  shows "sum_list res = t" and "\<And>i. i < length exact \<Longrightarrow> \<bar>of_int (res ! i) - exact ! i\<bar> < 1"
proof -
  let ?r = "\<lambda>i. exact ! i - of_int (parts ! i)"
  define k where "k = nat (t - sum_list parts)"
  define idx where "idx = take k (by_remainder exact parts)"
  have k0: "0 \<le> t - sum_list parts"
    and kc: "k \<le> card {i. i < length exact \<and> 0 < exact ! i - of_int \<lfloor>exact ! i\<rfloor>}"
    unfolding parts_def k_def using leftover_bounds[OF sum] by blast+
  have eqc: "{i. i < length exact \<and> 0 < exact ! i - of_int \<lfloor>exact ! i\<rfloor>} =
             {i. i < length exact \<and> 0 < ?r i}" by (auto simp: parts_def)
  have "card {i. i < length exact \<and> 0 < exact ! i - of_int \<lfloor>exact ! i\<rfloor>} \<le> card {..<length exact}"
    by (rule card_mono) auto
  with kc have kn: "k \<le> length exact" by simp
  have slice: "slice_to (t - sum_list parts) (by_remainder exact parts) = idx"
    using k0 by (simp add: slice_to_def idx_def k_def)
  have d: "distinct idx" by (simp add: idx_def)
  have sub: "set idx \<subseteq> {..<length parts}"
    using set_take_subset[of k "by_remainder exact parts"] by (auto simp: idx_def parts_def)
  have "length idx = k" using kn by (simp add: idx_def)
  then have "int (length idx) = t - sum_list parts" using k0 by (simp add: k_def)
  then show "sum_list res = t"
    unfolding res_def slice using sum_bump_all[OF sub] by simp
  fix i assume i: "i < length exact"
  have resi: "res ! i = parts ! i + (if i \<in> set idx then 1 else 0)"
    unfolding res_def slice using nth_bump_all[OF d] i by (simp add: parts_def)
  have "0 < ?r i" if "i \<in> set idx"
  proof (rule taken_have_remainder)
    show "k \<le> card {i. i < length exact \<and> 0 < ?r i}" using kc eqc by simp
    show "i \<in> set (take k (by_remainder exact parts))" using that by (simp add: idx_def)
  qed (auto intro: by_remainder_descending)
  moreover have "of_int (parts ! i) \<le> exact ! i \<and> exact ! i < of_int (parts ! i) + 1"
    using i floor_correct[of "exact ! i"] by (simp add: parts_def)
  ultimately show "\<bar>of_int (res ! i) - exact ! i\<bar> < 1"
    unfolding resi by (cases "i \<in> set idx") auto
qed

lemma allocate_nonneg:
  assumes "mapR norm_weight ws = Inr fs" and "0 < sum_list fs" and "0 \<le> t"
  shows "\<exists>ps. allocate t ws = Inr ps \<and> sum_list ps = t \<and> length ps = length ws \<and>
           (\<forall>i<length ws. \<bar>of_int (ps ! i) - of_int t * fs ! i / sum_list fs\<bar> < 1)"
proof -
  have ne: "ws \<noteq> []" using assms by (cases ws) auto
  have len: "length fs = length ws" using mapR_length[OF assms(1)] .
  define exact where "exact = exact_shares t fs"
  define res where "res = bump_all (slice_to (t - sum_list (map floor exact)) (by_remainder exact (map floor exact))) (map floor exact)"
  have se: "sum_list exact = of_int t" unfolding exact_def using assms(2) by (simp add: sum_exact_shares)
  note sc = split_correct[OF se, folded res_def]
  have "allocate t ws = Inr res"
    using assms ne sc(1)
    by (simp add: allocate.simps[of t ws] Let_def exact_def[symmetric] res_def[symmetric])
  moreover have "length res = length ws" by (simp add: res_def exact_def exact_shares_def len)
  moreover have "\<bar>of_int (res ! i) - of_int t * fs ! i / sum_list fs\<bar> < 1" if "i < length ws" for i
  proof -
    have "i < length exact" using that len by (simp add: exact_def exact_shares_def)
    then show ?thesis using sc(2)[of i] that len by (simp add: exact_def exact_shares_def)
  qed
  ultimately show ?thesis using sc(1) by blast
qed

lemma allocate_negate:
  assumes "t < 0" and "mapR norm_weight ws = Inr fs" and "0 < sum_list fs"
  shows "allocate t ws = (case allocate (- t) ws of Inl e \<Rightarrow> Inl e | Inr ps \<Rightarrow> Inr (map uminus ps))"
proof -
  have "ws \<noteq> []" using assms by (cases ws) auto
  with assms show ?thesis by (simp add: allocate.simps[of t ws])
qed

lemma allocate_total:
  assumes "mapR norm_weight ws = Inr fs" and "0 < sum_list fs"
  shows "\<exists>ps. allocate t ws = Inr ps \<and> sum_list ps = t \<and> length ps = length ws \<and>
           (\<forall>i<length ws. \<bar>of_int (ps ! i) - of_int t * fs ! i / sum_list fs\<bar> < 1)"
proof (cases "0 \<le> t")
  case True
  with assms show ?thesis by (rule allocate_nonneg)
next
  case False
  then obtain ps where ps: "allocate (- t) ws = Inr ps" "sum_list ps = - t" "length ps = length ws"
      "\<forall>i<length ws. \<bar>of_int (ps ! i) - of_int (- t) * fs ! i / sum_list fs\<bar> < 1"
    using allocate_nonneg[OF assms, of "- t"] by auto
  have "allocate t ws = Inr (map uminus ps)"
    using allocate_negate[OF _ assms, of t] False ps(1) by simp
  moreover have "sum_list (map uminus ps) = t" using ps(2) sum_list_uminus[of id ps] by simp
  moreover have "\<bar>of_int (map uminus ps ! i) - of_int t * fs ! i / sum_list fs\<bar> < 1" if "i < length ws" for i
  proof -
    have "of_int (map uminus ps ! i) - of_int t * fs ! i / sum_list fs =
          - (of_int (ps ! i) - of_int (- t) * fs ! i / sum_list fs)" using that ps(3) by simp
    then show ?thesis using ps(4) that by (metis abs_minus_cancel)
  qed
  ultimately show ?thesis using ps(3) by (metis length_map)
qed

text \<open>
  C34.  On weights that are integers or finite decimals, none negative and not all zero, \<open>allocate\<close>
  returns for every total, negative ones included: one part per weight, the parts add up to the total
  to the cent, and every part is within one cent of its exact proportional share.
\<close>

theorem allocate_correct:
  assumes "mapR norm_weight ws = Inr fs" and "0 < sum_list fs"
  shows "\<exists>ps. allocate t ws = Inr ps \<and> sum_list ps = t \<and> length ps = length ws \<and>
           (\<forall>i<length ws. \<bar>of_int (ps ! i) - of_int t * fs ! i / sum_list fs\<bar> < 1)"
  using assms by (rule allocate_total)

theorem allocate_correct_witness:
  "\<exists>ps. allocate (- 100) [WInt 1, WDec (Fin 10 (-1)), WInt 1] = Inr ps \<and> sum_list ps = - 100 \<and> length ps = 3"
  using allocate_correct[of "[WInt 1, WDec (Fin 10 (-1)), WInt 1]" "[1, 1, 1]" "- 100"]
  by (force simp: norm_weight_def decimal_rat_def)

text \<open>
  The failures of \<open>allocate\<close> are exactly the refused inputs: no weights at all, a weight that is
  not an exact number or is negative, or a nonzero total over weights that are all zero.  In particular
  the ArithmeticError guarding the sum is unreachable.
\<close>

theorem allocate_fails_iff:
  "(\<exists>e. allocate t ws = Inl e) \<longleftrightarrow>
     ws = [] \<or> (\<exists>e. mapR norm_weight ws = Inl e) \<or>
     (\<exists>fs. mapR norm_weight ws = Inr fs \<and> sum_list fs = 0 \<and> t \<noteq> 0)"
proof (cases "mapR norm_weight ws")
  case (Inl e)
  then show ?thesis by (auto simp: allocate.simps[of t ws])
next
  case (Inr fs)
  have nn: "0 \<le> sum_list fs" using norm_weights_nonneg[OF Inr] by (simp add: sum_list_nonneg)
  show ?thesis
  proof (cases "sum_list fs = 0")
    case True
    then show ?thesis using Inr by (auto simp: allocate.simps[of t ws])
  next
    case False
    then have "0 < sum_list fs" using nn by simp
    from allocate_total[OF Inr this, of t] show ?thesis using Inr False by (cases ws) auto
  qed
qed

end
