(* ===== verification/Ledger_Models.thy ===== *)
theory Ledger_Models
  imports Money
begin

text \<open>
  \<^verbatim>\<open>modules/ledger/models.py\<close> and the operational rows of \<^verbatim>\<open>models/tenant_models.py\<close> that the posting rules
  read: the tables as records, one database state, the supply of row identifiers, and the ambient
  values (shop calendar, digest function, session dialect) a posting reads from outside.
\<close>

section \<open>Identifiers\<close>

text \<open>
  A row id is a UUID.  \<^verbatim>\<open>uuid4()\<close> is modelled by a counter in the database state that never repeats,
  and \<^verbatim>\<open>str(uuid)\<close> by the 8-4-4-4-12 hexadecimal rendering.
\<close>

type_synonym uuid = nat

definition hex_digit :: "nat \<Rightarrow> char" where
  "hex_digit d = (if d < 10 then char_of (48 + d) else char_of (87 + d))"

definition hex_val :: "char \<Rightarrow> nat" where
  "hex_val c = (if (of_char c :: nat) < 58 then of_char c - 48 else of_char c - 87)"

definition is_hex :: "char \<Rightarrow> bool" where
  "is_hex c \<longleftrightarrow> is_digit c \<or> (97 \<le> (of_char c :: nat) \<and> (of_char c :: nat) \<le> 102)"

fun hex_str :: "nat \<Rightarrow> string" where
  "hex_str n = (if n < 16 then [hex_digit n] else hex_str (n div 16) @ [hex_digit (n mod 16)])"

declare hex_str.simps [simp del]

definition str_hex :: "string \<Rightarrow> nat" where
  "str_hex s = foldl (\<lambda>a c. 16 * a + hex_val c) 0 s"

definition uuid_str :: "uuid \<Rightarrow> string" where
  "uuid_str u = (let h = pad 32 (hex_str u) in
     take 8 h @ CHR ''-'' # take 4 (drop 8 h) @ CHR ''-'' # take 4 (drop 12 h) @ CHR ''-'' #
     take 4 (drop 16 h) @ CHR ''-'' # drop 20 h)"

lemma hex_val_hex_digit: "d < 16 \<Longrightarrow> hex_val (hex_digit d) = d"
  by (auto simp: hex_val_def hex_digit_def)

lemma is_hex_hex_digit: "d < 16 \<Longrightarrow> is_hex (hex_digit d)"
  by (auto simp: is_hex_def is_digit_def hex_digit_def)

lemma str_hex_hex_str: "str_hex (hex_str n) = n"
proof (induction n rule: hex_str.induct)
  case (1 n)
  then show ?case
    by (cases "n < 16") (simp_all add: hex_str.simps[of n] str_hex_def hex_val_hex_digit)
qed

lemma hex_str_hex: "c \<in> set (hex_str n) \<Longrightarrow> is_hex c"
proof (induction n rule: hex_str.induct)
  case (1 n)
  then show ?case
    by (cases "n < 16") (auto simp: hex_str.simps[of n] is_hex_hex_digit)
qed

lemma str_hex_pad: "str_hex (pad w s) = str_hex s"
proof -
  have "str_hex (replicate k (CHR ''0'') @ s) = str_hex s" for k
    by (induction k) (simp_all add: str_hex_def hex_val_def)
  then show ?thesis by (simp add: pad_def)
qed

lemma pad_hex_str_hex: "c \<in> set (pad w (hex_str n)) \<Longrightarrow> is_hex c"
proof -
  have "is_hex (CHR ''0'')" by (simp add: is_hex_def is_digit_def)
  moreover assume "c \<in> set (pad w (hex_str n))"
  ultimately show ?thesis using hex_str_hex[of c n] by (auto simp: pad_def)
qed

lemma not_is_hex [simp]: "\<not> is_hex (CHR '':'')" "\<not> is_hex (CHR ''-'')"
  by (simp_all add: is_hex_def is_digit_def)

lemma uuid_str_chars: "c \<in> set (uuid_str u) \<Longrightarrow> is_hex c \<or> c = CHR ''-''"
proof -
  have "c \<in> set (pad 32 (hex_str u)) \<Longrightarrow> is_hex c" for c by (rule pad_hex_str_hex)
  moreover assume "c \<in> set (uuid_str u)"
  ultimately show ?thesis by (auto simp: uuid_str_def Let_def dest!: in_set_takeD in_set_dropD)
qed

lemma uuid_str_undash: "filter (\<lambda>c. c \<noteq> CHR ''-'') (uuid_str u) = pad 32 (hex_str u)"
proof -
  define h where "h = pad 32 (hex_str u)"
  have keep: "filter (\<lambda>c. c \<noteq> CHR ''-'') xs = xs" if "set xs \<subseteq> set h" for xs
  proof -
    have "CHR ''-'' \<notin> set h" using pad_hex_str_hex[of "CHR ''-''" 32 u] not_is_hex(2) by (auto simp: h_def)
    then show ?thesis using that by (auto intro!: filter_True)
  qed
  have step: "take 4 (drop k h) @ drop (k + 4) h = drop k h" for k
    by (metis append_take_drop_id drop_drop add.commute)
  have "filter (\<lambda>c. c \<noteq> CHR ''-'') (uuid_str u) =
        take 8 h @ take 4 (drop 8 h) @ take 4 (drop 12 h) @ take 4 (drop 16 h) @ drop 20 h"
    unfolding uuid_str_def Let_def h_def[symmetric]
    by (simp add: keep set_take_subset set_drop_subset order_trans[OF set_take_subset set_drop_subset])
  also have "\<dots> = h"
    using step[of 8] step[of 12] step[of 16] by simp
  finally show ?thesis by (simp add: h_def)
qed

lemma uuid_str_inject [simp]: "uuid_str u = uuid_str v \<longleftrightarrow> u = v"
  by (metis uuid_str_undash str_hex_pad str_hex_hex_str)

lemma uuid_str_no_colon [simp]: "CHR '':'' \<notin> set (uuid_str u)"
  using uuid_str_chars[of "CHR '':''" u] by auto

lemma uuid_str_not_Nil [simp]: "uuid_str u \<noteq> []"
  by (simp add: uuid_str_def Let_def)

section \<open>Roles, accounts, entries and lines\<close>

abbreviation "ROLE_AR \<equiv> ''AR''"
abbreviation "ROLE_UNDEPOSITED \<equiv> ''UNDEPOSITED''"
abbreviation "ROLE_OPERATING_BANK \<equiv> ''OPERATING_BANK''"
abbreviation "ROLE_SALES_TAX_PAYABLE \<equiv> ''SALES_TAX_PAYABLE''"
abbreviation "ROLE_CUSTOMER_CREDITS \<equiv> ''CUSTOMER_CREDITS''"
abbreviation "ROLE_SALES_FALLBACK \<equiv> ''SALES_FALLBACK''"
abbreviation "ROLE_DISCOUNTS \<equiv> ''DISCOUNTS''"
abbreviation "ROLE_REFUNDS \<equiv> ''REFUNDS''"
abbreviation "ROLE_OPENING_EQUITY \<equiv> ''OPENING_EQUITY''"
abbreviation "ROLE_ROUNDING \<equiv> ''ROUNDING''"
abbreviation "ROLE_WAGES \<equiv> ''WAGES''"
abbreviation "ROLE_PAYROLL_TAX \<equiv> ''PAYROLL_TAX''"
abbreviation "ROLE_EXPENSE_FALLBACK \<equiv> ''EXPENSE_FALLBACK''"
abbreviation "ROLE_SURCHARGE_INCOME \<equiv> ''SURCHARGE_INCOME''"

definition ALL_ROLES :: "string list" where
  "ALL_ROLES =
     [ROLE_AR, ROLE_UNDEPOSITED, ROLE_OPERATING_BANK, ROLE_SALES_TAX_PAYABLE, ROLE_CUSTOMER_CREDITS,
      ROLE_SALES_FALLBACK, ROLE_DISCOUNTS, ROLE_REFUNDS, ROLE_OPENING_EQUITY, ROLE_ROUNDING,
      ROLE_WAGES, ROLE_PAYROLL_TAX, ROLE_EXPENSE_FALLBACK, ROLE_SURCHARGE_INCOME]"

datatype account_type = Asset | Liability | Equity | Revenue | Expense

datatype entry_status = Posted | Reversed

record gl_account =
  a_id :: uuid
  a_code :: string
  a_name :: string
  a_type :: account_type
  a_parent :: "uuid option"
  a_role :: "string option"
  a_is_system :: bool
  a_active :: bool
  a_company :: string

record gl_entry =
  e_id :: uuid
  e_no :: nat
  e_effective_at :: date
  e_status :: entry_status
  e_source_type :: "string option"
  e_source_id :: "string option"
  e_key :: "string option"
  e_reverses :: "uuid option"
  e_reversed_by :: "uuid option"
  e_created_txid :: nat
  e_created_by :: "string option"
  e_company :: string
  e_created_at :: datetime

record gl_line =
  l_id :: uuid
  l_entry :: uuid
  l_account :: uuid
  l_amount :: int
  l_memo :: "string option"
  l_job :: "uuid option"
  l_customer :: "uuid option"

record gl_lock =
  k_date :: date
  k_company :: string

text \<open>JSON maps are association lists; a NULL column is \<open>None\<close>.\<close>

type_synonym json_map = "(string \<times> string) list"

record gl_settings =
  s_company :: string
  s_enabled :: bool
  s_cutover :: "date option"
  s_payment_map :: "json_map option"
  s_reason_map :: "json_map option"
  s_expense_map :: "json_map option"
  s_revenue_map :: "json_map option"
  s_cpa_review :: "json_map option"

section \<open>Operational rows\<close>

datatype invoice_status = Draft | Sent | Paid | Overdue | Void

datatype adjustment_kind = CreditMemo | Refund | CreditApplied

record invoice =
  i_id :: uuid
  i_company :: string
  i_number :: string
  i_status :: invoice_status
  i_total :: "decimal option"
  i_balance_due :: "decimal option"
  i_tax_amount :: "decimal option"
  i_job :: "uuid option"
  i_customer :: "uuid option"
  i_invoice_date :: "date option"
  i_sent_at :: "datetime option"
  i_created_at :: "datetime option"
  i_deleted_at :: "datetime option"

record invoice_line =
  il_invoice :: uuid
  il_description :: "string option"
  il_line_total :: "decimal option"
  il_category :: "string option"
  il_deleted_at :: "datetime option"

record payment =
  p_id :: uuid
  p_invoice :: uuid
  p_amount :: "decimal option"
  p_surcharge :: "decimal option"
  p_method :: "string option"
  p_date :: "date option"
  p_created_at :: "datetime option"
  p_voided_at :: "datetime option"

record adjustment =
  adj_id :: uuid
  adj_invoice :: uuid
  adj_kind :: adjustment_kind
  adj_amount :: "decimal option"
  adj_reason :: "string option"
  adj_refund_method :: "string option"
  adj_created_at :: "datetime option"

record expense =
  x_id :: uuid
  x_company :: string
  x_vendor :: string
  x_amount :: "decimal option"
  x_date :: "date option"
  x_category :: "string option"
  x_job :: "uuid option"
  x_created_at :: "datetime option"
  x_deleted_at :: "datetime option"
  x_lines :: "decimal option list"

section \<open>The database state and the environment of a call\<close>

datatype audit_row = PostedIntoLockedPeriod string "string option" date date string

datatype domain_event = InvoicePaid uuid int

text \<open>
  The rows one session sees.  \<open>db_uuid\<close> and \<open>db_entry_no\<close> are the identifier supply and the entry-number
  SEQUENCE; \<open>db_sanctions\<close> and \<open>db_registry\<close> are the transient sanction stamps of the chokepoint and
  the session's list of stamped invoices.
\<close>

record gl_db =
  db_accounts :: "gl_account list"
  db_entries :: "gl_entry list"
  db_lines :: "gl_line list"
  db_settings :: "gl_settings list"
  db_locks :: "gl_lock list"
  db_audit :: "audit_row list"
  db_invoices :: "invoice list"
  db_invoice_lines :: "invoice_line list"
  db_payments :: "payment list"
  db_adjustments :: "adjustment list"
  db_expenses :: "expense list"
  db_events :: "domain_event list"
  db_sanctions :: "(uuid \<times> invoice_status) list"
  db_registry :: "uuid list"
  db_uuid :: uuid
  db_entry_no :: nat

text \<open>
  What a call reads from outside the database: the SHA-256 hexdigest, the clock, the process's own date, the shop's calendar
  (\<^verbatim>\<open>core/pay_periods.py\<close> over the time-zone database) and the id of the running transaction.
\<close>

record gl_env =
  sha256_hex :: "string \<Rightarrow> string"
  now_utc :: datetime
  local_today :: date
  shop_today :: date
  shop_day :: "datetime \<Rightarrow> date"
  txid_current :: nat

type_synonym 'a gl = "(gl_db, exn, 'a) sem"

definition empty_db :: gl_db where
  "empty_db = \<lparr>db_accounts = [], db_entries = [], db_lines = [], db_settings = [], db_locks = [],
     db_audit = [], db_invoices = [], db_invoice_lines = [], db_payments = [], db_adjustments = [], db_expenses = [],
     db_events = [], db_sanctions = [], db_registry = [], db_uuid = 0, db_entry_no = 0\<rparr>"

text \<open>\<^verbatim>\<open>_dec\<close>: NULL counts as zero.\<close>

definition dec :: "decimal option \<Rightarrow> decimal" where
  "dec v = (case v of None \<Rightarrow> Fin 0 0 | Some d \<Rightarrow> d)"

text \<open>\<^verbatim>\<open>to_cents(_dec(v))\<close>, the conversion every rule applies to a money column.\<close>

definition col_cents :: "decimal option \<Rightarrow> exn + int" where
  "col_cents v = to_cents (ADecimal (dec v))"

lemma col_cents_simps [simp]:
  "col_cents None = Inr 0"
  "\<bar>c\<bar> < 10 ^ 28 \<Longrightarrow> col_cents (Some (cents c)) = Inr c"
  by (simp_all add: col_cents_def dec_def decimal_to_cents_Fin cents_def)

end
