(* ===== verification/Ledger_Keys.thy ===== *)
theory Ledger_Keys
  imports Ledger_Models "HOL-Library.List_Lexorder" "HOL-Library.Char_ord"
begin

text \<open>
  \<^verbatim>\<open>modules/ledger/keys.py\<close>: the canonical JSON form and its digest, the SQL LIKE patterns built from key
  prefixes, and the colon-joined idempotency keys.  The lemmas show that the canonical text determines
  the content, that an escaped pattern matches exactly the strings with that literal prefix, and that
  the key format is injective, so that counting the reversed keys under a prefix counts the reversals
  of one event with one content and of nothing else.
\<close>

section \<open>Canonical content\<close>

text \<open>What may be passed as canonical fields, before validation.\<close>

datatype pyval =
    PNone
  | PBool bool
  | PInt int
  | PStr string
  | PFloat
  | PSeq "pyval list"
  | PMap "(pyval \<times> pyval) list"
  | POther

datatype json =
    JNull
  | JBool bool
  | JInt int
  | JStr string
  | JList "json list"
  | JObj "(string \<times> json) list"

text \<open>\<^verbatim>\<open>_validate_canonical\<close>: the value again, as JSON, or the TypeError.\<close>

fun validate_canonical :: "pyval \<Rightarrow> exn + json"
  and validate_seq :: "pyval list \<Rightarrow> exn + json list"
  and validate_items :: "(pyval \<times> pyval) list \<Rightarrow> exn + (string \<times> json) list" where
  "validate_canonical PNone = Inr JNull"
| "validate_canonical (PStr s) = Inr (JStr s)"
| "validate_canonical (PBool b) = Inr (JBool b)"
| "validate_canonical (PInt i) = Inr (JInt i)"
| "validate_canonical PFloat = Inl TypeError"
| "validate_canonical (PMap kvs) = bindR (validate_items kvs) (\<lambda>r. Inr (JObj r))"
| "validate_canonical (PSeq xs) = bindR (validate_seq xs) (\<lambda>r. Inr (JList r))"
| "validate_canonical POther = Inl TypeError"
| "validate_seq [] = Inr []"
| "validate_seq (x # xs) = bindR (validate_canonical x) (\<lambda>j. bindR (validate_seq xs) (\<lambda>r. Inr (j # r)))"
| "validate_items [] = Inr []"
| "validate_items (kv # kvs) =
     (case fst kv of
        PStr k \<Rightarrow> bindR (validate_canonical (snd kv)) (\<lambda>j. bindR (validate_items kvs) (\<lambda>r. Inr ((k, j) # r)))
      | _ \<Rightarrow> Inl TypeError)"

subsection \<open>\<^verbatim>\<open>json.dumps(fields, sort_keys=True, separators=(",", ":"))\<close>\<close>

definition hex4 :: "nat \<Rightarrow> string" where
  "hex4 n = ''00'' @ [hex_digit (n div 16), hex_digit (n mod 16)]"

definition quote :: char where
  "quote = CHR 0x22"

definition backslash :: char where
  "backslash = CHR 0x5C"

definition short_esc :: "nat \<Rightarrow> char option" where
  "short_esc n =
     (if n = 34 then Some quote
      else if n = 92 then Some backslash
      else if n = 8 then Some (CHR ''b'')
      else if n = 9 then Some (CHR ''t'')
      else if n = 10 then Some (CHR ''n'')
      else if n = 12 then Some (CHR ''f'')
      else if n = 13 then Some (CHR ''r'')
      else None)"

definition json_esc :: "char \<Rightarrow> string" where
  "json_esc c =
     (let n = (of_char c :: nat) in
      case short_esc n of
        Some e \<Rightarrow> [backslash, e]
      | None \<Rightarrow> if 32 \<le> n \<and> n \<le> 126 then [c] else backslash # CHR ''u'' # hex4 n)"

fun json_str_body :: "string \<Rightarrow> string" where
  "json_str_body [] = [quote]"
| "json_str_body (c # s) = json_esc c @ json_str_body s"

definition json_str :: "string \<Rightarrow> string" where
  "json_str s = quote # json_str_body s"

fun render :: "json \<Rightarrow> string"
  and render_list :: "json list \<Rightarrow> string"
  and render_items :: "(string \<times> json) list \<Rightarrow> string" where
  "render JNull = ''null''"
| "render (JBool b) = (if b then ''true'' else ''false'')"
| "render (JInt i) = int_str i"
| "render (JStr s) = json_str s"
| "render (JList xs) = CHR ''['' # render_list xs"
| "render (JObj kvs) = CHR ''{'' # render_items kvs"
| "render_list [] = '']''"
| "render_list (x # xs) = render x @ (if xs = [] then '']'' else CHR '','' # render_list xs)"
| "render_items [] = ''}''"
| "render_items (kv # kvs) =
     json_str (fst kv) @ CHR '':'' # render (snd kv) @ (if kvs = [] then ''}'' else CHR '','' # render_items kvs)"

fun sort_keys :: "json \<Rightarrow> json" where
  "sort_keys (JList xs) = JList (map sort_keys xs)"
| "sort_keys (JObj kvs) = JObj (sort_key fst (map (\<lambda>(k, v). (k, sort_keys v)) kvs))"
| "sort_keys j = j"

definition json_dumps :: "json \<Rightarrow> string" where
  "json_dumps j = render (sort_keys j)"

definition content_hash :: "gl_env \<Rightarrow> pyval \<Rightarrow> exn + string" where
  "content_hash env flds =
     bindR (validate_canonical flds) (\<lambda>j. Inr (take 16 (sha256_hex env (json_dumps j))))"

subsection \<open>The canonical text determines the content\<close>

text \<open>\<open>stops x\<close>: what may follow a value inside a JSON text never continues a number.\<close>

definition stops :: "string \<Rightarrow> bool" where
  "stops x \<longleftrightarrow> (case x of [] \<Rightarrow> True | c # _ \<Rightarrow> \<not> is_digit c \<and> c \<noteq> CHR ''-'')"

lemma stops_simps [simp]:
  "stops []" "stops (CHR '','' # x)" "stops (CHR '']'' # x)" "stops (CHR ''}'' # x)"
  by (simp_all add: stops_def)

lemma int_str_append_inject:
  assumes "int_str i @ x = int_str j @ y" and "stops x" and "stops y"
  shows "i = j \<and> x = y"
proof -
  let ?P = "\<lambda>c. is_digit c \<or> c = CHR ''-''"
  have "takeWhile ?P (int_str i @ x) = int_str i" "takeWhile ?P (int_str j @ y) = int_str j"
    using assms(2,3) int_str_chars
    by (auto simp: stops_def takeWhile_append2 split: list.splits)
  then have "int_str i = int_str j" using assms(1) by simp
  then show ?thesis using assms(1) by simp
qed

lemma hex4_inject:
  "m < 256 \<Longrightarrow> n < 256 \<Longrightarrow> hex4 m @ x = hex4 n @ y \<longleftrightarrow> m = n \<and> x = y"
proof
  assume "m < 256" "n < 256" "hex4 m @ x = hex4 n @ y"
  then have "hex_digit (m div 16) = hex_digit (n div 16)" "hex_digit (m mod 16) = hex_digit (n mod 16)" "x = y"
    by (simp_all add: hex4_def)
  moreover have "m div 16 < 16" "n div 16 < 16" using \<open>m < 256\<close> \<open>n < 256\<close> by simp_all
  ultimately have "m div 16 = n div 16" "m mod 16 = n mod 16" "x = y"
    by (metis hex_val_hex_digit mod_less_divisor zero_less_numeral)+
  then show "m = n \<and> x = y" by (metis div_mult_mod_eq)
qed auto

lemma of_char_less_256: "(of_char c :: nat) < 256"
  by (metis nat_of_char_less_256)

lemma short_esc_inject: "short_esc m = Some e \<Longrightarrow> short_esc n = Some e \<Longrightarrow> m = n"
  by (auto simp: short_esc_def quote_def backslash_def split: if_splits)

lemma short_esc_not_u: "short_esc m \<noteq> Some (CHR ''u'')"
  by (simp add: short_esc_def quote_def backslash_def)

lemma json_esc_cases:
  obtains (short) e where "short_esc (of_char c) = Some e" "json_esc c = [backslash, e]"
  | (plain) "c \<noteq> backslash" "c \<noteq> quote" "json_esc c = [c]"
  | (unicode) "json_esc c = backslash # CHR ''u'' # hex4 (of_char c)"
proof (cases "short_esc (of_char c)")
  case (Some e)
  then show ?thesis using short by (simp add: json_esc_def)
next
  case None
  then have "c \<noteq> backslash" "c \<noteq> quote" by (auto simp: short_esc_def backslash_def quote_def)
  then show ?thesis using None plain unicode
    by (cases "32 \<le> (of_char c :: nat) \<and> (of_char c :: nat) \<le> 126") (simp_all add: json_esc_def)
qed

lemma json_esc_inject:
  assumes eq: "json_esc c @ x = json_esc d @ y"
  shows "c = d \<and> x = y"
proof (cases c rule: json_esc_cases)
  case c: (short e)
  show ?thesis
  proof (cases d rule: json_esc_cases)
    case (short f)
    then have "(of_char c :: nat) = of_char d" using eq c by (intro short_esc_inject[of _ e]) auto
    then show ?thesis using eq c short by simp
  next
    case plain
    then show ?thesis using eq c by auto
  next
    case unicode
    then show ?thesis using eq c short_esc_not_u by auto
  qed
next
  case c: plain
  then show ?thesis using eq by (cases d rule: json_esc_cases) auto
next
  case c: unicode
  show ?thesis
  proof (cases d rule: json_esc_cases)
    case (short f)
    then show ?thesis using eq c short_esc_not_u by auto
  next
    case plain
    then show ?thesis using eq c by auto
  next
    case unicode
    have "hex4 (of_char c) @ x = hex4 (of_char d) @ y" using eq c unicode by simp
    then have "(of_char c :: nat) = of_char d \<and> x = y"
      using hex4_inject[OF of_char_less_256 of_char_less_256] by blast
    then show ?thesis by simp
  qed
qed

lemma json_esc_not_quote: "json_esc c @ x \<noteq> quote # y"
  by (cases c rule: json_esc_cases) (auto simp: quote_def backslash_def)

lemma json_str_body_inject:
  "json_str_body s @ x = json_str_body t @ y \<Longrightarrow> s = t \<and> x = y"
proof (induction s arbitrary: t)
  case Nil
  then show ?case
    by (cases t) (auto dest: json_esc_not_quote[THEN notE, OF sym])
next
  case (Cons c s)
  show ?case
  proof (cases t)
    case Nil
    with Cons.prems show ?thesis by (auto dest: json_esc_not_quote[THEN notE])
  next
    case (Cons d t')
    with Cons.prems have "json_esc c @ (json_str_body s @ x) = json_esc d @ (json_str_body t' @ y)" by simp
    then have "c = d" and "json_str_body s @ x = json_str_body t' @ y"
      using json_esc_inject by blast+
    with Cons.IH Cons show ?thesis by blast
  qed
qed

lemma json_str_inject: "json_str s @ x = json_str t @ y \<Longrightarrow> s = t \<and> x = y"
  using json_str_body_inject[of s x t y] by (simp add: json_str_def)

text \<open>The first character of a rendered value tells its kind.\<close>

lemma int_str_hd: "\<exists>c r. int_str i = c # r \<and> (is_digit c \<or> c = CHR ''-'')"
  using int_str_chars[of "hd (int_str i)" i] int_str_not_Nil[of i]
  by (cases "int_str i") auto

lemma int_str_append_neq:
  "\<not> is_digit c \<Longrightarrow> c \<noteq> CHR ''-'' \<Longrightarrow> int_str i @ x \<noteq> c # y"
  "\<not> is_digit c \<Longrightarrow> c \<noteq> CHR ''-'' \<Longrightarrow> c # y \<noteq> int_str i @ x"
  using int_str_hd[of i] by auto

lemma non_digits [simp]:
  "\<not> is_digit (CHR ''n'')" "\<not> is_digit (CHR ''t'')" "\<not> is_digit (CHR ''f'')"
  "\<not> is_digit (CHR ''['')" "\<not> is_digit (CHR ''{'')" "\<not> is_digit quote"
  by (simp_all add: is_digit_def quote_def)

lemma quote_neq [simp]:
  "quote \<noteq> CHR ''n''" "quote \<noteq> CHR ''t''" "quote \<noteq> CHR ''f''" "quote \<noteq> CHR ''[''"
  "quote \<noteq> CHR ''{''" "quote \<noteq> CHR ''-''" "quote \<noteq> CHR '']''" "quote \<noteq> CHR ''}''"
  "CHR ''n'' \<noteq> quote" "CHR ''t'' \<noteq> quote" "CHR ''f'' \<noteq> quote" "CHR ''['' \<noteq> quote"
  "CHR ''{'' \<noteq> quote" "CHR ''-'' \<noteq> quote" "CHR '']'' \<noteq> quote" "CHR ''}'' \<noteq> quote"
  by (simp_all add: quote_def)

lemma render_not_close: "render j @ x \<noteq> CHR '']'' # y" "CHR '']'' # y \<noteq> render j @ x"
  by (cases j; simp add: int_str_append_neq json_str_def)+

lemma render_inject_aux:
  "render a @ x = render b @ y \<Longrightarrow> stops x \<Longrightarrow> stops y \<Longrightarrow> a = b \<and> x = y"
  "render_list as @ x = render_list bs @ y \<Longrightarrow> as = bs \<and> x = y"
  "render_items ks @ x = render_items ls @ y \<Longrightarrow> ks = ls \<and> x = y"
proof (induction a and as and ks arbitrary: b x y and bs x y and ls x y
    rule: render_render_list_render_items.induct)
  case 1
  then show ?case by (cases b) (auto simp: int_str_append_neq json_str_def split: if_splits)
next
  case (2 v)
  then show ?case by (cases b) (auto simp: int_str_append_neq json_str_def split: if_splits)
next
  case (3 i)
  then show ?case
    by (cases b) (auto simp: int_str_append_neq json_str_def split: if_splits dest: int_str_append_inject)
next
  case (4 s)
  show ?case
  proof (cases b)
    case (JStr t)
    then show ?thesis using json_str_inject[of s x t y] "4.prems" by simp
  qed (use "4.prems" in \<open>auto simp: int_str_append_neq json_str_def split: if_splits\<close>)
next
  case (5 xs)
  show ?case
  proof (cases b)
    case (JList ys)
    then show ?thesis using "5.IH"[of x ys y] "5.prems" by simp
  qed (use "5.prems" in \<open>auto simp: int_str_append_neq json_str_def split: if_splits\<close>)
next
  case (6 kvs)
  show ?case
  proof (cases b)
    case (JObj ys)
    then show ?thesis using "6.IH"[of x ys y] "6.prems" by simp
  qed (use "6.prems" in \<open>auto simp: int_str_append_neq json_str_def split: if_splits\<close>)
next
  case 7
  then show ?case by (cases bs) (auto simp: render_not_close split: if_splits)
next
  case (8 v vs)
  show ?case
  proof (cases bs)
    case Nil
    with "8.prems" show ?thesis by (auto simp: render_not_close split: if_splits)
  next
    case (Cons w ws)
    have *: "render v @ ((if vs = [] then '']'' else CHR '','' # render_list vs) @ x) =
             render w @ ((if ws = [] then '']'' else CHR '','' # render_list ws) @ y)"
      using "8.prems" Cons by simp
    have "v = w \<and> (if vs = [] then '']'' else CHR '','' # render_list vs) @ x =
                    (if ws = [] then '']'' else CHR '','' # render_list ws) @ y"
      by (rule "8.IH"(1)[OF *]) (auto split: if_splits)
    then show ?thesis using Cons "8.IH"(2)[of x ws y] by (auto split: if_splits)
  qed
next
  case 9
  then show ?case by (cases ls) (auto simp: json_str_def)
next
  case (10 kv kvs)
  show ?case
  proof (cases ls)
    case Nil
    with "10.prems" show ?thesis by (auto simp: json_str_def)
  next
    case (Cons lv lvs)
    let ?r = "\<lambda>ys z. (if ys = [] then ''}'' else CHR '','' # render_items ys) @ z"
    have "json_str (fst kv) @ (CHR '':'' # render (snd kv) @ ?r kvs x) =
          json_str (fst lv) @ (CHR '':'' # render (snd lv) @ ?r lvs y)"
      using "10.prems" Cons by simp
    then have "fst kv = fst lv \<and>
        CHR '':'' # render (snd kv) @ ?r kvs x = CHR '':'' # render (snd lv) @ ?r lvs y"
      by (rule json_str_inject)
    then have k: "fst kv = fst lv" and *: "render (snd kv) @ ?r kvs x = render (snd lv) @ ?r lvs y"
      by simp_all
    have "snd kv = snd lv \<and> ?r kvs x = ?r lvs y"
      by (rule "10.IH"(1)[OF *]) (auto split: if_splits)
    then show ?thesis using Cons k "10.IH"(2)[of x lvs y]
      by (auto simp: prod_eq_iff split: if_splits)
  qed
qed

lemma render_inject: "render a = render b \<Longrightarrow> a = b"
  using render_inject_aux(1)[of a "[]" b "[]"] by simp

text \<open>
  Two canonical values have the same canonical text exactly when they are the same value up to the
  order of object keys: hash input and economic content determine each other.
\<close>

theorem json_dumps_eq_iff: "json_dumps a = json_dumps b \<longleftrightarrow> sort_keys a = sort_keys b"
  using render_inject by (auto simp: json_dumps_def)

section \<open>LIKE patterns\<close>

text \<open>
  SQL \<^verbatim>\<open>LIKE\<close> with the backslash as escape character (given explicitly by \<open>compute_seq\<close>, PostgreSQL's
  default elsewhere).  A pattern ending in a lone escape character matches nothing.
\<close>

fun like :: "string \<Rightarrow> string \<Rightarrow> bool" where
  "like [] s = (s = [])"
| "like (p # ps) s =
     (if p = CHR ''%'' then like ps s \<or> (case s of [] \<Rightarrow> False | _ # s' \<Rightarrow> like (p # ps) s')
      else if p = CHR ''_'' then (case s of [] \<Rightarrow> False | _ # s' \<Rightarrow> like ps s')
      else if p = backslash then
        (case ps of [] \<Rightarrow> False | q # qs \<Rightarrow> (case s of [] \<Rightarrow> False | c # s' \<Rightarrow> c = q \<and> like qs s'))
      else (case s of [] \<Rightarrow> False | c # s' \<Rightarrow> c = p \<and> like ps s'))"

definition replace_char :: "char \<Rightarrow> string \<Rightarrow> string \<Rightarrow> string" where
  "replace_char c new s = concat (map (\<lambda>x. if x = c then new else [x]) s)"

definition escape_like :: "string \<Rightarrow> string" where
  "escape_like raw =
     replace_char (CHR ''_'') [backslash, CHR ''_'']
       (replace_char (CHR ''%'') [backslash, CHR ''%'']
         (replace_char backslash [backslash, backslash] raw))"

lemma replace_char_simps [simp]:
  "replace_char c new [] = []"
  "replace_char c new (x # s) = (if x = c then new else [x]) @ replace_char c new s"
  by (simp_all add: replace_char_def)

lemma backslash_neq [simp]:
  "backslash \<noteq> CHR ''%''" "backslash \<noteq> CHR ''_''" "CHR ''%'' \<noteq> backslash" "CHR ''_'' \<noteq> backslash"
  by (simp_all add: backslash_def)

lemma escape_like_simps [simp]:
  "escape_like [] = []"
  "escape_like (c # s) =
     (if c = backslash \<or> c = CHR ''%'' \<or> c = CHR ''_'' then [backslash, c] else [c]) @ escape_like s"
  by (simp_all add: escape_like_def)

lemma like_any: "like [CHR ''%''] s"
  by (induction s) auto

lemma like_escape_append:
  "like (escape_like raw @ pat) s \<longleftrightarrow> (\<exists>rest. s = raw @ rest \<and> like pat rest)"
proof (induction raw arbitrary: s)
  case Nil
  then show ?case by simp
next
  case (Cons c raw)
  then show ?case by (cases s) auto
qed

lemma like_escape_prefix: "like (escape_like raw @ ''%'') s \<longleftrightarrow> prefix raw s"
  by (simp add: like_escape_append like_any prefix_def del: like.simps)

text \<open>An unescaped literal without wildcard characters is its own escape.\<close>

lemma escape_like_plain:
  "backslash \<notin> set raw \<Longrightarrow> CHR ''%'' \<notin> set raw \<Longrightarrow> CHR ''_'' \<notin> set raw \<Longrightarrow> escape_like raw = raw"
  by (induction raw) auto

section \<open>Idempotency keys\<close>

definition validate_component :: "string \<Rightarrow> exn + string" where
  "validate_component v = (if v = [] then Inl ValueError else if CHR '':'' \<in> set v then Inl ValueError else Inr v)"

definition key_prefix :: "string \<Rightarrow> string \<Rightarrow> string \<Rightarrow> string \<Rightarrow> exn + string" where
  "key_prefix source_type source_id event chash =
     bindR (validate_component source_type) (\<lambda>_.
     if source_type = ''reversal'' then Inl ValueError
     else bindR (validate_component source_id) (\<lambda>_.
          bindR (validate_component event) (\<lambda>_.
          Inr (source_type @ '':'' @ source_id @ '':'' @ event @ '':'' @ chash))))"

definition idempotency_key :: "string \<Rightarrow> nat \<Rightarrow> string" where
  "idempotency_key p n = p @ '':'' @ nat_str n"

definition reversal_key :: "uuid \<Rightarrow> string" where
  "reversal_key u = ''reversal:'' @ uuid_str u"

definition key_like :: "string \<Rightarrow> gl_entry \<Rightarrow> bool" where
  "key_like pat e = (case e_key e of None \<Rightarrow> False | Some k \<Rightarrow> like pat k)"

definition compute_seq :: "gl_db \<Rightarrow> string \<Rightarrow> string \<Rightarrow> nat" where
  "compute_seq db company pfx =
     length (filter (\<lambda>e. e_company e = company \<and> e_status e = Reversed \<and>
                        key_like (escape_like (pfx @ '':'') @ ''%'') e) (db_entries db))"

text \<open>A prefix built by \<open>key_prefix\<close>, with the components it was built from.\<close>

lemma key_prefix_Inr:
  "key_prefix st sid ev h = Inr p \<longleftrightarrow>
     st \<noteq> [] \<and> CHR '':'' \<notin> set st \<and> st \<noteq> ''reversal'' \<and>
     sid \<noteq> [] \<and> CHR '':'' \<notin> set sid \<and> ev \<noteq> [] \<and> CHR '':'' \<notin> set ev \<and>
     p = st @ '':'' @ sid @ '':'' @ ev @ '':'' @ h"
  by (auto simp: key_prefix_def validate_component_def)

lemma idempotency_key_inject [simp]:
  "idempotency_key p m = idempotency_key p n \<longleftrightarrow> m = n"
  by (simp add: idempotency_key_def)

lemma reversal_key_inject [simp]: "reversal_key u = reversal_key v \<longleftrightarrow> u = v"
  by (simp add: reversal_key_def)

lemma prefix_idempotency_key [simp]: "prefix (p @ '':'') (idempotency_key p n)"
  by (simp add: idempotency_key_def)

lemma key_prefix_prefix_iff:
  assumes "key_prefix st sid ev h = Inr p" and "key_prefix st' sid' ev' h' = Inr p'"
    and "CHR '':'' \<notin> set h" and "CHR '':'' \<notin> set h'"
  shows "prefix (p @ '':'') (idempotency_key p' n) \<longleftrightarrow> st = st' \<and> sid = sid' \<and> ev = ev' \<and> h = h'"
  using assms
  by (auto simp: key_prefix_Inr idempotency_key_def prefix_def append_sep_inject)

lemma reversal_key_no_prefix:
  assumes "key_prefix st sid ev h = Inr p"
  shows "\<not> prefix (p @ '':'') (reversal_key u)"
proof -
  have "''reversal'' @ CHR '':'' # uuid_str u \<noteq> st @ CHR '':'' # r" for r
    using assms by (subst append_sep_inject) (auto simp: key_prefix_Inr)
  then show ?thesis using assms by (auto simp: key_prefix_Inr reversal_key_def prefix_def)
qed

end
