(* ===== verification/Ledger_Coa.thy ===== *)
theory Ledger_Coa
  imports Ledger_Models
begin

text \<open>
  \<^verbatim>\<open>modules/ledger/coa.py\<close>: the starter chart of accounts, its idempotent seed and the resolution of a role
  to the one active system account that owns it.  The lemmas show that the first seed makes every role
  resolvable, that a repeated seed changes nothing, that \<open>ensure_role_account\<close> tops up a role that was
  never there and never replaces a deactivated owner, and that accounts are only ever added.
\<close>

type_synonym coa_row = "string \<times> string \<times> account_type \<times> string option \<times> bool"

definition DEFAULT_COA :: "coa_row list" where
  "DEFAULT_COA =
    [(''1000'', ''Operating Bank'', Asset, Some ROLE_OPERATING_BANK, True),
     (''1050'', ''Undeposited Funds'', Asset, Some ROLE_UNDEPOSITED, True),
     (''1200'', ''Accounts Receivable'', Asset, Some ROLE_AR, True),
     (''2100'', ''Sales Tax Payable'', Liability, Some ROLE_SALES_TAX_PAYABLE, True),
     (''2300'', ''Customer Credits'', Liability, Some ROLE_CUSTOMER_CREDITS, True),
     (''3000'', ''Owner Contributions'', Equity, None, False),
     (''3100'', ''Owner Draws'', Equity, None, False),
     (''3900'', ''Retained Earnings'', Equity, None, False),
     (''3950'', ''Opening Balance Equity'', Equity, Some ROLE_OPENING_EQUITY, True),
     (''4000'', ''Service & Repair Revenue'', Revenue, Some ROLE_SALES_FALLBACK, True),
     (''4100'', ''Installation Revenue'', Revenue, None, False),
     (''4200'', ''Parts Revenue'', Revenue, None, False),
     (''4900'', ''Discounts Given'', Revenue, Some ROLE_DISCOUNTS, True),
     (''4910'', ''Refunds & Allowances'', Revenue, Some ROLE_REFUNDS, True),
     (''4950'', ''Card Surcharge Income'', Revenue, Some ROLE_SURCHARGE_INCOME, True),
     (''5000'', ''Parts & Materials'', Expense, None, False),
     (''5100'', ''Subcontractors'', Expense, None, False),
     (''6050'', ''Wages & Payroll'', Expense, Some ROLE_WAGES, True),
     (''6060'', ''Payroll Taxes & Fees'', Expense, Some ROLE_PAYROLL_TAX, True),
     (''6100'', ''Fuel'', Expense, None, False),
     (''6200'', ''Tools & Equipment'', Expense, None, False),
     (''6300'', ''Advertising'', Expense, None, False),
     (''6400'', ''Insurance'', Expense, None, False),
     (''6500'', ''Vehicle Maintenance'', Expense, None, False),
     (''6900'', ''Uncategorized Expense'', Expense, Some ROLE_EXPENSE_FALLBACK, True),
     (''6990'', ''Rounding Differences'', Expense, Some ROLE_ROUNDING, True)]"

definition DEFAULT_EXPENSE_CATEGORY_CODES :: json_map where
  "DEFAULT_EXPENSE_CATEGORY_CODES =
    [(''Fuel'', ''6100''), (''Parts/Supplies'', ''5000''), (''Tools/Equipment'', ''6200''),
     (''Advertising'', ''6300''), (''Insurance'', ''6400''), (''Vehicle Maintenance'', ''6500''),
     (''Subcontractor'', ''5100''), (''Other'', ''6900'')]"

definition row_role :: "coa_row \<Rightarrow> string option" where
  "row_role row = (case row of (_, _, _, role, _) \<Rightarrow> role)"

definition mk_account :: "string \<Rightarrow> uuid \<Rightarrow> coa_row \<Rightarrow> gl_account" where
  "mk_account company u row = (case row of (code, name, ty, role, is_system) \<Rightarrow>
     \<lparr>a_id = u, a_code = code, a_name = name, a_type = ty, a_parent = None, a_role = role,
      a_is_system = is_system, a_active = True, a_company = company\<rparr>)"

definition company_accounts :: "gl_db \<Rightarrow> string \<Rightarrow> gl_account list" where
  "company_accounts db company = filter (\<lambda>a. a_company a = company) (db_accounts db)"

text \<open>
  The rows \<open>seed_coa\<close> inserts: a row with a role is missing when no account of the company carries the
  role, active or not; a row without a role is inserted only into an empty chart.
\<close>

definition missing_rows :: "gl_db \<Rightarrow> string \<Rightarrow> coa_row list" where
  "missing_rows db company =
     (let existing = company_accounts db company;
          first_boot = (existing = []);
          have_roles = List.map_filter a_role existing
      in filter (\<lambda>row. case row_role row of Some r \<Rightarrow> r \<notin> set have_roles | None \<Rightarrow> first_boot) DEFAULT_COA)"

definition add_rows :: "string \<Rightarrow> coa_row list \<Rightarrow> gl_db \<Rightarrow> gl_db" where
  "add_rows company rows db =
     db\<lparr>db_accounts := db_accounts db @
           map (\<lambda>(i, row). mk_account company (db_uuid db + i) row) (enumerate 0 rows),
        db_uuid := db_uuid db + length rows\<rparr>"

definition seed_coa :: "string \<Rightarrow> nat gl" where
  "seed_coa company = (\<lambda>db. let rows = missing_rows db company in (Inr (length rows), add_rows company rows db))"

definition role_owners :: "gl_db \<Rightarrow> string \<Rightarrow> string \<Rightarrow> gl_account list" where
  "role_owners db company role =
     filter (\<lambda>a. a_company a = company \<and> a_role a = Some role \<and> a_is_system a \<and> a_active a) (db_accounts db)"

definition resolve_role_account :: "gl_db \<Rightarrow> string \<Rightarrow> string \<Rightarrow> exn + gl_account" where
  "resolve_role_account db company role =
     (if role \<notin> set ALL_ROLES then Inl LedgerConfigError
      else case role_owners db company role of
        [] \<Rightarrow> Inl LedgerConfigError
      | [a] \<Rightarrow> Inr a
      | _ \<Rightarrow> Inl LedgerConfigError)"

definition has_any_account :: "gl_db \<Rightarrow> bool" where
  "has_any_account db \<longleftrightarrow> db_accounts db \<noteq> []"

definition ensure_role_account :: "string \<Rightarrow> string \<Rightarrow> gl_account gl" where
  "ensure_role_account company role = (\<lambda>db.
     case resolve_role_account db company role of
       Inr a \<Rightarrow> (Inr a, db)
     | Inl e \<Rightarrow>
         if role \<notin> set ALL_ROLES \<or> \<not> has_any_account db then (Inl e, db)
         else (case seed_coa company db of
                 (Inl e', db') \<Rightarrow> (Inl e', db')
               | (Inr n, db') \<Rightarrow>
                   if n = 0 then (Inl e, db') else (resolve_role_account db' company role, db')))"

definition resolve_role_account_or_none :: "gl_db \<Rightarrow> string \<Rightarrow> string \<Rightarrow> exn + gl_account option" where
  "resolve_role_account_or_none db company role =
     (if role \<in> set ALL_ROLES \<and> filter (\<lambda>a. a_role a = Some role \<and> a_is_system a) (db_accounts db) = []
      then Inr None
      else bindR (resolve_role_account db company role) (\<lambda>a. Inr (Some a)))"

section \<open>Seeding\<close>

lemma add_rows_simps [simp]:
  "db_entries (add_rows c rows db) = db_entries db" "db_lines (add_rows c rows db) = db_lines db"
  "db_settings (add_rows c rows db) = db_settings db" "db_locks (add_rows c rows db) = db_locks db"
  "db_audit (add_rows c rows db) = db_audit db" "db_invoices (add_rows c rows db) = db_invoices db"
  "db_invoice_lines (add_rows c rows db) = db_invoice_lines db"
  "db_payments (add_rows c rows db) = db_payments db"
  "db_adjustments (add_rows c rows db) = db_adjustments db"
  "db_events (add_rows c rows db) = db_events db"
  "db_sanctions (add_rows c rows db) = db_sanctions db"
  "db_registry (add_rows c rows db) = db_registry db"
  "db_entry_no (add_rows c rows db) = db_entry_no db"
  by (simp_all add: add_rows_def)

lemma add_rows_Nil [simp]: "add_rows c [] db = db"
  by (simp add: add_rows_def)

lemma map_filter_iff: "x \<in> set (List.map_filter f xs) \<longleftrightarrow> (\<exists>y\<in>set xs. f y = Some x)"
  by (induction xs) (auto split: option.splits)

lemma snd_in_enumerate: "x \<in> set (enumerate n xs) \<Longrightarrow> snd x \<in> set xs"
  by (induction xs arbitrary: n) auto

lemma length_filter_enumerate: "length (filter (\<lambda>(i, x). Q x) (enumerate n xs)) = length (filter Q xs)"
  by (induction xs arbitrary: n) auto

lemma mk_account_simps [simp]:
  "a_company (mk_account c u row) = c" "a_role (mk_account c u row) = row_role row"
  "a_active (mk_account c u row)" "a_id (mk_account c u row) = u"
  by (simp_all add: mk_account_def row_role_def split: prod.splits)

lemma a_is_system_mk_account: "a_is_system (mk_account c u row) = snd (snd (snd (snd row)))"
  by (simp add: mk_account_def split: prod.splits)

text \<open>The starter chart has one row per role, and exactly the rows with a role are system rows.\<close>

lemma DEFAULT_COA_roles: "List.map_filter row_role DEFAULT_COA =
    [ROLE_OPERATING_BANK, ROLE_UNDEPOSITED, ROLE_AR, ROLE_SALES_TAX_PAYABLE, ROLE_CUSTOMER_CREDITS,
     ROLE_OPENING_EQUITY, ROLE_SALES_FALLBACK, ROLE_DISCOUNTS, ROLE_REFUNDS, ROLE_SURCHARGE_INCOME,
     ROLE_WAGES, ROLE_PAYROLL_TAX, ROLE_EXPENSE_FALLBACK, ROLE_ROUNDING]"
  by (simp add: DEFAULT_COA_def row_role_def)

lemma DEFAULT_COA_system: "row \<in> set DEFAULT_COA \<Longrightarrow> snd (snd (snd (snd row))) = (row_role row \<noteq> None)"
  by (auto simp: DEFAULT_COA_def row_role_def)

lemma set_ALL_ROLES: "set (List.map_filter row_role DEFAULT_COA) = set ALL_ROLES"
  unfolding DEFAULT_COA_roles ALL_ROLES_def by auto

lemma distinct_DEFAULT_COA_roles: "distinct (List.map_filter row_role DEFAULT_COA)"
  unfolding DEFAULT_COA_roles by simp

lemma filter_map_filter_distinct:
  "distinct (List.map_filter f xs) \<Longrightarrow> r \<in> set (List.map_filter f xs) \<Longrightarrow>
     \<exists>x. filter (\<lambda>x. f x = Some r) xs = [x]"
proof (induction xs)
  case (Cons y ys)
  have nil: "r \<notin> set (List.map_filter f ys) \<Longrightarrow> filter (\<lambda>x. f x = Some r) ys = []"
    by (auto simp: map_filter_iff filter_empty_conv)
  show ?case
  proof (cases "f y = Some r")
    case True
    with Cons.prems nil show ?thesis by simp
  next
    case False
    with Cons show ?thesis by (auto split: option.splits)
  qed
qed simp

lemma one_row_per_role:
  "r \<in> set ALL_ROLES \<Longrightarrow> \<exists>row. filter (\<lambda>row. row_role row = Some r) DEFAULT_COA = [row]"
  using filter_map_filter_distinct[OF distinct_DEFAULT_COA_roles] by (simp add: set_ALL_ROLES)

definition has_role :: "gl_db \<Rightarrow> string \<Rightarrow> string \<Rightarrow> bool" where
  "has_role db c r \<longleftrightarrow> (\<exists>a\<in>set (company_accounts db c). a_role a = Some r)"

lemma have_roles_iff: "r \<in> set (List.map_filter a_role (company_accounts db c)) \<longleftrightarrow> has_role db c r"
  by (auto simp: map_filter_iff has_role_def)

lemma missing_rows_role:
  assumes "r \<in> set ALL_ROLES"
  shows "length (filter (\<lambda>row. row_role row = Some r) (missing_rows db c)) = (if has_role db c r then 0 else 1)"
proof -
  obtain row where row: "filter (\<lambda>row. row_role row = Some r) DEFAULT_COA = [row]"
    using one_row_per_role[OF assms] by blast
  have "filter (\<lambda>row. row_role row = Some r) (missing_rows db c) =
        (if has_role db c r then [] else filter (\<lambda>row. row_role row = Some r) DEFAULT_COA)"
    unfolding missing_rows_def Let_def filter_filter
    by (auto simp: have_roles_iff filter_empty_conv intro!: filter_cong)
  with row show ?thesis by simp
qed

lemma missing_rows_system:
  "row \<in> set (missing_rows db c) \<Longrightarrow> snd (snd (snd (snd row))) = (row_role row \<noteq> None)"
  by (rule DEFAULT_COA_system) (simp add: missing_rows_def Let_def)

text \<open>Adding the missing rows adds one owner of every role that no account carried, and no other.\<close>

lemma role_owners_seed:
  assumes "r \<in> set ALL_ROLES"
  obtains new where
    "role_owners (add_rows c (missing_rows db c) db) c r = role_owners db c r @ new"
    "length new = (if has_role db c r then 0 else 1)"
proof
  let ?rows = "missing_rows db c"
  let ?P = "\<lambda>a. a_company a = c \<and> a_role a = Some r \<and> a_is_system a \<and> a_active a"
  let ?f = "\<lambda>(i, row). mk_account c (db_uuid db + i) row"
  let ?new = "filter ?P (map ?f (enumerate 0 ?rows))"
  show "role_owners (add_rows c ?rows db) c r = role_owners db c r @ ?new"
    by (simp add: role_owners_def add_rows_def)
  have eq: "filter (?P \<circ> ?f) (enumerate 0 ?rows) = filter (\<lambda>(i, row). row_role row = Some r) (enumerate 0 ?rows)"
  proof (rule filter_cong)
    fix x assume x: "x \<in> set (enumerate 0 ?rows)"
    then have "snd x \<in> set ?rows" by (rule snd_in_enumerate)
    then have "snd (snd (snd (snd (snd x)))) = (row_role (snd x) \<noteq> None)" by (rule missing_rows_system)
    then show "(?P \<circ> ?f) x = (case x of (i, row) \<Rightarrow> row_role row = Some r)"
      by (cases x) (auto simp: a_is_system_mk_account)
  qed simp
  have "length ?new = length (filter (\<lambda>(i, row). row_role row = Some r) (enumerate 0 ?rows))"
    by (simp add: filter_map eq)
  also have "\<dots> = length (filter (\<lambda>row. row_role row = Some r) ?rows)"
    by (rule length_filter_enumerate)
  finally show "length ?new = (if has_role db c r then 0 else 1)"
    by (simp add: missing_rows_role[OF assms])
qed

lemma resolve_cong:
  "role_owners db c r = role_owners db' c r \<Longrightarrow> resolve_role_account db c r = resolve_role_account db' c r"
  by (simp add: resolve_role_account_def)

lemma resolve_single: "r \<in> set ALL_ROLES \<Longrightarrow> role_owners db c r = [a] \<Longrightarrow> resolve_role_account db c r = Inr a"
  by (simp add: resolve_role_account_def)

lemma role_owners_no_role: "\<not> has_role db c r \<Longrightarrow> role_owners db c r = []"
  by (auto simp: has_role_def company_accounts_def role_owners_def filter_empty_conv)

lemma resolve_Inr_iff:
  "resolve_role_account db c r = Inr a \<longleftrightarrow> r \<in> set ALL_ROLES \<and> role_owners db c r = [a]"
  by (auto simp: resolve_role_account_def split: list.splits)

lemma resolve_Inl: "resolve_role_account db c r = Inl e \<Longrightarrow> e = LedgerConfigError"
  by (auto simp: resolve_role_account_def split: if_splits list.splits)

lemma snd_seed_coa: "snd (seed_coa c db) = add_rows c (missing_rows db c) db"
  by (simp add: seed_coa_def Let_def)

lemma seeded_role_resolves:
  assumes "r \<in> set ALL_ROLES" and "\<not> has_role db c r"
  shows "\<exists>a. resolve_role_account (add_rows c (missing_rows db c) db) c r = Inr a"
proof -
  obtain new where new: "role_owners (add_rows c (missing_rows db c) db) c r = role_owners db c r @ new"
    "length new = 1" using role_owners_seed[OF assms(1), of c db] assms(2) by auto
  then obtain a where "new = [a]" by (cases new) auto
  with new show ?thesis using role_owners_no_role[OF assms(2)] assms(1) by (auto simp: resolve_Inr_iff)
qed

text \<open>
  Seeding a company that has no accounts yet leaves every role of ALL_ROLES resolvable: exactly one
  active system account of that company owns it.
\<close>

theorem seed_coa_resolves_every_role:
  assumes "company_accounts db c = []" and "r \<in> set ALL_ROLES"
  shows "\<exists>a. resolve_role_account (snd (seed_coa c db)) c r = Inr a \<and>
             a_company a = c \<and> a_role a = Some r \<and> a_is_system a \<and> a_active a"
proof -
  have "\<not> has_role db c r" using assms(1) by (simp add: has_role_def)
  then obtain a where a: "resolve_role_account (snd (seed_coa c db)) c r = Inr a"
    using seeded_role_resolves[OF assms(2)] by (auto simp: snd_seed_coa)
  then have "a \<in> set (role_owners (snd (seed_coa c db)) c r)" by (simp add: resolve_Inr_iff)
  with a show ?thesis by (auto simp: role_owners_def)
qed

theorem seed_coa_resolves_every_role_witness:
  "\<exists>a. resolve_role_account (snd (seed_coa ''gdx'' empty_db)) ''gdx'' ROLE_AR = Inr a \<and> a_active a"
proof -
  have "company_accounts empty_db ''gdx'' = []" by (simp add: company_accounts_def empty_db_def)
  moreover have "ROLE_AR \<in> set ALL_ROLES" by (simp add: ALL_ROLES_def)
  ultimately show ?thesis using seed_coa_resolves_every_role[of empty_db "''gdx''" ROLE_AR] by blast
qed

lemma company_accounts_add_rows:
  "company_accounts (add_rows c rows db) c =
     company_accounts db c @ map (\<lambda>(i, row). mk_account c (db_uuid db + i) row) (enumerate 0 rows)"
  by (auto simp: company_accounts_def add_rows_def filter_empty_conv intro!: filter_True)

lemma has_role_alt: "has_role db c r \<longleftrightarrow> Some r \<in> set (map a_role (company_accounts db c))"
  by (auto simp: has_role_def) force

lemma roles_enumerate:
  "map a_role (map (\<lambda>(i, row). mk_account c (u + i) row) (enumerate n rows)) = map row_role rows"
  by (induction rows arbitrary: n) auto

lemma has_role_add_rows:
  "has_role (add_rows c rows db) c r \<longleftrightarrow> has_role db c r \<or> (\<exists>row\<in>set rows. row_role row = Some r)"
proof -
  have "set (map a_role (company_accounts (add_rows c rows db) c)) =
        set (map a_role (company_accounts db c)) \<union> set (map row_role rows)"
    unfolding company_accounts_add_rows map_append roles_enumerate by simp
  then have "has_role (add_rows c rows db) c r \<longleftrightarrow> has_role db c r \<or> Some r \<in> set (map row_role rows)"
    unfolding has_role_alt by simp
  then show ?thesis by force
qed

text \<open>
  The seed is idempotent on every database: a second run inserts nothing and changes nothing.
\<close>

theorem seed_coa_idempotent:
  "seed_coa c (snd (seed_coa c db)) = (Inr 0, snd (seed_coa c db))"
proof -
  let ?db = "add_rows c (missing_rows db c) db"
  have present: "has_role ?db c r" if "row \<in> set DEFAULT_COA" "row_role row = Some r" for row r
  proof (cases "has_role db c r")
    case False
    then have "row \<in> set (missing_rows db c)"
      using that by (simp add: missing_rows_def Let_def have_roles_iff)
    with that show ?thesis by (auto simp: has_role_add_rows)
  qed (simp add: has_role_add_rows)
  have ne: "company_accounts ?db c \<noteq> []"
    using present[of "(''1200'', ''Accounts Receivable'', Asset, Some ROLE_AR, True)" ROLE_AR]
    by (auto simp: has_role_def DEFAULT_COA_def row_role_def)
  have "missing_rows ?db c = []"
    using present ne by (auto simp: missing_rows_def Let_def filter_empty_conv have_roles_iff split: option.splits)
  then show ?thesis by (simp add: seed_coa_def Let_def)
qed

lemma ensure_role_account_snd:
  "snd (ensure_role_account c r db) = db \<or> snd (ensure_role_account c r db) = snd (seed_coa c db)"
  by (simp add: ensure_role_account_def seed_coa_def Let_def split: sum.splits)

lemma ensure_role_account_resolves:
  "ensure_role_account c r db = (Inr a, db') \<Longrightarrow> resolve_role_account db' c r = Inr a"
  by (auto simp: ensure_role_account_def seed_coa_def Let_def split: sum.splits if_splits)

lemma ensure_role_account_Inl:
  "ensure_role_account c r db = (Inl e, db') \<Longrightarrow> e = LedgerConfigError"
  by (auto simp: ensure_role_account_def seed_coa_def Let_def split: sum.splits if_splits dest: resolve_Inl)

text \<open>
  On a database with a chart of accounts, \<open>ensure_role_account\<close> decides by history: if any account
  of the company ever carried the role, active or not, it answers exactly as \<open>resolve_role_account\<close>
  does, so a deactivated or ambiguous owner stays an error; otherwise it seeds the role and returns it.
\<close>

theorem ensure_role_account_decides:
  assumes "r \<in> set ALL_ROLES" and "has_any_account db"
  shows "if has_role db c r then fst (ensure_role_account c r db) = resolve_role_account db c r
         else \<exists>a. ensure_role_account c r db = (Inr a, snd (seed_coa c db))"
proof (cases "has_role db c r")
  case True
  obtain new where new: "role_owners (snd (seed_coa c db)) c r = role_owners db c r @ new" "length new = 0"
    using role_owners_seed[OF assms(1), of c db] True by (auto simp: snd_seed_coa)
  then have "resolve_role_account (snd (seed_coa c db)) c r = resolve_role_account db c r"
    by (intro resolve_cong) simp
  then have "fst (ensure_role_account c r db) = resolve_role_account db c r"
    by (auto simp: ensure_role_account_def seed_coa_def Let_def split: sum.splits)
  with True show ?thesis by simp
next
  case False
  obtain a where a: "resolve_role_account (add_rows c (missing_rows db c) db) c r = Inr a"
    using seeded_role_resolves[OF assms(1) False] by blast
  have "resolve_role_account db c r = Inl LedgerConfigError"
    using role_owners_no_role[OF False] assms(1) by (simp add: resolve_role_account_def)
  moreover have "missing_rows db c \<noteq> []"
    using missing_rows_role[OF assms(1), of db c] False by auto
  ultimately have "ensure_role_account c r db = (Inr a, snd (seed_coa c db))"
    using assms a by (simp add: ensure_role_account_def seed_coa_def Let_def)
  with False show ?thesis by auto
qed

theorem ensure_role_account_decides_witness:
  "\<exists>db a. \<not> has_role db ''gdx'' ROLE_SURCHARGE_INCOME \<and>
     ensure_role_account ''gdx'' ROLE_SURCHARGE_INCOME db = (Inr a, snd (seed_coa ''gdx'' db))"
proof -
  define db where "db = empty_db\<lparr>db_accounts := [mk_account ''gdx'' 0 (''1200'', ''Accounts Receivable'', Asset, Some ROLE_AR, True)]\<rparr>"
  have nr: "\<not> has_role db ''gdx'' ROLE_SURCHARGE_INCOME"
    by (simp add: db_def has_role_def company_accounts_def row_role_def)
  have "ROLE_SURCHARGE_INCOME \<in> set ALL_ROLES" "has_any_account db"
    by (simp_all add: ALL_ROLES_def has_any_account_def db_def)
  then show ?thesis using ensure_role_account_decides[of ROLE_SURCHARGE_INCOME db "''gdx''"] nr by auto
qed

end
