(* ===== verification/Ledger_Ddl.thy ===== *)
theory Ledger_Ddl
  imports Ledger_Models
begin

text \<open>
  \<^verbatim>\<open>modules/ledger/ddl.py\<close>: the PostgreSQL triggers that guard the journal, as predicates on the row images
  they see, and the relation \<open>extends\<close> between two database states that says every change of the journal
  between them is one the triggers let through.
\<close>

text \<open>\<open>gl_lines_immutable\<close> raises on every UPDATE and DELETE of a line.\<close>

datatype trigger_op = INSERT | UPDATE | DELETE

definition gl_lines_immutable :: "trigger_op \<Rightarrow> bool" where
  "gl_lines_immutable tg_op \<longleftrightarrow> tg_op \<noteq> UPDATE \<and> tg_op \<noteq> DELETE"

text \<open>\<open>gl_entries_immutable\<close> on an UPDATE from \<open>old\<close> to \<open>new\<close>; a DELETE is always refused.\<close>

definition gl_entries_immutable :: "gl_entry \<Rightarrow> gl_entry \<Rightarrow> bool" where
  "gl_entries_immutable old new \<longleftrightarrow>
     (e_status new = e_status old \<or> e_status old = Posted \<and> e_status new = Reversed) \<and>
     (e_reversed_by new = e_reversed_by old \<or> e_reversed_by old = None) \<and>
     old\<lparr>e_status := Posted, e_reversed_by := None\<rparr> = new\<lparr>e_status := Posted, e_reversed_by := None\<rparr>"

text \<open>\<open>gl_lines_sealing\<close> on the INSERT of a line: its entry was created by the running transaction.\<close>

definition gl_lines_sealing :: "gl_db \<Rightarrow> nat \<Rightarrow> gl_line \<Rightarrow> bool" where
  "gl_lines_sealing db txid l \<longleftrightarrow>
     (case filter (\<lambda>e. e_id e = l_entry l) (db_entries db) of
        [] \<Rightarrow> False | e # _ \<Rightarrow> e_created_txid e = txid)"

text \<open>\<open>gl_assert_entry_balanced\<close>, checked for an entry when the transaction commits.\<close>

definition entry_lines :: "gl_db \<Rightarrow> uuid \<Rightarrow> gl_line list" where
  "entry_lines db u = filter (\<lambda>l. l_entry l = u) (db_lines db)"

definition gl_assert_entry_balanced :: "gl_db \<Rightarrow> uuid \<Rightarrow> bool" where
  "gl_assert_entry_balanced db u \<longleftrightarrow>
     (let ls = entry_lines db u in
      sum_list (map l_amount ls) = 0 \<and> 2 \<le> length ls \<and>
      1 \<le> length (filter (\<lambda>l. 0 < l_amount l) ls) \<and> 1 \<le> length (filter (\<lambda>l. l_amount l < 0) ls))"

text \<open>\<open>ck_gl_line_amount_nonzero\<close>, the CHECK constraint of \<^verbatim>\<open>gl_journal_lines\<close>.\<close>

definition ck_gl_line_amount_nonzero :: "gl_line \<Rightarrow> bool" where
  "ck_gl_line_amount_nonzero l \<longleftrightarrow> l_amount l \<noteq> 0"

lemma gl_entries_immutable_refl: "gl_entries_immutable e e"
  by (simp add: gl_entries_immutable_def)

lemma gl_entries_immutable_trans:
  "gl_entries_immutable a b \<Longrightarrow> gl_entries_immutable b c \<Longrightarrow> gl_entries_immutable a c"
  by (auto simp: gl_entries_immutable_def)

lemma gl_entries_immutable_fields:
  assumes "gl_entries_immutable old new"
  shows "e_id new = e_id old" "e_no new = e_no old" "e_effective_at new = e_effective_at old"
    "e_source_type new = e_source_type old" "e_source_id new = e_source_id old"
    "e_key new = e_key old" "e_reverses new = e_reverses old" "e_company new = e_company old"
    "e_created_at new = e_created_at old" "e_created_txid new = e_created_txid old"
    "e_created_by new = e_created_by old"
proof -
  have "old\<lparr>e_status := Posted, e_reversed_by := None\<rparr> = new\<lparr>e_status := Posted, e_reversed_by := None\<rparr>"
    using assms by (simp add: gl_entries_immutable_def)
  then show "e_id new = e_id old" "e_no new = e_no old" "e_effective_at new = e_effective_at old"
    "e_source_type new = e_source_type old" "e_source_id new = e_source_id old"
    "e_key new = e_key old" "e_reverses new = e_reverses old" "e_company new = e_company old"
    "e_created_at new = e_created_at old" "e_created_txid new = e_created_txid old"
    "e_created_by new = e_created_by old"
    by (cases old; cases new; simp)+
qed

section \<open>Append-only history\<close>

definition extends :: "gl_db \<Rightarrow> gl_db \<Rightarrow> bool" where
  "extends db db' \<longleftrightarrow>
     length (db_entries db) \<le> length (db_entries db') \<and>
     (\<forall>i < length (db_entries db). gl_entries_immutable (db_entries db ! i) (db_entries db' ! i)) \<and>
     prefix (db_lines db) (db_lines db') \<and>
     prefix (db_accounts db) (db_accounts db')"

interpretation history: tracked extends
proof
  show "extends s s" for s by (simp add: extends_def gl_entries_immutable_refl)
  fix s t u assume st: "extends s t" and tu: "extends t u"
  have "gl_entries_immutable (db_entries s ! i) (db_entries u ! i)" if "i < length (db_entries s)" for i
  proof -
    have "i < length (db_entries t)" using st that by (simp add: extends_def)
    then show ?thesis using st tu that gl_entries_immutable_trans by (auto simp: extends_def)
  qed
  then show "extends s u" using st tu by (auto simp: extends_def intro: prefix_order.trans)
qed

lemma extends_entry:
  assumes "extends db db'" and "e \<in> set (db_entries db)"
  obtains e' where "e' \<in> set (db_entries db')" "gl_entries_immutable e e'"
proof -
  obtain i where i: "i < length (db_entries db)" "e = db_entries db ! i"
    using assms(2) by (auto simp: in_set_conv_nth)
  have "db_entries db' ! i \<in> set (db_entries db')" "gl_entries_immutable e (db_entries db' ! i)"
    using assms(1) i by (simp_all add: extends_def)
  then show thesis by (rule that)
qed

lemma extends_lines: "extends db db' \<Longrightarrow> l \<in> set (db_lines db) \<Longrightarrow> l \<in> set (db_lines db')"
  by (auto simp: extends_def dest: set_mono_prefix)

lemma extendsI_frame:
  "db_entries db' = db_entries db \<Longrightarrow> db_lines db' = db_lines db \<Longrightarrow>
   prefix (db_accounts db) (db_accounts db') \<Longrightarrow> extends db db'"
  by (simp add: extends_def gl_entries_immutable_refl)

end
