(* ===== verification/Ledger_Engine.thy ===== *)
theory Ledger_Engine
  imports Ledger_Keys Ledger_Coa Ledger_Ddl "HOL-Library.AList"
begin

text \<open>
  \<^verbatim>\<open>modules/ledger/engine.py\<close>: posting a balanced entry for an event and reversing an entry, the only two
  ways a journal entry is born.  The insert loop of \<open>post_for_event\<close> takes the writes that other
  transactions commit between its look-up and its insert as an argument, so that the collision and
  retry branches are exercised by the theorems.
\<close>

section \<open>Events\<close>

record posting_line =
  pl_amount :: int
  pl_role :: "string option"
  pl_account :: "uuid option"
  pl_memo :: "string option"
  pl_job :: "uuid option"
  pl_customer :: "uuid option"

record posting_event =
  ev_company :: string
  ev_source_type :: string
  ev_source_id :: string
  ev_event :: string
  ev_effective_at :: date
  ev_lines :: "posting_line list"
  ev_created_by :: "string option"
  ev_extra :: "(pyval \<times> pyval) list"

type_synonym resolved = "(posting_line \<times> uuid) list"

definition MAX_KEY_ATTEMPTS :: nat where
  "MAX_KEY_ATTEMPTS = 5"

section \<open>Checks before a write\<close>

definition validate_balance :: "posting_line list \<Rightarrow> exn + unit" where
  "validate_balance ls =
     (if length ls < 2 then Inl UnbalancedEntryError
      else if sum_list (map pl_amount ls) \<noteq> 0 then Inl UnbalancedEntryError
      else if \<not> list_ex (\<lambda>l. 0 < pl_amount l) ls \<or> \<not> list_ex (\<lambda>l. pl_amount l < 0) ls
        then Inl UnbalancedEntryError
      else if list_ex (\<lambda>l. pl_amount l = 0 \<or> (pl_role l = None) = (pl_account l = None)) ls
        then Inl UnbalancedEntryError
      else Inr ())"

definition get_account :: "gl_db \<Rightarrow> uuid \<Rightarrow> gl_account option" where
  "get_account db u = first (filter (\<lambda>a. a_id a = u) (db_accounts db))"

definition get_entry :: "gl_db \<Rightarrow> uuid \<Rightarrow> gl_entry option" where
  "get_entry db u = first (filter (\<lambda>e. e_id e = u) (db_entries db))"

definition resolve_line :: "string \<Rightarrow> posting_line \<Rightarrow> (posting_line \<times> uuid) gl" where
  "resolve_line company l =
     (case pl_role l of
        Some role \<Rightarrow> andthen (ensure_role_account company role) (\<lambda>a. ok (l, a_id a))
      | None \<Rightarrow> reads (\<lambda>db.
          case (case pl_account l of None \<Rightarrow> None | Some u \<Rightarrow> get_account db u) of
            None \<Rightarrow> Inl LedgerConfigError
          | Some a \<Rightarrow> if a_company a \<noteq> company then Inl LedgerConfigError
                      else if \<not> a_active a then Inl LedgerConfigError
                      else Inr (l, a_id a)))"

definition resolve_lines :: "string \<Rightarrow> posting_line list \<Rightarrow> resolved gl" where
  "resolve_lines company ls = map_sem (resolve_line company) ls"

definition latest_lock :: "gl_db \<Rightarrow> string \<Rightarrow> date option" where
  "latest_lock db company =
     (case map k_date (filter (\<lambda>k. k_company k = company) (db_locks db)) of
        [] \<Rightarrow> None | d # ds \<Rightarrow> Some (foldl max d ds))"

definition check_period_lock :: "string \<Rightarrow> date \<Rightarrow> bool \<Rightarrow> string option \<Rightarrow> string \<Rightarrow> unit gl" where
  "check_period_lock company effective_at override_lock created_by ctxt = (\<lambda>db.
     case latest_lock db company of
       None \<Rightarrow> (Inr (), db)
     | Some lock_date \<Rightarrow>
         if lock_date < effective_at then (Inr (), db)
         else if \<not> override_lock then (Inl (PeriodLockedError lock_date effective_at), db)
         else (Inr (), db\<lparr>db_audit := db_audit db @
                 [PostedIntoLockedPeriod company created_by effective_at lock_date ctxt]\<rparr>))"

section \<open>Inserting an entry\<close>

definition entry_by_key :: "gl_db \<Rightarrow> string \<Rightarrow> string \<Rightarrow> gl_entry option" where
  "entry_by_key db company key = first (filter (\<lambda>e. e_company e = company \<and> e_key e = Some key) (db_entries db))"

definition mk_line :: "uuid \<Rightarrow> nat \<times> posting_line \<times> uuid \<Rightarrow> gl_line" where
  "mk_line u x = (case x of (i, l, acct) \<Rightarrow>
     \<lparr>l_id = u + 1 + i, l_entry = u, l_account = acct, l_amount = pl_amount l, l_memo = pl_memo l,
      l_job = pl_job l, l_customer = pl_customer l\<rparr>)"

definition mk_entry ::
  "gl_env \<Rightarrow> gl_db \<Rightarrow> string \<Rightarrow> date \<Rightarrow> string option \<Rightarrow> string option \<Rightarrow> string \<Rightarrow> uuid option \<Rightarrow>
   string option \<Rightarrow> gl_entry" where
  "mk_entry env db company effective_at source_type source_id key reverses created_by =
     \<lparr>e_id = db_uuid db, e_no = Suc (db_entry_no db), e_effective_at = effective_at, e_status = Posted,
      e_source_type = source_type, e_source_id = source_id, e_key = Some key, e_reverses = reverses,
      e_reversed_by = None, e_created_txid = txid_current env, e_created_by = created_by,
      e_company = company, e_created_at = now_utc env\<rparr>"

text \<open>
  The insert inside its savepoint.  The unique index on \<^verbatim>\<open>idempotency_key\<close> spans all companies, and
  \<^verbatim>\<open>reverses_entry_id\<close> is a foreign key; when either refuses the row the savepoint is rolled back, but the
  identifiers and the sequence number drawn for it stay spent.
\<close>

definition key_taken :: "gl_db \<Rightarrow> string \<Rightarrow> bool" where
  "key_taken db key \<longleftrightarrow> list_ex (\<lambda>x. e_key x = Some key) (db_entries db)"

definition fk_broken :: "gl_db \<Rightarrow> uuid option \<Rightarrow> bool" where
  "fk_broken db reverses =
     (case reverses of None \<Rightarrow> False | Some u \<Rightarrow> \<not> list_ex (\<lambda>x. e_id x = u) (db_entries db))"

definition insert_entry ::
  "gl_env \<Rightarrow> string \<Rightarrow> date \<Rightarrow> string option \<Rightarrow> string option \<Rightarrow> string \<Rightarrow> uuid option \<Rightarrow>
   string option \<Rightarrow> resolved \<Rightarrow> gl_entry gl" where
  "insert_entry env company effective_at source_type source_id key reverses created_by rs = (\<lambda>db.
     let e = mk_entry env db company effective_at source_type source_id key reverses created_by;
         spent = db\<lparr>db_uuid := db_uuid db + 1 + length rs, db_entry_no := Suc (db_entry_no db)\<rparr>
     in if key_taken db key \<or> fk_broken db reverses then (Inl IntegrityError, spent)
        else (Inr e, spent\<lparr>db_entries := db_entries db @ [e],
                           db_lines := db_lines db @ map (mk_line (db_uuid db)) (enumerate 0 rs)\<rparr>))"

section \<open>post_for_event\<close>

definition opt_uuid :: "uuid option \<Rightarrow> pyval" where
  "opt_uuid v = (case v of None \<Rightarrow> PNone | Some u \<Rightarrow> PStr (uuid_str u))"

definition line_fields :: "posting_line \<times> uuid \<Rightarrow> pyval" where
  "line_fields x = (case x of (l, acct) \<Rightarrow>
     PMap [(PStr ''account_id'', PStr (uuid_str acct)), (PStr ''amount_cents'', PInt (pl_amount l)),
           (PStr ''job_id'', opt_uuid (pl_job l)), (PStr ''customer_id'', opt_uuid (pl_customer l))])"

definition event_fields :: "posting_event \<Rightarrow> resolved \<Rightarrow> pyval" where
  "event_fields ev rs =
     PMap (fold (\<lambda>(k, v). AList.update k v) (ev_extra ev)
        [(PStr ''effective_at'', PStr (isoformat (ev_effective_at ev))),
         (PStr ''lines'', PSeq (map line_fields rs))])"

definition lock_context :: "posting_event \<Rightarrow> string" where
  "lock_context ev = ev_source_type ev @ '':'' @ ev_source_id ev @ '':'' @ ev_event ev"

definition live_by_key :: "gl_db \<Rightarrow> string \<Rightarrow> string \<Rightarrow> gl_entry option" where
  "live_by_key db company key =
     (case entry_by_key db company key of
        None \<Rightarrow> None | Some e \<Rightarrow> if e_status e = Posted then Some e else None)"

primrec post_loop ::
  "nat \<Rightarrow> (nat \<Rightarrow> gl_db \<Rightarrow> gl_db) \<Rightarrow> gl_env \<Rightarrow> bool \<Rightarrow> posting_event \<Rightarrow> resolved \<Rightarrow> string \<Rightarrow> bool \<Rightarrow>
   gl_entry gl" where
  "post_loop 0 others env override_lock ev rs pfx lock_checked = throw RuntimeError"
| "post_loop (Suc k) others env override_lock ev rs pfx lock_checked = (\<lambda>db.
     let key = idempotency_key pfx (compute_seq db (ev_company ev) pfx) in
     case live_by_key db (ev_company ev) key of
       Some e \<Rightarrow> (Inr e, db)
     | None \<Rightarrow>
       (case (if lock_checked then ok ()
              else check_period_lock (ev_company ev) (ev_effective_at ev) override_lock
                     (ev_created_by ev) (lock_context ev)) db of
          (Inl x, db1) \<Rightarrow> (Inl x, db1)
        | (Inr _, db1) \<Rightarrow>
          (case insert_entry env (ev_company ev) (ev_effective_at ev) (Some (ev_source_type ev))
                  (Some (ev_source_id ev)) key None (ev_created_by ev) rs (others k db1) of
             (Inr e, db2) \<Rightarrow> (Inr e, db2)
           | (Inl x, db2) \<Rightarrow>
             (case entry_by_key db2 (ev_company ev) key of
                None \<Rightarrow> (Inl x, db2)
              | Some c \<Rightarrow>
                  if e_status c = Posted then (Inr c, db2)
                  else post_loop k others env override_lock ev rs pfx True db2))))"

definition post_for_event_among ::
  "(nat \<Rightarrow> gl_db \<Rightarrow> gl_db) \<Rightarrow> gl_env \<Rightarrow> bool \<Rightarrow> posting_event \<Rightarrow> gl_entry gl" where
  "post_for_event_among others env override_lock ev =
     andthen (lift (validate_balance (ev_lines ev))) (\<lambda>_.
     andthen (resolve_lines (ev_company ev) (ev_lines ev)) (\<lambda>rs.
     andthen (lift (content_hash env (event_fields ev rs))) (\<lambda>chash.
     andthen (lift (key_prefix (ev_source_type ev) (ev_source_id ev) (ev_event ev) chash)) (\<lambda>pfx.
     post_loop MAX_KEY_ATTEMPTS others env override_lock ev rs pfx False))))"

definition undisturbed :: "nat \<Rightarrow> gl_db \<Rightarrow> gl_db" where
  "undisturbed k db = db"

definition post_for_event :: "gl_env \<Rightarrow> bool \<Rightarrow> posting_event \<Rightarrow> gl_entry gl" where
  "post_for_event = post_for_event_among undisturbed"

section \<open>reverse_entry\<close>

definition mirror :: "gl_entry \<Rightarrow> gl_line \<Rightarrow> posting_line \<times> uuid" where
  "mirror e l =
     (\<lparr>pl_amount = - l_amount l, pl_role = None, pl_account = Some (l_account l),
       pl_memo = Some (''reversal of entry #'' @ nat_str (e_no e)), pl_job = l_job l,
       pl_customer = l_customer l\<rparr>, l_account l)"

definition mark_reversed :: "uuid \<Rightarrow> uuid \<Rightarrow> gl_db \<Rightarrow> gl_db" where
  "mark_reversed u r db =
     db\<lparr>db_entries := map (\<lambda>x. if e_id x = u then x\<lparr>e_status := Reversed, e_reversed_by := Some r\<rparr> else x)
                         (db_entries db)\<rparr>"

text \<open>
  The session's object for the entry shows its current row, so the call starts from that row.
\<close>

definition reverse_entry ::
  "gl_env \<Rightarrow> gl_entry \<Rightarrow> date option \<Rightarrow> string option \<Rightarrow> bool \<Rightarrow> gl_entry gl" where
  "reverse_entry env entry effective_at created_by override_lock = (\<lambda>db.
     let e = (case get_entry db (e_id entry) of Some c \<Rightarrow> c | None \<Rightarrow> entry) in
     if e_status e = Reversed then
       (case (case e_reversed_by e of None \<Rightarrow> None | Some r \<Rightarrow> get_entry db r) of
          None \<Rightarrow> (Inl LedgerConfigError, db) | Some r \<Rightarrow> (Inr r, db))
     else
       let when = (case effective_at of Some d \<Rightarrow> d | None \<Rightarrow> e_effective_at e) in
       (case check_period_lock (e_company e) when override_lock created_by (reversal_key (e_id e)) db of
          (Inl x, db1) \<Rightarrow> (Inl x, db1)
        | (Inr _, db1) \<Rightarrow>
          (case insert_entry env (e_company e) when (e_source_type e) (e_source_id e) (reversal_key (e_id e))
                  (Some (e_id e)) created_by (map (mirror e) (entry_lines db1 (e_id e))) db1 of
             (Inl x, db2) \<Rightarrow>
               (case entry_by_key db2 (e_company e) (reversal_key (e_id e)) of
                  None \<Rightarrow> (Inl x, db2) | Some r \<Rightarrow> (Inr r, db2))
           | (Inr r, db2) \<Rightarrow> (Inr r, mark_reversed (e_id e) (e_id r) db2))))"

end
