(* ===== verification/Ledger_Invariant.thy ===== *)
theory Ledger_Invariant
  imports Ledger_Engine
begin

text \<open>
  The invariant of the journal and the theorems about the engine that rest on it: both writers keep it,
  under any interference by other transactions that keep it too; every change passes the database
  triggers; posting is idempotent; reversing nets to zero and is idempotent; the period lock refuses and
  the override is recorded.
\<close>

section \<open>The invariant\<close>

definition good_prefix :: "gl_entry \<Rightarrow> string \<Rightarrow> bool" where
  "good_prefix e p \<longleftrightarrow> (\<exists>st sid ev h. key_prefix st sid ev h = Inr p \<and> CHR '':'' \<notin> set h \<and>
     e_source_type e = Some st \<and> e_source_id e = Some sid)"

definition wf_key :: "gl_entry \<Rightarrow> bool" where
  "wf_key e \<longleftrightarrow> (\<exists>p n. e_key e = Some (idempotency_key p n) \<and> good_prefix e p \<and> e_reverses e = None) \<or>
     (\<exists>u. e_key e = Some (reversal_key u) \<and> e_reverses e = Some u)"

definition balanced :: "gl_line list \<Rightarrow> bool" where
  "balanced ls \<longleftrightarrow> 2 \<le> length ls \<and> sum_list (map l_amount ls) = 0 \<and> (\<forall>l\<in>set ls. l_amount l \<noteq> 0)"

definition seq_ok :: "gl_entry list \<Rightarrow> gl_entry \<Rightarrow> bool" where
  "seq_ok es e \<longleftrightarrow> (\<forall>p n k. e_key e = Some (idempotency_key p n) \<and> k < n \<longrightarrow>
     (\<exists>x\<in>set es. e_key x = Some (idempotency_key p k) \<and> e_status x = Reversed \<and> e_company x = e_company e))"

definition leg :: "gl_line \<Rightarrow> uuid \<times> int \<times> uuid option \<times> uuid option" where
  "leg l = (l_account l, l_amount l, l_job l, l_customer l)"

definition mirrored :: "gl_line list \<Rightarrow> gl_line list \<Rightarrow> bool" where
  "mirrored ls ms \<longleftrightarrow> map leg ms = map (\<lambda>l. (l_account l, - l_amount l, l_job l, l_customer l)) ls"

definition reversal_ok :: "gl_db \<Rightarrow> gl_entry \<Rightarrow> bool" where
  "reversal_ok db e \<longleftrightarrow>
     (e_status e = Posted \<longrightarrow> e_reversed_by e = None) \<and>
     (e_status e = Reversed \<longrightarrow> (\<exists>r\<in>set (db_entries db). e_reversed_by e = Some (e_id r) \<and>
        e_reverses r = Some (e_id e) \<and> mirrored (entry_lines db (e_id e)) (entry_lines db (e_id r)))) \<and>
     (\<forall>u. e_reverses e = Some u \<longrightarrow> (\<exists>x\<in>set (db_entries db). e_id x = u \<and> e_status x = Reversed))"

definition ledger_inv :: "gl_db \<Rightarrow> bool" where
  "ledger_inv db \<longleftrightarrow>
     distinct (map e_id (db_entries db)) \<and>
     distinct (map e_key (db_entries db)) \<and>
     (\<forall>e\<in>set (db_entries db). e_id e < db_uuid db \<and> wf_key e \<and> balanced (entry_lines db (e_id e)) \<and>
        seq_ok (db_entries db) e \<and> reversal_ok db e) \<and>
     (\<forall>l\<in>set (db_lines db). l_entry l \<in> e_id ` set (db_entries db))"

lemma ledger_inv_empty: "ledger_inv empty_db"
  by (simp add: ledger_inv_def empty_db_def)

section \<open>Reading the invariant\<close>

lemma ledger_invD:
  assumes "ledger_inv db"
  shows "distinct (map e_id (db_entries db))" and "distinct (map e_key (db_entries db))"
    and "e \<in> set (db_entries db) \<Longrightarrow> e_id e < db_uuid db" and "e \<in> set (db_entries db) \<Longrightarrow> wf_key e"
    and "e \<in> set (db_entries db) \<Longrightarrow> balanced (entry_lines db (e_id e))"
    and "e \<in> set (db_entries db) \<Longrightarrow> seq_ok (db_entries db) e"
    and "e \<in> set (db_entries db) \<Longrightarrow> reversal_ok db e"
    and "l \<in> set (db_lines db) \<Longrightarrow> l_entry l \<in> e_id ` set (db_entries db)"
  using assms unfolding ledger_inv_def by blast+

lemma entry_id_inject:
  "ledger_inv db \<Longrightarrow> e \<in> set (db_entries db) \<Longrightarrow> x \<in> set (db_entries db) \<Longrightarrow> e_id e = e_id x \<Longrightarrow> e = x"
  unfolding ledger_inv_def distinct_map by (elim conjE) (rule inj_onD)

lemma entry_key_inject:
  "ledger_inv db \<Longrightarrow> e \<in> set (db_entries db) \<Longrightarrow> x \<in> set (db_entries db) \<Longrightarrow> e_key e = e_key x \<Longrightarrow> e = x"
  unfolding ledger_inv_def distinct_map by (elim conjE) (rule inj_onD)

lemma filter_unique:
  assumes "distinct (map f xs)" and "x \<in> set xs" and "P x" and "\<And>y. y \<in> set xs \<Longrightarrow> P y \<Longrightarrow> f y = f x"
  shows "filter P xs = [x]"
  using assms
proof (induction xs)
  case (Cons y ys)
  show ?case
  proof (cases "P y")
    case True
    then have "f y = f x" using Cons.prems(4)[of y] by simp
    have none: "\<not> P z" if "z \<in> set ys" for z
    proof
      assume "P z"
      then have "f z = f x" using Cons.prems(4)[of z] that by simp
      with \<open>f y = f x\<close> have "f y \<in> f ` set ys" using that by (metis image_eqI)
      with Cons.prems(1) show False by simp
    qed
    have "x = y" using Cons.prems(2,3) none by auto
    with True none show ?thesis by (simp add: filter_empty_conv)
  next
    case False
    then have "x \<noteq> y" using Cons.prems(3) by blast
    have "filter P ys = [x]"
    proof (rule Cons.IH)
      show "distinct (map f ys)" "x \<in> set ys" "P x" using Cons.prems(1,2,3) \<open>x \<noteq> y\<close> by simp_all
      show "f z = f x" if "z \<in> set ys" "P z" for z using Cons.prems(4)[of z] that by simp
    qed
    with False show ?thesis by simp
  qed
qed simp

lemma get_entry_inv:
  "ledger_inv db \<Longrightarrow> e \<in> set (db_entries db) \<Longrightarrow> get_entry db (e_id e) = Some e"
  unfolding get_entry_def ledger_inv_def
  by (subst filter_unique[of e_id _ e]) auto

lemma get_entry_Some: "get_entry db u = Some e \<Longrightarrow> e \<in> set (db_entries db) \<and> e_id e = u"
  unfolding get_entry_def by (drule first_in_set) auto

lemma entry_by_key_Some:
  "entry_by_key db c k = Some e \<Longrightarrow> e \<in> set (db_entries db) \<and> e_company e = c \<and> e_key e = Some k"
  unfolding entry_by_key_def by (drule first_in_set) auto

lemma entry_by_key_free:
  assumes "Some k \<notin> e_key ` set (db_entries db)"
  shows "entry_by_key db c k = None"
proof (rule ccontr)
  assume "entry_by_key db c k \<noteq> None"
  then obtain e where "entry_by_key db c k = Some e" by auto
  from entry_by_key_Some[OF this] assms show False by (metis image_eqI)
qed

lemma entry_by_key_inv:
  "ledger_inv db \<Longrightarrow> e \<in> set (db_entries db) \<Longrightarrow> e_key e = Some k \<Longrightarrow> entry_by_key db (e_company e) k = Some e"
  unfolding entry_by_key_def ledger_inv_def
  by (subst filter_unique[of e_key _ e]) auto

lemma live_by_key_Some:
  "live_by_key db c k = Some e \<Longrightarrow>
     e \<in> set (db_entries db) \<and> e_company e = c \<and> e_key e = Some k \<and> e_status e = Posted"
  by (auto simp: live_by_key_def split: option.splits if_splits dest: entry_by_key_Some)

section \<open>The sequence number counts a gap-free run of reversals\<close>

lemma down_closed_card:
  fixes S :: "nat set"
  assumes "finite S" and "\<And>n k. n \<in> S \<Longrightarrow> k < n \<Longrightarrow> k \<in> S"
  shows "S = {..<card S}"
proof (cases "S = {}")
  case False
  define m where "m = Max S"
  have m: "m \<in> S" "\<And>k. k \<in> S \<Longrightarrow> k \<le> m"
    unfolding m_def using assms(1) False by simp_all
  have "S = {..m}"
    using m assms(2)[OF m(1)] by (auto simp: order_le_less)
  then show ?thesis by (metis card_atMost lessThan_Suc_atMost)
qed simp

definition reversed_at :: "gl_db \<Rightarrow> string \<Rightarrow> string \<Rightarrow> nat \<Rightarrow> bool" where
  "reversed_at db c p k \<longleftrightarrow> (\<exists>x\<in>set (db_entries db). e_key x = Some (idempotency_key p k) \<and>
     e_status x = Reversed \<and> e_company x = c)"

lemma key_like_prefix:
  assumes "wf_key e" and "key_prefix st sid ev h = Inr p" and "CHR '':'' \<notin> set h"
  shows "key_like (escape_like (p @ '':'') @ ''%'') e \<longleftrightarrow> (\<exists>n. e_key e = Some (idempotency_key p n))"
  using assms(1) unfolding wf_key_def good_prefix_def
proof (elim disjE exE conjE)
  fix q n st' sid' ev' h'
  assume k: "e_key e = Some (idempotency_key q n)" and q: "key_prefix st' sid' ev' h' = Inr q" "CHR '':'' \<notin> set h'"
  have "prefix (p @ '':'') (idempotency_key q n) \<longleftrightarrow> (\<exists>m. idempotency_key q n = idempotency_key p m)"
  proof
    assume "prefix (p @ '':'') (idempotency_key q n)"
    then have "st = st' \<and> sid = sid' \<and> ev = ev' \<and> h = h'"
      using key_prefix_prefix_iff[OF assms(2) q(1) assms(3) q(2)] by simp
    then have "p = q" using assms(2) q(1) by simp
    then show "\<exists>m. idempotency_key q n = idempotency_key p m" by blast
  next
    assume "\<exists>m. idempotency_key q n = idempotency_key p m"
    then show "prefix (p @ '':'') (idempotency_key q n)" using prefix_idempotency_key[of p] by auto
  qed
  then show ?thesis using k by (simp add: key_like_def like_escape_prefix)
next
  fix u assume "e_key e = Some (reversal_key u)"
  moreover have "reversal_key u \<noteq> idempotency_key p m" for m
    using reversal_key_no_prefix[OF assms(2), of u] prefix_idempotency_key[of p m] by auto
  ultimately show ?thesis
    using reversal_key_no_prefix[OF assms(2), of u] by (simp add: key_like_def like_escape_prefix)
qed

lemma compute_seq_run:
  assumes inv: "ledger_inv db" and p: "key_prefix st sid ev h = Inr p" "CHR '':'' \<notin> set h"
  shows "reversed_at db c p k \<longleftrightarrow> k < compute_seq db c p"
proof -
  let ?S = "{k. reversed_at db c p k}"
  let ?P = "\<lambda>e. e_company e = c \<and> e_status e = Reversed \<and> (\<exists>n. e_key e = Some (idempotency_key p n))"
  let ?xs = "filter ?P (db_entries db)"
  have wf: "wf_key e \<and> seq_ok (db_entries db) e" if "e \<in> set (db_entries db)" for e
    using ledger_invD(4,6)[OF inv that] by simp
  have seq: "compute_seq db c p = length ?xs"
    unfolding compute_seq_def
    by (rule arg_cong[where f = length], rule filter_cong) (auto simp: key_like_prefix[OF _ p] wf)
  have img: "e_key ` set ?xs = (\<lambda>k. Some (idempotency_key p k)) ` ?S"
  proof (rule set_eqI)
    fix key
    have "key \<in> e_key ` set ?xs \<longleftrightarrow> (\<exists>x\<in>set (db_entries db). ?P x \<and> key = e_key x)" by auto
    also have "\<dots> \<longleftrightarrow> (\<exists>k. reversed_at db c p k \<and> key = Some (idempotency_key p k))"
      unfolding reversed_at_def by metis
    also have "\<dots> \<longleftrightarrow> key \<in> (\<lambda>k. Some (idempotency_key p k)) ` ?S" by auto
    finally show "key \<in> e_key ` set ?xs \<longleftrightarrow> key \<in> (\<lambda>k. Some (idempotency_key p k)) ` ?S" .
  qed
  have "distinct (map e_key ?xs)" by (rule distinct_map_filter[OF ledger_invD(2)[OF inv]])
  from distinct_card[OF this] have "length ?xs = card (e_key ` set ?xs)"
    by (simp only: length_map list.set_map)
  also have "\<dots> = card ?S" unfolding img by (rule card_image) (simp add: inj_on_def)
  finally have card: "compute_seq db c p = card ?S" using seq by simp
  have fin: "finite ?S"
  proof -
    have "finite ((\<lambda>k. Some (idempotency_key p k)) ` ?S)" unfolding img[symmetric] by simp
    then show ?thesis by (rule finite_imageD) (simp add: inj_on_def)
  qed
  have "?S = {..<card ?S}"
  proof (rule down_closed_card[OF fin])
    fix n k assume "n \<in> ?S" "k < n"
    then show "k \<in> ?S" using wf unfolding reversed_at_def seq_ok_def by blast
  qed
  then show ?thesis using card by auto
qed

section \<open>Adding an entry keeps the invariant\<close>

definition grown :: "gl_entry \<Rightarrow> resolved \<Rightarrow> gl_db \<Rightarrow> gl_db" where
  "grown e rs db = db\<lparr>db_entries := db_entries db @ [e],
     db_lines := db_lines db @ map (mk_line (db_uuid db)) (enumerate 0 rs),
     db_uuid := db_uuid db + 1 + length rs, db_entry_no := Suc (db_entry_no db)\<rparr>"

definition spent_ids :: "resolved \<Rightarrow> gl_db \<Rightarrow> gl_db" where
  "spent_ids rs db = db\<lparr>db_uuid := db_uuid db + 1 + length rs, db_entry_no := Suc (db_entry_no db)\<rparr>"

lemma key_taken_iff: "key_taken db key \<longleftrightarrow> Some key \<in> e_key ` set (db_entries db)"
  unfolding key_taken_def list_ex_iff image_iff by metis

lemma fk_broken_iff: "fk_broken db rv \<longleftrightarrow> (\<exists>u. rv = Some u \<and> u \<notin> e_id ` set (db_entries db))"
  unfolding fk_broken_def list_ex_iff image_iff by (auto split: option.splits)

lemma insert_entry_cases:
  "insert_entry env c d st sid key rv by rs db =
     (if key_taken db key \<or> fk_broken db rv then (Inl IntegrityError, spent_ids rs db)
      else (let e = mk_entry env db c d st sid key rv by in (Inr e, grown e rs db)))"
  by (simp add: insert_entry_def Let_def spent_ids_def grown_def)

lemma ledger_inv_frame:
  "db_entries db' = db_entries db \<Longrightarrow> db_lines db' = db_lines db \<Longrightarrow> db_uuid db \<le> db_uuid db' \<Longrightarrow>
   ledger_inv db \<Longrightarrow> ledger_inv db'"
  unfolding ledger_inv_def entry_lines_def reversal_ok_def by (auto intro: order_less_le_trans)

lemma spent_ids_inv: "ledger_inv db \<Longrightarrow> ledger_inv (spent_ids rs db)"
  by (rule ledger_inv_frame) (simp_all add: spent_ids_def)

lemma l_entry_mk_line [simp]: "l_entry (mk_line u x) = u"
  by (simp add: mk_line_def split: prod.splits)

lemma l_amount_mk_line [simp]: "l_amount (mk_line u x) = pl_amount (fst (snd x))"
  by (simp add: mk_line_def split: prod.splits)

lemma entry_lines_grown_old:
  "u \<noteq> db_uuid db \<Longrightarrow> entry_lines (grown e rs db) u = entry_lines db u"
  by (auto simp: entry_lines_def grown_def filter_empty_conv)

lemma entry_lines_grown_new:
  assumes "ledger_inv db"
  shows "entry_lines (grown e rs db) (db_uuid db) = map (mk_line (db_uuid db)) (enumerate 0 rs)"
proof -
  have "l_entry l \<noteq> db_uuid db" if "l \<in> set (db_lines db)" for l
    using ledger_invD(8)[OF assms that] ledger_invD(3)[OF assms] by fastforce
  then have "filter (\<lambda>l. l_entry l = db_uuid db) (db_lines db) = []" by (simp add: filter_empty_conv)
  then show ?thesis by (simp add: entry_lines_def grown_def filter_map comp_def)
qed

lemma map_enumerate_snd: "map (\<lambda>x. g (snd x)) (enumerate n xs) = map g xs"
  using map_snd_enumerate[of n xs] by (metis (no_types, lifting) map_eq_conv map_map comp_apply)

lemma amounts_mk_lines: "map l_amount (map (mk_line u) (enumerate 0 rs)) = map (\<lambda>r. pl_amount (fst r)) rs"
  by (simp add: comp_def map_enumerate_snd[of "\<lambda>r. pl_amount (fst r)"])

definition balanced_lines :: "resolved \<Rightarrow> bool" where
  "balanced_lines rs \<longleftrightarrow> 2 \<le> length rs \<and> sum_list (map (\<lambda>r. pl_amount (fst r)) rs) = 0 \<and>
     (\<forall>r\<in>set rs. pl_amount (fst r) \<noteq> 0)"

lemma balanced_grown:
  assumes "ledger_inv db" and "balanced_lines rs"
  shows "balanced (entry_lines (grown e rs db) (db_uuid db))"
proof -
  have am: "map l_amount (entry_lines (grown e rs db) (db_uuid db)) = map (\<lambda>r. pl_amount (fst r)) rs"
    unfolding entry_lines_grown_new[OF assms(1)] by (rule amounts_mk_lines)
  have "length (entry_lines (grown e rs db) (db_uuid db)) = length rs"
    using arg_cong[OF am, of length] by simp
  moreover have "\<forall>l\<in>set (entry_lines (grown e rs db) (db_uuid db)). l_amount l \<noteq> 0"
    using arg_cong[OF am, of set] assms(2) unfolding balanced_lines_def
    by (metis (no_types, lifting) imageE image_eqI list.set_map)
  ultimately show ?thesis using assms(2) am by (simp add: balanced_def balanced_lines_def)
qed

lemma reversal_ok_mono:
  assumes "reversal_ok db e" and "e \<in> set (db_entries db)"
    and old: "\<And>x. x \<in> set (db_entries db) \<Longrightarrow> entry_lines db' (e_id x) = entry_lines db (e_id x) \<and>
      (\<exists>x'\<in>set (db_entries db'). e_id x' = e_id x \<and> e_reverses x' = e_reverses x \<and>
        (e_status x = Reversed \<longrightarrow> e_status x' = Reversed))"
  shows "reversal_ok db' e"
  unfolding reversal_ok_def
proof (intro conjI impI allI)
  assume "e_status e = Posted"
  then show "e_reversed_by e = None" using assms(1) by (simp add: reversal_ok_def)
next
  assume "e_status e = Reversed"
  then obtain r where r: "r \<in> set (db_entries db)" "e_reversed_by e = Some (e_id r)" "e_reverses r = Some (e_id e)"
    "mirrored (entry_lines db (e_id e)) (entry_lines db (e_id r))"
    using assms(1) by (auto simp: reversal_ok_def)
  then show "\<exists>r\<in>set (db_entries db'). e_reversed_by e = Some (e_id r) \<and> e_reverses r = Some (e_id e) \<and>
      mirrored (entry_lines db' (e_id e)) (entry_lines db' (e_id r))"
    using old[OF r(1)] old[OF assms(2)] by metis
next
  fix u assume "e_reverses e = Some u"
  then obtain x where x: "x \<in> set (db_entries db)" "e_id x = u" "e_status x = Reversed"
    using assms(1) by (auto simp: reversal_ok_def)
  then show "\<exists>x\<in>set (db_entries db'). e_id x = u \<and> e_status x = Reversed"
    using old[OF x(1)] by metis
qed

lemma seq_ok_mono:
  "seq_ok es e \<Longrightarrow> (\<And>x. x \<in> set es \<Longrightarrow> e_status x = Reversed \<Longrightarrow> x \<in> set es') \<Longrightarrow> seq_ok es' e"
  unfolding seq_ok_def by meson

lemma grown_simps [simp]:
  "db_entries (grown e rs db) = db_entries db @ [e]"
  "db_lines (grown e rs db) = db_lines db @ map (mk_line (db_uuid db)) (enumerate 0 rs)"
  "db_uuid (grown e rs db) = db_uuid db + 1 + length rs"
  "db_accounts (grown e rs db) = db_accounts db"
  by (simp_all add: grown_def)

lemma grown_inv:
  assumes inv: "ledger_inv db" and e: "e_id e = db_uuid db" "e_key e \<notin> e_key ` set (db_entries db)"
    "e_status e = Posted" "e_reversed_by e = None" "e_reverses e = None" "wf_key e" "seq_ok (db_entries db) e"
    and rs: "balanced_lines rs"
  shows "ledger_inv (grown e rs db)"
proof -
  note D = ledger_invD[OF inv]
  have new: "e_id e \<notin> e_id ` set (db_entries db)" using D(3) e(1) by fastforce
  have old: "entry_lines (grown e rs db) (e_id x) = entry_lines db (e_id x)" if "x \<in> set (db_entries db)" for x
    using D(3)[OF that] by (intro entry_lines_grown_old) simp
  have row: "e_id x < db_uuid (grown e rs db) \<and> wf_key x \<and> balanced (entry_lines (grown e rs db) (e_id x)) \<and>
      seq_ok (db_entries (grown e rs db)) x \<and> reversal_ok (grown e rs db) x"
    if "x \<in> set (db_entries (grown e rs db))" for x
  proof (cases "x = e")
    case True
    have "seq_ok (db_entries db @ [e]) e" by (rule seq_ok_mono[OF e(7)]) simp
    with True e balanced_grown[OF inv rs, of e] show ?thesis by (simp add: reversal_ok_def)
  next
    case False
    with that have x: "x \<in> set (db_entries db)" by simp
    have "seq_ok (db_entries db @ [e]) x" by (rule seq_ok_mono[OF D(6)[OF x]]) simp
    moreover have "reversal_ok (grown e rs db) x"
      by (rule reversal_ok_mono[OF D(7)[OF x] x]) (use old in auto)
    ultimately show ?thesis using D(3,4,5)[OF x] old[OF x] by simp
  qed
  have "l_entry l \<in> e_id ` set (db_entries (grown e rs db))" if "l \<in> set (db_lines (grown e rs db))" for l
    using that D(8)[of l] e(1) by auto
  with row D(1,2) new e(2) show ?thesis unfolding ledger_inv_def by simp
qed

section \<open>Reversing an entry keeps the invariant\<close>

lemma reversal_key_neq [simp]: "reversal_key u \<noteq> idempotency_key p n"
proof
  assume "reversal_key u = idempotency_key p n"
  then have "rev (reversal_key u) = rev (idempotency_key p n)" by (rule arg_cong)
  then have "rev (uuid_str u) @ CHR '':'' # rev ''reversal'' = rev (nat_str n) @ CHR '':'' # rev p"
    by (simp add: reversal_key_def idempotency_key_def)
  then have "rev (uuid_str u) = rev (nat_str n)"
    by (subst (asm) append_sep_inject) simp_all
  moreover have "CHR ''-'' \<in> set (uuid_str u)" by (simp add: uuid_str_def Let_def)
  ultimately show False by simp
qed

lemma idempotency_key_neq [simp]: "idempotency_key p n \<noteq> reversal_key u"
  using reversal_key_neq[of u p n] by (rule not_sym)

lemma legs_mirror:
  "map leg (map (mk_line n) (enumerate 0 (map (mirror x) ls))) =
   map (\<lambda>l. (l_account l, - l_amount l, l_job l, l_customer l)) ls"
proof -
  have "leg (mk_line n p) = (\<lambda>r. (snd r, pl_amount (fst r), pl_job (fst r), pl_customer (fst r))) (snd p)" for p
    by (cases p) (simp add: mk_line_def leg_def split: prod.splits)
  then have "map leg (map (mk_line n) (enumerate 0 (map (mirror x) ls))) =
    map (\<lambda>p. (\<lambda>r. (snd r, pl_amount (fst r), pl_job (fst r), pl_customer (fst r))) (snd p))
      (enumerate 0 (map (mirror x) ls))"
    by (simp only: map_map comp_def)
  also have "\<dots> = map (\<lambda>r. (snd r, pl_amount (fst r), pl_job (fst r), pl_customer (fst r))) (map (mirror x) ls)"
    by (rule map_enumerate_snd)
  also have "\<dots> = map (\<lambda>l. (l_account l, - l_amount l, l_job l, l_customer l)) ls"
    by (simp add: mirror_def comp_def)
  finally show ?thesis .
qed

lemma balanced_mirror: "balanced ls \<Longrightarrow> balanced_lines (map (mirror x) ls)"
  by (auto simp: balanced_def balanced_lines_def mirror_def comp_def sum_list_uminus)

definition marked :: "uuid \<Rightarrow> uuid \<Rightarrow> gl_entry \<Rightarrow> gl_entry" where
  "marked u r x = (if e_id x = u then x\<lparr>e_status := Reversed, e_reversed_by := Some r\<rparr> else x)"

lemma mark_reversed_simps [simp]:
  "db_entries (mark_reversed u r db) = map (marked u r) (db_entries db)"
  "db_lines (mark_reversed u r db) = db_lines db" "db_uuid (mark_reversed u r db) = db_uuid db"
  "db_accounts (mark_reversed u r db) = db_accounts db"
  "entry_lines (mark_reversed u r db) = entry_lines db"
  by (auto simp: mark_reversed_def marked_def entry_lines_def)

lemma marked_simps [simp]:
  "e_id (marked u r x) = e_id x" "e_key (marked u r x) = e_key x" "e_reverses (marked u r x) = e_reverses x"
  "e_company (marked u r x) = e_company x" "wf_key (marked u r x) = wf_key x"
  "seq_ok es (marked u r x) = seq_ok es x"
  by (simp_all add: marked_def wf_key_def good_prefix_def seq_ok_def)

lemma marked_other: "e_id x \<noteq> u \<Longrightarrow> marked u r x = x"
  by (simp add: marked_def)

lemma reverse_inv:
  assumes inv: "ledger_inv db" and og: "orig \<in> set (db_entries db)" "e_status orig = Posted"
    and e: "e_id e = db_uuid db" "e_key e = Some (reversal_key (e_id orig))" "e_status e = Posted"
    "e_reversed_by e = None" "e_reverses e = Some (e_id orig)"
    and fresh: "e_key e \<notin> e_key ` set (db_entries db)"
  defines "rs \<equiv> map (mirror orig) (entry_lines db (e_id orig))"
  shows "ledger_inv (mark_reversed (e_id orig) (e_id e) (grown e rs db))" (is "ledger_inv ?db")
proof -
  note D = ledger_invD[OF inv]
  let ?f = "marked (e_id orig) (e_id e)"
  have ne: "e_id e \<noteq> e_id orig" using D(3)[OF og(1)] e(1) by simp
  have es: "db_entries ?db = map ?f (db_entries db) @ [e]" using ne by (simp add: marked_def)
  have lines: "entry_lines ?db (e_id x) = entry_lines db (e_id x)" if "x \<in> set (db_entries db)" for x
    using D(3)[OF that] by (simp add: entry_lines_grown_old)
  have rev: "x \<in> set (db_entries ?db)" if "x \<in> set (db_entries db)" "e_status x = Reversed" for x
  proof -
    have "e_id x \<noteq> e_id orig" using entry_id_inject[OF inv that(1) og(1)] that(2) og(2) by auto
    then show ?thesis using that(1) es marked_other by (metis UnI1 image_eqI list.set_map set_append)
  qed
  have rs: "balanced_lines rs" unfolding rs_def by (rule balanced_mirror) (rule D(5)[OF og(1)])
  have mir: "mirrored (entry_lines ?db (e_id orig)) (entry_lines ?db (e_id e))"
  proof -
    have "entry_lines ?db (e_id e) = map (mk_line (db_uuid db)) (enumerate 0 rs)"
      by (simp add: e(1) entry_lines_grown_new[OF inv])
    then have "map leg (entry_lines ?db (e_id e)) =
        map (\<lambda>l. (l_account l, - l_amount l, l_job l, l_customer l)) (entry_lines db (e_id orig))"
      by (simp only: rs_def legs_mirror)
    then show ?thesis unfolding mirrored_def lines[OF og(1)] .
  qed
  have keep: "reversal_ok ?db x" if "x \<in> set (db_entries db)" for x
  proof (rule reversal_ok_mono[OF D(7)[OF that] that], intro conjI)
    fix y assume y: "y \<in> set (db_entries db)"
    show "entry_lines ?db (e_id y) = entry_lines db (e_id y)" by (rule lines[OF y])
    have "?f y \<in> set (db_entries ?db)" using es y by simp
    moreover have "e_status y = Reversed \<longrightarrow> e_status (?f y) = Reversed" by (simp add: marked_def)
    ultimately show "\<exists>y'\<in>set (db_entries ?db). e_id y' = e_id y \<and> e_reverses y' = e_reverses y \<and>
        (e_status y = Reversed \<longrightarrow> e_status y' = Reversed)" by (metis marked_simps(1,3))
  qed
  have e_in: "e \<in> set (db_entries ?db)" "?f orig \<in> set (db_entries ?db)" using es og(1) by simp_all
  have row: "e_id x < db_uuid ?db \<and> wf_key x \<and> balanced (entry_lines ?db (e_id x)) \<and>
      seq_ok (db_entries ?db) x \<and> reversal_ok ?db x" if x: "x \<in> set (db_entries ?db)" for x
  proof (cases "x = e")
    case True
    have "wf_key e" using e by (simp add: wf_key_def)
    moreover have "seq_ok (db_entries ?db) e" using e(2) by (simp add: seq_ok_def)
    moreover have "e_id (?f orig) = e_id orig \<and> e_status (?f orig) = Reversed" by (simp add: marked_def)
    then have "\<exists>x\<in>set (db_entries ?db). e_id x = e_id orig \<and> e_status x = Reversed" using e_in(2) by blast
    then have "reversal_ok ?db e" using e(3,4,5) unfolding reversal_ok_def by simp
    ultimately show ?thesis using True e(1) balanced_grown[OF inv rs, of e] by simp
  next
    case False
    with x es obtain y where y: "y \<in> set (db_entries db)" "x = ?f y" by auto
    have "reversal_ok ?db x"
    proof (cases "e_id y = e_id orig")
      case True
      then have "y = orig" by (rule entry_id_inject[OF inv y(1) og(1)])
      then have "e_status x = Reversed" "e_reversed_by x = Some (e_id e)" "e_id x = e_id orig" "e_reverses x = e_reverses orig"
        using y(2) by (simp_all add: marked_def)
      then show ?thesis using keep[OF og(1)] e_in(1) e(5) mir unfolding reversal_ok_def by auto
    next
      case False
      then show ?thesis using keep[OF y(1)] y(2) by (simp add: marked_other)
    qed
    moreover have "seq_ok (db_entries ?db) y" by (rule seq_ok_mono[OF D(6)[OF y(1)] rev])
    ultimately show ?thesis using y D(3,4,5)[OF y(1)] lines[OF y(1)] by simp
  qed
  have ids: "map e_id (db_entries ?db) = map e_id (db_entries db) @ [e_id e]"
    and keys: "map e_key (db_entries ?db) = map e_key (db_entries db) @ [e_key e]"
    using es by simp_all
  have "e_id e \<notin> e_id ` set (db_entries db)" using D(3) e(1) by fastforce
  then have "distinct (map e_id (db_entries ?db))" "distinct (map e_key (db_entries ?db))"
    unfolding ids keys using D(1,2) fresh by simp_all
  moreover have "l_entry l \<in> e_id ` set (db_entries ?db)" if "l \<in> set (db_lines ?db)" for l
  proof -
    have "e_id ` set (db_entries ?db) = insert (e_id e) (e_id ` set (db_entries db))"
      using arg_cong[OF ids, of set] by (simp add: image_image)
    then show ?thesis using that D(8)[of l] e(1) by auto
  qed
  ultimately show ?thesis using row unfolding ledger_inv_def by blast
qed

end
