(* ===== verification/Ledger_Posting.thy ===== *)
theory Ledger_Posting
  imports Ledger_Invariant
begin

text \<open>
  The correctness of \<open>post_for_event\<close> and \<open>reverse_entry\<close>: every run, whatever the result, is a sound step of
  the journal (it keeps the invariant and passes the triggers), posting is idempotent, an amount comes
  back under a fresh sequence number after a reversal, a reversal cancels its original line by line, and
  the period lock refuses or is recorded.
\<close>

section \<open>Sound steps\<close>

lemma idempotency_key_both:
  assumes "idempotency_key p m = idempotency_key q n"
  shows "p = q \<and> m = n"
proof -
  have "rev (idempotency_key p m) = rev (idempotency_key q n)" using assms by (rule arg_cong)
  then have "rev (nat_str m) @ CHR '':'' # rev p = rev (nat_str n) @ CHR '':'' # rev q"
    by (simp add: idempotency_key_def)
  then have "rev (nat_str m) = rev (nat_str n) \<and> rev p = rev q"
    by (subst (asm) append_sep_inject) simp_all
  then show ?thesis by simp
qed

definition sound_step :: "gl_db \<Rightarrow> gl_db \<Rightarrow> bool" where
  "sound_step db db' \<longleftrightarrow> (ledger_inv db \<longrightarrow> ledger_inv db' \<and> extends db db')"

interpretation journal: tracked sound_step
proof
  show "sound_step s s" for s by (simp add: sound_step_def history.R_refl)
  show "sound_step s t \<Longrightarrow> sound_step t u \<Longrightarrow> sound_step s u" for s t u
    unfolding sound_step_def using history.R_trans by blast
qed

definition digest_ok :: "gl_env \<Rightarrow> bool" where
  "digest_ok env \<longleftrightarrow> (\<forall>s. CHR '':'' \<notin> set (sha256_hex env s))"

definition polite :: "(nat \<Rightarrow> gl_db \<Rightarrow> gl_db) \<Rightarrow> bool" where
  "polite others \<longleftrightarrow> (\<forall>k db. sound_step db (others k db))"

lemma polite_undisturbed: "polite undisturbed"
  by (simp add: polite_def undisturbed_def journal.R_refl)

lemma sound_frame:
  assumes "db_entries db' = db_entries db" "db_lines db' = db_lines db" "db_uuid db \<le> db_uuid db'"
    and "prefix (db_accounts db) (db_accounts db')"
  shows "sound_step db db'"
  unfolding sound_step_def using extendsI_frame[OF assms(1,2,4)] ledger_inv_frame[OF assms(1,2,3)] by blast

lemma extends_grown: "extends db (grown e rs db)"
  by (simp add: extends_def nth_append gl_entries_immutable_refl)

lemma sound_spent_ids: "sound_step db (spent_ids rs db)"
  by (rule sound_frame) (simp_all add: spent_ids_def)

lemma reversed_at_extends: "extends db db' \<Longrightarrow> reversed_at db c p k \<Longrightarrow> reversed_at db' c p k"
proof -
  assume ext: "extends db db'" and "reversed_at db c p k"
  then obtain x where x: "x \<in> set (db_entries db)" "e_key x = Some (idempotency_key p k)"
    "e_status x = Reversed" "e_company x = c" by (auto simp: reversed_at_def)
  obtain y where y: "y \<in> set (db_entries db')" "gl_entries_immutable x y"
    using extends_entry[OF ext x(1)] .
  have "e_status y = Reversed" using y(2) x(3) by (auto simp: gl_entries_immutable_def)
  then show ?thesis using x y gl_entries_immutable_fields[OF y(2)] by (auto simp: reversed_at_def)
qed

section \<open>Resolution and the period lock\<close>

lemma sound_add_rows: "sound_step db (add_rows c rows db)"
  by (rule sound_frame) (simp_all add: add_rows_def)

lemma ensure_role_account_sound [tracking]: "tracks sound_step (ensure_role_account c r)"
  unfolding tracks_def
proof
  fix db show "sound_step db (snd (ensure_role_account c r db))"
    using ensure_role_account_snd[of c r db] journal.R_refl sound_add_rows unfolding snd_seed_coa by metis
qed

lemma resolve_lines_sound [tracking]: "tracks sound_step (resolve_lines c ls)"
  unfolding resolve_lines_def resolve_line_def by (intro journal.tracks_rules tracking)

lemma check_period_lock_sound [tracking]: "tracks sound_step (check_period_lock c d ov by ctxt)"
  unfolding tracks_def check_period_lock_def
  by (auto split: option.splits intro!: sound_frame)

text \<open>What an account resolves to does not change while accounts are only added by the seed.\<close>

definition stable :: "string \<Rightarrow> gl_db \<Rightarrow> gl_db \<Rightarrow> bool" where
  "stable c db db' \<longleftrightarrow>
     (\<forall>r a. resolve_role_account db c r = Inr a \<longrightarrow> resolve_role_account db' c r = Inr a) \<and>
     (\<forall>u a. get_account db u = Some a \<longrightarrow> get_account db' u = Some a)"

interpretation resolution: tracked "stable c" for c
  by unfold_locales (auto simp: stable_def)

lemma stable_frame: "db_accounts db' = db_accounts db \<Longrightarrow> stable c db db'"
  by (simp add: stable_def resolve_role_account_def role_owners_def get_account_def)

lemma stable_seed: "stable c db (snd (seed_coa c db))"
  unfolding stable_def
proof (intro conjI allI impI)
  fix r a assume res: "resolve_role_account db c r = Inr a"
  then have r: "r \<in> set ALL_ROLES" and own: "role_owners db c r = [a]" by (simp_all add: resolve_Inr_iff)
  then have "has_role db c r" using role_owners_no_role by fastforce
  then have "role_owners (snd (seed_coa c db)) c r = role_owners db c r"
    using role_owners_seed[OF r, of c db] by (auto simp: snd_seed_coa)
  with r own show "resolve_role_account (snd (seed_coa c db)) c r = Inr a" by (simp add: resolve_Inr_iff)
next
  fix u a assume "get_account db u = Some a"
  then show "get_account (snd (seed_coa c db)) u = Some a"
    by (auto simp: get_account_def snd_seed_coa add_rows_def first_def split: list.splits)
qed

lemma ensure_role_account_stable [tracking]: "tracks (stable c) (ensure_role_account c r)"
  unfolding tracks_def using ensure_role_account_snd[of c r] resolution.R_refl stable_seed by metis

lemma resolve_lines_stable [tracking]: "tracks (stable c) (resolve_lines c ls)"
  unfolding resolve_lines_def resolve_line_def by (intro resolution.tracks_rules tracking)

lemma resolve_line_again:
  assumes "resolve_line c l db = (Inr x, db1)" and "stable c db1 db2"
  shows "resolve_line c l db2 = (Inr x, db2)"
proof (cases "pl_role l")
  case None
  then show ?thesis using assms
    by (auto simp: resolve_line_def reads_def stable_def split: option.splits if_splits)
next
  case (Some r)
  then obtain a where a: "ensure_role_account c r db = (Inr a, db1)" "x = (l, a_id a)"
    using assms(1) by (auto simp: resolve_line_def andthen_def ok_def split: prod.splits sum.splits)
  then have "resolve_role_account db2 c r = Inr a"
    using ensure_role_account_resolves[OF a(1)] assms(2) by (simp add: stable_def)
  then show ?thesis using Some a(2)
    by (simp add: resolve_line_def andthen_def ok_def ensure_role_account_def)
qed

lemma resolve_line_fst: "resolve_line c l db = (Inr x, db1) \<Longrightarrow> fst x = l"
  by (auto simp: resolve_line_def reads_def andthen_def ok_def split: option.splits if_splits prod.splits sum.splits)

lemma resolve_lines_again:
  "resolve_lines c ls db = (Inr rs, db1) \<Longrightarrow> stable c db1 db2 \<Longrightarrow> resolve_lines c ls db2 = (Inr rs, db2)"
  unfolding resolve_lines_def
proof (induction ls arbitrary: db rs)
  case Nil
  then show ?case by (simp add: ok_def)
next
  case (Cons l ls)
  obtain x dba where l: "resolve_line c l db = (Inr x, dba)" and rest: "\<exists>ys. rs = x # ys \<and>
      map_sem (resolve_line c) ls dba = (Inr ys, db1)"
    using Cons.prems(1) by (auto simp: andthen_def ok_def split: prod.splits sum.splits)
  then obtain ys where ys: "rs = x # ys" "map_sem (resolve_line c) ls dba = (Inr ys, db1)" by blast
  have "stable c dba db1" using tracksD[OF resolve_lines_stable, of c ls dba "Inr ys" db1] ys(2)
    by (simp add: resolve_lines_def)
  then have "resolve_line c l db2 = (Inr x, db2)"
    using resolve_line_again[OF l] Cons.prems(2) resolution.R_trans by blast
  moreover have "map_sem (resolve_line c) ls db2 = (Inr ys, db2)" by (rule Cons.IH[OF ys(2) Cons.prems(2)])
  ultimately show ?case using ys(1) by (simp add: andthen_def ok_def)
qed

lemma resolve_lines_fst: "resolve_lines c ls db = (Inr rs, db1) \<Longrightarrow> map fst rs = ls"
  unfolding resolve_lines_def
proof (induction ls arbitrary: db rs)
  case (Cons l ls)
  then obtain x dba ys where "resolve_line c l db = (Inr x, dba)" "rs = x # ys"
      "map_sem (resolve_line c) ls dba = (Inr ys, db1)"
    by (auto simp: andthen_def ok_def split: prod.splits sum.splits)
  then show ?case using Cons.IH resolve_line_fst by fastforce
qed (simp add: ok_def)

lemma resolved_balanced:
  assumes "validate_balance ls = Inr ()" and "map fst rs = ls"
  shows "balanced_lines rs"
proof -
  have "length ls \<ge> 2" "sum_list (map pl_amount ls) = 0" "\<forall>l\<in>set ls. pl_amount l \<noteq> 0"
    using assms(1) by (auto simp: validate_balance_def list_ex_iff split: if_splits)
  moreover have "map pl_amount ls = map (\<lambda>r. pl_amount (fst r)) rs" "set ls = fst ` set rs" "length ls = length rs"
    unfolding assms(2)[symmetric] by simp_all
  ultimately show ?thesis by (simp add: balanced_lines_def)
qed

section \<open>The insert loop\<close>

definition event_prefix :: "gl_env \<Rightarrow> posting_event \<Rightarrow> resolved \<Rightarrow> exn + string" where
  "event_prefix env ev rs = bindR (content_hash env (event_fields ev rs))
     (\<lambda>h. key_prefix (ev_source_type ev) (ev_source_id ev) (ev_event ev) h)"

definition prefix_ok :: "posting_event \<Rightarrow> string \<Rightarrow> bool" where
  "prefix_ok ev pfx \<longleftrightarrow>
     (\<exists>h. key_prefix (ev_source_type ev) (ev_source_id ev) (ev_event ev) h = Inr pfx \<and> CHR '':'' \<notin> set h)"

lemma event_prefix_ok: "digest_ok env \<Longrightarrow> event_prefix env ev rs = Inr pfx \<Longrightarrow> prefix_ok ev pfx"
  unfolding event_prefix_def prefix_ok_def digest_ok_def content_hash_def bindR_eq_Inr
  using in_set_takeD by fastforce

lemma post_for_event_among_eq:
  "post_for_event_among others env ov ev = (\<lambda>db.
     case validate_balance (ev_lines ev) of Inl x \<Rightarrow> (Inl x, db) | Inr _ \<Rightarrow>
     (case resolve_lines (ev_company ev) (ev_lines ev) db of
        (Inl x, db1) \<Rightarrow> (Inl x, db1)
      | (Inr rs, db1) \<Rightarrow>
        (case event_prefix env ev rs of
           Inl x \<Rightarrow> (Inl x, db1)
         | Inr pfx \<Rightarrow> post_loop MAX_KEY_ATTEMPTS others env ov ev rs pfx False db1)))"
  by (rule ext) (simp add: post_for_event_among_def andthen_def lift_def event_prefix_def bindR_def
      split: sum.splits prod.splits)

definition posted_entry :: "gl_env \<Rightarrow> gl_db \<Rightarrow> posting_event \<Rightarrow> string \<Rightarrow> gl_entry" where
  "posted_entry env db ev key =
     mk_entry env db (ev_company ev) (ev_effective_at ev) (Some (ev_source_type ev)) (Some (ev_source_id ev))
       key None (ev_created_by ev)"

lemma insert_posted:
  "insert_entry env (ev_company ev) (ev_effective_at ev) (Some (ev_source_type ev)) (Some (ev_source_id ev))
     key None (ev_created_by ev) rs db =
   (if key_taken db key then (Inl IntegrityError, spent_ids rs db)
    else (Inr (posted_entry env db ev key), grown (posted_entry env db ev key) rs db))"
  by (simp add: insert_entry_cases fk_broken_def posted_entry_def Let_def)

lemma sound_post_insert:
  assumes "prefix_ok ev pfx" "balanced_lines rs" "extends db0 db" "ledger_inv db0"
    and key: "key = idempotency_key pfx (compute_seq db0 (ev_company ev) pfx)" "\<not> key_taken db key"
  shows "sound_step db (grown (posted_entry env db ev key) rs db)"
  unfolding sound_step_def
proof (intro conjI impI)
  let ?e = "posted_entry env db ev key"
  show "extends db (grown ?e rs db)" by (rule extends_grown)
  assume inv: "ledger_inv db"
  obtain h where h: "key_prefix (ev_source_type ev) (ev_source_id ev) (ev_event ev) h = Inr pfx" "CHR '':'' \<notin> set h"
    using assms(1) by (auto simp: prefix_ok_def)
  have seq: "seq_ok (db_entries db) ?e"
    unfolding seq_ok_def
  proof (intro allI impI)
    fix p n k assume a: "e_key ?e = Some (idempotency_key p n) \<and> k < n"
    then have "idempotency_key p n = idempotency_key pfx (compute_seq db0 (ev_company ev) pfx)"
      by (simp add: posted_entry_def mk_entry_def key(1))
    then have "p = pfx \<and> n = compute_seq db0 (ev_company ev) pfx" by (rule idempotency_key_both)
    then have "reversed_at db0 (ev_company ev) pfx k" "p = pfx"
      using compute_seq_run[OF assms(4) h] a by simp_all
    then show "\<exists>x\<in>set (db_entries db). e_key x = Some (idempotency_key p k) \<and> e_status x = Reversed \<and>
        e_company x = e_company ?e"
      using reversed_at_extends[OF assms(3)] by (simp add: reversed_at_def posted_entry_def mk_entry_def)
  qed
  have wf: "wf_key ?e"
    unfolding wf_key_def good_prefix_def using h key(1) by (auto simp: posted_entry_def mk_entry_def)
  show "ledger_inv (grown ?e rs db)"
    by (rule grown_inv[OF inv _ _ _ _ _ wf seq assms(2)])
      (use key(2) in \<open>simp_all add: posted_entry_def mk_entry_def key_taken_iff\<close>)
qed

lemma extends_sound: "sound_step db db' \<Longrightarrow> ledger_inv db \<Longrightarrow> extends db db'"
  by (simp add: sound_step_def)

lemma inv_sound: "sound_step db db' \<Longrightarrow> ledger_inv db \<Longrightarrow> ledger_inv db'"
  by (simp add: sound_step_def)

lemma lock_gate_sound [tracking]:
  "tracks sound_step (if lock_checked then ok () else check_period_lock c d ov by ctxt)"
  by (intro journal.tracks_rules tracking)

lemma sound_guarded: "(ledger_inv db \<Longrightarrow> sound_step db db') \<Longrightarrow> sound_step db db'"
  by (auto simp: sound_step_def)

lemma post_loop_sound:
  assumes "prefix_ok ev pfx" "balanced_lines rs" "polite others"
  shows "sound_step db (snd (post_loop k others env ov ev rs pfx lc db))"
proof (induction k arbitrary: db lc)
  case 0
  then show ?case by (simp add: throw_def journal.R_refl)
next
  case (Suc k)
  let ?c = "ev_company ev"
  let ?key = "idempotency_key pfx (compute_seq db ?c pfx)"
  show ?case
  proof (cases "live_by_key db ?c ?key")
    case (Some e)
    then show ?thesis by (simp add: journal.R_refl)
  next
    case None
    obtain r db1 where lock: "(if lc then ok () else check_period_lock ?c (ev_effective_at ev) ov
        (ev_created_by ev) (lock_context ev)) db = (r, db1)" by fastforce
    have s1: "sound_step db db1" by (rule tracksD[OF lock_gate_sound lock])
    show ?thesis
    proof (cases r)
      case (Inl x)
      then show ?thesis using None lock s1 by (simp add: Let_def)
    next
      case (Inr x)
      let ?dbo = "others k db1"
      have s2: "sound_step db ?dbo" using s1 assms(3) journal.R_trans by (auto simp: polite_def)
      show ?thesis
      proof (cases "key_taken ?dbo ?key")
        case False
        let ?db' = "grown (posted_entry env ?dbo ev ?key) rs ?dbo"
        have "sound_step db ?db'"
        proof (rule sound_guarded)
          assume inv: "ledger_inv db"
          have "sound_step ?dbo ?db'"
            by (rule sound_post_insert[OF assms(1,2) extends_sound[OF s2 inv] inv refl False])
          then show "sound_step db ?db'" by (rule journal.R_trans[OF s2])
        qed
        then show ?thesis using None lock Inr False by (simp add: Let_def insert_posted)
      next
        case True
        have s3: "sound_step db (spent_ids rs ?dbo)" using s2 sound_spent_ids journal.R_trans by blast
        then have "sound_step db (snd (post_loop k others env ov ev rs pfx True (spent_ids rs ?dbo)))"
          using Suc.IH journal.R_trans by blast
        then show ?thesis using None lock Inr True s3
          by (simp add: Let_def insert_posted split: option.splits)
      qed
    qed
  qed
qed

lemma live_seq:
  assumes inv: "ledger_inv db" and p: "prefix_ok ev pfx" and e: "e \<in> set (db_entries db)" "e_status e = Posted"
    "e_key e = Some (idempotency_key pfx n)"
  shows "compute_seq db (e_company e) pfx = n"
proof -
  obtain h where h: "key_prefix (ev_source_type ev) (ev_source_id ev) (ev_event ev) h = Inr pfx" "CHR '':'' \<notin> set h"
    using p by (auto simp: prefix_ok_def)
  have "\<not> reversed_at db (e_company e) pfx n"
  proof
    assume "reversed_at db (e_company e) pfx n"
    then obtain x where x: "x \<in> set (db_entries db)" "e_key x = e_key e" "e_status x = Reversed"
      using e(3) by (auto simp: reversed_at_def)
    then show False using entry_key_inject[OF inv x(1) e(1)] e(2) by auto
  qed
  moreover have "reversed_at db (e_company e) pfx k" if "k < n" for k
    using ledger_invD(6)[OF inv e(1)] e(3) that unfolding seq_ok_def reversed_at_def by blast
  ultimately show ?thesis using compute_seq_run[OF inv h] by (metis linorder_neqE_nat less_irrefl)
qed

lemma live_by_key_live:
  assumes "ledger_inv db" "prefix_ok ev pfx" "e \<in> set (db_entries db)" "e_status e = Posted"
    "e_key e = Some (idempotency_key pfx n)" "e_company e = c"
  shows "live_by_key db c (idempotency_key pfx (compute_seq db c pfx)) = Some e"
  using live_seq[OF assms(1-5)] entry_by_key_inv[OF assms(1,3,5)] assms(4,6) by (simp add: live_by_key_def)

lemma post_loop_replay:
  assumes "ledger_inv db" "prefix_ok ev pfx" "e \<in> set (db_entries db)" "e_status e = Posted"
    "e_key e = Some (idempotency_key pfx n)" "e_company e = ev_company ev"
  shows "post_loop (Suc k) others env ov ev rs pfx lc db = (Inr e, db)"
  using live_by_key_live[OF assms] by (simp add: Let_def)

lemma post_loop_sequential:
  assumes inv: "ledger_inv db" and p: "prefix_ok ev pfx"
  shows "post_loop (Suc k) undisturbed env ov ev rs pfx False db =
    (let key = idempotency_key pfx (compute_seq db (ev_company ev) pfx) in
     case live_by_key db (ev_company ev) key of
       Some e \<Rightarrow> (Inr e, db)
     | None \<Rightarrow>
       (case check_period_lock (ev_company ev) (ev_effective_at ev) ov (ev_created_by ev) (lock_context ev) db of
          (Inl x, db1) \<Rightarrow> (Inl x, db1)
        | (Inr _, db1) \<Rightarrow>
          if key_taken db key then (Inl IntegrityError, spent_ids rs db1)
          else (Inr (posted_entry env db1 ev key), grown (posted_entry env db1 ev key) rs db1)))"
proof -
  let ?c = "ev_company ev"
  let ?key = "idempotency_key pfx (compute_seq db ?c pfx)"
  obtain h where h: "key_prefix (ev_source_type ev) (ev_source_id ev) (ev_event ev) h = Inr pfx" "CHR '':'' \<notin> set h"
    using p by (auto simp: prefix_ok_def)
  have same: "db_entries db1 = db_entries db"
    if "check_period_lock ?c (ev_effective_at ev) ov (ev_created_by ev) (lock_context ev) db = (r, db1)" for r db1
    using that by (auto simp: check_period_lock_def split: option.splits if_splits)
  have none: "entry_by_key db ?c ?key = None" if "live_by_key db ?c ?key = None"
  proof (rule ccontr)
    assume "entry_by_key db ?c ?key \<noteq> None"
    then obtain x where x: "entry_by_key db ?c ?key = Some x" by auto
    then have "e_status x = Reversed" using that by (cases "e_status x") (simp_all add: live_by_key_def)
    then have "reversed_at db ?c pfx (compute_seq db ?c pfx)"
      using entry_by_key_Some[OF x] by (auto simp: reversed_at_def)
    then show False using compute_seq_run[OF inv h] by simp
  qed
  have ebk: "entry_by_key (spent_ids rs db1) ?c ?key = entry_by_key db ?c ?key"
    "key_taken db1 ?key = key_taken db ?key" if "db_entries db1 = db_entries db" for db1
    using that by (simp_all add: entry_by_key_def spent_ids_def key_taken_def)
  obtain r db1 where lock:
    "check_period_lock ?c (ev_effective_at ev) ov (ev_created_by ev) (lock_context ev) db = (r, db1)" by fastforce
  note eb = ebk[OF same[OF lock]]
  show ?thesis
  proof (cases "live_by_key db ?c ?key")
    case (Some e)
    then show ?thesis by (simp add: Let_def)
  next
    case None
    then show ?thesis
      by (cases r) (simp_all add: Let_def lock insert_posted undisturbed_def none[OF None] eb)
  qed
qed

lemma MAX_KEY_ATTEMPTS_Suc: "MAX_KEY_ATTEMPTS = Suc 4"
  by (simp add: MAX_KEY_ATTEMPTS_def)

lemmas post_loop_once = post_loop_sequential[where k = 4, folded MAX_KEY_ATTEMPTS_Suc]

lemma post_loop_Inr:
  assumes "prefix_ok ev pfx" "balanced_lines rs" "polite others"
  shows "post_loop k others env ov ev rs pfx lc db = (Inr e, db') \<Longrightarrow>
    e \<in> set (db_entries db') \<and> e_status e = Posted \<and> e_company e = ev_company ev \<and>
    (\<exists>n. e_key e = Some (idempotency_key pfx n))"
proof (induction k arbitrary: db lc)
  case (Suc k)
  let ?c = "ev_company ev"
  let ?key = "idempotency_key pfx (compute_seq db ?c pfx)"
  obtain r db1 where lock: "(if lc then ok () else check_period_lock ?c (ev_effective_at ev) ov
    (ev_created_by ev) (lock_context ev)) db = (r, db1)" by fastforce
  show ?case
  proof (cases "live_by_key db ?c ?key")
    case (Some x)
    then show ?thesis using Suc.prems live_by_key_Some[OF Some] by (auto simp: Let_def)
  next
    case None
    then obtain u where u: "r = Inr u" using Suc.prems lock by (cases r) (simp_all add: Let_def)
    let ?dbo = "others k db1"
    show ?thesis
    proof (cases "key_taken ?dbo ?key")
      case False
      then have "e = posted_entry env ?dbo ev ?key" "db' = grown e rs ?dbo"
        using Suc.prems None lock u by (auto simp: Let_def insert_posted)
      then show ?thesis by (auto simp: posted_entry_def mk_entry_def)
    next
      case True
      then obtain x where x: "entry_by_key (spent_ids rs ?dbo) ?c ?key = Some x"
        using Suc.prems None lock u
        by (cases "entry_by_key (spent_ids rs ?dbo) ?c ?key") (simp_all add: Let_def insert_posted)
      show ?thesis
      proof (cases "e_status x")
        case Posted
        then have "e = x" "db' = spent_ids rs ?dbo"
          using Suc.prems None lock u True x by (simp_all add: Let_def insert_posted)
        then show ?thesis using entry_by_key_Some[OF x] Posted by auto
      next
        case Reversed
        then have "post_loop k others env ov ev rs pfx True (spent_ids rs ?dbo) = (Inr e, db')"
          using Suc.prems None lock u True x by (simp add: Let_def insert_posted)
        then show ?thesis by (rule Suc.IH)
      qed
    qed
  qed
qed (simp add: throw_def)

lemma post_for_event_Inr:
  assumes "post_for_event_among others env ov ev db = (Inr e, db')"
  obtains rs db1 pfx where "validate_balance (ev_lines ev) = Inr ()"
    "resolve_lines (ev_company ev) (ev_lines ev) db = (Inr rs, db1)" "event_prefix env ev rs = Inr pfx"
    "post_loop MAX_KEY_ATTEMPTS others env ov ev rs pfx False db1 = (Inr e, db')" "balanced_lines rs"
proof -
  obtain rs db1 pfx where *: "validate_balance (ev_lines ev) = Inr ()"
    "resolve_lines (ev_company ev) (ev_lines ev) db = (Inr rs, db1)" "event_prefix env ev rs = Inr pfx"
    "post_loop MAX_KEY_ATTEMPTS others env ov ev rs pfx False db1 = (Inr e, db')"
    using assms by (auto simp: post_for_event_among_eq split: sum.splits prod.splits)
  then show thesis using resolved_balanced[OF *(1) resolve_lines_fst[OF *(2)]] that by blast
qed

lemma post_for_event_sound:
  assumes "digest_ok env" and "polite others"
  shows "sound_step db (snd (post_for_event_among others env ov ev db))"
proof -
  obtain r db1 where res: "resolve_lines (ev_company ev) (ev_lines ev) db = (r, db1)" by fastforce
  have s1: "sound_step db db1" by (rule tracksD[OF resolve_lines_sound res])
  show ?thesis
  proof (cases "validate_balance (ev_lines ev)")
    case (Inl x)
    then show ?thesis by (simp add: post_for_event_among_eq journal.R_refl)
  next
    case (Inr u)
    show ?thesis
    proof (cases "\<exists>rs pfx. r = Inr rs \<and> event_prefix env ev rs = Inr pfx")
      case True
      then obtain rs pfx where *: "r = Inr rs" "event_prefix env ev rs = Inr pfx" by blast
      have "balanced_lines rs" using resolved_balanced Inr resolve_lines_fst res *(1) by auto
      from post_loop_sound[OF event_prefix_ok[OF assms(1) *(2)] this assms(2)] s1
      have "sound_step db (snd (post_loop MAX_KEY_ATTEMPTS others env ov ev rs pfx False db1))"
        using journal.R_trans by blast
      then show ?thesis using Inr res * by (simp add: post_for_event_among_eq)
    next
      case False
      then have "snd (post_for_event_among others env ov ev db) = db1"
        using Inr res by (auto simp: post_for_event_among_eq split: sum.splits)
      then show ?thesis using s1 by simp
    qed
  qed
qed

lemma post_loop_accounts:
  "post_loop k undisturbed env ov ev rs pfx lc db = (r, db') \<Longrightarrow> db_accounts db' = db_accounts db"
proof (induction k arbitrary: db lc)
  case (Suc k)
  let ?key = "idempotency_key pfx (compute_seq db (ev_company ev) pfx)"
  obtain u db1 where lock: "(if lc then ok () else check_period_lock (ev_company ev) (ev_effective_at ev) ov
    (ev_created_by ev) (lock_context ev)) db = (u, db1)" by fastforce
  have acc: "db_accounts db1 = db_accounts db"
    using lock by (auto simp: ok_def check_period_lock_def split: if_splits option.splits)
  have again: "db_accounts db' = db_accounts db"
    if "post_loop k undisturbed env ov ev rs pfx True (spent_ids rs db1) = (r, db')"
    using Suc.IH[OF that] acc by (simp add: spent_ids_def)
  show ?case
  proof (cases "live_by_key db (ev_company ev) ?key")
    case (Some x)
    then show ?thesis using Suc.prems by (simp add: Let_def)
  next
    case None
    have und: "undisturbed k db1 = db1" by (simp add: undisturbed_def)
    have sp: "db_accounts (spent_ids rs db1) = db_accounts db" using acc by (simp add: spent_ids_def)
    show ?thesis using None Suc.prems lock acc again sp
      by (cases u) (auto simp: Let_def und insert_posted split: if_splits option.splits)
  qed
qed (simp add: throw_def)

section \<open>What posting guarantees\<close>

definition sample_env :: gl_env where
  "sample_env = \<lparr>sha256_hex = (\<lambda>s. ''9f86d081884c7d65''), now_utc = Datetime (Date 2026 3 2) 0,
     local_today = Date 2026 3 2, shop_today = Date 2026 3 1, shop_day = dt_date, txid_current = 7\<rparr>"

lemma sample_digest_ok: "digest_ok sample_env"
  by (simp add: digest_ok_def sample_env_def)

text \<open>
  C1.  Whatever \<open>post_for_event\<close> returns or raises, and whatever other transactions commit between its
  look-ups and its insert (as long as they are themselves sound), the journal keeps its invariant and
  only changes in ways the database triggers accept: no posted line is altered or removed, no entry
  field other than the one-way reversal mark changes.
\<close>

theorem posting_keeps_ledger:
  assumes "digest_ok env" and "polite others" and "ledger_inv db"
  shows "ledger_inv (snd (post_for_event_among others env ov ev db)) \<and>
         extends db (snd (post_for_event_among others env ov ev db))"
  using post_for_event_sound[OF assms(1,2)] assms(3) by (auto simp: sound_step_def)

definition sample_db :: gl_db where
  "sample_db = empty_db\<lparr>db_accounts :=
     [mk_account ''gdx'' 0 (''1200'', ''Accounts Receivable'', Asset, Some ROLE_AR, True),
      mk_account ''gdx'' 1 (''4000'', ''Sales'', Revenue, Some ROLE_SALES_FALLBACK, True)], db_uuid := 2\<rparr>"

definition sample_line :: "int \<Rightarrow> string \<Rightarrow> posting_line" where
  "sample_line a r = \<lparr>pl_amount = a, pl_role = Some r, pl_account = None, pl_memo = None, pl_job = None,
     pl_customer = None\<rparr>"

definition sample_event :: posting_event where
  "sample_event = \<lparr>ev_company = ''gdx'', ev_source_type = ''invoice'', ev_source_id = ''42'',
     ev_event = ''issued'', ev_effective_at = Date 2026 3 1,
     ev_lines = [sample_line 5000 ROLE_AR, sample_line (- 5000) ROLE_SALES_FALLBACK],
     ev_created_by = None, ev_extra = []\<rparr>"

lemma ledger_inv_sample_db: "ledger_inv sample_db"
  unfolding sample_db_def by (rule ledger_inv_frame[OF _ _ _ ledger_inv_empty]) (simp_all add: empty_db_def)

theorem posting_keeps_ledger_witness:
  "ledger_inv (snd (post_for_event_among (\<lambda>k. spent_ids []) sample_env False sample_event sample_db))"
  using posting_keeps_ledger[OF sample_digest_ok _ ledger_inv_sample_db, of "\<lambda>k. spent_ids []"]
  by (simp add: polite_def sound_spent_ids)

lemma replay_same_entry:
  assumes "digest_ok env" and "polite others" and "ledger_inv db"
    and post: "post_for_event_among others env ov ev db = (Inr e, db1)"
    and later: "sound_step db1 db2" "e \<in> set (db_entries db2)"
      "resolve_lines (ev_company ev) (ev_lines ev) db2 = (fst (resolve_lines (ev_company ev) (ev_lines ev) db), db2)"
    and env': "sha256_hex env' = sha256_hex env"
  shows "post_for_event_among others' env' ov' ev db2 = (Inr e, db2)"
proof -
  obtain rs dba pfx where *: "validate_balance (ev_lines ev) = Inr ()"
    "resolve_lines (ev_company ev) (ev_lines ev) db = (Inr rs, dba)" "event_prefix env ev rs = Inr pfx"
    "post_loop MAX_KEY_ATTEMPTS others env ov ev rs pfx False dba = (Inr e, db1)" "balanced_lines rs"
    by (rule post_for_event_Inr[OF post])
  note pok = event_prefix_ok[OF assms(1) *(3)]
  have inv: "ledger_inv db2"
    using inv_sound[OF later(1)] inv_sound[OF post_for_event_sound[OF assms(1,2), of db ov ev]] assms(3) post by simp
  obtain n where e: "e_status e = Posted" "e_company e = ev_company ev" "e_key e = Some (idempotency_key pfx n)"
    using post_loop_Inr[OF pok *(5) assms(2) *(4)] by blast
  have "resolve_lines (ev_company ev) (ev_lines ev) db2 = (Inr rs, db2)" using later(3) *(2) by simp
  moreover have "event_prefix env' ev rs = Inr pfx"
    using *(3) env' by (simp add: event_prefix_def content_hash_def)
  moreover have "post_loop MAX_KEY_ATTEMPTS others' env' ov' ev rs pfx False db2 = (Inr e, db2)"
    unfolding MAX_KEY_ATTEMPTS_def numeral_eq_Suc by (rule post_loop_replay[OF inv pok later(2) e(1,3,2)])
  ultimately show ?thesis using *(1) by (simp add: post_for_event_among_eq)
qed

text \<open>
  C3.  Posting is idempotent.  Once an event has been posted, posting the same event again returns the
  very same entry and changes nothing, in any later state in which that entry is still live and the
  event's lines resolve to the same accounts: after any sound activity of others, after a period lock
  that covers the entry, with any override flag, clock or concurrent transactions.
\<close>

theorem post_for_event_replay:
  assumes "digest_ok env" and "polite others" and "ledger_inv db"
    and post: "post_for_event_among others env ov ev db = (Inr e, db1)"
    and later: "sound_step db1 db2" "e \<in> set (db_entries db2)"
      "resolve_lines (ev_company ev) (ev_lines ev) db2 = (fst (resolve_lines (ev_company ev) (ev_lines ev) db), db2)"
    and env': "sha256_hex env' = sha256_hex env"
  shows "post_for_event_among others' env' ov' ev db2 = (Inr e, db2)"
  by (rule replay_same_entry[OF assms])

definition sample_entry :: gl_entry where
  "sample_entry = posted_entry sample_env sample_db sample_event ''invoice:42:issued:9f86d081884c7d65:0''"

definition sample_posted :: gl_db where
  "sample_posted =
     grown sample_entry [(sample_line 5000 ROLE_AR, 0), (sample_line (- 5000) ROLE_SALES_FALLBACK, 1)] sample_db"

lemma sample_post: "post_for_event sample_env False sample_event sample_db = (Inr sample_entry, sample_posted)"
  by code_simp

lemma sample_posted_inv: "ledger_inv sample_posted"
  using inv_sound[OF post_for_event_sound[OF sample_digest_ok polite_undisturbed] ledger_inv_sample_db]
  by (metis sample_post post_for_event_def snd_conv)

theorem post_for_event_replay_witness:
  "post_for_event_among undisturbed (sample_env\<lparr>now_utc := Datetime (Date 2027 1 1) 5\<rparr>) False sample_event
     (sample_posted\<lparr>db_locks := [\<lparr>k_date = Date 2026 12 31, k_company = ''gdx''\<rparr>]\<rparr>) =
   (Inr sample_entry, sample_posted\<lparr>db_locks := [\<lparr>k_date = Date 2026 12 31, k_company = ''gdx''\<rparr>]\<rparr>)"
proof (rule post_for_event_replay[OF sample_digest_ok polite_undisturbed ledger_inv_sample_db
    sample_post[unfolded post_for_event_def]])
  let ?db = "sample_posted\<lparr>db_locks := [\<lparr>k_date = Date 2026 12 31, k_company = ''gdx''\<rparr>]\<rparr>"
  show "sound_step sample_posted ?db" by (rule sound_frame) simp_all
  show "sample_entry \<in> set (db_entries ?db)" by code_simp
  show "resolve_lines (ev_company sample_event) (ev_lines sample_event) ?db =
      (fst (resolve_lines (ev_company sample_event) (ev_lines sample_event) sample_db), ?db)" by code_simp
  show "sha256_hex (sample_env\<lparr>now_utc := Datetime (Date 2027 1 1) 5\<rparr>) = sha256_hex sample_env" by simp
qed

lemma check_period_lock_frame:
  assumes "check_period_lock c d ov by ctxt db = (r, db1)"
  shows "db_entries db1 = db_entries db" "db_lines db1 = db_lines db" "db_accounts db1 = db_accounts db"
    "db_uuid db1 = db_uuid db" "db_locks db1 = db_locks db"
  using assms by (auto simp: check_period_lock_def split: option.splits if_splits)

lemma resolve_lines_frame:
  assumes "resolve_lines c ls db = (r, db1)"
  shows "db_entries db1 = db_entries db" "db_lines db1 = db_lines db" "db_locks db1 = db_locks db"
    "db_audit db1 = db_audit db"
proof -
  let ?R = "\<lambda>d d'. db_entries d' = db_entries d \<and> db_lines d' = db_lines d \<and> db_locks d' = db_locks d \<and>
    db_audit d' = db_audit d"
  have T: "tracked ?R" by unfold_locales auto
  have "tracks ?R (ensure_role_account c r)" for r
    unfolding tracks_def using ensure_role_account_snd[of c r] by (metis add_rows_simps(1,2,4,5) snd_seed_coa)
  then have "tracks ?R (resolve_lines c ls)"
    unfolding resolve_lines_def resolve_line_def by (intro tracked.tracks_rules[OF T])
  from tracksD[OF this assms] show "db_entries db1 = db_entries db" "db_lines db1 = db_lines db"
    "db_locks db1 = db_locks db" "db_audit db1 = db_audit db" by simp_all
qed

text \<open>The account an event line stands for, in the chart of a database.\<close>

definition account_for :: "gl_db \<Rightarrow> string \<Rightarrow> posting_line \<Rightarrow> uuid \<Rightarrow> bool" where
  "account_for db c l u \<longleftrightarrow>
     (case pl_role l of
        Some r \<Rightarrow> \<exists>a. resolve_role_account db c r = Inr a \<and> a_id a = u
      | None \<Rightarrow> pl_account l = Some u \<and> (\<exists>a. get_account db u = Some a \<and> a_company a = c \<and> a_active a))"

lemma account_for_stable: "account_for db c l u \<Longrightarrow> stable c db db' \<Longrightarrow> account_for db' c l u"
  by (auto simp: account_for_def stable_def split: option.splits)

lemma get_account_id: "get_account db u = Some a \<Longrightarrow> a_id a = u"
  unfolding get_account_def by (drule first_in_set) simp

lemma resolve_line_account: "resolve_line c l db = (Inr x, db1) \<Longrightarrow> account_for db1 c l (snd x)"
  by (auto simp: resolve_line_def account_for_def reads_def andthen_def ok_def get_account_id
      split: option.splits if_splits prod.splits sum.splits dest: ensure_role_account_resolves)

lemma resolve_lines_accounts:
  "resolve_lines c ls db = (Inr rs, db1) \<Longrightarrow> list_all2 (\<lambda>l x. account_for db1 c l (snd x)) ls rs"
  unfolding resolve_lines_def
proof (induction ls arbitrary: db rs)
  case (Cons l ls)
  then obtain x dba ys where *: "resolve_line c l db = (Inr x, dba)" "rs = x # ys"
      "map_sem (resolve_line c) ls dba = (Inr ys, db1)"
    by (auto simp: andthen_def ok_def split: prod.splits sum.splits)
  have "stable c dba db1" using tracksD[OF resolve_lines_stable, of c ls dba "Inr ys" db1] *(3)
    by (simp add: resolve_lines_def)
  then show ?case using Cons.IH[OF *(3)] *(2) account_for_stable[OF resolve_line_account[OF *(1)]] by simp
qed (simp add: ok_def)

lemma entry_lines_posted:
  assumes "ledger_inv db" and "e_id e = db_uuid db" and "map fst rs = ls"
    and "list_all2 (\<lambda>l x. Q l (snd x)) ls rs"
  shows "list_all2 (\<lambda>l gl. Q l (l_account gl) \<and> l_amount gl = pl_amount l \<and> l_memo gl = pl_memo l \<and>
           l_job gl = pl_job l \<and> l_customer gl = pl_customer l) ls (entry_lines (grown e rs db) (e_id e))"
  unfolding assms(2) entry_lines_grown_new[OF assms(1)]
  using assms(3,4) by (auto simp: list_all2_conv_all_nth nth_enumerate_eq mk_line_def split: prod.splits)

lemma post_writes:
  assumes "digest_ok env" and "ledger_inv db" and post: "post_for_event env ov ev db = (Inr e, db')"
  shows "e_status e = Posted \<and> e_company e = ev_company ev \<and>
    (e \<in> set (db_entries db) \<and> db_entries db' = db_entries db \<and> db_lines db' = db_lines db \<or>
     db_entries db' = db_entries db @ [e] \<and>
     e_effective_at e = ev_effective_at ev \<and> e_source_type e = Some (ev_source_type ev) \<and>
     e_source_id e = Some (ev_source_id ev) \<and> e_created_by e = ev_created_by ev \<and> e_reverses e = None \<and>
     list_all2 (\<lambda>l gl. account_for db' (ev_company ev) l (l_account gl) \<and> l_amount gl = pl_amount l \<and>
         l_memo gl = pl_memo l \<and> l_job gl = pl_job l \<and> l_customer gl = pl_customer l)
       (ev_lines ev) (entry_lines db' (e_id e)))"
proof -
  obtain rs dba pfx where *: "validate_balance (ev_lines ev) = Inr ()"
    "resolve_lines (ev_company ev) (ev_lines ev) db = (Inr rs, dba)" "event_prefix env ev rs = Inr pfx"
    "post_loop MAX_KEY_ATTEMPTS undisturbed env ov ev rs pfx False dba = (Inr e, db')" "balanced_lines rs"
    by (rule post_for_event_Inr[OF post[unfolded post_for_event_def]])
  note pok = event_prefix_ok[OF assms(1) *(3)]
  have inv: "ledger_inv dba" by (rule inv_sound[OF tracksD[OF resolve_lines_sound *(2)] assms(2)])
  note fr = resolve_lines_frame[OF *(2)]
  have e: "e_status e = Posted" "e_company e = ev_company ev"
    using post_loop_Inr[OF pok *(5) polite_undisturbed *(4)] by blast+
  let ?key = "idempotency_key pfx (compute_seq dba (ev_company ev) pfx)"
  note loop = *(4)[unfolded post_loop_once[OF inv pok]]
  show ?thesis
  proof (cases "live_by_key dba (ev_company ev) ?key")
    case (Some x)
    then have "x = e" "db' = dba" using loop by (simp_all add: Let_def)
    then show ?thesis using live_by_key_Some[OF Some] fr e by simp
  next
    case None
    obtain u db1 where lk: "check_period_lock (ev_company ev) (ev_effective_at ev) ov (ev_created_by ev)
        (lock_context ev) dba = (u, db1)" by fastforce
    then have new: "e = posted_entry env db1 ev ?key" "db' = grown e rs db1"
      using loop None
      by (cases u; auto simp: Let_def split: if_splits)+
    have inv1: "ledger_inv db1" by (rule inv_sound[OF tracksD[OF check_period_lock_sound lk] inv])
    have st: "stable (ev_company ev) dba db'"
      using stable_frame check_period_lock_frame(3)[OF lk] new(2) by simp
    have "list_all2 (\<lambda>l x. account_for db' (ev_company ev) l (snd x)) (ev_lines ev) rs"
      using resolve_lines_accounts[OF *(2)] account_for_stable[OF _ st] by (rule list_all2_mono)
    from entry_lines_posted[OF inv1 _ resolve_lines_fst[OF *(2)] this, of e]
    show ?thesis using new e fr check_period_lock_frame(1)[OF lk]
      by (simp add: posted_entry_def mk_entry_def)
  qed
qed

text \<open>
  What a posting writes.  When \<open>post_for_event\<close> returns, either the entry was live already and the
  journal is untouched, or exactly one entry was appended: posted, dated, sourced and attributed as the
  event says, with one line per event line, in order, carrying that line's amount, memo and dimensions
  on the active account of the company that the line's role or id resolves to.
\<close>

theorem post_for_event_writes:
  assumes "digest_ok env" and "ledger_inv db" and post: "post_for_event env ov ev db = (Inr e, db')"
  shows "e_status e = Posted \<and> e_company e = ev_company ev \<and>
    (e \<in> set (db_entries db) \<and> db_entries db' = db_entries db \<and> db_lines db' = db_lines db \<or>
     db_entries db' = db_entries db @ [e] \<and>
     e_effective_at e = ev_effective_at ev \<and> e_source_type e = Some (ev_source_type ev) \<and>
     e_source_id e = Some (ev_source_id ev) \<and> e_created_by e = ev_created_by ev \<and> e_reverses e = None \<and>
     list_all2 (\<lambda>l gl. account_for db' (ev_company ev) l (l_account gl) \<and> l_amount gl = pl_amount l \<and>
         l_memo gl = pl_memo l \<and> l_job gl = pl_job l \<and> l_customer gl = pl_customer l)
       (ev_lines ev) (entry_lines db' (e_id e)))"
  by (rule post_writes[OF assms])

theorem post_for_event_writes_witness:
  "e_status sample_entry = Posted \<and> db_entries sample_posted = db_entries sample_db @ [sample_entry] \<and>
   map l_amount (entry_lines sample_posted (e_id sample_entry)) = [5000, - 5000]"
proof -
  have "sample_entry \<notin> set (db_entries sample_db)" by code_simp
  moreover have "map l_amount (entry_lines sample_posted (e_id sample_entry)) = [5000, - 5000]" by code_simp
  ultimately show ?thesis
    using post_for_event_writes[OF sample_digest_ok ledger_inv_sample_db sample_post] by blast
qed

lemma post_for_event_accounts:
  assumes "post_for_event env ov ev db = (Inr e, db1)"
  obtains rs dba where "resolve_lines (ev_company ev) (ev_lines ev) db = (Inr rs, dba)" "db_accounts db1 = db_accounts dba"
proof -
  obtain rs dba pfx where "resolve_lines (ev_company ev) (ev_lines ev) db = (Inr rs, dba)"
    "post_loop MAX_KEY_ATTEMPTS undisturbed env ov ev rs pfx False dba = (Inr e, db1)"
    by (rule post_for_event_Inr[OF assms[unfolded post_for_event_def]])
  then show thesis using that post_loop_accounts by blast
qed

lemma post_then_replay:
  assumes "digest_ok env" and "ledger_inv db" and post: "post_for_event env ov ev db = (Inr e, db1)"
    and later: "sound_step db1 db2" "db_accounts db2 = db_accounts db1" "e \<in> set (db_entries db2)"
  shows "post_for_event env ov' ev db2 = (Inr e, db2)"
proof -
  obtain rs dba where r: "resolve_lines (ev_company ev) (ev_lines ev) db = (Inr rs, dba)" "db_accounts db1 = db_accounts dba"
    by (rule post_for_event_accounts[OF post])
  then have "resolve_lines (ev_company ev) (ev_lines ev) db2 = (Inr rs, db2)"
    using resolve_lines_again[OF r(1) stable_frame] later(2) by simp
  then show ?thesis
    using replay_same_entry[OF assms(1) polite_undisturbed assms(2) post[unfolded post_for_event_def] later(1,3), of env]
      r(1) by (simp add: post_for_event_def)
qed

end
