(* ===== verification/Ledger_Reversal.thy ===== *)
theory Ledger_Reversal
  imports Ledger_Posting
begin

text \<open>
  The correctness of \<open>reverse_entry\<close> and its interplay with \<open>post_for_event\<close>: reversal is a sound step of the
  journal, cancels the original leg by leg, is idempotent, and makes room for the same content to be
  posted again under the next sequence number.  The period lock closes a period for both writers.
\<close>

section \<open>The branches of reverse_entry\<close>

definition reversal_date :: "gl_entry \<Rightarrow> date option \<Rightarrow> date" where
  "reversal_date e effective_at = (case effective_at of Some d \<Rightarrow> d | None \<Rightarrow> e_effective_at e)"

definition reversal_of :: "gl_env \<Rightarrow> gl_db \<Rightarrow> gl_entry \<Rightarrow> date \<Rightarrow> string option \<Rightarrow> gl_entry" where
  "reversal_of env db x when by =
     mk_entry env db (e_company x) when (e_source_type x) (e_source_id x) (reversal_key (e_id x)) (Some (e_id x)) by"

definition with_reversal :: "gl_env \<Rightarrow> gl_entry \<Rightarrow> date \<Rightarrow> string option \<Rightarrow> gl_db \<Rightarrow> gl_db" where
  "with_reversal env x when by db =
     mark_reversed (e_id x) (db_uuid db)
       (grown (reversal_of env db x when by) (map (mirror x) (entry_lines db (e_id x))) db)"

lemma reversal_of_simps [simp]:
  "e_id (reversal_of env db x when by) = db_uuid db"
  "e_key (reversal_of env db x when by) = Some (reversal_key (e_id x))"
  "e_status (reversal_of env db x when by) = Posted"
  "e_reverses (reversal_of env db x when by) = Some (e_id x)"
  "e_reversed_by (reversal_of env db x when by) = None"
  "e_company (reversal_of env db x when by) = e_company x"
  "e_effective_at (reversal_of env db x when by) = when"
  "e_source_type (reversal_of env db x when by) = e_source_type x"
  "e_source_id (reversal_of env db x when by) = e_source_id x"
  "e_created_by (reversal_of env db x when by) = by"
  by (simp_all add: reversal_of_def mk_entry_def)

lemma reversal_key_free:
  assumes inv: "ledger_inv db" and x: "x \<in> set (db_entries db)" "e_status x = Posted"
  shows "\<not> key_taken db (reversal_key (e_id x))"
proof
  assume "key_taken db (reversal_key (e_id x))"
  then obtain y where y: "y \<in> set (db_entries db)" "e_key y = Some (reversal_key (e_id x))"
    by (auto simp: key_taken_def list_ex_iff)
  then have "e_reverses y = Some (e_id x)" using ledger_invD(4)[OF inv y(1)] by (auto simp: wf_key_def)
  then obtain z where "z \<in> set (db_entries db)" "e_id z = e_id x" "e_status z = Reversed"
    using ledger_invD(7)[OF inv y(1)] by (auto simp: reversal_ok_def)
  then show False using entry_id_inject[OF inv _ x(1), of z] x(2) by simp
qed

lemma reverse_entry_live:
  assumes inv: "ledger_inv db" and x: "get_entry db (e_id entry) = Some x" "e_status x = Posted"
  shows "reverse_entry env entry eff by ov db =
    (case check_period_lock (e_company x) (reversal_date x eff) ov by (reversal_key (e_id x)) db of
       (Inl err, db1) \<Rightarrow> (Inl err, db1)
     | (Inr _, db1) \<Rightarrow> (Inr (reversal_of env db1 x (reversal_date x eff) by),
                        with_reversal env x (reversal_date x eff) by db1))"
proof -
  obtain r db1 where lock:
    "check_period_lock (e_company x) (reversal_date x eff) ov by (reversal_key (e_id x)) db = (r, db1)" by fastforce
  note fr = check_period_lock_frame[OF lock]
  have "x \<in> set (db_entries db)" using get_entry_Some[OF x(1)] by simp
  then have "\<not> key_taken db1 (reversal_key (e_id x))" "\<not> fk_broken db1 (Some (e_id x))"
    using reversal_key_free[OF inv _ x(2)] fr(1) by (simp_all add: key_taken_def fk_broken_iff)
  then show ?thesis
    using x lock by (cases r) (simp_all add: reverse_entry_def Let_def reversal_date_def[symmetric] insert_entry_cases
        reversal_of_def[symmetric] with_reversal_def)
qed

lemma reverse_entry_reversed:
  assumes inv: "ledger_inv db" and x: "get_entry db (e_id entry) = Some x" "e_status x = Reversed"
  obtains r where "r \<in> set (db_entries db)" "e_reversed_by x = Some (e_id r)" "e_reverses r = Some (e_id x)"
    "reverse_entry env entry eff by ov db = (Inr r, db)"
proof -
  have "x \<in> set (db_entries db)" using get_entry_Some[OF x(1)] by simp
  then obtain r where r: "r \<in> set (db_entries db)" "e_reversed_by x = Some (e_id r)" "e_reverses r = Some (e_id x)"
    using ledger_invD(7)[OF inv] x(2) by (fastforce simp: reversal_ok_def)
  then show thesis using that x get_entry_inv[OF inv r(1)] by (simp add: reverse_entry_def)
qed

lemma extends_marked:
  assumes "\<And>x. x \<in> set (db_entries db) \<Longrightarrow> e_id x = u \<Longrightarrow> e_status x = Posted \<and> e_reversed_by x = None"
  shows "extends db (mark_reversed u r db)"
proof -
  have "gl_entries_immutable x (marked u r x)" if "x \<in> set (db_entries db)" for x
    using assms[OF that] by (simp add: gl_entries_immutable_def marked_def)
  then show ?thesis by (simp add: extends_def)
qed

lemma with_reversal_sound:
  assumes inv: "ledger_inv db" and x: "x \<in> set (db_entries db)" "e_status x = Posted"
  shows "sound_step db (with_reversal env x when by db)"
proof -
  let ?r = "reversal_of env db x when by" and ?rs = "map (mirror x) (entry_lines db (e_id x))"
  have "ledger_inv (with_reversal env x when by db)"
    unfolding with_reversal_def
    using reverse_inv[OF inv x, of ?r] reversal_key_free[OF inv x] by (simp add: key_taken_iff)
  moreover have "extends (grown ?r ?rs db) (with_reversal env x when by db)"
    unfolding with_reversal_def
  proof (rule extends_marked)
    fix y assume y: "y \<in> set (db_entries (grown ?r ?rs db))" "e_id y = e_id x"
    have "e_id x < db_uuid db" by (rule ledger_invD(3)[OF inv x(1)])
    then have "y \<in> set (db_entries db)" using y by auto
    then have "y = x" using entry_id_inject[OF inv _ x(1) y(2)] by simp
    then show "e_status y = Posted \<and> e_reversed_by y = None"
      using x(2) ledger_invD(7)[OF inv x(1)] by (simp add: reversal_ok_def)
  qed
  ultimately show ?thesis using extends_grown history.R_trans unfolding sound_step_def by blast
qed

lemma reverse_entry_sound [tracking]: "tracks sound_step (reverse_entry env entry eff by ov)"
  unfolding tracks_def
proof (rule allI, rule sound_guarded)
  fix db assume inv: "ledger_inv db"
  show "sound_step db (snd (reverse_entry env entry eff by ov db))"
  proof (cases "get_entry db (e_id entry)")
    case None
    then have miss: "e_id entry \<notin> e_id ` set (db_entries db)"
      by (auto simp: get_entry_def filter_empty_conv)
    obtain r db1 where lock: "check_period_lock (e_company entry) (reversal_date entry eff) ov by
      (reversal_key (e_id entry)) db = (r, db1)" by fastforce
    have s1: "sound_step db db1" by (rule tracksD[OF check_period_lock_sound lock])
    have "fk_broken db1 (Some (e_id entry))" using miss check_period_lock_frame(1)[OF lock] by (simp add: fk_broken_iff)
    moreover have "sound_step db (spent_ids rs db1)" for rs using s1 sound_spent_ids journal.R_trans by blast
    ultimately show ?thesis
      using None lock s1 by (cases r) (auto simp: reverse_entry_def Let_def reversal_date_def[symmetric]
          insert_entry_cases journal.R_refl split: option.splits)
  next
    case (Some x)
    show ?thesis
    proof (cases "e_status x")
      case Reversed
      from reverse_entry_reversed[OF inv Some this] show ?thesis by (metis snd_conv journal.R_refl)
    next
      case Posted
      obtain r db1 where lock: "check_period_lock (e_company x) (reversal_date x eff) ov by
        (reversal_key (e_id x)) db = (r, db1)" by fastforce
      have s1: "sound_step db db1" by (rule tracksD[OF check_period_lock_sound lock])
      have x1: "x \<in> set (db_entries db1)"
        using get_entry_Some[OF Some] check_period_lock_frame(1)[OF lock] by simp
      have "sound_step db1 (with_reversal env x (reversal_date x eff) by db1)"
        by (rule with_reversal_sound[OF inv_sound[OF s1 inv] x1 Posted])
      then show ?thesis using reverse_entry_live[OF inv Some Posted] lock s1 journal.R_trans
        by (cases r) auto
    qed
  qed
qed

section \<open>What a reversal guarantees\<close>

text \<open>
  Whatever \<open>reverse_entry\<close> returns or raises, on any entry object, the journal keeps its invariant
  and changes only as the triggers allow.
\<close>

theorem reversing_keeps_ledger:
  assumes "ledger_inv db"
  shows "ledger_inv (snd (reverse_entry env entry eff by ov db)) \<and>
         extends db (snd (reverse_entry env entry eff by ov db))"
  using reverse_entry_sound[of env entry eff "by" ov] assms by (auto simp: tracks_def sound_step_def)

theorem reversing_keeps_ledger_witness:
  "ledger_inv (snd (reverse_entry sample_env sample_entry None None False sample_posted))"
  using reversing_keeps_ledger[OF sample_posted_inv] by blast

text \<open>The sum of an entry's lines on one account and one pair of dimensions.\<close>

definition leg_total :: "gl_line list \<Rightarrow> uuid \<Rightarrow> uuid option \<Rightarrow> uuid option \<Rightarrow> int" where
  "leg_total ls u j c =
     sum_list (map l_amount (filter (\<lambda>l. l_account l = u \<and> l_job l = j \<and> l_customer l = c) ls))"

lemma leg_total_legs:
  "leg_total ls u j c =
     sum_list (map (\<lambda>(a, m, jb, cu). if a = u \<and> jb = j \<and> cu = c then m else 0) (map leg ls))"
  unfolding leg_total_def by (induction ls) (auto simp: leg_def)

lemma mirrored_cancels: "mirrored ls ms \<Longrightarrow> leg_total ls u j c + leg_total ms u j c = 0"
proof -
  assume "mirrored ls ms"
  then have "leg_total ms u j c = sum_list (map (\<lambda>(a, m, jb, cu). if a = u \<and> jb = j \<and> cu = c then m else 0)
      (map (\<lambda>l. (l_account l, - l_amount l, l_job l, l_customer l)) ls))"
    unfolding leg_total_legs mirrored_def by simp
  also have "\<dots> = - leg_total ls u j c"
    unfolding leg_total_def by (induction ls) auto
  finally show ?thesis by simp
qed

lemma with_reversal_entries:
  assumes inv: "ledger_inv db" and x: "x \<in> set (db_entries db)"
  shows "db_entries (with_reversal env x when by db) =
    map (marked (e_id x) (db_uuid db)) (db_entries db) @ [reversal_of env db x when by]"
  using ledger_invD(3)[OF inv x] by (simp add: with_reversal_def marked_other)

lemma with_reversal_lines:
  assumes inv: "ledger_inv db" and x: "x \<in> set (db_entries db)"
  shows "y \<in> set (db_entries db) \<Longrightarrow> entry_lines (with_reversal env x when by db) (e_id y) = entry_lines db (e_id y)"
    and "mirrored (entry_lines db (e_id x)) (entry_lines (with_reversal env x when by db) (db_uuid db))"
proof -
  show "entry_lines (with_reversal env x when by db) (e_id y) = entry_lines db (e_id y)"
    if "y \<in> set (db_entries db)"
    using ledger_invD(3)[OF inv that] by (simp add: with_reversal_def entry_lines_grown_old)
  show "mirrored (entry_lines db (e_id x)) (entry_lines (with_reversal env x when by db) (db_uuid db))"
    unfolding mirrored_def with_reversal_def
    by (simp only: mark_reversed_simps entry_lines_grown_new[OF inv] legs_mirror)
qed

lemma reverse_entry_Inr_live:
  assumes inv: "ledger_inv db" and x: "x \<in> set (db_entries db)" "e_status x = Posted"
    and rev: "reverse_entry env x eff by ov db = (Inr r, db')"
  obtains db1 where "check_period_lock (e_company x) (reversal_date x eff) ov by (reversal_key (e_id x)) db = (Inr (), db1)"
    "r = reversal_of env db1 x (reversal_date x eff) by" "db' = with_reversal env x (reversal_date x eff) by db1"
    "ledger_inv db1" "x \<in> set (db_entries db1)" "db_entries db1 = db_entries db" "db_uuid db1 = db_uuid db"
    "db_lines db1 = db_lines db"
proof -
  obtain u db1 where lock:
    "check_period_lock (e_company x) (reversal_date x eff) ov by (reversal_key (e_id x)) db = (u, db1)" by fastforce
  have "u = Inr () \<and> r = reversal_of env db1 x (reversal_date x eff) by \<and> db' = with_reversal env x (reversal_date x eff) by db1"
    using rev lock reverse_entry_live[OF inv get_entry_inv[OF inv x(1)] x(2)] by (cases u) auto
  moreover have "ledger_inv db1" by (rule inv_sound[OF tracksD[OF check_period_lock_sound lock] inv])
  ultimately show thesis using that lock check_period_lock_frame[OF lock] x(1) by auto
qed

text \<open>
  C2.  A reversal cancels its original.  Reversing a live entry appends exactly one posted entry that
  points back at it, in the same company, at the requested date or else the original's; the original is
  marked reversed and points at it; no other entry changes; and on every account, job and customer the
  two entries together sum to zero.
\<close>

theorem reverse_entry_cancels:
  assumes inv: "ledger_inv db" and x: "x \<in> set (db_entries db)" "e_status x = Posted"
    and rev: "reverse_entry env x eff by ov db = (Inr r, db')"
  shows "db_entries db' = map (marked (e_id x) (e_id r)) (db_entries db) @ [r] \<and>
    e_status r = Posted \<and> e_reverses r = Some (e_id x) \<and> e_company r = e_company x \<and>
    e_effective_at r = (case eff of Some d \<Rightarrow> d | None \<Rightarrow> e_effective_at x) \<and>
    entry_lines db' (e_id x) = entry_lines db (e_id x) \<and>
    leg_total (entry_lines db' (e_id x)) u j c + leg_total (entry_lines db' (e_id r)) u j c = 0"
proof -
  obtain db1 where *: "r = reversal_of env db1 x (reversal_date x eff) by"
    "db' = with_reversal env x (reversal_date x eff) by db1" "ledger_inv db1" "x \<in> set (db_entries db1)"
    "db_entries db1 = db_entries db" "db_uuid db1 = db_uuid db" "db_lines db1 = db_lines db"
    by (rule reverse_entry_Inr_live[OF inv x rev])
  have "entry_lines db1 (e_id x) = entry_lines db (e_id x)" using *(7) by (simp add: entry_lines_def)
  then show ?thesis
    using * with_reversal_entries[OF *(3,4)] with_reversal_lines[OF *(3,4)] mirrored_cancels
    by (simp add: reversal_date_def)
qed

definition sample_reversal :: gl_entry where
  "sample_reversal = reversal_of sample_env sample_posted sample_entry (Date 2026 3 1) None"

definition sample_reversed :: gl_db where
  "sample_reversed = with_reversal sample_env sample_entry (Date 2026 3 1) None sample_posted"

lemma sample_entry_live: "sample_entry \<in> set (db_entries sample_posted)" "e_status sample_entry = Posted"
  by (simp add: sample_posted_def, simp add: sample_entry_def posted_entry_def mk_entry_def)

lemma sample_reverse:
  "reverse_entry sample_env sample_entry None None False sample_posted = (Inr sample_reversal, sample_reversed)"
  using reverse_entry_live[OF sample_posted_inv get_entry_inv[OF sample_posted_inv sample_entry_live(1)]
      sample_entry_live(2), of sample_env None None False]
  by (simp add: sample_reversal_def sample_reversed_def reversal_date_def check_period_lock_def latest_lock_def
      sample_posted_def grown_def sample_db_def empty_db_def sample_entry_def posted_entry_def mk_entry_def sample_event_def)

theorem reverse_entry_cancels_witness:
  "leg_total (entry_lines sample_reversed (e_id sample_entry)) 0 None None = 5000 \<and>
   leg_total (entry_lines sample_reversed (e_id sample_entry)) 0 None None +
     leg_total (entry_lines sample_reversed (e_id sample_reversal)) 0 None None = 0"
proof -
  have "leg_total (entry_lines sample_posted (e_id sample_entry)) 0 None None = 5000" by code_simp
  then show ?thesis
    using reverse_entry_cancels[OF sample_posted_inv sample_entry_live sample_reverse, of 0 None None] by metis
qed

text \<open>
  Reversing is idempotent: reversing the same entry again, with any date, actor or override flag and
  whatever locks were added since, returns the existing reversal and changes nothing.
\<close>

theorem reverse_entry_idempotent:
  assumes inv: "ledger_inv db" and x: "x \<in> set (db_entries db)" "e_status x = Posted"
    and rev: "reverse_entry env x eff by ov db = (Inr r, db')"
  shows "reverse_entry env' x eff' by' ov' (db'\<lparr>db_locks := locks\<rparr>) = (Inr r, db'\<lparr>db_locks := locks\<rparr>)"
proof -
  obtain db1 where *: "r = reversal_of env db1 x (reversal_date x eff) by"
    "db' = with_reversal env x (reversal_date x eff) by db1" "ledger_inv db1" "x \<in> set (db_entries db1)"
    "db_entries db1 = db_entries db" "db_uuid db1 = db_uuid db" "db_lines db1 = db_lines db"
    by (rule reverse_entry_Inr_live[OF inv x rev])
  let ?db = "db'\<lparr>db_locks := locks\<rparr>"
  have inv': "ledger_inv ?db"
    using inv_sound[OF with_reversal_sound[OF *(3,4) x(2)] *(3)] *(2) by (auto intro: ledger_inv_frame)
  have es: "db_entries ?db = map (marked (e_id x) (e_id r)) (db_entries db) @ [r]"
    using with_reversal_entries[OF *(3,4)] * by simp
  have m: "marked (e_id x) (e_id r) x \<in> set (db_entries ?db)" "r \<in> set (db_entries ?db)"
    using es x(1) by simp_all
  then have "get_entry ?db (e_id x) = Some (marked (e_id x) (e_id r) x)" "get_entry ?db (e_id r) = Some r"
    using get_entry_inv[OF inv' m(1)] get_entry_inv[OF inv' m(2)] by simp_all
  then show ?thesis by (simp add: reverse_entry_def marked_def)
qed

theorem reverse_entry_idempotent_witness:
  "reverse_entry sample_env sample_entry (Some (Date 2027 1 1)) (Some ''u1'') False
     (sample_reversed\<lparr>db_locks := [\<lparr>k_date = Date 2030 1 1, k_company = ''gdx''\<rparr>]\<rparr>) =
   (Inr sample_reversal, sample_reversed\<lparr>db_locks := [\<lparr>k_date = Date 2030 1 1, k_company = ''gdx''\<rparr>]\<rparr>)"
  by (rule reverse_entry_idempotent[OF sample_posted_inv sample_entry_live sample_reverse])

section \<open>Posting again after a reversal\<close>

lemma stable_with_reversal: "db_accounts (with_reversal env x when by db) = db_accounts db"
  by (simp add: with_reversal_def)

lemma accounts_check_period_lock:
  "reverse_entry env x eff by ov db = (Inr r, db') \<Longrightarrow> db_accounts db' = db_accounts db"
  by (auto simp: reverse_entry_def Let_def insert_entry_cases spent_ids_def
      split: option.splits if_splits prod.splits sum.splits dest: check_period_lock_frame(3))

lemma next_seq_free:
  assumes inv: "ledger_inv db" and e: "e \<in> set (db_entries db)" "e_status e = Posted"
    "e_key e = Some (idempotency_key pfx n)"
  shows "Some (idempotency_key pfx (Suc n)) \<notin> e_key ` set (db_entries db)"
proof
  assume "Some (idempotency_key pfx (Suc n)) \<in> e_key ` set (db_entries db)"
  then obtain x where x: "x \<in> set (db_entries db)" "e_key x = Some (idempotency_key pfx (Suc n))" by auto
  then obtain y where y: "y \<in> set (db_entries db)" "e_key y = Some (idempotency_key pfx n)" "e_status y = Reversed"
    using ledger_invD(6)[OF inv x(1)] unfolding seq_ok_def by blast
  then show False using entry_key_inject[OF inv y(1) e(1)] e by simp
qed

lemma seq_after_reversal:
  assumes inv: "ledger_inv db" and p: "prefix_ok ev pfx"
    and x: "x \<in> set (db_entries db)" "e_key x = Some (idempotency_key pfx n)" "e_status x = Reversed" "e_company x = c"
    and free: "Some (idempotency_key pfx (Suc n)) \<notin> e_key ` set (db_entries db)"
  shows "compute_seq db c pfx = Suc n"
proof -
  obtain h where h: "key_prefix (ev_source_type ev) (ev_source_id ev) (ev_event ev) h = Inr pfx" "CHR '':'' \<notin> set h"
    using p by (auto simp: prefix_ok_def)
  have "reversed_at db c pfx n" using x by (auto simp: reversed_at_def)
  moreover have "\<not> reversed_at db c pfx (Suc n)"
    using free unfolding reversed_at_def image_iff by metis
  ultimately show ?thesis using compute_seq_run[OF inv h, of c] by (metis Suc_leI le_antisym not_le)
qed

text \<open>
  C4.  The A-B-A sequence.  After an event was posted and its entry reversed, posting the same event
  again succeeds (unless a period lock covers its date) and appends a new live entry whose key carries
  the next sequence number: the old reversed entry does not block it and is not returned in its place.
\<close>

theorem repost_after_reversal:
  assumes "digest_ok env" and "ledger_inv db"
    and post: "post_for_event env ov ev db = (Inr e, db1)"
    and rev: "reverse_entry env2 e eff by ov2 db1 = (Inr r, db2)"
    and unlocked: "\<And>d. latest_lock db2 (ev_company ev) = Some d \<Longrightarrow> d < ev_effective_at ev"
    and env': "sha256_hex env' = sha256_hex env"
  shows "\<exists>e2 db3 pfx n. post_for_event env' ov' ev db2 = (Inr e2, db3) \<and>
     db_entries db3 = db_entries db2 @ [e2] \<and> e_status e2 = Posted \<and> e_company e2 = e_company e \<and>
     e_key e = Some (idempotency_key pfx n) \<and> e_key e2 = Some (idempotency_key pfx (Suc n))"
proof -
  obtain rs dba pfx where *: "validate_balance (ev_lines ev) = Inr ()"
    "resolve_lines (ev_company ev) (ev_lines ev) db = (Inr rs, dba)" "event_prefix env ev rs = Inr pfx"
    "post_loop MAX_KEY_ATTEMPTS undisturbed env ov ev rs pfx False dba = (Inr e, db1)" "balanced_lines rs"
    by (rule post_for_event_Inr[OF post[unfolded post_for_event_def]])
  note pok = event_prefix_ok[OF assms(1) *(3)]
  have inv_a: "ledger_inv dba" by (rule inv_sound[OF tracksD[OF resolve_lines_sound *(2)] assms(2)])
  have inv1: "ledger_inv db1"
    using inv_sound[OF post_for_event_sound[OF assms(1) polite_undisturbed, of db ov ev] assms(2)] post
    by (simp add: post_for_event_def)
  obtain n where e: "e \<in> set (db_entries db1)" "e_status e = Posted" "e_company e = ev_company ev"
    "e_key e = Some (idempotency_key pfx n)" using post_loop_Inr[OF pok *(5) polite_undisturbed *(4)] by blast
  obtain db1' where r: "r = reversal_of env2 db1' e (reversal_date e eff) by"
    "db2 = with_reversal env2 e (reversal_date e eff) by db1'" "ledger_inv db1'" "e \<in> set (db_entries db1')"
    "db_entries db1' = db_entries db1" by (rule reverse_entry_Inr_live[OF inv1 e(1,2) rev])
  have inv2: "ledger_inv db2" using inv_sound[OF with_reversal_sound[OF r(3,4) e(2)] r(3)] r(2) by simp
  note es = with_reversal_entries[OF r(3,4), of env2 "reversal_date e eff" "by", folded r(2)]
  have "e_key ` set (db_entries db2) = insert (Some (reversal_key (e_id e))) (e_key ` set (db_entries db1))"
    unfolding es r(5) by (simp add: image_image)
  then have free: "Some (idempotency_key pfx (Suc n)) \<notin> e_key ` set (db_entries db2)"
    using next_seq_free[OF inv1 e(1,2,4)] by simp
  have seq: "compute_seq db2 (ev_company ev) pfx = Suc n"
    by (rule seq_after_reversal[OF inv2 pok _ _ _ _ free, of "marked (e_id e) (db_uuid db1') e"])
      (use es r(4) e in \<open>simp_all add: marked_def\<close>)
  have acc: "db_accounts db2 = db_accounts dba"
    using accounts_check_period_lock[OF rev] post_loop_accounts[OF *(4)] by simp
  have "resolve_lines (ev_company ev) (ev_lines ev) db2 = (Inr rs, db2)"
    by (rule resolve_lines_again[OF *(2) stable_frame[OF acc]])
  moreover have "event_prefix env' ev rs = Inr pfx" using *(3) env' by (simp add: event_prefix_def content_hash_def)
  ultimately have eq: "post_for_event env' ov' ev db2 = post_loop MAX_KEY_ATTEMPTS undisturbed env' ov' ev rs pfx False db2"
    using *(1) by (simp add: post_for_event_def post_for_event_among_eq)
  have nk: "entry_by_key db2 (ev_company ev) (idempotency_key pfx (Suc n)) = None"
    "\<not> key_taken db2 (idempotency_key pfx (Suc n))"
    using free by (simp_all add: key_taken_iff entry_by_key_free)
  have lk: "check_period_lock (ev_company ev) (ev_effective_at ev) ov' (ev_created_by ev) (lock_context ev) db2 = (Inr (), db2)"
    using unlocked by (simp add: check_period_lock_def split: option.splits)
  let ?e2 = "posted_entry env' db2 ev (idempotency_key pfx (Suc n))"
  have "post_for_event env' ov' ev db2 = (Inr ?e2, grown ?e2 rs db2)"
    unfolding eq post_loop_once[OF inv2 pok] seq Let_def live_by_key_def nk lk using nk(2) by simp
  then show ?thesis using e by (intro exI[of _ ?e2]) (auto simp: posted_entry_def mk_entry_def)
qed

theorem repost_after_reversal_witness:
  "\<exists>e2 db3. post_for_event sample_env False sample_event sample_reversed = (Inr e2, db3) \<and>
     db_entries db3 = db_entries sample_reversed @ [e2] \<and> e_status e2 = Posted"
proof -
  have "latest_lock sample_reversed (ev_company sample_event) = None" by code_simp
  then show ?thesis
    using repost_after_reversal[OF sample_digest_ok ledger_inv_sample_db sample_post sample_reverse _ refl] by force
qed

section \<open>Period locks\<close>

lemma latest_lock_frame: "db_locks db' = db_locks db \<Longrightarrow> latest_lock db' c = latest_lock db c"
  by (simp add: latest_lock_def)

lemma post_for_event_cases:
  assumes "digest_ok env" and "ledger_inv db" and post: "post_for_event env ov ev db = (r, db')"
  obtains (refused) x where "r = Inl x" "db_entries db' = db_entries db" "db_lines db' = db_lines db"
  | (live) e where "r = Inr e" "e \<in> set (db_entries db)" "db_entries db' = db_entries db"
      "db_lines db' = db_lines db" "db_audit db' = db_audit db"
  | (new) e db0 db1 where "r = Inr e" "db_entries db' = db_entries db @ [e]" "e \<notin> set (db_entries db)"
      "check_period_lock (ev_company ev) (ev_effective_at ev) ov (ev_created_by ev) (lock_context ev) db0 = (Inr (), db1)"
      "db_locks db0 = db_locks db" "db_audit db0 = db_audit db" "db_audit db' = db_audit db1"
proof -
  obtain q dba where res: "resolve_lines (ev_company ev) (ev_lines ev) db = (q, dba)" by fastforce
  note fr = resolve_lines_frame[OF res]
  have out: thesis if "r = Inl x" "db' = db \<or> db' = dba" for x
    using that fr refused[of x] by auto
  show thesis
  proof (cases "validate_balance (ev_lines ev)")
    case (Inl x)
    then show ?thesis using post out by (auto simp: post_for_event_def post_for_event_among_eq)
  next
    case (Inr u)
    note val = this
    show ?thesis
    proof (cases "\<exists>rs pfx. q = Inr rs \<and> event_prefix env ev rs = Inr pfx")
      case False
      then obtain x where "r = Inl x" "db' = dba"
        using post val res by (cases q) (auto simp: post_for_event_def post_for_event_among_eq split: sum.splits)
      then show ?thesis using out by blast
    next
      case True
      then obtain rs pfx where q: "q = Inr rs" "event_prefix env ev rs = Inr pfx" by blast
      have inv: "ledger_inv dba" by (rule inv_sound[OF tracksD[OF resolve_lines_sound res] assms(2)])
      let ?key = "idempotency_key pfx (compute_seq dba (ev_company ev) pfx)"
      obtain w db1 where lk: "check_period_lock (ev_company ev) (ev_effective_at ev) ov (ev_created_by ev)
        (lock_context ev) dba = (w, db1)" by fastforce
      note lf = check_period_lock_frame[OF lk]
      have "post_loop MAX_KEY_ATTEMPTS undisturbed env ov ev rs pfx False dba = (r, db')"
        using post val res q by (simp add: post_for_event_def post_for_event_among_eq)
      note loop = this[unfolded post_loop_once[OF inv event_prefix_ok[OF assms(1) q(2)]] Let_def lk prod.case]
      show ?thesis
      proof (cases "live_by_key dba (ev_company ev) ?key")
        case (Some e)
        then show ?thesis using loop live[of e] fr live_by_key_Some[OF Some] by auto
      next
        case None
        let ?e = "posted_entry env db1 ev ?key"
        show ?thesis
        proof (cases "isl w \<or> key_taken dba ?key")
          case True
          then show ?thesis using loop None fr lf refused
            by (cases w) (auto simp: spent_ids_def split: if_splits)
        next
          case False
          then obtain u where w: "w = Inr u" by (cases w) auto
          have "?e \<notin> set (db_entries db)"
          proof
            assume "?e \<in> set (db_entries db)"
            then have "Some ?key \<in> e_key ` set (db_entries dba)"
              unfolding fr(1) by (rule rev_image_eqI) (simp add: posted_entry_def mk_entry_def)
            then show False using False by (simp add: key_taken_iff)
          qed
          then show ?thesis using new[of ?e dba db1] loop None False w fr lf lk by (auto simp: grown_def)
        qed
      qed
    qed
  qed
qed

text \<open>
  A locked period is closed to posting.  Without the override, \<open>post_for_event\<close> for a date on or before
  the company's latest lock never changes the journal: it either returns an entry that was live already
  or raises.
\<close>

theorem locked_period_closed_to_posting:
  assumes "digest_ok env" and "ledger_inv db" and "latest_lock db (ev_company ev) = Some d"
    and "ev_effective_at ev \<le> d" and post: "post_for_event env False ev db = (r, db')"
  shows "db_entries db' = db_entries db \<and> db_lines db' = db_lines db \<and>
    (\<forall>e. r = Inr e \<longrightarrow> e \<in> set (db_entries db))"
  using assms(1,2) post
proof (cases rule: post_for_event_cases)
  case (new e db0 db1)
  have "latest_lock db0 (ev_company ev) = Some d" using assms(3) latest_lock_frame[OF new(5)] by simp
  then show ?thesis using new(4) assms(4) by (auto simp: check_period_lock_def split: if_splits)
qed auto

theorem locked_period_closed_to_posting_witness:
  "db_entries (snd (post_for_event sample_env False sample_event
     (sample_db\<lparr>db_locks := [\<lparr>k_date = Date 2026 12 31, k_company = ''gdx''\<rparr>]\<rparr>))) = []"
proof -
  let ?db = "sample_db\<lparr>db_locks := [\<lparr>k_date = Date 2026 12 31, k_company = ''gdx''\<rparr>]\<rparr>"
  have "ledger_inv ?db" by (rule ledger_inv_frame[OF _ _ _ ledger_inv_sample_db]) simp_all
  moreover have "latest_lock ?db (ev_company sample_event) = Some (Date 2026 12 31)" by code_simp
  moreover have "ev_effective_at sample_event \<le> Date 2026 12 31" by code_simp
  moreover have "db_entries ?db = []" by (simp add: sample_db_def empty_db_def)
  ultimately show ?thesis
    using locked_period_closed_to_posting[OF sample_digest_ok _ _ _ surjective_pairing] by metis
qed

text \<open>
  A locked period is closed to reversals too: reversing a live entry into a locked date without the
  override raises the lock error and leaves the whole database as it was.
\<close>

theorem locked_period_closed_to_reversal:
  assumes "ledger_inv db" and "x \<in> set (db_entries db)" and "e_status x = Posted"
    and "latest_lock db (e_company x) = Some d" and "reversal_date x eff \<le> d"
  shows "reverse_entry env x eff by False db = (Inl (PeriodLockedError d (reversal_date x eff)), db)"
  using assms reverse_entry_live[OF assms(1) get_entry_inv[OF assms(1,2)] assms(3)]
  by (simp add: check_period_lock_def)

theorem locked_period_closed_to_reversal_witness:
  "fst (reverse_entry sample_env sample_entry None None False
     (sample_posted\<lparr>db_locks := [\<lparr>k_date = Date 2026 12 31, k_company = ''gdx''\<rparr>]\<rparr>)) =
   Inl (PeriodLockedError (Date 2026 12 31) (Date 2026 3 1))"
proof -
  let ?db = "sample_posted\<lparr>db_locks := [\<lparr>k_date = Date 2026 12 31, k_company = ''gdx''\<rparr>]\<rparr>"
  have "ledger_inv ?db" by (rule ledger_inv_frame[OF _ _ _ sample_posted_inv]) simp_all
  moreover have "sample_entry \<in> set (db_entries ?db)" using sample_entry_live(1) by simp
  moreover have "latest_lock ?db (e_company sample_entry) = Some (Date 2026 12 31)" by code_simp
  moreover have "reversal_date sample_entry None = Date 2026 3 1" by code_simp
  moreover have "Date 2026 3 1 \<le> Date 2026 12 31" by code_simp
  ultimately show ?thesis using locked_period_closed_to_reversal[OF _ _ sample_entry_live(2)] by (metis fst_conv)
qed

text \<open>
  The override is never silent.  With \<open>override_lock\<close> set, a successful post adds the audit row
  naming actor, dates and context exactly when it created an entry at a locked date, and no audit row
  otherwise.
\<close>

theorem override_is_audited:
  assumes "digest_ok env" and "ledger_inv db" and post: "post_for_event env True ev db = (Inr e, db')"
  shows "db_audit db' = db_audit db @
    (case latest_lock db (ev_company ev) of
       None \<Rightarrow> []
     | Some d \<Rightarrow> if e \<in> set (db_entries db) \<or> d < ev_effective_at ev then []
                 else [PostedIntoLockedPeriod (ev_company ev) (ev_created_by ev) (ev_effective_at ev) d (lock_context ev)])"
  using assms(1,2) post
proof (cases rule: post_for_event_cases)
  case (new e' db0 db1)
  then show ?thesis
    using latest_lock_frame[OF new(5)]
    by (auto simp: check_period_lock_def split: option.splits if_splits)
qed (auto split: option.splits)

theorem override_is_audited_witness:
  "db_audit (snd (post_for_event sample_env True sample_event
     (sample_db\<lparr>db_locks := [\<lparr>k_date = Date 2026 12 31, k_company = ''gdx''\<rparr>]\<rparr>))) =
   [PostedIntoLockedPeriod ''gdx'' None (Date 2026 3 1) (Date 2026 12 31) ''invoice:42:issued'']"
proof -
  let ?db = "sample_db\<lparr>db_locks := [\<lparr>k_date = Date 2026 12 31, k_company = ''gdx''\<rparr>]\<rparr>"
  have inv: "ledger_inv ?db" by (rule ledger_inv_frame[OF _ _ _ ledger_inv_sample_db]) simp_all
  have "fst (post_for_event sample_env True sample_event ?db) = Inr sample_entry" by code_simp
  then have post: "post_for_event sample_env True sample_event ?db =
      (Inr sample_entry, snd (post_for_event sample_env True sample_event ?db))" by (metis prod.collapse)
  have ne: "db_entries ?db = []" "db_audit ?db = []" "ev_company sample_event = ''gdx''"
    "ev_created_by sample_event = None" "ev_effective_at sample_event = Date 2026 3 1"
    "lock_context sample_event = ''invoice:42:issued''"
    by (simp_all add: sample_db_def empty_db_def sample_event_def lock_context_def)
  have l: "latest_lock ?db ''gdx'' = Some (Date 2026 12 31)" by code_simp
  have d: "\<not> Date 2026 12 31 < Date 2026 3 1" by code_simp
  from override_is_audited[OF sample_digest_ok inv post] show ?thesis unfolding ne l using d by simp
qed

section \<open>The commit-time trigger\<close>

lemma balanced_has_both:
  assumes "balanced ls"
  shows "\<exists>l\<in>set ls. 0 < l_amount l" "\<exists>l\<in>set ls. l_amount l < 0"
proof -
  have "0 \<notin> set (map l_amount ls)" "map l_amount ls \<noteq> []" "sum_list (map l_amount ls) = 0"
    using assms by (force simp: balanced_def)+
  from zero_sum_signs(1,2)[OF this(2,1,3)]
  show "\<exists>l\<in>set ls. 0 < l_amount l" "\<exists>l\<in>set ls. l_amount l < 0" by simp_all
qed

lemma balanced_passes_trigger: "balanced (entry_lines db u) \<Longrightarrow> gl_assert_entry_balanced db u"
  using balanced_has_both[of "entry_lines db u"]
  by (auto simp: gl_assert_entry_balanced_def Let_def balanced_def Suc_le_eq filter_empty_conv)

text \<open>
  C35.  Every entry a posting or a reversal leaves behind passes the deferred constraint trigger and the
  nonzero check, so the transaction can commit: at least two lines, none of them zero, at least one
  debit and one credit, summing to zero.
\<close>

theorem engine_passes_balance_trigger:
  assumes "digest_ok env" and "polite others" and "ledger_inv db"
    and "db' = snd (post_for_event_among others env ov ev db) \<or> db' = snd (reverse_entry env x eff by ov db)"
    and "e \<in> set (db_entries db')"
  shows "gl_assert_entry_balanced db' (e_id e) \<and>
    (\<forall>l \<in> set (entry_lines db' (e_id e)). ck_gl_line_amount_nonzero l)"
proof -
  have "ledger_inv db'"
    using assms(4) inv_sound[OF post_for_event_sound[OF assms(1,2)] assms(3)]
      reverse_entry_sound[of env x eff "by" ov] inv_sound[OF _ assms(3)] by (auto simp: tracks_def)
  then have "balanced (entry_lines db' (e_id e))" using ledger_invD(5) assms(5) by blast
  then show ?thesis
    using balanced_passes_trigger by (simp add: balanced_def ck_gl_line_amount_nonzero_def)
qed

theorem engine_passes_balance_trigger_witness:
  "gl_assert_entry_balanced sample_posted (e_id sample_entry)"
  using engine_passes_balance_trigger[OF sample_digest_ok polite_undisturbed ledger_inv_sample_db _
      sample_entry_live(1), of False sample_event]
    sample_post by (simp add: post_for_event_def)

end
