(* ===== verification/Ledger_Service.thy ===== *)
theory Ledger_Service
  imports Ledger_Reversal
begin

text \<open>
  \<^verbatim>\<open>modules/ledger/service.py\<close>: the settings row of a company with its role maps, the bootstrap, the master
  switch, and \<open>transition_invoice_status\<close>, the one legal writer of an invoice's status.  The lemmas show
  that the bootstrap succeeds on a fresh company, that topping a map up adds keys and never changes an
  operator's value, that every payment method resolves to a known role afterwards, and that a void
  invoice never moves again.
\<close>

section \<open>Role maps\<close>

definition DEFAULT_PAYMENT_METHOD_ROLE_MAP :: json_map where
  "DEFAULT_PAYMENT_METHOD_ROLE_MAP =
    [(''cash'', ROLE_UNDEPOSITED), (''check'', ROLE_UNDEPOSITED), (''card'', ROLE_UNDEPOSITED),
     (''zelle'', ROLE_OPERATING_BANK), (''venmo'', ROLE_OPERATING_BANK), (''ach'', ROLE_OPERATING_BANK),
     (''quickbooks'', ROLE_OPERATING_BANK), (''other'', ROLE_UNDEPOSITED)]"

definition DEFAULT_CREDIT_REASON_ROLE_MAP :: json_map where
  "DEFAULT_CREDIT_REASON_ROLE_MAP =
    [(''discount'', ROLE_DISCOUNTS), (''promotion'', ROLE_DISCOUNTS), (''goodwill'', ROLE_DISCOUNTS),
     (''warranty'', ROLE_REFUNDS), (''workmanship'', ROLE_REFUNDS), (''billing_error'', ROLE_REFUNDS),
     (''other'', ROLE_REFUNDS)]"

text \<open>\<open>x or y\<close> on strings and on maps, where the empty value counts as absent.\<close>

definition str_or :: "string option \<Rightarrow> string option \<Rightarrow> string option" where
  "str_or a b = (case a of Some v \<Rightarrow> if v = [] then b else Some v | None \<Rightarrow> b)"

definition map_or_empty :: "json_map option \<Rightarrow> json_map" where
  "map_or_empty m = (case m of None \<Rightarrow> [] | Some d \<Rightarrow> d)"

definition normalize_payment_method :: "string option \<Rightarrow> string" where
  "normalize_payment_method m =
     (let s = lower (strip (case m of None \<Rightarrow> [] | Some v \<Rightarrow> v)) in if s = [] then ''other'' else s)"

definition resolve_payment_method_role :: "gl_settings \<Rightarrow> string option \<Rightarrow> exn + string" where
  "resolve_payment_method_role s m =
     (let mapping = map_or_empty (s_payment_map s) in
      case str_or (map_of mapping (normalize_payment_method m)) (map_of mapping ''other'') of
        None \<Rightarrow> Inl LedgerConfigError | Some r \<Rightarrow> Inr r)"

text \<open>
  Account rows are listed oldest first, so of two rows with one code the later one is preferred only
  when it is active and the earlier one is not.
\<close>

definition better_by_code :: "gl_account \<Rightarrow> gl_account \<Rightarrow> gl_account" where
  "better_by_code a cur = (if a_active a \<and> \<not> a_active cur then a else cur)"

definition by_code :: "gl_account list \<Rightarrow> (string \<times> gl_account) list" where
  "by_code rows = fold (\<lambda>a m. case map_of m (a_code a) of
       None \<Rightarrow> AList.update (a_code a) a m
     | Some cur \<Rightarrow> AList.update (a_code a) (better_by_code a cur) m) rows []"

definition expense_category_map_with_topup :: "gl_db \<Rightarrow> string \<Rightarrow> json_map option \<Rightarrow> exn + json_map" where
  "expense_category_map_with_topup db company current_map =
     (let cur = map_or_empty current_map;
          wanted = filter (\<lambda>(cat, code). map_of cur cat = None) DEFAULT_EXPENSE_CATEGORY_CODES
      in if wanted = [] then Inr cur
         else let codes = by_code (filter (\<lambda>a. a_company a = company \<and> a_code a \<in> snd ` set wanted) (db_accounts db))
              in if list_ex (\<lambda>(cat, code). map_of codes code = None) wanted then Inl LedgerConfigError
                 else Inr (fold (\<lambda>(cat, code) m. AList.update cat
                             (uuid_str (a_id (the (map_of codes code)))) m) wanted cur))"

definition with_topup :: "json_map option \<Rightarrow> json_map \<Rightarrow> json_map" where
  "with_topup current_map defaults = fold (\<lambda>(k, v). AList.update k v) (map_or_empty current_map) defaults"

definition validate_role_map :: "json_map \<Rightarrow> exn + unit" where
  "validate_role_map mapping =
     (if list_ex (\<lambda>(k, v). v \<notin> set ALL_ROLES) mapping then Inl LedgerConfigError else Inr ())"

definition validate_payment_method_map :: "json_map \<Rightarrow> exn + unit" where
  "validate_payment_method_map mapping =
     bindR (validate_role_map mapping) (\<lambda>_.
     if map_of mapping ''other'' = None then Inl LedgerConfigError else Inr ())"

section \<open>The settings row\<close>

definition get_gl_settings :: "gl_db \<Rightarrow> string \<Rightarrow> gl_settings option" where
  "get_gl_settings db company = first (filter (\<lambda>s. s_company s = company) (db_settings db))"

definition fresh_settings :: "string \<Rightarrow> gl_settings" where
  "fresh_settings company = \<lparr>s_company = company, s_enabled = False, s_cutover = None, s_payment_map = None,
     s_reason_map = None, s_expense_map = None, s_revenue_map = None, s_cpa_review = None\<rparr>"

definition put_settings :: "gl_settings \<Rightarrow> gl_db \<Rightarrow> gl_db" where
  "put_settings s db =
     db\<lparr>db_settings := map (\<lambda>x. if s_company x = s_company s then s else x) (db_settings db)\<rparr>"

text \<open>Equality of dicts ignores the order of keys; a map is reassigned only when it differs.\<close>

definition same_dict :: "json_map \<Rightarrow> json_map \<Rightarrow> bool" where
  "same_dict a b \<longleftrightarrow> (\<forall>k \<in> fst ` set a \<union> fst ` set b. map_of a k = map_of b k)"

definition reassign :: "json_map option \<Rightarrow> json_map \<Rightarrow> json_map option" where
  "reassign old new = (case old of Some m \<Rightarrow> if same_dict m new then Some m else Some new | None \<Rightarrow> Some new)"

definition ensure_gl_settings :: "string \<Rightarrow> gl_settings gl" where
  "ensure_gl_settings company = (\<lambda>db.
     let (row, db0) = (case get_gl_settings db company of
                         Some r \<Rightarrow> (r, db)
                       | None \<Rightarrow> (fresh_settings company,
                                  db\<lparr>db_settings := db_settings db @ [fresh_settings company]\<rparr>));
         payment_map = with_topup (s_payment_map row) DEFAULT_PAYMENT_METHOD_ROLE_MAP;
         reason_map = with_topup (s_reason_map row) DEFAULT_CREDIT_REASON_ROLE_MAP;
         row1 = row\<lparr>s_payment_map := reassign (s_payment_map row) payment_map,
                    s_reason_map := reassign (s_reason_map row) reason_map\<rparr>
     in case expense_category_map_with_topup db0 company (s_expense_map row) of
          Inl e \<Rightarrow> (Inl e, put_settings row1 db0)
        | Inr expense_map \<Rightarrow>
            let row2 = row1\<lparr>s_expense_map := reassign (s_expense_map row) expense_map,
                            s_cpa_review := Some (map_or_empty (s_cpa_review row))\<rparr>;
                db2 = put_settings row2 db0
            in (bindR (validate_payment_method_map (map_or_empty (s_payment_map row2))) (\<lambda>_.
                bindR (validate_role_map (map_or_empty (s_reason_map row2))) (\<lambda>_. Inr row2)), db2))"

definition ensure_gl_seed :: "string \<Rightarrow> gl_settings gl" where
  "ensure_gl_seed company = andthen (seed_coa company) (\<lambda>_. ensure_gl_settings company)"

definition ledger_posting_enabled :: "gl_db \<Rightarrow> string \<Rightarrow> bool" where
  "ledger_posting_enabled db company =
     (case get_gl_settings db company of None \<Rightarrow> False | Some s \<Rightarrow> s_enabled s)"

section \<open>The chokepoint\<close>

type_synonym posting_rule =
  "gl_env \<Rightarrow> invoice \<Rightarrow> invoice_status \<Rightarrow> invoice_status \<Rightarrow> string option \<Rightarrow> unit gl"

definition set_status :: "uuid \<Rightarrow> invoice_status \<Rightarrow> gl_db \<Rightarrow> gl_db" where
  "set_status u st db =
     db\<lparr>db_invoices := map (\<lambda>i. if i_id i = u then i\<lparr>i_status := st\<rparr> else i) (db_invoices db)\<rparr>"

text \<open>The transient stamp on the instance, the session's list of stamped instances, and the write.\<close>

definition sanctioned_write :: "uuid \<Rightarrow> invoice_status \<Rightarrow> gl_db \<Rightarrow> gl_db" where
  "sanctioned_write u st db =
     set_status u st (db\<lparr>db_sanctions := AList.update u st (db_sanctions db), db_registry := db_registry db @ [u]\<rparr>)"

definition transition_invoice_status ::
  "(invoice_status \<Rightarrow> invoice_status \<Rightarrow> posting_rule option) \<Rightarrow> gl_env \<Rightarrow> invoice \<Rightarrow> invoice_status \<Rightarrow>
   string option \<Rightarrow> invoice_status gl" where
  "transition_invoice_status rules env iv new_status actor =
     (let old_status = i_status iv in
      if new_status = old_status then ok old_status
      else if old_status = Void then ok old_status
      else
        andthen (change (sanctioned_write (i_id iv) new_status)) (\<lambda>_.
        andthen (asks (\<lambda>db. ledger_posting_enabled db (i_company iv))) (\<lambda>enabled.
        andthen (if enabled then
                   (case rules old_status new_status of
                      None \<Rightarrow> ok ()
                    | Some rule \<Rightarrow> rule env (iv\<lparr>i_status := new_status\<rparr>) old_status new_status actor)
                 else ok ()) (\<lambda>_.
        andthen (if new_status = Paid \<and> old_status \<noteq> Paid then
                   andthen (lift (int_of_decimal (times_hundred (dec (i_total iv))))) (\<lambda>c.
                   change (\<lambda>db. db\<lparr>db_events := db_events db @ [InvoicePaid (i_id iv) c]\<rparr>))
                 else ok ()) (\<lambda>_.
        ok old_status)))))"

section \<open>Topping a map up\<close>

lemma map_of_fold_update:
  "distinct (map fst m) \<Longrightarrow>
   map_of (fold (\<lambda>(k, v). AList.update k v) m d) = map_of d ++ map_of m"
proof (induction m arbitrary: d)
  case (Cons kv m)
  obtain k v where kv: "kv = (k, v)" by (cases kv)
  have "map_of m k = None" using Cons.prems kv by (simp add: map_of_eq_None_iff)
  then show ?case using Cons kv by (auto simp: update_conv' fun_eq_iff map_add_def split: option.splits)
qed simp

lemma distinct_fold_update:
  "distinct (map fst d) \<Longrightarrow> distinct (map fst (fold (\<lambda>(k, v). AList.update k v) m d))"
proof (induction m arbitrary: d)
  case (Cons kv m)
  then show ?case by (cases kv) (simp add: distinct_update)
qed simp

definition dict_ok :: "json_map option \<Rightarrow> bool" where
  "dict_ok m \<longleftrightarrow> distinct (map fst (map_or_empty m))"

lemma map_of_with_topup:
  "dict_ok m \<Longrightarrow> map_of (with_topup m d) = map_of d ++ map_of (map_or_empty m)"
  by (simp add: dict_ok_def with_topup_def map_of_fold_update)

lemma map_add_self: "f ++ f = f"
  by (rule ext) (simp add: map_add_def split: option.splits)

lemma same_dict_iff: "same_dict a b \<longleftrightarrow> map_of a = map_of b"
proof
  assume s: "same_dict a b"
  show "map_of a = map_of b"
  proof
    fix k show "map_of a k = map_of b k"
      using s by (cases "k \<in> fst ` set a \<union> fst ` set b")
        (auto simp: same_dict_def map_of_eq_None_iff[symmetric] simp del: Un_iff)
  qed
qed (simp add: same_dict_def)

lemma map_of_reassign: "map_of (map_or_empty (reassign old new)) = map_of new"
  by (auto simp: reassign_def map_or_empty_def same_dict_iff split: option.splits)

lemma reassign_not_None: "reassign old new \<noteq> None"
  by (simp add: reassign_def split: option.splits)

lemma dict_ok_reassign: "dict_ok old \<Longrightarrow> distinct (map fst new) \<Longrightarrow> dict_ok (reassign old new)"
  by (auto simp: dict_ok_def reassign_def map_or_empty_def split: option.splits)

lemma reassign_again: "map_of new = map_of m \<Longrightarrow> reassign (Some m) new = Some m"
  by (simp add: reassign_def same_dict_iff)

lemma map_of_by_code:
  "map_of (by_code rows) code \<noteq> None \<longleftrightarrow> (\<exists>a\<in>set rows. a_code a = code)"
proof -
  have "map_of (fold (\<lambda>a m. case map_of m (a_code a) of None \<Rightarrow> AList.update (a_code a) a m
       | Some cur \<Rightarrow> AList.update (a_code a) (better_by_code a cur) m) rows m0) code \<noteq> None \<longleftrightarrow>
      map_of m0 code \<noteq> None \<or> (\<exists>a\<in>set rows. a_code a = code)" for m0
    by (induction rows arbitrary: m0) (auto simp: update_conv' split: option.splits)
  then show ?thesis by (simp add: by_code_def)
qed

lemma topup_expense_Inr:
  assumes "expense_category_map_with_topup db c m = Inr m'"
  shows "\<And>k v. map_of (map_or_empty m) k = Some v \<Longrightarrow> map_of m' k = Some v"
    and "\<And>k. k \<in> fst ` set DEFAULT_EXPENSE_CATEGORY_CODES \<Longrightarrow> map_of m' k \<noteq> None"
    and "distinct (map fst (map_or_empty m)) \<Longrightarrow> distinct (map fst m')"
proof -
  let ?cur = "map_or_empty m"
  let ?w = "filter (\<lambda>(cat, code). map_of ?cur cat = None) DEFAULT_EXPENSE_CATEGORY_CODES"
  have shape: "\<exists>g. m' = fold (\<lambda>(cat, code) m. AList.update cat (g code) m) ?w ?cur"
  proof (cases "?w = []")
    case True
    with assms have "m' = ?cur" by (simp add: expense_category_map_with_topup_def Let_def)
    with True show ?thesis by (intro exI[of _ id]) (simp only: True fold_simps)
  next
    case False
    with assms show ?thesis
      by (auto simp: expense_category_map_with_topup_def Let_def split: if_splits)
  qed
  then obtain g where g: "m' = fold (\<lambda>(cat, code) m. AList.update cat (g code) m) ?w ?cur" by blast
  have keep: "map_of (fold (\<lambda>(cat, code) m. AList.update cat (g code) m) w d) k = map_of d k"
    if "k \<notin> fst ` set w" for w d k
    using that by (induction w arbitrary: d) (auto simp: update_conv')
  show "map_of m' k = Some v" if "map_of ?cur k = Some v" for k v
    using that keep[of k ?w ?cur] g by fastforce
  have dom: "map_of (fold (\<lambda>(cat, code) m. AList.update cat (g code) m) w d) k \<noteq> None"
    if "k \<in> fst ` set w \<or> map_of d k \<noteq> None" for w d k
    using that by (induction w arbitrary: d) (auto simp: update_conv')
  show "map_of m' k \<noteq> None" if "k \<in> fst ` set DEFAULT_EXPENSE_CATEGORY_CODES" for k
    unfolding g using that by (intro dom) force
  have dist: "distinct (map fst (fold (\<lambda>(cat, code) m. AList.update cat (g code) m) w d))"
    if "distinct (map fst d)" for w d
    using that by (induction w arbitrary: d) (auto simp: distinct_update)
  show "distinct (map fst (map_or_empty m)) \<Longrightarrow> distinct (map fst m')" unfolding g by (rule dist)
qed

section \<open>The settings row\<close>

definition settings_row :: "gl_db \<Rightarrow> string \<Rightarrow> gl_settings" where
  "settings_row db c = (case get_gl_settings db c of Some r \<Rightarrow> r | None \<Rightarrow> fresh_settings c)"

definition dicts_ok :: "gl_settings \<Rightarrow> bool" where
  "dicts_ok s \<longleftrightarrow> dict_ok (s_payment_map s) \<and> dict_ok (s_reason_map s) \<and> dict_ok (s_expense_map s)"

lemma get_gl_settings_company: "get_gl_settings db c = Some s \<Longrightarrow> s_company s = c"
  unfolding get_gl_settings_def by (drule first_in_set) simp

lemma settings_row_company [simp]: "s_company (settings_row db c) = c"
  by (auto simp: settings_row_def fresh_settings_def split: option.splits dest: get_gl_settings_company)

lemma put_settings_frame [simp]:
  "db_accounts (put_settings s db) = db_accounts db" "db_entries (put_settings s db) = db_entries db"
  "db_lines (put_settings s db) = db_lines db" "db_uuid (put_settings s db) = db_uuid db"
  by (simp_all add: put_settings_def)

lemma get_put_settings:
  "get_gl_settings db (s_company s) \<noteq> None \<Longrightarrow> get_gl_settings (put_settings s db) (s_company s) = Some s"
proof -
  have "filter (\<lambda>x. s_company x = s_company s) (map (\<lambda>x. if s_company x = s_company s then s else x) xs) =
      map (\<lambda>x. s) (filter (\<lambda>x. s_company x = s_company s) xs)" for xs
    by (induction xs) auto
  moreover assume "get_gl_settings db (s_company s) \<noteq> None"
  ultimately show ?thesis
    by (cases "filter (\<lambda>x. s_company x = s_company s) (db_settings db)")
      (auto simp: get_gl_settings_def put_settings_def)
qed

lemma put_settings_twice: "s_company s = s_company t \<Longrightarrow> put_settings s (put_settings t db) = put_settings s db"
  by (simp add: put_settings_def comp_def)

lemma ensure_gl_settings_Inr:
  assumes "ensure_gl_settings c db = (Inr row, db')"
  obtains em db0 where
    "expense_category_map_with_topup db0 c (s_expense_map (settings_row db c)) = Inr em"
    "row = (settings_row db c)\<lparr>
        s_payment_map := reassign (s_payment_map (settings_row db c)) (with_topup (s_payment_map (settings_row db c)) DEFAULT_PAYMENT_METHOD_ROLE_MAP),
        s_reason_map := reassign (s_reason_map (settings_row db c)) (with_topup (s_reason_map (settings_row db c)) DEFAULT_CREDIT_REASON_ROLE_MAP),
        s_expense_map := reassign (s_expense_map (settings_row db c)) em,
        s_cpa_review := Some (map_or_empty (s_cpa_review (settings_row db c)))\<rparr>"
    "db' = put_settings row db0" "get_gl_settings db0 c \<noteq> None" "db_accounts db0 = db_accounts db"
    "validate_payment_method_map (map_or_empty (s_payment_map row)) = Inr ()"
    "validate_role_map (map_or_empty (s_reason_map row)) = Inr ()"
proof -
  define db0 where "db0 = (case get_gl_settings db c of Some r \<Rightarrow> db
    | None \<Rightarrow> db\<lparr>db_settings := db_settings db @ [fresh_settings c]\<rparr>)"
  have pair: "(case get_gl_settings db c of Some r \<Rightarrow> (r, db) | None \<Rightarrow> (fresh_settings c,
      db\<lparr>db_settings := db_settings db @ [fresh_settings c]\<rparr>)) = (settings_row db c, db0)"
    by (simp add: db0_def settings_row_def split: option.splits)
  have get0: "get_gl_settings db0 c \<noteq> None"
    by (cases "get_gl_settings db c") (auto simp: db0_def get_gl_settings_def fresh_settings_def)
  have acc0: "db_accounts db0 = db_accounts db" by (simp add: db0_def split: option.splits)
  have ex: "ensure_gl_settings c db = (let row = settings_row db c;
       row1 = row\<lparr>s_payment_map := reassign (s_payment_map row) (with_topup (s_payment_map row) DEFAULT_PAYMENT_METHOD_ROLE_MAP),
         s_reason_map := reassign (s_reason_map row) (with_topup (s_reason_map row) DEFAULT_CREDIT_REASON_ROLE_MAP)\<rparr>
     in case expense_category_map_with_topup db0 c (s_expense_map row) of
          Inl e \<Rightarrow> (Inl e, put_settings row1 db0)
        | Inr em \<Rightarrow> let row2 = row1\<lparr>s_expense_map := reassign (s_expense_map row) em,
             s_cpa_review := Some (map_or_empty (s_cpa_review row))\<rparr>; db2 = put_settings row2 db0
            in (bindR (validate_payment_method_map (map_or_empty (s_payment_map row2))) (\<lambda>_.
                bindR (validate_role_map (map_or_empty (s_reason_map row2))) (\<lambda>_. Inr row2)), db2))"
    unfolding ensure_gl_settings_def pair Let_def prod.case by (rule refl)
  obtain em where em: "expense_category_map_with_topup db0 c (s_expense_map (settings_row db c)) = Inr em"
    using assms unfolding ex Let_def by (cases "expense_category_map_with_topup db0 c (s_expense_map (settings_row db c))") auto
  show thesis
    using assms em get0 acc0 that[OF em] unfolding ex Let_def by (auto simp: bindR_eq_Inr)
qed

lemma ensure_gl_settings_row:
  assumes "ensure_gl_settings c db = (Inr row, db')"
  shows "get_gl_settings db' c = Some row" "s_company row = c"
proof -
  obtain em db0 where *: "row = (settings_row db c)\<lparr>
        s_payment_map := reassign (s_payment_map (settings_row db c)) (with_topup (s_payment_map (settings_row db c)) DEFAULT_PAYMENT_METHOD_ROLE_MAP),
        s_reason_map := reassign (s_reason_map (settings_row db c)) (with_topup (s_reason_map (settings_row db c)) DEFAULT_CREDIT_REASON_ROLE_MAP),
        s_expense_map := reassign (s_expense_map (settings_row db c)) em,
        s_cpa_review := Some (map_or_empty (s_cpa_review (settings_row db c)))\<rparr>"
    "db' = put_settings row db0" "get_gl_settings db0 c \<noteq> None"
    by (rule ensure_gl_settings_Inr[OF assms])
  have c: "s_company row = c" unfolding *(1) by simp
  then show "s_company row = c" "get_gl_settings db' c = Some row" using get_put_settings[of db0 row] *(2,3) by simp_all
qed

text \<open>
  After \<open>ensure_gl_settings\<close> returns, every payment method, known, misspelt, blank or missing, resolves
  to one of the ledger's roles: \<open>resolve_payment_method_role\<close> cannot raise in the middle of a posting.
\<close>

theorem payment_method_always_resolves:
  assumes "ensure_gl_settings c db = (Inr row, db')"
  shows "get_gl_settings db' c = Some row \<and>
    (\<exists>r \<in> set ALL_ROLES. resolve_payment_method_role row method = Inr r)"
proof -
  let ?m = "map_or_empty (s_payment_map row)"
  have "validate_payment_method_map ?m = Inr ()" using ensure_gl_settings_Inr[OF assms] by metis
  then have roles: "\<And>k v. (k, v) \<in> set ?m \<Longrightarrow> v \<in> set ALL_ROLES" and ot: "map_of ?m ''other'' \<noteq> None"
    by (auto simp: validate_payment_method_map_def validate_role_map_def bindR_eq_Inr list_ex_iff split: if_splits)
  have role: "v \<in> set ALL_ROLES" if "map_of ?m k = Some v" for k v using that roles map_of_SomeD by metis
  have ne: "[] \<notin> set ALL_ROLES" by (simp add: ALL_ROLES_def)
  obtain v where v: "map_of ?m ''other'' = Some v" using ot by auto
  have "\<exists>r \<in> set ALL_ROLES. resolve_payment_method_role row method = Inr r"
  proof (cases "map_of ?m (normalize_payment_method method)")
    case None
    then show ?thesis using v role[OF v] by (simp add: resolve_payment_method_role_def str_or_def Let_def)
  next
    case (Some w)
    then have "w \<noteq> []" using role ne by auto
    then show ?thesis using Some role[OF Some] by (simp add: resolve_payment_method_role_def str_or_def Let_def)
  qed
  then show ?thesis using ensure_gl_settings_row[OF assms] by blast
qed

lemma seeded_codes:
  assumes "company_accounts db c = []" and "row \<in> set DEFAULT_COA"
  shows "\<exists>a\<in>set (db_accounts (snd (seed_coa c db))). a_company a = c \<and> a_code a = fst row"
proof -
  let ?f = "\<lambda>(i, row). mk_account c (db_uuid db + i) row"
  have miss: "missing_rows db c = DEFAULT_COA"
    using assms(1) by (auto simp: missing_rows_def Let_def intro!: filter_True split: option.splits)
  obtain i where "i < length DEFAULT_COA" "DEFAULT_COA ! i = row"
    using assms(2) unfolding in_set_conv_nth by blast
  then have "(i, row) \<in> set (enumerate 0 DEFAULT_COA)" by (simp add: in_set_enumerate_eq)
  then have "?f (i, row) \<in> set (db_accounts (snd (seed_coa c db)))"
    unfolding snd_seed_coa miss add_rows_def by (auto intro: image_eqI[of _ ?f "(i, row)"])
  moreover have "a_code (?f (i, row)) = fst row" by (simp add: mk_account_def split: prod.splits)
  ultimately show ?thesis by force
qed

lemma category_codes_seeded:
  "(cat, code) \<in> set DEFAULT_EXPENSE_CATEGORY_CODES \<Longrightarrow> \<exists>row\<in>set DEFAULT_COA. fst row = code"
  by (auto simp: DEFAULT_EXPENSE_CATEGORY_CODES_def DEFAULT_COA_def)

lemma expense_topup_after_seed:
  assumes "company_accounts db c = []" and "db_accounts db0 = db_accounts (snd (seed_coa c db))"
  shows "\<exists>em. expense_category_map_with_topup db0 c None = Inr em"
proof -
  let ?w = "DEFAULT_EXPENSE_CATEGORY_CODES"
  let ?rows = "filter (\<lambda>a. a_company a = c \<and> a_code a \<in> snd ` set ?w) (db_accounts db0)"
  have some: "map_of (by_code ?rows) code \<noteq> None" if cc: "(cat, code) \<in> set ?w" for cat code
  proof -
    obtain row where "row \<in> set DEFAULT_COA" "fst row = code" using category_codes_seeded[OF cc] by blast
    then obtain a where "a \<in> set (db_accounts db0)" "a_company a = c" "a_code a = code"
      using seeded_codes[OF assms(1)] assms(2) by metis
    moreover have "code \<in> snd ` set ?w" using cc by (metis image_eqI snd_conv)
    ultimately show ?thesis unfolding map_of_by_code by auto
  qed
  have f: "filter (\<lambda>(cat, code). map_of ([] :: json_map) cat = None) ?w = ?w" by (simp add: filter_id_conv)
  have "\<not> list_ex (\<lambda>(cat, code). map_of (by_code ?rows) code = None) ?w" using some by (auto simp: list_ex_iff)
  then show ?thesis
    unfolding expense_category_map_with_topup_def map_or_empty_def Let_def option.case f by simp
qed

lemma default_maps_valid:
  "validate_payment_method_map DEFAULT_PAYMENT_METHOD_ROLE_MAP = Inr ()"
  "validate_role_map DEFAULT_CREDIT_REASON_ROLE_MAP = Inr ()"
  by (simp_all add: validate_payment_method_map_def validate_role_map_def DEFAULT_PAYMENT_METHOD_ROLE_MAP_def
      DEFAULT_CREDIT_REASON_ROLE_MAP_def ALL_ROLES_def)

text \<open>
  The bootstrap succeeds on a fresh company: with no accounts and no settings row yet,
  \<open>ensure_gl_seed\<close> returns a settings row with posting switched off and all default keys in place.
\<close>

theorem ensure_gl_seed_bootstraps:
  assumes "company_accounts db c = []" and "get_gl_settings db c = None"
  shows "\<exists>row db'. ensure_gl_seed c db = (Inr row, db') \<and> get_gl_settings db' c = Some row \<and>
    \<not> s_enabled row \<and> s_payment_map row = Some DEFAULT_PAYMENT_METHOD_ROLE_MAP \<and>
    s_reason_map row = Some DEFAULT_CREDIT_REASON_ROLE_MAP \<and>
    (\<forall>k \<in> fst ` set DEFAULT_EXPENSE_CATEGORY_CODES. map_of (map_or_empty (s_expense_map row)) k \<noteq> None)"
proof -
  let ?db1 = "snd (seed_coa c db)"
  let ?db0 = "?db1\<lparr>db_settings := db_settings ?db1 @ [fresh_settings c]\<rparr>"
  have get1: "get_gl_settings ?db1 c = None" using assms(2) by (simp add: get_gl_settings_def snd_seed_coa)
  obtain em where em: "expense_category_map_with_topup ?db0 c None = Inr em"
    using expense_topup_after_seed[OF assms(1), of ?db0] by auto
  let ?row = "(fresh_settings c)\<lparr>s_payment_map := Some DEFAULT_PAYMENT_METHOD_ROLE_MAP,
      s_reason_map := Some DEFAULT_CREDIT_REASON_ROLE_MAP, s_expense_map := Some em, s_cpa_review := Some []\<rparr>"
  have ens: "ensure_gl_settings c ?db1 = (Inr ?row, put_settings ?row ?db0)"
    using get1 em default_maps_valid
    by (simp add: ensure_gl_settings_def Let_def fresh_settings_def with_topup_def map_or_empty_def reassign_def)
  then have "ensure_gl_seed c db = (Inr ?row, put_settings ?row ?db0)"
    by (simp add: ensure_gl_seed_def andthen_def seed_coa_def Let_def)
  moreover have "get_gl_settings (put_settings ?row ?db0) c = Some ?row"
    using ensure_gl_settings_row[OF ens] by simp
  moreover have "\<forall>k \<in> fst ` set DEFAULT_EXPENSE_CATEGORY_CODES. map_of em k \<noteq> None"
    using topup_expense_Inr(2)[OF em] by blast
  ultimately show ?thesis by (auto simp: fresh_settings_def map_or_empty_def)
qed

theorem ensure_gl_seed_bootstraps_witness:
  "\<exists>row db'. ensure_gl_seed ''gdx'' empty_db = (Inr row, db') \<and> \<not> s_enabled row"
proof -
  have "company_accounts empty_db ''gdx'' = []" "get_gl_settings empty_db ''gdx'' = None"
    by (simp_all add: company_accounts_def get_gl_settings_def empty_db_def)
  from ensure_gl_seed_bootstraps[OF this] show ?thesis by blast
qed

lemma sample_settings: "isl (fst (ensure_gl_settings ''gdx'' (snd (seed_coa ''gdx'' empty_db)))) = False"
  by code_simp

theorem payment_method_always_resolves_witness:
  "\<exists>row. fst (ensure_gl_settings ''gdx'' (snd (seed_coa ''gdx'' empty_db))) = Inr row \<and>
     (\<exists>r\<in>set ALL_ROLES. resolve_payment_method_role row (Some ''bitcoin'') = Inr r)"
proof -
  obtain row where r: "fst (ensure_gl_settings ''gdx'' (snd (seed_coa ''gdx'' empty_db))) = Inr row"
    using sample_settings by (cases "fst (ensure_gl_settings ''gdx'' (snd (seed_coa ''gdx'' empty_db)))") auto
  then have "ensure_gl_settings ''gdx'' (snd (seed_coa ''gdx'' empty_db)) =
      (Inr row, snd (ensure_gl_settings ''gdx'' (snd (seed_coa ''gdx'' empty_db))))" by (metis prod.collapse)
  from payment_method_always_resolves[OF this, of "Some ''bitcoin''"] r show ?thesis by blast
qed

text \<open>
  Running the bootstrap again is safe: the second run succeeds, returns the same row and changes
  nothing, and no run ever changes a value an operator has set in any of the three maps.
\<close>

theorem ensure_gl_settings_idempotent:
  assumes ok: "dicts_ok (settings_row db c)" and ens: "ensure_gl_settings c db = (Inr row, db')"
  shows "ensure_gl_settings c db' = (Inr row, db') \<and>
    (\<forall>k v. map_of (map_or_empty (s_payment_map (settings_row db c))) k = Some v \<longrightarrow>
           map_of (map_or_empty (s_payment_map row)) k = Some v) \<and>
    (\<forall>k v. map_of (map_or_empty (s_reason_map (settings_row db c))) k = Some v \<longrightarrow>
           map_of (map_or_empty (s_reason_map row)) k = Some v) \<and>
    (\<forall>k v. map_of (map_or_empty (s_expense_map (settings_row db c))) k = Some v \<longrightarrow>
           map_of (map_or_empty (s_expense_map row)) k = Some v)"
proof -
  let ?r = "settings_row db c"
  obtain em db0 where em: "expense_category_map_with_topup db0 c (s_expense_map ?r) = Inr em"
    and row: "row = ?r\<lparr>
        s_payment_map := reassign (s_payment_map ?r) (with_topup (s_payment_map ?r) DEFAULT_PAYMENT_METHOD_ROLE_MAP),
        s_reason_map := reassign (s_reason_map ?r) (with_topup (s_reason_map ?r) DEFAULT_CREDIT_REASON_ROLE_MAP),
        s_expense_map := reassign (s_expense_map ?r) em,
        s_cpa_review := Some (map_or_empty (s_cpa_review ?r))\<rparr>"
    and db': "db' = put_settings row db0"
    and val: "validate_payment_method_map (map_or_empty (s_payment_map row)) = Inr ()"
      "validate_role_map (map_or_empty (s_reason_map row)) = Inr ()"
    by (rule ensure_gl_settings_Inr[OF ens])
  have d: "dict_ok (s_payment_map ?r)" "dict_ok (s_reason_map ?r)" "dict_ok (s_expense_map ?r)"
    using ok by (simp_all add: dicts_ok_def)
  have dd: "distinct (map fst DEFAULT_PAYMENT_METHOD_ROLE_MAP)" "distinct (map fst DEFAULT_CREDIT_REASON_ROLE_MAP)"
    by (simp_all add: DEFAULT_PAYMENT_METHOD_ROLE_MAP_def DEFAULT_CREDIT_REASON_ROLE_MAP_def)
  have maps: "map_of (map_or_empty (s_payment_map row)) =
        map_of DEFAULT_PAYMENT_METHOD_ROLE_MAP ++ map_of (map_or_empty (s_payment_map ?r))"
      "map_of (map_or_empty (s_reason_map row)) =
        map_of DEFAULT_CREDIT_REASON_ROLE_MAP ++ map_of (map_or_empty (s_reason_map ?r))"
      "map_of (map_or_empty (s_expense_map row)) = map_of em"
    unfolding row by (simp_all add: map_of_reassign map_of_with_topup d)
  have dr: "dict_ok (s_payment_map row)" "dict_ok (s_reason_map row)"
    unfolding row using d dd
    by (auto intro!: dict_ok_reassign simp: with_topup_def distinct_fold_update)
  obtain pm rm xm cm where some: "s_payment_map row = Some pm" "s_reason_map row = Some rm" "s_expense_map row = Some xm"
    "s_cpa_review row = Some cm" unfolding row using reassign_not_None by fastforce
  have again: "map_of (with_topup (Some pm) DEFAULT_PAYMENT_METHOD_ROLE_MAP) = map_of pm"
      "map_of (with_topup (Some rm) DEFAULT_CREDIT_REASON_ROLE_MAP) = map_of rm"
    using maps(1,2) dr some by (simp_all add: map_of_with_topup) (simp_all add: map_or_empty_def map_add_self)
  have full: "map_of xm k \<noteq> None" if "k \<in> fst ` set DEFAULT_EXPENSE_CATEGORY_CODES" for k
    using maps(3) some(3) topup_expense_Inr(2)[OF em that] by (simp add: map_or_empty_def)
  have "filter (\<lambda>(cat, code). map_of xm cat = None) DEFAULT_EXPENSE_CATEGORY_CODES = []"
    using full by (force simp: filter_empty_conv)
  then have exp: "expense_category_map_with_topup db' c (Some xm) = Inr xm"
    by (simp add: expense_category_map_with_topup_def map_or_empty_def Let_def)
  have get: "get_gl_settings db' c = Some row" "s_company row = c" by (rule ensure_gl_settings_row[OF ens])+
  have upd: "row\<lparr>s_payment_map := Some pm, s_reason_map := Some rm, s_expense_map := Some xm, s_cpa_review := Some cm\<rparr> = row"
    using some by (cases row) simp
  have put: "put_settings row db' = db'" unfolding db' by (rule put_settings_twice) simp
  have "ensure_gl_settings c db' = (Inr row, db')"
    using val unfolding ensure_gl_settings_def Let_def get(1) option.case prod.case some exp sum.case
      reassign_again[OF again(1)] reassign_again[OF again(2)] reassign_again[OF refl]
    by (simp add: map_or_empty_def upd put some(1,2))
  then show ?thesis using maps topup_expense_Inr(1)[OF em] by simp
qed

theorem ensure_gl_settings_idempotent_witness:
  "\<exists>row db'. ensure_gl_settings ''gdx'' (snd (seed_coa ''gdx'' empty_db)) = (Inr row, db') \<and>
     ensure_gl_settings ''gdx'' db' = (Inr row, db')"
proof -
  let ?db = "snd (seed_coa ''gdx'' empty_db)"
  obtain row db' where r: "ensure_gl_settings ''gdx'' ?db = (Inr row, db')"
    using sample_settings by (cases "ensure_gl_settings ''gdx'' ?db"; cases "fst (ensure_gl_settings ''gdx'' ?db)") auto
  have "get_gl_settings ?db ''gdx'' = None" by (simp add: get_gl_settings_def snd_seed_coa empty_db_def)
  then have "dicts_ok (settings_row ?db ''gdx'')"
    by (simp add: dicts_ok_def settings_row_def fresh_settings_def dict_ok_def map_or_empty_def)
  from ensure_gl_settings_idempotent[OF this r] r show ?thesis by blast
qed

section \<open>Status transitions\<close>

text \<open>What a posting rule leaves alone: the workflow side of the database.\<close>

definition same_workflow :: "gl_db \<Rightarrow> gl_db \<Rightarrow> bool" where
  "same_workflow db db' \<longleftrightarrow> db_invoices db' = db_invoices db \<and> db_sanctions db' = db_sanctions db \<and>
     db_registry db' = db_registry db \<and> db_events db' = db_events db \<and> db_payments db' = db_payments db \<and>
     db_adjustments db' = db_adjustments db \<and> db_expenses db' = db_expenses db \<and> db_invoice_lines db' = db_invoice_lines db \<and>
     db_settings db' = db_settings db"

interpretation workflow: tracked same_workflow
  by unfold_locales (auto simp: same_workflow_def)

definition rules_sound :: "((gl_db \<Rightarrow> gl_db \<Rightarrow> bool)) \<Rightarrow> gl_env \<Rightarrow>
    (invoice_status \<Rightarrow> invoice_status \<Rightarrow> posting_rule option) \<Rightarrow> bool" where
  "rules_sound R env rules \<longleftrightarrow>
     (\<forall>a b rule iv act. rules a b = Some rule \<longrightarrow> tracks R (rule env iv a b act))"

lemma set_status_simps [simp]:
  "db_entries (set_status u st db) = db_entries db" "db_lines (set_status u st db) = db_lines db"
  "db_accounts (set_status u st db) = db_accounts db" "db_uuid (set_status u st db) = db_uuid db"
  "db_settings (set_status u st db) = db_settings db" "db_events (set_status u st db) = db_events db"
  "db_sanctions (set_status u st db) = db_sanctions db" "db_registry (set_status u st db) = db_registry db"
  by (simp_all add: set_status_def)

lemma transition_moves:
  assumes rules: "rules_sound same_workflow env rules"
    and run: "transition_invoice_status rules env iv new actor db = (Inr old, db')"
    and moves: "i_status iv \<noteq> Void" "new \<noteq> i_status iv"
  shows "old = i_status iv" "db_invoices db' = db_invoices (set_status (i_id iv) new db)"
    "map_of (db_sanctions db') (i_id iv) = Some new" "db_registry db' = db_registry db @ [i_id iv]"
    "\<exists>es. db_events db' = db_events db @ es \<and> length es = (if new = Paid then 1 else 0)"
proof -
  let ?w = "sanctioned_write (i_id iv) new db"
  let ?m = "if ledger_posting_enabled ?w (i_company iv) then (case rules (i_status iv) new of None \<Rightarrow> ok ()
      | Some rule \<Rightarrow> rule env (iv\<lparr>i_status := new\<rparr>) (i_status iv) new actor) else ok ()"
  have tr: "tracks same_workflow ?m"
    using rules workflow.tracks_ok by (auto simp: rules_sound_def split: option.splits)
  obtain r db1 where m: "?m ?w = (r, db1)" by fastforce
  have same: "same_workflow ?w db1" by (rule tracksD[OF tr m])
  have run': "(case r of Inl e \<Rightarrow> (Inl e, db1) | Inr _ \<Rightarrow>
      (if new = Paid then (case int_of_decimal (times_hundred (dec (i_total iv))) of Inl e \<Rightarrow> (Inl e, db1)
         | Inr c \<Rightarrow> (Inr (i_status iv), db1\<lparr>db_events := db_events db1 @ [InvoicePaid (i_id iv) c]\<rparr>))
       else (Inr (i_status iv), db1))) = (Inr old, db')"
    using run moves m unfolding transition_invoice_status_def Let_def andthen_def change_def asks_def lift_def
    by (cases r) (auto simp: ok_def split: sum.splits if_splits)
  have "\<exists>es. old = i_status iv \<and> db' = db1\<lparr>db_events := db_events db1 @ es\<rparr> \<and>
      length es = (if new = Paid then 1 else 0)"
  proof (cases "new = Paid")
    case True
    then obtain c where "old = i_status iv" "db' = db1\<lparr>db_events := db_events db1 @ [InvoicePaid (i_id iv) c]\<rparr>"
      using run' by (cases r) (auto split: sum.splits)
    then show ?thesis using True by (intro exI[of _ "[InvoicePaid (i_id iv) c]"]) simp
  next
    case False
    then show ?thesis using run' by (intro exI[of _ "[]"], cases r) auto
  qed
  then obtain es where *: "old = i_status iv" "db' = db1\<lparr>db_events := db_events db1 @ es\<rparr>"
    "length es = (if new = Paid then 1 else 0)" by blast
  show "old = i_status iv" by (rule *(1))
  show "db_invoices db' = db_invoices (set_status (i_id iv) new db)" "db_registry db' = db_registry db @ [i_id iv]"
    "map_of (db_sanctions db') (i_id iv) = Some new"
    using same *(2) by (simp_all add: same_workflow_def sanctioned_write_def set_status_def update_conv')
  show "\<exists>es. db_events db' = db_events db @ es \<and> length es = (if new = Paid then 1 else 0)"
    using same *(2,3) by (intro exI[of _ es]) (simp add: same_workflow_def sanctioned_write_def set_status_def)
qed

lemma transition_void: "i_status iv = Void \<or> new = i_status iv \<Longrightarrow>
    transition_invoice_status rules env iv new actor db = (Inr (i_status iv), db)"
  by (auto simp: transition_invoice_status_def ok_def Let_def)

lemma transition_sound:
  assumes "rules_sound sound_step env rules"
  shows "tracks sound_step (transition_invoice_status rules env iv new actor)"
proof -
  have w: "tracks sound_step (change (sanctioned_write u st))" for u st
    by (rule journal.tracks_change, rule sound_frame) (simp_all add: sanctioned_write_def)
  have e: "tracks sound_step (change (\<lambda>db. db\<lparr>db_events := db_events db @ es\<rparr>))" for es
    by (rule journal.tracks_change, rule sound_frame) simp_all
  have r: "tracks sound_step (case rules a b of None \<Rightarrow> ok () | Some rule \<Rightarrow> rule env i a b actor)" for a b i
    using assms journal.tracks_ok by (auto simp: rules_sound_def split: option.splits)
  show ?thesis unfolding transition_invoice_status_def Let_def
    by (intro journal.tracks_rules w e r)
qed

end
