(* ===== verification/Ledger_Guard.thy ===== *)
theory Ledger_Guard
  imports Ledger_Service
begin

text \<open>
  \<^verbatim>\<open>modules/ledger/guard.py\<close>: the flush guard that catches an invoice status written past the chokepoint.  The
  session's invoice instances are records of what the guard reads from them; the stamp is
  \<open>si_sanction\<close>.  The lemmas show that in raise mode a flush passes exactly when every status it writes was
  sanctioned for that very status, that a stamp is spent by the flush that reads it, and that a
  rolled-back transition leaves no stamp behind.
\<close>

section \<open>The session's invoice instances\<close>

datatype flush_kind = Dirty | New | Deleted | Clean

record session_invoice =
  si_id :: uuid
  si_company :: string
  si_kind :: flush_kind
  si_status :: "invoice_status option"
  si_changed :: bool
  si_sanction :: "invoice_status option"
  si_attached :: bool
  si_was_deleted :: bool
  si_unloaded :: bool

record guard_session =
  gs_objs :: "session_invoice list"
  gs_registry :: "uuid list"
  gs_cache :: "(string \<times> bool) list"

section \<open>The guard\<close>

definition raise_mode :: "string \<Rightarrow> bool \<Rightarrow> bool" where
  "raise_mode gdx_env pytest =
     (let env = lower (strip gdx_env) in
      if env \<in> {''prod'', ''production'', ''staging''} then False
      else if env \<in> {''dev'', ''development'', ''test'', ''testing'', ''local''} then True
      else pytest)"

definition flag_for :: "(string \<Rightarrow> bool) \<Rightarrow> (string \<times> bool) list \<Rightarrow> string \<Rightarrow> bool \<times> (string \<times> bool) list" where
  "flag_for enabled cache company =
     (case map_of cache company of
        Some b \<Rightarrow> (b, cache)
      | None \<Rightarrow> (enabled company, AList.update company (enabled company) cache))"

definition consume_sanction :: "session_invoice \<Rightarrow> bool \<times> session_invoice" where
  "consume_sanction x =
     (case si_sanction x of
        None \<Rightarrow> (False, x)
      | Some st \<Rightarrow> (Some st = si_status x, x\<lparr>si_sanction := None\<rparr>))"

text \<open>One object's turn in the pass over \<open>kind\<close>: whether it offends, the object and the flag cache after.\<close>

definition inspect_flag ::
  "(string \<Rightarrow> bool) \<Rightarrow> session_invoice \<Rightarrow> (string \<times> bool) list \<Rightarrow> bool \<times> session_invoice \<times> (string \<times> bool) list" where
  "inspect_flag enabled x cache = (case flag_for enabled cache (si_company x) of (b, cache') \<Rightarrow> (b, x, cache'))"

definition inspect_obj ::
  "(string \<Rightarrow> bool) \<Rightarrow> flush_kind \<Rightarrow> session_invoice \<Rightarrow> (string \<times> bool) list \<Rightarrow>
   bool \<times> session_invoice \<times> (string \<times> bool) list" where
  "inspect_obj enabled kind x cache =
     (if si_kind x \<noteq> kind then (False, x, cache)
      else case kind of
        Dirty \<Rightarrow>
          if \<not> si_changed x then (False, x, cache)
          else (case consume_sanction x of (good, x') \<Rightarrow>
                  if good then (False, x', cache) else inspect_flag enabled x' cache)
      | New \<Rightarrow>
          if si_status x = None \<or> si_status x = Some Draft then (False, x, cache)
          else (case consume_sanction x of (good, x') \<Rightarrow>
                  if good then (False, x', cache) else inspect_flag enabled x' cache)
      | Deleted \<Rightarrow> inspect_flag enabled x cache
      | Clean \<Rightarrow> (False, x, cache))"

primrec inspect_pass ::
  "(string \<Rightarrow> bool) \<Rightarrow> flush_kind \<Rightarrow> session_invoice list \<Rightarrow> (string \<times> bool) list \<Rightarrow>
   uuid list \<times> session_invoice list \<times> (string \<times> bool) list" where
  "inspect_pass enabled kind [] cache = ([], [], cache)"
| "inspect_pass enabled kind (x # xs) cache =
     (case inspect_obj enabled kind x cache of (bad, x', cache1) \<Rightarrow>
      case inspect_pass enabled kind xs cache1 of (offenders, xs', cache2) \<Rightarrow>
        ((if bad then si_id x # offenders else offenders), x' # xs', cache2))"

definition check_flush :: "(string \<Rightarrow> bool) \<Rightarrow> bool \<Rightarrow> (guard_session, exn, uuid list) sem" where
  "check_flush enabled raising = (\<lambda>s.
     case inspect_pass enabled Dirty (gs_objs s) (gs_cache s) of (bad1, objs1, cache1) \<Rightarrow>
     case inspect_pass enabled New objs1 cache1 of (bad2, objs2, cache2) \<Rightarrow>
     case inspect_pass enabled Deleted objs2 cache2 of (bad3, objs3, cache3) \<Rightarrow>
       let s' = s\<lparr>gs_objs := objs3, gs_cache := cache3\<rparr>; offenders = bad1 @ bad2 @ bad3 in
       if offenders = [] then (Inr [], s')
       else if raising then (Inl ChokepointBypassError, s')
       else (Inr offenders, s'))"

definition sanctioned_write_survived :: "session_invoice \<Rightarrow> bool" where
  "sanctioned_write_survived x =
     (if \<not> si_attached x \<or> si_was_deleted x then False
      else if si_unloaded x then False
      else si_status x = si_sanction x)"

definition clear_sanctions_on_rollback :: "bool \<Rightarrow> guard_session \<Rightarrow> guard_session" where
  "clear_sanctions_on_rollback nested s =
     (if \<not> nested then
        s\<lparr>gs_objs := map (\<lambda>x. if si_id x \<in> set (gs_registry s) then x\<lparr>si_sanction := None\<rparr> else x) (gs_objs s),
          gs_registry := []\<rparr>
      else
        s\<lparr>gs_objs := map (\<lambda>x. if si_id x \<in> set (gs_registry s) \<and> si_sanction x \<noteq> None \<and>
                                \<not> sanctioned_write_survived x
                             then x\<lparr>si_sanction := None\<rparr> else x) (gs_objs s),
          gs_registry := filter (\<lambda>u. list_ex (\<lambda>x. si_id x = u \<and> si_sanction x \<noteq> None \<and>
                                                sanctioned_write_survived x) (gs_objs s)) (gs_registry s)\<rparr>)"

section \<open>What the guard catches\<close>

definition bypass :: "session_invoice \<Rightarrow> bool" where
  "bypass x \<longleftrightarrow>
     (case si_kind x of
        Dirty \<Rightarrow> si_changed x \<and> (si_sanction x = None \<or> si_sanction x \<noteq> si_status x)
      | New \<Rightarrow> si_status x \<noteq> None \<and> si_status x \<noteq> Some Draft \<and> (si_sanction x = None \<or> si_sanction x \<noteq> si_status x)
      | Deleted \<Rightarrow> True
      | Clean \<Rightarrow> False)"

definition cache_ok :: "(string \<Rightarrow> bool) \<Rightarrow> (string \<times> bool) list \<Rightarrow> bool" where
  "cache_ok enabled cache \<longleftrightarrow> (\<forall>c b. map_of cache c = Some b \<longrightarrow> b = enabled c)"

lemma flag_for_ok: "cache_ok enabled cache \<Longrightarrow>
    fst (flag_for enabled cache c) = enabled c \<and> cache_ok enabled (snd (flag_for enabled cache c))"
  by (auto simp: cache_ok_def flag_for_def update_conv' split: option.splits)

lemma inspect_flag_ok: "cache_ok enabled cache \<Longrightarrow>
    \<exists>cache'. inspect_flag enabled x cache = (enabled (si_company x), x, cache') \<and> cache_ok enabled cache'"
  using flag_for_ok[of enabled cache "si_company x"]
  by (auto simp: inspect_flag_def split: prod.splits)

definition spent :: "flush_kind \<Rightarrow> session_invoice \<Rightarrow> session_invoice" where
  "spent kind x =
     (if si_kind x = kind \<and> (kind = Dirty \<and> si_changed x \<or> kind = New \<and> si_status x \<noteq> None \<and> si_status x \<noteq> Some Draft)
      then x\<lparr>si_sanction := None\<rparr> else x)"

lemma inspect_obj_ok:
  assumes "cache_ok enabled cache"
  shows "\<exists>cache'. inspect_obj enabled kind x cache =
      (si_kind x = kind \<and> bypass x \<and> enabled (si_company x), spent kind x, cache') \<and> cache_ok enabled cache'"
proof -
  have flag: "\<exists>cache'. inspect_flag enabled y cache = (enabled (si_company y), y, cache') \<and> cache_ok enabled cache'" for y
    by (rule inspect_flag_ok[OF assms])
  have cons: "consume_sanction x = (si_sanction x \<noteq> None \<and> si_sanction x = si_status x, x\<lparr>si_sanction := None\<rparr>)"
    by (cases x) (auto simp: consume_sanction_def split: option.splits)
  obtain c1 c2 where f1: "inspect_flag enabled x cache = (enabled (si_company x), x, c1)" "cache_ok enabled c1"
    and f2: "inspect_flag enabled (x\<lparr>si_sanction := None\<rparr>) cache = (enabled (si_company x), x\<lparr>si_sanction := None\<rparr>, c2)"
      "cache_ok enabled c2" using flag[of x] flag[of "x\<lparr>si_sanction := None\<rparr>"] by auto
  show ?thesis
    using assms f1 f2 by (cases kind) (auto simp: inspect_obj_def cons bypass_def spent_def)
qed

lemma inspect_pass_ok:
  assumes "cache_ok enabled cache"
  shows "\<exists>cache'. inspect_pass enabled kind xs cache =
      (map si_id (filter (\<lambda>x. si_kind x = kind \<and> bypass x \<and> enabled (si_company x)) xs), map (spent kind) xs, cache') \<and>
      cache_ok enabled cache'"
  using assms
proof (induction xs arbitrary: cache)
  case (Cons x xs)
  obtain c1 where o: "inspect_obj enabled kind x cache =
      (si_kind x = kind \<and> bypass x \<and> enabled (si_company x), spent kind x, c1)" "cache_ok enabled c1"
    using inspect_obj_ok[OF Cons.prems] by blast
  obtain c2 where "inspect_pass enabled kind xs c1 =
      (map si_id (filter (\<lambda>x. si_kind x = kind \<and> bypass x \<and> enabled (si_company x)) xs), map (spent kind) xs, c2)"
      "cache_ok enabled c2" using Cons.IH[OF o(2)] by blast
  then show ?case using o(1) by simp
qed simp

lemma spent_simps [simp]:
  "si_kind (spent k x) = si_kind x" "si_company (spent k x) = si_company x" "si_id (spent k x) = si_id x"
  "si_changed (spent k x) = si_changed x" "si_status (spent k x) = si_status x"
  by (simp_all add: spent_def)

lemma bypass_spent: "si_kind x \<noteq> k \<Longrightarrow> bypass (spent k x) = bypass x"
  by (simp add: spent_def)

definition spend_all :: "session_invoice \<Rightarrow> session_invoice" where
  "spend_all x = spent Deleted (spent New (spent Dirty x))"

lemma check_flush_run:
  assumes "cache_ok enabled (gs_cache s)"
  shows "\<exists>cache'. snd (check_flush enabled raising s) = s\<lparr>gs_objs := map spend_all (gs_objs s), gs_cache := cache'\<rparr> \<and>
    cache_ok enabled cache' \<and>
    (let bad = \<exists>x \<in> set (gs_objs s). bypass x \<and> enabled (si_company x) in
     fst (check_flush enabled raising s) = Inl ChokepointBypassError \<longleftrightarrow> bad \<and> raising) \<and>
    (fst (check_flush enabled raising s) = Inr [] \<longleftrightarrow> \<not> (\<exists>x \<in> set (gs_objs s). bypass x \<and> enabled (si_company x)))"
proof -
  let ?xs = "gs_objs s"
  let ?bad = "\<lambda>k xs. map si_id (filter (\<lambda>x. si_kind x = k \<and> bypass x \<and> enabled (si_company x)) xs)"
  obtain c1 where 1: "inspect_pass enabled Dirty ?xs (gs_cache s) = (?bad Dirty ?xs, map (spent Dirty) ?xs, c1)"
    "cache_ok enabled c1" using inspect_pass_ok[OF assms] by blast
  obtain c2 where 2: "inspect_pass enabled New (map (spent Dirty) ?xs) c1 =
      (?bad New (map (spent Dirty) ?xs), map (spent New) (map (spent Dirty) ?xs), c2)"
    "cache_ok enabled c2" using inspect_pass_ok[OF 1(2)] by blast
  obtain c3 where 3: "inspect_pass enabled Deleted (map (spent New) (map (spent Dirty) ?xs)) c2 =
      (?bad Deleted (map (spent New) (map (spent Dirty) ?xs)),
       map (spent Deleted) (map (spent New) (map (spent Dirty) ?xs)), c3)"
    "cache_ok enabled c3" using inspect_pass_ok[OF 2(2)] by blast
  let ?off = "?bad Dirty ?xs @ ?bad New (map (spent Dirty) ?xs) @ ?bad Deleted (map (spent New) (map (spent Dirty) ?xs))"
  have off: "?off = [] \<longleftrightarrow> \<not> (\<exists>x \<in> set ?xs. bypass x \<and> enabled (si_company x))"
  proof -
    have *: "bypass x \<and> enabled (si_company x) \<longleftrightarrow>
        (si_kind x = Dirty \<and> bypass x \<and> enabled (si_company x)) \<or>
        (si_kind x = New \<and> bypass (spent Dirty x) \<and> enabled (si_company x)) \<or>
        (si_kind x = Deleted \<and> bypass (spent New (spent Dirty x)) \<and> enabled (si_company x))" for x
      by (cases "si_kind x") (simp_all add: bypass_spent, simp add: bypass_def)
    show ?thesis by (subst *) (auto simp: filter_empty_conv)
  qed
  have run: "check_flush enabled raising s =
      (if ?off = [] then Inr [] else if raising then Inl ChokepointBypassError else Inr ?off,
       s\<lparr>gs_objs := map spend_all ?xs, gs_cache := c3\<rparr>)"
    unfolding check_flush_def 1 prod.case 2 3 Let_def by (simp add: spend_all_def comp_def)
  show ?thesis using off 3(2) unfolding run by (intro exI[of _ c3]) (simp add: Let_def split: if_splits)
qed

text \<open>
  C39.  The guard is exact.  In raise mode a flush is refused exactly when, for a company with posting
  enabled, it would write a status the chokepoint did not sanction for that very value, create a
  non-draft invoice without a sanction, or delete an invoice row; in log-only mode it never raises.  And
  a stamp is single-use: after any flush, every instance whose status still counts as changed is a
  bypass.
\<close>

theorem flush_guard_exact:
  assumes "cache_ok enabled (gs_cache s)"
  shows "(fst (check_flush enabled True s) = Inl ChokepointBypassError \<longleftrightarrow>
       (\<exists>x \<in> set (gs_objs s). bypass x \<and> enabled (si_company x))) \<and>
    \<not> isl (fst (check_flush enabled False s)) \<and>
    (\<forall>x \<in> set (gs_objs (snd (check_flush enabled raising s))).
       si_kind x = Dirty \<and> si_changed x \<longrightarrow> bypass x)"
proof (intro conjI ballI impI)
  show "fst (check_flush enabled True s) = Inl ChokepointBypassError \<longleftrightarrow>
       (\<exists>x \<in> set (gs_objs s). bypass x \<and> enabled (si_company x))"
    using check_flush_run[OF assms, of True] unfolding Let_def by blast
  show "\<not> isl (fst (check_flush enabled False s))"
    by (simp add: check_flush_def Let_def split: prod.splits)
  fix x assume x: "x \<in> set (gs_objs (snd (check_flush enabled raising s)))" "si_kind x = Dirty \<and> si_changed x"
  obtain cache' where "snd (check_flush enabled raising s) = s\<lparr>gs_objs := map spend_all (gs_objs s), gs_cache := cache'\<rparr>"
    using check_flush_run[OF assms, of raising] by blast
  then obtain y where "x = spend_all y" using x(1) by auto
  then show "bypass x" using x(2) by (auto simp: spend_all_def spent_def bypass_def)
qed

definition raw_write :: session_invoice where
  "raw_write = \<lparr>si_id = 4, si_company = ''gdx'', si_kind = Dirty, si_status = Some Paid, si_changed = True,
     si_sanction = Some Sent, si_attached = True, si_was_deleted = False, si_unloaded = False\<rparr>"

theorem flush_guard_exact_witness:
  "fst (check_flush (\<lambda>c. c = ''gdx'') True \<lparr>gs_objs = [raw_write], gs_registry = [4], gs_cache = []\<rparr>) =
     Inl ChokepointBypassError"
proof -
  let ?s = "\<lparr>gs_objs = [raw_write], gs_registry = [4], gs_cache = []\<rparr>"
  have "cache_ok (\<lambda>c. c = ''gdx'') (gs_cache ?s)" by (simp add: cache_ok_def)
  moreover have "bypass raw_write \<and> si_company raw_write = ''gdx''" by (simp add: bypass_def raw_write_def)
  ultimately show ?thesis using flush_guard_exact[of "\<lambda>c. c = ''gdx''" ?s False] by simp
qed

text \<open>
  Rollbacks and stamps.  After the business transaction rolled back, no registered instance carries a
  stamp.  After a savepoint rolled back, a registered instance carries a stamp only if its sanctioned
  status survived the rollback, and every such stamp is kept and stays registered.
\<close>

theorem rollback_clears_sanctions:
  assumes "x \<in> set (gs_objs (clear_sanctions_on_rollback nested s))" and "si_id x \<in> set (gs_registry s)"
  shows "(\<not> nested \<longrightarrow> si_sanction x = None) \<and>
    (nested \<and> si_sanction x \<noteq> None \<longrightarrow> sanctioned_write_survived x \<and> si_status x = si_sanction x \<and>
       si_id x \<in> set (gs_registry (clear_sanctions_on_rollback nested s))) \<and>
    (\<forall>y \<in> set (gs_objs s). sanctioned_write_survived y \<and> si_sanction y \<noteq> None \<and> nested \<longrightarrow>
       y \<in> set (gs_objs (clear_sanctions_on_rollback nested s)))"
proof (intro conjI impI ballI)
  show "si_sanction x = None" if "\<not> nested"
    using assms that by (auto simp: clear_sanctions_on_rollback_def split: if_splits)
  have keep: "x \<in> set (gs_objs s) \<and> sanctioned_write_survived x" if "nested \<and> si_sanction x \<noteq> None"
    using assms that by (auto simp: clear_sanctions_on_rollback_def split: if_splits)
  show "sanctioned_write_survived x" if "nested \<and> si_sanction x \<noteq> None" using keep[OF that] by simp
  show "si_status x = si_sanction x" if "nested \<and> si_sanction x \<noteq> None"
    using keep[OF that] by (simp add: sanctioned_write_survived_def split: if_splits)
  show "si_id x \<in> set (gs_registry (clear_sanctions_on_rollback nested s))" if "nested \<and> si_sanction x \<noteq> None"
    using keep[OF that] that assms(2) by (auto simp: clear_sanctions_on_rollback_def list_ex_iff)
  fix y assume "y \<in> set (gs_objs s)" "sanctioned_write_survived y \<and> si_sanction y \<noteq> None \<and> nested"
  then show "y \<in> set (gs_objs (clear_sanctions_on_rollback nested s))"
    by (auto simp: clear_sanctions_on_rollback_def image_iff intro!: bexI[of _ y])
qed

theorem rollback_clears_sanctions_witness:
  "si_sanction (raw_write\<lparr>si_sanction := None\<rparr>) = None \<and>
   raw_write\<lparr>si_sanction := None\<rparr> \<in> set (gs_objs (clear_sanctions_on_rollback False
     \<lparr>gs_objs = [raw_write], gs_registry = [4], gs_cache = []\<rparr>))"
proof -
  let ?x = "raw_write\<lparr>si_sanction := None\<rparr>"
  let ?s = "\<lparr>gs_objs = [raw_write], gs_registry = [4], gs_cache = []\<rparr>"
  have "?x \<in> set (gs_objs (clear_sanctions_on_rollback False ?s))" "si_id ?x \<in> set (gs_registry ?s)"
    by (simp_all add: clear_sanctions_on_rollback_def raw_write_def)
  with rollback_clears_sanctions[OF this] show ?thesis by blast
qed

end
