(* ===== verification/Calendar.thy ===== *)
theory Calendar
  imports Prelude
begin

text \<open>
  The Gregorian calendar behind \<^verbatim>\<open>datetime.date\<close>: month lengths, successor and predecessor of a day, ordinals,
  weekdays and \<^verbatim>\<open>timedelta(days=n)\<close> arithmetic.  The years are not bounded by 9999, so the OverflowError
  of the library is not modelled.  The ordinal is an order isomorphism on valid dates, which reduces
  calendar arguments to integer arithmetic.
\<close>

definition leap :: "nat \<Rightarrow> bool" where
  "leap y \<longleftrightarrow> y mod 4 = 0 \<and> (y mod 100 \<noteq> 0 \<or> y mod 400 = 0)"

definition month_days :: "nat \<Rightarrow> nat \<Rightarrow> nat" where
  "month_days y m = (if m = 2 then (if leap y then 29 else 28) else if m \<in> {4, 6, 9, 11} then 30 else 31)"

definition valid_date :: "date \<Rightarrow> bool" where
  "valid_date d \<longleftrightarrow> 1 \<le> year d \<and> 1 \<le> month d \<and> month d \<le> 12 \<and> 1 \<le> day d \<and> day d \<le> month_days (year d) (month d)"

definition next_day :: "date \<Rightarrow> date" where
  "next_day d =
     (if day d < month_days (year d) (month d) then Date (year d) (month d) (day d + 1)
      else if month d < 12 then Date (year d) (month d + 1) 1 else Date (year d + 1) 1 1)"

definition prev_day :: "date \<Rightarrow> date" where
  "prev_day d =
     (if 1 < day d then Date (year d) (month d) (day d - 1)
      else if 1 < month d then Date (year d) (month d - 1) (month_days (year d) (month d - 1))
      else Date (year d - 1) 12 31)"

definition add_days :: "date \<Rightarrow> int \<Rightarrow> date" where
  "add_days d n = (if 0 \<le> n then (next_day ^^ nat n) d else (prev_day ^^ nat (- n)) d)"

definition days_before_year :: "nat \<Rightarrow> int" where
  "days_before_year y = (let z = int y - 1 in z * 365 + z div 4 - z div 100 + z div 400)"

definition days_before_month :: "nat \<Rightarrow> nat \<Rightarrow> int" where
  "days_before_month y m = (\<Sum>k \<leftarrow> [1..<m]. int (month_days y k))"

definition ordinal :: "date \<Rightarrow> int" where
  "ordinal d = days_before_year (year d) + days_before_month (year d) (month d) + int (day d)"

definition weekday :: "date \<Rightarrow> int" where
  "weekday d = (ordinal d + 6) mod 7"

text \<open>\<^verbatim>\<open>(a - b).days\<close>.\<close>

definition days_between :: "date \<Rightarrow> date \<Rightarrow> int" where
  "days_between a b = ordinal a - ordinal b"

section \<open>Ordinals\<close>

lemma div_step: "0 < k \<Longrightarrow> y div k = (y - 1) div k + (if y mod k = 0 then 1 else 0)" for y k :: int
proof -
  assume k: "0 < k"
  have y: "y = k * (y div k) + y mod k" by simp
  have r: "0 \<le> y mod k" "y mod k < k" using k by simp_all
  show ?thesis
  proof (cases "y mod k = 0")
    case True
    have "(y - 1) div k = y div k - 1"
      by (rule int_div_pos_eq[where r = "k - 1"]) (use k True y in \<open>simp_all add: algebra_simps\<close>)
    then show ?thesis using True by simp
  next
    case False
    have "(y - 1) div k = y div k"
      by (rule int_div_pos_eq[where r = "y mod k - 1"]) (use k False y r in linarith)+
    then show ?thesis using False by simp
  qed
qed

lemma nat_mod_int: "int y mod int k = 0 \<longleftrightarrow> y mod k = 0"
  by (metis of_nat_0 of_nat_eq_iff zmod_int)

definition year_days :: "nat \<Rightarrow> int" where
  "year_days y = (if leap y then 366 else 365)"

lemma mod_400: "y mod 400 = 0 \<Longrightarrow> y mod 100 = 0 \<and> y mod 4 = 0" "y mod 100 = 0 \<Longrightarrow> y mod 4 = 0" for y :: nat
  using mod_mod_cancel[of 100 400 y] mod_mod_cancel[of 4 400 y] mod_mod_cancel[of 4 100 y] by simp_all

lemma leap_cases: "(R \<longrightarrow> Q) \<Longrightarrow> (Q \<longrightarrow> P) \<Longrightarrow> (if P \<and> (\<not> Q \<or> R) then 366 else 365 :: int) =
    365 + (if P then 1 else 0) - (if Q then 1 else 0) + (if R then 1 else 0)"
  by (cases P; cases Q; cases R) simp_all

lemma nat_div_step: "0 < k \<Longrightarrow> int y div int k = (int y - 1) div int k + (if y mod k = 0 then 1 else 0)"
  using div_step[of "int k" "int y"] unfolding nat_mod_int by simp

lemma days_before_next_year: "days_before_year (Suc y) = days_before_year y + year_days y"
proof -
  define a b c where "a = (int y - 1) div int 4" and "b = (int y - 1) div int 100" and "c = (int y - 1) div int 400"
  have "int y div int 4 = a + (if y mod 4 = 0 then 1 else 0)" "int y div int 100 = b + (if y mod 100 = 0 then 1 else 0)"
    "int y div int 400 = c + (if y mod 400 = 0 then 1 else 0)"
    unfolding a_def b_def c_def by (rule nat_div_step, simp)+
  then have "days_before_year (Suc y) = int y * 365 + (a + (if y mod 4 = 0 then 1 else 0)) -
      (b + (if y mod 100 = 0 then 1 else 0)) + (c + (if y mod 400 = 0 then 1 else 0))"
    by (simp add: days_before_year_def Let_def)
  moreover have "days_before_year y = (int y - 1) * 365 + a - b + c"
    by (simp add: days_before_year_def Let_def a_def b_def c_def)
  moreover have "year_days y = 365 + (if y mod 4 = 0 then 1 else 0) - (if y mod 100 = 0 then 1 else 0) + (if y mod 400 = 0 then 1 else 0)"
    unfolding year_days_def leap_def using mod_400[of y] by (intro leap_cases impI) blast+
  ultimately show ?thesis by (simp add: algebra_simps)
qed

lemma days_before_month_Suc: "1 \<le> m \<Longrightarrow> days_before_month y (Suc m) = days_before_month y m + int (month_days y m)"
  by (simp add: days_before_month_def)

lemma days_before_month_13: "days_before_month y 13 = year_days y"
  by (simp add: days_before_month_def upt_rec year_days_def month_days_def)

lemma days_before_month_mono: "m \<le> n \<Longrightarrow> days_before_month y m \<le> days_before_month y n"
proof (induction n)
  case (Suc n)
  then show ?case
    by (cases "m = Suc n"; cases "1 \<le> n") (auto simp: days_before_month_Suc le_Suc_eq, simp_all add: days_before_month_def)
qed simp

lemma days_before_year_mono: "x \<le> y \<Longrightarrow> days_before_year x \<le> days_before_year y"
  by (induction y) (auto simp: le_Suc_eq days_before_next_year year_days_def)

lemma ordinal_in_year:
  assumes "valid_date d"
  shows "days_before_year (year d) < ordinal d" "ordinal d \<le> days_before_year (Suc (year d))"
proof -
  have d: "1 \<le> month d" "month d \<le> 12" "1 \<le> day d" "day d \<le> month_days (year d) (month d)"
    using assms by (auto simp: valid_date_def)
  have "0 \<le> days_before_month (year d) (month d)"
    unfolding days_before_month_def by (intro sum_list_nonneg) auto
  then show "days_before_year (year d) < ordinal d" using d(3) by (simp add: ordinal_def)
  have "days_before_month (year d) (Suc (month d)) \<le> days_before_month (year d) 13"
    using d(2) by (intro days_before_month_mono) simp
  then show "ordinal d \<le> days_before_year (Suc (year d))"
    using d by (simp add: days_before_month_Suc days_before_month_13 days_before_next_year ordinal_def)
qed

lemma ordinal_less:
  assumes "valid_date a" "valid_date b" "a < b"
  shows "ordinal a < ordinal b"
proof -
  consider (y) "year a < year b" | (m) "year a = year b" "month a < month b"
    | (d) "year a = year b" "month a = month b" "day a < day b"
    using assms(3) by (auto simp: less_date_def)
  then show ?thesis
  proof cases
    case y
    have "ordinal a \<le> days_before_year (Suc (year a))" by (rule ordinal_in_year(2)[OF assms(1)])
    also have "\<dots> \<le> days_before_year (year b)" using y by (intro days_before_year_mono) simp
    also have "\<dots> < ordinal b" by (rule ordinal_in_year(1)[OF assms(2)])
    finally show ?thesis .
  next
    case m
    have "days_before_month (year a) (Suc (month a)) \<le> days_before_month (year a) (month b)"
      using m by (intro days_before_month_mono) simp
    then show ?thesis using m assms by (auto simp: ordinal_def days_before_month_Suc valid_date_def)
  next
    case d
    then show ?thesis by (simp add: ordinal_def)
  qed
qed

lemma ordinal_less_iff: "valid_date a \<Longrightarrow> valid_date b \<Longrightarrow> ordinal a < ordinal b \<longleftrightarrow> a < b"
  using ordinal_less[of a b] ordinal_less[of b a] by (metis linorder_less_linear order_less_asym less_irrefl)

lemma ordinal_le_iff: "valid_date a \<Longrightarrow> valid_date b \<Longrightarrow> ordinal a \<le> ordinal b \<longleftrightarrow> a \<le> b"
  using ordinal_less_iff[of b a] by (metis linorder_not_less)

lemma ordinal_inject: "valid_date a \<Longrightarrow> valid_date b \<Longrightarrow> ordinal a = ordinal b \<longleftrightarrow> a = b"
  using ordinal_le_iff[of a b] ordinal_le_iff[of b a] by auto

section \<open>Stepping\<close>

lemma month_days_pos: "28 \<le> month_days y m" "month_days y m \<le> 31"
  by (simp_all add: month_days_def)

lemma next_day_valid: "valid_date d \<Longrightarrow> valid_date (next_day d)"
  using month_days_pos(1)[of "year d" "month d + 1"] month_days_pos(1)[of "year d + 1" 1]
  by (auto simp: valid_date_def next_day_def)

lemma ordinal_next_day: "valid_date d \<Longrightarrow> ordinal (next_day d) = ordinal d + 1"
proof -
  assume v: "valid_date d"
  have "days_before_month (year d) 13 = days_before_month (year d) 12 + int (month_days (year d) 12)"
    using days_before_month_Suc[of 12 "year d"] by simp
  then have last: "days_before_year (year d) + days_before_month (year d) 12 + int (month_days (year d) 12) = days_before_year (Suc (year d))"
    by (simp add: days_before_month_13 days_before_next_year)
  have one: "days_before_month y 1 = 0" for y by (simp add: days_before_month_def)
  have b: "1 \<le> month d" "month d \<le> 12" "day d \<le> month_days (year d) (month d)" using v by (simp_all add: valid_date_def)
  consider (day) "day d < month_days (year d) (month d)" | (month) "day d = month_days (year d) (month d)" "month d < 12"
    | (year) "day d = month_days (year d) (month d)" "month d = 12"
    using b by linarith
  then show ?thesis
  proof cases
    case day
    then show ?thesis by (simp add: next_day_def ordinal_def)
  next
    case month
    with b(1) show ?thesis by (simp add: next_day_def ordinal_def days_before_month_Suc)
  next
    case year
    then show ?thesis using last one[of "Suc (year d)"] by (simp add: next_day_def ordinal_def)
  qed
qed

lemma prev_day_valid: "valid_date d \<Longrightarrow> 1 < ordinal d \<Longrightarrow> valid_date (prev_day d)"
proof -
  assume v: "valid_date d" and pos: "1 < ordinal d"
  have "year d \<noteq> 1 \<or> 1 < month d \<or> 1 < day d"
  proof (rule ccontr)
    assume "\<not> ?thesis"
    then have "year d = 1" "month d = 1" "day d = 1" using v by (auto simp: valid_date_def)
    then show False using pos by (simp add: ordinal_def days_before_year_def days_before_month_def Let_def)
  qed
  then consider (d) "1 < day d" | (m) "day d \<le> 1" "1 < month d" | (y) "day d \<le> 1" "month d \<le> 1" "year d \<noteq> 1" by linarith
  then show ?thesis
  proof cases
    case d
    moreover have "1 \<le> day d - 1" "day d - 1 \<le> day d" using d by linarith+
    ultimately show ?thesis using v by (auto simp: valid_date_def prev_day_def)
  next
    case m
    have "month d \<le> 12" using v by (simp add: valid_date_def)
    then have "1 \<le> month d - 1" "month d - 1 \<le> 12" using m(2) by linarith+
    then show ?thesis using m v month_days_pos(1)[of "year d" "month d - 1"] by (auto simp: valid_date_def prev_day_def)
  next
    case y
    then have "1 \<le> year d - 1" using v by (auto simp: valid_date_def)
    then show ?thesis using y by (simp add: valid_date_def prev_day_def month_days_def)
  qed
qed

lemma next_prev_day:
  assumes v: "valid_date d" and pos: "1 < ordinal d"
  shows "next_day (prev_day d) = d"
proof -
  obtain y m k where d: "d = Date y m k" by (cases d)
  have b: "1 \<le> m" "m \<le> 12" "1 \<le> k" "k \<le> month_days y m" "1 \<le> y" using v d by (simp_all add: valid_date_def)
  consider (k) "1 < k" | (m) "k = 1" "1 < m" | (y) "k = 1" "m = 1" using b by linarith
  then show ?thesis
  proof cases
    case k
    then have "k - 1 < month_days y m" "k - 1 + 1 = k" using b by linarith+
    then show ?thesis using k d by (simp add: prev_day_def next_day_def)
  next
    case m
    then show ?thesis using b d by (simp add: prev_day_def next_day_def)
  next
    case y
    then show ?thesis using b d by (simp add: prev_day_def next_day_def month_days_def)
  qed
qed

lemma ordinal_prev_day: "valid_date d \<Longrightarrow> 1 < ordinal d \<Longrightarrow> ordinal (prev_day d) = ordinal d - 1"
  using ordinal_next_day[OF prev_day_valid] next_prev_day by fastforce

lemma ordinal_pos: "valid_date d \<Longrightarrow> 1 \<le> ordinal d"
proof -
  assume v: "valid_date d"
  have "days_before_year 1 \<le> days_before_year (year d)" using v by (intro days_before_year_mono) (simp add: valid_date_def)
  then show ?thesis using ordinal_in_year(1)[OF v] by (simp add: days_before_year_def Let_def)
qed

lemma add_days_valid: "valid_date d \<Longrightarrow> 0 < ordinal d + n \<Longrightarrow> valid_date (add_days d n) \<and> ordinal (add_days d n) = ordinal d + n"
proof -
  assume v: "valid_date d" and pos: "0 < ordinal d + n"
  have up: "valid_date ((next_day ^^ k) d) \<and> ordinal ((next_day ^^ k) d) = ordinal d + int k" for k
    by (induction k) (simp_all add: v next_day_valid ordinal_next_day)
  have down: "int k < ordinal d \<Longrightarrow> valid_date ((prev_day ^^ k) d) \<and> ordinal ((prev_day ^^ k) d) = ordinal d - int k" for k
    by (induction k) (simp_all add: v prev_day_valid ordinal_prev_day)
  show ?thesis using up[of "nat n"] down[of "nat (- n)"] pos by (simp add: add_days_def)
qed

lemma add_days_ordinal:
  assumes "valid_date d" "valid_date e" "ordinal e = ordinal d + n"
  shows "add_days d n = e"
proof -
  have "valid_date (add_days d n) \<and> ordinal (add_days d n) = ordinal d + n"
    by (rule add_days_valid[OF assms(1)]) (use ordinal_pos[OF assms(2)] assms(3) in simp)
  then show ?thesis using assms ordinal_inject by metis
qed

lemma weekday_range: "0 \<le> weekday d" "weekday d < 7"
  by (simp_all add: weekday_def)

end
