(* ===== verification/Pay_Periods.thy ===== *)
theory Pay_Periods
  imports Money Calendar
begin

text \<open>
  \<^verbatim>\<open>core/pay_periods.py\<close>: which pay period a day belongs to.  For every cadence the periods tile the calendar: each
  day is in exactly one period, the neighbours meet without gap or overlap, and the daily close check
  fires on the first day after a period and on no other.
\<close>

section \<open>Cadences and periods\<close>

abbreviation "CADENCE_WEEKLY_MON \<equiv> ''weekly_mon''"
abbreviation "CADENCE_WEEKLY_SUN \<equiv> ''weekly_sun''"
abbreviation "CADENCE_BIWEEKLY \<equiv> ''biweekly''"
abbreviation "CADENCE_SEMIMONTHLY \<equiv> ''semimonthly''"

definition CADENCES :: "string list" where
  "CADENCES = [CADENCE_WEEKLY_MON, CADENCE_WEEKLY_SUN, CADENCE_BIWEEKLY, CADENCE_SEMIMONTHLY]"

definition DEFAULT_CADENCE :: string where
  "DEFAULT_CADENCE = CADENCE_WEEKLY_MON"

record pay_period =
  pp_start :: date
  pp_end :: date

definition pp_days :: "pay_period \<Rightarrow> int" where
  "pp_days p = days_between (pp_end p) (pp_start p) + 1"

definition pp_contains :: "pay_period \<Rightarrow> date \<Rightarrow> bool" where
  "pp_contains p d \<longleftrightarrow> pp_start p \<le> d \<and> d \<le> pp_end p"

definition normalize_cadence :: "string option \<Rightarrow> string" where
  "normalize_cadence value =
     (let text = lower (strip (case value of None \<Rightarrow> [] | Some s \<Rightarrow> s))
      in if text \<in> set CADENCES then text else DEFAULT_CADENCE)"

definition period_containing :: "date \<Rightarrow> string option \<Rightarrow> date option \<Rightarrow> exn + pay_period" where
  "period_containing d cadence anchor =
     (let c = normalize_cadence cadence in
      if c = CADENCE_WEEKLY_MON then
        let start = add_days d (- weekday d) in Inr \<lparr>pp_start = start, pp_end = add_days start 6\<rparr>
      else if c = CADENCE_WEEKLY_SUN then
        let start = add_days d (- ((weekday d + 1) mod 7)) in Inr \<lparr>pp_start = start, pp_end = add_days start 6\<rparr>
      else if c = CADENCE_BIWEEKLY then
        (case anchor of
           None \<Rightarrow> Inl PayPeriodUnconfigured
         | Some a \<Rightarrow>
             let index = days_between d a div 14;
                 start = add_days a (14 * index)
             in Inr \<lparr>pp_start = start, pp_end = add_days start 13\<rparr>)
      else if c = CADENCE_SEMIMONTHLY then
        (if day d \<le> 15 then Inr \<lparr>pp_start = Date (year d) (month d) 1, pp_end = Date (year d) (month d) 15\<rparr>
         else Inr \<lparr>pp_start = Date (year d) (month d) 16,
                   pp_end = Date (year d) (month d) (month_days (year d) (month d))\<rparr>)
      else Inl PayPeriodUnconfigured)"

definition previous_period :: "pay_period \<Rightarrow> string option \<Rightarrow> date option \<Rightarrow> exn + pay_period" where
  "previous_period p cadence anchor = period_containing (add_days (pp_start p) (- 1)) cadence anchor"

definition next_period :: "pay_period \<Rightarrow> string option \<Rightarrow> date option \<Rightarrow> exn + pay_period" where
  "next_period p cadence anchor = period_containing (add_days (pp_end p) 1) cadence anchor"

definition pay_date :: "pay_period \<Rightarrow> int option \<Rightarrow> date" where
  "pay_date p lag_days = add_days (pp_end p) (max 0 (case lag_days of None \<Rightarrow> 0 | Some n \<Rightarrow> n))"

record pay_settings =
  pay_period_cadence :: "string option"
  pay_period_anchor_start :: "date option"
  pay_period_pay_lag_days :: "int option"

definition current_period :: "date \<Rightarrow> pay_settings \<Rightarrow> exn + pay_period" where
  "current_period d settings =
     period_containing d (Some (normalize_cadence (pay_period_cadence settings))) (pay_period_anchor_start settings)"

definition is_close_day :: "date \<Rightarrow> pay_settings \<Rightarrow> exn + pay_period option" where
  "is_close_day d settings =
     (let yesterday = add_days d (- 1) in
      bindR (period_containing yesterday (Some (normalize_cadence (pay_period_cadence settings)))
               (pay_period_anchor_start settings)) (\<lambda>p.
      Inr (if pp_end p = yesterday then Some p else None)))"

section \<open>Recipients\<close>

definition is_separator :: "char \<Rightarrow> bool" where
  "is_separator c \<longleftrightarrow> c = CHR '','' \<or> c = CHR '';'' \<or> c = CHR 0x0A"

function split_recipients :: "string \<Rightarrow> string list" where
  "split_recipients s =
     (let chunk = takeWhile (\<lambda>c. \<not> is_separator c) s; rest = dropWhile (\<lambda>c. \<not> is_separator c) s
      in if rest = [] then [chunk] else chunk # split_recipients (dropWhile is_separator rest))"
  by pat_completeness auto
termination
proof (relation "measure length")
  fix s chunk rest :: string
  assume "chunk = takeWhile (\<lambda>c. \<not> is_separator c) s" and rest: "rest = dropWhile (\<lambda>c. \<not> is_separator c) s" "rest \<noteq> []"
  then obtain c cs where c: "rest = c # cs" "is_separator c" by (metis hd_dropWhile list.exhaust_sel)
  have "length (dropWhile is_separator cs) \<le> length cs" "length rest \<le> length s"
    using rest by (simp_all add: length_dropWhile_le)
  then show "(dropWhile is_separator rest, s) \<in> measure length" using c by simp
qed simp

declare split_recipients.simps [simp del]

primrec dedupe :: "string list \<Rightarrow> string list \<Rightarrow> string list" where
  "dedupe seen [] = []"
| "dedupe seen (c # cs) =
     (let addr = strip c in
      if addr = [] \<or> lower addr \<in> set seen then dedupe seen cs else addr # dedupe (lower addr # seen) cs)"

definition parse_recipient_emails :: "string option \<Rightarrow> string list" where
  "parse_recipient_emails raw = dedupe [] (split_recipients (case raw of None \<Rightarrow> [] | Some s \<Rightarrow> s))"

section \<open>Fixed spans\<close>

text \<open>The spans of length \<open>L\<close> counted from ordinal \<open>b\<close>: where the one around ordinal \<open>n\<close> starts.\<close>

definition span_start :: "int \<Rightarrow> int \<Rightarrow> int \<Rightarrow> int" where
  "span_start b L n = b + L * ((n - b) div L)"

lemma span_start_bounds: "0 < L \<Longrightarrow> span_start b L n \<le> n \<and> n < span_start b L n + L"
proof -
  assume L: "0 < L"
  have "n - b = L * ((n - b) div L) + (n - b) mod L" by simp
  moreover have "0 \<le> (n - b) mod L" "(n - b) mod L < L" using L by simp_all
  ultimately show ?thesis unfolding span_start_def by linarith
qed

lemma span_start_unique: "0 < L \<Longrightarrow> span_start b L n \<le> m \<Longrightarrow> m < span_start b L n + L \<Longrightarrow> span_start b L m = span_start b L n"
proof -
  assume L: "0 < L" and m: "span_start b L n \<le> m" "m < span_start b L n + L"
  let ?q = "(n - b) div L"
  have "m - b = L * ?q + (m - span_start b L n)" by (simp add: span_start_def)
  then have "(m - b) div L = ?q"
    using L m by (intro int_div_pos_eq[where r = "m - span_start b L n"]) simp_all
  then show ?thesis by (simp add: span_start_def)
qed

definition span_period :: "pay_period \<Rightarrow> int \<Rightarrow> int \<Rightarrow> date \<Rightarrow> bool" where
  "span_period p b L d \<longleftrightarrow> valid_date (pp_start p) \<and> valid_date (pp_end p) \<and>
     ordinal (pp_start p) = span_start b L (ordinal d) \<and> ordinal (pp_end p) = span_start b L (ordinal d) + L - 1"

lemma pp_contains_ordinal:
  "valid_date (pp_start p) \<Longrightarrow> valid_date (pp_end p) \<Longrightarrow> valid_date d \<Longrightarrow>
   pp_contains p d \<longleftrightarrow> ordinal (pp_start p) \<le> ordinal d \<and> ordinal d \<le> ordinal (pp_end p)"
  by (simp add: pp_contains_def ordinal_le_iff)

lemma period_eqI:
  "valid_date (pp_start p) \<Longrightarrow> valid_date (pp_start q) \<Longrightarrow> valid_date (pp_end p) \<Longrightarrow> valid_date (pp_end q) \<Longrightarrow>
   ordinal (pp_start p) = ordinal (pp_start q) \<Longrightarrow> ordinal (pp_end p) = ordinal (pp_end q) \<Longrightarrow> p = (q :: pay_period)"
  using ordinal_inject[of "pp_start p" "pp_start q"] ordinal_inject[of "pp_end p" "pp_end q"] by simp

lemma span_period_tiles:
  assumes "span_period p b L d" "span_period q b L e" "0 < L" "valid_date d" "valid_date e"
  shows "pp_contains p d \<and> (p = q \<longleftrightarrow> pp_contains p e)"
proof -
  note P = assms(1)[unfolded span_period_def] and Q = assms(2)[unfolded span_period_def]
  have "p = q" if "pp_contains p e"
  proof -
    have "span_start b L (ordinal e) = span_start b L (ordinal d)"
      using that P pp_contains_ordinal[of p e] assms(3,5) by (intro span_start_unique) auto
    then show ?thesis using P Q by (intro period_eqI) auto
  qed
  moreover have "pp_contains q e" "pp_contains p d"
    using P Q span_start_bounds[OF assms(3)] pp_contains_ordinal assms(4,5) by force+
  ultimately show ?thesis by auto
qed

text \<open>Every period of the three counted cadences is such a span.\<close>

definition span_base :: "string \<Rightarrow> date option \<Rightarrow> (int \<times> int) option" where
  "span_base c anchor =
     (if c = CADENCE_WEEKLY_MON then Some (1, 7) else if c = CADENCE_WEEKLY_SUN then Some (0, 7)
      else if c = CADENCE_BIWEEKLY then map_option (\<lambda>a. (ordinal a, 14)) anchor else None)"

lemma mod_span: "n - (n - b) mod L = span_start b L n" for n b L :: int
proof -
  have "n - b = L * ((n - b) div L) + (n - b) mod L" by simp
  then show ?thesis unfolding span_start_def by linarith
qed

lemma weekday_spans: "ordinal d - weekday d = span_start 1 7 (ordinal d)" "ordinal d - (weekday d + 1) mod 7 = span_start 0 7 (ordinal d)"
proof -
  have "ordinal d + 6 = ordinal d - 1 + 7" by simp
  then have "weekday d = (ordinal d - 1) mod 7" unfolding weekday_def by (simp only: mod_add_self2)
  then show "ordinal d - weekday d = span_start 1 7 (ordinal d)" using mod_span[of "ordinal d" 1 7] by simp
  have "ordinal d + 6 + 1 = ordinal d - 0 + 7" by simp
  then have "(weekday d + 1) mod 7 = (ordinal d - 0) mod 7" unfolding weekday_def by (simp only: mod_add_left_eq mod_add_self2)
  then show "ordinal d - (weekday d + 1) mod 7 = span_start 0 7 (ordinal d)" using mod_span[of "ordinal d" 0 7] by simp
qed

lemma span_from:
  assumes "valid_date x" "ordinal x + k = span_start b L n" "0 < L" "L \<le> n"
    and p: "p = \<lparr>pp_start = add_days x k, pp_end = add_days (add_days x k) (L - 1)\<rparr>" "ordinal d = n"
  shows "span_period p b L d"
proof -
  have pos: "0 < span_start b L n" using span_start_bounds[OF assms(3), of b n] assms(4) by linarith
  then have s: "valid_date (add_days x k)" "ordinal (add_days x k) = span_start b L n"
    using add_days_valid[OF assms(1), of k] assms(2) by simp_all
  then have "valid_date (add_days (add_days x k) (L - 1))" "ordinal (add_days (add_days x k) (L - 1)) = span_start b L n + (L - 1)"
    using add_days_valid[OF s(1), of "L - 1"] pos assms(3) by simp_all
  then show ?thesis using s p by (simp add: span_period_def)
qed

lemma counted_period:
  assumes base: "span_base (normalize_cadence c) anchor = Some (b, L)" and d: "valid_date d" "14 \<le> ordinal d"
    and a: "\<And>x. anchor = Some x \<Longrightarrow> valid_date x"
  shows "\<exists>p. period_containing d c anchor = Inr p \<and> span_period p b L d \<and> 0 < L"
proof -
  consider (mon) "normalize_cadence c = CADENCE_WEEKLY_MON" "b = 1" "L = 7"
    | (sun) "normalize_cadence c = CADENCE_WEEKLY_SUN" "b = 0" "L = 7"
    | (bi) x where "normalize_cadence c = CADENCE_BIWEEKLY" "anchor = Some x" "b = ordinal x" "L = 14"
    using base by (auto simp: span_base_def split: if_splits)
  then show ?thesis
  proof cases
    case mon
    have "span_period \<lparr>pp_start = add_days d (- weekday d), pp_end = add_days (add_days d (- weekday d)) (7 - 1)\<rparr> 1 7 d"
      by (rule span_from[OF d(1), of _ _ _ "ordinal d"]) (use weekday_spans(1)[of d] d in simp_all)
    then show ?thesis using mon by (simp add: period_containing_def Let_def)
  next
    case sun
    have "span_period \<lparr>pp_start = add_days d (- ((weekday d + 1) mod 7)),
        pp_end = add_days (add_days d (- ((weekday d + 1) mod 7))) (7 - 1)\<rparr> 0 7 d"
      by (rule span_from[OF d(1), of _ _ _ "ordinal d"]) (use weekday_spans(2)[of d] d in simp_all)
    then show ?thesis using sun by (simp add: period_containing_def Let_def)
  next
    case bi
    let ?k = "14 * (days_between d x div 14)"
    have "span_period \<lparr>pp_start = add_days x ?k, pp_end = add_days (add_days x ?k) (14 - 1)\<rparr> (ordinal x) 14 d"
      by (rule span_from[OF a[OF bi(2)], of _ _ _ "ordinal d"]) (use d in \<open>simp_all add: span_start_def days_between_def\<close>)
    then show ?thesis using bi by (simp add: period_containing_def Let_def)
  qed
qed

lemma in_month: "Date y m lo \<le> e \<and> e \<le> Date y m hi \<longleftrightarrow> year e = y \<and> month e = m \<and> lo \<le> day e \<and> day e \<le> hi"
  by (auto simp: less_eq_date_def)

lemma semimonthly_period:
  assumes c: "normalize_cadence c = CADENCE_SEMIMONTHLY" and d: "valid_date d"
  shows "\<exists>p. period_containing d c anchor = Inr p \<and> valid_date (pp_start p) \<and> valid_date (pp_end p) \<and> pp_contains p d \<and>
    (\<forall>e q. valid_date e \<longrightarrow> period_containing e c anchor = Inr q \<longrightarrow> (p = q \<longleftrightarrow> pp_contains p e))"
proof -
  define half where "half = (\<lambda>x. if day x \<le> 15 then \<lparr>pp_start = Date (year x) (month x) 1, pp_end = Date (year x) (month x) 15\<rparr>
    else \<lparr>pp_start = Date (year x) (month x) 16, pp_end = Date (year x) (month x) (month_days (year x) (month x))\<rparr>)"
  have run: "period_containing x c anchor = Inr (half x)" for x
    unfolding period_containing_def Let_def c half_def by simp
  have "valid_date (pp_start (half d))" "valid_date (pp_end (half d))"
    using month_days_pos[of "year d" "month d"] d by (simp_all add: half_def valid_date_def)
  moreover have "pp_contains (half d) d" using d by (simp add: half_def pp_contains_def valid_date_def in_month)
  moreover have "half d = half e \<longleftrightarrow> year e = year d \<and> month e = month d \<and> (day e \<le> 15 \<longleftrightarrow> day d \<le> 15)" for e
    by (auto simp: half_def)
  moreover have "pp_contains (half d) e \<longleftrightarrow> year e = year d \<and> month e = month d \<and> (day e \<le> 15 \<longleftrightarrow> day d \<le> 15)" if "valid_date e" for e
    using that by (cases "day d \<le> 15") (auto simp: half_def pp_contains_def valid_date_def in_month)
  ultimately show ?thesis using run by simp
qed

lemma normalize_cadence_in: "normalize_cadence c \<in> set CADENCES"
  by (simp add: normalize_cadence_def Let_def DEFAULT_CADENCE_def CADENCES_def)

text \<open>A configuration that can answer, and a day late enough that its period has a first day.\<close>

definition pay_configured :: "string option \<Rightarrow> date option \<Rightarrow> bool" where
  "pay_configured c anchor \<longleftrightarrow>
     (case anchor of None \<Rightarrow> normalize_cadence c \<noteq> CADENCE_BIWEEKLY | Some a \<Rightarrow> valid_date a)"

lemma pay_configuredD: "pay_configured c anchor \<Longrightarrow> anchor = Some x \<Longrightarrow> valid_date x"
  by (simp add: pay_configured_def)

definition payable_day :: "date \<Rightarrow> bool" where
  "payable_day d \<longleftrightarrow> valid_date d \<and> 14 \<le> ordinal d"

lemma period_total:
  assumes "pay_configured c anchor" "payable_day d"
  shows "\<exists>p. period_containing d c anchor = Inr p \<and> valid_date (pp_start p) \<and> valid_date (pp_end p) \<and> pp_contains p d"
proof (cases "span_base (normalize_cadence c) anchor")
  case None
  then have "normalize_cadence c = CADENCE_SEMIMONTHLY"
    using normalize_cadence_in[of c] assms(1) by (auto simp: span_base_def CADENCES_def pay_configured_def split: if_splits option.splits)
  then show ?thesis using semimonthly_period[of c d anchor] assms(2) by (auto simp: payable_day_def)
next
  case (Some x)
  obtain b L where x: "x = (b, L)" by fastforce
  obtain p where p: "period_containing d c anchor = Inr p" "span_period p b L d" "0 < L"
    using counted_period[OF Some[unfolded x] _ _ pay_configuredD[OF assms(1)]] assms(2) unfolding payable_day_def by blast
  then show ?thesis
    using span_period_tiles[OF p(2) p(2) p(3)] assms(2) by (auto simp: span_period_def payable_day_def)
qed

lemma period_tiles:
  assumes "pay_configured c anchor" "payable_day d" "payable_day e"
    and p: "period_containing d c anchor = Inr p" and q: "period_containing e c anchor = Inr q"
  shows "p = q \<longleftrightarrow> pp_contains p e"
proof (cases "span_base (normalize_cadence c) anchor")
  case None
  then have "normalize_cadence c = CADENCE_SEMIMONTHLY"
    using normalize_cadence_in[of c] assms(1) by (auto simp: span_base_def CADENCES_def pay_configured_def split: if_splits option.splits)
  then show ?thesis using semimonthly_period[of c d anchor] assms by (auto simp: payable_day_def)
next
  case (Some x)
  obtain b L where x: "x = (b, L)" by fastforce
  have "span_period p b L d" "span_period q b L e" "0 < L"
    using counted_period[OF Some[unfolded x] _ _ pay_configuredD[OF assms(1)], of d]
      counted_period[OF Some[unfolded x] _ _ pay_configuredD[OF assms(1)], of e] assms(2,3) p q
    by (simp_all add: payable_day_def)
  from span_period_tiles[OF this] show ?thesis using assms(2,3) by (simp add: payable_day_def)
qed

text \<open>
  Pay periods tile the calendar.  For every cadence, with an anchor where it needs one, each day from
  the second fortnight of year one on has a period that contains it, and two days have the same period
  exactly when the period of one contains the other: no day is in two periods and none is left out.
\<close>

theorem pay_periods_tile:
  assumes "pay_configured c anchor" "payable_day d" "payable_day e"
  shows "\<exists>p q. period_containing d c anchor = Inr p \<and> period_containing e c anchor = Inr q \<and>
    pp_contains p d \<and> pp_contains q e \<and> (p = q \<longleftrightarrow> pp_contains p e) \<and> (p = q \<longleftrightarrow> pp_contains q d)"
proof -
  obtain p q where p: "period_containing d c anchor = Inr p" "pp_contains p d"
    and q: "period_containing e c anchor = Inr q" "pp_contains q e"
    using period_total[OF assms(1,2)] period_total[OF assms(1,3)] by blast
  then show ?thesis using period_tiles[OF assms p(1) q(1)] period_tiles[OF assms(1,3,2) q(1) p(1)] by metis
qed

lemmas date_eval = valid_date_def month_days_def leap_def ordinal_def days_before_year_def days_before_month_def Let_def upt_rec

theorem pay_periods_tile_witness:
  "\<exists>p. period_containing (Date 2026 3 5) (Some ''biweekly'') (Some (Date 2026 3 2)) = Inr p \<and> pp_contains p (Date 2026 3 5) \<and>
     period_containing (Date 2026 3 15) (Some ''biweekly'') (Some (Date 2026 3 2)) = Inr p"
proof -
  let ?a = "Date 2026 3 2"
  have v: "valid_date ?a" "ordinal ?a = 739677" "payable_day (Date 2026 3 5)" "payable_day (Date 2026 3 15)"
    "ordinal (Date 2026 3 5) = 739680"
    by (simp_all add: date_eval payable_day_def)
  have n: "normalize_cadence (Some ''biweekly'') = CADENCE_BIWEEKLY" by code_simp
  have "add_days ?a 13 = Date 2026 3 15" "add_days ?a 0 = ?a"
    by (rule add_days_ordinal; simp add: date_eval)+
  then have p: "period_containing (Date 2026 3 5) (Some ''biweekly'') (Some ?a) = Inr \<lparr>pp_start = ?a, pp_end = Date 2026 3 15\<rparr>"
    using v by (simp add: period_containing_def n days_between_def)
  have "pay_configured (Some ''biweekly'') (Some ?a)" using v by (simp add: pay_configured_def)
  from pay_periods_tile[OF this v(3,4)] p show ?thesis by (auto simp: pp_contains_def less_eq_date_def)
qed

text \<open>The day after a period starts the next one.\<close>

lemma period_of_end:
  assumes "pay_configured c anchor" "payable_day d" "period_containing d c anchor = Inr p"
  shows "payable_day (pp_end p)" "period_containing (pp_end p) c anchor = Inr p" "valid_date (pp_end p)"
proof -
  obtain p' where "period_containing d c anchor = Inr p'" "valid_date (pp_start p')" "valid_date (pp_end p')" "pp_contains p' d"
    using period_total[OF assms(1,2)] by blast
  then have p: "valid_date (pp_end p)" "pp_contains p d" using assms(3) by auto
  then have "ordinal d \<le> ordinal (pp_end p)" using assms(2) by (simp add: pp_contains_def ordinal_le_iff payable_day_def)
  then show e: "payable_day (pp_end p)" "valid_date (pp_end p)" using p assms(2) by (simp_all add: payable_day_def)
  obtain q where q: "period_containing (pp_end p) c anchor = Inr q" using period_total[OF assms(1) e(1)] by blast
  moreover have "pp_contains p (pp_end p)" using p(2) by (auto simp: pp_contains_def)
  ultimately show "period_containing (pp_end p) c anchor = Inr p" using period_tiles[OF assms(1,2) e(1) assms(3) q] by simp
qed

text \<open>
  Neighbouring periods meet.  The next period starts on the day after the end, the period before that
  one is the first again, and the daily close check reports a period on the day after its end and
  nothing on the days before.
\<close>

theorem pay_periods_meet:
  assumes cfg: "pay_configured (pay_period_cadence s) (pay_period_anchor_start s)" and d: "payable_day d"
    and p: "period_containing d (pay_period_cadence s) (pay_period_anchor_start s) = Inr p"
  shows "\<exists>q. next_period p (pay_period_cadence s) (pay_period_anchor_start s) = Inr q \<and> pp_start q = add_days (pp_end p) 1 \<and>
    previous_period q (pay_period_cadence s) (pay_period_anchor_start s) = Inr p \<and>
    is_close_day (pp_start q) s = Inr (Some p) \<and>
    (\<forall>e. payable_day e \<and> pp_contains p e \<and> e \<noteq> pp_end p \<longrightarrow> is_close_day (add_days e 1) s = Inr None)"
proof -
  let ?c = "pay_period_cadence s" and ?a = "pay_period_anchor_start s"
  let ?e = "add_days (pp_end p) 1"
  note E = period_of_end[OF cfg d p]
  have e: "valid_date ?e" "ordinal ?e = ordinal (pp_end p) + 1" using add_days_valid[OF E(3), of 1] ordinal_pos[OF E(3)] by simp_all
  then have pe: "payable_day ?e" using E(1) by (simp add: payable_day_def)
  obtain q where q: "period_containing ?e ?c ?a = Inr q" "valid_date (pp_start q)" "valid_date (pp_end q)" "pp_contains q ?e"
    using period_total[OF cfg pe] by blast
  have start: "pp_start q = ?e"
  proof (rule ccontr)
    assume "pp_start q \<noteq> ?e"
    then have "pp_start q < ?e" using q(4) unfolding pp_contains_def by (metis order_le_imp_less_or_eq)
    then have "ordinal (pp_start q) \<le> ordinal (pp_end p)" using ordinal_less_iff[OF q(2) e(1)] e(2) by simp
    moreover have "ordinal (pp_end p) \<le> ordinal (pp_end q)" using q(3,4) e by (simp add: pp_contains_def flip: ordinal_le_iff)
    ultimately have "pp_contains q (pp_end p)" using pp_contains_ordinal[OF q(2,3) E(3)] by simp
    then have "q = p" using period_tiles[OF cfg pe E(1) q(1) E(2)] by simp
    then have "ordinal ?e \<le> ordinal (pp_end p)" using q(4) e(1) E(3) by (simp add: pp_contains_def ordinal_le_iff)
    then show False using e(2) by simp
  qed
  have undone: "add_days (add_days x 1) (- 1) = x" if "valid_date x" for x
  proof -
    have "valid_date (add_days x 1)" "ordinal (add_days x 1) = ordinal x + 1"
      using add_days_valid[OF that, of 1] ordinal_pos[OF that] by simp_all
    then show ?thesis using add_days_ordinal[OF _ that] by simp
  qed
  have normal: "period_containing x (Some (normalize_cadence ?c)) ?a = period_containing x ?c ?a" for x
  proof -
    have "list_all (\<lambda>k. normalize_cadence (Some k) = k) CADENCES" by code_simp
    then have "normalize_cadence (Some (normalize_cadence ?c)) = normalize_cadence ?c"
      using normalize_cadence_in[of ?c] by (simp add: list_all_iff)
    then show ?thesis by (simp add: period_containing_def)
  qed
  have inside: "is_close_day (add_days x 1) s = Inr None" if x: "payable_day x" "pp_contains p x" "x \<noteq> pp_end p" for x
  proof -
    obtain r where r: "period_containing x ?c ?a = Inr r" using period_total[OF cfg x(1)] by blast
    then have "p = r" using period_tiles[OF cfg d x(1) p r] x(2) by simp
    then show ?thesis using r x undone[of x] normal by (simp add: is_close_day_def Let_def payable_day_def)
  qed
  show ?thesis
    using q(1) start E(2) undone[OF E(3)] inside normal
    by (intro exI[of _ q]) (simp add: next_period_def previous_period_def is_close_day_def Let_def)
qed

definition sample_pay_settings :: pay_settings where
  "sample_pay_settings = \<lparr>pay_period_cadence = Some ''Semimonthly '', pay_period_anchor_start = None, pay_period_pay_lag_days = Some 5\<rparr>"

theorem pay_periods_meet_witness:
  "\<exists>q. next_period \<lparr>pp_start = Date 2026 2 16, pp_end = Date 2026 2 28\<rparr> (pay_period_cadence sample_pay_settings) None = Inr q \<and>
     pp_start q = Date 2026 3 1"
proof -
  have n: "normalize_cadence (pay_period_cadence sample_pay_settings) = CADENCE_SEMIMONTHLY" by code_simp
  have a: "pay_period_anchor_start sample_pay_settings = None" by (simp add: sample_pay_settings_def)
  have *: "pay_configured (pay_period_cadence sample_pay_settings) (pay_period_anchor_start sample_pay_settings)"
    "payable_day (Date 2026 2 20)"
    by (simp_all add: pay_configured_def n a payable_day_def date_eval)
  have p: "period_containing (Date 2026 2 20) (pay_period_cadence sample_pay_settings) (pay_period_anchor_start sample_pay_settings) =
       Inr \<lparr>pp_start = Date 2026 2 16, pp_end = Date 2026 2 28\<rparr>"
    by (simp add: period_containing_def n month_days_def leap_def)
  have "add_days (Date 2026 2 28) 1 = Date 2026 3 1" by (rule add_days_ordinal; simp add: date_eval)
  with pay_periods_meet[OF * p] a show ?thesis by auto
qed

end
