(* ===== verification/Decimals.thy ===== *)
theory Decimals
  imports Ledger_Models
begin

text \<open>
  Python's \<^verbatim>\<open>decimal\<close> arithmetic under the default context: a precision of 28 digits, rounding half to even, and the
  signals of infinities and NaNs.  The money columns of the program are NUMERIC(12, 2); on their values the arithmetic is
  exact, which is what the lemmas show.  The exponent limits of the context are far outside what such columns reach and
  are left out.
\<close>

section \<open>Rounding to the context\<close>

fun digits10 :: "nat \<Rightarrow> nat" where
  "digits10 n = (if n < 10 then 1 else Suc (digits10 (n div 10)))"

declare digits10.simps [simp del]

text \<open>\<open>c / d\<close> rounded to the nearest integer, ties to the even one.\<close>

definition half_even :: "int \<Rightarrow> int \<Rightarrow> int" where
  "half_even c d = (let q = c div d; r = c mod d in if 2 * r < d \<or> 2 * r = d \<and> even q then q else q + 1)"

fun ctx28 :: "decimal \<Rightarrow> decimal" where
  "ctx28 (Fin c e) =
     (if \<bar>c\<bar> < 10 ^ 28 then Fin c e
      else let k = digits10 (nat \<bar>c\<bar>) - 28; q = half_even c (10 ^ k) in
           if \<bar>q\<bar> = 10 ^ 28 then Fin (sgn c * 10 ^ 27) (e + int k + 1) else Fin q (e + int k))"
| "ctx28 d = d"

section \<open>Operators\<close>

fun dec_neg :: "decimal \<Rightarrow> decimal" where
  "dec_neg (Fin c e) = Fin (- c) e"
| "dec_neg (Inf b) = Inf (\<not> b)"
| "dec_neg NaN = NaN"

fun dec_plus :: "decimal \<Rightarrow> decimal \<Rightarrow> exn + decimal" where
  "dec_plus (Fin a e) (Fin b f) =
     (let m = min e f in Inr (ctx28 (Fin (a * 10 ^ nat (e - m) + b * 10 ^ nat (f - m)) m)))"
| "dec_plus NaN _ = Inr NaN"
| "dec_plus _ NaN = Inr NaN"
| "dec_plus (Inf x) (Inf y) = (if x = y then Inr (Inf x) else Inl InvalidOperation)"
| "dec_plus (Inf x) _ = Inr (Inf x)"
| "dec_plus _ (Inf y) = Inr (Inf y)"

definition dec_minus :: "decimal \<Rightarrow> decimal \<Rightarrow> exn + decimal" where
  "dec_minus a b = dec_plus a (dec_neg b)"

fun dec_times :: "decimal \<Rightarrow> decimal \<Rightarrow> exn + decimal" where
  "dec_times (Fin a e) (Fin b f) = Inr (ctx28 (Fin (a * b) (e + f)))"
| "dec_times NaN _ = Inr NaN"
| "dec_times _ NaN = Inr NaN"
| "dec_times (Inf x) (Inf y) = Inr (Inf (x = y))"
| "dec_times (Inf x) (Fin b f) = (if b = 0 then Inl InvalidOperation else Inr (Inf (x = (0 < b))))"
| "dec_times (Fin a e) (Inf y) = (if a = 0 then Inl InvalidOperation else Inr (Inf (y = (0 < a))))"

fun dec_abs :: "decimal \<Rightarrow> decimal" where
  "dec_abs (Fin c e) = ctx28 (Fin \<bar>c\<bar> e)"
| "dec_abs (Inf _) = Inf True"
| "dec_abs NaN = NaN"

text \<open>\<^verbatim>\<open>a <= b\<close>: an ordering comparison with a NaN signals InvalidOperation.\<close>

fun dec_le :: "decimal \<Rightarrow> decimal \<Rightarrow> exn + bool" where
  "dec_le (Fin a e) (Fin b f) = (let m = min e f in Inr (a * 10 ^ nat (e - m) \<le> b * 10 ^ nat (f - m)))"
| "dec_le NaN _ = Inl InvalidOperation"
| "dec_le _ NaN = Inl InvalidOperation"
| "dec_le (Inf x) (Inf y) = Inr (x \<longrightarrow> y)"
| "dec_le (Inf x) (Fin _ _) = Inr (\<not> x)"
| "dec_le (Fin _ _) (Inf y) = Inr y"

text \<open>\<^verbatim>\<open>sum(xs, Decimal("0"))\<close>.\<close>

fun dec_sum_from :: "decimal \<Rightarrow> decimal list \<Rightarrow> exn + decimal" where
  "dec_sum_from acc [] = Inr acc"
| "dec_sum_from acc (x # xs) = bindR (dec_plus acc x) (\<lambda>s. dec_sum_from s xs)"

definition dec_sum :: "decimal list \<Rightarrow> exn + decimal" where
  "dec_sum xs = dec_sum_from (Fin 0 0) xs"

section \<open>Money columns\<close>

text \<open>A value of a NUMERIC(12, 2) column: NULL, or a number of cents with at most twelve digits.\<close>

definition is_money :: "decimal option \<Rightarrow> bool" where
  "is_money v \<longleftrightarrow> (case v of None \<Rightarrow> True | Some (Fin c e) \<Rightarrow> e = -2 \<and> \<bar>c\<bar> < 10 ^ 12 | _ \<Rightarrow> False)"

definition money_cents :: "decimal option \<Rightarrow> int" where
  "money_cents v = (case v of Some (Fin c e) \<Rightarrow> c | _ \<Rightarrow> 0)"

definition at_cents :: "decimal \<Rightarrow> int \<Rightarrow> bool" where
  "at_cents d c \<longleftrightarrow> d = Fin c (-2) \<or> c = 0 \<and> d = Fin 0 0"

lemma is_money_cases:
  assumes "is_money v"
  obtains "v = None" "money_cents v = 0" | c where "v = Some (cents c)" "money_cents v = c" "\<bar>c\<bar> < 10 ^ 12"
  using assms by (auto simp: is_money_def money_cents_def cents_def split: option.splits decimal.splits)

lemma money_cents_bound: "is_money v \<Longrightarrow> \<bar>money_cents v\<bar> < 10 ^ 12"
  by (erule is_money_cases) auto

lemma at_cents_dec: "is_money v \<Longrightarrow> at_cents (dec v) (money_cents v)"
  by (erule is_money_cases) (auto simp: at_cents_def dec_def cents_def)

lemma col_cents_money: "is_money v \<Longrightarrow> col_cents v = Inr (money_cents v)"
  by (erule is_money_cases) simp_all

lemma at_cents_plus:
  assumes "at_cents a x" "at_cents b y" "\<bar>x + y\<bar> < 10 ^ 28"
  shows "\<exists>d. dec_plus a b = Inr d \<and> at_cents d (x + y)"
  using assms by (auto simp: at_cents_def)

lemma at_cents_neg: "at_cents a x \<Longrightarrow> at_cents (dec_neg a) (- x)"
  by (auto simp: at_cents_def)

lemma at_cents_minus:
  assumes "at_cents a x" "at_cents b y" "\<bar>x - y\<bar> < 10 ^ 28"
  shows "\<exists>d. dec_minus a b = Inr d \<and> at_cents d (x - y)"
  using at_cents_plus[OF assms(1) at_cents_neg[OF assms(2)]] assms(3) by (simp add: dec_minus_def)

lemma at_cents_sum_from:
  assumes "at_cents acc a" "\<forall>v \<in> set vs. is_money v" "\<bar>a\<bar> + int (length vs) * 10 ^ 12 < 10 ^ 28"
  shows "\<exists>d. dec_sum_from acc (map dec vs) = Inr d \<and> at_cents d (a + sum_list (map money_cents vs))"
  using assms
proof (induction vs arbitrary: acc a)
  case (Cons v vs)
  have b: "\<bar>money_cents v\<bar> < 10 ^ 12" using Cons.prems(2) money_cents_bound by simp
  have len: "\<bar>a\<bar> + (int (length vs) * 10 ^ 12 + 10 ^ 12) < 10 ^ 28" using Cons.prems(3) by (simp add: algebra_simps)
  have nn: "0 \<le> int (length vs) * 10 ^ 12" by simp
  then have "\<bar>a + money_cents v\<bar> < 10 ^ 28" using b len by linarith
  then obtain d where d: "dec_plus acc (dec v) = Inr d" "at_cents d (a + money_cents v)"
    using at_cents_plus[OF Cons.prems(1) at_cents_dec] Cons.prems(2) by force
  have "\<bar>a + money_cents v\<bar> + int (length vs) * 10 ^ 12 < 10 ^ 28" using b len by linarith
  from Cons.IH[OF d(2) _ this] Cons.prems(2) show ?case by (auto simp: d(1) add.assoc)
qed simp

lemma at_cents_sum:
  assumes "\<forall>v \<in> set vs. is_money v" "length vs < 10 ^ 15"
  shows "\<exists>d. dec_sum (map dec vs) = Inr d \<and> at_cents d (sum_list (map money_cents vs))"
proof -
  have "at_cents (Fin 0 0) 0" by (simp add: at_cents_def)
  moreover have "int (length vs) * 10 ^ 12 < 10 ^ 28" using assms(2) by simp
  ultimately show ?thesis using at_cents_sum_from[of "Fin 0 0" 0 vs] assms(1) by (simp add: dec_sum_def)
qed

text \<open>Half a cent of tolerance between two amounts in cents is equality.\<close>

lemma at_cents_within_half:
  assumes "at_cents d c" "\<bar>c\<bar> < 10 ^ 28"
  shows "dec_le (dec_abs d) (Fin 5 (-3)) = Inr (c = 0)"
  using assms by (auto simp: at_cents_def)

end
