(* ===== verification/Rules_Base.thy ===== *)
theory Rules_Base
  imports Ledger_Service
begin

text \<open>
  The first part of \<^verbatim>\<open>modules/ledger/rules.py\<close>: the journal queries, dates and cutover arithmetic that the
  posting rules share.  The lemmas relate the queries to the journal: what a \<^verbatim>\<open>LIKE\<close> pattern on a
  well-formed journal selects, and that the opening balance of an invoice depends only on rows that
  existed at the cutover.
\<close>

section \<open>Text\<close>

text \<open>Non-ASCII punctuation of the memo texts, in UTF-8.\<close>

definition em_dash :: string where
  "em_dash = [CHR 0xE2, CHR 0x80, CHR 0x94]"

definition right_arrow :: string where
  "right_arrow = [CHR 0xE2, CHR 0x86, CHR 0x92]"

definition minus_sign :: string where
  "minus_sign = [CHR 0xE2, CHR 0x88, CHR 0x92]"

text \<open>An f-string renders a missing value as \<^verbatim>\<open>None\<close>; \<open>x or d\<close> replaces a missing or empty one.\<close>

definition fmt :: "string option \<Rightarrow> string" where
  "fmt v = (case v of None \<Rightarrow> ''None'' | Some s \<Rightarrow> s)"

definition or_str :: "string option \<Rightarrow> string \<Rightarrow> string" where
  "or_str v d = (case v of None \<Rightarrow> d | Some s \<Rightarrow> if s = [] then d else s)"

definition fmt_date :: "date option \<Rightarrow> string" where
  "fmt_date v = (case v of None \<Rightarrow> ''None'' | Some d \<Rightarrow> isoformat d)"

section \<open>Reading a UUID\<close>

text \<open>
  \<^verbatim>\<open>UUID(str(x))\<close>: the optional prefixes, braces and dashes are dropped and 32 hexadecimal digits must
  remain; \<open>None\<close> is the ValueError.
\<close>

fun remove_all :: "string \<Rightarrow> string \<Rightarrow> string" where
  "remove_all p [] = []"
| "remove_all p (c # s) =
     (if p \<noteq> [] \<and> prefix p (c # s) then remove_all p (drop (length p) (c # s)) else c # remove_all p s)"

definition strip_braces :: "string \<Rightarrow> string" where
  "strip_braces s = (let b = (\<lambda>c. c = CHR 0x7B \<or> c = CHR 0x7D) in rev (dropWhile b (rev (dropWhile b s))))"

definition parse_uuid :: "string \<Rightarrow> uuid option" where
  "parse_uuid s =
     (let h = filter (\<lambda>c. c \<noteq> CHR ''-'') (strip_braces (remove_all ''uuid:'' (remove_all ''urn:'' s)));
          l = lower h
      in if length l = 32 \<and> list_all is_hex l then Some (str_hex l) else None)"

section \<open>Statuses and events\<close>

definition ISSUED_STATUSES :: "invoice_status list" where
  "ISSUED_STATUSES = [Sent, Paid]"

definition RECEIVABLE_STATUSES :: "invoice_status list" where
  "RECEIVABLE_STATUSES = ISSUED_STATUSES @ [Overdue]"

abbreviation "EVENT_ISSUED \<equiv> ''issued''"
abbreviation "EVENT_PAYMENT \<equiv> ''received''"
abbreviation "EVENT_ERA_SETTLEMENT \<equiv> ''era_settlement''"
abbreviation "EVENT_EXPENSE \<equiv> ''recorded''"
abbreviation "EVENT_OPENING \<equiv> ''opening''"
abbreviation "EVENT_OPENING_VOID \<equiv> ''opening_void''"
abbreviation "EVENT_OPENING_PAYMENT_VOID \<equiv> ''opening_payment_void''"

definition posting :: "int \<Rightarrow> string \<Rightarrow> uuid option \<Rightarrow> uuid option \<Rightarrow> string \<Rightarrow> posting_line" where
  "posting amount role job cust memo =
     \<lparr>pl_amount = amount, pl_role = Some role, pl_account = None, pl_memo = Some memo, pl_job = job, pl_customer = cust\<rparr>"

definition posting_to :: "int \<Rightarrow> uuid \<Rightarrow> uuid option \<Rightarrow> uuid option \<Rightarrow> string \<Rightarrow> posting_line" where
  "posting_to amount acct job cust memo =
     \<lparr>pl_amount = amount, pl_role = None, pl_account = Some acct, pl_memo = Some memo, pl_job = job, pl_customer = cust\<rparr>"

definition event_of ::
  "string \<Rightarrow> string \<Rightarrow> uuid \<Rightarrow> string \<Rightarrow> date \<Rightarrow> posting_line list \<Rightarrow> string option \<Rightarrow> posting_event" where
  "event_of company st u ev when ls actor =
     \<lparr>ev_company = company, ev_source_type = st, ev_source_id = uuid_str u, ev_event = ev, ev_effective_at = when,
      ev_lines = ls, ev_created_by = actor, ev_extra = []\<rparr>"

section \<open>Live entries of a source\<close>

text \<open>
  The posted entries of one company and source whose key matches an unescaped pattern, as the rules of
  invoices, payments and expenses query them.
\<close>

definition live_entries :: "gl_db \<Rightarrow> string \<Rightarrow> string \<Rightarrow> uuid \<Rightarrow> string \<Rightarrow> gl_entry list" where
  "live_entries db company st u ev =
     filter (\<lambda>e. e_company e = company \<and> e_source_type e = Some st \<and> e_source_id e = Some (uuid_str u) \<and>
                e_status e = Posted \<and> key_like (st @ '':'' @ uuid_str u @ '':'' @ ev @ '':%'') e) (db_entries db)"

definition live_issuance_entry :: "gl_db \<Rightarrow> invoice \<Rightarrow> gl_entry option" where
  "live_issuance_entry db iv = first (live_entries db (i_company iv) ''invoice'' (i_id iv) EVENT_ISSUED)"

definition live_payment_entries :: "gl_db \<Rightarrow> payment \<Rightarrow> string \<Rightarrow> gl_entry list" where
  "live_payment_entries db p company = live_entries db company ''payment'' (p_id p) EVENT_PAYMENT"

definition live_era_settlement_entries :: "gl_db \<Rightarrow> payment \<Rightarrow> string \<Rightarrow> gl_entry list" where
  "live_era_settlement_entries db p company = live_entries db company ''payment'' (p_id p) EVENT_ERA_SETTLEMENT"

definition live_expense_entry :: "gl_db \<Rightarrow> expense \<Rightarrow> gl_entry option" where
  "live_expense_entry db x = first (live_entries db (x_company x) ''expense'' (x_id x) EVENT_EXPENSE)"

definition live_opening_entry :: "gl_db \<Rightarrow> invoice \<Rightarrow> gl_entry option" where
  "live_opening_entry db iv = first (live_entries db (i_company iv) ''invoice'' (i_id iv) EVENT_OPENING)"

definition has_opening_anchor :: "gl_db \<Rightarrow> invoice \<Rightarrow> bool" where
  "has_opening_anchor db iv \<longleftrightarrow> live_opening_entry db iv \<noteq> None"

text \<open>The earliest live entry of a one-shot event, over all companies, by an escaped pattern.\<close>

definition live_event_entry :: "gl_db \<Rightarrow> string \<Rightarrow> uuid \<Rightarrow> string \<Rightarrow> gl_entry option" where
  "live_event_entry db st u ev =
     first (sort_key (\<lambda>e. (e_created_at e, e_no e, e_id e))
       (filter (\<lambda>e. e_source_type e = Some st \<and> e_source_id e = Some (uuid_str u) \<and> e_status e = Posted \<and>
                   key_like (escape_like (st @ '':'' @ uuid_str u @ '':'' @ ev @ '':'') @ ''%'') e) (db_entries db)))"

section \<open>Dates\<close>

definition invoice_effective_at :: "gl_env \<Rightarrow> invoice \<Rightarrow> date" where
  "invoice_effective_at env iv =
     (case i_invoice_date iv of Some d \<Rightarrow> d
      | None \<Rightarrow> (case i_sent_at iv of Some t \<Rightarrow> dt_date t
                 | None \<Rightarrow> (case i_created_at iv of Some t \<Rightarrow> dt_date t | None \<Rightarrow> local_today env)))"

definition shop_effective_at :: "gl_env \<Rightarrow> gl_db \<Rightarrow> string \<Rightarrow> uuid \<Rightarrow> string \<Rightarrow> datetime option \<Rightarrow> date" where
  "shop_effective_at env db st u ev ts =
     (case live_event_entry db st u ev of
        Some e \<Rightarrow> e_effective_at e
      | None \<Rightarrow> (case ts of None \<Rightarrow> shop_today env | Some t \<Rightarrow> shop_day env t))"

definition date_or_today :: "gl_env \<Rightarrow> date option \<Rightarrow> date" where
  "date_or_today env d = (case d of Some x \<Rightarrow> x | None \<Rightarrow> shop_today env)"

section \<open>The cutover\<close>

definition cutover_date :: "gl_db \<Rightarrow> string \<Rightarrow> date option" where
  "cutover_date db company = (case get_gl_settings db company of None \<Rightarrow> None | Some s \<Rightarrow> s_cutover s)"

definition created_before :: "datetime option \<Rightarrow> date \<Rightarrow> bool" where
  "created_before ts cutover = (case ts of None \<Rightarrow> False | Some t \<Rightarrow> dt_date t < cutover)"

definition existed_at_cutover :: "payment \<Rightarrow> date \<Rightarrow> bool" where
  "existed_at_cutover p cutover = created_before (p_created_at p) cutover"

definition adj_existed_at_cutover :: "adjustment \<Rightarrow> date \<Rightarrow> bool" where
  "adj_existed_at_cutover a cutover = created_before (adj_created_at a) cutover"

definition voided_before_cutover :: "payment \<Rightarrow> date \<Rightarrow> bool" where
  "voided_before_cutover p cutover = created_before (p_voided_at p) cutover"

definition pre_cutover_era :: "gl_env \<Rightarrow> gl_db \<Rightarrow> invoice \<Rightarrow> bool" where
  "pre_cutover_era env db iv =
     (case cutover_date db (i_company iv) of None \<Rightarrow> False | Some c \<Rightarrow> invoice_effective_at env iv < c)"

section \<open>Amounts of an invoice\<close>

definition invoice_payments :: "gl_db \<Rightarrow> invoice \<Rightarrow> payment list" where
  "invoice_payments db iv = filter (\<lambda>p. p_invoice p = i_id iv) (db_payments db)"

definition invoice_adjustments :: "gl_db \<Rightarrow> invoice \<Rightarrow> adjustment list" where
  "invoice_adjustments db iv = filter (\<lambda>a. adj_invoice a = i_id iv) (db_adjustments db)"

definition sum_cents :: "decimal option list \<Rightarrow> exn + int" where
  "sum_cents ds = bindR (mapR col_cents ds) (\<lambda>cs. Inr (sum_list cs))"

definition payment_order :: "payment \<Rightarrow> datetime \<times> string" where
  "payment_order p =
     ((case p_created_at p of None \<Rightarrow> datetime_min | Some t \<Rightarrow> t), uuid_str (p_id p))"

definition prior_nonvoided_paid_cents :: "gl_db \<Rightarrow> invoice \<Rightarrow> payment \<Rightarrow> exn + int" where
  "prior_nonvoided_paid_cents db iv p =
     sum_cents (map p_amount (filter (\<lambda>q. payment_order q < payment_order p)
       (filter (\<lambda>q. p_voided_at q = None \<and> p_id q \<noteq> p_id p) (invoice_payments db iv))))"

definition balance_reducing :: "adjustment \<Rightarrow> bool" where
  "balance_reducing a \<longleftrightarrow> adj_kind a = CreditMemo \<or> adj_kind a = CreditApplied"

definition invoice_credited_cents :: "gl_db \<Rightarrow> invoice \<Rightarrow> exn + int" where
  "invoice_credited_cents db iv = sum_cents (map adj_amount (filter balance_reducing (invoice_adjustments db iv)))"

definition opening_balance_cents :: "gl_db \<Rightarrow> invoice \<Rightarrow> date \<Rightarrow> exn + int" where
  "opening_balance_cents db iv cutover =
     bindR (col_cents (i_total iv)) (\<lambda>t.
     bindR (sum_cents (map p_amount (filter (\<lambda>p. existed_at_cutover p cutover \<and> \<not> voided_before_cutover p cutover)
              (invoice_payments db iv)))) (\<lambda>paid.
     bindR (sum_cents (map adj_amount (filter (\<lambda>a. adj_existed_at_cutover a cutover)
              (filter balance_reducing (invoice_adjustments db iv))))) (\<lambda>credited.
     Inr (t - paid - credited))))"

section \<open>Receivables on the ledger\<close>

text \<open>\<open>ar_role_lines\<close>: the lines on AR-role accounts, each with the source of its entry.\<close>

definition ar_role_lines :: "gl_db \<Rightarrow> (string option \<times> string option \<times> int) list" where
  "ar_role_lines db =
     concat (map (\<lambda>e. map (\<lambda>l. (e_source_type e, e_source_id e, l_amount l))
       (filter (\<lambda>l. \<exists>a \<in> set (db_accounts db). a_id a = l_account l \<and> a_role a = Some ROLE_AR)
         (entry_lines db (e_id e)))) (db_entries db))"

definition of_invoice :: "gl_db \<Rightarrow> invoice \<Rightarrow> string option \<Rightarrow> string option \<Rightarrow> bool" where
  "of_invoice db iv st sid \<longleftrightarrow>
     st = Some ''invoice'' \<and> sid = Some (uuid_str (i_id iv)) \<or>
     st = Some ''payment'' \<and> sid \<in> (\<lambda>p. Some (uuid_str (p_id p))) ` set (invoice_payments db iv) \<or>
     st = Some ''adjustment'' \<and> sid \<in> (\<lambda>a. Some (uuid_str (adj_id a))) ` set (invoice_adjustments db iv)"

definition invoice_ar_balance_cents :: "gl_db \<Rightarrow> invoice \<Rightarrow> int" where
  "invoice_ar_balance_cents db iv =
     sum_list (map (\<lambda>(st, sid, c). c) (filter (\<lambda>(st, sid, c). of_invoice db iv st sid) (ar_role_lines db)))"

definition customer_credit_balance_cents :: "gl_db \<Rightarrow> string \<Rightarrow> uuid option \<Rightarrow> exn + int" where
  "customer_credit_balance_cents db company cust =
     bindR (resolve_role_account_or_none db company ROLE_CUSTOMER_CREDITS) (\<lambda>r.
     case r of
       None \<Rightarrow> Inr 0
     | Some acct \<Rightarrow>
         Inr (- sum_list (map l_amount
           (concat (map (\<lambda>e. if e_company e = company
              then filter (\<lambda>l. l_account l = a_id acct \<and> l_customer l = cust) (entry_lines db (e_id e))
              else []) (db_entries db))))))"

section \<open>The two writers track the journal and leave the workflow alone\<close>

lemma post_for_event_tracks: "digest_ok env \<Longrightarrow> tracks sound_step (post_for_event env ov ev)"
  unfolding tracks_def post_for_event_def by (intro allI post_for_event_sound polite_undisturbed)

lemma same_workflow_frames [simp]:
  "same_workflow db (spent_ids rs db)" "same_workflow db (grown e rs db)" "same_workflow db (mark_reversed u r db)"
  "same_workflow db (add_rows c rows db)"
  by (simp_all add: same_workflow_def spent_ids_def grown_def mark_reversed_def add_rows_def)

lemma check_period_lock_workflow [tracking]: "tracks same_workflow (check_period_lock c d ov by ctxt)"
  unfolding tracks_def check_period_lock_def
  by (auto simp: same_workflow_def split: option.splits)

lemma insert_entry_workflow [tracking]: "tracks same_workflow (insert_entry env c d st sid key rv by rs)"
  unfolding tracks_def insert_entry_cases by (simp add: Let_def)

lemma ensure_role_account_workflow [tracking]: "tracks same_workflow (ensure_role_account c r)"
  unfolding tracks_def
proof
  fix db show "same_workflow db (snd (ensure_role_account c r db))"
    using ensure_role_account_snd[of c r db] same_workflow_frames(4) workflow.R_refl unfolding snd_seed_coa by metis
qed

lemma resolve_lines_workflow [tracking]: "tracks same_workflow (resolve_lines c ls)"
  unfolding resolve_lines_def resolve_line_def by (intro workflow.tracks_rules tracking)

lemma post_loop_tracks:
  assumes T: "tracked R" and lock: "\<And>d. tracks R (check_period_lock (ev_company ev) d ov (ev_created_by ev) (lock_context ev))"
    and ins: "\<And>c d st sid key by. tracks R (insert_entry env c d st sid key None by rs)"
  shows "tracks R (post_loop k undisturbed env ov ev rs pfx lc)"
proof (induction k arbitrary: lc)
  case 0
  then show ?case by (simp add: tracked.tracks_throw[OF T])
next
  case (Suc k)
  note trans = tracked.R_trans[OF T] and refl = tracked.R_refl[OF T]
  show ?case
    unfolding tracks_def
  proof
    fix db
    let ?c = "ev_company ev"
    let ?key = "idempotency_key pfx (compute_seq db ?c pfx)"
    let ?lock = "if lc then ok () else check_period_lock ?c (ev_effective_at ev) ov (ev_created_by ev) (lock_context ev)"
    obtain r db1 where l: "?lock db = (r, db1)" by fastforce
    have "tracks R ?lock" by (intro tracked.tracks_if[OF T] tracked.tracks_ok[OF T] lock)
    from tracksD[OF this l] have w1: "R db db1" .
    obtain q db2 where i: "insert_entry env ?c (ev_effective_at ev) (Some (ev_source_type ev))
      (Some (ev_source_id ev)) ?key None (ev_created_by ev) rs db1 = (q, db2)" by fastforce
    have w2: "R db db2" using w1 tracksD[OF ins i] trans by blast
    have w3: "R db (snd (post_loop k undisturbed env ov ev rs pfx True db2))"
      using w2 Suc.IH[of True] trans unfolding tracks_def by blast
    show "R db (snd (post_loop (Suc k) undisturbed env ov ev rs pfx lc db))"
    proof (cases "live_by_key db ?c ?key")
      case (Some e)
      then show ?thesis by (simp add: Let_def refl)
    next
      case None
      then show ?thesis using l i w1 w2 w3
        by (cases r; cases q) (auto simp: Let_def undisturbed_def split: option.splits)
    qed
  qed
qed

lemma post_for_event_workflow [tracking]: "tracks same_workflow (post_for_event env ov ev)"
  unfolding post_for_event_def post_for_event_among_def
  by (intro workflow.tracks_rules tracking post_loop_tracks[OF workflow.tracked_axioms])

lemma reverse_entry_tracks:
  assumes T: "tracked R" and lock: "\<And>c d k. tracks R (check_period_lock c d ov by k)"
    and ins: "\<And>db c d st sid key rv e u q db'. insert_entry env c d st sid key (Some rv) by (map (mirror e) (entry_lines db u)) db = (q, db') \<Longrightarrow> R db db'"
    and mark: "\<And>u r db. R db (mark_reversed u r db)"
  shows "tracks R (reverse_entry env entry eff by ov)"
  unfolding tracks_def
proof
  fix db
  note trans = tracked.R_trans[OF T] and refl = tracked.R_refl[OF T]
  let ?e = "case get_entry db (e_id entry) of Some c \<Rightarrow> c | None \<Rightarrow> entry"
  let ?when = "case eff of Some d \<Rightarrow> d | None \<Rightarrow> e_effective_at ?e"
  obtain r db1 where l: "check_period_lock (e_company ?e) ?when ov by (reversal_key (e_id ?e)) db = (r, db1)" by fastforce
  have w1: "R db db1" by (rule tracksD[OF lock l])
  obtain q db2 where i: "insert_entry env (e_company ?e) ?when (e_source_type ?e) (e_source_id ?e) (reversal_key (e_id ?e))
      (Some (e_id ?e)) by (map (mirror ?e) (entry_lines db1 (e_id ?e))) db1 = (q, db2)" by fastforce
  have w2: "R db db2" using w1 ins[OF i] trans by blast
  have w3: "R db (mark_reversed u v db2)" for u v using w2 mark trans by blast
  show "R db (snd (reverse_entry env entry eff by ov db))"
    unfolding reverse_entry_def Let_def l prod.case
    using w1 w2 w3 refl i by (cases r; cases q) (auto split: option.splits)
qed

lemma reverse_entry_workflow [tracking]: "tracks same_workflow (reverse_entry env entry eff by ov)"
  by (rule reverse_entry_tracks[OF workflow.tracked_axioms])
    (auto intro: tracking tracksD[OF insert_entry_workflow])

section \<open>Well-formed line sets\<close>

lemma posting_simps [simp]:
  "pl_amount (posting a r j c m) = a" "pl_role (posting a r j c m) = Some r" "pl_account (posting a r j c m) = None"
  "pl_job (posting a r j c m) = j" "pl_customer (posting a r j c m) = c" "pl_memo (posting a r j c m) = Some m"
  "pl_amount (posting_to a u j c m) = a" "pl_role (posting_to a u j c m) = None"
  "pl_account (posting_to a u j c m) = Some u" "pl_job (posting_to a u j c m) = j"
  "pl_customer (posting_to a u j c m) = c" "pl_memo (posting_to a u j c m) = Some m"
  by (simp_all add: posting_def posting_to_def)

text \<open>A line names a role or an account, not both and not neither.\<close>

definition addressed :: "posting_line \<Rightarrow> bool" where
  "addressed l \<longleftrightarrow> (pl_role l = None) \<noteq> (pl_account l = None)"

lemma addressed_posting [simp]: "addressed (posting a r j c m)" "addressed (posting_to a u j c m)"
  by (simp_all add: addressed_def)

lemma validate_balanceI:
  assumes "ls \<noteq> []" and "sum_list (map pl_amount ls) = 0" and "\<And>l. l \<in> set ls \<Longrightarrow> pl_amount l \<noteq> 0"
    and "\<And>l. l \<in> set ls \<Longrightarrow> addressed l"
  shows "validate_balance ls = Inr ()"
proof -
  have "0 \<notin> set (map pl_amount ls)" using assms(3) by force
  note z = zero_sum_signs[OF _ this assms(2)]
  have "2 \<le> length ls" "list_ex (\<lambda>l. 0 < pl_amount l) ls" "list_ex (\<lambda>l. pl_amount l < 0) ls"
    using z assms(1) by (auto simp: list_ex_iff)
  moreover have "\<not> list_ex (\<lambda>l. pl_amount l = 0 \<or> (pl_role l = None) = (pl_account l = None)) ls"
    using assms(3,4) by (auto simp: list_ex_iff addressed_def)
  ultimately show ?thesis using assms(2) by (auto simp: validate_balance_def)
qed

definition role_sum :: "string \<Rightarrow> posting_line list \<Rightarrow> int" where
  "role_sum r ls = sum_list (map pl_amount (filter (\<lambda>l. pl_role l = Some r) ls))"

lemma role_sum_simps [simp]:
  "role_sum r [] = 0" "role_sum r (l # ls) = (if pl_role l = Some r then pl_amount l else 0) + role_sum r ls"
  "role_sum r (ls @ ms) = role_sum r ls + role_sum r ms"
  by (simp_all add: role_sum_def)

lemma ev_of_event_of [simp]:
  "ev_company (event_of c st u ev d ls a) = c" "ev_lines (event_of c st u ev d ls a) = ls"
  "ev_effective_at (event_of c st u ev d ls a) = d" "ev_source_type (event_of c st u ev d ls a) = st"
  "ev_source_id (event_of c st u ev d ls a) = uuid_str u" "ev_event (event_of c st u ev d ls a) = ev"
  by (simp_all add: event_of_def)

section \<open>Live entries of an event\<close>

lemma uuid_str_plain [simp]:
  "backslash \<notin> set (uuid_str u)" "CHR ''%'' \<notin> set (uuid_str u)" "CHR ''_'' \<notin> set (uuid_str u)"
  using uuid_str_chars[of backslash u] uuid_str_chars[of "CHR ''%''" u] uuid_str_chars[of "CHR ''_''" u]
  by (auto simp: backslash_def is_hex_def is_digit_def)

definition plain :: "string \<Rightarrow> bool" where
  "plain s \<longleftrightarrow> backslash \<notin> set s \<and> CHR ''%'' \<notin> set s \<and> CHR ''_'' \<notin> set s \<and> CHR '':'' \<notin> set s \<and> s \<noteq> []"

lemma colon_neq: "CHR '':'' \<noteq> backslash" "backslash \<noteq> CHR '':''"
  by (simp_all add: backslash_def)

lemma key_like_plain:
  assumes "plain st" "plain ev"
  shows "key_like (st @ '':'' @ uuid_str u @ '':'' @ ev @ '':%'') e \<longleftrightarrow>
    (\<exists>k. e_key e = Some k \<and> prefix (st @ '':'' @ uuid_str u @ '':'' @ ev @ '':'') k)"
proof -
  let ?p = "st @ '':'' @ uuid_str u @ '':'' @ ev @ '':''"
  have "escape_like ?p = ?p"
    by (rule escape_like_plain) (use assms in \<open>auto simp: plain_def colon_neq\<close>)
  then have "like (?p @ ''%'') k \<longleftrightarrow> prefix ?p k" for k using like_escape_prefix[of ?p k] by simp
  then show ?thesis by (auto simp: key_like_def split: option.splits)
qed

text \<open>The key of \<open>e\<close> belongs to the event \<open>ev\<close> of the row \<open>u\<close> of table \<open>st\<close>.\<close>

definition event_key :: "string \<Rightarrow> uuid \<Rightarrow> string \<Rightarrow> gl_entry \<Rightarrow> bool" where
  "event_key st u ev e \<longleftrightarrow>
     (\<exists>h p n. key_prefix st (uuid_str u) ev h = Inr p \<and> CHR '':'' \<notin> set h \<and> e_key e = Some (idempotency_key p n))"

lemma prefix_event_key:
  assumes "wf_key e" and "plain st" "plain ev" "st \<noteq> ''reversal''"
  shows "(\<exists>k. e_key e = Some k \<and> prefix (st @ '':'' @ uuid_str u @ '':'' @ ev @ '':'') k) \<longleftrightarrow> event_key st u ev e"
proof
  assume "event_key st u ev e"
  then show "\<exists>k. e_key e = Some k \<and> prefix (st @ '':'' @ uuid_str u @ '':'' @ ev @ '':'') k"
    by (auto simp: event_key_def key_prefix_Inr idempotency_key_def prefix_def)
next
  assume "\<exists>k. e_key e = Some k \<and> prefix (st @ '':'' @ uuid_str u @ '':'' @ ev @ '':'') k"
  then obtain r where r: "e_key e = Some (st @ '':'' @ uuid_str u @ '':'' @ ev @ '':'' @ r)"
    by (auto simp: prefix_def)
  have pl: "CHR '':'' \<notin> set st" "CHR '':'' \<notin> set ev" using assms by (auto simp: plain_def)
  from assms(1) show "event_key st u ev e"
    unfolding wf_key_def good_prefix_def
  proof (elim disjE exE conjE)
    fix p n st' sid' ev' h'
    assume k: "e_key e = Some (idempotency_key p n)" "key_prefix st' sid' ev' h' = Inr p" "CHR '':'' \<notin> set h'"
    then have p: "p = st' @ '':'' @ sid' @ '':'' @ ev' @ '':'' @ h'" "CHR '':'' \<notin> set st'" "CHR '':'' \<notin> set sid'"
      "CHR '':'' \<notin> set ev'" by (simp_all add: key_prefix_Inr)
    have "st @ CHR '':'' # (uuid_str u @ CHR '':'' # (ev @ CHR '':'' # r)) =
        st' @ CHR '':'' # (sid' @ CHR '':'' # (ev' @ CHR '':'' # (h' @ CHR '':'' # nat_str n)))"
      using r k(1) p(1) by (simp add: idempotency_key_def)
    then have "st = st' \<and> uuid_str u = sid' \<and> ev = ev'"
      using pl p by (simp add: append_sep_inject)
    then show ?thesis using k unfolding event_key_def by blast
  next
    fix v assume "e_key e = Some (reversal_key v)"
    then have "st @ CHR '':'' # (uuid_str u @ CHR '':'' # (ev @ CHR '':'' # r)) = ''reversal'' @ CHR '':'' # uuid_str v"
      using r by (simp add: reversal_key_def)
    then have "st = ''reversal''" using pl by (subst (asm) append_sep_inject) auto
    then show ?thesis using assms(4) by simp
  qed
qed

lemma live_entries_iff:
  assumes "ledger_inv db" "plain st" "plain ev" "st \<noteq> ''reversal''"
  shows "live_entries db c st u ev = filter (\<lambda>e. e_company e = c \<and> e_source_type e = Some st \<and>
    e_source_id e = Some (uuid_str u) \<and> e_status e = Posted \<and> event_key st u ev e) (db_entries db)"
  unfolding live_entries_def key_like_plain[OF assms(2,3)]
  using prefix_event_key[OF ledger_invD(4)[OF assms(1)] assms(2,3,4)] by (intro filter_cong) auto

text \<open>Everything a successful \<open>post_for_event\<close> says about its result.\<close>

lemma post_for_event_entry:
  assumes "digest_ok env" and inv: "ledger_inv db"
    and post: "post_for_event env ov (event_of c st u ev d ls a) db = (Inr e, db')"
  shows "e \<in> set (db_entries db')" "e_status e = Posted" "e_company e = c" "e_source_type e = Some st"
    "e_source_id e = Some (uuid_str u)" "event_key st u ev e" "ledger_inv db'"
    "db_entries db' = db_entries db @ (if e \<in> set (db_entries db) then [] else [e])"
proof -
  let ?ev = "event_of c st u ev d ls a"
  obtain rs dba pfx where *: "event_prefix env ?ev rs = Inr pfx"
    "post_loop MAX_KEY_ATTEMPTS undisturbed env ov ?ev rs pfx False dba = (Inr e, db')" "balanced_lines rs"
    by (rule post_for_event_Inr[OF post[unfolded post_for_event_def]])
  note pok = event_prefix_ok[OF assms(1) *(1)]
  obtain n where e: "e \<in> set (db_entries db')" "e_status e = Posted" "e_company e = c" "e_key e = Some (idempotency_key pfx n)"
    using post_loop_Inr[OF pok *(3) polite_undisturbed *(2)] by auto
  obtain h where h: "key_prefix st (uuid_str u) ev h = Inr pfx" "CHR '':'' \<notin> set h"
    using pok by (auto simp: prefix_ok_def)
  show inv': "ledger_inv db'"
    using inv_sound[OF post_for_event_sound[OF assms(1) polite_undisturbed, of db ov ?ev] inv] post
    by (simp add: post_for_event_def)
  show "e \<in> set (db_entries db')" "e_status e = Posted" "e_company e = c" using e by simp_all
  show "event_key st u ev e" using h e(4) unfolding event_key_def by blast
  have "wf_key e" by (rule ledger_invD(4)[OF inv' e(1)])
  then obtain p m where p: "e_key e = Some (idempotency_key p m)" "good_prefix e p"
    using e(4) by (auto simp: wf_key_def)
  then have "p = pfx" using e(4) idempotency_key_both by auto
  then have "e_source_type e = Some st \<and> e_source_id e = Some (uuid_str u)"
    using p(2) h by (auto simp: good_prefix_def key_prefix_Inr append_sep_inject)
  then show "e_source_type e = Some st" "e_source_id e = Some (uuid_str u)" by simp_all
  show "db_entries db' = db_entries db @ (if e \<in> set (db_entries db) then [] else [e])"
    using assms(1) inv post by (cases rule: post_for_event_cases) auto
qed

lemma live_entries_after_post:
  assumes "digest_ok env" "ledger_inv db" "plain st" "plain ev" "st \<noteq> ''reversal''"
    and post: "post_for_event env ov (event_of c st u ev d ls a) db = (Inr e, db')"
  shows "live_entries db' c st u ev = live_entries db c st u ev @ (if e \<in> set (db_entries db) then [] else [e])"
    and "e \<in> set (live_entries db' c st u ev)"
  using post_for_event_entry[OF assms(1,2) post]
  by (simp_all add: live_entries_iff[OF assms(2-5)] live_entries_iff[OF post_for_event_entry(7)[OF assms(1,2) post] assms(3-5)])

lemma event_key_marked [simp]: "event_key st u ev (marked v r e) = event_key st u ev e"
  by (simp add: event_key_def)

lemma event_key_reversal [simp]: "\<not> event_key st u ev (reversal_of env db x d b)"
  by (simp add: event_key_def)

lemma live_entries_after_reverse:
  assumes inv: "ledger_inv db" and p: "plain st" "plain ev" "st \<noteq> ''reversal''"
    and x: "x \<in> set (db_entries db)" "e_status x = Posted"
    and rev: "reverse_entry env x eff b ov db = (Inr r, db')"
  shows "live_entries db' c st u ev = filter (\<lambda>e. e_id e \<noteq> e_id x) (live_entries db c st u ev)"
proof -
  obtain db1 where *: "r = reversal_of env db1 x (reversal_date x eff) b"
    "db' = with_reversal env x (reversal_date x eff) b db1" "ledger_inv db1" "x \<in> set (db_entries db1)"
    "db_entries db1 = db_entries db" by (rule reverse_entry_Inr_live[OF inv x rev])
  have inv': "ledger_inv db'" using inv_sound[OF with_reversal_sound[OF *(3,4) x(2)] *(3)] *(2) by simp
  have es: "db_entries db' = map (marked (e_id x) (db_uuid db1)) (db_entries db) @ [r]"
    using with_reversal_entries[OF *(3,4)] * by simp
  have "filter (\<lambda>e. e_company e = c \<and> e_source_type e = Some st \<and> e_source_id e = Some (uuid_str u) \<and>
      e_status e = Posted \<and> event_key st u ev e) (map (marked (e_id x) v) xs) =
    filter (\<lambda>e. e_id e \<noteq> e_id x) (filter (\<lambda>e. e_company e = c \<and> e_source_type e = Some st \<and>
      e_source_id e = Some (uuid_str u) \<and> e_status e = Posted \<and> event_key st u ev e) xs)" for xs v
    by (induction xs) (auto simp: marked_def event_key_def)
  then show ?thesis
    unfolding live_entries_iff[OF inv' p] live_entries_iff[OF inv p] es using *(1) by simp
qed

lemma live_entries_in: "e \<in> set (live_entries db c st u ev) \<Longrightarrow> e \<in> set (db_entries db) \<and> e_status e = Posted"
  by (simp add: live_entries_def)

section \<open>Editing: post first, then reverse what was live\<close>

text \<open>
  The shape shared by \<open>repost_invoice_issuance\<close> and \<open>repost_expense\<close>: post the current content, and reverse
  the entry that was live before unless it is the one just returned.
\<close>

lemma post_then_reverse_one_live:
  assumes env: "digest_ok env" and inv: "ledger_inv db" and p: "plain st" "plain ev" "st \<noteq> ''reversal''"
    and one: "length (live_entries db c st u ev) \<le> 1"
    and post: "post_for_event env False (event_of c st u ev d ls a) db = (Inr e, db1)"
    and rest: "case first (live_entries db c st u ev) of None \<Rightarrow> db2 = db1
      | Some l \<Rightarrow> if e_id e \<noteq> e_id l then \<exists>r. reverse_entry env l None b False db1 = (Inr r, db2) else db2 = db1"
  shows "live_entries db2 c st u ev = [e] \<and> ledger_inv db2 \<and>
    post_for_event env False (event_of c st u ev d ls a) db2 = (Inr e, db2)"
proof -
  note P = post_for_event_entry[OF env inv post] and L = live_entries_after_post[OF env inv p post]
  have replay: "post_for_event env False (event_of c st u ev d ls a) db2 = (Inr e, db2)"
    if "sound_step db1 db2" "db_accounts db2 = db_accounts db1" "e \<in> set (db_entries db2)"
    by (rule post_then_replay[OF env inv post that])
  consider (none) "live_entries db c st u ev = []" | (single) l where "live_entries db c st u ev = [l]"
    using one by (cases "live_entries db c st u ev") auto
  then show ?thesis
  proof cases
    case none
    then have "db2 = db1" using rest by simp
    moreover have "live_entries db1 c st u ev = [e]" using L none by (auto split: if_splits)
    ultimately show ?thesis using replay P(1,7) journal.R_refl by simp
  next
    case (single l)
    have l: "l \<in> set (db_entries db)" "e_status l = Posted" using live_entries_in[of l db c st u ev] single by auto
    show ?thesis
    proof (cases "e_id e = e_id l")
      case True
      then have "db2 = db1" using rest single by simp
      moreover have "l \<in> set (db_entries db1)" using P(8) l(1) by simp
      then have "e = l" using entry_id_inject[OF P(7) P(1) _ True] by simp
      then have "live_entries db1 c st u ev = [e]" using L single l(1) by simp
      ultimately show ?thesis using replay P(1,7) journal.R_refl by simp
    next
      case False
      then obtain r where r: "reverse_entry env l None b False db1 = (Inr r, db2)" using rest single by auto
      have l1: "l \<in> set (db_entries db1)" using P(8) l(1) by simp
      have "e \<notin> set (db_entries db)" using L single False by (auto split: if_splits)
      then have "live_entries db1 c st u ev = [l, e]" using L(1) single by simp
      then have lv: "live_entries db2 c st u ev = [e]"
        using live_entries_after_reverse[OF P(7) p l1 l(2) r] False by simp
      have s2: "sound_step db1 db2" by (rule tracksD[OF reverse_entry_sound r])
      have "e \<in> set (db_entries db2)" using live_entries_in[of e db2 c st u ev] lv by simp
      then show ?thesis
        using lv replay s2 accounts_check_period_lock[OF r] inv_sound[OF s2 P(7)] by blast
    qed
  qed
qed

end
