(* ===== verification/Rules_Invoice.thy ===== *)
theory Rules_Invoice
  imports Rules_Base
begin

text \<open>
  P1 and P8 of \<^verbatim>\<open>modules/ledger/rules.py\<close>: the entry an invoice posts when it is issued, its reposting after an
  edit, its reversal on a void, and the opening-balance anchor of an invoice from before the cutover.
\<close>

section \<open>Issuance lines\<close>

definition MAX_RESIDUAL_CENTS :: int where
  "MAX_RESIDUAL_CENTS = 100"

definition mapped_account :: "gl_db \<Rightarrow> string \<Rightarrow> string option \<Rightarrow> uuid option" where
  "mapped_account db company acct_id =
     (case acct_id of
        None \<Rightarrow> None
      | Some s \<Rightarrow>
          if s = [] then None
          else (case parse_uuid s of
                  None \<Rightarrow> None
                | Some u \<Rightarrow>
                    (case get_account db u of
                       None \<Rightarrow> None
                     | Some a \<Rightarrow> if a_company a \<noteq> company \<or> \<not> a_active a then None else Some (a_id a))))"

definition revenue_account_id_for :: "gl_db \<Rightarrow> gl_settings option \<Rightarrow> string \<Rightarrow> string option \<Rightarrow> uuid option" where
  "revenue_account_id_for db settings company category =
     (case category of
        None \<Rightarrow> None
      | Some c \<Rightarrow>
          if c = [] then None
          else mapped_account db company
                 (map_of (case settings of None \<Rightarrow> [] | Some s \<Rightarrow> map_or_empty (s_revenue_map s)) c))"

definition live_invoice_lines :: "gl_db \<Rightarrow> invoice \<Rightarrow> invoice_line list" where
  "live_invoice_lines db iv =
     filter (\<lambda>il. il_invoice il = i_id iv \<and> il_deleted_at il = None) (db_invoice_lines db)"

definition revenue_line :: "gl_db \<Rightarrow> invoice \<Rightarrow> invoice_line \<Rightarrow> int \<Rightarrow> posting_line" where
  "revenue_line db iv il c =
     (let memo = take 200 (or_str (il_description il) []) in
      case revenue_account_id_for db (get_gl_settings db (i_company iv)) (i_company iv) (il_category il) of
        None \<Rightarrow> posting (- c) ROLE_SALES_FALLBACK (i_job iv) (i_customer iv)
                  ((if or_str (il_category il) [] \<noteq> [] then ''[unmapped category: '' @ fmt (il_category il) @ ''] '' else []) @ memo)
      | Some u \<Rightarrow> posting_to (- c) u (i_job iv) (i_customer iv) memo)"

definition build_issuance_lines :: "gl_db \<Rightarrow> invoice \<Rightarrow> exn + posting_line list" where
  "build_issuance_lines db iv =
     bindR (col_cents (i_total iv)) (\<lambda>total_cents.
     if total_cents = 0 then Inr []
     else
       bindR (mapR (\<lambda>il. bindR (col_cents (il_line_total il)) (\<lambda>c. Inr (il, c))) (live_invoice_lines db iv)) (\<lambda>ils.
       bindR (col_cents (i_tax_amount iv)) (\<lambda>tax_cents.
       let credited = sum_list (map snd ils) + tax_cents;
           residual = total_cents - credited
       in if \<bar>residual\<bar> > MAX_RESIDUAL_CENTS then Inl (IssuanceCompositionError residual)
          else Inr (
            [posting total_cents ROLE_AR (i_job iv) (i_customer iv) (''invoice '' @ i_number iv @ '' issued'')] @
            map (\<lambda>(il, c). revenue_line db iv il c) (filter (\<lambda>(il, c). c \<noteq> 0) ils) @
            (if tax_cents \<noteq> 0 then
               [posting (- tax_cents) ROLE_SALES_TAX_PAYABLE (i_job iv) (i_customer iv) ''sales tax (mirrored from invoice)'']
             else []) @
            (if residual \<noteq> 0 then
               [posting (- residual) ROLE_ROUNDING (i_job iv) (i_customer iv)
                  (''[P1 residual] total '' @ minus_sign @ '' (lines + tax) = '' @ int_str residual @ '' cents'')]
             else [])))))"

section \<open>Opening balances\<close>

definition build_opening_lines :: "invoice \<Rightarrow> int \<Rightarrow> posting_line list" where
  "build_opening_lines iv opening_cents =
     (if opening_cents \<le> 0 then []
      else [posting opening_cents ROLE_AR (i_job iv) (i_customer iv)
              (''P8 opening balance '' @ em_dash @ '' invoice '' @ i_number iv),
            posting (- opening_cents) ROLE_OPENING_EQUITY None (i_customer iv)
              (''P8 opening balance '' @ em_dash @ '' invoice '' @ i_number iv)])"

definition post_opening_balance :: "gl_env \<Rightarrow> invoice \<Rightarrow> string option \<Rightarrow> gl_entry option gl" where
  "post_opening_balance env iv actor =
     andthen (reads (\<lambda>db. case cutover_date db (i_company iv) of
                None \<Rightarrow> Inl LedgerConfigError | Some d \<Rightarrow> Inr d)) (\<lambda>cutover.
     if i_status iv \<notin> set ISSUED_STATUSES \<or> i_deleted_at iv \<noteq> None then ok None
     else if cutover \<le> invoice_effective_at env iv then ok None
     else
       andthen (asks (\<lambda>db. live_event_entry db ''invoice'' (i_id iv) EVENT_OPENING)) (\<lambda>live.
       case live of
         Some l \<Rightarrow> ok (Some l)
       | None \<Rightarrow>
           andthen (reads (\<lambda>db. opening_balance_cents db iv cutover)) (\<lambda>opening.
           let ls = build_opening_lines iv opening in
           if ls = [] then ok None
           else andthen (post_for_event env False
                  (event_of (i_company iv) ''invoice'' (i_id iv) EVENT_OPENING cutover ls actor)) (\<lambda>e.
                ok (Some e)))))"

section \<open>P1\<close>

definition issuance_event :: "gl_env \<Rightarrow> invoice \<Rightarrow> posting_line list \<Rightarrow> string option \<Rightarrow> posting_event" where
  "issuance_event env iv ls actor =
     event_of (i_company iv) ''invoice'' (i_id iv) EVENT_ISSUED (invoice_effective_at env iv) ls actor"

definition post_invoice_issuance :: posting_rule where
  "post_invoice_issuance env iv old_status new_status actor =
     andthen (asks (\<lambda>db. pre_cutover_era env db iv)) (\<lambda>era.
     if era then andthen (post_opening_balance env iv actor) (\<lambda>_. ok ())
     else andthen (reads (\<lambda>db. build_issuance_lines db iv)) (\<lambda>ls.
          if ls = [] then ok ()
          else andthen (post_for_event env False (issuance_event env iv ls actor)) (\<lambda>_. ok ())))"

definition repost_invoice_issuance :: "gl_env \<Rightarrow> invoice \<Rightarrow> string option \<Rightarrow> unit gl" where
  "repost_invoice_issuance env iv actor =
     (if i_status iv \<notin> set ISSUED_STATUSES then ok ()
      else
        andthen (asks (\<lambda>db. ledger_posting_enabled db (i_company iv))) (\<lambda>enabled.
        if \<not> enabled then ok ()
        else
          andthen (asks (\<lambda>db. live_issuance_entry db iv)) (\<lambda>live.
          andthen (asks (\<lambda>db. pre_cutover_era env db iv)) (\<lambda>era.
          if live = None \<and> era then andthen (post_opening_balance env iv actor) (\<lambda>_. ok ())
          else
            andthen (reads (\<lambda>db. build_issuance_lines db iv)) (\<lambda>ls.
            if ls = [] then
              (case live of None \<Rightarrow> ok ()
               | Some l \<Rightarrow> andthen (reverse_entry env l None actor False) (\<lambda>_. ok ()))
            else
              (case live of
                 None \<Rightarrow> post_invoice_issuance env iv (i_status iv) (i_status iv) actor
               | Some l \<Rightarrow>
                   andthen (post_for_event env False (issuance_event env iv ls actor)) (\<lambda>posted.
                   if e_id posted \<noteq> e_id l then andthen (reverse_entry env l None actor False) (\<lambda>_. ok ())
                   else ok ())))))))"

definition reverse_invoice_issuance :: posting_rule where
  "reverse_invoice_issuance env iv old_status new_status actor =
     andthen (asks (\<lambda>db. live_issuance_entry db iv)) (\<lambda>live.
     case live of None \<Rightarrow> ok ()
     | Some l \<Rightarrow> andthen (reverse_entry env l None actor False) (\<lambda>_. ok ()))"

definition POSTING_RULES :: "invoice_status \<Rightarrow> invoice_status \<Rightarrow> posting_rule option" where
  "POSTING_RULES old new =
     (if old = Draft \<and> new = Sent then Some post_invoice_issuance
      else if old = Draft \<and> new = Paid then Some post_invoice_issuance
      else if old = Sent \<and> new = Void then Some reverse_invoice_issuance
      else if old = Paid \<and> new = Void then Some reverse_invoice_issuance
      else None)"

section \<open>Soundness\<close>

lemma post_opening_balance_sound: "digest_ok env \<Longrightarrow> tracks sound_step (post_opening_balance env iv actor)"
  unfolding post_opening_balance_def Let_def
  by (intro journal.tracks_rules tracking post_for_event_tracks)

lemma post_invoice_issuance_sound: "digest_ok env \<Longrightarrow> tracks sound_step (post_invoice_issuance env iv a b actor)"
  unfolding post_invoice_issuance_def
  by (intro journal.tracks_rules tracking post_for_event_tracks post_opening_balance_sound)

lemma repost_invoice_issuance_sound: "digest_ok env \<Longrightarrow> tracks sound_step (repost_invoice_issuance env iv actor)"
  unfolding repost_invoice_issuance_def
  by (intro journal.tracks_rules tracking post_for_event_tracks post_opening_balance_sound post_invoice_issuance_sound)

lemma reverse_invoice_issuance_sound [tracking]: "tracks sound_step (reverse_invoice_issuance env iv a b actor)"
  unfolding reverse_invoice_issuance_def by (intro journal.tracks_rules tracking)

lemma post_opening_balance_workflow [tracking]: "tracks same_workflow (post_opening_balance env iv actor)"
  unfolding post_opening_balance_def Let_def by (intro workflow.tracks_rules tracking)

lemma post_invoice_issuance_workflow [tracking]: "tracks same_workflow (post_invoice_issuance env iv a b actor)"
  unfolding post_invoice_issuance_def by (intro workflow.tracks_rules tracking)

lemma repost_invoice_issuance_workflow [tracking]: "tracks same_workflow (repost_invoice_issuance env iv actor)"
  unfolding repost_invoice_issuance_def by (intro workflow.tracks_rules tracking)

lemma reverse_invoice_issuance_workflow [tracking]: "tracks same_workflow (reverse_invoice_issuance env iv a b actor)"
  unfolding reverse_invoice_issuance_def by (intro workflow.tracks_rules tracking)

lemma POSTING_RULES_sound: "digest_ok env \<Longrightarrow> rules_sound sound_step env POSTING_RULES"
  by (auto simp: rules_sound_def POSTING_RULES_def intro: post_invoice_issuance_sound tracking split: if_splits)

lemma POSTING_RULES_workflow: "rules_sound same_workflow env POSTING_RULES"
  by (auto simp: rules_sound_def POSTING_RULES_def intro: tracking split: if_splits)

section \<open>The issuance entry\<close>

lemma build_issuance_lines_Inr:
  assumes "build_issuance_lines db iv = Inr ls" and "ls \<noteq> []"
  obtains t ils tax where "col_cents (i_total iv) = Inr t" "t \<noteq> 0" "col_cents (i_tax_amount iv) = Inr tax"
    "mapR (\<lambda>il. bindR (col_cents (il_line_total il)) (\<lambda>c. Inr (il, c))) (live_invoice_lines db iv) = Inr ils"
    "\<bar>t - (sum_list (map snd ils) + tax)\<bar> \<le> MAX_RESIDUAL_CENTS"
    "ls = [posting t ROLE_AR (i_job iv) (i_customer iv) (''invoice '' @ i_number iv @ '' issued'')] @
      map (\<lambda>(il, c). revenue_line db iv il c) (filter (\<lambda>(il, c). c \<noteq> 0) ils) @
      (if tax \<noteq> 0 then [posting (- tax) ROLE_SALES_TAX_PAYABLE (i_job iv) (i_customer iv) ''sales tax (mirrored from invoice)''] else []) @
      (if t - (sum_list (map snd ils) + tax) \<noteq> 0 then
         [posting (- (t - (sum_list (map snd ils) + tax))) ROLE_ROUNDING (i_job iv) (i_customer iv)
           (''[P1 residual] total '' @ minus_sign @ '' (lines + tax) = '' @ int_str (t - (sum_list (map snd ils) + tax)) @ '' cents'')] else [])"
  using assms unfolding build_issuance_lines_def bindR_eq_Inr Let_def
  by (auto simp: bindR_eq_Inr not_less split: if_splits)

lemma revenue_line_simps [simp]:
  "pl_amount (revenue_line db iv il c) = - c" "pl_job (revenue_line db iv il c) = i_job iv"
  "pl_customer (revenue_line db iv il c) = i_customer iv" "addressed (revenue_line db iv il c)"
  by (simp_all add: revenue_line_def Let_def split: option.splits)

lemma revenue_line_role:
  "pl_role (revenue_line db iv il c) = None \<or> pl_role (revenue_line db iv il c) = Some ROLE_SALES_FALLBACK"
  by (simp add: revenue_line_def Let_def split: option.splits)

lemma revenue_lines_sum:
  "sum_list (map pl_amount (map (\<lambda>(il, c). revenue_line db iv il c) (filter (\<lambda>(il, c). c \<noteq> 0) ils))) = - sum_list (map snd ils)"
  by (induction ils) auto

lemma revenue_lines_role:
  "r \<noteq> ROLE_SALES_FALLBACK \<Longrightarrow> role_sum r (map (\<lambda>(il, c). revenue_line db iv il c) xs) = 0"
proof (induction xs)
  case (Cons x xs)
  have "pl_role (revenue_line db iv (fst x) (snd x)) \<noteq> Some r"
    using revenue_line_role[of db iv "fst x" "snd x"] Cons.prems by auto
  then show ?case using Cons by (simp add: split_beta)
qed simp

text \<open>
  What issuing an invoice posts.  Whenever \<open>build_issuance_lines\<close> yields lines, the engine accepts
  them as balanced; receivables are debited with exactly the invoice total, sales tax payable is
  credited with exactly the invoice's tax, the rounding account absorbs at most one dollar, and every
  line carries the invoice's job and customer.
\<close>

theorem issuance_lines_balance:
  assumes "build_issuance_lines db iv = Inr ls" and "ls \<noteq> []"
  shows "validate_balance ls = Inr () \<and> col_cents (i_total iv) = Inr (role_sum ROLE_AR ls) \<and>
    col_cents (i_tax_amount iv) = Inr (- role_sum ROLE_SALES_TAX_PAYABLE ls) \<and>
    \<bar>role_sum ROLE_ROUNDING ls\<bar> \<le> 100 \<and> (\<forall>l\<in>set ls. pl_job l = i_job iv \<and> pl_customer l = i_customer iv)"
proof -
  obtain t ils tax where *: "col_cents (i_total iv) = Inr t" "t \<noteq> 0" "col_cents (i_tax_amount iv) = Inr tax"
    "\<bar>t - (sum_list (map snd ils) + tax)\<bar> \<le> MAX_RESIDUAL_CENTS"
    and ls: "ls = [posting t ROLE_AR (i_job iv) (i_customer iv) (''invoice '' @ i_number iv @ '' issued'')] @
      map (\<lambda>(il, c). revenue_line db iv il c) (filter (\<lambda>(il, c). c \<noteq> 0) ils) @
      (if tax \<noteq> 0 then [posting (- tax) ROLE_SALES_TAX_PAYABLE (i_job iv) (i_customer iv) ''sales tax (mirrored from invoice)''] else []) @
      (if t - (sum_list (map snd ils) + tax) \<noteq> 0 then
         [posting (- (t - (sum_list (map snd ils) + tax))) ROLE_ROUNDING (i_job iv) (i_customer iv)
           (''[P1 residual] total '' @ minus_sign @ '' (lines + tax) = '' @ int_str (t - (sum_list (map snd ils) + tax)) @ '' cents'')] else [])"
    by (rule build_issuance_lines_Inr[OF assms])
  have "sum_list (map pl_amount ls) = 0"
    unfolding ls map_append sum_list_append revenue_lines_sum by simp
  then have "validate_balance ls = Inr ()"
    using assms(2) *(2) by (intro validate_balanceI) (auto simp: ls split: if_splits)
  moreover have "role_sum ROLE_AR ls = t" "role_sum ROLE_SALES_TAX_PAYABLE ls = - tax"
    "role_sum ROLE_ROUNDING ls = - (t - (sum_list (map snd ils) + tax))"
    unfolding ls role_sum_simps(3) by (simp_all add: revenue_lines_role)
  moreover have "\<forall>l\<in>set ls. pl_job l = i_job iv \<and> pl_customer l = i_customer iv"
    by (auto simp: ls split: if_splits)
  ultimately show ?thesis using * by (simp add: MAX_RESIDUAL_CENTS_def)
qed

definition sample_invoice :: invoice where
  "sample_invoice = \<lparr>i_id = 100, i_company = ''gdx'', i_number = ''INV-1'', i_status = Sent, i_total = Some (cents 10825), i_balance_due = Some (cents 10825),
     i_tax_amount = Some (cents 825), i_job = Some 7, i_customer = Some 8, i_invoice_date = Some (Date 2026 3 1),
     i_sent_at = None, i_created_at = None, i_deleted_at = None\<rparr>"

definition sample_invoice_db :: gl_db where
  "sample_invoice_db = sample_db\<lparr>db_invoices := [sample_invoice], db_invoice_lines :=
     [\<lparr>il_invoice = 100, il_description = Some ''spring'', il_line_total = Some (cents 10000), il_category = None,
       il_deleted_at = None\<rparr>]\<rparr>"

theorem issuance_lines_balance_witness:
  "\<exists>ls. build_issuance_lines sample_invoice_db sample_invoice = Inr ls \<and> validate_balance ls = Inr () \<and>
     role_sum ROLE_AR ls = 10825"
proof -
  let ?b = "build_issuance_lines sample_invoice_db sample_invoice"
  have "map_sum id (map pl_amount) ?b = Inr [10825, - 10000, - 825]" by code_simp
  then obtain ls where ls: "?b = Inr ls" "ls \<noteq> []" by (cases ?b) auto
  have "col_cents (i_total sample_invoice) = Inr 10825" by code_simp
  then have "validate_balance ls = Inr ()" "role_sum ROLE_AR ls = 10825"
    using issuance_lines_balance[OF ls] by simp_all
  with ls(1) show ?thesis by blast
qed

section \<open>Editing an issued invoice\<close>

lemma plain_words [simp]:
  "plain ''invoice''" "plain ''payment''" "plain ''expense''" "plain EVENT_ISSUED" "plain EVENT_PAYMENT"
  "plain EVENT_EXPENSE" "plain EVENT_OPENING"
  by (simp_all add: plain_def backslash_def)

lemma reverse_live_nothing_left:
  assumes inv: "ledger_inv db" and p: "plain st" "plain ev" "st \<noteq> ''reversal''"
    and one: "live_entries db c st u ev = [l]" and r: "reverse_entry env l eff b ov db = (Inr r, db')"
  shows "live_entries db' c st u ev = []"
proof -
  have "l \<in> set (db_entries db)" "e_status l = Posted" using live_entries_in[of l db c st u ev] one by auto
  from live_entries_after_reverse[OF inv p this r] one show ?thesis by simp
qed

text \<open>
  Editing an issued invoice leaves exactly one live issuance entry, the one for its current content.
  From a ledger with at most one live entry for the invoice, a successful \<open>repost_invoice_issuance\<close> ends
  with none when the content collapsed to zero, and otherwise with exactly one, which posting the
  current content again returns unchanged.
\<close>

theorem repost_leaves_one_live_issuance:
  assumes "digest_ok env" and inv: "ledger_inv db"
    and one: "length (live_entries db (i_company iv) ''invoice'' (i_id iv) EVENT_ISSUED) \<le> 1"
    and on: "i_status iv \<in> set ISSUED_STATUSES" "ledger_posting_enabled db (i_company iv)" "\<not> pre_cutover_era env db iv"
    and ls: "build_issuance_lines db iv = Inr ls"
    and run: "repost_invoice_issuance env iv actor db = (Inr (), db')"
  shows "if ls = [] then live_entries db' (i_company iv) ''invoice'' (i_id iv) EVENT_ISSUED = []
    else \<exists>e. live_entries db' (i_company iv) ''invoice'' (i_id iv) EVENT_ISSUED = [e] \<and>
         post_for_event env False (issuance_event env iv ls actor) db' = (Inr e, db')"
proof -
  let ?L = "\<lambda>d. live_entries d (i_company iv) ''invoice'' (i_id iv) EVENT_ISSUED"
  have live: "live_issuance_entry db iv = first (?L db)" by (simp add: live_issuance_entry_def)
  have "(if ls = [] then (case live_issuance_entry db iv of None \<Rightarrow> ok ()
       | Some l \<Rightarrow> andthen (reverse_entry env l None actor False) (\<lambda>_. ok ()))
     else (case live_issuance_entry db iv of None \<Rightarrow> post_invoice_issuance env iv (i_status iv) (i_status iv) actor
       | Some l \<Rightarrow> andthen (post_for_event env False (issuance_event env iv ls actor)) (\<lambda>posted.
           if e_id posted \<noteq> e_id l then andthen (reverse_entry env l None actor False) (\<lambda>_. ok ()) else ok ()))) db
     = (Inr (), db')"
    using run on ls unfolding repost_invoice_issuance_def andthen_def[of "asks _"] andthen_def[of "reads _"]
    by (simp add: asks_def reads_def)
  note run' = this[unfolded live]
  consider (none) "?L db = []" | (some) l where "?L db = [l]"
    using one by (cases "?L db") auto
  then show ?thesis
  proof cases
    case none
    show ?thesis
    proof (cases "ls = []")
      case True
      then show ?thesis using run' none by (simp add: ok_def)
    next
      case False
      then obtain e where post: "post_for_event env False (issuance_event env iv ls actor) db = (Inr e, db')"
        using run' none on(3) ls
        by (auto simp: post_invoice_issuance_def andthen_def asks_def reads_def ok_def split: prod.splits sum.splits)
      from post_then_reverse_one_live[OF assms(1) inv _ _ _ one post[unfolded issuance_event_def], of db' actor] none False
      show ?thesis by (simp add: issuance_event_def)
    qed
  next
    case (some l)
    show ?thesis
    proof (cases "ls = []")
      case True
      then obtain r where "reverse_entry env l None actor False db = (Inr r, db')"
        using run' some by (auto simp: andthen_def ok_def split: prod.splits sum.splits)
      from reverse_live_nothing_left[OF inv _ _ _ some this] True show ?thesis by simp
    next
      case False
      then obtain e db1 where post: "post_for_event env False (issuance_event env iv ls actor) db = (Inr e, db1)"
        and rest: "(if e_id e \<noteq> e_id l then andthen (reverse_entry env l None actor False) (\<lambda>_. ok ()) else ok ()) db1 = (Inr (), db')"
        using run' some by (auto simp: andthen_def split: prod.splits sum.splits)
      have "if e_id e \<noteq> e_id l then \<exists>r. reverse_entry env l None actor False db1 = (Inr r, db') else db' = db1"
        using rest by (auto simp: andthen_def ok_def split: if_splits prod.splits sum.splits)
      with post_then_reverse_one_live[OF assms(1) inv _ _ _ one post[unfolded issuance_event_def], of db' actor] some False
      show ?thesis by (simp add: issuance_event_def)
    qed
  qed
qed

definition untaxed_invoice :: invoice where
  "untaxed_invoice = sample_invoice\<lparr>i_total := Some (cents 10000), i_tax_amount := None\<rparr>"

definition posting_db :: gl_db where
  "posting_db = sample_invoice_db\<lparr>db_settings := [(fresh_settings ''gdx'')\<lparr>s_enabled := True\<rparr>]\<rparr>"

lemma posting_db_inv: "ledger_inv posting_db"
  by (rule ledger_inv_frame[OF _ _ _ ledger_inv_sample_db]) (simp_all add: posting_db_def sample_invoice_db_def)

theorem repost_leaves_one_live_issuance_witness:
  "length (live_entries (snd (repost_invoice_issuance sample_env untaxed_invoice None posting_db)) ''gdx'' ''invoice'' 100
     EVENT_ISSUED) = 1"
proof -
  let ?run = "repost_invoice_issuance sample_env untaxed_invoice None posting_db"
  have f: "fst ?run = Inr ()" by code_simp
  have "map_sum id (map pl_amount) (build_issuance_lines posting_db untaxed_invoice) = Inr [10000, - 10000]" by code_simp
  then obtain ls where ls: "build_issuance_lines posting_db untaxed_invoice = Inr ls" "ls \<noteq> []"
    by (cases "build_issuance_lines posting_db untaxed_invoice") auto
  have run: "?run = (Inr (), snd ?run)" using f by (metis prod.collapse)
  have "db_entries posting_db = []" by (simp add: posting_db_def sample_invoice_db_def sample_db_def empty_db_def)
  then have "length (live_entries posting_db (i_company untaxed_invoice) ''invoice'' (i_id untaxed_invoice) EVENT_ISSUED) \<le> 1"
    by (simp add: live_entries_def)
  moreover have "i_status untaxed_invoice \<in> set ISSUED_STATUSES" "ledger_posting_enabled posting_db (i_company untaxed_invoice)"
    "\<not> pre_cutover_era sample_env posting_db untaxed_invoice" "i_company untaxed_invoice = ''gdx''" "i_id untaxed_invoice = 100"
    by code_simp+
  ultimately show ?thesis
    using repost_leaves_one_live_issuance[OF sample_digest_ok posting_db_inv _ _ _ _ ls(1) run] ls(2) by auto
qed



end
