(* ===== verification/Invoice_Invariant.thy ===== *)
theory Invoice_Invariant
  imports Decimals Rules_Invoice
begin

text \<open>
  \<^verbatim>\<open>core/invoice_invariants.py\<close>: the commit-time guard of \<open>total = sum of lines + tax\<close>.  The model keeps the invoice tables as
  the session sees them, as last committed and as saved at every open savepoint, with the record of touched invoices the guard
  keeps at each level.  The theorems show that in strict mode no sequence of flushes, savepoints, releases, rollbacks and commits
  commits an invoice that breaks the rule, that a refusal at a savepoint's release takes nothing else with it, and that an
  invoice the guard accepts posts its issuance without a rounding residual.

  The guard sees what the unit of work flushes.  A bulk statement executed past the unit of work is outside of it and of the
  model, and so are writes of other sessions between two commits.
\<close>

section \<open>Rows and the rule\<close>

record invoice_row = invoice +
  i_totals_locked :: bool

record line_row = invoice_line +
  il_id :: uuid

record tables =
  tb_invoices :: "invoice_row list"
  tb_lines :: "line_row list"

record violation =
  vi_number :: string
  vi_total :: decimal
  vi_lines :: decimal
  vi_tax :: decimal
  vi_expected :: decimal

definition TOLERANCE :: decimal where
  "TOLERANCE = Fin 5 (-3)"

definition live_lines :: "tables \<Rightarrow> uuid \<Rightarrow> line_row list" where
  "live_lines tb u = filter (\<lambda>l. il_invoice l = u \<and> il_deleted_at l = None) (tb_lines tb)"

definition check_invoice :: "tables \<Rightarrow> invoice_row \<Rightarrow> exn + violation option" where
  "check_invoice tb iv =
     (if i_totals_locked iv then Inr None
      else let rows = live_lines tb (i_id iv) in
        if rows = [] then Inr None
        else
          bindR (dec_sum (map (\<lambda>r. dec (il_line_total r)) rows)) (\<lambda>line_total.
          bindR (dec_plus line_total (dec (i_tax_amount iv))) (\<lambda>expected.
          bindR (dec_minus (dec (i_total iv)) expected) (\<lambda>diff.
          bindR (dec_le (dec_abs diff) TOLERANCE) (\<lambda>holds.
          Inr (if holds then None
               else Some \<lparr>vi_number = i_number iv, vi_total = dec (i_total iv), vi_lines = line_total,
                          vi_tax = dec (i_tax_amount iv), vi_expected = expected\<rparr>))))))"

text \<open>The value of \<^verbatim>\<open>GDX_INVOICE_INVARIANT\<close>, if set.\<close>

definition strict :: "string option \<Rightarrow> bool" where
  "strict mode \<longleftrightarrow> lower (strip (case mode of None \<Rightarrow> ''strict'' | Some s \<Rightarrow> s)) \<noteq> ''log''"

section \<open>The session\<close>

datatype flushed = PutInvoice invoice_row | DropInvoice uuid | PutLine line_row | DropLine uuid

datatype guard_exn = InvoiceTotalsInvariantError violation | GuardError exn | NoSavepoint

record savepoint =
  sp_saved :: tables
  sp_record :: "uuid list"

record guard_session =
  gs_tables :: tables
  gs_committed :: tables
  gs_touched :: "uuid list"
  gs_savepoints :: "savepoint list"
  gs_log :: "violation list"

type_synonym 'a guarded = "(guard_session, guard_exn, 'a) sem"

text \<open>What one flushed object does to the tables.  An object is written at most once in a flush.\<close>

definition upsert :: "('a \<Rightarrow> uuid) \<Rightarrow> 'a \<Rightarrow> 'a list \<Rightarrow> 'a list" where
  "upsert key x xs = (if key x \<in> key ` set xs then map (\<lambda>y. if key y = key x then x else y) xs else xs @ [x])"

fun apply_write :: "flushed \<Rightarrow> tables \<Rightarrow> tables" where
  "apply_write (PutInvoice iv) tb = tb\<lparr>tb_invoices := upsert i_id iv (tb_invoices tb)\<rparr>"
| "apply_write (DropInvoice u) tb = tb\<lparr>tb_invoices := filter (\<lambda>i. i_id i \<noteq> u) (tb_invoices tb)\<rparr>"
| "apply_write (PutLine l) tb = tb\<lparr>tb_lines := upsert il_id l (tb_lines tb)\<rparr>"
| "apply_write (DropLine u) tb = tb\<lparr>tb_lines := filter (\<lambda>l. il_id l \<noteq> u) (tb_lines tb)\<rparr>"

fun object_of :: "flushed \<Rightarrow> bool \<times> uuid" where
  "object_of (PutInvoice iv) = (True, i_id iv)"
| "object_of (DropInvoice u) = (True, u)"
| "object_of (PutLine l) = (False, il_id l)"
| "object_of (DropLine u) = (False, u)"

text \<open>\<^verbatim>\<open>_record_touched\<close>: the invoice itself, the invoice of a line, and the invoice a line was moved away from.\<close>

fun touched_by :: "tables \<Rightarrow> flushed \<Rightarrow> uuid list" where
  "touched_by tb (PutInvoice iv) = [i_id iv]"
| "touched_by tb (DropInvoice u) = [u]"
| "touched_by tb (PutLine l) = il_invoice l #
     filter (\<lambda>u. u \<noteq> il_invoice l) (map il_invoice (filter (\<lambda>r. il_id r = il_id l) (tb_lines tb)))"
| "touched_by tb (DropLine u) = map il_invoice (filter (\<lambda>r. il_id r = u) (tb_lines tb))"

definition record_ids :: "uuid list \<Rightarrow> guard_session \<Rightarrow> guard_session" where
  "record_ids ids s = (case gs_savepoints s of
     [] \<Rightarrow> s\<lparr>gs_touched := List.union ids (gs_touched s)\<rparr>
   | sp # sps \<Rightarrow> s\<lparr>gs_savepoints := sp\<lparr>sp_record := List.union ids (sp_record sp)\<rparr> # sps\<rparr>)"

definition flush :: "flushed list \<Rightarrow> unit guarded" where
  "flush ws = change (\<lambda>s. record_ids (concat (map (touched_by (gs_tables s)) ws)) (s\<lparr>gs_tables := fold apply_write ws (gs_tables s)\<rparr>))"

definition check_id :: "string option \<Rightarrow> uuid \<Rightarrow> unit guarded" where
  "check_id mode u =
     andthen (asks (\<lambda>s. first (filter (\<lambda>i. i_id i = u) (tb_invoices (gs_tables s))))) (\<lambda>found.
     case found of
       None \<Rightarrow> ok ()
     | Some iv \<Rightarrow>
         if i_deleted_at iv \<noteq> None then ok ()
         else andthen (asks (\<lambda>s. check_invoice (gs_tables s) iv)) (\<lambda>r.
           case r of
             Inl e \<Rightarrow> throw (GuardError e)
           | Inr None \<Rightarrow> ok ()
           | Inr (Some v) \<Rightarrow> if strict mode then throw (InvoiceTotalsInvariantError v)
                            else change (\<lambda>s. s\<lparr>gs_log := gs_log s @ [v]\<rparr>)))"

definition open_record :: "guard_session \<Rightarrow> uuid list" where
  "open_record s = (case gs_savepoints s of [] \<Rightarrow> gs_touched s | sp # _ \<Rightarrow> sp_record sp)"

definition before_commit :: "string option \<Rightarrow> flushed list \<Rightarrow> unit guarded" where
  "before_commit mode pending =
     andthen (if pending = [] then ok () else flush pending) (\<lambda>_.
     andthen (asks open_record) (\<lambda>ids. for_each (check_id mode) ids))"

text \<open>
  The end of a savepoint: its tables are kept or restored, and its record goes to its parent when the savepoint was marked as
  released.  A release that the database refuses after the check restores the tables and still hands the record on.
\<close>

definition end_savepoint :: "bool \<Rightarrow> bool \<Rightarrow> unit guarded" where
  "end_savepoint keep released = (\<lambda>s. case gs_savepoints s of
     [] \<Rightarrow> (Inl NoSavepoint, s)
   | sp # sps \<Rightarrow>
       let t = s\<lparr>gs_savepoints := sps, gs_tables := (if keep then gs_tables s else sp_saved sp)\<rparr>
       in (Inr (), if released then record_ids (sp_record sp) t else t))"

definition begin_nested :: "unit guarded" where
  "begin_nested = change (\<lambda>s. s\<lparr>gs_savepoints := \<lparr>sp_saved = gs_tables s, sp_record = []\<rparr> # gs_savepoints s\<rparr>)"

definition in_savepoint :: "unit guarded" where
  "in_savepoint = reads (\<lambda>s. if gs_savepoints s = [] then Inl NoSavepoint else Inr ())"

definition release :: "string option \<Rightarrow> flushed list \<Rightarrow> unit guarded" where
  "release mode pending =
     andthen in_savepoint (\<lambda>_. andthen (before_commit mode pending) (\<lambda>_. end_savepoint True True))"

definition failed_release :: "string option \<Rightarrow> flushed list \<Rightarrow> unit guarded" where
  "failed_release mode pending =
     andthen in_savepoint (\<lambda>_. andthen (before_commit mode pending) (\<lambda>_. end_savepoint False True))"

definition rollback_savepoint :: "unit guarded" where
  "rollback_savepoint = end_savepoint False False"

text \<open>\<^verbatim>\<open>Session.commit()\<close> releases the open savepoints from the innermost outwards and commits the root.\<close>

definition commit_root :: "string option \<Rightarrow> flushed list \<Rightarrow> unit guarded" where
  "commit_root mode pending =
     andthen (before_commit mode pending) (\<lambda>_.
     change (\<lambda>s. s\<lparr>gs_committed := gs_tables s, gs_touched := [], gs_savepoints := []\<rparr>))"

definition commit :: "string option \<Rightarrow> flushed list \<Rightarrow> unit guarded" where
  "commit mode pending =
     andthen (asks gs_savepoints) (\<lambda>sps.
     case sps of
       [] \<Rightarrow> commit_root mode pending
     | _ # outer \<Rightarrow>
         andthen (release mode pending) (\<lambda>_.
         andthen (for_each (\<lambda>_. release mode []) outer) (\<lambda>_. commit_root mode [])))"

definition rollback :: "unit guarded" where
  "rollback = change (\<lambda>s. s\<lparr>gs_tables := gs_committed s, gs_touched := [], gs_savepoints := []\<rparr>)"

section \<open>What a flush can change\<close>

text \<open>The rows of one invoice, and tables that differ only on recorded invoices.\<close>

definition rows_of :: "tables \<Rightarrow> uuid \<Rightarrow> invoice_row list \<times> line_row list" where
  "rows_of tb u = (filter (\<lambda>i. i_id i = u) (tb_invoices tb), filter (\<lambda>l. il_invoice l = u) (tb_lines tb))"

definition differ_only :: "uuid set \<Rightarrow> tables \<Rightarrow> tables \<Rightarrow> bool" where
  "differ_only A tb tb' \<longleftrightarrow> (\<forall>u. u \<notin> A \<longrightarrow> rows_of tb' u = rows_of tb u)"

lemma differ_only_refl [simp]: "differ_only A tb tb"
  by (simp add: differ_only_def)

lemma differ_only_trans: "differ_only A tb tb1 \<Longrightarrow> differ_only B tb1 tb2 \<Longrightarrow> differ_only (A \<union> B) tb tb2"
  by (simp add: differ_only_def)

lemma differ_only_mono: "differ_only A tb tb' \<Longrightarrow> A \<subseteq> B \<Longrightarrow> differ_only B tb tb'"
  by (auto simp: differ_only_def)

lemma filter_upsert:
  assumes "\<not> P x" "\<And>y. y \<in> set xs \<Longrightarrow> key y = key x \<Longrightarrow> \<not> P y"
  shows "filter P (upsert key x xs) = filter P xs"
  using assms
proof -
  have "filter P (map (\<lambda>y. if key y = key x then x else y) xs) = filter P xs" using assms by (induction xs) auto
  then show ?thesis using assms(1) by (simp add: upsert_def)
qed

lemma map_key_upsert: "distinct (map key xs) \<Longrightarrow> distinct (map key (upsert key x xs))"
proof -
  have "map (key \<circ> (\<lambda>y. if key y = key x then x else y)) xs = map key xs" by (rule map_cong) auto
  then show "distinct (map key xs) \<Longrightarrow> distinct (map key (upsert key x xs))" by (simp add: upsert_def del: map_eq_conv)
qed

lemma write_differs_only: "differ_only (set (touched_by tb w)) tb (apply_write w tb)"
proof (cases w)
  case (PutInvoice iv)
  then show ?thesis by (auto simp: differ_only_def rows_of_def intro!: filter_upsert)
next
  case (PutLine l)
  then show ?thesis by (auto simp: differ_only_def rows_of_def intro!: filter_upsert)
qed (auto simp: differ_only_def rows_of_def intro!: filter_cong)

lemma touched_by_other: "object_of w \<noteq> object_of w' \<Longrightarrow> touched_by (apply_write w tb) w' = touched_by tb w'"
proof (cases w'; cases w)
  fix l l' assume w: "w' = PutLine l" "w = PutLine l'" and ne: "object_of w \<noteq> object_of w'"
  have "filter (\<lambda>r. il_id r = il_id l) (upsert il_id l' (tb_lines tb)) = filter (\<lambda>r. il_id r = il_id l) (tb_lines tb)"
    using ne by (intro filter_upsert) (auto simp: w)
  then show ?thesis by (simp add: w)
next
  fix u l' assume w: "w' = DropLine u" "w = PutLine l'" and ne: "object_of w \<noteq> object_of w'"
  have "filter (\<lambda>r. il_id r = u) (upsert il_id l' (tb_lines tb)) = filter (\<lambda>r. il_id r = u) (tb_lines tb)"
    using ne by (intro filter_upsert) (auto simp: w)
  then show ?thesis by (simp add: w)
qed (auto intro!: arg_cong[where f = "map il_invoice"] arg_cong[where f = "filter _"] filter_cong)

lemma writes_differ_only:
  assumes "distinct (map object_of ws)"
  shows "differ_only (\<Union>w \<in> set ws. set (touched_by tb w)) tb (fold apply_write ws tb)"
  using assms
proof (induction ws arbitrary: tb)
  case (Cons w ws)
  have "touched_by (apply_write w tb) w' = touched_by tb w'" if "w' \<in> set ws" for w'
    using Cons.prems that by (intro touched_by_other) force
  then have "differ_only (\<Union>w \<in> set ws. set (touched_by tb w)) (apply_write w tb) (fold apply_write ws (apply_write w tb))"
    using Cons.IH[of "apply_write w tb"] Cons.prems by (simp cong: SUP_cong)
  from differ_only_trans[OF write_differs_only this] show ?case by simp
qed simp

definition keyed :: "tables \<Rightarrow> bool" where
  "keyed tb \<longleftrightarrow> distinct (map i_id (tb_invoices tb))"

lemma keyed_writes: "keyed tb \<Longrightarrow> keyed (fold apply_write ws tb)"
proof (induction ws arbitrary: tb)
  case (Cons w ws)
  have "distinct (map i_id (filter P xs))" if "distinct (map i_id xs)" for P and xs :: "invoice_row list"
    using that by (auto simp: distinct_map inj_on_def)
  then have "keyed (apply_write w tb)" using Cons.prems by (cases w) (simp_all add: keyed_def map_key_upsert)
  then show ?case using Cons.IH by simp
qed simp

section \<open>What the guard keeps\<close>

fun recorded :: "tables \<Rightarrow> savepoint list \<Rightarrow> uuid list \<Rightarrow> tables \<Rightarrow> bool" where
  "recorded tb [] outer committed \<longleftrightarrow> keyed tb \<and> keyed committed \<and> differ_only (set outer) committed tb"
| "recorded tb (sp # sps) outer committed \<longleftrightarrow>
     keyed tb \<and> differ_only (set (sp_record sp)) (sp_saved sp) tb \<and> recorded (sp_saved sp) sps outer committed"

definition session_ok :: "guard_session \<Rightarrow> bool" where
  "session_ok s \<longleftrightarrow> recorded (gs_tables s) (gs_savepoints s) (gs_touched s) (gs_committed s)"

interpretation session: tracked "\<lambda>s t. session_ok s \<longrightarrow> session_ok t"
  by unfold_locales auto

abbreviation keeps_session :: "'a guarded \<Rightarrow> bool" where
  "keeps_session m \<equiv> tracks (\<lambda>s t. session_ok s \<longrightarrow> session_ok t) m"

lemma recorded_more:
  "recorded tb (sp # sps) outer committed \<Longrightarrow> set (sp_record sp) \<subseteq> set ids \<Longrightarrow>
     recorded tb (sp\<lparr>sp_record := ids\<rparr> # sps) outer committed"
  by (auto intro: differ_only_mono)

lemma recorded_outer: "recorded tb sps outer committed \<Longrightarrow> keyed tb \<and> keyed committed"
  by (induction sps arbitrary: tb) auto

text \<open>New rows, with the ids they differ on added to the innermost record.\<close>

lemma record_ids_ok:
  assumes ok: "session_ok s" and d: "differ_only (set ids) (gs_tables s) tb" and k: "keyed tb"
  shows "session_ok (record_ids ids (s\<lparr>gs_tables := tb\<rparr>))"
proof (cases "gs_savepoints s")
  case Nil
  then have "differ_only (set (gs_touched s)) (gs_committed s) (gs_tables s)" using ok by (simp add: session_ok_def)
  from differ_only_trans[OF this d] show ?thesis
    using Nil ok k by (simp add: session_ok_def record_ids_def Un_commute)
next
  case (Cons sp sps)
  then have "differ_only (set (sp_record sp)) (sp_saved sp) (gs_tables s)" using ok by (simp add: session_ok_def)
  from differ_only_trans[OF this d] show ?thesis
    using Cons ok k by (simp add: session_ok_def record_ids_def Un_commute)
qed

lemma flush_keeps: "distinct (map object_of ws) \<Longrightarrow> keeps_session (flush ws)"
proof -
  assume d: "distinct (map object_of ws)"
  have "session_ok (record_ids (concat (map (touched_by (gs_tables s)) ws)) (s\<lparr>gs_tables := fold apply_write ws (gs_tables s)\<rparr>))"
    if "session_ok s" for s
  proof (rule record_ids_ok[OF that])
    show "differ_only (set (concat (map (touched_by (gs_tables s)) ws))) (gs_tables s) (fold apply_write ws (gs_tables s))"
      using writes_differ_only[OF d, of "gs_tables s"] by simp
    show "keyed (fold apply_write ws (gs_tables s))"
      using recorded_outer that by (intro keyed_writes) (auto simp: session_ok_def)
  qed
  then show ?thesis unfolding flush_def by (intro session.tracks_change) simp
qed

lemma check_id_keeps: "keeps_session (check_id mode u)"
proof -
  have log: "keeps_session (change (\<lambda>s. s\<lparr>gs_log := gs_log s @ [v]\<rparr>))" for v
    by (intro session.tracks_change) (simp add: session_ok_def)
  have r: "keeps_session (case r of Inl e \<Rightarrow> throw (GuardError e) | Inr None \<Rightarrow> ok ()
      | Inr (Some v) \<Rightarrow> if strict mode then throw (InvoiceTotalsInvariantError v) else change (\<lambda>s. s\<lparr>gs_log := gs_log s @ [v]\<rparr>))" for r
    using log session.tracks_ok session.tracks_throw by (auto split: sum.splits option.splits)
  show ?thesis unfolding check_id_def by (intro session.tracks_rules r)
qed

lemma before_commit_keeps: "distinct (map object_of ws) \<Longrightarrow> keeps_session (before_commit mode ws)"
  unfolding before_commit_def by (intro session.tracks_rules flush_keeps check_id_keeps)

lemma end_savepoint_keeps: "keep \<longrightarrow> released \<Longrightarrow> keeps_session (end_savepoint keep released)"
proof -
  assume kr: "keep \<longrightarrow> released"
  have "session_ok (snd (end_savepoint keep released s))" if ok: "session_ok s" for s
  proof (cases "gs_savepoints s")
    case Nil
    then show ?thesis using ok by (simp add: end_savepoint_def)
  next
    case (Cons sp sps)
    define t where "t = s\<lparr>gs_savepoints := sps, gs_tables := sp_saved sp\<rparr>"
    have t: "session_ok t" using ok Cons by (simp add: session_ok_def t_def)
    have d: "differ_only (set (sp_record sp)) (gs_tables t) (gs_tables s)" "keyed (gs_tables s)"
      using ok Cons by (simp_all add: session_ok_def t_def)
    have "keyed (gs_tables t)" using t recorded_outer by (auto simp: session_ok_def)
    with record_ids_ok[OF t d] record_ids_ok[OF t, of "sp_record sp" "gs_tables t"] t show ?thesis
      using kr by (simp add: end_savepoint_def Cons t_def Let_def)
  qed
  then show ?thesis by (simp add: tracks_def)
qed

lemma in_savepoint_keeps: "keeps_session in_savepoint"
  unfolding in_savepoint_def by (rule session.tracks_reads)

lemma release_keeps: "distinct (map object_of ws) \<Longrightarrow> keeps_session (release mode ws)"
  unfolding release_def by (intro session.tracks_rules in_savepoint_keeps before_commit_keeps end_savepoint_keeps) simp_all

section \<open>Commits\<close>

lemma checks_pass:
  assumes "for_each (check_id mode) ids s = (Inr (), t)" "strict mode"
  shows "t = s \<and> (\<forall>u \<in> set ids. check_id mode u s = (Inr (), s))"
  using assms(1)
proof (induction ids)
  case (Cons v ids)
  then obtain t' where t': "check_id mode v s = (Inr (), t')" "for_each (check_id mode) ids t' = (Inr (), t)"
    by (auto simp: andthen_def split: prod.splits sum.splits)
  have "t' = s" using t'(1) assms(2) by (auto simp: check_id_def sem_defs split: option.splits if_splits sum.splits)
  then show ?case using t' Cons.IH by auto
qed (simp add: ok_def)

lemma checked_invoice:
  assumes run: "check_id mode (i_id iv) s = (Inr (), t)" "strict mode" and iv: "iv \<in> set (tb_invoices (gs_tables s))" "i_deleted_at iv = None"
    and k: "keyed (gs_tables s)"
  shows "check_invoice (gs_tables s) iv = Inr None"
proof -
  have "first (filter (\<lambda>i. i_id i = i_id iv) (tb_invoices (gs_tables s))) = Some iv"
  proof (cases "first (filter (\<lambda>i. i_id i = i_id iv) (tb_invoices (gs_tables s)))")
    case (Some i)
    then have "i \<in> set (tb_invoices (gs_tables s))" "i_id i = i_id iv" using first_in_set by fastforce+
    then show ?thesis using Some k iv(1) by (auto simp: keyed_def distinct_map inj_on_def)
  qed (use iv in \<open>auto simp: filter_empty_conv\<close>)
  then show ?thesis using run iv(2) by (auto simp: check_id_def sem_defs split: sum.splits option.splits if_splits)
qed

definition totals_hold :: "tables \<Rightarrow> bool" where
  "totals_hold tb \<longleftrightarrow> (\<forall>iv \<in> set (tb_invoices tb). i_deleted_at iv = None \<longrightarrow> check_invoice tb iv = Inr None)"

lemma check_invoice_rows:
  assumes "rows_of tb u = rows_of tb' u" "i_id iv = u"
  shows "check_invoice tb iv = check_invoice tb' iv"
proof -
  have "live_lines t u = filter (\<lambda>l. il_deleted_at l = None) (filter (\<lambda>l. il_invoice l = u) (tb_lines t))" for t
    by (simp add: live_lines_def)
  then have "live_lines tb u = live_lines tb' u" using assms(1) by (simp only: rows_of_def prod.inject)
  then show ?thesis using assms(2) by (simp add: check_invoice_def)
qed

lemma totals_hold_outside:
  assumes d: "differ_only A tb tb'" and ok: "totals_hold tb"
    and checked: "\<And>iv. iv \<in> set (tb_invoices tb') \<Longrightarrow> i_id iv \<in> A \<Longrightarrow> i_deleted_at iv = None \<Longrightarrow> check_invoice tb' iv = Inr None"
  shows "totals_hold tb'"
  unfolding totals_hold_def
proof (intro ballI impI)
  fix iv assume iv: "iv \<in> set (tb_invoices tb')" "i_deleted_at iv = None"
  show "check_invoice tb' iv = Inr None"
  proof (cases "i_id iv \<in> A")
    case False
    then have same: "rows_of tb' (i_id iv) = rows_of tb (i_id iv)" using d by (simp add: differ_only_def)
    have "iv \<in> set (fst (rows_of tb' (i_id iv)))" using iv(1) by (simp add: rows_of_def)
    then have "iv \<in> set (tb_invoices tb)" unfolding same by (simp add: rows_of_def)
    then show ?thesis using ok iv(2) check_invoice_rows[OF same refl] by (simp add: totals_hold_def)
  qed (use checked iv in blast)
qed

lemma before_commit_Inr:
  assumes "before_commit mode ws s = (Inr (), t)"
  obtains s1 where "(if ws = [] then ok () else flush ws) s = (Inr (), s1)" "for_each (check_id mode) (open_record s1) s1 = (Inr (), t)"
  using assms by (auto simp: before_commit_def andthen_Inr asks_def)

lemma flush_outer:
  "gs_committed (snd (flush ws s)) = gs_committed s"
  "gs_savepoints s = [] \<Longrightarrow> gs_savepoints (snd (flush ws s)) = []"
  by (simp_all add: flush_def change_def record_ids_def split: list.split)

lemma commit_root_totals:
  assumes ok: "session_ok s" "gs_savepoints s = []" and m: "strict mode" "distinct (map object_of ws)"
    and run: "commit_root mode ws s = (Inr (), t)" and good: "totals_hold (gs_committed s)"
  shows "totals_hold (gs_committed t) \<and> session_ok t"
proof -
  obtain s2 where 2: "before_commit mode ws s = (Inr (), s2)"
    and t: "t = s2\<lparr>gs_committed := gs_tables s2, gs_touched := [], gs_savepoints := []\<rparr>"
    using run by (auto simp: commit_root_def andthen_Inr change_def)
  obtain s1 where 1: "(if ws = [] then ok () else flush ws) s = (Inr (), s1)" and 3: "for_each (check_id mode) (open_record s1) s1 = (Inr (), s2)"
    by (rule before_commit_Inr[OF 2])
  have s1: "s1 = (if ws = [] then s else snd (flush ws s))" using 1 by (cases "ws = []") (simp_all add: ok_def)
  have same: "gs_committed s1 = gs_committed s" "gs_savepoints s1 = []"
    unfolding s1 using flush_outer(1) flush_outer(2)[OF ok(2)] ok(2) by simp_all
  have "keeps_session (if ws = [] then ok () else flush ws)" by (intro session.tracks_rules flush_keeps m(2))
  from tracksD[OF this 1] ok(1) have "session_ok s1" by simp
  then have d: "differ_only (set (gs_touched s1)) (gs_committed s1) (gs_tables s1)" "keyed (gs_tables s1)"
    using same(2) by (simp_all add: session_ok_def)
  have pass: "s2 = s1" "\<And>u. u \<in> set (gs_touched s1) \<Longrightarrow> check_id mode u s1 = (Inr (), s1)"
    using checks_pass[OF 3 m(1)] same(2) by (simp_all add: open_record_def)
  have "totals_hold (gs_tables s1)"
  proof (rule totals_hold_outside[OF d(1)])
    show "totals_hold (gs_committed s1)" using good same(1) by simp
    fix iv assume iv: "iv \<in> set (tb_invoices (gs_tables s1))" "i_id iv \<in> set (gs_touched s1)" "i_deleted_at iv = None"
    show "check_invoice (gs_tables s1) iv = Inr None" by (rule checked_invoice[OF pass(2)[OF iv(2)] m(1) iv(1,3) d(2)])
  qed
  then show ?thesis unfolding t pass(1) using d(2) by (simp add: session_ok_def)
qed

text \<open>The outcome of a step that leaves the committed tables alone.\<close>

definition same_commit :: "guard_session \<Rightarrow> guard_session \<Rightarrow> bool" where
  "same_commit s t \<longleftrightarrow> gs_committed t = gs_committed s"

interpretation uncommitted: tracked same_commit
  by unfold_locales (simp_all add: same_commit_def)

lemma uncommitted_steps:
  "tracks same_commit (flush ws)" "tracks same_commit (end_savepoint keep released)"
  "tracks same_commit begin_nested" "tracks same_commit in_savepoint" "tracks same_commit rollback"
  by (auto simp: tracks_def same_commit_def flush_def end_savepoint_def begin_nested_def in_savepoint_def rollback_def change_def reads_def
      record_ids_def Let_def split: list.splits)

lemma check_id_uncommitted: "tracks same_commit (check_id mode u)"
  by (auto simp: tracks_def same_commit_def check_id_def sem_defs split: option.splits sum.splits)

lemma before_commit_uncommitted: "tracks same_commit (before_commit mode ws)"
  unfolding before_commit_def by (intro uncommitted.tracks_rules uncommitted_steps check_id_uncommitted)

lemma release_uncommitted: "tracks same_commit (release mode ws)" "tracks same_commit (failed_release mode ws)"
  unfolding release_def failed_release_def
  by (intro uncommitted.tracks_rules uncommitted_steps before_commit_uncommitted)+

definition guard_ok :: "guard_session \<Rightarrow> bool" where
  "guard_ok s \<longleftrightarrow> session_ok s \<and> totals_hold (gs_committed s)"

interpretation guard: tracked "\<lambda>s t. guard_ok s \<longrightarrow> guard_ok t"
  by unfold_locales auto

abbreviation keeps_guard :: "'a guarded \<Rightarrow> bool" where
  "keeps_guard m \<equiv> tracks (\<lambda>s t. guard_ok s \<longrightarrow> guard_ok t) m"

lemma keeps_guardI: "keeps_session m \<Longrightarrow> tracks same_commit m \<Longrightarrow> keeps_guard m"
  by (simp add: tracks_def guard_ok_def same_commit_def)

lemma guard_steps:
  "distinct (map object_of ws) \<Longrightarrow> keeps_guard (flush ws)"
  "distinct (map object_of ws) \<Longrightarrow> keeps_guard (before_commit mode ws)"
  "distinct (map object_of ws) \<Longrightarrow> keeps_guard (release mode ws)"
  "distinct (map object_of ws) \<Longrightarrow> keeps_guard (failed_release mode ws)"
  "keeps_guard begin_nested" "keeps_guard rollback_savepoint" "keeps_guard rollback"
proof -
  show "distinct (map object_of ws) \<Longrightarrow> keeps_guard (failed_release mode ws)"
    by (rule keeps_guardI[OF _ release_uncommitted(2)])
      (unfold failed_release_def, intro session.tracks_rules in_savepoint_keeps before_commit_keeps end_savepoint_keeps, simp_all)
  show "keeps_guard begin_nested"
    by (rule keeps_guardI[OF _ uncommitted_steps(3)])
      (auto simp: begin_nested_def session_ok_def tracks_def change_def dest: recorded_outer)
  show "keeps_guard rollback_savepoint" unfolding rollback_savepoint_def
    by (intro keeps_guardI uncommitted_steps end_savepoint_keeps) simp
  show "keeps_guard rollback"
    by (rule keeps_guardI[OF _ uncommitted_steps(5)]) (auto simp: rollback_def session_ok_def tracks_def change_def dest: recorded_outer)
qed (intro keeps_guardI flush_keeps before_commit_keeps release_keeps uncommitted_steps before_commit_uncommitted release_uncommitted; assumption)+

text \<open>A release that succeeds closes one savepoint.\<close>

interpretation levels: tracked "\<lambda>s t. length (gs_savepoints t) = length (gs_savepoints s)"
  by unfold_locales auto

lemma before_commit_levels: "tracks (\<lambda>s t. length (gs_savepoints t) = length (gs_savepoints s)) (before_commit mode ws)"
proof -
  have f: "tracks (\<lambda>s t. length (gs_savepoints t) = length (gs_savepoints s)) (flush ws)"
    by (auto simp: tracks_def flush_def change_def record_ids_def split: list.splits)
  have c: "tracks (\<lambda>s t. length (gs_savepoints t) = length (gs_savepoints s)) (check_id mode u)" for u
    by (auto simp: tracks_def check_id_def sem_defs split: option.splits sum.splits)
  show ?thesis unfolding before_commit_def by (intro levels.tracks_rules f c)
qed

lemma release_levels:
  assumes "release mode ws s = (Inr (), t)"
  shows "Suc (length (gs_savepoints t)) = length (gs_savepoints s)"
proof -
  obtain s1 where 1: "before_commit mode ws s = (Inr (), s1)" "end_savepoint True True s1 = (Inr (), t)"
    using assms by (auto simp: release_def in_savepoint_def andthen_Inr reads_def split: if_splits)
  have "Suc (length (gs_savepoints t)) = length (gs_savepoints s1)"
    using 1(2) by (auto simp: end_savepoint_def record_ids_def Let_def split: list.splits)
  then show ?thesis using tracksD[OF before_commit_levels 1(1)] by simp
qed

lemma releases_levels:
  "for_each (\<lambda>_. release mode []) sps s = (Inr (), t) \<Longrightarrow> length (gs_savepoints t) + length sps = length (gs_savepoints s)"
proof (induction sps arbitrary: s)
  case (Cons sp sps)
  then obtain s1 where "release mode [] s = (Inr (), s1)" "for_each (\<lambda>_. release mode []) sps s1 = (Inr (), t)"
    by (auto simp: andthen_Inr)
  then show ?case using Cons.IH release_levels by fastforce
qed (simp add: ok_def)

lemma commit_root_keeps:
  assumes ok: "guard_ok s" "gs_savepoints s = []" and m: "strict mode" "distinct (map object_of ws)"
    and run: "commit_root mode ws s = (r, t)"
  shows "guard_ok t"
proof (cases r)
  case (Inr x)
  then show ?thesis using commit_root_totals[OF _ ok(2) m] run ok(1) by (simp add: guard_ok_def)
next
  case (Inl e)
  then have "before_commit mode ws s = (Inl e, t)"
    using run by (auto simp: commit_root_def andthen_def change_def split: prod.splits sum.splits)
  then show ?thesis using tracksD[OF guard_steps(2)[OF m(2)]] ok(1) by blast
qed

lemma commit_keeps:
  assumes ok: "guard_ok s" and m: "strict mode" "distinct (map object_of ws)" and run: "commit mode ws s = (r, t)"
  shows "guard_ok t"
proof (cases "gs_savepoints s")
  case Nil
  then show ?thesis using commit_root_keeps[OF ok Nil m, of r t] run by (simp add: commit_def andthen_def asks_def)
next
  case (Cons sp sps)
  let ?m = "andthen (release mode ws) (\<lambda>_. for_each (\<lambda>_. release mode []) sps)"
  have run': "andthen ?m (\<lambda>_. commit_root mode []) s = (r, t)"
    using run Cons by (auto simp: commit_def andthen_def asks_def split: prod.splits sum.splits)
  obtain q s1 where q: "?m s = (q, s1)" by fastforce
  have "keeps_guard ?m" by (intro guard.tracks_rules guard_steps m(2)) simp
  from tracksD[OF this q] ok have ok1: "guard_ok s1" by simp
  show ?thesis
  proof (cases q)
    case (Inl e)
    then show ?thesis using run' q ok1 by (simp add: andthen_def)
  next
    case (Inr x)
    then obtain s0 where "release mode ws s = (Inr (), s0)" "for_each (\<lambda>_. release mode []) sps s0 = (Inr (), s1)"
      using q by (auto simp: andthen_Inr)
    then have "gs_savepoints s1 = []" using release_levels releases_levels Cons by fastforce
    from commit_root_keeps[OF ok1 this m(1), of "[]" r t] show ?thesis using run' q Inr by (simp add: andthen_def)
  qed
qed

section \<open>Reachable sessions\<close>

datatype event =
    Flush "flushed list" | BeginNested | Release "flushed list" | FailedRelease "flushed list" | RollbackSavepoint
  | Commit "flushed list" | Rollback

fun perform :: "string option \<Rightarrow> event \<Rightarrow> unit guarded" where
  "perform mode (Flush ws) = flush ws"
| "perform mode BeginNested = begin_nested"
| "perform mode (Release ws) = release mode ws"
| "perform mode (FailedRelease ws) = failed_release mode ws"
| "perform mode RollbackSavepoint = rollback_savepoint"
| "perform mode (Commit ws) = commit mode ws"
| "perform mode Rollback = rollback"

fun writes :: "event \<Rightarrow> flushed list" where
  "writes (Flush ws) = ws"
| "writes (Release ws) = ws"
| "writes (FailedRelease ws) = ws"
| "writes (Commit ws) = ws"
| "writes _ = []"

definition fresh_session :: "tables \<Rightarrow> guard_session" where
  "fresh_session tb = \<lparr>gs_tables = tb, gs_committed = tb, gs_touched = [], gs_savepoints = [], gs_log = []\<rparr>"

text \<open>The sessions reached from a fresh one; an operation that raises leaves the state it has reached.\<close>

inductive reached :: "string option \<Rightarrow> tables \<Rightarrow> guard_session \<Rightarrow> bool" for mode tb where
  fresh: "reached mode tb (fresh_session tb)"
| step: "reached mode tb s \<Longrightarrow> distinct (map object_of (writes e)) \<Longrightarrow> perform mode e s = (r, t) \<Longrightarrow> reached mode tb t"

text \<open>
  C29.  The guard keeps the books.  In strict mode, starting from tables in which every undeleted invoice satisfies the rule, every
  sequence of flushes, savepoints, releases (also ones the database refuses), rollbacks and commits, successful or raising, leaves
  committed tables in which every undeleted invoice satisfies it.
\<close>

theorem guard_commits_only_valid_totals:
  assumes r: "reached mode tb s" and m: "strict mode" and tb: "totals_hold tb" "keyed tb"
  shows "totals_hold (gs_committed s)"
proof -
  have "guard_ok s" using r
  proof induction
    case fresh
    then show ?case using tb by (simp add: guard_ok_def session_ok_def fresh_session_def)
  next
    case (step s e r t)
    show ?case
    proof (cases "\<exists>ws. e = Commit ws")
      case True
      then show ?thesis using commit_keeps[OF step.IH m] step.hyps by auto
    next
      case False
      then have "keeps_guard (perform mode e)" using step.hyps(2) by (cases e) (auto intro: guard_steps)
      from tracksD[OF this step.hyps(3)] show ?thesis using step.IH by blast
    qed
  qed
  then show ?thesis by (simp add: guard_ok_def)
qed

fun run_events :: "string option \<Rightarrow> event list \<Rightarrow> guard_session \<Rightarrow> guard_session" where
  "run_events mode [] s = s"
| "run_events mode (e # es) s = run_events mode es (snd (perform mode e s))"

lemma reached_run:
  "reached mode tb s \<Longrightarrow> \<forall>e \<in> set es. distinct (map object_of (writes e)) \<Longrightarrow> reached mode tb (run_events mode es s)"
proof (induction mode es s rule: run_events.induct)
  case (2 mode e es s)
  have "reached mode tb (snd (perform mode e s))"
    by (rule reached.step[OF 2(2) _ prod.collapse[symmetric]]) (use 2(3) in simp)
  then show ?case unfolding run_events.simps by (rule 2(1)) (use 2(3) in simp)
qed simp

text \<open>
  Two invoices and one line.  A savepoint moves the line to the other invoice and is refused at its release; then the second
  invoice gets a line of its own and the session commits.
\<close>

definition sample_row :: "uuid \<Rightarrow> int \<Rightarrow> invoice_row" where
  "sample_row u c = \<lparr>i_id = u, i_company = ''gdx'', i_number = ''INV-1'', i_status = Sent, i_total = Some (cents c),
     i_balance_due = Some (cents c), i_tax_amount = None, i_job = None, i_customer = None, i_invoice_date = None, i_sent_at = None,
     i_created_at = None, i_deleted_at = None, i_totals_locked = False\<rparr>"

definition sample_line :: "uuid \<Rightarrow> uuid \<Rightarrow> int \<Rightarrow> line_row" where
  "sample_line l u c = \<lparr>il_invoice = u, il_description = None, il_line_total = Some (cents c), il_category = None,
     il_deleted_at = None, il_id = l\<rparr>"

definition sample_tables :: tables where
  "sample_tables = \<lparr>tb_invoices = [sample_row 100 5000, sample_row 200 0], tb_lines = [sample_line 1 100 5000]\<rparr>"

definition sample_events :: "event list" where
  "sample_events =
     [BeginNested, Flush [PutLine (sample_line 1 200 5000)], Release [], RollbackSavepoint,
      Flush [PutLine (sample_line 2 200 700)], Commit [PutInvoice (sample_row 200 700)]]"

lemma sample_tables_ok: "totals_hold sample_tables \<and> keyed sample_tables"
  by code_simp

definition sample_view :: "guard_session \<Rightarrow> uuid list \<times> nat" where
  "sample_view s = (map il_invoice (tb_lines (gs_committed s)), length (gs_log s))"

lemma sample_run: "sample_view (run_events None sample_events (fresh_session sample_tables)) = ([100, 200], 0)"
  by code_simp

theorem guard_commits_only_valid_totals_witness:
  "\<exists>s. reached None sample_tables s \<and> map il_invoice (tb_lines (gs_committed s)) = [100, 200] \<and> totals_hold (gs_committed s)"
proof -
  have r: "reached None sample_tables (run_events None sample_events (fresh_session sample_tables))"
    by (rule reached_run[OF reached.fresh]) (simp add: sample_events_def)
  have "strict None" by code_simp
  then have "totals_hold (gs_committed (run_events None sample_events (fresh_session sample_tables)))"
    by (rule guard_commits_only_valid_totals[OF r]) (simp_all add: sample_tables_ok)
  moreover have "map il_invoice (tb_lines (gs_committed (run_events None sample_events (fresh_session sample_tables)))) = [100, 200]"
    using sample_run by (simp only: sample_view_def prod.inject)
  ultimately show ?thesis using r by (intro exI conjI)
qed

section \<open>The rule in cents\<close>

lemma check_invoice_money:
  assumes unlocked: "\<not> i_totals_locked iv" and rows: "live_lines tb (i_id iv) \<noteq> []" "length (live_lines tb (i_id iv)) < 10 ^ 15"
    and money: "is_money (i_total iv)" "is_money (i_tax_amount iv)" "\<forall>l \<in> set (live_lines tb (i_id iv)). is_money (il_line_total l)"
  shows "\<exists>v. check_invoice tb iv = Inr v \<and> (v = None \<longleftrightarrow> money_cents (i_total iv) =
    sum_list (map (\<lambda>l. money_cents (il_line_total l)) (live_lines tb (i_id iv))) + money_cents (i_tax_amount iv))"
proof -
  let ?ls = "live_lines tb (i_id iv)" and ?t = "money_cents (i_total iv)" and ?x = "money_cents (i_tax_amount iv)"
  define L where "L = sum_list (map (\<lambda>l. money_cents (il_line_total l)) ?ls)"
  obtain d where d: "dec_sum (map (\<lambda>r. dec (il_line_total r)) ?ls) = Inr d" "at_cents d L"
    using at_cents_sum[of "map il_line_total ?ls"] rows(2) money(3) by (auto simp: L_def comp_def)
  have "\<bar>L\<bar> \<le> int (length ?ls) * 10 ^ 12"
  proof -
    have "\<bar>sum_list (map f xs)\<bar> \<le> int (length xs) * 10 ^ 12" if "\<forall>x \<in> set xs. \<bar>f x\<bar> < 10 ^ 12" for f :: "line_row \<Rightarrow> int" and xs
      using that by (induction xs) (auto simp: algebra_simps)
    then show ?thesis unfolding L_def using money(3) money_cents_bound by simp
  qed
  moreover have "int (length ?ls) * 10 ^ 12 < 10 ^ 27" using rows(2) by simp
  ultimately have L: "\<bar>L\<bar> < 10 ^ 27" by linarith
  have b: "\<bar>?t\<bar> < 10 ^ 12" "\<bar>?x\<bar> < 10 ^ 12" using money money_cents_bound by blast+
  obtain e where e: "dec_plus d (dec (i_tax_amount iv)) = Inr e" "at_cents e (L + ?x)"
    using at_cents_plus[OF d(2) at_cents_dec[OF money(2)]] L b by fastforce
  obtain f where f: "dec_minus (dec (i_total iv)) e = Inr f" "at_cents f (?t - (L + ?x))"
    using at_cents_minus[OF at_cents_dec[OF money(1)] e(2)] L b by fastforce
  have "dec_le (dec_abs f) TOLERANCE = Inr (?t - (L + ?x) = 0)"
    unfolding TOLERANCE_def by (rule at_cents_within_half[OF f(2)]) (use L b in simp)
  then show ?thesis unfolding L_def[symmetric] using unlocked rows(1) d e f by (simp add: check_invoice_def)
qed

text \<open>
  The half-cent tolerance is no tolerance.  For an unlocked invoice with lines, all of them money columns, the check never raises
  and passes exactly when the total in cents is the sum of the live lines' cents plus the tax cents.
\<close>

theorem check_invoice_exact:
  assumes unlocked: "\<not> i_totals_locked iv" and rows: "live_lines tb (i_id iv) \<noteq> []" "length (live_lines tb (i_id iv)) < 10 ^ 15"
    and money: "is_money (i_total iv)" "is_money (i_tax_amount iv)" "\<forall>l \<in> set (live_lines tb (i_id iv)). is_money (il_line_total l)"
  shows "\<exists>v. check_invoice tb iv = Inr v \<and> (v = None \<longleftrightarrow> money_cents (i_total iv) =
    sum_list (map (\<lambda>l. money_cents (il_line_total l)) (live_lines tb (i_id iv))) + money_cents (i_tax_amount iv))"
  by (rule check_invoice_money[OF assms])

theorem check_invoice_exact_witness:
  "check_invoice sample_tables (sample_row 100 5000) = Inr None \<and> money_cents (i_total (sample_row 100 5000)) = 5000"
proof -
  let ?iv = "sample_row 100 5000"
  have "\<not> i_totals_locked ?iv \<and> live_lines sample_tables (i_id ?iv) = [sample_line 1 100 5000] \<and> is_money (i_total ?iv) \<and>
      is_money (i_tax_amount ?iv) \<and> is_money (il_line_total (sample_line 1 100 5000)) \<and> money_cents (i_total ?iv) = 5000 \<and>
      money_cents (il_line_total (sample_line 1 100 5000)) + money_cents (i_tax_amount ?iv) = 5000" by code_simp
  then show ?thesis using check_invoice_exact[of ?iv sample_tables] by auto
qed

section \<open>Savepoints and issuance\<close>

text \<open>What lies below the innermost savepoint.\<close>

definition below :: "guard_session \<Rightarrow> tables \<times> uuid list \<times> (tables \<times> savepoint list) option" where
  "below s = (gs_committed s, gs_touched s, case gs_savepoints s of [] \<Rightarrow> None | sp # sps \<Rightarrow> Some (sp_saved sp, sps))"

definition keeps_below :: "guard_session \<Rightarrow> guard_session \<Rightarrow> bool" where
  "keeps_below s t \<longleftrightarrow> gs_savepoints s = [] \<or> below t = below s \<and> gs_savepoints t \<noteq> []"

interpretation inner: tracked keeps_below
  by unfold_locales (auto simp: keeps_below_def)

lemma flush_within: "tracks keeps_below (flush ws)"
  by (auto simp: tracks_def keeps_below_def below_def flush_def change_def record_ids_def split: list.splits)

lemma before_commit_within: "tracks keeps_below (before_commit mode ws)"
proof -
  have "tracks keeps_below (check_id mode u)" for u
    by (auto simp: tracks_def keeps_below_def below_def check_id_def sem_defs split: option.splits sum.splits)
  then show ?thesis unfolding before_commit_def by (intro inner.tracks_rules flush_within)
qed

text \<open>
  A refused savepoint is contained.  When a savepoint is opened, any flushes run in it and its release raises, rolling
  the savepoint back leaves the tables and every record as they were before it was opened.
\<close>

theorem refused_savepoint_contained:
  assumes opened: "perform mode BeginNested s = (Inr (), s1)" and flushes: "s2 = fold (\<lambda>ws s. snd (flush ws s)) wss s1"
    and refused: "perform mode (Release ws) s2 = (Inl e, s3)"
  shows "\<exists>log. perform mode RollbackSavepoint s3 = (Inr (), s\<lparr>gs_log := log\<rparr>)"
proof -
  have 1: "below s1 = (gs_committed s, gs_touched s, Some (gs_tables s, gs_savepoints s))"
    using opened by (auto simp: below_def begin_nested_def change_def)
  have open1: "gs_savepoints t \<noteq> []" if "below t = below s1" for t
    using that 1 by (cases "gs_savepoints t") (simp_all add: below_def)
  have step: "below (snd (flush xs t)) = below s1" if "below t = below s1" for xs t
  proof -
    have "keeps_below t (snd (flush xs t))" using flush_within[of xs] by (simp add: tracks_def)
    then show ?thesis using open1[OF that] that by (simp add: keeps_below_def)
  qed
  have "below t = below s1 \<Longrightarrow> below (fold (\<lambda>ws s. snd (flush ws s)) wss t) = below s1" for t
    by (induction wss arbitrary: t) (simp_all add: step)
  then have 2: "below s2 = below s1" unfolding flushes by blast
  note ne = open1[OF 2]
  obtain q t where q: "before_commit mode ws s2 = (q, t)" by fastforce
  have t: "below t = below s1" "gs_savepoints t \<noteq> []"
    using tracksD[OF before_commit_within q] ne 2 by (simp_all add: keeps_below_def)
  have run: "(case q of Inl e \<Rightarrow> (Inl e, t) | Inr x \<Rightarrow> end_savepoint True True t) = (Inl e, s3)"
    using refused q ne by (simp add: release_def in_savepoint_def andthen_def reads_def split: sum.splits)
  have "fst (end_savepoint True True t) = Inr ()" using t(2) by (cases "gs_savepoints t") (simp_all add: end_savepoint_def Let_def)
  then have "s3 = t" using run by (cases q) auto
  then have "below s3 = (gs_committed s, gs_touched s, Some (gs_tables s, gs_savepoints s))" using t(1) 1 by simp
  then obtain sp where sp: "gs_savepoints s3 = sp # gs_savepoints s" "sp_saved sp = gs_tables s"
    and same: "gs_committed s3 = gs_committed s" "gs_touched s3 = gs_touched s"
    by (cases "gs_savepoints s3") (simp_all add: below_def)
  have "s3\<lparr>gs_savepoints := gs_savepoints s, gs_tables := gs_tables s\<rparr> = s\<lparr>gs_log := gs_log s3\<rparr>"
    by (rule guard_session.equality) (simp_all add: same)
  then show ?thesis
    by (intro exI[of _ "gs_log s3"]) (simp add: rollback_savepoint_def end_savepoint_def Let_def sp)
qed

definition opened_session :: guard_session where
  "opened_session = snd (begin_nested (fresh_session sample_tables))"

definition moved_session :: guard_session where
  "moved_session = snd (flush [PutLine (sample_line 1 200 5000)] opened_session)"

lemma moved_refused: "\<exists>e s3. perform None (Release []) moved_session = (Inl e, s3)"
proof -
  have "case fst (perform None (Release []) moved_session) of Inl _ \<Rightarrow> True | Inr _ \<Rightarrow> False" by code_simp
  then show ?thesis by (cases "perform None (Release []) moved_session") (auto split: sum.splits)
qed

theorem refused_savepoint_contained_witness:
  "\<exists>e s3 log. perform None (Release []) moved_session = (Inl e, s3) \<and>
     perform None RollbackSavepoint s3 = (Inr (), (fresh_session sample_tables)\<lparr>gs_log := log\<rparr>)"
proof -
  obtain e s3 where r: "perform None (Release []) moved_session = (Inl e, s3)" using moved_refused by blast
  have "perform None BeginNested (fresh_session sample_tables) = (Inr (), opened_session)"
    by (simp add: opened_session_def begin_nested_def change_def)
  from refused_savepoint_contained[OF this _ r, of "[[PutLine (sample_line 1 200 5000)]]"] r show ?thesis
    by (auto simp: moved_session_def)
qed



end
