(* ===== verification/Rules_Payment.thy ===== *)
theory Rules_Payment
  imports Rules_Invoice "HOL-Library.Multiset"
begin

text \<open>
  P3 and P4 of \<^verbatim>\<open>modules/ledger/rules.py\<close>: what a payment posts, the settlement of payments from before the
  cutover that were learned late, and the resettling of all payments of an invoice after one of them was
  voided or re-dated.
\<close>

section \<open>P3\<close>

definition remaining_ar :: "gl_db \<Rightarrow> invoice \<Rightarrow> payment \<Rightarrow> exn + int" where
  "remaining_ar db iv p =
     (if i_status iv = Void then Inr 0
      else bindR (col_cents (i_total iv)) (\<lambda>t.
           bindR (prior_nonvoided_paid_cents db iv p) (\<lambda>prior.
           bindR (invoice_credited_cents db iv) (\<lambda>credited.
           Inr (max (t - prior - credited) 0)))))"

text \<open>The line set for an amount, a surcharge, the method's role and the receivable still open.\<close>

definition payment_lines :: "payment \<Rightarrow> invoice \<Rightarrow> int \<Rightarrow> int \<Rightarrow> string \<Rightarrow> int \<Rightarrow> posting_line list" where
  "payment_lines p iv amount_cents surcharge_cents method_role remaining =
     (let ar_portion = min amount_cents remaining;
          excess = amount_cents - ar_portion
      in [posting (amount_cents + surcharge_cents) method_role (i_job iv) (i_customer iv)
            (''payment on '' @ i_number iv @ '' ('' @ fmt (p_method p) @ '')'')] @
         (if surcharge_cents \<noteq> 0 then
            [posting (- surcharge_cents) ROLE_SURCHARGE_INCOME (i_job iv) (i_customer iv)
               (''card surcharge on '' @ i_number iv)] else []) @
         (if ar_portion \<noteq> 0 then
            [posting (- ar_portion) ROLE_AR (i_job iv) (i_customer iv)
               (''payment applied to '' @ i_number iv)] else []) @
         (if excess \<noteq> 0 then
            [posting (- excess) ROLE_CUSTOMER_CREDITS (i_job iv) (i_customer iv)
               ((if i_status iv = Void then ''payment on voided invoice '' else ''overpayment on '') @
                i_number iv @ '' '' @ right_arrow @ '' customer credit'')] else []))"

definition build_payment_lines :: "payment \<Rightarrow> invoice \<Rightarrow> posting_line list gl" where
  "build_payment_lines p iv =
     andthen (lift (col_cents (p_amount p))) (\<lambda>amount_cents.
     andthen (lift (col_cents (p_surcharge p))) (\<lambda>surcharge_cents.
     if amount_cents = 0 \<and> surcharge_cents = 0 then ok []
     else
       andthen (reads (\<lambda>db. case get_gl_settings db (i_company iv) of
                  None \<Rightarrow> Inl LedgerConfigError | Some s \<Rightarrow> resolve_payment_method_role s (p_method p))) (\<lambda>method_role.
       andthen (reads (\<lambda>db. remaining_ar db iv p)) (\<lambda>remaining.
       andthen (if surcharge_cents \<noteq> 0
                then andthen (ensure_role_account (i_company iv) ROLE_SURCHARGE_INCOME) (\<lambda>_. ok ())
                else ok ()) (\<lambda>_.
       ok (payment_lines p iv amount_cents surcharge_cents method_role remaining))))))"

section \<open>Late-learned settlements of the era before the cutover\<close>

definition is_late_era_settlement :: "payment \<Rightarrow> bool \<Rightarrow> date option \<Rightarrow> bool" where
  "is_late_era_settlement p invoice_is_era cutover =
     (case (cutover, p_date p) of
        (Some c, Some d) \<Rightarrow> invoice_is_era \<and> d < c \<and> \<not> existed_at_cutover p c
      | _ \<Rightarrow> False)"

primrec era_alloc :: "payment list \<Rightarrow> int \<Rightarrow> exn + (uuid \<times> int) list" where
  "era_alloc [] pool = Inr []"
| "era_alloc (p # ps) pool =
     (if p_voided_at p \<noteq> None then bindR (era_alloc ps pool) (\<lambda>r. Inr ((p_id p, 0) # r))
      else bindR (col_cents (p_amount p)) (\<lambda>a.
           let c = min a pool in bindR (era_alloc ps (pool - c)) (\<lambda>r. Inr ((p_id p, c) # r))))"

definition era_order :: "payment \<Rightarrow> date \<times> datetime \<times> string" where
  "era_order p = ((case p_date p of Some d \<Rightarrow> d | None \<Rightarrow> Date 0 0 0), payment_order p)"

definition late_era_allocation :: "gl_db \<Rightarrow> invoice \<Rightarrow> date \<Rightarrow> exn + (uuid \<times> int) list" where
  "late_era_allocation db iv cutover =
     bindR (opening_balance_cents db iv cutover) (\<lambda>opening.
     era_alloc (sort_key era_order
       (filter (\<lambda>p. is_late_era_settlement p True (Some cutover)) (invoice_payments db iv))) (max 0 opening))"

definition post_era_settlement ::
  "gl_env \<Rightarrow> payment \<Rightarrow> invoice \<Rightarrow> int \<Rightarrow> string option \<Rightarrow> gl_entry option gl" where
  "post_era_settlement env p iv c actor =
     andthen (asks (\<lambda>db. ledger_posting_enabled db (i_company iv))) (\<lambda>enabled.
     if \<not> enabled then ok None
     else andthen (lift (col_cents (p_amount p))) (\<lambda>_.
       if c \<le> 0 then ok None
       else andthen (reads (\<lambda>db. case cutover_date db (i_company iv) of
              None \<Rightarrow> Inl AttributeError | Some d \<Rightarrow> Inr d)) (\<lambda>cutover.
         let memo = ''era settlement of '' @ i_number iv @ '': payment dated '' @
               (case p_date p of None \<Rightarrow> ''unknown'' | Some d \<Rightarrow> isoformat d) @
               '', recorded after cutover '' @ em_dash @ '' posted at first open day''
         in andthen (post_for_event env False
              (event_of (i_company iv) ''payment'' (p_id p) EVENT_ERA_SETTLEMENT cutover
                [posting c ROLE_OPENING_EQUITY None (i_customer iv) memo,
                 posting (- c) ROLE_AR (i_job iv) (i_customer iv) memo] actor)) (\<lambda>e. ok (Some e)))))"

text \<open>
  An opening-era payment voided after the cutover has no P3 to reverse: the void posts a compensator.
\<close>

definition post_opening_payment_void :: "gl_env \<Rightarrow> payment \<Rightarrow> invoice \<Rightarrow> string option \<Rightarrow> unit gl" where
  "post_opening_payment_void env p iv actor =
     andthen (reads (\<lambda>db. case get_gl_settings db (i_company iv) of
                None \<Rightarrow> Inl LedgerConfigError | Some s \<Rightarrow> resolve_payment_method_role s (p_method p))) (\<lambda>method_role.
     andthen (lift (col_cents (p_amount p))) (\<lambda>amount_cents.
     if amount_cents = 0 then ok ()
     else andthen (asks (\<lambda>db. live_event_entry db ''payment'' (p_id p) EVENT_OPENING_PAYMENT_VOID)) (\<lambda>live.
       if live \<noteq> None then ok ()
       else andthen (asks (\<lambda>db. shop_effective_at env db ''payment'' (p_id p) EVENT_OPENING_PAYMENT_VOID (p_voided_at p))) (\<lambda>when.
            andthen (post_for_event env False
              (event_of (i_company iv) ''payment'' (p_id p) EVENT_OPENING_PAYMENT_VOID when
                [posting amount_cents ROLE_AR (i_job iv) (i_customer iv)
                   (''void of opening-era payment on '' @ i_number iv),
                 posting (- amount_cents) method_role (i_job iv) (i_customer iv)
                   (''void of opening-era payment on '' @ i_number iv)] actor)) (\<lambda>_. ok ())))))"

section \<open>P4: resettling\<close>

definition with_lock_fallback :: "date option \<Rightarrow> (date option \<Rightarrow> 'a gl) \<Rightarrow> 'a gl" where
  "with_lock_fallback fallback_at write =
     catch (write None) (\<lambda>x.
       case x of
         PeriodLockedError _ _ \<Rightarrow> (case fallback_at of None \<Rightarrow> throw x | Some d \<Rightarrow> write (Some d))
       | _ \<Rightarrow> throw x)"

definition resettle_reverse :: "gl_env \<Rightarrow> string option \<Rightarrow> date option \<Rightarrow> gl_entry \<Rightarrow> unit gl" where
  "resettle_reverse env actor fallback_at live =
     andthen (with_lock_fallback fallback_at (\<lambda>when. reverse_entry env live when actor False)) (\<lambda>_. ok ())"

definition payment_event ::
  "gl_env \<Rightarrow> invoice \<Rightarrow> payment \<Rightarrow> posting_line list \<Rightarrow> string option \<Rightarrow> date option \<Rightarrow> posting_event" where
  "payment_event env iv p ls actor when =
     event_of (i_company iv) ''payment'' (p_id p) EVENT_PAYMENT
       (case when of Some d \<Rightarrow> d | None \<Rightarrow> date_or_today env (p_date p)) ls actor"

definition resettle_repost ::
  "gl_env \<Rightarrow> invoice \<Rightarrow> string option \<Rightarrow> date option \<Rightarrow> payment \<Rightarrow> posting_line list \<Rightarrow> gl_entry gl" where
  "resettle_repost env iv actor fallback_at p ls =
     with_lock_fallback fallback_at (\<lambda>when. post_for_event env False (payment_event env iv p ls actor when))"

definition reverse_others :: "gl_env \<Rightarrow> string option \<Rightarrow> date option \<Rightarrow> uuid option \<Rightarrow> gl_entry list \<Rightarrow> unit gl" where
  "reverse_others env actor fallback_at kept lives =
     for_each (\<lambda>l. if kept = Some (e_id l) then ok () else resettle_reverse env actor fallback_at l) lives"

definition resettle_payment ::
  "gl_env \<Rightarrow> invoice \<Rightarrow> string option \<Rightarrow> date option \<Rightarrow> bool \<Rightarrow> date option \<Rightarrow> (uuid \<times> int) list \<Rightarrow> payment \<Rightarrow> unit gl" where
  "resettle_payment env iv actor fallback_at era_invoice cutover era_allocation p =
     (let in_opening = (case cutover of None \<Rightarrow> False | Some c \<Rightarrow> era_invoice \<and> existed_at_cutover p c);
          late_era = is_late_era_settlement p era_invoice cutover
      in if p_voided_at p \<noteq> None then
           andthen (asks (\<lambda>db. live_payment_entries db p (i_company iv))) (\<lambda>lives.
           andthen (reverse_others env actor fallback_at None lives) (\<lambda>_.
           andthen (asks (\<lambda>db. live_era_settlement_entries db p (i_company iv))) (\<lambda>eras.
           andthen (reverse_others env actor fallback_at None eras) (\<lambda>_.
           if (case cutover of None \<Rightarrow> False | Some c \<Rightarrow> in_opening \<and> \<not> voided_before_cutover p c)
           then post_opening_payment_void env p iv actor else ok ()))))
         else if late_era then
           andthen (post_era_settlement env p iv
                      (case map_of era_allocation (p_id p) of None \<Rightarrow> 0 | Some c \<Rightarrow> c) actor) (\<lambda>posted.
           andthen (asks (\<lambda>db. live_era_settlement_entries db p (i_company iv))) (\<lambda>eras.
           reverse_others env actor fallback_at (map_option e_id posted) eras))
         else if in_opening then ok ()
         else
           andthen (build_payment_lines p iv) (\<lambda>ls.
           if ls = [] then ok ()
           else
             andthen (resettle_repost env iv actor fallback_at p ls) (\<lambda>posted.
             andthen (asks (\<lambda>db. live_payment_entries db p (i_company iv))) (\<lambda>lives.
             reverse_others env actor fallback_at (Some (e_id posted)) lives))))"

definition resettle_invoice_payments ::
  "gl_env \<Rightarrow> invoice \<Rightarrow> string option \<Rightarrow> date option \<Rightarrow> unit gl" where
  "resettle_invoice_payments env iv actor fallback_at =
     andthen (asks (\<lambda>db. ledger_posting_enabled db (i_company iv))) (\<lambda>enabled.
     if \<not> enabled then ok ()
     else
       andthen (asks (\<lambda>db. pre_cutover_era env db iv)) (\<lambda>era_invoice.
       andthen (asks (\<lambda>db. if era_invoice then cutover_date db (i_company iv) else None)) (\<lambda>cutover.
       andthen (asks (\<lambda>db. invoice_payments db iv)) (\<lambda>payments.
       andthen (reads (\<lambda>db. case cutover of None \<Rightarrow> Inr [] | Some c \<Rightarrow> late_era_allocation db iv c)) (\<lambda>alloc.
       for_each (resettle_payment env iv actor fallback_at era_invoice cutover alloc) payments)))))"

definition post_payment_received ::
  "gl_env \<Rightarrow> payment \<Rightarrow> invoice \<Rightarrow> string option \<Rightarrow> gl_entry option gl" where
  "post_payment_received env p iv actor =
     andthen (asks (\<lambda>db. ledger_posting_enabled db (i_company iv))) (\<lambda>enabled.
     if \<not> enabled then ok None
     else
       andthen (asks (\<lambda>db. pre_cutover_era env db iv \<and>
                  is_late_era_settlement p True (cutover_date db (i_company iv)))) (\<lambda>late.
       if late then
         andthen (resettle_invoice_payments env iv actor None) (\<lambda>_.
         asks (\<lambda>db. first (live_era_settlement_entries db p (i_company iv))))
       else
         andthen (build_payment_lines p iv) (\<lambda>ls.
         if ls = [] then ok None
         else andthen (post_for_event env False (payment_event env iv p ls actor None)) (\<lambda>e. ok (Some e)))))"

section \<open>Soundness\<close>

lemma with_lock_fallback_tracks:
  assumes T: "tracked R" and w: "\<And>d. tracks R (write d)"
  shows "tracks R (with_lock_fallback fallback_at write)"
  unfolding with_lock_fallback_def
proof (rule tracked.tracks_catch[OF T w])
  fix x
  show "tracks R (case x of PeriodLockedError _ _ \<Rightarrow> (case fallback_at of None \<Rightarrow> throw x | Some d \<Rightarrow> write (Some d)) | _ \<Rightarrow> throw x)"
    by (cases x) (auto intro: tracked.tracks_throw[OF T] w split: option.splits)
qed

lemmas journal_fallback = with_lock_fallback_tracks[OF journal.tracked_axioms]
lemmas workflow_fallback = with_lock_fallback_tracks[OF workflow.tracked_axioms]

lemma build_payment_lines_sound [tracking]: "tracks sound_step (build_payment_lines p iv)"
  unfolding build_payment_lines_def Let_def by (intro journal.tracks_rules tracking)

lemma post_era_settlement_sound: "digest_ok env \<Longrightarrow> tracks sound_step (post_era_settlement env p iv c actor)"
  unfolding post_era_settlement_def Let_def by (intro journal.tracks_rules tracking post_for_event_tracks)

lemma post_opening_payment_void_sound: "digest_ok env \<Longrightarrow> tracks sound_step (post_opening_payment_void env p iv actor)"
  unfolding post_opening_payment_void_def by (intro journal.tracks_rules tracking post_for_event_tracks)

lemma reverse_others_sound [tracking]: "tracks sound_step (reverse_others env actor fb kept lives)"
  unfolding reverse_others_def resettle_reverse_def
  by (intro journal.tracks_rules tracking journal_fallback)

lemma resettle_payment_sound:
  "digest_ok env \<Longrightarrow> tracks sound_step (resettle_payment env iv actor fb era cutover alloc p)"
  unfolding resettle_payment_def Let_def resettle_repost_def
  by (intro journal.tracks_rules tracking journal_fallback post_for_event_tracks post_era_settlement_sound
      post_opening_payment_void_sound)

lemma resettle_invoice_payments_sound:
  "digest_ok env \<Longrightarrow> tracks sound_step (resettle_invoice_payments env iv actor fb)"
  unfolding resettle_invoice_payments_def by (intro journal.tracks_rules tracking resettle_payment_sound)

lemma post_payment_received_sound: "digest_ok env \<Longrightarrow> tracks sound_step (post_payment_received env p iv actor)"
  unfolding post_payment_received_def
  by (intro journal.tracks_rules tracking resettle_invoice_payments_sound post_for_event_tracks)

lemma build_payment_lines_workflow [tracking]: "tracks same_workflow (build_payment_lines p iv)"
  unfolding build_payment_lines_def Let_def by (intro workflow.tracks_rules tracking)

lemma resettle_invoice_payments_workflow [tracking]: "tracks same_workflow (resettle_invoice_payments env iv actor fb)"
  unfolding resettle_invoice_payments_def resettle_payment_def Let_def resettle_repost_def reverse_others_def
    resettle_reverse_def post_era_settlement_def post_opening_payment_void_def
  by (intro workflow.tracks_rules tracking workflow_fallback)

section \<open>The payment entry\<close>

lemma build_payment_lines_Inr:
  assumes "build_payment_lines p iv db = (Inr ls, db')" and "ls \<noteq> []"
    and a: "col_cents (p_amount p) = Inr a" and s: "col_cents (p_surcharge p) = Inr s"
  obtains m r where "a \<noteq> 0 \<or> s \<noteq> 0" "remaining_ar db iv p = Inr r" "ls = payment_lines p iv a s m r"
proof -
  have ne: "a \<noteq> 0 \<or> s \<noteq> 0"
    using assms by (auto simp: build_payment_lines_def andthen_def lift_def ok_def)
  let ?m = "case get_gl_settings db (i_company iv) of None \<Rightarrow> Inl LedgerConfigError
    | Some st \<Rightarrow> resolve_payment_method_role st (p_method p)"
  obtain m where m: "?m = Inr m"
    using assms ne by (cases ?m) (auto simp: build_payment_lines_def andthen_def lift_def reads_def)
  obtain r where r: "remaining_ar db iv p = Inr r"
    using assms ne m by (cases "remaining_ar db iv p") (auto simp: build_payment_lines_def andthen_def lift_def reads_def)
  show thesis
    using assms ne m r
    by (intro that[OF ne r, of m])
      (auto simp: build_payment_lines_def andthen_def lift_def reads_def ok_def split: prod.splits sum.splits if_splits)
qed

lemma payment_lines_sums:
  "sum_list (map pl_amount (payment_lines p iv a s m r)) = 0"
  "pl_amount (hd (payment_lines p iv a s m r)) = a + s"
  "role_sum ROLE_SURCHARGE_INCOME (tl (payment_lines p iv a s m r)) = - s"
  "role_sum ROLE_AR (tl (payment_lines p iv a s m r)) = - min a r"
  "role_sum ROLE_CUSTOMER_CREDITS (tl (payment_lines p iv a s m r)) = - max (a - r) 0"
  by (simp_all add: payment_lines_def Let_def)

lemma payment_lines_valid:
  "0 \<le> a \<Longrightarrow> 0 \<le> s \<Longrightarrow> a \<noteq> 0 \<or> s \<noteq> 0 \<Longrightarrow> validate_balance (payment_lines p iv a s m r) = Inr ()"
  by (rule validate_balanceI[OF _ payment_lines_sums(1)]) (auto simp: payment_lines_def Let_def split: if_splits)

text \<open>
  What a payment posts.  For a payment of nonnegative amount and surcharge, whenever lines are built
  the engine accepts them as balanced: the method's account receives amount plus surcharge, the
  surcharge is income, receivables are relieved by the amount but never by more than the invoice still
  owes, the rest becomes customer credit, and a void invoice's receivable is not touched at all.
\<close>

theorem payment_lines_split:
  assumes "build_payment_lines p iv db = (Inr ls, db')" and "ls \<noteq> []"
    and "col_cents (p_amount p) = Inr a" "0 \<le> a" "col_cents (p_surcharge p) = Inr s" "0 \<le> s"
  shows "validate_balance ls = Inr () \<and> pl_amount (hd ls) = a + s \<and>
    role_sum ROLE_SURCHARGE_INCOME (tl ls) = - s \<and>
    (\<exists>r. remaining_ar db iv p = Inr r \<and> 0 \<le> r \<and> (i_status iv = Void \<longrightarrow> r = 0) \<and>
       role_sum ROLE_AR (tl ls) = - min a r \<and> role_sum ROLE_CUSTOMER_CREDITS (tl ls) = - max (a - r) 0)"
proof -
  obtain m r where *: "a \<noteq> 0 \<or> s \<noteq> 0" "remaining_ar db iv p = Inr r" "ls = payment_lines p iv a s m r"
    by (rule build_payment_lines_Inr[OF assms(1,2,3,5)])
  have "0 \<le> r" "i_status iv = Void \<longrightarrow> r = 0"
    using *(2) by (auto simp: remaining_ar_def bindR_eq_Inr split: if_splits)
  then show ?thesis
    using *(2) payment_lines_sums[of p iv a s m r] payment_lines_valid[OF assms(4,6) *(1)] unfolding *(3) by blast
qed

definition sample_payment :: payment where
  "sample_payment = \<lparr>p_id = 200, p_invoice = 100, p_amount = Some (cents 12000), p_surcharge = None, p_method = Some ''Cash'',
     p_date = Some (Date 2026 3 5), p_created_at = Some (Datetime (Date 2026 3 5) 0), p_voided_at = None\<rparr>"

definition payment_db :: gl_db where
  "payment_db = posting_db\<lparr>db_settings := [(fresh_settings ''gdx'')\<lparr>s_enabled := True,
       s_payment_map := Some DEFAULT_PAYMENT_METHOD_ROLE_MAP\<rparr>], db_payments := [sample_payment]\<rparr>"

theorem payment_lines_split_witness:
  "\<exists>ls. fst (build_payment_lines sample_payment untaxed_invoice payment_db) = Inr ls \<and>
     validate_balance ls = Inr () \<and> pl_amount (hd ls) = 12000"
proof -
  let ?b = "build_payment_lines sample_payment untaxed_invoice payment_db"
  have "map_sum id (map pl_amount) (fst ?b) = Inr [12000, - 10000, - 2000]" by code_simp
  then obtain ls where ls: "fst ?b = Inr ls" "ls \<noteq> []" by (cases "fst ?b") auto
  then have run: "?b = (Inr ls, snd ?b)" by (metis prod.collapse)
  have a: "col_cents (p_amount sample_payment) = Inr 12000" "col_cents (p_surcharge sample_payment) = Inr 0" by code_simp+
  from payment_lines_split[OF run ls(2) a(1) _ a(2)] ls(1) show ?thesis by auto
qed

section \<open>All payments of an invoice together\<close>

definition live_payments :: "gl_db \<Rightarrow> invoice \<Rightarrow> payment list" where
  "live_payments db iv = filter (\<lambda>p. p_voided_at p = None) (invoice_payments db iv)"

lemma sum_cents_map: "(\<And>x. x \<in> set xs \<Longrightarrow> col_cents (f x) = Inr (g x)) \<Longrightarrow>
    sum_cents (map f xs) = Inr (sum_list (map g xs))"
  unfolding sum_cents_def by (subst mapR_Inr_map[of _ _ "\<lambda>d. projr (col_cents d)"]) (auto simp: comp_def cong: map_cong)

lemma payment_order_inject: "payment_order p = payment_order q \<Longrightarrow> p_id p = p_id q"
  by (simp add: payment_order_def)

text \<open>Portions taken one after the other from what is left fill the receivable exactly.\<close>

lemma sequential_portions:
  fixes R :: int
  assumes "\<And>x. x \<in> set xs \<Longrightarrow> 0 \<le> f x"
  shows "sum_list (map (\<lambda>i. min (f (xs ! i)) (max (R - sum_list (map f (take i xs))) 0)) [0..<length xs]) =
    min (max R 0) (sum_list (map f xs))"
  using assms
proof (induction xs rule: rev_induct)
  case (snoc x xs)
  let ?S = "sum_list (map f xs)"
  have nn: "0 \<le> ?S" "0 \<le> f x" using snoc.prems by (auto intro!: sum_list_nonneg_nth)
  define G where "G = (\<lambda>ys i. min (f (ys ! i)) (max (R - sum_list (map f (take i ys))) 0))"
  have IH: "sum_list (map (G xs) [0..<length xs]) = min (max R 0) ?S"
    unfolding G_def by (rule snoc.IH) (simp add: snoc.prems)
  have "sum_list (map (G (xs @ [x])) [0..<length xs]) = sum_list (map (G xs) [0..<length xs])"
    by (rule arg_cong[where f = sum_list], rule map_cong) (simp_all add: G_def nth_append)
  moreover have "G (xs @ [x]) (length xs) = min (f x) (max (R - ?S) 0)" by (simp add: G_def)
  ultimately have "sum_list (map (G (xs @ [x])) [0..<length (xs @ [x])]) = min (max R 0) ?S + min (f x) (max (R - ?S) 0)"
    using IH by simp
  also have "\<dots> = min (max R 0) (sum_list (map f (xs @ [x])))" using nn by simp
  finally show ?case by (simp only: G_def)
qed simp

lemma sorted_prefix:
  fixes xs :: "'a list" and k :: "'a \<Rightarrow> 'b::linorder"
  assumes "sorted (map k xs)" and "distinct (map k xs)" and "i < length xs"
  shows "filter (\<lambda>y. k y < k (xs ! i)) xs = take i xs"
proof -
  have "k y < k (xs ! i)" if y: "y \<in> set (take i xs)" for y
  proof -
    obtain j where "j < i" "y = xs ! j" using y by (auto simp: in_set_conv_nth)
    moreover have "k (xs ! j) \<noteq> k (xs ! i)" using assms(2,3) \<open>j < i\<close> by (simp add: distinct_conv_nth)
    moreover have "k (xs ! j) \<le> k (xs ! i)" using assms(1,3) \<open>j < i\<close> by (simp add: sorted_iff_nth_mono)
    ultimately show ?thesis by simp
  qed
  moreover have "\<not> k y < k (xs ! i)" if y: "y \<in> set (drop i xs)" for y
  proof -
    obtain j where "j < length xs - i" "y = xs ! (i + j)" using y by (auto simp: in_set_conv_nth)
    then show ?thesis using assms(1) by (simp add: sorted_iff_nth_mono not_less)
  qed
  ultimately have "filter (\<lambda>y. k y < k (xs ! i)) (take i xs @ drop i xs) = take i xs"
    by (simp only: filter_append) (simp add: filter_empty_conv)
  then show ?thesis by simp
qed

lemma sum_list_map_mset:
  fixes h :: "'a \<Rightarrow> int"
  assumes "mset us = mset vs"
  shows "sum_list (map h us) = sum_list (map h vs)"
  using arg_cong[OF assms, of "\<lambda>m. sum_mset (image_mset h m)"] by (simp flip: mset_map add: sum_mset_sum_list)

lemma portions_any_order:
  fixes k :: "'a \<Rightarrow> 'b::linorder" and R :: int
  assumes "distinct (map k xs)" and "\<And>x. x \<in> set xs \<Longrightarrow> 0 \<le> f x"
  shows "sum_list (map (\<lambda>x. min (f x) (max (R - sum_list (map f (filter (\<lambda>y. k y < k x) xs))) 0)) xs) =
    min (max R 0) (sum_list (map f xs))"
proof -
  let ?g = "\<lambda>zs x. min (f x) (max (R - sum_list (map f (filter (\<lambda>y. k y < k x) zs))) 0)"
  let ?ys = "sort_key k xs"
  note sl = sum_list_map_mset
  have flt: "?g xs x = ?g ?ys x" for x
    using sl[of "filter (\<lambda>y. k y < k x) xs" "filter (\<lambda>y. k y < k x) ?ys" f] by simp
  have d: "distinct (map k ?ys)"
    using assms(1) mset_eq_imp_distinct_iff[of "map k ?ys" "map k xs"] by simp
  have "sum_list (map (?g xs) xs) = sum_list (map (?g ?ys) ?ys)"
    unfolding flt by (rule sl) simp
  also have "\<dots> = sum_list (map (\<lambda>i. ?g ?ys (?ys ! i)) [0..<length ?ys])"
    by (rule arg_cong[where f = sum_list], rule nth_equalityI) simp_all
  also have "\<dots> = sum_list (map (\<lambda>i. min (f (?ys ! i)) (max (R - sum_list (map f (take i ?ys))) 0)) [0..<length ?ys])"
    by (rule arg_cong[where f = sum_list], rule map_cong) (simp_all add: sorted_prefix[OF sorted_sort_key d])
  also have "\<dots> = min (max R 0) (sum_list (map f ?ys))"
    by (rule sequential_portions) (simp add: assms(2))
  also have "sum_list (map f ?ys) = sum_list (map f xs)" by (rule sl) simp
  finally show ?thesis .
qed

lemma remaining_ar_live:
  assumes "i_status iv \<noteq> Void" and "p \<in> set (live_payments db iv)" and "distinct (map p_id (live_payments db iv))"
    and "col_cents (i_total iv) = Inr t" and "invoice_credited_cents db iv = Inr c"
    and amt: "\<And>q. q \<in> set (live_payments db iv) \<Longrightarrow> col_cents (p_amount q) = Inr (amt q)"
  shows "remaining_ar db iv p =
    Inr (max (t - c - sum_list (map amt (filter (\<lambda>q. payment_order q < payment_order p) (live_payments db iv)))) 0)"
proof -
  have "filter (\<lambda>q. payment_order q < payment_order p)
      (filter (\<lambda>q. p_voided_at q = None \<and> p_id q \<noteq> p_id p) (invoice_payments db iv)) =
    filter (\<lambda>q. payment_order q < payment_order p) (live_payments db iv)"
    unfolding live_payments_def filter_filter
  proof (rule filter_cong[OF refl])
    fix q assume "q \<in> set (invoice_payments db iv)"
    have "payment_order q = payment_order p" if "p_id q = p_id p" "p_voided_at q = None"
    proof -
      have "q \<in> set (live_payments db iv)" using \<open>q \<in> _\<close> that by (simp add: live_payments_def)
      then have "q = p" using assms(2,3) that(1) by (metis distinct_map inj_onD)
      then show ?thesis by simp
    qed
    then show "((p_voided_at q = None \<and> p_id q \<noteq> p_id p) \<and> payment_order q < payment_order p) =
        (p_voided_at q = None \<and> payment_order q < payment_order p)" by auto
  qed
  then have "prior_nonvoided_paid_cents db iv p =
      sum_cents (map p_amount (filter (\<lambda>q. payment_order q < payment_order p) (live_payments db iv)))"
    unfolding prior_nonvoided_paid_cents_def by (simp only:)
  also have "\<dots> = Inr (sum_list (map amt (filter (\<lambda>q. payment_order q < payment_order p) (live_payments db iv))))"
    by (rule sum_cents_map) (simp add: amt)
  finally have "prior_nonvoided_paid_cents db iv p =
      Inr (sum_list (map amt (filter (\<lambda>q. payment_order q < payment_order p) (live_payments db iv))))" .
  then show ?thesis using assms by (simp add: remaining_ar_def algebra_simps)
qed

lemma receivable_portions:
  assumes "i_status iv \<noteq> Void" and "distinct (map p_id (live_payments db iv))"
    and "col_cents (i_total iv) = Inr t" and "invoice_credited_cents db iv = Inr c"
    and "\<And>q. q \<in> set (live_payments db iv) \<Longrightarrow> col_cents (p_amount q) = Inr (amt q) \<and> 0 \<le> amt q"
  shows "sum_list (map (\<lambda>p. min (amt p) (projr (remaining_ar db iv p))) (live_payments db iv)) =
    min (max (t - c) 0) (sum_list (map amt (live_payments db iv)))"
proof -
  let ?ps = "live_payments db iv"
  have "distinct (map payment_order ?ps)"
    using assms(2) payment_order_inject unfolding distinct_map inj_on_def by metis
  note sums = portions_any_order[OF this, of amt "t - c"]
  have "sum_list (map (\<lambda>p. min (amt p) (projr (remaining_ar db iv p))) ?ps) = sum_list
      (map (\<lambda>p. min (amt p) (max (t - c - sum_list (map amt (filter (\<lambda>q. payment_order q < payment_order p) ?ps))) 0)) ?ps)"
    by (rule arg_cong[where f = sum_list], rule map_cong)
      (simp_all add: remaining_ar_live[OF assms(1) _ assms(2-4)] assms(5))
  also have "\<dots> = min (max (t - c) 0) (sum_list (map amt ?ps))" by (rule sums) (simp add: assms(5))
  finally show ?thesis .
qed



section \<open>Late-learned settlements\<close>

lemma era_alloc_exact:
  assumes "era_alloc ps pool = Inr al" and "0 \<le> pool"
    and "\<And>p. p \<in> set ps \<Longrightarrow> p_voided_at p = None \<Longrightarrow> col_cents (p_amount p) = Inr (amt p) \<and> 0 \<le> amt p"
  shows "map fst al = map p_id ps \<and>
    list_all2 (\<lambda>p (u, c). 0 \<le> c \<and> (if p_voided_at p = None then c \<le> amt p else c = 0)) ps al \<and>
    sum_list (map snd al) = min pool (sum_list (map amt (filter (\<lambda>p. p_voided_at p = None) ps)))"
  using assms
proof (induction ps arbitrary: pool al)
  case Nil
  then show ?case by simp
next
  case (Cons p ps)
  show ?case
  proof (cases "p_voided_at p = None")
    case True
    then have a: "col_cents (p_amount p) = Inr (amt p)" "0 \<le> amt p" using Cons.prems(3)[of p] by auto
    then obtain al' where al': "era_alloc ps (pool - min (amt p) pool) = Inr al'" "al = (p_id p, min (amt p) pool) # al'"
      using Cons.prems(1) True by (auto simp: bindR_eq_Inr Let_def)
    have nn: "0 \<le> sum_list (map amt (filter (\<lambda>p. p_voided_at p = None) ps))"
      using Cons.prems(3) by (intro sum_list_nonneg_nth) auto
    have "map fst al' = map p_id ps \<and>
      list_all2 (\<lambda>p (u, c). 0 \<le> c \<and> (if p_voided_at p = None then c \<le> amt p else c = 0)) ps al' \<and>
      sum_list (map snd al') = min (pool - min (amt p) pool) (sum_list (map amt (filter (\<lambda>p. p_voided_at p = None) ps)))"
      by (rule Cons.IH[OF al'(1)]) (use Cons.prems(2,3) a in auto)
    then show ?thesis using al'(2) True a(2) nn Cons.prems(2) by auto
  next
    case False
    then obtain al' where al': "era_alloc ps pool = Inr al'" "al = (p_id p, 0) # al'"
      using Cons.prems(1) by (auto simp: bindR_eq_Inr)
    then show ?thesis using Cons.IH[OF al'(1) Cons.prems(2)] Cons.prems(3) False by auto
  qed
qed

text \<open>
  The settlement of late-learned payments.  The allocation gives every late payment of the invoice a
  share between zero and its amount, nothing to a voided one, and in total exactly the smaller of the
  opening balance and what the live ones paid: it never settles more than the opening entry put on the
  books.
\<close>

theorem late_era_allocation_exact:
  assumes "late_era_allocation db iv cutover = Inr al" and "opening_balance_cents db iv cutover = Inr opening"
    and amt: "\<And>p. p \<in> set (invoice_payments db iv) \<Longrightarrow> col_cents (p_amount p) = Inr (amt p) \<and> 0 \<le> amt p"
  shows "sum_list (map snd al) = min (max 0 opening) (sum_list (map amt (filter (\<lambda>p. p_voided_at p = None \<and>
           is_late_era_settlement p True (Some cutover)) (invoice_payments db iv)))) \<and>
    (\<forall>(u, c) \<in> set al. 0 \<le> c \<and> (\<exists>p \<in> set (invoice_payments db iv). p_id p = u \<and> c \<le> amt p \<and>
       (p_voided_at p \<noteq> None \<longrightarrow> c = 0)))"
proof -
  let ?late = "filter (\<lambda>p. is_late_era_settlement p True (Some cutover)) (invoice_payments db iv)"
  let ?ps = "sort_key era_order ?late"
  have al: "era_alloc ?ps (max 0 opening) = Inr al" using assms(1,2) by (simp add: late_era_allocation_def)
  have in_ps: "p \<in> set (invoice_payments db iv)" if "p \<in> set ?ps" for p using that by simp
  have E: "map fst al = map p_id ?ps \<and>
    list_all2 (\<lambda>p (u, c). 0 \<le> c \<and> (if p_voided_at p = None then c \<le> amt p else c = 0)) ?ps al \<and>
    sum_list (map snd al) = min (max 0 opening) (sum_list (map amt (filter (\<lambda>p. p_voided_at p = None) ?ps)))"
    by (rule era_alloc_exact[OF al]) (use amt in auto)
  have "mset (filter (\<lambda>p. p_voided_at p = None) ?ps) =
      mset (filter (\<lambda>p. p_voided_at p = None \<and> is_late_era_settlement p True (Some cutover)) (invoice_payments db iv))"
    by (simp add: filter_filter_mset conj_commute)
  then have s: "sum_list (map amt (filter (\<lambda>p. p_voided_at p = None) ?ps)) =
      sum_list (map amt (filter (\<lambda>p. p_voided_at p = None \<and> is_late_era_settlement p True (Some cutover)) (invoice_payments db iv)))"
    by (rule sum_list_map_mset)
  have "0 \<le> c \<and> (\<exists>p \<in> set (invoice_payments db iv). p_id p = u \<and> c \<le> amt p \<and> (p_voided_at p \<noteq> None \<longrightarrow> c = 0))"
    if uc: "(u, c) \<in> set al" for u c
  proof -
    obtain i where i: "i < length al" "al ! i = (u, c)" using uc by (auto simp: in_set_conv_nth)
    have len: "length ?ps = length al" using E list_all2_lengthD by blast
    define q where "q = ?ps ! i"
    have q: "q \<in> set (invoice_payments db iv)" unfolding q_def by (rule in_ps[OF nth_mem]) (simp only: len i(1))
    have "case al ! i of (u, c) \<Rightarrow> 0 \<le> c \<and> (if p_voided_at q = None then c \<le> amt q else c = 0)"
      unfolding q_def using list_all2_nthD2[OF conjunct1[OF conjunct2[OF E]] i(1)] .
    then have c: "0 \<le> c" "if p_voided_at q = None then c \<le> amt q else c = 0" unfolding i(2) by simp_all
    have "map fst al ! i = map p_id ?ps ! i" using E by (simp only:)
    then have "p_id q = u" unfolding q_def using i len by (simp only: nth_map fst_conv)
    then show ?thesis using q c amt[OF q] by (intro conjI bexI[of _ q]) (auto split: if_splits)
  qed
  then show ?thesis using E unfolding s by blast
qed

definition late_payment :: payment where
  "late_payment = sample_payment\<lparr>p_created_at := Some (Datetime (Date 2026 5 1) 0)\<rparr>"

definition era_db :: gl_db where
  "era_db = payment_db\<lparr>db_payments := [late_payment]\<rparr>"

theorem late_era_allocation_exact_witness:
  "\<exists>al. late_era_allocation era_db untaxed_invoice (Date 2026 4 1) = Inr al \<and> sum_list (map snd al) = 10000"
proof -
  have al: "late_era_allocation era_db untaxed_invoice (Date 2026 4 1) = Inr [(200, 10000)]" by code_simp
  have *: "opening_balance_cents era_db untaxed_invoice (Date 2026 4 1) = Inr 10000" by code_simp
  have l: "invoice_payments era_db untaxed_invoice = [late_payment]"
    "p_voided_at late_payment = None" "is_late_era_settlement late_payment True (Some (Date 2026 4 1))"
    "col_cents (p_amount late_payment) = Inr 12000" by code_simp+
  from late_era_allocation_exact[OF al *, of "\<lambda>_. 12000"] al show ?thesis unfolding l(1) using l(2-) by simp
qed

end
