(* ===== verification/Rules_Resettle.thy ===== *)
theory Rules_Resettle
  imports Rules_Payment
begin

text \<open>
  What the resettling of \<^verbatim>\<open>modules/ledger/rules.py\<close> leaves behind.  A refused write moves to the fallback day and
  no other write does; a run over all payments of an invoice leaves one live entry for every live payment
  and none for a voided one.
\<close>

section \<open>One reversal with the fallback day\<close>

lemma check_period_lock_strict:
  "check_period_lock c d False b k db =
     (case latest_lock db c of
        None \<Rightarrow> (Inr (), db)
      | Some l \<Rightarrow> if l < d then (Inr (), db) else (Inl (PeriodLockedError l d), db))"
  by (simp add: check_period_lock_def split: option.splits)

text \<open>The day a reversal of \<open>x\<close> lands on.\<close>

definition settle_day :: "gl_db \<Rightarrow> date \<Rightarrow> gl_entry \<Rightarrow> date" where
  "settle_day db d x =
     (case latest_lock db (e_company x) of
        None \<Rightarrow> e_effective_at x
      | Some l \<Rightarrow> if l < e_effective_at x then e_effective_at x else d)"

lemma resettle_reverse_open:
  assumes inv: "ledger_inv db" and x: "x \<in> set (db_entries db)" "e_status x = Posted"
    and opn: "\<And>l. latest_lock db (e_company x) = Some l \<Longrightarrow> l < d"
  shows "resettle_reverse env actor (Some d) x db =
    (Inr (), with_reversal env x (settle_day db d x) actor db)"
  using opn reverse_entry_live[OF inv get_entry_inv[OF inv x(1)] x(2)]
  by (auto simp: resettle_reverse_def with_lock_fallback_def andthen_def catch_def ok_def settle_day_def
      check_period_lock_strict reversal_date_def split: option.splits)

text \<open>
  Only a refused reversal moves.  With a fallback day after the last period lock, undoing a live entry
  always succeeds: the reversal is dated at the entry's own day when that day is open and at the fallback
  day exactly when it is locked, so nothing is ever written into a locked period; the entry is marked
  reversed and no other entry changes.
\<close>

theorem resettle_moves_only_refused:
  assumes inv: "ledger_inv db" and x: "x \<in> set (db_entries db)" "e_status x = Posted"
    and opn: "\<And>l. latest_lock db (e_company x) = Some l \<Longrightarrow> l < d"
  shows "\<exists>r db'. resettle_reverse env actor (Some d) x db = (Inr (), db') \<and>
    db_entries db' = map (marked (e_id x) (e_id r)) (db_entries db) @ [r] \<and> e_reverses r = Some (e_id x) \<and>
    e_effective_at r = (if \<exists>l. latest_lock db (e_company x) = Some l \<and> e_effective_at x \<le> l then d else e_effective_at x) \<and>
    (\<forall>l. latest_lock db (e_company x) = Some l \<longrightarrow> l < e_effective_at r)"
proof -
  let ?r = "reversal_of env db x (settle_day db d x) actor"
  have "e_effective_at ?r = settle_day db d x" by (simp add: reversal_of_def mk_entry_def)
  moreover have "db_entries (with_reversal env x (settle_day db d x) actor db) = map (marked (e_id x) (e_id ?r)) (db_entries db) @ [?r]"
    using with_reversal_entries[OF inv x(1)] by simp
  ultimately show ?thesis
    using resettle_reverse_open[OF assms] opn
    by (intro exI[of _ ?r] exI conjI) (auto simp: settle_day_def split: option.splits)
qed

definition march_locked :: gl_db where
  "march_locked = sample_posted\<lparr>db_locks := [\<lparr>k_date = Date 2026 3 31, k_company = ''gdx''\<rparr>]\<rparr>"

theorem resettle_moves_only_refused_witness:
  "\<exists>r db'. resettle_reverse sample_env None (Some (Date 2026 4 2)) sample_entry march_locked = (Inr (), db') \<and>
     last (db_entries db') = r \<and> e_effective_at r = Date 2026 4 2"
proof -
  have inv: "ledger_inv march_locked"
    unfolding march_locked_def by (rule ledger_inv_frame[OF _ _ _ sample_posted_inv]) simp_all
  have x: "sample_entry \<in> set (db_entries march_locked)" using sample_entry_live(1) by (simp add: march_locked_def)
  have l: "latest_lock march_locked (e_company sample_entry) = Some (Date 2026 3 31)" "e_effective_at sample_entry = Date 2026 3 1"
    by code_simp+
  from resettle_moves_only_refused[OF inv x sample_entry_live(2), of "Date 2026 4 2" sample_env None] show ?thesis
    unfolding l by (auto simp: less_date_def less_eq_date_def)
qed

section \<open>Reversing all but one of the live entries\<close>

lemma with_lock_fallback_reverse:
  assumes inv: "ledger_inv db" and x: "x \<in> set (db_entries db)" "e_status x = Posted"
    and run: "resettle_reverse env actor fb x db = (Inr (), db')"
  obtains eff r where "reverse_entry env x eff actor False db = (Inr r, db')"
proof -
  have "(\<exists>r. reverse_entry env x None actor False db = (Inr r, db')) \<or>
    (\<exists>d r. reverse_entry env x (Some d) actor False db = (Inr r, db'))"
    using run reverse_entry_live[OF inv get_entry_inv[OF inv x(1)] x(2), of env _ actor False]
    by (auto simp: resettle_reverse_def with_lock_fallback_def andthen_def catch_def ok_def throw_def check_period_lock_strict
        split: option.splits if_splits sum.splits prod.splits)
  then show thesis using that by blast
qed

lemma marked_ne: "e_id e \<noteq> u \<Longrightarrow> marked u r e = e"
  by (simp add: marked_def)

lemma reverse_others_live:
  assumes "ledger_inv db" and "distinct (map e_id lives)"
    and "\<And>x. x \<in> set lives \<Longrightarrow> x \<in> set (db_entries db) \<and> e_status x = Posted"
    and "reverse_others env actor fb kept lives db = (Inr (), db')"
    and p: "plain st" "plain ev" "st \<noteq> ''reversal''"
  shows "live_entries db' c st u ev =
      filter (\<lambda>e. e_id e \<notin> e_id ` set lives \<or> Some (e_id e) = kept) (live_entries db c st u ev) \<and> ledger_inv db'"
  using assms(1-4)
proof (induction lives arbitrary: db)
  case Nil
  then show ?case by (simp add: reverse_others_def ok_def)
next
  case (Cons x xs)
  have x: "x \<in> set (db_entries db)" "e_status x = Posted" using Cons.prems(3) by auto
  show ?case
  proof (cases "kept = Some (e_id x)")
    case True
    then have "reverse_others env actor fb kept xs db = (Inr (), db')"
      using Cons.prems(4) by (simp add: reverse_others_def andthen_def ok_def)
    from Cons.IH[OF Cons.prems(1) _ _ this] Cons.prems(2,3) True show ?thesis
      by (auto intro!: filter_cong)
  next
    case False
    then obtain db1 where r: "resettle_reverse env actor fb x db = (Inr (), db1)" "reverse_others env actor fb kept xs db1 = (Inr (), db')"
      using Cons.prems(4) by (auto simp: reverse_others_def andthen_def split: prod.splits sum.splits)
    obtain eff e where e: "reverse_entry env x eff actor False db = (Inr e, db1)"
      by (rule with_lock_fallback_reverse[OF Cons.prems(1) x r(1)])
    have inv1: "ledger_inv db1" by (rule inv_sound[OF tracksD[OF reverse_entry_sound e] Cons.prems(1)])
    obtain db0 where "db1 = with_reversal env x (reversal_date x eff) actor db0" "ledger_inv db0" "x \<in> set (db_entries db0)"
      "db_entries db0 = db_entries db" by (rule reverse_entry_Inr_live[OF Cons.prems(1) x e])
    then have es: "db_entries db1 = map (marked (e_id x) (db_uuid db0)) (db_entries db) @ [reversal_of env db0 x (reversal_date x eff) actor]"
      using with_reversal_entries by metis
    have keep: "y \<in> set (db_entries db1) \<and> e_status y = Posted" if "y \<in> set xs" for y
    proof -
      have "y \<in> set (db_entries db)" "e_status y = Posted" "e_id y \<noteq> e_id x" using that Cons.prems(2) Cons.prems(3)[of y] by (auto simp: image_iff)
      then show ?thesis using marked_ne[of y "e_id x" "db_uuid db0"] unfolding es by force
    qed
    have "live_entries db' c st u ev = filter (\<lambda>e. e_id e \<notin> e_id ` set xs \<or> Some (e_id e) = kept) (live_entries db1 c st u ev) \<and> ledger_inv db'"
      by (rule Cons.IH[OF inv1 _ keep r(2)]) (use Cons.prems(2) in simp)
    then show ?thesis
      using live_entries_after_reverse[OF Cons.prems(1) p x e] False by (auto intro!: filter_cong)
  qed
qed

section \<open>One live entry per payment\<close>

lemma live_entries_entries: "db_entries db' = db_entries db \<Longrightarrow> live_entries db' c st u ev = live_entries db c st u ev"
  by (simp add: live_entries_def)

lemma filter_by_id:
  "x \<in> set xs \<Longrightarrow> distinct (map f xs) \<Longrightarrow> filter (\<lambda>y. f y = f x) xs = [x]"
  by (induction xs) (auto simp: filter_empty_conv image_iff)

lemma live_entries_sources:
  assumes "ledger_inv db" "u \<noteq> v" "x \<in> set (live_entries db c st u ev)"
  shows "e_id x \<notin> e_id ` set (live_entries db c' st v ev')"
proof
  assume "e_id x \<in> e_id ` set (live_entries db c' st v ev')"
  then obtain y where y: "y \<in> set (live_entries db c' st v ev')" "e_id x = e_id y" by auto
  then have "x = y" using entry_id_inject[OF assms(1)] live_entries_in assms(3) by blast
  then show False using y(1) assms(2,3) by (simp add: live_entries_def)
qed

lemma live_entries_distinct: "ledger_inv db \<Longrightarrow> distinct (map e_id (live_entries db c st u ev))"
  unfolding live_entries_def by (rule distinct_map_filter) (rule ledger_invD(1))

definition same_entries :: "gl_db \<Rightarrow> gl_db \<Rightarrow> bool" where
  "same_entries db db' \<longleftrightarrow> db_entries db' = db_entries db"

interpretation frozen: tracked same_entries
  by unfold_locales (simp_all add: same_entries_def)

lemma ensure_role_account_frozen [tracking]: "tracks same_entries (ensure_role_account c r)"
  unfolding tracks_def same_entries_def
proof
  fix db show "db_entries (snd (ensure_role_account c r db)) = db_entries db"
    using ensure_role_account_snd[of c r db] unfolding snd_seed_coa by (auto simp: add_rows_def)
qed

lemma build_payment_lines_frozen: "tracks same_entries (build_payment_lines p iv)"
  unfolding build_payment_lines_def Let_def by (intro frozen.tracks_rules tracking)

lemma resettle_repost_Inr:
  assumes env: "digest_ok env" and inv: "ledger_inv db"
    and run: "resettle_repost env iv actor fb p ls db = (Inr e, db')"
  obtains db0 d where "ledger_inv db0" "db_entries db0 = db_entries db"
    "post_for_event env False (event_of (i_company iv) ''payment'' (p_id p) EVENT_PAYMENT d ls actor) db0 = (Inr e, db')"
proof -
  let ?post = "\<lambda>w. post_for_event env False (payment_event env iv p ls actor w)"
  obtain q db1 where q: "?post None db = (q, db1)" by fastforce
  show thesis
  proof (cases q)
    case (Inr x)
    then show ?thesis using run q inv that[of db]
      by (auto simp: resettle_repost_def with_lock_fallback_def catch_def payment_event_def)
  next
    case (Inl x)
    then obtain d where d: "?post (Some d) db1 = (Inr e, db')"
      using run q by (auto simp: resettle_repost_def with_lock_fallback_def catch_def throw_def split: exn.splits option.splits)
    have "ledger_inv db1" by (rule inv_sound[OF tracksD[OF post_for_event_tracks[OF env] q] inv])
    moreover have "db_entries db1 = db_entries db"
      using env inv q[unfolded Inl] by (cases rule: post_for_event_cases) auto
    ultimately show ?thesis using d by (intro that[of db1 d]) (simp_all add: payment_event_def)
  qed
qed

lemma live_entries_other_post:
  assumes "digest_ok env" "ledger_inv db" "plain st" "plain ev" "st \<noteq> ''reversal''" "u \<noteq> v"
    and post: "post_for_event env ov (event_of c st v ev' d ls a) db = (Inr e, db')"
  shows "live_entries db' c' st u ev = live_entries db c' st u ev"
  using post_for_event_entry(5,8)[OF assms(1,2) post] assms(6)
  by (simp add: live_entries_iff[OF assms(2-5)] live_entries_iff[OF post_for_event_entry(7)[OF assms(1,2) post] assms(3-5)])

definition owes_entry :: "payment \<Rightarrow> bool" where
  "owes_entry p \<longleftrightarrow> p_voided_at p = None \<and> col_cents (p_amount p) \<noteq> Inr 0"

definition settled :: "gl_db \<Rightarrow> string \<Rightarrow> payment \<Rightarrow> bool" where
  "settled db c p \<longleftrightarrow>
     (p_voided_at p \<noteq> None \<longrightarrow> live_payment_entries db p c = []) \<and>
     (owes_entry p \<longrightarrow> length (live_payment_entries db p c) = 1)"

lemma plain_payment: "plain ''payment''" "plain EVENT_PAYMENT" "''payment'' \<noteq> ''reversal''"
  by (simp_all add: plain_def backslash_def)

lemma payment_lines_none:
  assumes "build_payment_lines p iv db = (Inr [], db')"
  shows "col_cents (p_amount p) = Inr 0"
  using assms by (auto simp: build_payment_lines_def payment_lines_def Let_def andthen_def lift_def reads_def ok_def
      split: sum.splits prod.splits if_splits)

lemma reverse_live_others:
  assumes inv: "ledger_inv db" and run: "reverse_others env actor fb kept (live_entries db c' st' v ev') db = (Inr (), db')"
  shows "live_entries db' c ''payment'' u EVENT_PAYMENT =
      filter (\<lambda>e. e_id e \<notin> e_id ` set (live_entries db c' st' v ev') \<or> Some (e_id e) = kept)
        (live_entries db c ''payment'' u EVENT_PAYMENT) \<and> ledger_inv db'"
  by (rule reverse_others_live[OF inv live_entries_distinct[OF inv] _ run plain_payment]) (rule live_entries_in)

text \<open>Resettling one payment of an invoice that is not of the era before the cutover.\<close>

lemma resettle_payment_settles:
  assumes env: "digest_ok env" and inv: "ledger_inv db"
    and run: "resettle_payment env iv actor fb era None al p db = (Inr (), db')"
  shows "ledger_inv db' \<and> settled db' (i_company iv) p \<and>
    (\<forall>u. u \<noteq> p_id p \<longrightarrow> live_entries db' (i_company iv) ''payment'' u EVENT_PAYMENT =
       live_entries db (i_company iv) ''payment'' u EVENT_PAYMENT)"
proof -
  let ?c = "i_company iv"
  let ?live = "\<lambda>db u. live_entries db ?c ''payment'' u EVENT_PAYMENT"
  have sep: "filter (\<lambda>e. e_id e \<notin> e_id ` set (live_entries db ?c ''payment'' v ev) \<or> Some (e_id e) = k) (?live db u) = ?live db u"
    if "u \<noteq> v" "ledger_inv db" for db u v ev k
    using live_entries_sources[OF that(2,1)] by (intro filter_True) blast
  have late: "\<not> is_late_era_settlement p era None" by (simp add: is_late_era_settlement_def)
  show ?thesis
  proof (cases "p_voided_at p = None")
    case False
    then obtain db1 where r1: "reverse_others env actor fb None (?live db (p_id p)) db = (Inr (), db1)"
      and r2: "reverse_others env actor fb None (live_era_settlement_entries db1 p ?c) db1 = (Inr (), db')"
      using run by (auto simp: resettle_payment_def Let_def andthen_def asks_def ok_def live_payment_entries_def
          split: prod.splits sum.splits)
    note R1 = reverse_live_others[OF inv r1, where c = ?c]
    have inv1: "ledger_inv db1" using R1 by blast
    note R2 = reverse_live_others[OF inv1 r2[unfolded live_era_settlement_entries_def], where c = ?c]
    have "?live db1 (p_id p) = []" using R1[of "p_id p"] by (auto simp: filter_empty_conv)
    then have "?live db' (p_id p) = []" using R2[of "p_id p"] by simp
    moreover have "?live db' u = ?live db u" if "u \<noteq> p_id p" for u
      using R1[of u, unfolded sep[OF that inv]] R2[of u, unfolded sep[OF that inv1]] by simp
    ultimately show ?thesis using R2 False by (auto simp: settled_def owes_entry_def live_payment_entries_def)
  next
    case True
    then obtain ls db1 where ls: "build_payment_lines p iv db = (Inr ls, db1)"
      and rest: "(if ls = [] then ok () else andthen (resettle_repost env iv actor fb p ls) (\<lambda>posted.
             andthen (asks (\<lambda>db. live_payment_entries db p ?c)) (\<lambda>lives.
             reverse_others env actor fb (Some (e_id posted)) lives))) db1 = (Inr (), db')"
      using run late by (auto simp: resettle_payment_def Let_def andthen_def split: prod.splits sum.splits)
    have inv1: "ledger_inv db1" by (rule inv_sound[OF tracksD[OF build_payment_lines_sound ls] inv])
    have es: "db_entries db1 = db_entries db" using tracksD[OF build_payment_lines_frozen ls] by (simp add: same_entries_def)
    show ?thesis
    proof (cases "ls = []")
      case True
      then show ?thesis using rest ls inv1 es payment_lines_none[of p iv db db1] \<open>p_voided_at p = None\<close>
        by (auto simp: ok_def settled_def owes_entry_def intro: live_entries_entries)
    next
      case False
      then obtain e db2 where post: "resettle_repost env iv actor fb p ls db1 = (Inr e, db2)"
        and rev: "reverse_others env actor fb (Some (e_id e)) (?live db2 (p_id p)) db2 = (Inr (), db')"
        using rest by (auto simp: andthen_def asks_def live_payment_entries_def split: prod.splits sum.splits)
      obtain db0 d where db0: "ledger_inv db0" "db_entries db0 = db_entries db1"
        "post_for_event env False (event_of ?c ''payment'' (p_id p) EVENT_PAYMENT d ls actor) db0 = (Inr e, db2)"
        by (rule resettle_repost_Inr[OF env inv1 post])
      have inv2: "ledger_inv db2" by (rule post_for_event_entry(7)[OF env db0(1,3)])
      have e: "e \<in> set (?live db2 (p_id p))" by (rule live_entries_after_post(2)[OF env db0(1) plain_payment db0(3)])
      note R = reverse_live_others[OF inv2 rev, where c = ?c]
      have "?live db' (p_id p) = filter (\<lambda>x. e_id x = e_id e) (?live db2 (p_id p))"
        using R[of "p_id p"] by (auto intro!: filter_cong)
      also have "\<dots> = [e]" using e live_entries_distinct[OF inv2] by (rule filter_by_id)
      finally have "length (?live db' (p_id p)) = 1" by simp
      moreover have "?live db' u = ?live db u" if "u \<noteq> p_id p" for u
        using R[of u, unfolded sep[OF that inv2]] live_entries_other_post[OF env db0(1) plain_payment that db0(3)]
          live_entries_entries[OF db0(2)] live_entries_entries[OF es] by simp
      ultimately show ?thesis using R \<open>p_voided_at p = None\<close> by (auto simp: settled_def live_payment_entries_def)
    qed
  qed
qed

lemma resettle_all_settles:
  assumes env: "digest_ok env" and "ledger_inv db" and "distinct (map p_id ps)"
    and "for_each (resettle_payment env iv actor fb era None al) ps db = (Inr (), db')"
  shows "ledger_inv db' \<and> (\<forall>p \<in> set ps. settled db' (i_company iv) p) \<and>
    (\<forall>u. u \<notin> p_id ` set ps \<longrightarrow> live_entries db' (i_company iv) ''payment'' u EVENT_PAYMENT =
       live_entries db (i_company iv) ''payment'' u EVENT_PAYMENT)"
  using assms(2-)
proof (induction ps arbitrary: db)
  case Nil
  then show ?case by (simp add: ok_def)
next
  case (Cons p ps)
  obtain db1 where r: "resettle_payment env iv actor fb era None al p db = (Inr (), db1)"
    "for_each (resettle_payment env iv actor fb era None al) ps db1 = (Inr (), db')"
    using Cons.prems(3) by (auto simp: andthen_def split: prod.splits sum.splits)
  note P = resettle_payment_settles[OF env Cons.prems(1) r(1)]
  have IH: "ledger_inv db' \<and> (\<forall>p \<in> set ps. settled db' (i_company iv) p) \<and>
    (\<forall>u. u \<notin> p_id ` set ps \<longrightarrow> live_entries db' (i_company iv) ''payment'' u EVENT_PAYMENT =
       live_entries db1 (i_company iv) ''payment'' u EVENT_PAYMENT)"
    using Cons.IH[OF _ _ r(2)] P Cons.prems(2) by simp
  then have "settled db' (i_company iv) p"
    using P Cons.prems(2) by (simp add: settled_def live_payment_entries_def)
  then show ?case using IH P by simp
qed

text \<open>
  C23.  Resettling an invoice.  On an invoice that is not of the era before the cutover, a resettling that
  returns leaves every voided payment without a live entry and every other payment with a nonzero amount
  with exactly one, however many stale ones there were and whichever writes had to move to the fallback
  day; the entries of other payments are untouched and the ledger invariant holds.
\<close>

theorem resettle_one_live_per_payment:
  assumes env: "digest_ok env" and inv: "ledger_inv db" and on: "ledger_posting_enabled db (i_company iv)"
    and era: "\<not> pre_cutover_era env db iv" and ids: "distinct (map p_id (invoice_payments db iv))"
    and run: "resettle_invoice_payments env iv actor fb db = (Inr (), db')"
  shows "ledger_inv db' \<and>
    (\<forall>p \<in> set (invoice_payments db iv).
       (p_voided_at p \<noteq> None \<longrightarrow> live_payment_entries db' p (i_company iv) = []) \<and>
       (p_voided_at p = None \<and> col_cents (p_amount p) \<noteq> Inr 0 \<longrightarrow> length (live_payment_entries db' p (i_company iv)) = 1)) \<and>
    (\<forall>q. p_id q \<notin> p_id ` set (invoice_payments db iv) \<longrightarrow>
       live_payment_entries db' q (i_company iv) = live_payment_entries db q (i_company iv))"
proof -
  have "for_each (resettle_payment env iv actor fb False None []) (invoice_payments db iv) db = (Inr (), db')"
    using run on era by (simp add: resettle_invoice_payments_def andthen_def asks_def reads_def)
  from resettle_all_settles[OF env inv ids this] show ?thesis
    by (auto simp: settled_def owes_entry_def live_payment_entries_def)
qed

lemma payment_db_inv: "ledger_inv payment_db"
  by (rule ledger_inv_frame[OF _ _ _ posting_db_inv]) (simp_all add: payment_db_def)

theorem resettle_one_live_per_payment_witness:
  "length (live_payment_entries (snd (resettle_invoice_payments sample_env untaxed_invoice None None payment_db)) sample_payment ''gdx'') = 1"
proof -
  let ?run = "resettle_invoice_payments sample_env untaxed_invoice None None payment_db"
  have "fst ?run = Inr ()" by code_simp
  then have run: "?run = (Inr (), snd ?run)" by (metis prod.collapse)
  have *: "ledger_posting_enabled payment_db (i_company untaxed_invoice)" "\<not> pre_cutover_era sample_env payment_db untaxed_invoice"
    "invoice_payments payment_db untaxed_invoice = [sample_payment]" "i_company untaxed_invoice = ''gdx''"
    "p_voided_at sample_payment = None" "col_cents (p_amount sample_payment) = Inr 12000" by code_simp+
  from resettle_one_live_per_payment[OF sample_digest_ok payment_db_inv *(1,2) _ run] *(3-) show ?thesis by simp
qed

end
