(* ===== verification/Rules_Adjustment.thy ===== *)
theory Rules_Adjustment
  imports Rules_Resettle
begin

text \<open>
  Credit memos, refunds and credit applications of \<^verbatim>\<open>modules/ledger/rules.py\<close>, their reversal when the invoice is
  voided, and the settlement of an opening balance by a void.
\<close>

definition reason_role :: "gl_settings option \<Rightarrow> string option \<Rightarrow> string" where
  "reason_role settings reason =
     (case map_of (case settings of None \<Rightarrow> [] | Some s \<Rightarrow> map_or_empty (s_reason_map s))
             (lower (strip (or_str reason []))) of
        None \<Rightarrow> ROLE_REFUNDS | Some r \<Rightarrow> r)"

text \<open>
  The three posters share a frame: nothing with the switch off or for a zero amount, the earliest live
  entry if the event was posted before, otherwise the lines built for the amount.
\<close>

definition post_one_shot ::
  "gl_env \<Rightarrow> adjustment \<Rightarrow> invoice \<Rightarrow> string \<Rightarrow> string option \<Rightarrow> (gl_db \<Rightarrow> int \<Rightarrow> exn + posting_line list) \<Rightarrow>
   gl_entry option gl" where
  "post_one_shot env adj iv ev actor build =
     andthen (asks (\<lambda>db. ledger_posting_enabled db (i_company iv))) (\<lambda>enabled.
     if \<not> enabled then ok None
     else andthen (lift (col_cents (adj_amount adj))) (\<lambda>amount_cents.
       if amount_cents = 0 then ok None
       else andthen (asks (\<lambda>db. live_event_entry db ''adjustment'' (adj_id adj) ev)) (\<lambda>live.
         case live of
           Some l \<Rightarrow> ok (Some l)
         | None \<Rightarrow>
             andthen (reads (\<lambda>db. build db amount_cents)) (\<lambda>ls.
             andthen (asks (\<lambda>db. shop_effective_at env db ''adjustment'' (adj_id adj) ev (adj_created_at adj))) (\<lambda>when.
             andthen (post_for_event env False
               (event_of (i_company iv) ''adjustment'' (adj_id adj) ev when ls actor)) (\<lambda>e. ok (Some e)))))))"

definition credit_memo_lines :: "adjustment \<Rightarrow> invoice \<Rightarrow> gl_db \<Rightarrow> int \<Rightarrow> exn + posting_line list" where
  "credit_memo_lines adj iv db c =
     Inr [posting c (reason_role (get_gl_settings db (i_company iv)) (adj_reason adj)) (i_job iv) (i_customer iv)
            (''credit memo on '' @ i_number iv @ '': '' @ or_str (adj_reason adj) ''unspecified''),
          posting (- c) ROLE_AR (i_job iv) (i_customer iv) (''credit memo applied to '' @ i_number iv)]"

definition post_credit_memo :: "gl_env \<Rightarrow> adjustment \<Rightarrow> invoice \<Rightarrow> string option \<Rightarrow> gl_entry option gl" where
  "post_credit_memo env adj iv actor = post_one_shot env adj iv ''credit_memo'' actor (credit_memo_lines adj iv)"

text \<open>\<^verbatim>\<open>func.sum(Payment.amount)\<close>: the exact sum of the rows that are not NULL.\<close>

fun dec_add :: "decimal \<Rightarrow> decimal \<Rightarrow> decimal" where
  "dec_add (Fin a e) (Fin b f) =
     (let m = min e f in Fin (a * 10 ^ nat (e - m) + b * 10 ^ nat (f - m)) m)"
| "dec_add (Inf x) (Inf y) = (if x = y then Inf x else NaN)"
| "dec_add (Inf x) (Fin _ _) = Inf x"
| "dec_add (Fin _ _) (Inf y) = Inf y"
| "dec_add _ _ = NaN"

definition sum_amounts :: "decimal option list \<Rightarrow> decimal" where
  "sum_amounts ds = fold dec_add (List.map_filter id ds) (Fin 0 0)"

definition refund_overpayment_cents :: "gl_db \<Rightarrow> invoice \<Rightarrow> exn + int" where
  "refund_overpayment_cents db iv =
     (let paid = Some (sum_amounts (map p_amount (filter (\<lambda>p. p_voided_at p = None) (invoice_payments db iv)))) in
      if i_status iv = Void then bindR (col_cents paid) (\<lambda>c. Inr (max c 0))
      else bindR (col_cents paid) (\<lambda>c.
           bindR (col_cents (i_total iv)) (\<lambda>t.
           bindR (invoice_credited_cents db iv) (\<lambda>credited.
           Inr (max (c - t - credited) 0)))))"

definition refund_lines :: "adjustment \<Rightarrow> invoice \<Rightarrow> gl_db \<Rightarrow> int \<Rightarrow> exn + posting_line list" where
  "refund_lines adj iv db amount_cents =
     (case get_gl_settings db (i_company iv) of
        None \<Rightarrow> Inl LedgerConfigError
      | Some s \<Rightarrow>
          bindR (resolve_payment_method_role s (adj_refund_method adj)) (\<lambda>cash_role.
          bindR (customer_credit_balance_cents db (i_company iv) (i_customer iv)) (\<lambda>on_ledger.
          bindR (refund_overpayment_cents db iv) (\<lambda>over.
          let from_credit = max (min (min amount_cents over) (max on_ledger 0)) 0;
              from_revenue = amount_cents - from_credit
          in Inr (
            (if from_credit \<noteq> 0 then
               [posting from_credit ROLE_CUSTOMER_CREDITS (i_job iv) (i_customer iv)
                  (''overpayment returned on '' @ i_number iv)] else []) @
            (if from_revenue \<noteq> 0 then
               [posting from_revenue (reason_role (Some s) (adj_reason adj)) (i_job iv) (i_customer iv)
                  (''refund on '' @ i_number iv @ '': '' @ or_str (adj_reason adj) ''unspecified'')] else []) @
            [posting (- amount_cents) cash_role (i_job iv) (i_customer iv)
               (''refund paid out via '' @ fmt (adj_refund_method adj))])))))"

definition post_refund :: "gl_env \<Rightarrow> adjustment \<Rightarrow> invoice \<Rightarrow> string option \<Rightarrow> gl_entry option gl" where
  "post_refund env adj iv actor = post_one_shot env adj iv ''refund'' actor (refund_lines adj iv)"

definition credit_application_lines :: "invoice \<Rightarrow> gl_db \<Rightarrow> int \<Rightarrow> exn + posting_line list" where
  "credit_application_lines iv db c =
     Inr [posting c ROLE_CUSTOMER_CREDITS (i_job iv) (i_customer iv) (''customer credit applied to '' @ i_number iv),
          posting (- c) ROLE_AR (i_job iv) (i_customer iv) (''credit applied to '' @ i_number iv)]"

definition post_credit_application :: "gl_env \<Rightarrow> adjustment \<Rightarrow> invoice \<Rightarrow> string option \<Rightarrow> gl_entry option gl" where
  "post_credit_application env adj iv actor =
     post_one_shot env adj iv ''credit_applied'' actor (credit_application_lines iv)"

definition live_adjustment_entries :: "gl_db \<Rightarrow> string \<Rightarrow> adjustment \<Rightarrow> gl_entry list" where
  "live_adjustment_entries db company adj =
     filter (\<lambda>e. e_company e = company \<and> e_source_type e = Some ''adjustment'' \<and>
                e_source_id e = Some (uuid_str (adj_id adj)) \<and> e_status e = Posted) (db_entries db)"

definition reverse_invoice_adjustments :: "gl_env \<Rightarrow> invoice \<Rightarrow> string option \<Rightarrow> unit gl" where
  "reverse_invoice_adjustments env iv actor =
     andthen (asks (\<lambda>db. ledger_posting_enabled db (i_company iv))) (\<lambda>enabled.
     if \<not> enabled then ok ()
     else andthen (asks (\<lambda>db. invoice_adjustments db iv)) (\<lambda>adjs.
          for_each (\<lambda>adj.
            andthen (asks (\<lambda>db. live_adjustment_entries db (i_company iv) adj)) (\<lambda>lives.
            for_each (\<lambda>l. andthen (reverse_entry env l None actor False) (\<lambda>_. ok ())) lives)) adjs))"

definition settle_opening_on_void :: "gl_env \<Rightarrow> invoice \<Rightarrow> string option \<Rightarrow> unit gl" where
  "settle_opening_on_void env iv actor =
     andthen (asks (\<lambda>db. ledger_posting_enabled db (i_company iv))) (\<lambda>enabled.
     if \<not> enabled then ok ()
     else andthen (asks (\<lambda>db. pre_cutover_era env db iv \<or> has_opening_anchor db iv)) (\<lambda>era.
       if \<not> era then ok ()
       else andthen (asks (\<lambda>db. live_entries db (i_company iv) ''invoice'' (i_id iv) EVENT_OPENING_VOID)) (\<lambda>existing.
         if existing \<noteq> [] then ok ()
         else andthen (asks (\<lambda>db. invoice_ar_balance_cents db iv)) (\<lambda>remaining.
           if remaining \<le> 0 then ok ()
           else andthen (post_for_event env False
                  (event_of (i_company iv) ''invoice'' (i_id iv) EVENT_OPENING_VOID (shop_today env)
                    [posting remaining ROLE_OPENING_EQUITY None (i_customer iv)
                       (''void of pre-cutover invoice '' @ i_number iv),
                     posting (- remaining) ROLE_AR (i_job iv) (i_customer iv)
                       (''void of pre-cutover invoice '' @ i_number iv)] actor)) (\<lambda>_. ok ())))))"

section \<open>Soundness\<close>

lemma post_one_shot_sound:
  "digest_ok env \<Longrightarrow> tracks sound_step (post_one_shot env adj iv ev actor build)"
  unfolding post_one_shot_def by (intro journal.tracks_rules tracking post_for_event_tracks)

lemma reverse_invoice_adjustments_sound [tracking]: "tracks sound_step (reverse_invoice_adjustments env iv actor)"
  unfolding reverse_invoice_adjustments_def by (intro journal.tracks_rules tracking)

lemma settle_opening_on_void_sound:
  "digest_ok env \<Longrightarrow> tracks sound_step (settle_opening_on_void env iv actor)"
  unfolding settle_opening_on_void_def by (intro journal.tracks_rules tracking post_for_event_tracks)

lemma post_one_shot_workflow [tracking]: "tracks same_workflow (post_one_shot env adj iv ev actor build)"
  unfolding post_one_shot_def by (intro workflow.tracks_rules tracking)

lemma adjustments_workflow [tracking]:
  "tracks same_workflow (reverse_invoice_adjustments env iv actor)"
  "tracks same_workflow (settle_opening_on_void env iv actor)"
  unfolding reverse_invoice_adjustments_def settle_opening_on_void_def by (intro workflow.tracks_rules tracking)+

section \<open>One-shot posting\<close>

definition adjustment_entries :: "gl_db \<Rightarrow> adjustment \<Rightarrow> gl_entry list" where
  "adjustment_entries db adj =
     filter (\<lambda>e. e_source_type e = Some ''adjustment'' \<and> e_source_id e = Some (uuid_str (adj_id adj)) \<and> e_status e = Posted)
       (db_entries db)"

definition one_shot_live :: "gl_db \<Rightarrow> string \<Rightarrow> adjustment \<Rightarrow> gl_entry list" where
  "one_shot_live db ev adj =
     filter (\<lambda>e. \<exists>k. e_key e = Some k \<and> prefix (''adjustment'' @ '':'' @ uuid_str (adj_id adj) @ '':'' @ ev @ '':'') k)
       (adjustment_entries db adj)"

lemma live_event_entry_adjustment:
  "live_event_entry db ''adjustment'' (adj_id adj) ev =
     first (sort_key (\<lambda>e. (e_created_at e, e_no e, e_id e)) (one_shot_live db ev adj))"
proof -
  have *: "key_like (escape_like p @ ''%'') e \<longleftrightarrow> (\<exists>k. e_key e = Some k \<and> prefix p k)" for p e
    by (auto simp: key_like_def like_escape_prefix split: option.splits)
  show ?thesis
    unfolding live_event_entry_def one_shot_live_def adjustment_entries_def filter_filter * by (simp only: conj_assoc)
qed

lemma event_key_prefix:
  "event_key st u ev e \<Longrightarrow> \<exists>k. e_key e = Some k \<and> prefix (st @ '':'' @ uuid_str u @ '':'' @ ev @ '':'') k"
  by (auto simp: event_key_def key_prefix_Inr idempotency_key_def prefix_def)

lemma first_eq_None: "first xs = None \<longleftrightarrow> xs = []"
  by (cases xs) simp_all

lemma post_one_shot_live:
  assumes env: "digest_ok env" and inv: "ledger_inv db"
    and run: "post_one_shot env adj iv ev actor build db = (Inr (Some e), db')"
  shows "live_event_entry db' ''adjustment'' (adj_id adj) ev = Some e"
proof (cases "live_event_entry db ''adjustment'' (adj_id adj) ev")
  case (Some l)
  then show ?thesis using run
    by (auto simp: post_one_shot_def andthen_def asks_def lift_def ok_def split: if_splits sum.splits)
next
  case None
  then obtain db0 d ls where db0: "db0 = db"
    "post_for_event env False (event_of (i_company iv) ''adjustment'' (adj_id adj) ev d ls actor) db0 = (Inr e, db')"
    using run by (auto simp: post_one_shot_def andthen_def asks_def lift_def reads_def ok_def
        split: if_splits sum.splits prod.splits)
  note P = post_for_event_entry[OF env inv db0(2)[unfolded db0(1)]]
  have "one_shot_live db ev adj = []"
    using None unfolding live_event_entry_adjustment first_eq_None by (metis length_0_conv length_sort)
  moreover have mem: "\<exists>k. e_key e = Some k \<and> prefix (''adjustment'' @ '':'' @ uuid_str (adj_id adj) @ '':'' @ ev @ '':'') k"
    by (rule event_key_prefix[OF P(6)])
  moreover from calculation have "e \<notin> set (db_entries db)"
    using P(2,4,5) by (auto simp: one_shot_live_def adjustment_entries_def filter_empty_conv)
  ultimately have "one_shot_live db' ev adj = [e]"
    using P(2,4,5,8) by (simp add: one_shot_live_def adjustment_entries_def)
  then show ?thesis unfolding live_event_entry_adjustment by simp
qed

text \<open>
  A credit memo, a refund and a credit application post once.  After such a posting, another run on any
  later database in which this adjustment's live entries are the same returns the entry first posted and
  changes nothing, whoever runs it, at whatever time, and whatever else moved in the meantime: settings,
  maps, balances, locks, the rows of the invoice.
\<close>

theorem adjustments_post_once:
  assumes "digest_ok env" and "ledger_inv db"
    and post: "post_refund env adj iv actor db = (Inr (Some e), db') \<or> post_credit_memo env adj iv actor db = (Inr (Some e), db') \<or>
      post_credit_application env adj iv actor db = (Inr (Some e), db')"
    and later: "adjustment_entries db'' adj = adjustment_entries db' adj" "ledger_posting_enabled db'' (i_company iv')"
  shows "(post_refund env adj iv actor db = (Inr (Some e), db') \<longrightarrow> post_refund env' adj iv' actor' db'' = (Inr (Some e), db'')) \<and>
    (post_credit_memo env adj iv actor db = (Inr (Some e), db') \<longrightarrow> post_credit_memo env' adj iv' actor' db'' = (Inr (Some e), db'')) \<and>
    (post_credit_application env adj iv actor db = (Inr (Some e), db') \<longrightarrow>
       post_credit_application env' adj iv' actor' db'' = (Inr (Some e), db''))"
proof -
  have again: "post_one_shot env' adj iv' ev actor' build' db'' = (Inr (Some e), db'')"
    if once: "post_one_shot env adj iv ev actor build db = (Inr (Some e), db')" for ev build build'
  proof -
    have "live_event_entry db'' ''adjustment'' (adj_id adj) ev = Some e"
      using post_one_shot_live[OF assms(1,2) once] later(1) by (simp add: live_event_entry_adjustment one_shot_live_def)
    moreover obtain a where "col_cents (adj_amount adj) = Inr a" "a \<noteq> 0"
      using once by (cases "col_cents (adj_amount adj)") (auto simp: post_one_shot_def andthen_def asks_def lift_def ok_def split: if_splits)
    ultimately show ?thesis using later(2) by (simp add: post_one_shot_def andthen_def asks_def lift_def ok_def)
  qed
  show ?thesis unfolding post_refund_def post_credit_memo_def post_credit_application_def using again by blast
qed

definition sample_refund :: adjustment where
  "sample_refund = \<lparr>adj_id = 300, adj_invoice = 100, adj_kind = Refund, adj_amount = Some (cents 2000), adj_reason = None,
     adj_refund_method = Some ''cash'', adj_created_at = None\<rparr>"

definition refund_db :: gl_db where
  "refund_db = payment_db\<lparr>db_adjustments := [sample_refund]\<rparr>"

lemma refund_db_inv: "ledger_inv refund_db"
  by (rule ledger_inv_frame[OF _ _ _ payment_db_inv]) (simp_all add: refund_db_def)

theorem adjustments_post_once_witness:
  "\<exists>e db'. post_refund sample_env sample_refund untaxed_invoice None refund_db = (Inr (Some e), db') \<and>
     post_refund sample_env sample_refund untaxed_invoice (Some ''u1'') (db'\<lparr>db_locks := [\<lparr>k_date = Date 2030 1 1, k_company = ''gdx''\<rparr>]\<rparr>) =
       (Inr (Some e), db'\<lparr>db_locks := [\<lparr>k_date = Date 2030 1 1, k_company = ''gdx''\<rparr>]\<rparr>)"
proof -
  let ?run = "post_refund sample_env sample_refund untaxed_invoice None refund_db"
  have "map_sum id (map_option e_status) (fst ?run) = Inr (Some Posted)" by code_simp
  then obtain e where "fst ?run = Inr (Some e)" by (cases "fst ?run") auto
  then have run: "?run = (Inr (Some e), snd ?run)" by (metis prod.collapse)
  let ?db = "(snd ?run)\<lparr>db_locks := [\<lparr>k_date = Date 2030 1 1, k_company = ''gdx''\<rparr>]\<rparr>"
  have "db_settings (snd ?run) = db_settings refund_db"
    using tracksD[OF post_one_shot_workflow run[unfolded post_refund_def]] by (simp add: same_workflow_def post_refund_def)
  moreover have "ledger_posting_enabled refund_db (i_company untaxed_invoice)" by code_simp
  ultimately have "ledger_posting_enabled ?db (i_company untaxed_invoice)"
    by (simp add: ledger_posting_enabled_def get_gl_settings_def)
  moreover have "adjustment_entries ?db sample_refund = adjustment_entries (snd ?run) sample_refund"
    by (simp add: adjustment_entries_def)
  ultimately show ?thesis
    using adjustments_post_once[OF sample_digest_ok refund_db_inv disjI1[OF run], of ?db untaxed_invoice sample_env "Some ''u1''"] run
    by blast
qed

section \<open>What a refund posts\<close>

lemma refund_lines_Inr:
  assumes "refund_lines adj iv db a = Inr ls"
  obtains role cash bal over where
    "customer_credit_balance_cents db (i_company iv) (i_customer iv) = Inr bal" "refund_overpayment_cents db iv = Inr over"
    "map pl_amount ls = (let f = max (min (min a over) (max bal 0)) 0 in
       (if f \<noteq> 0 then [f] else []) @ (if a - f \<noteq> 0 then [a - f] else []) @ [- a])"
    "map pl_role ls = (let f = max (min (min a over) (max bal 0)) 0 in
       (if f \<noteq> 0 then [Some ROLE_CUSTOMER_CREDITS] else []) @ (if a - f \<noteq> 0 then [Some role] else []) @ [Some cash])"
    "list_all addressed ls"
proof -
  obtain st cash bal over where st: "get_gl_settings db (i_company iv) = Some st"
    "resolve_payment_method_role st (adj_refund_method adj) = Inr cash"
    "customer_credit_balance_cents db (i_company iv) (i_customer iv) = Inr bal" "refund_overpayment_cents db iv = Inr over"
    using assms unfolding refund_lines_def by (cases "get_gl_settings db (i_company iv)") (fastforce simp: bindR_eq_Inr)+
  define f where "f = max (min (min a over) (max bal 0)) 0"
  have ls: "ls = (if f \<noteq> 0 then [posting f ROLE_CUSTOMER_CREDITS (i_job iv) (i_customer iv)
                  (''overpayment returned on '' @ i_number iv)] else []) @
            (if a - f \<noteq> 0 then [posting (a - f) (reason_role (Some st) (adj_reason adj)) (i_job iv) (i_customer iv)
                  (''refund on '' @ i_number iv @ '': '' @ or_str (adj_reason adj) ''unspecified'')] else []) @
            [posting (- a) cash (i_job iv) (i_customer iv) (''refund paid out via '' @ fmt (adj_refund_method adj))]"
    using assms unfolding refund_lines_def st bindR_simps option.case Let_def f_def[symmetric] by (simp only: sum.inject)
  show thesis
    by (rule that[OF st(3,4)]) (auto simp: ls Let_def f_def[symmetric] split: if_splits)
qed

text \<open>
  A refund returns the customer's own money first.  For a positive amount the lines are balanced and
  accepted by the engine, exactly the amount leaves through the cash account, and the debit of customer
  credits is the largest one that exceeds neither the amount nor this invoice's overpayment nor the
  credit that is on the ledger; the rest is charged to revenue.
\<close>

theorem refund_returns_credit_first:
  assumes "refund_lines adj iv db a = Inr ls" and "0 < a"
  shows "validate_balance ls = Inr () \<and> pl_amount (last ls) = - a \<and>
    (\<exists>bal over. customer_credit_balance_cents db (i_company iv) (i_customer iv) = Inr bal \<and>
       refund_overpayment_cents db iv = Inr over \<and> 0 \<le> over \<and>
       (let f = min (min a over) (max bal 0) in
          map pl_amount (butlast ls) = filter (\<lambda>c. c \<noteq> 0) [f, a - f] \<and>
          (f \<noteq> 0 \<longrightarrow> pl_role (hd ls) = Some ROLE_CUSTOMER_CREDITS)))"
proof -
  obtain bal over role cash where *: "customer_credit_balance_cents db (i_company iv) (i_customer iv) = Inr bal"
    "refund_overpayment_cents db iv = Inr over"
    "map pl_amount ls = (let f = max (min (min a over) (max bal 0)) 0 in
       (if f \<noteq> 0 then [f] else []) @ (if a - f \<noteq> 0 then [a - f] else []) @ [- a])"
    "map pl_role ls = (let f = max (min (min a over) (max bal 0)) 0 in
       (if f \<noteq> 0 then [Some ROLE_CUSTOMER_CREDITS] else []) @ (if a - f \<noteq> 0 then [Some role] else []) @ [Some cash])"
    "list_all addressed ls"
    by (rule refund_lines_Inr[OF assms(1)])
  have over: "0 \<le> over" using *(2) by (auto simp: refund_overpayment_cents_def Let_def bindR_eq_Inr split: if_splits)
  let ?f = "min (min a over) (max bal 0)"
  have f: "max ?f 0 = ?f" using over assms(2) by simp
  have ams: "map pl_amount ls = filter (\<lambda>c. c \<noteq> 0) [?f, a - ?f] @ [- a]" using *(3) unfolding f Let_def by simp
  have nz: "pl_amount l \<noteq> 0" if "l \<in> set ls" for l
  proof -
    have "pl_amount l \<in> set (map pl_amount ls)" using that by simp
    then show ?thesis unfolding ams set_append set_filter using assms(2) by auto
  qed
  have ne: "ls \<noteq> []" using ams by auto
  have "sum_list (map pl_amount ls) = 0" unfolding ams by simp
  then have "validate_balance ls = Inr ()" by (rule validate_balanceI[OF ne _ nz]) (use *(5) in \<open>auto simp: list_all_iff\<close>)
  moreover have "pl_amount (last ls) = - a" using ams ne by (metis last_map last_snoc)
  moreover have "map pl_amount (butlast ls) = filter (\<lambda>c. c \<noteq> 0) [?f, a - ?f]" using ams by (metis map_butlast butlast_snoc)
  moreover have "pl_role (hd ls) = Some ROLE_CUSTOMER_CREDITS" if "?f \<noteq> 0"
    using *(4) ne that unfolding f Let_def by (cases ls) auto
  ultimately show ?thesis using *(1,2) over by (auto simp: Let_def)
qed

theorem refund_returns_credit_first_witness:
  "\<exists>ls. refund_lines sample_refund untaxed_invoice refund_db 2000 = Inr ls \<and> validate_balance ls = Inr () \<and> pl_amount (last ls) = - 2000"
proof -
  have "map_sum id (map pl_amount) (refund_lines sample_refund untaxed_invoice refund_db 2000) = Inr [2000, - 2000]" by code_simp
  then obtain ls where "refund_lines sample_refund untaxed_invoice refund_db 2000 = Inr ls"
    by (cases "refund_lines sample_refund untaxed_invoice refund_db 2000") auto
  with refund_returns_credit_first[OF this] show ?thesis by auto
qed

section \<open>The two sides of an overpayment\<close>

lemma sum_amounts_cents:
  assumes "\<And>q. q \<in> set ps \<Longrightarrow> f q = Some (cents (amt q))" and "\<bar>sum_list (map amt ps)\<bar> < 10 ^ 28"
  shows "col_cents (Some (sum_amounts (map f ps))) = Inr (sum_list (map amt ps))"
proof -
  have "fold dec_add (List.map_filter id (map f qs)) (cents k) = cents (k + sum_list (map amt qs))"
    if "set qs \<subseteq> set ps" for qs k
    using that assms(1) by (induction qs arbitrary: k) (auto simp: map_filter_simps cents_def algebra_simps)
  moreover have "set (tl ps) \<subseteq> set ps" by (cases ps) auto
  ultimately have "fold dec_add (List.map_filter id (map f (tl ps))) (cents (amt (hd ps))) =
      cents (amt (hd ps) + sum_list (map amt (tl ps)))" by blast
  then show ?thesis using assms
    by (cases ps) (auto simp: sum_amounts_def map_filter_simps cents_def col_cents_def dec_def decimal_to_cents_Fin)
qed


definition sample_memo :: adjustment where
  "sample_memo = sample_refund\<lparr>adj_id := 301, adj_kind := CreditMemo, adj_amount := Some (cents 3000)\<rparr>"

definition credited_db :: gl_db where
  "credited_db = payment_db\<lparr>db_adjustments := [sample_memo]\<rparr>"


end
