(* ===== verification/Rules_Expense.thy ===== *)
theory Rules_Expense
  imports Rules_Invoice
begin

text \<open>
  P5 and P6 of \<^verbatim>\<open>modules/ledger/rules.py\<close> with \<^verbatim>\<open>core/expense_categories.py\<close>: what an expense posts and its reposting
  after an edit or a deletion.
\<close>

definition EXPENSE_CATEGORIES :: "string list" where
  "EXPENSE_CATEGORIES =
     [''Fuel'', ''Parts/Supplies'', ''Tools/Equipment'', ''Advertising'', ''Insurance'', ''Vehicle Maintenance'',
      ''Subcontractor'', ''Other'']"

definition CANONICAL_BY_LOWER :: json_map where
  "CANONICAL_BY_LOWER = map (\<lambda>c. (lower c, c)) EXPENSE_CATEGORIES"

definition LEGACY_EXPENSE_CATEGORY_MAP :: json_map where
  "LEGACY_EXPENSE_CATEGORY_MAP =
     [(''materials'', ''Parts/Supplies''), (''supplies'', ''Parts/Supplies''), (''parts'', ''Parts/Supplies''),
      (''equipment'', ''Tools/Equipment''), (''tools'', ''Tools/Equipment''), (''travel'', ''Other''),
      (''meals'', ''Other''), (''fuel'', ''Fuel''), (''gas'', ''Fuel''), (''vehicle'', ''Vehicle Maintenance''),
      (''sub'', ''Subcontractor''), (''subcontractors'', ''Subcontractor'')]"

definition canonicalize_expense_category :: "string option \<Rightarrow> string option" where
  "canonicalize_expense_category raw =
     (let key = lower (strip (or_str raw [])) in
      if key = [] then None
      else case map_of CANONICAL_BY_LOWER key of
        Some c \<Rightarrow> Some c | None \<Rightarrow> map_of LEGACY_EXPENSE_CATEGORY_MAP key)"

definition expense_account_id :: "gl_db \<Rightarrow> gl_settings option \<Rightarrow> string \<Rightarrow> string option \<Rightarrow> uuid option" where
  "expense_account_id db settings company category =
     mapped_account db company
       (map_of (case settings of None \<Rightarrow> [] | Some s \<Rightarrow> map_or_empty (s_expense_map s))
          (or_str (canonicalize_expense_category category) (or_str category [])))"

definition build_expense_lines :: "gl_db \<Rightarrow> expense \<Rightarrow> exn + posting_line list" where
  "build_expense_lines db x =
     bindR (col_cents (x_amount x)) (\<lambda>amount_cents.
     if amount_cents = 0 then Inr []
     else
       bindR (sum_cents (x_lines x)) (\<lambda>lines_sum.
       if x_lines x \<noteq> [] \<and> lines_sum > amount_cents then Inl (ExpenseCompositionError lines_sum amount_cents)
       else
         let memo = x_vendor x @ '': '' @ fmt (x_category x);
             debit = (case expense_account_id db (get_gl_settings db (x_company x)) (x_company x) (x_category x) of
                        None \<Rightarrow> posting amount_cents ROLE_EXPENSE_FALLBACK (x_job x) None
                                  (''[unmapped category: '' @ fmt (x_category x) @ ''] '' @ memo)
                      | Some u \<Rightarrow> posting_to amount_cents u (x_job x) None memo)
         in Inr [debit, posting (- amount_cents) ROLE_OPERATING_BANK (x_job x) None
                          (''paid '' @ x_vendor x @ '' on '' @ fmt_date (x_date x))]))"

definition expense_event :: "gl_env \<Rightarrow> expense \<Rightarrow> posting_line list \<Rightarrow> string option \<Rightarrow> posting_event" where
  "expense_event env x ls actor =
     event_of (x_company x) ''expense'' (x_id x) EVENT_EXPENSE (date_or_today env (x_date x)) ls actor"

definition post_expense_recorded :: "gl_env \<Rightarrow> expense \<Rightarrow> string option \<Rightarrow> gl_entry option gl" where
  "post_expense_recorded env x actor =
     andthen (asks (\<lambda>db. ledger_posting_enabled db (x_company x))) (\<lambda>enabled.
     if \<not> enabled then ok None
     else andthen (reads (\<lambda>db. build_expense_lines db x)) (\<lambda>ls.
       if ls = [] then ok None
       else andthen (post_for_event env False (expense_event env x ls actor)) (\<lambda>e. ok (Some e))))"

definition reverse_live :: "gl_env \<Rightarrow> string option \<Rightarrow> gl_entry option \<Rightarrow> unit gl" where
  "reverse_live env actor live =
     (case live of None \<Rightarrow> ok () | Some l \<Rightarrow> andthen (reverse_entry env l None actor False) (\<lambda>_. ok ()))"

definition repost_expense :: "gl_env \<Rightarrow> expense \<Rightarrow> string option \<Rightarrow> unit gl" where
  "repost_expense env x actor =
     andthen (asks (\<lambda>db. ledger_posting_enabled db (x_company x))) (\<lambda>enabled.
     if \<not> enabled then ok ()
     else
       andthen (asks (\<lambda>db. live_expense_entry db x)) (\<lambda>live.
       if x_deleted_at x \<noteq> None then reverse_live env actor live
       else
         andthen (reads (\<lambda>db. build_expense_lines db x)) (\<lambda>ls.
         if ls = [] then reverse_live env actor live
         else
           andthen (post_for_event env False (expense_event env x ls actor)) (\<lambda>posted.
           case live of
             None \<Rightarrow> ok ()
           | Some l \<Rightarrow> if e_id posted \<noteq> e_id l then reverse_live env actor live else ok ()))))"

section \<open>Soundness\<close>

lemma post_expense_recorded_sound: "digest_ok env \<Longrightarrow> tracks sound_step (post_expense_recorded env x actor)"
  unfolding post_expense_recorded_def by (intro journal.tracks_rules tracking post_for_event_tracks)

lemma reverse_live_sound [tracking]: "tracks sound_step (reverse_live env actor live)"
  unfolding reverse_live_def by (intro journal.tracks_rules tracking)

lemma repost_expense_sound: "digest_ok env \<Longrightarrow> tracks sound_step (repost_expense env x actor)"
  unfolding repost_expense_def by (intro journal.tracks_rules tracking post_for_event_tracks)

section \<open>Categories\<close>

lemma canonical_categories:
  "c \<in> set EXPENSE_CATEGORIES \<Longrightarrow> map_of CANONICAL_BY_LOWER (lower c) = Some c \<and> lower (strip c) = lower c \<and> lower c \<noteq> []"
proof -
  have "list_all (\<lambda>c. map_of CANONICAL_BY_LOWER (lower c) = Some c \<and> lower (strip c) = lower c \<and> lower c \<noteq> []) EXPENSE_CATEGORIES"
    by code_simp
  then show "c \<in> set EXPENSE_CATEGORIES \<Longrightarrow> ?thesis" by (simp add: list_all_iff)
qed

text \<open>
  Category names are normalised once and for all.  Whatever spelling comes in, the result is one of the
  eight categories or nothing, normalising a result again returns it unchanged, and every category is
  its own normal form.
\<close>

theorem canonicalize_expense_category_normal:
  "(case canonicalize_expense_category raw of None \<Rightarrow> True
    | Some c \<Rightarrow> c \<in> set EXPENSE_CATEGORIES \<and> canonicalize_expense_category (Some c) = Some c) \<and>
   (\<forall>d. d \<in> set EXPENSE_CATEGORIES \<longleftrightarrow> canonicalize_expense_category (Some d) = Some d)"
proof -
  have fixed: "canonicalize_expense_category (Some d) = Some d" if "d \<in> set EXPENSE_CATEGORIES" for d
    using canonical_categories[OF that] by (auto simp: canonicalize_expense_category_def or_str_def Let_def)
  have range: "c \<in> set EXPENSE_CATEGORIES" if "canonicalize_expense_category v = Some c" for v c
  proof -
    have "c \<in> snd ` set CANONICAL_BY_LOWER \<or> c \<in> snd ` set LEGACY_EXPENSE_CATEGORY_MAP"
      using that by (force simp: canonicalize_expense_category_def Let_def split: if_splits option.splits dest: map_of_SomeD)
    moreover have "snd ` set CANONICAL_BY_LOWER = set EXPENSE_CATEGORIES" by (force simp: CANONICAL_BY_LOWER_def)
    moreover have "snd ` set LEGACY_EXPENSE_CATEGORY_MAP \<subseteq> set EXPENSE_CATEGORIES"
      by (simp add: LEGACY_EXPENSE_CATEGORY_MAP_def EXPENSE_CATEGORIES_def)
    ultimately show ?thesis by blast
  qed
  show ?thesis using fixed range by (auto split: option.splits)
qed

section \<open>The expense entry\<close>

lemma build_expense_lines_Inr:
  assumes "build_expense_lines db x = Inr ls" "col_cents (x_amount x) = Inr a"
  shows "a = 0 \<and> ls = [] \<or> a \<noteq> 0 \<and> map pl_amount ls = [a, - a] \<and> list_all addressed ls \<and>
    pl_role (last ls) = Some ROLE_OPERATING_BANK \<and> (\<exists>t. sum_cents (x_lines x) = Inr t \<and> (x_lines x = [] \<or> t \<le> a))"
  using assms by (auto simp: build_expense_lines_def bindR_eq_Inr Let_def split: if_splits option.splits)

lemma plain_expense: "plain ''expense''" "plain EVENT_EXPENSE" "''expense'' \<noteq> ''reversal''"
  by (simp_all add: plain_def backslash_def)

text \<open>
  Editing or deleting an expense.  From at most one live entry for the expense, a successful
  \<open>repost_expense\<close> leaves none when the expense is deleted or worth nothing, and otherwise exactly one,
  whose lines are balanced, take the amount from the operating account, and cover the itemised lines; posting
  the same content again returns that entry.
\<close>

theorem repost_expense_leaves_one_live:
  assumes env: "digest_ok env" and inv: "ledger_inv db"
    and one: "length (live_entries db (x_company x) ''expense'' (x_id x) EVENT_EXPENSE) \<le> 1"
    and on: "ledger_posting_enabled db (x_company x)" and a: "col_cents (x_amount x) = Inr a"
    and run: "repost_expense env x actor db = (Inr (), db')"
  shows "if x_deleted_at x \<noteq> None \<or> a = 0 then live_entries db' (x_company x) ''expense'' (x_id x) EVENT_EXPENSE = []
    else \<exists>e ls. live_entries db' (x_company x) ''expense'' (x_id x) EVENT_EXPENSE = [e] \<and>
      build_expense_lines db x = Inr ls \<and> validate_balance ls = Inr () \<and> map pl_amount ls = [a, - a] \<and>
      (\<exists>t. sum_cents (x_lines x) = Inr t \<and> (x_lines x = [] \<or> t \<le> a)) \<and>
      post_for_event env False (expense_event env x ls actor) db' = (Inr e, db')"
proof -
  let ?L = "\<lambda>d. live_entries d (x_company x) ''expense'' (x_id x) EVENT_EXPENSE"
  have gone: "?L db' = []" if rv: "reverse_live env actor (first (?L db)) db = (Inr (), db')"
  proof (cases "?L db")
    case Nil
    then show ?thesis using rv by (simp add: reverse_live_def ok_def)
  next
    case (Cons l ls)
    then have l: "?L db = [l]" using one by simp
    then obtain r where "reverse_entry env l None actor False db = (Inr r, db')"
      using rv by (auto simp: reverse_live_def andthen_def ok_def split: prod.splits sum.splits)
    from reverse_live_nothing_left[OF inv plain_expense l this] show ?thesis .
  qed
  show ?thesis
  proof (cases "x_deleted_at x = None")
    case False
    then show ?thesis using gone run on by (simp add: repost_expense_def andthen_def asks_def live_expense_entry_def)
  next
    case True
    then obtain ls where ls: "build_expense_lines db x = Inr ls"
      using run on by (cases "build_expense_lines db x") (auto simp: repost_expense_def andthen_def asks_def reads_def)
    note B = build_expense_lines_Inr[OF ls a]
    show ?thesis
    proof (cases "a = 0")
      case zero: True
      then have "ls = []" using B by blast
      then show ?thesis using zero gone run on True ls
        by (simp add: repost_expense_def andthen_def asks_def reads_def live_expense_entry_def)
    next
      case False
      then have shape: "map pl_amount ls = [a, - a]" "list_all addressed ls" "ls \<noteq> []" using B by auto
      have "validate_balance ls = Inr ()"
      proof (rule validate_balanceI[OF shape(3)])
        show "sum_list (map pl_amount ls) = 0" unfolding shape(1) by simp
        show "pl_amount l \<noteq> 0" if "l \<in> set ls" for l
          using imageI[OF that, of pl_amount] False unfolding set_map[symmetric] shape(1) by auto
        show "addressed l" if "l \<in> set ls" for l using that shape(2) by (simp add: list_all_iff)
      qed
      moreover obtain e db1 where post: "post_for_event env False (expense_event env x ls actor) db = (Inr e, db1)"
        and rest: "(case first (?L db) of None \<Rightarrow> ok ()
          | Some l \<Rightarrow> if e_id e \<noteq> e_id l then reverse_live env actor (first (?L db)) else ok ()) db1 = (Inr (), db')"
        using run on True ls shape(3)
        by (auto simp: repost_expense_def andthen_def asks_def reads_def live_expense_entry_def
            split: prod.splits sum.splits)
      have "case first (?L db) of None \<Rightarrow> db' = db1
        | Some l \<Rightarrow> if e_id e \<noteq> e_id l then \<exists>r. reverse_entry env l None actor False db1 = (Inr r, db') else db' = db1"
        using rest by (auto simp: reverse_live_def andthen_def ok_def split: option.splits if_splits prod.splits sum.splits)
      from post_then_reverse_one_live[OF env inv plain_expense one post[unfolded expense_event_def] this]
      have "?L db' = [e]" "post_for_event env False (expense_event env x ls actor) db' = (Inr e, db')"
        by (simp_all add: expense_event_def)
      ultimately show ?thesis using False True ls shape(1) B by auto
    qed
  qed
qed

definition sample_expense :: expense where
  "sample_expense = \<lparr>x_id = 400, x_company = ''gdx'', x_vendor = ''Shell'', x_amount = Some (cents 4500), x_date = Some (Date 2026 3 2),
     x_category = Some ''gas'', x_job = None, x_created_at = None, x_deleted_at = None, x_lines = []\<rparr>"

theorem repost_expense_leaves_one_live_witness:
  "length (live_entries (snd (repost_expense sample_env sample_expense None posting_db)) ''gdx'' ''expense'' 400 EVENT_EXPENSE) = 1"
proof -
  let ?run = "repost_expense sample_env sample_expense None posting_db"
  have "fst ?run = Inr ()" by code_simp
  then have run: "?run = (Inr (), snd ?run)" by (metis prod.collapse)
  have "db_entries posting_db = []" by (simp add: posting_db_def sample_invoice_db_def sample_db_def empty_db_def)
  then have one: "length (live_entries posting_db (x_company sample_expense) ''expense'' (x_id sample_expense) EVENT_EXPENSE) \<le> 1"
    by (simp add: live_entries_def)
  have x: "ledger_posting_enabled posting_db (x_company sample_expense)" "col_cents (x_amount sample_expense) = Inr 4500"
    "x_deleted_at sample_expense = None" "x_company sample_expense = ''gdx''" "x_id sample_expense = 400" by code_simp+
  from repost_expense_leaves_one_live[OF sample_digest_ok posting_db_inv one x(1,2) run] x(3-) show ?thesis by auto
qed

end
