(* ===== verification/Ledger_Books.thy ===== *)
theory Ledger_Books
  imports Rules_Adjustment Rules_Expense
begin

text \<open>
  The chart of accounts under the journal: account ids are unique and every journal line is on an existing
  account.  Posting, reversing and seeding keep this, so the reports may join lines to accounts.
\<close>

definition accounts_ok :: "gl_db \<Rightarrow> bool" where
  "accounts_ok db \<longleftrightarrow>
     distinct (map a_id (db_accounts db)) \<and> (\<forall>a \<in> set (db_accounts db). a_id a < db_uuid db) \<and>
     (\<forall>l \<in> set (db_lines db). l_account l \<in> a_id ` set (db_accounts db))"

text \<open>A step keeps the chart sound and, beside it, a set of account ids resolvable.\<close>

definition books_step :: "uuid set \<Rightarrow> gl_db \<Rightarrow> gl_db \<Rightarrow> bool" where
  "books_step U db db' \<longleftrightarrow>
     (accounts_ok db \<and> U \<subseteq> a_id ` set (db_accounts db) \<longrightarrow> accounts_ok db' \<and> U \<subseteq> a_id ` set (db_accounts db'))"

interpretation books: tracked "books_step U" for U
  by unfold_locales (auto simp: books_step_def)

lemma books_frame:
  "db_accounts db' = db_accounts db \<Longrightarrow> db_lines db' = db_lines db \<Longrightarrow> db_uuid db \<le> db_uuid db' \<Longrightarrow> books_step U db db'"
  by (force simp: books_step_def accounts_ok_def)

lemma books_add_rows: "books_step U db (add_rows c rows db)"
  unfolding books_step_def
proof (intro impI)
  assume ok: "accounts_ok db \<and> U \<subseteq> a_id ` set (db_accounts db)"
  let ?new = "map (\<lambda>(i, row). mk_account c (db_uuid db + i) row) (enumerate 0 rows)"
  have "map a_id ?new = map (\<lambda>i. db_uuid db + i) [0..<length rows]"
    by (rule nth_equalityI) (auto simp: nth_enumerate_eq mk_account_def split: prod.splits)
  then have ids: "distinct (map a_id ?new)" "\<And>a. a \<in> set ?new \<Longrightarrow> db_uuid db \<le> a_id a \<and> a_id a < db_uuid db + length rows"
  proof -
    assume eq: "map a_id ?new = map (\<lambda>i. db_uuid db + i) [0..<length rows]"
    show "distinct (map a_id ?new)" unfolding eq by (simp add: distinct_map inj_on_def)
    show "db_uuid db \<le> a_id a \<and> a_id a < db_uuid db + length rows" if "a \<in> set ?new" for a
      using imageI[OF that, of a_id] unfolding set_map[symmetric] eq by auto
  qed
  have "a_id a \<noteq> a_id b" if "a \<in> set (db_accounts db)" "b \<in> set ?new" for a b
    using ids(2)[OF that(2)] that(1) ok unfolding accounts_ok_def by fastforce
  then have "distinct (map a_id (db_accounts db @ ?new))"
    using ids(1) ok unfolding accounts_ok_def map_append distinct_append by (auto simp del: map_map)
  moreover have "a_id a < db_uuid db + length rows" if "a \<in> set (db_accounts db @ ?new)" for a
    using that ids(2)[of a] ok unfolding accounts_ok_def set_append by (metis UnE trans_less_add1)
  ultimately show "accounts_ok (add_rows c rows db) \<and> U \<subseteq> a_id ` set (db_accounts (add_rows c rows db))"
    using ok unfolding accounts_ok_def add_rows_def by (auto simp del: map_map)
qed

lemma ensure_role_account_books [tracking]: "tracks (books_step U) (ensure_role_account c r)"
  unfolding tracks_def
proof
  fix db show "books_step U db (snd (ensure_role_account c r db))"
    using ensure_role_account_snd[of c r db] books.R_refl books_add_rows unfolding snd_seed_coa by metis
qed

lemma resolve_lines_books [tracking]: "tracks (books_step U) (resolve_lines c ls)"
  unfolding resolve_lines_def resolve_line_def by (intro books.tracks_rules tracking)

lemma check_period_lock_books [tracking]: "tracks (books_step U) (check_period_lock c d ov by ctxt)"
  unfolding tracks_def check_period_lock_def by (auto split: option.splits intro!: books_frame)

lemma resolve_line_in_chart:
  assumes "resolve_line c l db = (Inr x, db1)"
  shows "snd x \<in> a_id ` set (db_accounts db1)"
proof (cases "pl_role l")
  case (Some r)
  then obtain a where a: "ensure_role_account c r db = (Inr a, db1)" "x = (l, a_id a)"
    using assms by (auto simp: resolve_line_def andthen_def ok_def split: prod.splits sum.splits)
  have "a \<in> set (role_owners db1 c r)" using ensure_role_account_resolves[OF a(1)] by (simp add: resolve_Inr_iff)
  then show ?thesis using a(2) by (auto simp: role_owners_def)
next
  case None
  then show ?thesis using assms
    by (auto simp: resolve_line_def reads_def get_account_def first_def split: option.splits if_splits list.splits dest!: filter_eq_ConsD)
qed

lemma resolve_lines_in_chart:
  "resolve_lines c ls db = (Inr rs, db1) \<Longrightarrow> accounts_ok db \<Longrightarrow> snd ` set rs \<subseteq> a_id ` set (db_accounts db1)"
  unfolding resolve_lines_def
proof (induction ls arbitrary: db rs)
  case Nil
  then show ?case by (simp add: ok_def)
next
  case (Cons l ls)
  obtain x dba ys where l: "resolve_line c l db = (Inr x, dba)" "rs = x # ys" "map_sem (resolve_line c) ls dba = (Inr ys, db1)"
    using Cons.prems(1) by (auto simp: andthen_def ok_def split: prod.splits sum.splits)
  have "resolve_lines c [l] db = (Inr [x], dba)" using l(1) by (simp add: resolve_lines_def andthen_def ok_def)
  then have ok: "accounts_ok dba" using tracksD[OF resolve_lines_books[of "{}"]] Cons.prems(2) by (fastforce simp: books_step_def)
  have "books_step {snd x} dba db1" using tracksD[OF resolve_lines_books] l(3) unfolding resolve_lines_def by blast
  then have "snd x \<in> a_id ` set (db_accounts db1)" using resolve_line_in_chart[OF l(1)] ok by (simp add: books_step_def)
  then show ?case using Cons.IH[OF l(3) ok] l(2) by simp
qed

lemma mk_line_account: "l_account ` set (map (mk_line u) (enumerate n rs)) = snd ` set rs"
proof -
  have "map l_account (map (mk_line u) (enumerate n rs)) = map snd rs"
    by (induction rs arbitrary: n) (auto simp: mk_line_def split: prod.splits)
  then show ?thesis by (metis set_map)
qed

lemma books_grown: "snd ` set rs \<subseteq> U \<Longrightarrow> books_step U db (grown e rs db)"
proof -
  assume "snd ` set rs \<subseteq> U"
  then have "l_account l \<in> U" if "l \<in> set (map (mk_line (db_uuid db)) (enumerate 0 rs))" for l
    using imageI[OF that, of l_account] unfolding mk_line_account by blast
  then show ?thesis
    unfolding books_step_def accounts_ok_def grown_def by (auto simp del: set_map intro: less_trans)
qed

lemma books_spent: "books_step U db (spent_ids rs db)"
  by (rule books_frame) (simp_all add: spent_ids_def)

lemma books_marked: "books_step U db (mark_reversed u r db)"
  by (rule books_frame) (simp_all add: mark_reversed_def)

section \<open>The two writers\<close>

lemma insert_entry_books:
  "insert_entry env c d st sid key rv by rs db = (q, db') \<Longrightarrow> snd ` set rs \<subseteq> U \<Longrightarrow> books_step U db db'"
  unfolding insert_entry_cases Let_def using books_grown[of rs U db] books_spent[of U db rs] by (auto split: if_splits)

lemma insert_entry_books_tracks: "snd ` set rs \<subseteq> U \<Longrightarrow> tracks (books_step U) (insert_entry env c d st sid key rv by rs)"
  unfolding tracks_def using insert_entry_books by (metis surjective_pairing)

lemma post_loop_books:
  "snd ` set rs \<subseteq> U \<Longrightarrow> tracks (books_step U) (post_loop k undisturbed env ov ev rs pfx lc)"
  by (intro post_loop_tracks[OF books.tracked_axioms] tracking insert_entry_books_tracks)

lemma post_for_event_books [tracking]: "tracks (books_step {}) (post_for_event env ov ev)"
  unfolding tracks_def post_for_event_def post_for_event_among_eq
proof
  fix db
  obtain q dba where res: "resolve_lines (ev_company ev) (ev_lines ev) db = (q, dba)" by fastforce
  have w: "books_step {} db dba" by (rule tracksD[OF resolve_lines_books res])
  have "books_step {} db (snd (post_loop n undisturbed env ov ev rs pfx False dba))" if "q = Inr rs" for n rs pfx
  proof -
    have "books_step (snd ` set rs) dba (snd (post_loop n undisturbed env ov ev rs pfx False dba))"
      using post_loop_books[OF subset_refl] unfolding tracks_def by blast
    then show ?thesis using w resolve_lines_in_chart[OF res[unfolded that]] by (auto simp: books_step_def)
  qed
  then show "books_step {} db (snd (case validate_balance (ev_lines ev) of Inl x \<Rightarrow> (Inl x, db) | Inr _ \<Rightarrow>
     (case resolve_lines (ev_company ev) (ev_lines ev) db of
        (Inl x, db1) \<Rightarrow> (Inl x, db1)
      | (Inr rs, db1) \<Rightarrow>
        (case event_prefix env ev rs of
           Inl x \<Rightarrow> (Inl x, db1)
         | Inr pfx \<Rightarrow> post_loop MAX_KEY_ATTEMPTS undisturbed env ov ev rs pfx False db1))))"
    using w books.R_refl res by (auto split: sum.splits)
qed

lemma mirror_accounts: "accounts_ok db \<Longrightarrow> snd ` set (map (mirror e) (entry_lines db u)) \<subseteq> a_id ` set (db_accounts db)"
  by (auto simp: accounts_ok_def mirror_def entry_lines_def)

lemma reverse_entry_books [tracking]: "tracks (books_step {}) (reverse_entry env entry eff by ov)"
proof (rule reverse_entry_tracks[OF books.tracked_axioms])
  fix db c d st sid key rv e u q db'
  assume "insert_entry env c d st sid key rv by (map (mirror e) (entry_lines db u)) db = (q, db')"
  from insert_entry_books[OF this subset_refl] show "books_step {} db db'"
    using mirror_accounts[of db e u] by (auto simp: books_step_def)
qed (auto intro: tracking books_marked)

section \<open>The posting rules\<close>

lemmas books_fallback = with_lock_fallback_tracks[OF books.tracked_axioms]

lemma issuance_books [tracking]:
  "tracks (books_step {}) (post_invoice_issuance env iv a b actor)"
  "tracks (books_step {}) (reverse_invoice_issuance env iv a b actor)"
  "tracks (books_step {}) (post_opening_balance env iv actor)"
  unfolding post_invoice_issuance_def reverse_invoice_issuance_def post_opening_balance_def Let_def
  by (intro books.tracks_rules tracking)+

lemma repost_books [tracking]:
  "tracks (books_step {}) (repost_invoice_issuance env iv actor)"
  "tracks (books_step {}) (repost_expense env x actor)"
  "tracks (books_step {}) (post_expense_recorded env x actor)"
  unfolding repost_invoice_issuance_def repost_expense_def post_expense_recorded_def reverse_live_def Let_def
  by (intro books.tracks_rules tracking)+

lemma build_payment_lines_books [tracking]: "tracks (books_step {}) (build_payment_lines p iv)"
  unfolding build_payment_lines_def Let_def by (intro books.tracks_rules tracking)

lemma resettle_books [tracking]: "tracks (books_step {}) (resettle_invoice_payments env iv actor fb)"
  unfolding resettle_invoice_payments_def resettle_payment_def Let_def resettle_repost_def reverse_others_def
    resettle_reverse_def post_era_settlement_def post_opening_payment_void_def
  by (intro books.tracks_rules tracking books_fallback)

lemma post_payment_received_books [tracking]: "tracks (books_step {}) (post_payment_received env p iv actor)"
  unfolding post_payment_received_def by (intro books.tracks_rules tracking)

lemma adjustment_books [tracking]:
  "tracks (books_step {}) (post_one_shot env adj iv ev actor build)"
  "tracks (books_step {}) (reverse_invoice_adjustments env iv actor)"
  "tracks (books_step {}) (settle_opening_on_void env iv actor)"
  unfolding post_one_shot_def reverse_invoice_adjustments_def settle_opening_on_void_def
  by (intro books.tracks_rules tracking)+

end
