(* ===== verification/Ledger_Backfill.thy ===== *)
theory Ledger_Backfill
  imports Ledger_Books Calendar
begin

text \<open>
  \<^verbatim>\<open>modules/ledger/backfill.py\<close>: the opening phase with the era lock, the replay of all money events through the live
  rules, the late payments that no anchor covers, and the reconciliation report.  Both phases keep the
  journal sound whatever the rows hold, and a second opening phase finds everything done.
\<close>

section \<open>Loops with an accumulator\<close>

primrec fold_sem :: "('a \<Rightarrow> 'b \<Rightarrow> ('s, 'e, 'b) sem) \<Rightarrow> 'a list \<Rightarrow> 'b \<Rightarrow> ('s, 'e, 'b) sem" where
  "fold_sem f [] b = ok b"
| "fold_sem f (x # xs) b = andthen (f x b) (fold_sem f xs)"

context tracked
begin

lemma tracks_fold_sem: "(\<And>x b. tracks R (f x b)) \<Longrightarrow> tracks R (fold_sem f xs b)"
  by (induction xs arbitrary: b) (simp_all add: tracks_ok tracks_andthen)

lemma tracks_change_field: "(\<And>s. R s (f s)) \<Longrightarrow> tracks R (\<lambda>s. (Inr x, f s))"
  by (simp add: tracks_def)

end

section \<open>Results of a phase\<close>

record opening_row =
  or_number :: string
  or_invoice :: string
  or_customer :: "string option"
  or_effective_at :: string
  or_opening_cents :: int
  or_posted :: bool
  or_overpaid :: "bool option"

datatype phase_row = LockRow date | OpeningRow opening_row

record phase_result =
  pr_posted :: nat
  pr_skipped :: nat
  pr_entries_created :: int
  pr_locked :: "(string \<times> exn) list"
  pr_refused :: "(string \<times> exn option) list"
  pr_rows :: "phase_row list"

definition empty_result :: phase_result where
  "empty_result = \<lparr>pr_posted = 0, pr_skipped = 0, pr_entries_created = 0, pr_locked = [], pr_refused = [], pr_rows = []\<rparr>"

definition count_posted :: "phase_result \<Rightarrow> phase_result" where
  "count_posted r = r\<lparr>pr_posted := Suc (pr_posted r)\<rparr>"

definition count_skipped :: "phase_result \<Rightarrow> phase_result" where
  "count_skipped r = r\<lparr>pr_skipped := Suc (pr_skipped r)\<rparr>"

definition add_row :: "phase_row \<Rightarrow> phase_result \<Rightarrow> phase_result" where
  "add_row row r = r\<lparr>pr_rows := pr_rows r @ [row]\<rparr>"

abbreviation "BACKFILL_ACTOR \<equiv> Some ''gl_backfill''"

definition entry_count :: "gl_db \<Rightarrow> string \<Rightarrow> int" where
  "entry_count db company = int (length (filter (\<lambda>e. e_company e = company) (db_entries db)))"

definition require_cutover :: "string \<Rightarrow> date gl" where
  "require_cutover company = reads (\<lambda>db. case cutover_date db company of None \<Rightarrow> Inl LedgerConfigError | Some d \<Rightarrow> Inr d)"

definition ensure_cutover_lock :: "string \<Rightarrow> date \<Rightarrow> bool gl" where
  "ensure_cutover_lock company cutover = (\<lambda>db.
     let lock_through = add_days cutover (- 1) in
     if (case latest_lock db company of None \<Rightarrow> False | Some d \<Rightarrow> lock_through \<le> d) then (Inr False, db)
     else (Inr True, db\<lparr>db_locks := db_locks db @ [\<lparr>k_date = lock_through, k_company = company\<rparr>]\<rparr>))"

definition company_invoices :: "gl_db \<Rightarrow> string \<Rightarrow> invoice list" where
  "company_invoices db company = filter (\<lambda>i. i_company i = company \<and> i_deleted_at i = None) (db_invoices db)"

section \<open>The opening phase\<close>

definition opening_row_of :: "gl_env \<Rightarrow> invoice \<Rightarrow> int \<Rightarrow> bool \<Rightarrow> bool option \<Rightarrow> phase_row" where
  "opening_row_of env iv opening posted overpaid = OpeningRow
     \<lparr>or_number = i_number iv, or_invoice = uuid_str (i_id iv), or_customer = map_option uuid_str (i_customer iv),
      or_effective_at = isoformat (invoice_effective_at env iv), or_opening_cents = opening,
      or_posted = posted, or_overpaid = overpaid\<rparr>"

definition open_invoice :: "gl_env \<Rightarrow> date \<Rightarrow> invoice \<Rightarrow> phase_result \<Rightarrow> phase_result gl" where
  "open_invoice env cutover iv r =
     (if i_status iv \<notin> set ISSUED_STATUSES then ok (count_skipped r)
      else if cutover \<le> invoice_effective_at env iv then ok (count_skipped r)
      else
        andthen (reads (\<lambda>db. opening_balance_cents db iv cutover)) (\<lambda>opening.
        if opening \<le> 0 then ok (add_row (opening_row_of env iv opening False (Some (opening < 0))) (count_skipped r))
        else
          andthen (post_opening_balance env iv BACKFILL_ACTOR) (\<lambda>entry.
          ok (add_row (opening_row_of env iv opening (entry \<noteq> None) None)
                (if entry \<noteq> None then count_posted r else r)))))"

definition run_opening :: "gl_env \<Rightarrow> string \<Rightarrow> phase_result gl" where
  "run_opening env company =
     andthen (require_cutover company) (\<lambda>cutover.
     andthen (ensure_cutover_lock company cutover) (\<lambda>locked.
     andthen (asks (\<lambda>db. company_invoices db company)) (\<lambda>invoices.
     fold_sem (open_invoice env cutover) invoices
       (if locked then add_row (LockRow (add_days cutover (- 1))) empty_result else empty_result))))"

section \<open>The replay\<close>

text \<open>
  One event of the replay: a refusal by a period lock, and where the source catches it a composition error, is
  collected; every other error ends the run.
\<close>

definition attempt :: "(exn \<Rightarrow> bool) \<Rightarrow> string \<Rightarrow> unit gl \<Rightarrow> (phase_result \<Rightarrow> phase_result) \<Rightarrow> phase_result \<Rightarrow> phase_result gl" where
  "attempt refusal label m done_with r =
     catch (andthen m (\<lambda>_. ok (done_with r))) (\<lambda>x.
       case x of
         PeriodLockedError _ _ \<Rightarrow> ok (r\<lparr>pr_locked := pr_locked r @ [(label, x)]\<rparr>)
       | _ \<Rightarrow> if refusal x then ok (r\<lparr>pr_refused := pr_refused r @ [(label, Some x)]\<rparr>) else throw x)"

definition issuance_refusal :: "exn \<Rightarrow> bool" where
  "issuance_refusal x = (case x of IssuanceCompositionError _ \<Rightarrow> True | _ \<Rightarrow> False)"

definition expense_refusal :: "exn \<Rightarrow> bool" where
  "expense_refusal x = (case x of ExpenseCompositionError _ _ \<Rightarrow> True | _ \<Rightarrow> False)"

definition no_refusal :: "exn \<Rightarrow> bool" where
  "no_refusal x = False"

definition replay_issuance :: "gl_env \<Rightarrow> invoice \<Rightarrow> phase_result \<Rightarrow> phase_result gl" where
  "replay_issuance env iv r =
     (if i_status iv \<notin> set ISSUED_STATUSES then ok r
      else attempt issuance_refusal (''invoice '' @ i_number iv) (repost_invoice_issuance env iv BACKFILL_ACTOR) count_posted r)"

definition adjustment_poster :: "adjustment_kind \<Rightarrow> gl_env \<Rightarrow> adjustment \<Rightarrow> invoice \<Rightarrow> string option \<Rightarrow> gl_entry option gl" where
  "adjustment_poster k =
     (case k of CreditMemo \<Rightarrow> post_credit_memo | Refund \<Rightarrow> post_refund | CreditApplied \<Rightarrow> post_credit_application)"

definition replay_adjustment :: "gl_env \<Rightarrow> date \<Rightarrow> invoice list \<Rightarrow> adjustment \<Rightarrow> phase_result \<Rightarrow> phase_result gl" where
  "replay_adjustment env cutover invoices adj r =
     (case first (filter (\<lambda>i. i_id i = adj_invoice adj) invoices) of
        None \<Rightarrow> ok r
      | Some iv \<Rightarrow>
          andthen (asks (\<lambda>db. pre_cutover_era env db iv \<and> adj_existed_at_cutover adj cutover)) (\<lambda>inside.
          if inside then ok (count_skipped r)
          else attempt no_refusal (''adjustment '' @ uuid_str (adj_id adj) @ '' on '' @ i_number iv)
                 (andthen (adjustment_poster (adj_kind adj) env adj iv BACKFILL_ACTOR) (\<lambda>_. ok ())) count_posted r))"

definition has_live_payment :: "gl_db \<Rightarrow> invoice \<Rightarrow> bool" where
  "has_live_payment db iv \<longleftrightarrow> list_ex (\<lambda>p. p_voided_at p = None) (invoice_payments db iv)"

definition voids_with_live_money :: "gl_env \<Rightarrow> gl_db \<Rightarrow> invoice list \<Rightarrow> invoice list" where
  "voids_with_live_money env db invoices =
     filter (\<lambda>i. i_status i = Void \<and> has_live_payment db i \<and> \<not> pre_cutover_era env db i) invoices"

definition era_voids :: "gl_env \<Rightarrow> gl_db \<Rightarrow> invoice list \<Rightarrow> (string \<times> exn option) list" where
  "era_voids env db invoices =
     map (\<lambda>i. (''void pre-cutover invoice '' @ i_number i @ '' holds a live payment '' @ em_dash @ '' not replayed; review by hand'', None))
       (filter (\<lambda>i. i_status i = Void \<and> has_live_payment db i \<and> pre_cutover_era env db i) invoices)"

definition replay_payments :: "gl_env \<Rightarrow> invoice \<Rightarrow> phase_result \<Rightarrow> phase_result gl" where
  "replay_payments env iv r =
     attempt no_refusal (''payments on '' @ i_number iv) (resettle_invoice_payments env iv BACKFILL_ACTOR None) (\<lambda>r. r) r"

definition replay_expense :: "gl_env \<Rightarrow> date \<Rightarrow> expense \<Rightarrow> phase_result \<Rightarrow> phase_result gl" where
  "replay_expense env cutover x r =
     (case (case x_date x of Some d \<Rightarrow> Some d | None \<Rightarrow> map_option dt_date (x_created_at x)) of
        None \<Rightarrow> ok (count_skipped r)
      | Some when \<Rightarrow>
          if when < cutover then ok (count_skipped r)
          else attempt expense_refusal (''expense '' @ uuid_str (x_id x)) (repost_expense env x BACKFILL_ACTOR) count_posted r)"

definition run_replay :: "gl_env \<Rightarrow> string \<Rightarrow> phase_result gl" where
  "run_replay env company =
     andthen (asks (\<lambda>db. ledger_posting_enabled db company)) (\<lambda>enabled.
     if \<not> enabled then throw LedgerConfigError
     else
       andthen (require_cutover company) (\<lambda>cutover.
       andthen (asks (\<lambda>db. entry_count db company)) (\<lambda>entries_at_start.
       andthen (asks (\<lambda>db. company_invoices db company)) (\<lambda>all_invoices.
       let invoices = filter (\<lambda>i. i_status i \<noteq> Void) all_invoices in
       andthen (fold_sem (replay_issuance env) invoices empty_result) (\<lambda>r1.
       andthen (asks (\<lambda>db. filter (\<lambda>a. adj_invoice a \<in> i_id ` set invoices) (db_adjustments db))) (\<lambda>adjustments.
       andthen (fold_sem (replay_adjustment env cutover invoices) adjustments r1) (\<lambda>r2.
       andthen (asks (\<lambda>db. era_voids env db all_invoices)) (\<lambda>refused.
       andthen (asks (\<lambda>db. voids_with_live_money env db all_invoices)) (\<lambda>voids.
       andthen (fold_sem (replay_payments env) (invoices @ voids) (r2\<lparr>pr_refused := pr_refused r2 @ refused\<rparr>)) (\<lambda>r3.
       andthen (asks (\<lambda>db. filter (\<lambda>x. x_company x = company) (db_expenses db))) (\<lambda>expenses.
       andthen (fold_sem (replay_expense env cutover) expenses r3) (\<lambda>r4.
       andthen (asks (\<lambda>db. entry_count db company)) (\<lambda>entries_now.
       ok (r4\<lparr>pr_entries_created := entries_now - entries_at_start\<rparr>))))))))))))))"

section \<open>Late payments no anchor covers\<close>

definition gl_ar_balance_cents :: "gl_db \<Rightarrow> int" where
  "gl_ar_balance_cents db = sum_list (map (\<lambda>(st, sid, c). c) (ar_role_lines db))"

definition refunded_off_credit_cents :: "gl_db \<Rightarrow> invoice \<Rightarrow> int" where
  "refunded_off_credit_cents db iv =
     (let refund_ids = map (\<lambda>a. Some (uuid_str (adj_id a))) (filter (\<lambda>a. adj_kind a = Refund) (invoice_adjustments db iv))
      in sum_list (map l_amount (concat (map (\<lambda>e.
           filter (\<lambda>l. 0 < l_amount l \<and> (\<exists>a \<in> set (db_accounts db). a_id a = l_account l \<and>
                      a_role a \<noteq> None \<and> a_role a \<noteq> Some ROLE_CUSTOMER_CREDITS))
             (entry_lines db (e_id e)))
           (filter (\<lambda>e. e_source_type e = Some ''adjustment'' \<and> e_source_id e \<in> set refund_ids \<and>
                       e_status e = Posted \<and> e_reverses e = None) (db_entries db))))))"

record excess_row =
  ex_invoice :: string
  ex_number :: string
  ex_payment :: string
  ex_payment_date :: "string option"
  ex_amount :: int
  ex_allocated :: int
  ex_refunded :: int
  ex_uncovered :: int

text \<open>The excess rows of one invoice, the refund pool handed out in allocation order.\<close>

primrec excess_rows :: "invoice \<Rightarrow> payment list \<Rightarrow> (uuid \<times> int) list \<Rightarrow> int \<Rightarrow> exn + excess_row list" where
  "excess_rows iv payments [] pool = Inr []"
| "excess_rows iv payments (x # xs) pool =
     (case x of (pid, allocated) \<Rightarrow>
        (case first (filter (\<lambda>p. p_id p = pid) payments) of
           None \<Rightarrow> excess_rows iv payments xs pool
         | Some p \<Rightarrow>
             if p_voided_at p \<noteq> None then excess_rows iv payments xs pool
             else bindR (col_cents (p_amount p)) (\<lambda>amount.
               let excess = amount - allocated in
               if excess \<le> 0 then excess_rows iv payments xs pool
               else
                 let refunded = min excess pool in
                 bindR (excess_rows iv payments xs (pool - refunded)) (\<lambda>rest.
                 Inr (\<lparr>ex_invoice = uuid_str (i_id iv), ex_number = i_number iv, ex_payment = uuid_str pid,
                       ex_payment_date = map_option isoformat (p_date p), ex_amount = amount, ex_allocated = allocated,
                       ex_refunded = refunded, ex_uncovered = excess - refunded\<rparr> # rest)))))"

definition era_candidate :: "gl_db \<Rightarrow> date \<Rightarrow> invoice \<Rightarrow> bool" where
  "era_candidate db cutover iv =
     list_ex (\<lambda>p. (case p_date p of None \<Rightarrow> False | Some d \<Rightarrow> d < cutover) \<and>
       (case p_created_at p of None \<Rightarrow> True | Some t \<Rightarrow> Datetime (add_days cutover (- 1)) 0 \<le> t)) (invoice_payments db iv)"

definition era_settlement_excess :: "gl_env \<Rightarrow> gl_db \<Rightarrow> string \<Rightarrow> exn + excess_row list" where
  "era_settlement_excess env db company =
     (case cutover_date db company of
        None \<Rightarrow> Inr []
      | Some cutover \<Rightarrow>
          bindR (mapR (\<lambda>iv. bindR (late_era_allocation db iv cutover) (\<lambda>al.
                   excess_rows iv (invoice_payments db iv) al (refunded_off_credit_cents db iv)))
            (filter (\<lambda>iv. era_candidate db cutover iv \<and> i_status iv \<in> set ISSUED_STATUSES \<and> pre_cutover_era env db iv)
               (company_invoices db company))) (\<lambda>rows. Inr (concat rows)))"

definition era_settlement_shortfalls :: "excess_row list \<Rightarrow> excess_row list" where
  "era_settlement_shortfalls excess = filter (\<lambda>r. 0 < ex_uncovered r) excess"

section \<open>The reconciliation report\<close>

record recon_row =
  rr_number :: string
  rr_status :: invoice_status
  rr_operational :: int
  rr_gl :: int
  rr_delta :: int
  rr_anchored :: bool

record recon_report =
  rc_rows :: "recon_row list"
  rc_mismatches :: "recon_row list"
  rc_shortfalls :: "excess_row list"
  rc_operational_ar :: int
  rc_gl_attributed_ar :: int
  rc_gl_ar_account :: int
  rc_era_refunded :: int

definition recon_rows :: "gl_db \<Rightarrow> string \<Rightarrow> exn + recon_row list" where
  "recon_rows db company =
     mapR (\<lambda>iv. bindR (col_cents (i_balance_due iv)) (\<lambda>op.
         let gl = invoice_ar_balance_cents db iv in
         Inr \<lparr>rr_number = i_number iv, rr_status = i_status iv, rr_operational = op, rr_gl = gl, rr_delta = op - gl,
              rr_anchored = has_opening_anchor db iv\<rparr>))
       (filter (\<lambda>i. i_status i \<in> set ISSUED_STATUSES) (company_invoices db company))"

definition reconciliation_report :: "gl_env \<Rightarrow> gl_db \<Rightarrow> string \<Rightarrow> exn + recon_report" where
  "reconciliation_report env db company =
     bindR (recon_rows db company) (\<lambda>all_rows.
     bindR (era_settlement_excess env db company) (\<lambda>excess.
     let rows = filter (\<lambda>r. rr_operational r \<noteq> 0 \<or> rr_gl r \<noteq> 0) all_rows in
     Inr \<lparr>rc_rows = rows, rc_mismatches = filter (\<lambda>r. rr_delta r \<noteq> 0) rows,
          rc_shortfalls = era_settlement_shortfalls excess,
          rc_operational_ar = sum_list (map rr_operational all_rows), rc_gl_attributed_ar = sum_list (map rr_gl all_rows),
          rc_gl_ar_account = gl_ar_balance_cents db, rc_era_refunded = sum_list (map ex_refunded excess)\<rparr>))"

section \<open>Soundness\<close>

lemma attempt_tracks:
  assumes T: "tracked R" and m: "tracks R m"
  shows "tracks R (attempt refusal label m f r)"
  unfolding attempt_def
proof (rule tracked.tracks_catch[OF T])
  show "tracks R (andthen m (\<lambda>_. ok (f r)))" by (intro tracked.tracks_andthen[OF T] m tracked.tracks_ok[OF T])
  show "tracks R (case x of PeriodLockedError _ _ \<Rightarrow> ok (r\<lparr>pr_locked := pr_locked r @ [(label, x)]\<rparr>)
      | _ \<Rightarrow> if refusal x then ok (r\<lparr>pr_refused := pr_refused r @ [(label, Some x)]\<rparr>) else throw x)" for x
    by (cases x) (simp_all add: tracked.tracks_ok[OF T] tracked.tracks_throw[OF T])
qed

lemma ensure_cutover_lock_frames [tracking]:
  "tracks sound_step (ensure_cutover_lock c d)" "tracks (books_step {}) (ensure_cutover_lock c d)"
  "tracks same_workflow (ensure_cutover_lock c d)"
  unfolding tracks_def ensure_cutover_lock_def Let_def
  by (auto intro!: sound_frame books_frame simp: same_workflow_def)

lemma adjustment_poster_one_shot:
  obtains ev build where "adjustment_poster k env adj iv actor = post_one_shot env adj iv ev actor build"
  by (cases k) (auto simp: adjustment_poster_def post_credit_memo_def post_refund_def post_credit_application_def)

lemma adjustment_poster_tracks:
  "(\<And>ev build. tracks R (post_one_shot env adj iv ev actor build)) \<Longrightarrow> tracks R (adjustment_poster k env adj iv actor)"
  by (metis adjustment_poster_one_shot)

text \<open>Whatever a relation needs to be tracked by both phases: the rules track it and so does the era lock.\<close>

lemma phases_track:
  assumes T: "tracked R" and "\<And>c d. tracks R (ensure_cutover_lock c d)" "\<And>iv. tracks R (post_opening_balance env iv BACKFILL_ACTOR)"
    "\<And>iv. tracks R (repost_invoice_issuance env iv BACKFILL_ACTOR)"
    "\<And>adj iv ev build. tracks R (post_one_shot env adj iv ev BACKFILL_ACTOR build)"
    "\<And>iv. tracks R (resettle_invoice_payments env iv BACKFILL_ACTOR None)" "\<And>x. tracks R (repost_expense env x BACKFILL_ACTOR)"
  shows "tracks R (run_opening env company)" "tracks R (run_replay env company)"
  unfolding run_opening_def open_invoice_def require_cutover_def run_replay_def replay_issuance_def
    replay_adjustment_def replay_payments_def replay_expense_def Let_def
  by (intro tracked.tracks_rules[OF T] tracked.tracks_fold_sem[OF T] attempt_tracks[OF T] adjustment_poster_tracks assms)+

lemma phases_sound:
  assumes "digest_ok env"
  shows "tracks sound_step (run_opening env company)" "tracks sound_step (run_replay env company)"
  by (rule phases_track[OF journal.tracked_axioms]; intro tracking post_opening_balance_sound repost_invoice_issuance_sound
      post_one_shot_sound resettle_invoice_payments_sound repost_expense_sound assms)+

lemma phases_books [tracking]:
  "tracks (books_step {}) (run_opening env company)" "tracks (books_step {}) (run_replay env company)"
  by (rule phases_track[OF books.tracked_axioms]; intro tracking)+

lemma repost_expense_workflow [tracking]: "tracks same_workflow (repost_expense env x actor)"
  unfolding repost_expense_def reverse_live_def by (intro workflow.tracks_rules tracking)

lemma phases_workflow [tracking]:
  "tracks same_workflow (run_opening env company)" "tracks same_workflow (run_replay env company)"
  by (rule phases_track[OF workflow.tracked_axioms]; intro tracking)+

section \<open>The opening phase runs once\<close>

text \<open>The opening phase only appends entries, and after the era lock it leaves the locks alone.\<close>

definition appends :: "gl_db \<Rightarrow> gl_db \<Rightarrow> bool" where
  "appends db db' \<longleftrightarrow> same_workflow db db' \<and> db_locks db' = db_locks db \<and>
     (ledger_inv db \<longrightarrow> ledger_inv db' \<and> prefix (db_entries db) (db_entries db'))"

interpretation appending: tracked appends
proof
  show "appends s s" for s by (simp add: appends_def workflow.R_refl)
  show "appends s t \<Longrightarrow> appends t u \<Longrightarrow> appends s u" for s t u
    unfolding appends_def using workflow.R_trans prefix_order.trans by (metis (no_types, lifting))
qed

definition same_locks :: "gl_db \<Rightarrow> gl_db \<Rightarrow> bool" where
  "same_locks db db' \<longleftrightarrow> db_locks db' = db_locks db"

interpretation locks: tracked same_locks
  by unfold_locales (simp_all add: same_locks_def)

lemma post_for_event_locks [tracking]: "tracks same_locks (post_for_event env ov ev)"
proof -
  have [tracking]: "tracks same_locks (ensure_role_account c r)" for c r
    unfolding tracks_def same_locks_def
  proof
    fix db show "db_locks (snd (ensure_role_account c r db)) = db_locks db"
      using ensure_role_account_snd[of c r db] unfolding snd_seed_coa by (auto simp: add_rows_def)
  qed
  have [tracking]: "tracks same_locks (check_period_lock c d ov b k)" for c d b k
    unfolding tracks_def check_period_lock_def same_locks_def by (auto split: option.splits)
  have [tracking]: "tracks same_locks (insert_entry env c d st sid key rv b rs)" for c d st sid key rv b rs
    unfolding tracks_def insert_entry_cases same_locks_def by (simp add: Let_def grown_def spent_ids_def)
  have [tracking]: "tracks same_locks (resolve_lines c ls)" for c ls
    unfolding resolve_lines_def resolve_line_def by (intro locks.tracks_rules tracking)
  show ?thesis
    unfolding post_for_event_def post_for_event_among_def
    by (intro locks.tracks_rules tracking post_loop_tracks[OF locks.tracked_axioms])
qed

lemma post_for_event_appends: "digest_ok env \<Longrightarrow> tracks appends (post_for_event env ov ev)"
  unfolding tracks_def appends_def
proof (intro allI conjI impI)
  fix db assume env: "digest_ok env"
  obtain r db' where run: "post_for_event env ov ev db = (r, db')" by fastforce
  show "same_workflow db (snd (post_for_event env ov ev db))" using tracksD[OF post_for_event_workflow run] run by simp
  show "db_locks (snd (post_for_event env ov ev db)) = db_locks db"
    using tracksD[OF post_for_event_locks run] run by (simp add: same_locks_def)
  assume inv: "ledger_inv db"
  show "ledger_inv (snd (post_for_event env ov ev db))"
    using inv_sound[OF tracksD[OF post_for_event_tracks[OF env] run] inv] run by simp
  show "prefix (db_entries db) (db_entries (snd (post_for_event env ov ev db)))"
    using env inv run by (cases rule: post_for_event_cases) (auto simp: run)
qed

lemma open_invoice_appends: "digest_ok env \<Longrightarrow> tracks appends (open_invoice env cutover iv r)"
  unfolding open_invoice_def post_opening_balance_def Let_def
  by (intro appending.tracks_rules post_for_event_appends)

lemma workflow_reads:
  assumes "same_workflow db db'"
  shows "opening_balance_cents db' iv d = opening_balance_cents db iv d" "cutover_date db' c = cutover_date db c"
    "company_invoices db' c = company_invoices db c"
  using assms
  by (simp_all add: same_workflow_def opening_balance_cents_def invoice_payments_def invoice_adjustments_def cutover_date_def
      get_gl_settings_def company_invoices_def)

definition opening_live :: "gl_db \<Rightarrow> invoice \<Rightarrow> bool" where
  "opening_live db iv \<longleftrightarrow> (\<exists>e \<in> set (db_entries db). e_source_type e = Some ''invoice'' \<and> e_source_id e = Some (uuid_str (i_id iv)) \<and>
     e_status e = Posted \<and> key_like (escape_like (''invoice'' @ '':'' @ uuid_str (i_id iv) @ '':'' @ EVENT_OPENING @ '':'') @ ''%'') e)"

lemma sort_key_empty: "sort_key f xs = [] \<longleftrightarrow> xs = []"
  using length_sort[of f xs] by (metis length_0_conv)

lemma opening_live_iff: "opening_live db iv \<longleftrightarrow> live_event_entry db ''invoice'' (i_id iv) EVENT_OPENING \<noteq> None"
  unfolding live_event_entry_def first_eq_None opening_live_def sort_key_empty filter_empty_conv by blast

lemma opening_live_mono: "prefix (db_entries db) (db_entries db') \<Longrightarrow> opening_live db iv \<Longrightarrow> opening_live db' iv"
  unfolding opening_live_def using set_mono_prefix by blast

lemma post_opening_live:
  assumes env: "digest_ok env" and inv: "ledger_inv db" and cut: "cutover_date db (i_company iv) = Some cutover"
    and iv: "i_status iv \<in> set ISSUED_STATUSES" "i_deleted_at iv = None" "invoice_effective_at env iv < cutover"
    and op: "opening_balance_cents db iv cutover = Inr opn" "0 < opn"
    and run: "post_opening_balance env iv actor db = (Inr x, db')"
  shows "opening_live db' iv"
proof -
  have early: "\<not> cutover \<le> invoice_effective_at env iv" using iv(3) by simp
  show ?thesis
  proof (cases "live_event_entry db ''invoice'' (i_id iv) EVENT_OPENING")
  case (Some l)
  then have "db' = db" using run cut iv early by (auto simp: post_opening_balance_def andthen_def reads_def asks_def ok_def)
  then show ?thesis using Some by (simp add: opening_live_iff)
next
  case None
  obtain e ls where post: "post_for_event env False (event_of (i_company iv) ''invoice'' (i_id iv) EVENT_OPENING cutover ls actor) db = (Inr e, db')"
    using run None cut iv op early
    by (auto simp: post_opening_balance_def build_opening_lines_def andthen_def reads_def asks_def ok_def split: prod.splits sum.splits)
  note P = post_for_event_entry[OF env inv post]
  have "key_like (escape_like (''invoice'' @ '':'' @ uuid_str (i_id iv) @ '':'' @ EVENT_OPENING @ '':'') @ ''%'') e"
    using event_key_prefix[OF P(6)] unfolding key_like_def like_escape_prefix by auto
  then show ?thesis unfolding opening_live_def using P(1,2,4,5) by blast
  qed
qed

lemma post_opening_again:
  assumes "cutover_date db (i_company iv) = Some cutover" "opening_live db iv"
    "i_status iv \<in> set ISSUED_STATUSES" "i_deleted_at iv = None" "invoice_effective_at env iv < cutover"
  shows "\<exists>x. post_opening_balance env iv actor db = (Inr x, db)"
  using assms by (auto simp: opening_live_iff post_opening_balance_def andthen_def reads_def asks_def ok_def)

lemma open_invoice_again:
  assumes env: "digest_ok env" and inv: "ledger_inv db" and cut: "cutover_date db (i_company iv) = Some cutover" "i_deleted_at iv = None"
    and run: "open_invoice env cutover iv r db = (Inr r1, db1)" and later: "appends db1 db2"
  shows "\<exists>r2. open_invoice env cutover iv s db2 = (Inr r2, db2)"
proof (cases "i_status iv \<notin> set ISSUED_STATUSES \<or> cutover \<le> invoice_effective_at env iv")
  case True
  then show ?thesis by (auto simp: open_invoice_def ok_def)
next
  case False
  have a1: "appends db db1" by (rule tracksD[OF open_invoice_appends[OF env] run])
  then have a: "appends db db2" by (rule appending.R_trans[OF _ later])
  have w: "same_workflow db db2" using a by (simp add: appends_def)
  obtain opn where op: "opening_balance_cents db iv cutover = Inr opn"
    using run False by (cases "opening_balance_cents db iv cutover") (auto simp: open_invoice_def andthen_def reads_def)
  show ?thesis
  proof (cases "opn \<le> 0")
    case True
    then show ?thesis using False op workflow_reads(1)[OF w] by (simp add: open_invoice_def andthen_def reads_def ok_def)
  next
    case pos: False
    obtain x where "post_opening_balance env iv BACKFILL_ACTOR db = (Inr x, db1)"
      using run False pos op by (auto simp: open_invoice_def andthen_def reads_def ok_def split: prod.splits sum.splits)
    from post_opening_live[OF env inv cut(1) _ cut(2) _ op _ this] have "opening_live db1 iv" using False pos by (simp add: not_le)
    moreover have "prefix (db_entries db1) (db_entries db2)" using later a1 inv by (simp add: appends_def)
    ultimately have "opening_live db2 iv" using opening_live_mono by blast
    with cut False obtain y where "post_opening_balance env iv BACKFILL_ACTOR db2 = (Inr y, db2)"
      using post_opening_again[of db2 iv cutover env BACKFILL_ACTOR] workflow_reads(2)[OF w] by (auto simp: not_le)
    then show ?thesis using False pos op workflow_reads(1)[OF w] by (simp add: open_invoice_def andthen_def reads_def ok_def)
  qed
qed

lemma open_invoices_again:
  assumes env: "digest_ok env" and "ledger_inv db"
    and "\<And>iv. iv \<in> set ivs \<Longrightarrow> cutover_date db (i_company iv) = Some cutover \<and> i_deleted_at iv = None"
    and "fold_sem (open_invoice env cutover) ivs r db = (Inr r1, db1)" and "appends db1 db2"
  shows "\<exists>r2. fold_sem (open_invoice env cutover) ivs s db2 = (Inr r2, db2)"
  using assms(2-)
proof (induction ivs arbitrary: db r s)
  case Nil
  then show ?case by (simp add: ok_def)
next
  case (Cons iv ivs)
  obtain ra dba where a: "open_invoice env cutover iv r db = (Inr ra, dba)" "fold_sem (open_invoice env cutover) ivs ra dba = (Inr r1, db1)"
    using Cons.prems(3) by (auto simp: andthen_def split: prod.splits sum.splits)
  have t: "appends db dba" by (rule tracksD[OF open_invoice_appends[OF env] a(1)])
  then have inv: "ledger_inv dba" and w: "same_workflow db dba" using Cons.prems(1) by (simp_all add: appends_def)
  have T: "tracks appends (fold_sem (open_invoice env cutover) ivs ra)"
    by (intro appending.tracks_fold_sem open_invoice_appends env)
  have "appends dba db2" by (rule appending.R_trans[OF tracksD[OF T a(2)] Cons.prems(4)])
  then obtain rb where "open_invoice env cutover iv s db2 = (Inr rb, db2)"
    using open_invoice_again[OF env Cons.prems(1) _ _ a(1)] Cons.prems(2) by (metis list.set_intros(1))
  moreover obtain rc where "fold_sem (open_invoice env cutover) ivs rb db2 = (Inr rc, db2)"
    using Cons.IH[OF inv _ a(2) Cons.prems(4), of rb] Cons.prems(2) workflow_reads(2)[OF w] by auto
  ultimately show ?case by (simp add: andthen_def)
qed

lemma foldl_max_ge: "x \<in> set (a # xs) \<Longrightarrow> x \<le> foldl max a (xs :: date list)"
proof (induction xs arbitrary: a x)
  case (Cons y ys)
  have "max a y \<le> foldl max (max a y) ys" by (rule Cons.IH) simp
  then show ?case using Cons.IH[of x "max a y"] Cons.prems by (auto intro: order_trans[OF max.cobounded1] order_trans[OF max.cobounded2])
qed simp

lemma foldl_max_in: "foldl max a (xs :: date list) \<in> set (a # xs)"
  by (induction xs arbitrary: a) (auto simp: max_def)

lemma latest_lock_covers:
  assumes "\<lparr>k_date = d, k_company = c\<rparr> \<in> set (db_locks db)"
  shows "\<exists>l. latest_lock db c = Some l \<and> d \<le> l"
proof -
  let ?ds = "map k_date (filter (\<lambda>k. k_company k = c) (db_locks db))"
  have "d \<in> set ?ds" using assms by force
  then show ?thesis unfolding latest_lock_def using foldl_max_ge[of d "hd ?ds" "tl ?ds"] by (cases ?ds) auto
qed

text \<open>
  C24.  The opening phase runs once.  Whenever it succeeds, running it again in the state it left behind
  succeeds and changes nothing at all: no second anchor for an invoice, no second era lock.
\<close>

theorem run_opening_idempotent:
  assumes env: "digest_ok env" and inv: "ledger_inv db" and run: "run_opening env company db = (Inr r, db')"
  shows "\<exists>r'. run_opening env company db' = (Inr r', db')"
proof -
  obtain cutover where cut: "cutover_date db company = Some cutover"
    using run by (cases "cutover_date db company") (auto simp: run_opening_def require_cutover_def andthen_def reads_def)
  obtain locked db1 where lock: "ensure_cutover_lock company cutover db = (Inr locked, db1)"
    unfolding ensure_cutover_lock_def Let_def by (metis (no_types, lifting))
  let ?ivs = "company_invoices db1 company"
  let ?r0 = "if locked then add_row (LockRow (add_days cutover (- 1))) empty_result else empty_result"
  have loop: "fold_sem (open_invoice env cutover) ?ivs ?r0 db1 = (Inr r, db')"
    using run cut lock by (simp add: run_opening_def require_cutover_def andthen_def reads_def asks_def)
  have inv1: "ledger_inv db1" by (rule inv_sound[OF tracksD[OF ensure_cutover_lock_frames(1) lock] inv])
  have w1: "same_workflow db db1" by (rule tracksD[OF ensure_cutover_lock_frames(3) lock])
  have "tracks appends (fold_sem (open_invoice env cutover) ?ivs ?r0)"
    by (intro appending.tracks_fold_sem open_invoice_appends env)
  from tracksD[OF this loop] have app: "appends db1 db'" .
  then have w: "same_workflow db1 db'" "db_locks db' = db_locks db1" by (simp_all add: appends_def)
  have "\<exists>l. latest_lock db1 company = Some l \<and> add_days cutover (- 1) \<le> l"
  proof (cases locked)
    case True
    then have "\<lparr>k_date = add_days cutover (- 1), k_company = company\<rparr> \<in> set (db_locks db1)"
      using lock by (auto simp: ensure_cutover_lock_def Let_def split: if_splits)
    then show ?thesis by (rule latest_lock_covers)
  next
    case False
    then show ?thesis using lock by (auto simp: ensure_cutover_lock_def Let_def split: if_splits option.splits)
  qed
  then have lock': "ensure_cutover_lock company cutover db' = (Inr False, db')"
    using w(2) by (auto simp: ensure_cutover_lock_def Let_def latest_lock_def)
  have cut': "cutover_date db' company = Some cutover" "company_invoices db' company = ?ivs"
    using workflow_reads[OF w(1)] workflow_reads[OF w1] cut by simp_all
  have "\<exists>r'. fold_sem (open_invoice env cutover) ?ivs empty_result db' = (Inr r', db')"
    by (rule open_invoices_again[OF env inv1 _ loop appending.R_refl])
      (use workflow_reads(2)[OF w1] cut in \<open>auto simp: company_invoices_def\<close>)
  then show ?thesis
    using lock' cut' by (simp add: run_opening_def require_cutover_def andthen_def reads_def asks_def)
qed

definition opening_db :: gl_db where
  "opening_db = payment_db\<lparr>db_settings := [(fresh_settings ''gdx'')\<lparr>s_enabled := True, s_cutover := Some (Date 2026 4 15)\<rparr>],
     db_invoices := [untaxed_invoice], db_payments := []\<rparr>"

lemma opening_db_inv: "ledger_inv opening_db"
  by (rule ledger_inv_frame[OF _ _ _ posting_db_inv]) (simp_all add: opening_db_def payment_db_def)

theorem run_opening_idempotent_witness:
  "\<exists>r r' db'. run_opening sample_env ''gdx'' opening_db = (Inr r, db') \<and> pr_posted r = 1 \<and>
     run_opening sample_env ''gdx'' db' = (Inr r', db')"
proof -
  let ?b = "run_opening sample_env ''gdx'' opening_db"
  have "map_sum id pr_posted (fst ?b) = Inr 1" by code_simp
  then obtain r where r: "fst ?b = Inr r" "pr_posted r = 1" by (cases "fst ?b") auto
  then have run: "?b = (Inr r, snd ?b)" by (metis prod.collapse)
  from run_opening_idempotent[OF sample_digest_ok opening_db_inv run] run r(2) show ?thesis by blast
qed

end
