(* ===== verification/Ledger_Reports.thy ===== *)
theory Ledger_Reports
  imports Ledger_Books
begin

text \<open>
  The general-ledger reports of \<^verbatim>\<open>modules/ledger/reports.py\<close>: trial balance, accrual profit and loss, balance sheet.
  On a sound ledger the rendered zero-proofs are zero, each account's figure is the sum of its lines, and
  retained earnings roll forward by the net income of the period between.
\<close>

section \<open>Rows and account totals\<close>

definition CREDIT_NATURAL :: "account_type list" where
  "CREDIT_NATURAL = [Liability, Equity, Revenue]"

definition in_window :: "date option \<Rightarrow> date option \<Rightarrow> date \<Rightarrow> bool" where
  "in_window start until d \<longleftrightarrow>
     (case start of None \<Rightarrow> True | Some s \<Rightarrow> s \<le> d) \<and> (case until of None \<Rightarrow> True | Some e \<Rightarrow> d \<le> e)"

definition line_rows :: "gl_db \<Rightarrow> string \<Rightarrow> date option \<Rightarrow> date option \<Rightarrow> (gl_account \<times> int) list" where
  "line_rows db company start until =
     concat (map (\<lambda>e. concat (map (\<lambda>l. map (\<lambda>a. (a, l_amount l)) (filter (\<lambda>a. a_id a = l_account l) (db_accounts db)))
               (entry_lines db (e_id e))))
       (filter (\<lambda>e. e_company e = company \<and> in_window start until (e_effective_at e)) (db_entries db)))"

text \<open>The dict of slots, in insertion order: account id, account, signed cents.\<close>

type_synonym slots = "(uuid \<times> gl_account \<times> int) list"

fun add_to_slot :: "gl_account \<times> int \<Rightarrow> slots \<Rightarrow> slots" where
  "add_to_slot (a, n) [] = [(a_id a, a, n)]"
| "add_to_slot (a, n) ((u, b, m) # t) =
     (if u = a_id a then (u, b, m + n) # t else (u, b, m) # add_to_slot (a, n) t)"

definition sum_by_account :: "(gl_account \<times> int) list \<Rightarrow> slots" where
  "sum_by_account rows = fold add_to_slot rows []"

definition natural :: "gl_account \<Rightarrow> int \<Rightarrow> int" where
  "natural a signed = (if a_type a \<in> set CREDIT_NATURAL then - signed else signed)"

section \<open>Trial balance\<close>

record tb_row =
  tb_account :: string
  tb_code :: string
  tb_name :: string
  tb_type :: account_type
  tb_debit :: int
  tb_credit :: int

record trial_balance_report =
  tb_as_of :: string
  tb_rows :: "tb_row list"
  tb_debit_cents :: int
  tb_credit_cents :: int
  tb_zero_proof_cents :: int

definition nonzero :: "slots \<Rightarrow> (gl_account \<times> int) list" where
  "nonzero t = filter (\<lambda>(a, n). n \<noteq> 0) (map snd t)"

definition tb_row_of :: "gl_account \<times> int \<Rightarrow> tb_row" where
  "tb_row_of x = (case x of (a, n) \<Rightarrow>
     \<lparr>tb_account = uuid_str (a_id a), tb_code = a_code a, tb_name = a_name a, tb_type = a_type a,
      tb_debit = (if 0 < n then n else 0), tb_credit = (if n < 0 then - n else 0)\<rparr>)"

definition trial_balance :: "gl_db \<Rightarrow> string \<Rightarrow> date \<Rightarrow> trial_balance_report" where
  "trial_balance db company as_of =
     (let slots = nonzero (sum_by_account (line_rows db company None (Some as_of)));
          rows = map tb_row_of slots
      in \<lparr>tb_as_of = isoformat as_of, tb_rows = sort_key tb_code rows,
          tb_debit_cents = sum_list (map tb_debit rows), tb_credit_cents = sum_list (map tb_credit rows),
          tb_zero_proof_cents = sum_list (map snd slots)\<rparr>)"

section \<open>Profit and loss\<close>

record section_row =
  sr_account :: "string option"
  sr_code :: string
  sr_name :: string
  sr_amount :: int

record pnl_report =
  pnl_basis :: string
  pnl_start :: string
  pnl_end :: string
  pnl_revenue :: "section_row list"
  pnl_expenses :: "section_row list"
  pnl_revenue_cents :: int
  pnl_expense_cents :: int
  pnl_net_income_cents :: int

definition section_row_of :: "gl_account \<times> int \<Rightarrow> section_row" where
  "section_row_of x = (case x of (a, n) \<Rightarrow>
     \<lparr>sr_account = Some (uuid_str (a_id a)), sr_code = a_code a, sr_name = a_name a, sr_amount = natural a n\<rparr>)"

definition of_type :: "account_type \<Rightarrow> (gl_account \<times> int) list \<Rightarrow> section_row list" where
  "of_type ty slots = map section_row_of (filter (\<lambda>(a, n). a_type a = ty) slots)"

definition amount_sum :: "section_row list \<Rightarrow> int" where
  "amount_sum rows = sum_list (map sr_amount rows)"

definition pnl_sections :: "slots \<Rightarrow> date \<Rightarrow> date \<Rightarrow> string \<Rightarrow> pnl_report" where
  "pnl_sections totals start until basis =
     (let revenue = of_type Revenue (nonzero totals);
          expenses = of_type Expense (nonzero totals)
      in \<lparr>pnl_basis = basis, pnl_start = isoformat start, pnl_end = isoformat until,
          pnl_revenue = sort_key sr_code revenue, pnl_expenses = sort_key sr_code expenses,
          pnl_revenue_cents = amount_sum revenue, pnl_expense_cents = amount_sum expenses,
          pnl_net_income_cents = amount_sum revenue - amount_sum expenses\<rparr>)"

definition pnl_accrual :: "gl_db \<Rightarrow> string \<Rightarrow> date \<Rightarrow> date \<Rightarrow> pnl_report" where
  "pnl_accrual db company start until =
     pnl_sections (sum_by_account (line_rows db company (Some start) (Some until))) start until ''accrual''"

section \<open>Balance sheet\<close>

record balance_sheet_report =
  bs_as_of :: string
  bs_assets :: "section_row list"
  bs_liabilities :: "section_row list"
  bs_equity :: "section_row list"
  bs_asset_cents :: int
  bs_liability_cents :: int
  bs_equity_cents :: int
  bs_zero_proof_cents :: int

definition retained_cents :: "(gl_account \<times> int) list \<Rightarrow> int" where
  "retained_cents slots = - sum_list (map snd (filter (\<lambda>(a, n). a_type a \<in> {Revenue, Expense}) slots))"

definition balance_sheet :: "gl_db \<Rightarrow> string \<Rightarrow> date \<Rightarrow> balance_sheet_report" where
  "balance_sheet db company as_of =
     (let slots = nonzero (sum_by_account (line_rows db company None (Some as_of)));
          assets = of_type Asset slots; liabilities = of_type Liability slots; equity = of_type Equity slots;
          retained = retained_cents slots;
          equity_total = amount_sum equity + retained
      in \<lparr>bs_as_of = isoformat as_of, bs_assets = sort_key sr_code assets, bs_liabilities = sort_key sr_code liabilities,
          bs_equity = sort_key sr_code equity @
            [\<lparr>sr_account = None, sr_code = ''3900*'', sr_name = ''Retained Earnings (computed)'', sr_amount = retained\<rparr>],
          bs_asset_cents = amount_sum assets, bs_liability_cents = amount_sum liabilities, bs_equity_cents = equity_total,
          bs_zero_proof_cents = amount_sum assets - amount_sum liabilities - equity_total\<rparr>)"

section \<open>Account totals are sums of lines\<close>

definition account_sum :: "uuid \<Rightarrow> (gl_account \<times> int) list \<Rightarrow> int" where
  "account_sum u rows = sum_list (map snd (filter (\<lambda>(a, n). a_id a = u) rows))"

text \<open>Rows of one account carry the same account object.\<close>

definition coherent :: "(gl_account \<times> int) list \<Rightarrow> bool" where
  "coherent rows \<longleftrightarrow> (\<forall>x \<in> set rows. \<forall>y \<in> set rows. a_id (fst x) = a_id (fst y) \<longrightarrow> fst x = fst y)"

lemma add_to_slot_keys: "fst ` set (add_to_slot (a, n) t) = insert (a_id a) (fst ` set t)"
  by (induction "(a, n)" t rule: add_to_slot.induct) auto

lemma add_to_slot_distinct: "distinct (map fst t) \<Longrightarrow> distinct (map fst (add_to_slot (a, n) t))"
  by (induction "(a, n)" t rule: add_to_slot.induct) (auto simp: add_to_slot_keys)

text \<open>A weight per account, summed over the slots, is the weight summed over the rows.\<close>

lemma add_to_slot_weighted:
  fixes f :: "gl_account \<Rightarrow> int"
  assumes "\<And>x. x \<in> set t \<Longrightarrow> fst x = a_id a \<Longrightarrow> fst (snd x) = a"
  shows "sum_list (map (\<lambda>(u, b, m). f b * m) (add_to_slot (a, n) t)) = f a * n + sum_list (map (\<lambda>(u, b, m). f b * m) t)"
  using assms
proof (induction t)
  case (Cons x t)
  obtain u b m where x: "x = (u, b, m)" by (cases x) auto
  have IH: "sum_list (map (\<lambda>(u, b, m). f b * m) (add_to_slot (a, n) t)) = f a * n + sum_list (map (\<lambda>(u, b, m). f b * m) t)"
    by (rule Cons.IH) (simp add: Cons.prems)
  show ?case
  proof (cases "u = a_id a")
    case True
    then have "b = a" using Cons.prems[of x] x by simp
    then show ?thesis using x True by (simp add: algebra_simps)
  qed (simp add: x IH)
qed simp

lemma add_to_slot_accounts: "(u, b, m) \<in> set (add_to_slot (a, n) t) \<Longrightarrow> u = a_id a \<and> b = a \<or> (\<exists>k. (u, b, k) \<in> set t)"
  by (induction "(a, n)" t rule: add_to_slot.induct) (auto split: if_splits)

definition slots_of :: "(gl_account \<times> int) list \<Rightarrow> slots \<Rightarrow> bool" where
  "slots_of rows t \<longleftrightarrow> distinct (map fst t) \<and> (\<forall>(u, b, m) \<in> set t. u = a_id b \<and> b \<in> fst ` set rows) \<and>
     fst ` set t = a_id ` fst ` set rows \<and>
     (\<forall>f :: gl_account \<Rightarrow> int. sum_list (map (\<lambda>(u, b, m). f b * m) t) = sum_list (map (\<lambda>(a, n). f a * n) rows))"

lemma slots_of_weighted:
  "slots_of rows t \<Longrightarrow> sum_list (map (\<lambda>(u, b, m). f b * m) t) = sum_list (map (\<lambda>(a, n). f a * n) rows)"
  unfolding slots_of_def by (elim conjE allE[of _ f])

lemma sum_by_account_snoc: "sum_by_account (rows @ [x]) = add_to_slot x (sum_by_account rows)"
  by (simp add: sum_by_account_def)

lemma coherent_append: "coherent (xs @ ys) \<Longrightarrow> coherent xs"
  unfolding coherent_def set_append by blast

lemma slots_of_sum_by_account: "coherent rows \<Longrightarrow> slots_of rows (sum_by_account rows)"
proof (induction rows rule: rev_induct)
  case Nil
  then show ?case by (simp add: slots_of_def sum_by_account_def)
next
  case (snoc x rows)
  obtain a n where x: "x = (a, n)" by fastforce
  let ?t = "sum_by_account rows"
  have IH: "slots_of rows ?t" by (rule snoc.IH[OF coherent_append[OF snoc.prems]])
  have same: "b = a" if "(u, b, m) \<in> set ?t" "u = a_id a" for u b m
  proof -
    have "u = a_id b" "b \<in> fst ` set rows" using IH that(1) unfolding slots_of_def by auto
    then have "b \<in> fst ` set (rows @ [x])" "a \<in> fst ` set (rows @ [x])" "a_id b = a_id a" using that(2) x by auto
    then show ?thesis using snoc.prems unfolding coherent_def by blast
  qed
  have ids: "u = a_id b" if "(u, b, m) \<in> set (add_to_slot (a, n) ?t)" for u b m
    using add_to_slot_accounts[OF that] IH unfolding slots_of_def by fastforce
  have "b \<in> fst ` set (rows @ [x])" if "(u, b, m) \<in> set (add_to_slot (a, n) ?t)" for u b m
    using add_to_slot_accounts[OF that] IH x unfolding slots_of_def by (fastforce simp: image_iff)
  moreover have "sum_list (map (\<lambda>(u, b, m). f b * m) (add_to_slot (a, n) ?t)) = sum_list (map (\<lambda>(a, n). f a * n) (rows @ [x]))" for f
    using add_to_slot_weighted[of ?t a f n] same IH x unfolding slots_of_def by force
  ultimately show ?case
    using ids IH add_to_slot_distinct[of ?t a n] add_to_slot_keys[of a n ?t]
    unfolding slots_of_def sum_by_account_snoc x by auto
qed

section \<open>Rows of a sound ledger\<close>

lemma line_account:
  assumes "accounts_ok db" "l \<in> set (entry_lines db u)"
  shows "\<exists>a. filter (\<lambda>a. a_id a = l_account l) (db_accounts db) = [a] \<and> a_id a = l_account l"
proof -
  obtain a where a: "a \<in> set (db_accounts db)" "a_id a = l_account l" using assms by (force simp: accounts_ok_def entry_lines_def)
  moreover have "filter (\<lambda>b. a_id b = a_id a) (db_accounts db) = [a]"
    by (rule filter_by_id[OF a(1)]) (use assms(1) in \<open>simp add: accounts_ok_def\<close>)
  ultimately show ?thesis by auto
qed

lemma line_rows_accounts: "x \<in> set (line_rows db c s e) \<Longrightarrow> fst x \<in> set (db_accounts db)"
  by (auto simp: line_rows_def)

lemma line_rows_coherent: "accounts_ok db \<Longrightarrow> coherent (line_rows db c s e)"
  unfolding coherent_def accounts_ok_def distinct_map using line_rows_accounts by (meson inj_onD)

lemmas report_slots = slots_of_sum_by_account[OF line_rows_coherent]

text \<open>A weighted sum over the rows is the sum of each entry's weight.\<close>

definition entry_weight :: "gl_db \<Rightarrow> (gl_account \<Rightarrow> int) \<Rightarrow> gl_entry \<Rightarrow> int" where
  "entry_weight db f e =
     sum_list (map (\<lambda>l. sum_list (map (\<lambda>a. f a * l_amount l) (filter (\<lambda>a. a_id a = l_account l) (db_accounts db))))
       (entry_lines db (e_id e)))"

lemma sum_list_concat_map: "sum_list (map h (concat xss)) = sum_list (map (\<lambda>xs. sum_list (map h xs)) xss)"
  for h :: "'a \<Rightarrow> int" by (induction xss) simp_all

lemma rows_weighted:
  "sum_list (map (\<lambda>(a, n). f a * n) (line_rows db c s e)) =
     sum_list (map (entry_weight db f) (filter (\<lambda>x. e_company x = c \<and> in_window s e (e_effective_at x)) (db_entries db)))"
  unfolding line_rows_def entry_weight_def sum_list_concat_map by (simp add: comp_def sum_list_concat_map)

lemma entry_weight_one:
  assumes ok: "accounts_ok db"
  shows "entry_weight db (\<lambda>_. 1) e = sum_list (map l_amount (entry_lines db (e_id e)))"
proof -
  have "sum_list (map (\<lambda>a. 1 * l_amount l) (filter (\<lambda>a. a_id a = l_account l) (db_accounts db))) = l_amount l"
    if "l \<in> set (entry_lines db (e_id e))" for l
    using line_account[OF ok that] by (elim exE conjE) simp
  then show ?thesis unfolding entry_weight_def by (intro arg_cong[where f = sum_list] map_cong) simp_all
qed

lemma rows_zero:
  assumes "ledger_inv db" and "accounts_ok db"
  shows "sum_list (map (\<lambda>(a, n). 1 * n) (line_rows db c s e)) = 0"
proof -
  have "entry_weight db (\<lambda>_. 1) x = 0" if "x \<in> set (db_entries db)" for x
    using ledger_invD(5)[OF assms(1) that] entry_weight_one[OF assms(2)] by (simp add: balanced_def)
  then have "map (entry_weight db (\<lambda>_. 1)) (filter P (db_entries db)) = map (\<lambda>_. 0) (filter P (db_entries db))" for P
    by (intro map_cong) simp_all
  then show ?thesis unfolding rows_weighted by (simp only:) simp
qed

lemma nonzero_weighted:
  "sum_list (map (\<lambda>(a, n). f a * n) (nonzero t)) = sum_list (map (\<lambda>(u, b, m). f b * m) t)" for f :: "gl_account \<Rightarrow> int"
  unfolding nonzero_def by (induction t) auto

lemma slots_weighted:
  fixes f :: "gl_account \<Rightarrow> int"
  assumes "accounts_ok db"
  shows "sum_list (map (\<lambda>(a, n). f a * n) (nonzero (sum_by_account (line_rows db c s e)))) =
    sum_list (map (\<lambda>(a, n). f a * n) (line_rows db c s e))"
  using report_slots[OF assms] unfolding nonzero_weighted slots_of_def by blast

text \<open>What the journal holds on one account, straight from its lines.\<close>

definition ledger_balance :: "gl_db \<Rightarrow> string \<Rightarrow> date option \<Rightarrow> date option \<Rightarrow> uuid \<Rightarrow> int" where
  "ledger_balance db company start until u =
     sum_list (map (\<lambda>e. sum_list (map l_amount (filter (\<lambda>l. l_account l = u) (entry_lines db (e_id e)))))
       (filter (\<lambda>e. e_company e = company \<and> in_window start until (e_effective_at e)) (db_entries db)))"

lemma entry_weight_account:
  assumes ok: "accounts_ok db" and a: "a \<in> set (db_accounts db)"
  shows "entry_weight db (\<lambda>b. if a_id b = a_id a then 1 else 0) e =
    sum_list (map l_amount (filter (\<lambda>l. l_account l = a_id a) (entry_lines db (e_id e))))"
proof -
  have "sum_list (map (\<lambda>b. (if a_id b = a_id a then 1 else 0) * l_amount l) (filter (\<lambda>b. a_id b = l_account l) (db_accounts db))) =
      (if l_account l = a_id a then l_amount l else 0)" if "l \<in> set (entry_lines db (e_id e))" for l
    using line_account[OF ok that] by (elim exE conjE) auto
  then have "entry_weight db (\<lambda>b. if a_id b = a_id a then 1 else 0) e =
      sum_list (map (\<lambda>l. if l_account l = a_id a then l_amount l else 0) (entry_lines db (e_id e)))"
    unfolding entry_weight_def by (intro arg_cong[where f = sum_list] map_cong) simp_all
  then show ?thesis by (simp add: sum_list_map_filter')
qed

lemma slots_single:
  fixes m :: int
  assumes "distinct (map fst t)" "(u, b, m) \<in> set t" "\<forall>x \<in> set t. fst x = a_id (fst (snd x))"
  shows "sum_list (map (\<lambda>(v, c, n). (if a_id c = u then 1 else 0) * n) t) = m"
proof -
  have "sum_list (map (\<lambda>(v, c, n). (if a_id c = u then 1 else 0) * n) t) = sum_list (map (\<lambda>x. snd (snd x)) (filter (\<lambda>x. fst x = u) t))"
    using assms(3) by (induction t) (auto split: prod.splits)
  also have "filter (\<lambda>x. fst x = u) t = [(u, b, m)]" using filter_by_id[OF assms(2,1)] by simp
  finally show ?thesis by simp
qed

lemma slot_balance:
  assumes ok: "accounts_ok db" and x: "(u, a, n) \<in> set (sum_by_account (line_rows db c s e))"
  shows "n = ledger_balance db c s e (a_id a)" "a \<in> set (db_accounts db)" "u = a_id a"
proof -
  let ?t = "sum_by_account (line_rows db c s e)" and ?f = "\<lambda>b. if a_id b = a_id a then 1 else (0::int)"
  have S: "slots_of (line_rows db c s e) ?t" by (rule report_slots[OF ok])
  show a: "a \<in> set (db_accounts db)" "u = a_id a" using S x line_rows_accounts unfolding slots_of_def by fastforce+
  have "sum_list (map (\<lambda>(v, c, n). ?f c * n) ?t) = n"
    unfolding a(2)[symmetric] by (rule slots_single[OF _ x]) (use S in \<open>auto simp: slots_of_def\<close>)
  moreover have "sum_list (map (\<lambda>(v, c, n). ?f c * n) ?t) = sum_list (map (\<lambda>(b, n). ?f b * n) (line_rows db c s e))"
    by (rule slots_of_weighted[OF S])
  ultimately show "n = ledger_balance db c s e (a_id a)"
    unfolding rows_weighted ledger_balance_def entry_weight_account[OF ok a(1)] by simp
qed

section \<open>The reports prove to zero\<close>

lemma nonzero_iff: "(a, n) \<in> set (nonzero t) \<longleftrightarrow> n \<noteq> 0 \<and> (\<exists>u. (u, a, n) \<in> set t)"
  by (force simp: nonzero_def)

lemma nonzero_slots:
  assumes ok: "accounts_ok db"
  shows "set (nonzero (sum_by_account (line_rows db c s e))) =
    {(a, n). a \<in> set (db_accounts db) \<and> n = ledger_balance db c s e (a_id a) \<and> n \<noteq> 0}" (is "?L = ?R")
proof
  show "?L \<subseteq> ?R" using slot_balance[OF ok] by (auto simp: nonzero_iff)
  show "?R \<subseteq> ?L"
  proof (clarsimp)
    fix a assume a: "a \<in> set (db_accounts db)" "ledger_balance db c s e (a_id a) \<noteq> 0"
    let ?t = "sum_by_account (line_rows db c s e)"
    have "a_id a \<in> fst ` set ?t"
    proof (rule ccontr)
      assume no: "a_id a \<notin> fst ` set ?t"
      let ?f = "\<lambda>b. if a_id b = a_id a then 1 else (0::int)"
      have "fst ` set ?t = a_id ` fst ` set (line_rows db c s e)" using report_slots[OF ok] unfolding slots_of_def by blast
      then have "a_id (fst x) \<noteq> a_id a" if "x \<in> set (line_rows db c s e)" for x using no that by (metis image_eqI)
      then have "map (\<lambda>(b, n). ?f b * n) (line_rows db c s e) = map (\<lambda>_. 0) (line_rows db c s e)"
        by (intro map_cong) (simp_all add: case_prod_beta')
      then have "sum_list (map (\<lambda>(b, n). ?f b * n) (line_rows db c s e)) = 0" by (simp only:) simp
      then show False using a(2) unfolding rows_weighted ledger_balance_def entry_weight_account[OF ok a(1)] by simp
    qed
    then obtain b n where x: "(a_id a, b, n) \<in> set ?t" by force
    note b = slot_balance[OF ok x]
    have "inj_on a_id (set (db_accounts db))" using ok unfolding accounts_ok_def distinct_map by blast
    from inj_onD[OF this b(3) a(1) b(2)] have "(a_id a, a, ledger_balance db c s e (a_id a)) \<in> set ?t"
      using x b(1) by simp
    then show "(a, ledger_balance db c s e (a_id a)) \<in> set (nonzero ?t)" using a(2) unfolding nonzero_iff by blast
  qed
qed

lemma tb_sides: "sum_list (map tb_debit (map tb_row_of xs)) - sum_list (map tb_credit (map tb_row_of xs)) = sum_list (map snd xs)"
  by (induction xs) (auto simp: tb_row_of_def split: prod.splits)

lemma snd_weighted: "sum_list (map snd xs) = sum_list (map (\<lambda>(a, n). 1 * n) xs)" for xs :: "(gl_account \<times> int) list"
  by (simp add: case_prod_beta')

text \<open>
  C5.  The trial balance.  On every sound ledger, at every date, the rendered zero-proof is zero and the two
  columns agree; the rows are exactly the accounts whose lines up to the date do not cancel, each with
  that sum on the debit or on the credit side, ordered by code.
\<close>

theorem trial_balance_proves_zero:
  assumes "ledger_inv db" and "accounts_ok db"
  shows "tb_zero_proof_cents (trial_balance db c d) = 0 \<and>
    tb_debit_cents (trial_balance db c d) = tb_credit_cents (trial_balance db c d) \<and>
    set (tb_rows (trial_balance db c d)) = {tb_row_of (a, n) |a n. a \<in> set (db_accounts db) \<and>
       n = ledger_balance db c None (Some d) (a_id a) \<and> n \<noteq> 0} \<and>
    sorted (map tb_code (tb_rows (trial_balance db c d)))"
proof -
  let ?s = "nonzero (sum_by_account (line_rows db c None (Some d)))"
  have "sum_list (map snd ?s) = 0"
    unfolding snd_weighted slots_weighted[OF assms(2), of "\<lambda>_. 1"] by (rule rows_zero[OF assms])
  moreover have "set (map tb_row_of ?s) = tb_row_of ` {(a, n). a \<in> set (db_accounts db) \<and>
       n = ledger_balance db c None (Some d) (a_id a) \<and> n \<noteq> 0}"
    unfolding set_map nonzero_slots[OF assms(2)] by simp
  ultimately show ?thesis using tb_sides[of ?s] by (auto simp: trial_balance_def Let_def)
qed

lemma sample_books: "accounts_ok sample_posted"
  by code_simp

theorem trial_balance_proves_zero_witness:
  "tb_debit_cents (trial_balance sample_posted ''gdx'' (Date 2026 12 31)) = 5000 \<and>
   tb_credit_cents (trial_balance sample_posted ''gdx'' (Date 2026 12 31)) = 5000"
proof -
  have "tb_debit_cents (trial_balance sample_posted ''gdx'' (Date 2026 12 31)) = 5000" by code_simp
  then show ?thesis
    using trial_balance_proves_zero[OF sample_posted_inv sample_books, of "''gdx''" "Date 2026 12 31"] by simp
qed

text \<open>Section totals as weighted sums.\<close>

lemma amount_sum_of_type:
  "amount_sum (of_type ty xs) = sum_list (map (\<lambda>(a, n). (if a_type a = ty then natural a 1 else 0) * n) xs)"
  unfolding amount_sum_def of_type_def by (induction xs) (auto simp: section_row_of_def natural_def)

lemma retained_weighted:
  "retained_cents xs = sum_list (map (\<lambda>(a, n). (if a_type a \<in> {Revenue, Expense} then - 1 else 0) * n) xs)"
  unfolding retained_cents_def by (induction xs) (auto split: if_splits)

lemma weighted_add: "sum_list (map (\<lambda>(a, n). f a * n) xs) + sum_list (map (\<lambda>(a, n). g a * n) xs) =
    sum_list (map (\<lambda>(a, n). (f a + g a) * n) xs)" for f g :: "gl_account \<Rightarrow> int"
  by (induction xs) (auto simp: algebra_simps)

lemma type_weights:
  "(if a_type a = Asset then natural a 1 else 0) - (if a_type a = Liability then natural a 1 else 0) -
   ((if a_type a = Equity then natural a 1 else 0) + (if a_type a \<in> {Revenue, Expense} then - 1 else 0)) = 1"
  by (cases "a_type a") (simp_all add: natural_def CREDIT_NATURAL_def)

text \<open>
  C36.  The balance sheet balances.  On every sound ledger, at every date, assets equal liabilities plus
  equity with the computed retained earnings, and the rendered zero-proof is zero.
\<close>

theorem balance_sheet_balances:
  assumes "ledger_inv db" and "accounts_ok db"
  shows "bs_zero_proof_cents (balance_sheet db c d) = 0 \<and>
    bs_asset_cents (balance_sheet db c d) = bs_liability_cents (balance_sheet db c d) + bs_equity_cents (balance_sheet db c d)"
proof -
  let ?s = "nonzero (sum_by_account (line_rows db c None (Some d)))"
  have w: "sum_list (map (\<lambda>(a, n). f a * n) xs) - sum_list (map (\<lambda>(a, n). g a * n) xs) -
      (sum_list (map (\<lambda>(a, n). h a * n) xs) + sum_list (map (\<lambda>(a, n). k a * n) xs)) =
      sum_list (map (\<lambda>(a, n). (f a - g a - (h a + k a)) * n) xs)" for f g h k :: "gl_account \<Rightarrow> int" and xs
    by (induction xs) (auto simp: algebra_simps)
  have "amount_sum (of_type Asset ?s) - amount_sum (of_type Liability ?s) - (amount_sum (of_type Equity ?s) + retained_cents ?s) =
      sum_list (map (\<lambda>(a, n). 1 * n) ?s)"
    unfolding amount_sum_of_type retained_weighted w type_weights ..
  also have "\<dots> = 0" unfolding slots_weighted[OF assms(2), of "\<lambda>_. 1"] by (rule rows_zero[OF assms])
  finally show ?thesis by (simp add: balance_sheet_def Let_def)
qed

theorem balance_sheet_balances_witness:
  "bs_asset_cents (balance_sheet sample_posted ''gdx'' (Date 2026 12 31)) = 5000 \<and>
   bs_liability_cents (balance_sheet sample_posted ''gdx'' (Date 2026 12 31)) +
     bs_equity_cents (balance_sheet sample_posted ''gdx'' (Date 2026 12 31)) = 5000"
proof -
  have "bs_asset_cents (balance_sheet sample_posted ''gdx'' (Date 2026 12 31)) = 5000" by code_simp
  then show ?thesis
    using balance_sheet_balances[OF sample_posted_inv sample_books, of "''gdx''" "Date 2026 12 31"] by simp
qed

section \<open>Retained earnings roll forward\<close>

lemma filter_split_sum:
  fixes h :: "'a \<Rightarrow> int"
  assumes "\<And>x. x \<in> set xs \<Longrightarrow> P x \<longleftrightarrow> Q x \<or> R x" "\<And>x. x \<in> set xs \<Longrightarrow> \<not> (Q x \<and> R x)"
  shows "sum_list (map h (filter P xs)) = sum_list (map h (filter Q xs)) + sum_list (map h (filter R xs))"
  using assms by (induction xs) auto

text \<open>
  Balance sheet and profit and loss agree.  For a day before the start of a period with no entry
  strictly between, the retained earnings at the end of the period are those of that day plus the net income the accrual report shows
  for the period.
\<close>

theorem retained_earnings_roll_forward:
  assumes ok: "accounts_ok db" and before: "\<And>e. e \<in> set (db_entries db) \<Longrightarrow> e_effective_at e \<le> prev \<longleftrightarrow> e_effective_at e < start"
    and "start \<le> until"
  shows "sr_amount (last (bs_equity (balance_sheet db c until))) =
    sr_amount (last (bs_equity (balance_sheet db c prev))) + pnl_net_income_cents (pnl_accrual db c start until)"
proof -
  let ?f = "\<lambda>a. if a_type a \<in> {Revenue, Expense} then - 1 else (0::int)"
  let ?W = "\<lambda>s e. sum_list (map (\<lambda>(a, n). ?f a * n) (line_rows db c s e))"
  have ret: "sr_amount (last (bs_equity (balance_sheet db c d))) = ?W None (Some d)" for d
  proof -
    have "sr_amount (last (bs_equity (balance_sheet db c d))) = retained_cents (nonzero (sum_by_account (line_rows db c None (Some d))))"
      by (simp add: balance_sheet_def Let_def)
    then show ?thesis unfolding retained_weighted slots_weighted[OF ok] .
  qed
  have "pnl_net_income_cents (pnl_accrual db c start until) = ?W (Some start) (Some until)"
  proof -
    let ?s = "nonzero (sum_by_account (line_rows db c (Some start) (Some until)))"
    have "amount_sum (of_type Revenue xs) - amount_sum (of_type Expense xs) = sum_list (map (\<lambda>(a, n). ?f a * n) xs)" for xs
      unfolding amount_sum_of_type by (induction xs) (auto simp: natural_def CREDIT_NATURAL_def)
    moreover have "pnl_net_income_cents (pnl_accrual db c start until) = amount_sum (of_type Revenue ?s) - amount_sum (of_type Expense ?s)"
      by (simp add: pnl_accrual_def pnl_sections_def Let_def)
    ultimately show ?thesis using slots_weighted[OF ok, of ?f c "Some start" "Some until"] by presburger
  qed
  moreover have "?W None (Some until) = ?W None (Some prev) + ?W (Some start) (Some until)"
    unfolding rows_weighted
  proof (rule filter_split_sum)
    fix x assume x: "x \<in> set (db_entries db)"
    show "(e_company x = c \<and> in_window None (Some until) (e_effective_at x)) =
        (e_company x = c \<and> in_window None (Some prev) (e_effective_at x) \<or>
         e_company x = c \<and> in_window (Some start) (Some until) (e_effective_at x))"
      using before[OF x] assms(3) by (auto simp: in_window_def)
    show "\<not> ((e_company x = c \<and> in_window None (Some prev) (e_effective_at x)) \<and>
        e_company x = c \<and> in_window (Some start) (Some until) (e_effective_at x))"
      using before[OF x] by (auto simp: in_window_def)
  qed
  ultimately show ?thesis unfolding ret by simp
qed

theorem retained_earnings_roll_forward_witness:
  "sr_amount (last (bs_equity (balance_sheet sample_posted ''gdx'' (Date 2026 12 31)))) =
   sr_amount (last (bs_equity (balance_sheet sample_posted ''gdx'' (Date 2026 2 28)))) +
     pnl_net_income_cents (pnl_accrual sample_posted ''gdx'' (Date 2026 3 1) (Date 2026 12 31))"
proof (rule retained_earnings_roll_forward[OF sample_books])
  have "list_all (\<lambda>e. (e_effective_at e \<le> Date 2026 2 28) = (e_effective_at e < Date 2026 3 1)) (db_entries sample_posted)" by code_simp
  then show "(e_effective_at e \<le> Date 2026 2 28) = (e_effective_at e < Date 2026 3 1)" if "e \<in> set (db_entries sample_posted)" for e
    using that by (simp add: list_all_iff)
  show "Date 2026 3 1 \<le> Date 2026 12 31" by (simp add: less_eq_date_def)
qed

end
