(* ===== verification/Ar_Control.thy ===== *)
theory Ar_Control
  imports Ledger_Backfill Ledger_Reports
begin

text \<open>
  \<^verbatim>\<open>reports.ar_control\<close>: the receivable account of the ledger tied to the open invoices.  Every journal line on a
  receivable account is attributed to an invoice, the invoices are compared one by one, and what no invoice can
  claim is listed apart.  The report's own claim, that the difference between control account and subledger is the
  per-invoice drift plus the unattributed rest, is proved, and the attribution is the one of
  \<^verbatim>\<open>rules.invoice_ar_balance_cents\<close>.
\<close>

section \<open>A dict of running sums\<close>

definition get_sum :: "('k \<times> int) list \<Rightarrow> 'k \<Rightarrow> int" where
  "get_sum d k = (case map_of d k of None \<Rightarrow> 0 | Some n \<Rightarrow> n)"

definition bump :: "'k \<Rightarrow> int \<Rightarrow> ('k \<times> int) list \<Rightarrow> ('k \<times> int) list" where
  "bump k n d = AList.update k (get_sum d k + n) d"

lemma get_sum_Nil [simp]: "get_sum [] k = 0"
  by (simp add: get_sum_def)

lemma get_sum_bump [simp]: "get_sum (bump k n d) j = get_sum d j + (if j = k then n else 0)"
  by (simp add: get_sum_def bump_def update_conv')

lemma distinct_bump [simp]: "distinct (map fst d) \<Longrightarrow> distinct (map fst (bump k n d))"
  by (simp add: bump_def distinct_update)

lemma get_sum_Cons: "get_sum ((a, b) # d) k = (if a = k then b else get_sum d k)"
  by (simp add: get_sum_def)

lemma values_update: "sum_list (map snd (AList.update k (get_sum d k + n) d)) = sum_list (map snd d) + n"
  by (induction d) (auto simp: get_sum_Cons split: prod.splits)

lemma values_bump [simp]: "sum_list (map snd (bump k n d)) = sum_list (map snd d) + n"
  unfolding bump_def by (rule values_update)

lemma get_sum_mem: "distinct (map fst d) \<Longrightarrow> (k, n) \<in> set d \<Longrightarrow> get_sum d k = n"
  by (simp add: get_sum_def)

section \<open>Attribution\<close>

definition payment_invoice :: "gl_db \<Rightarrow> string \<Rightarrow> string option" where
  "payment_invoice db = map_of (rev (map (\<lambda>p. (uuid_str (p_id p), uuid_str (p_invoice p))) (db_payments db)))"

definition adjustment_invoice :: "gl_db \<Rightarrow> string \<Rightarrow> string option" where
  "adjustment_invoice db = map_of (rev (map (\<lambda>a. (uuid_str (adj_id a), uuid_str (adj_invoice a))) (db_adjustments db)))"

definition attributed_invoice :: "gl_db \<Rightarrow> string option \<Rightarrow> string option \<Rightarrow> string option" where
  "attributed_invoice db st sid =
     (if st = Some ''invoice'' then sid
      else if st = Some ''payment'' then Option.bind sid (payment_invoice db)
      else if st = Some ''adjustment'' then Option.bind sid (adjustment_invoice db)
      else None)"

record ar_scan =
  sc_control :: int
  sc_ledger :: "(string \<times> int) list"
  sc_payment :: "(string \<times> int) list"
  sc_unattributed :: "(string \<times> int) list"

definition scan_line :: "gl_db \<Rightarrow> string option \<times> string option \<times> int \<Rightarrow> ar_scan \<Rightarrow> ar_scan" where
  "scan_line db x s = (case x of (st, sid, amount) \<Rightarrow>
     let s = s\<lparr>sc_control := sc_control s + amount\<rparr> in
     (case attributed_invoice db st sid of
        None \<Rightarrow> s\<lparr>sc_unattributed := bump (or_str st ''manual'') amount (sc_unattributed s)\<rparr>
      | Some i \<Rightarrow>
          let s = s\<lparr>sc_ledger := bump i amount (sc_ledger s)\<rparr> in
          if st = Some ''payment'' then s\<lparr>sc_payment := bump i amount (sc_payment s)\<rparr> else s))"

definition scan_lines :: "gl_db \<Rightarrow> ar_scan" where
  "scan_lines db = fold (scan_line db) (ar_role_lines db)
     \<lparr>sc_control = 0, sc_ledger = [], sc_payment = [], sc_unattributed = []\<rparr>"

section \<open>The comparison\<close>

record drift_row =
  dr_invoice :: string
  dr_number :: string
  dr_status :: invoice_status
  dr_deleted :: bool
  dr_open_balance :: int
  dr_ledger_ar :: int
  dr_drift :: int
  dr_balance_due :: "int option"
  dr_reason :: "string option"

definition receivable :: "invoice \<Rightarrow> bool" where
  "receivable iv \<longleftrightarrow> i_status iv \<in> set RECEIVABLE_STATUSES \<and> i_deleted_at iv = None"

definition expected_cents :: "invoice \<Rightarrow> exn + int" where
  "expected_cents iv = (if receivable iv then col_cents (i_balance_due iv) else Inr 0)"

definition compare_invoice :: "ar_scan \<Rightarrow> invoice \<Rightarrow> exn + int \<times> drift_row list" where
  "compare_invoice s iv =
     (let key = uuid_str (i_id iv) in
      bindR (expected_cents iv) (\<lambda>expected.
      let ledger = get_sum (sc_ledger s) key;
          row = \<lparr>dr_invoice = key, dr_number = i_number iv, dr_status = i_status iv, dr_deleted = i_deleted_at iv \<noteq> None,
                 dr_open_balance = expected, dr_ledger_ar = ledger, dr_drift = ledger - expected,
                 dr_balance_due = None, dr_reason = None\<rparr> in
      if ledger = expected then Inr (expected, [])
      else if receivable iv then Inr (expected, [row])
      else bindR (col_cents (i_balance_due iv)) (\<lambda>due.
        Inr (expected, [row\<lparr>dr_balance_due := Some due,
          dr_reason := (if i_status iv = Draft \<and> i_deleted_at iv = None \<and> get_sum (sc_payment s) key \<noteq> 0
                        then Some ''payment_on_draft'' else None)\<rparr>]))))"

definition compare_invoices :: "gl_db \<Rightarrow> exn + int \<times> drift_row list" where
  "compare_invoices db =
     bindR (mapR (compare_invoice (scan_lines db)) (db_invoices db)) (\<lambda>cs. Inr (sum_list (map fst cs), concat (map snd cs)))"

text \<open>Receivables of invoices that no longer resolve to a row join the unattributed sums.\<close>

definition missing_invoice :: "string list \<Rightarrow> (string \<times> int) list \<Rightarrow> (string \<times> int) list \<Rightarrow> (string \<times> int) list" where
  "missing_invoice seen ledger unattributed =
     fold (\<lambda>(i, n) u. if i \<notin> set seen \<and> n \<noteq> 0 then bump ''missing_invoice'' n u else u) ledger unattributed"

definition all_unattributed :: "gl_db \<Rightarrow> (string \<times> int) list" where
  "all_unattributed db =
     (let s = scan_lines db in missing_invoice (map (\<lambda>i. uuid_str (i_id i)) (db_invoices db)) (sc_ledger s) (sc_unattributed s))"

definition AR_DRIFT_ROW_LIMIT :: nat where
  "AR_DRIFT_ROW_LIMIT = 200"

definition AR_SHORTFALL_ROW_LIMIT :: nat where
  "AR_SHORTFALL_ROW_LIMIT = 200"

record ar_report =
  ar_posting_enabled :: bool
  ar_cutover_month :: "string option"
  ar_control_cents :: int
  ar_subledger_cents :: int
  ar_difference_cents :: int
  ar_tied :: bool
  ar_shortfall_cents :: int
  ar_refunded_cents :: int
  ar_shortfall_count :: nat
  ar_shortfalls :: "excess_row list"
  ar_drift_count :: nat
  ar_drift :: "drift_row list"
  ar_unattributed_cents :: int
  ar_unattributed :: "(string \<times> int) list"

definition ar_control :: "gl_env \<Rightarrow> gl_db \<Rightarrow> string \<Rightarrow> exn + ar_report" where
  "ar_control env db company =
     bindR (compare_invoices db) (\<lambda>(subledger, drift_rows).
     bindR (era_settlement_excess env db company) (\<lambda>excess.
     let control = sc_control (scan_lines db);
         drift = sort_key (\<lambda>r. (- \<bar>dr_drift r\<bar>, dr_number r)) drift_rows;
         unattributed = all_unattributed db;
         unattributed_cents = sum_list (map snd unattributed);
         shortfalls = sort_key (\<lambda>r. (- ex_uncovered r, ex_number r, ex_payment r)) (era_settlement_shortfalls excess);
         shortfall_cents = sum_list (map ex_uncovered shortfalls);
         settings = get_gl_settings db company
     in Inr \<lparr>ar_posting_enabled = (case settings of None \<Rightarrow> False | Some s \<Rightarrow> s_enabled s),
          ar_cutover_month = map_option isoformat (Option.bind settings s_cutover),
          ar_control_cents = control, ar_subledger_cents = subledger, ar_difference_cents = control - subledger,
          ar_tied = (control = subledger \<and> drift = [] \<and> unattributed_cents = 0 \<and> shortfall_cents = 0),
          ar_shortfall_cents = shortfall_cents, ar_refunded_cents = sum_list (map ex_refunded excess),
          ar_shortfall_count = length shortfalls, ar_shortfalls = take AR_SHORTFALL_ROW_LIMIT shortfalls,
          ar_drift_count = length drift, ar_drift = take AR_DRIFT_ROW_LIMIT drift,
          ar_unattributed_cents = unattributed_cents,
          ar_unattributed = filter (\<lambda>(k, v). v \<noteq> 0) (sort unattributed)\<rparr>))"

section \<open>What the scan sums up\<close>

lemma scan_line_simps:
  "sc_control (scan_line db (st, sid, n) s) = sc_control s + n"
  "get_sum (sc_ledger (scan_line db (st, sid, n) s)) k =
     get_sum (sc_ledger s) k + (if attributed_invoice db st sid = Some k then n else 0)"
  "sum_list (map snd (sc_ledger (scan_line db (st, sid, n) s))) + sum_list (map snd (sc_unattributed (scan_line db (st, sid, n) s))) =
     sum_list (map snd (sc_ledger s)) + sum_list (map snd (sc_unattributed s)) + n"
  "distinct (map fst (sc_ledger s)) \<Longrightarrow> distinct (map fst (sc_ledger (scan_line db (st, sid, n) s)))"
  by (simp_all add: scan_line_def Let_def split: option.splits)

lemma scan_fold:
  "sc_control (fold (scan_line db) xs s) = sc_control s + sum_list (map (\<lambda>(st, sid, n). n) xs)"
  "get_sum (sc_ledger (fold (scan_line db) xs s)) k =
     get_sum (sc_ledger s) k + sum_list (map (\<lambda>(st, sid, n). n) (filter (\<lambda>(st, sid, n). attributed_invoice db st sid = Some k) xs))"
  "sum_list (map snd (sc_ledger (fold (scan_line db) xs s))) + sum_list (map snd (sc_unattributed (fold (scan_line db) xs s))) =
     sum_list (map snd (sc_ledger s)) + sum_list (map snd (sc_unattributed s)) + sum_list (map (\<lambda>(st, sid, n). n) xs)"
  "distinct (map fst (sc_ledger s)) \<Longrightarrow> distinct (map fst (sc_ledger (fold (scan_line db) xs s)))"
  by (induction xs arbitrary: s) (auto simp: scan_line_simps)

lemma scan_lines_sums:
  "sc_control (scan_lines db) = gl_ar_balance_cents db"
  "sum_list (map snd (sc_ledger (scan_lines db))) + sum_list (map snd (sc_unattributed (scan_lines db))) = gl_ar_balance_cents db"
  "distinct (map fst (sc_ledger (scan_lines db)))"
  by (simp_all add: scan_lines_def gl_ar_balance_cents_def scan_fold)

text \<open>The rows' primary keys, which the tables declare.\<close>

definition keys_ok :: "gl_db \<Rightarrow> bool" where
  "keys_ok db \<longleftrightarrow> distinct (map i_id (db_invoices db)) \<and> distinct (map p_id (db_payments db)) \<and>
     distinct (map adj_id (db_adjustments db))"

lemma map_of_rev_key:
  assumes "distinct (map f xs)"
  shows "map_of (rev (map (\<lambda>x. (uuid_str (f x), g x)) xs)) k = Some v \<longleftrightarrow> (\<exists>x \<in> set xs. uuid_str (f x) = k \<and> g x = v)"
proof -
  have "distinct (map fst (rev (map (\<lambda>x. (uuid_str (f x), g x)) xs)))"
    using assms by (auto simp: rev_map comp_def distinct_map inj_on_def)
  then show ?thesis by auto
qed

lemma attribution_agrees:
  assumes "keys_ok db"
  shows "attributed_invoice db st sid = Some (uuid_str (i_id iv)) \<longleftrightarrow> of_invoice db iv st sid"
proof -
  have p: "payment_invoice db s = Some v \<longleftrightarrow> (\<exists>p \<in> set (db_payments db). uuid_str (p_id p) = s \<and> uuid_str (p_invoice p) = v)" for s v
    unfolding payment_invoice_def by (rule map_of_rev_key) (use assms in \<open>simp add: keys_ok_def\<close>)
  have a: "adjustment_invoice db s = Some v \<longleftrightarrow> (\<exists>p \<in> set (db_adjustments db). uuid_str (adj_id p) = s \<and> uuid_str (adj_invoice p) = v)" for s v
    unfolding adjustment_invoice_def by (rule map_of_rev_key) (use assms in \<open>simp add: keys_ok_def\<close>)
  show ?thesis
    by (cases sid) (auto simp: attributed_invoice_def of_invoice_def p a invoice_payments_def invoice_adjustments_def)
qed

lemma scan_ledger_agrees:
  "keys_ok db \<Longrightarrow> get_sum (sc_ledger (scan_lines db)) (uuid_str (i_id iv)) = invoice_ar_balance_cents db iv"
  by (simp add: scan_lines_def scan_fold invoice_ar_balance_cents_def attribution_agrees)

section \<open>The tie\<close>

lemma missing_invoice_sum:
  "sum_list (map snd (missing_invoice seen ledger u)) =
     sum_list (map snd u) + sum_list (map snd (filter (\<lambda>(i, n). i \<notin> set seen) ledger))"
  unfolding missing_invoice_def by (induction ledger arbitrary: u) auto

lemma sum_seen:
  assumes "distinct (map fst d)" "distinct ks"
  shows "sum_list (map (get_sum d) ks) = sum_list (map snd (filter (\<lambda>(k, n). k \<in> set ks) d))"
  using assms
proof (induction d arbitrary: ks)
  case (Cons x d)
  obtain a b where x: "x = (a, b)" by (cases x)
  have fresh: "get_sum d a = 0" using Cons.prems(1) x by (simp add: get_sum_def map_of_eq_None_iff[THEN iffD2] split: option.splits)
  have "sum_list (map (get_sum (x # d)) ks) = sum_list (map (get_sum d) ks) + (\<Sum>k\<leftarrow>ks. if k = a then b else 0)"
    unfolding sum_list_addf[symmetric] by (rule arg_cong[where f = sum_list], rule map_cong) (auto simp: x get_sum_Cons fresh)
  also have "(\<Sum>k\<leftarrow>ks. if k = a then b else 0) = (if a \<in> set ks then b else 0)"
    using Cons.prems(2) by (induction ks) auto
  finally show ?case using Cons x by simp
qed (simp add: get_sum_def[abs_def])

lemma compare_invoice_row:
  "compare_invoice s iv = Inr (e, rows) \<Longrightarrow>
     expected_cents iv = Inr e \<and> sum_list (map dr_drift rows) = get_sum (sc_ledger s) (uuid_str (i_id iv)) - e \<and>
     (rows = [] \<longleftrightarrow> get_sum (sc_ledger s) (uuid_str (i_id iv)) = e) \<and>
     (\<forall>r \<in> set rows. dr_invoice r = uuid_str (i_id iv) \<and> dr_ledger_ar r = get_sum (sc_ledger s) (uuid_str (i_id iv)))"
  by (auto simp: compare_invoice_def Let_def bindR_eq_Inr split: if_splits)

lemma compare_rows:
  assumes "mapR (compare_invoice s) ivs = Inr cs"
  shows "sum_list (map dr_drift (concat (map snd cs))) + sum_list (map fst cs) =
      sum_list (map (\<lambda>iv. get_sum (sc_ledger s) (uuid_str (i_id iv))) ivs)"
    and "concat (map snd cs) = [] \<longleftrightarrow> (\<forall>iv \<in> set ivs. expected_cents iv = Inr (get_sum (sc_ledger s) (uuid_str (i_id iv))))"
  using assms
proof (induction ivs arbitrary: cs)
  case (Cons iv ivs)
  {
    case 1
    then show ?case using Cons.IH(1) by (auto simp: bindR_eq_Inr dest!: compare_invoice_row)
  next
    case 2
    then show ?case using Cons.IH(2) by (auto simp: bindR_eq_Inr simp del: concat_eq_Nil_conv dest!: compare_invoice_row)
  }
qed simp_all

lemma compare_invoices_Inr:
  assumes "keys_ok db" "compare_invoices db = Inr (subledger, rows)"
  shows "rows = [] \<longleftrightarrow> (\<forall>iv \<in> set (db_invoices db). expected_cents iv = Inr (invoice_ar_balance_cents db iv))"
    and "gl_ar_balance_cents db - subledger = sum_list (map dr_drift rows) + sum_list (map snd (all_unattributed db))"
proof -
  let ?s = "scan_lines db" and ?ks = "map (\<lambda>i. uuid_str (i_id i)) (db_invoices db)"
  obtain cs where cs: "mapR (compare_invoice ?s) (db_invoices db) = Inr cs" "subledger = sum_list (map fst cs)" "rows = concat (map snd cs)"
    using assms(2) by (auto simp: compare_invoices_def bindR_eq_Inr)
  show "rows = [] \<longleftrightarrow> (\<forall>iv \<in> set (db_invoices db). expected_cents iv = Inr (invoice_ar_balance_cents db iv))"
    unfolding cs(3) using compare_rows(2)[OF cs(1)] by (simp only: scan_ledger_agrees[OF assms(1)])
  have "distinct ?ks" using assms(1) by (auto simp: keys_ok_def distinct_map inj_on_def)
  then have "sum_list (map (get_sum (sc_ledger ?s)) ?ks) = sum_list (map snd (filter (\<lambda>(k, n). k \<in> set ?ks) (sc_ledger ?s)))"
    by (rule sum_seen[OF scan_lines_sums(3)])
  moreover have "sum_list (map snd d) = sum_list (map snd (filter (\<lambda>(k, n). k \<in> A) d)) + sum_list (map snd (filter (\<lambda>(k, n). k \<notin> A) d))"
    for A and d :: "(string \<times> int) list" by (induction d) auto
  from this[of "sc_ledger ?s" "set ?ks"] scan_lines_sums(2)[of db] compare_rows(1)[OF cs(1)] calculation
  show "gl_ar_balance_cents db - subledger = sum_list (map dr_drift rows) + sum_list (map snd (all_unattributed db))"
    by (simp add: cs(2,3) all_unattributed_def Let_def missing_invoice_sum comp_def)
qed

lemma ar_control_Inr:
  assumes "ar_control env db company = Inr r"
  obtains subledger rows where "compare_invoices db = Inr (subledger, rows)"
    "ar_control_cents r = gl_ar_balance_cents db" "ar_subledger_cents r = subledger"
    "ar_difference_cents r = gl_ar_balance_cents db - subledger"
    "ar_unattributed_cents r = sum_list (map snd (all_unattributed db))" "ar_drift_count r = length rows"
    "ar_drift r = take AR_DRIFT_ROW_LIMIT (sort_key (\<lambda>r. (- \<bar>dr_drift r\<bar>, dr_number r)) rows)"
    "ar_tied r \<longleftrightarrow> gl_ar_balance_cents db = subledger \<and> rows = [] \<and> ar_unattributed_cents r = 0 \<and> ar_shortfall_cents r = 0"
  using assms
  by (auto simp: ar_control_def bindR_eq_Inr Let_def scan_lines_sums(1) sort_key_empty split: prod.splits)

text \<open>
  C26.  The control-account tie.  Whenever \<open>ar_control\<close> returns, the control balance is the ledger's receivable balance, and its
  difference from the subledger is exactly the sum of the per-invoice drift plus the receivables no invoice can claim.  The rows
  shown are rows of that drift, largest first, and all of them when their number is within the display limit.
\<close>

theorem ar_control_difference:
  assumes keys: "keys_ok db" and run: "ar_control env db company = Inr r"
  shows "ar_control_cents r = gl_ar_balance_cents db \<and>
    (\<exists>rows. compare_invoices db = Inr (ar_subledger_cents r, rows) \<and>
      ar_difference_cents r = sum_list (map dr_drift rows) + ar_unattributed_cents r \<and>
      ar_drift_count r = length rows \<and> set (ar_drift r) \<subseteq> set rows \<and>
      sorted_wrt (\<lambda>a b. \<bar>dr_drift b\<bar> \<le> \<bar>dr_drift a\<bar>) (ar_drift r) \<and>
      (length rows \<le> AR_DRIFT_ROW_LIMIT \<longrightarrow> mset (ar_drift r) = mset rows))"
proof -
  obtain subledger rows where c: "compare_invoices db = Inr (subledger, rows)"
    "ar_control_cents r = gl_ar_balance_cents db" "ar_subledger_cents r = subledger"
    "ar_difference_cents r = gl_ar_balance_cents db - subledger"
    "ar_unattributed_cents r = sum_list (map snd (all_unattributed db))" "ar_drift_count r = length rows"
    "ar_drift r = take AR_DRIFT_ROW_LIMIT (sort_key (\<lambda>r. (- \<bar>dr_drift r\<bar>, dr_number r)) rows)"
    by (rule ar_control_Inr[OF run])
  have "sorted_wrt (\<lambda>a b. (- \<bar>dr_drift a\<bar>, dr_number a) \<le> (- \<bar>dr_drift b\<bar>, dr_number b))
      (sort_key (\<lambda>r. (- \<bar>dr_drift r\<bar>, dr_number r)) rows)"
    using sorted_sort_key[of "\<lambda>r. (- \<bar>dr_drift r\<bar>, dr_number r)" rows] by (simp add: sorted_map)
  then have "sorted_wrt (\<lambda>a b. \<bar>dr_drift b\<bar> \<le> \<bar>dr_drift a\<bar>) (sort_key (\<lambda>r. (- \<bar>dr_drift r\<bar>, dr_number r)) rows)"
    by (rule sorted_wrt_mono_rel[rotated]) (auto simp: less_eq_prod_def)
  then have "sorted_wrt (\<lambda>a b. \<bar>dr_drift b\<bar> \<le> \<bar>dr_drift a\<bar>) (ar_drift r)" unfolding c(7) by (rule sorted_wrt_take)
  moreover have "set (ar_drift r) \<subseteq> set rows" unfolding c(7) by (metis set_sort set_take_subset)
  moreover have "length rows \<le> AR_DRIFT_ROW_LIMIT \<longrightarrow> mset (ar_drift r) = mset rows" unfolding c(7) by simp
  ultimately show ?thesis
    using compare_invoices_Inr(2)[OF keys c(1)] c(1-6) by simp
qed

definition issued_db :: "int \<Rightarrow> gl_db" where
  "issued_db due = (snd (repost_invoice_issuance sample_env untaxed_invoice None posting_db))
     \<lparr>db_invoices := [untaxed_invoice\<lparr>i_balance_due := Some (cents due)\<rparr>]\<rparr>"

theorem ar_control_difference_witness:
  "\<exists>r. ar_control sample_env (issued_db 7500) ''gdx'' = Inr r \<and> ar_difference_cents r = 2500 \<and>
     ar_control_cents r = gl_ar_balance_cents (issued_db 7500)"
proof -
  let ?db = "issued_db 7500"
  have "map_sum id ar_difference_cents (ar_control sample_env ?db ''gdx'') = Inr 2500 \<and> keys_ok ?db" by code_simp
  then obtain r where "ar_control sample_env ?db ''gdx'' = Inr r" "ar_difference_cents r = 2500" "keys_ok ?db"
    by (cases "ar_control sample_env ?db ''gdx''") auto
  with ar_control_difference[of ?db sample_env "''gdx''" r] show ?thesis by blast
qed

text \<open>
  C27.  What a tied book means.  The tie holds exactly when every invoice's receivable on the ledger, as
  \<open>invoice_ar_balance_cents\<close> attributes it, equals what its row owes, nothing is unattributed and no late settlement went unposted.
  The test of the two totals adds nothing to the other three.
\<close>

theorem ar_control_tied_iff:
  assumes keys: "keys_ok db" and run: "ar_control env db company = Inr r"
  shows "ar_tied r \<longleftrightarrow> (\<forall>iv \<in> set (db_invoices db). expected_cents iv = Inr (invoice_ar_balance_cents db iv)) \<and>
     ar_unattributed_cents r = 0 \<and> ar_shortfall_cents r = 0"
proof -
  obtain subledger rows where c: "compare_invoices db = Inr (subledger, rows)"
    "ar_unattributed_cents r = sum_list (map snd (all_unattributed db))"
    "ar_tied r \<longleftrightarrow> gl_ar_balance_cents db = subledger \<and> rows = [] \<and> ar_unattributed_cents r = 0 \<and> ar_shortfall_cents r = 0"
    using ar_control_Inr[OF run] by metis
  show ?thesis using compare_invoices_Inr[OF keys c(1)] c(2,3) by auto
qed

theorem ar_control_tied_iff_witness:
  "\<exists>r. ar_control sample_env (issued_db 10000) ''gdx'' = Inr r \<and> ar_tied r \<and> ar_unattributed_cents r = 0 \<and>
     (\<forall>iv \<in> set (db_invoices (issued_db 10000)). expected_cents iv = Inr (invoice_ar_balance_cents (issued_db 10000) iv))"
proof -
  let ?db = "issued_db 10000"
  have "map_sum id ar_tied (ar_control sample_env ?db ''gdx'') = Inr True \<and> keys_ok ?db" by code_simp
  then obtain r where "ar_control sample_env ?db ''gdx'' = Inr r" "ar_tied r" "keys_ok ?db"
    by (cases "ar_control sample_env ?db ''gdx''") auto
  with ar_control_tied_iff[of ?db sample_env "''gdx''" r] show ?thesis by blast
qed

end
