(* ===== verification/Ledger_Repair.thy ===== *)
theory Ledger_Repair
  imports Ar_Control
begin

text \<open>
  The repair of one-shot postings that were posted twice, from \<^verbatim>\<open>modules/ledger/backfill.py\<close>: the scan that groups live
  entries by their source row and event, the decision which groups may be reversed, and the reversal itself.  The decision never
  claims more of an invoice's drift than there is, and a period lock never leaves a group half reversed.
\<close>

section \<open>The scan\<close>

definition ONE_SHOT_EVENTS :: "(string \<times> string) list" where
  "ONE_SHOT_EVENTS = [(''invoice'', EVENT_OPENING), (''payment'', EVENT_OPENING_PAYMENT_VOID),
     (''adjustment'', ''credit_memo''), (''adjustment'', ''refund''), (''adjustment'', ''credit_applied'')]"

text \<open>\<^verbatim>\<open>str.split\<close> at one character.\<close>

fun split_on :: "char \<Rightarrow> string \<Rightarrow> string list" where
  "split_on c [] = [[]]"
| "split_on c (x # xs) =
     (if x = c then [] # split_on c xs
      else case split_on c xs of [] \<Rightarrow> [[x]] | w # ws \<Rightarrow> (x # w) # ws)"

type_synonym one_shot_key = "string \<times> string \<times> string"

definition one_shot_group :: "gl_entry \<Rightarrow> one_shot_key option" where
  "one_shot_group e =
     (case (e_source_type e, split_on CHR '':'' (case e_key e of None \<Rightarrow> [] | Some k \<Rightarrow> k)) of
        (Some st, [a, b, c, d, f]) \<Rightarrow>
          if a = st \<and> e_source_id e = Some b \<and> (st, c) \<in> set ONE_SHOT_EVENTS then Some (st, b, c) else None
      | _ \<Rightarrow> None)"

definition add_to_group :: "gl_entry \<Rightarrow> (one_shot_key \<times> gl_entry list) list \<Rightarrow> (one_shot_key \<times> gl_entry list) list" where
  "add_to_group e gs =
     (case one_shot_group e of
        None \<Rightarrow> gs
      | Some k \<Rightarrow> AList.update k ((case map_of gs k of None \<Rightarrow> [] | Some es \<Rightarrow> es) @ [e]) gs)"

definition one_shot_groups :: "gl_db \<Rightarrow> (one_shot_key \<times> gl_entry list) list" where
  "one_shot_groups db =
     fold add_to_group (sort_key (\<lambda>e. (e_created_at e, e_no e, e_id e)) (filter (\<lambda>e. e_status e = Posted) (db_entries db))) []"

definition entry_ar_cents :: "gl_db \<Rightarrow> gl_entry \<Rightarrow> int" where
  "entry_ar_cents db e =
     sum_list (map l_amount (filter (\<lambda>l. \<exists>a \<in> set (db_accounts db). a_id a = l_account l \<and> a_role a = Some ROLE_AR)
       (entry_lines db (e_id e))))"

definition source_invoice_id :: "gl_db \<Rightarrow> string \<Rightarrow> string \<Rightarrow> uuid option" where
  "source_invoice_id db st sid =
     (case parse_uuid sid of
        None \<Rightarrow> None
      | Some u \<Rightarrow>
          if st = ''invoice'' then Some u
          else if st = ''payment'' then map_option p_invoice (first (filter (\<lambda>p. p_id p = u) (db_payments db)))
          else map_option adj_invoice (first (filter (\<lambda>a. adj_id a = u) (db_adjustments db))))"

definition get_invoice :: "gl_db \<Rightarrow> uuid \<Rightarrow> invoice option" where
  "get_invoice db u = first (filter (\<lambda>i. i_id i = u) (db_invoices db))"

definition later_entry_matches :: "gl_db \<Rightarrow> string \<Rightarrow> one_shot_key \<Rightarrow> gl_entry \<Rightarrow> gl_entry list \<Rightarrow> exn + bool" where
  "later_entry_matches db company k keeper duplicates = (case k of (st, sid, ev) \<Rightarrow>
     if ev \<noteq> EVENT_OPENING then Inr False
     else case parse_uuid sid of
       None \<Rightarrow> Inl ValueError
     | Some u \<Rightarrow>
         (case (get_invoice db u, cutover_date db company) of
            (Some iv, Some cutover) \<Rightarrow>
              bindR (opening_balance_cents db iv cutover) (\<lambda>now.
              Inr (entry_ar_cents db keeper \<noteq> now \<and> list_ex (\<lambda>d. entry_ar_cents db d = now) duplicates))
          | _ \<Rightarrow> Inr False))"

record dup_group =
  dg_source_type :: string
  dg_source_id :: string
  dg_event :: string
  dg_invoice :: "uuid option"
  dg_number :: "string option"
  dg_keeper :: uuid
  dg_keeper_no :: nat
  dg_duplicates :: "uuid list"
  dg_duplicate_nos :: "nat list"
  dg_ar_cents :: int
  dg_later_matches :: bool
  dg_reversible :: bool
  dg_hold_reason :: "string option"
  dg_drift :: "int option"

definition scan_group :: "gl_db \<Rightarrow> string \<Rightarrow> one_shot_key \<times> gl_entry list \<Rightarrow> exn + dup_group list" where
  "scan_group db company g = (case g of
     (k, keeper # duplicates) \<Rightarrow>
       if duplicates = [] then Inr []
       else
         bindR (later_entry_matches db company k keeper duplicates) (\<lambda>later.
         case k of (st, sid, ev) \<Rightarrow>
         let inv = source_invoice_id db st sid in
         Inr [\<lparr>dg_source_type = st, dg_source_id = sid, dg_event = ev, dg_invoice = inv,
               dg_number = map_option i_number (Option.bind inv (get_invoice db)),
               dg_keeper = e_id keeper, dg_keeper_no = e_no keeper,
               dg_duplicates = map e_id duplicates, dg_duplicate_nos = map e_no duplicates,
               dg_ar_cents = sum_list (map (entry_ar_cents db) duplicates), dg_later_matches = later,
               dg_reversible = False, dg_hold_reason = None, dg_drift = None\<rparr>])
   | (k, []) \<Rightarrow> Inr [])"

section \<open>The decision\<close>

definition invoice_drift :: "gl_db \<Rightarrow> uuid \<Rightarrow> exn + int" where
  "invoice_drift db u =
     (case get_invoice db u of
        None \<Rightarrow> Inl AttributeError
      | Some iv \<Rightarrow> bindR (expected_cents iv) (\<lambda>owed. Inr (invoice_ar_balance_cents db iv - owed)))"

definition hold :: "string \<Rightarrow> dup_group \<Rightarrow> dup_group" where
  "hold reason row = row\<lparr>dg_reversible := False, dg_hold_reason := Some reason\<rparr>"

primrec decide_rows :: "gl_db \<Rightarrow> dup_group list \<Rightarrow> (uuid \<times> int) list \<Rightarrow> exn + dup_group list" where
  "decide_rows db [] unclaimed = Inr []"
| "decide_rows db (row # rows) unclaimed =
     (let held = (\<lambda>reason. bindR (decide_rows db rows unclaimed) (\<lambda>rest. Inr (hold reason row # rest))) in
      if dg_ar_cents row = 0 then held ''holds no AR; its cash or credit effect needs review by hand''
      else case dg_invoice row of
        None \<Rightarrow> held ''no invoice to measure its drift against''
      | Some i \<Rightarrow>
          if dg_later_matches row then
            held ''a later anchor, not the kept one, matches the opening balance the invoice computes now; choose by hand''
          else
            bindR (case map_of unclaimed i of Some d \<Rightarrow> Inr d | None \<Rightarrow> invoice_drift db i) (\<lambda>drift.
            if (0 < drift) \<noteq> (0 < dg_ar_cents row) \<or> \<bar>drift\<bar> < \<bar>dg_ar_cents row\<bar> then
              bindR (decide_rows db rows (AList.update i drift unclaimed)) (\<lambda>rest.
              Inr (hold (''the invoice's ledger drift ('' @ int_str drift @
                 '' cents) does not still hold this AR; a later entry may have absorbed it'') (row\<lparr>dg_drift := Some drift\<rparr>) # rest))
            else
              bindR (decide_rows db rows (AList.update i (drift - dg_ar_cents row) unclaimed)) (\<lambda>rest.
              Inr (row\<lparr>dg_drift := Some drift, dg_reversible := True, dg_hold_reason := None\<rparr> # rest))))"

definition duplicate_one_shot_entries :: "gl_db \<Rightarrow> string \<Rightarrow> exn + dup_group list" where
  "duplicate_one_shot_entries db company =
     bindR (mapR (scan_group db company) (one_shot_groups db)) (\<lambda>groups.
     decide_rows db (sort_key (\<lambda>r. (- \<bar>dg_ar_cents r\<bar>, case dg_number r of None \<Rightarrow> [] | Some n \<Rightarrow> n)) (concat groups)) [])"

section \<open>The reversal\<close>

record repair_result =
  rp_posted :: nat
  rp_skipped :: nat
  rp_entries_created :: nat
  rp_locked :: "string list"
  rp_refused :: "string list"
  rp_rows :: "(dup_group \<times> gl_entry list) list"

definition no_repairs :: repair_result where
  "no_repairs = \<lparr>rp_posted = 0, rp_skipped = 0, rp_entries_created = 0, rp_locked = [], rp_refused = [], rp_rows = []\<rparr>"

definition max_lock :: "gl_db \<Rightarrow> date option" where
  "max_lock db = (case map k_date (db_locks db) of [] \<Rightarrow> None | d # ds \<Rightarrow> Some (foldl max d ds))"

definition locked_out :: "date option \<Rightarrow> date option \<Rightarrow> gl_entry \<Rightarrow> bool" where
  "locked_out lock effective_at d =
     (case lock of None \<Rightarrow> False | Some l \<Rightarrow> (case effective_at of Some x \<Rightarrow> x | None \<Rightarrow> e_effective_at d) \<le> l)"

definition group_label :: "dup_group \<Rightarrow> string" where
  "group_label g = dg_event g @ '' on '' @ or_str (dg_number g) (dg_source_id g)"

definition get_entries :: "uuid list \<Rightarrow> gl_entry list gl" where
  "get_entries us = reads (\<lambda>db. mapR (\<lambda>u. case get_entry db u of None \<Rightarrow> Inl AttributeError | Some e \<Rightarrow> Inr e) us)"

definition reverse_all :: "gl_env \<Rightarrow> string \<Rightarrow> date option \<Rightarrow> gl_entry list \<Rightarrow> gl_entry list gl" where
  "reverse_all env actor effective_at ds =
     fold_sem (\<lambda>d rs. andthen (reverse_entry env d effective_at (Some actor) False) (\<lambda>r. ok (rs @ [r]))) ds []"

definition repair_group :: "gl_env \<Rightarrow> string \<Rightarrow> date option \<Rightarrow> date option \<Rightarrow> dup_group \<Rightarrow> repair_result \<Rightarrow> repair_result gl" where
  "repair_group env actor effective_at lock g r =
     (if \<not> dg_reversible g then
        ok (r\<lparr>rp_refused := rp_refused r @ [group_label g @ '': held, '' @ fmt (dg_hold_reason g)], rp_skipped := Suc (rp_skipped r)\<rparr>)
      else
        andthen (get_entries (dg_duplicates g)) (\<lambda>duplicates.
        case filter (locked_out lock effective_at) duplicates of
          b # bs \<Rightarrow> ok (r\<lparr>rp_locked := rp_locked r @ [group_label g @ '': period locked through '' @ fmt_date lock @ ''; entry #'' @
               nat_str (e_no b) @ '' dated '' @ isoformat (e_effective_at b) @ '' (pass an open-period effective date)'']\<rparr>)
        | [] \<Rightarrow>
            andthen (reverse_all env actor effective_at duplicates) (\<lambda>reversals.
            ok (r\<lparr>rp_posted := Suc (rp_posted r), rp_entries_created := rp_entries_created r + length reversals,
                  rp_rows := rp_rows r @ [(g, reversals)]\<rparr>))))"

definition reverse_duplicate_one_shot_entries :: "gl_env \<Rightarrow> string \<Rightarrow> string \<Rightarrow> date option \<Rightarrow> repair_result gl" where
  "reverse_duplicate_one_shot_entries env company actor effective_at =
     (if strip actor = [] then throw ValueError
      else
        andthen (asks max_lock) (\<lambda>lock.
        andthen (reads (\<lambda>db. duplicate_one_shot_entries db company)) (\<lambda>groups.
        fold_sem (repair_group env actor effective_at lock) groups no_repairs)))"

section \<open>The decision never claims more than there is\<close>

definition claimed :: "uuid \<Rightarrow> dup_group list \<Rightarrow> int" where
  "claimed i rows = sum_list (map dg_ar_cents (filter (\<lambda>r. dg_reversible r \<and> dg_invoice r = Some i) rows))"

definition toward :: "int \<Rightarrow> int \<Rightarrow> bool" where
  "toward d c \<longleftrightarrow> 0 \<le> c \<and> c \<le> d \<or> d \<le> c \<and> c \<le> 0"

lemma claimed_simps [simp]:
  "claimed i [] = 0"
  "claimed i (r # rs) = (if dg_reversible r \<and> dg_invoice r = Some i then dg_ar_cents r else 0) + claimed i rs"
  by (simp_all add: claimed_def)

lemma hold_simps [simp]:
  "dg_reversible (hold m r) = False" "dg_ar_cents (hold m r) = dg_ar_cents r" "dg_invoice (hold m r) = dg_invoice r"
  "dg_duplicates (hold m r) = dg_duplicates r" "dg_source_type (hold m r) = dg_source_type r" "dg_source_id (hold m r) = dg_source_id r"
  by (simp_all add: hold_def)

lemma toward_claim:
  assumes "(0 < d) = (0 < a)" "\<not> \<bar>d\<bar> < \<bar>a\<bar>" "a \<noteq> 0" "toward (d - a) c"
  shows "toward d (a + c)" "toward d c"
  using assms by (auto simp: toward_def abs_if split: if_splits)

lemma subseq_ConsE: "subseq xs (y # ys) \<Longrightarrow> (subseq xs ys \<Longrightarrow> P) \<Longrightarrow> (\<And>zs. xs = y # zs \<Longrightarrow> subseq zs ys \<Longrightarrow> P) \<Longrightarrow> P"
  by (auto elim: list_emb.cases)

lemma toward_zero [simp]: "toward d 0"
  by (auto simp: toward_def)

definition remaining :: "gl_db \<Rightarrow> (uuid \<times> int) list \<Rightarrow> uuid \<Rightarrow> exn + int" where
  "remaining db u i = (case map_of u i of Some d \<Rightarrow> Inr d | None \<Rightarrow> invoice_drift db i)"

lemma remaining_update [simp]: "remaining db (AList.update j d u) i = (if i = j then Inr d else remaining db u i)"
  by (simp add: remaining_def update_conv')

lemma decide_rows_claims:
  assumes "decide_rows db rows u = Inr out" "remaining db u i = Inr d" "subseq fixed out"
  shows "toward d (claimed i fixed)"
  using assms
proof (induction rows arbitrary: u out d fixed)
  case (Cons row rows)
  have skip: ?case if "out = h # rest" "decide_rows db rows u' = Inr rest" "remaining db u' i = Inr d"
    "\<not> (dg_reversible h \<and> dg_invoice h = Some i)" for h rest u'
    using Cons.prems(3) unfolding that(1) by (rule subseq_ConsE) (use Cons.IH[OF that(2,3)] that(4) in auto)
  show ?case
  proof (cases "dg_ar_cents row = 0 \<or> dg_invoice row = None \<or> dg_later_matches row")
    case True
    then obtain m rest where r: "out = hold m row # rest" "decide_rows db rows u = Inr rest"
      using Cons.prems(1) by (auto simp: bindR_eq_Inr Let_def split: if_splits option.splits)
    show ?thesis by (rule skip[OF r Cons.prems(2)]) simp
  next
    case False
    then obtain j where j: "dg_invoice row = Some j" "dg_ar_cents row \<noteq> 0" "\<not> dg_later_matches row" by auto
    obtain drift where drift: "remaining db u j = Inr drift"
      using Cons.prems(1) j by (auto simp: bindR_eq_Inr Let_def remaining_def)
    show ?thesis
    proof (cases "(0 < drift) \<noteq> (0 < dg_ar_cents row) \<or> \<bar>drift\<bar> < \<bar>dg_ar_cents row\<bar>")
      case True
      then obtain m rest where r: "out = hold m (row\<lparr>dg_drift := Some drift\<rparr>) # rest" "decide_rows db rows (AList.update j drift u) = Inr rest"
        using Cons.prems(1) j drift by (auto simp: bindR_eq_Inr Let_def remaining_def[symmetric])
      show ?thesis by (rule skip[OF r]) (use Cons.prems(2) drift in auto)
    next
      case ok: False
      then obtain rest where r: "out = row\<lparr>dg_drift := Some drift, dg_reversible := True, dg_hold_reason := None\<rparr> # rest"
        "decide_rows db rows (AList.update j (drift - dg_ar_cents row) u) = Inr rest"
        using Cons.prems(1) j drift by (auto simp: bindR_eq_Inr Let_def remaining_def[symmetric])
      show ?thesis
      proof (cases "i = j")
        case True
        have d: "drift = d" using True drift Cons.prems(2) by simp
        have "toward (d - dg_ar_cents row) (claimed i zs)" if "subseq zs rest" for zs using Cons.IH[OF r(2) _ that] True d by simp
        with toward_claim[of d "dg_ar_cents row"] have t: "toward d (dg_ar_cents row + claimed i zs)" "toward d (claimed i zs)" if "subseq zs rest" for zs
          using ok j(2) that d by blast+
        show ?thesis using Cons.prems(3) unfolding r(1) by (rule subseq_ConsE) (use t j True in auto)
      next
        case False
        show ?thesis by (rule skip[OF r]) (use Cons.prems(2) j False in auto)
      qed
    qed
  qed
qed (auto dest: list_emb_Nil2)

text \<open>What the decision leaves as the scan found it.\<close>

definition group_core :: "dup_group \<Rightarrow> string \<times> string \<times> uuid option \<times> uuid list \<times> int \<times> bool" where
  "group_core g = (dg_source_type g, dg_source_id g, dg_invoice g, dg_duplicates g, dg_ar_cents g, dg_later_matches g)"

lemma decide_rows_Cons:
  assumes "decide_rows db (row # rows) u = Inr out"
  obtains r rest u' where "out = r # rest" "decide_rows db rows u' = Inr rest" "group_core r = group_core row"
    "dg_reversible r \<longrightarrow> dg_ar_cents row \<noteq> 0 \<and> dg_invoice row \<noteq> None \<and> \<not> dg_later_matches row"
proof (cases "dg_ar_cents row = 0 \<or> dg_invoice row = None \<or> dg_later_matches row")
  case True
  then obtain m rest where "out = hold m row # rest" "decide_rows db rows u = Inr rest"
    using assms by (auto simp: bindR_eq_Inr Let_def split: if_splits option.splits)
  then show thesis by (rule that) (simp_all add: group_core_def hold_def)
next
  case False
  then obtain j where j: "dg_invoice row = Some j" "dg_ar_cents row \<noteq> 0" "\<not> dg_later_matches row" by auto
  obtain drift where drift: "remaining db u j = Inr drift"
    using assms j by (auto simp: bindR_eq_Inr Let_def remaining_def)
  show thesis
  proof (cases "(0 < drift) \<noteq> (0 < dg_ar_cents row) \<or> \<bar>drift\<bar> < \<bar>dg_ar_cents row\<bar>")
    case True
    then obtain m rest where "out = hold m (row\<lparr>dg_drift := Some drift\<rparr>) # rest" "decide_rows db rows (AList.update j drift u) = Inr rest"
      using assms j drift by (auto simp: bindR_eq_Inr Let_def remaining_def[symmetric])
    then show thesis by (rule that) (simp_all add: group_core_def hold_def)
  next
    case False
    then obtain rest where "out = row\<lparr>dg_drift := Some drift, dg_reversible := True, dg_hold_reason := None\<rparr> # rest"
      "decide_rows db rows (AList.update j (drift - dg_ar_cents row) u) = Inr rest"
      using assms j drift by (auto simp: bindR_eq_Inr Let_def remaining_def[symmetric])
    then show thesis by (rule that) (simp_all add: group_core_def j)
  qed
qed

lemma decide_rows_core: "decide_rows db rows u = Inr out \<Longrightarrow> map group_core out = map group_core rows"
proof (induction rows arbitrary: u out)
  case (Cons row rows)
  from Cons.prems show ?case by (rule decide_rows_Cons) (use Cons.IH in auto)
qed simp

lemma decide_rows_reversible:
  assumes "decide_rows db rows u = Inr out" "r \<in> set out" "dg_reversible r"
  shows "dg_ar_cents r \<noteq> 0 \<and> dg_invoice r \<noteq> None \<and> \<not> dg_later_matches r"
  using assms
proof (induction rows arbitrary: u out)
  case (Cons row rows)
  from Cons.prems(1) obtain h rest u' where "out = h # rest" "decide_rows db rows u' = Inr rest" "group_core h = group_core row"
    "dg_reversible h \<longrightarrow> dg_ar_cents row \<noteq> 0 \<and> dg_invoice row \<noteq> None \<and> \<not> dg_later_matches row" by (rule decide_rows_Cons)
  then show ?case using Cons.IH Cons.prems(2,3) by (auto simp: group_core_def)
qed simp

section \<open>What a reversal does to the receivable of an invoice\<close>

definition ar_account :: "gl_db \<Rightarrow> uuid \<Rightarrow> bool" where
  "ar_account db u \<longleftrightarrow> (\<exists>a \<in> set (db_accounts db). a_id a = u \<and> a_role a = Some ROLE_AR)"

lemma entry_ar_if: "entry_ar_cents db e = (\<Sum>l\<leftarrow>entry_lines db (e_id e). if ar_account db (l_account l) then l_amount l else 0)"
  by (simp add: entry_ar_cents_def ar_account_def sum_list_map_filter')

lemma invoice_ar_by_entry:
  "invoice_ar_balance_cents db iv =
     (\<Sum>e\<leftarrow>db_entries db. if of_invoice db iv (e_source_type e) (e_source_id e) then entry_ar_cents db e else 0)"
proof -
  have "sum_list (map (\<lambda>(st, sid, c). c) (filter (\<lambda>(st, sid, c). of_invoice db iv st sid)
      (concat (map (\<lambda>e. map (\<lambda>l. (e_source_type e, e_source_id e, l_amount l)) (L e)) es)))) =
    (\<Sum>e\<leftarrow>es. if of_invoice db iv (e_source_type e) (e_source_id e) then sum_list (map l_amount (L e)) else 0)" for L es
    by (induction es) (simp_all add: filter_map comp_def)
  from this[of "\<lambda>e. filter (\<lambda>l. \<exists>a \<in> set (db_accounts db). a_id a = l_account l \<and> a_role a = Some ROLE_AR) (entry_lines db (e_id e))"
      "db_entries db"]
  show ?thesis unfolding invoice_ar_balance_cents_def ar_role_lines_def entry_ar_cents_def .
qed

lemma of_invoice_workflow: "same_workflow db db' \<Longrightarrow> of_invoice db' iv = of_invoice db iv"
  by (simp add: fun_eq_iff of_invoice_def invoice_payments_def invoice_adjustments_def same_workflow_def)

lemma mirrored_ar:
  assumes "mirrored ls ms"
  shows "(\<Sum>l\<leftarrow>ms. if P (l_account l) then l_amount l else 0) = - (\<Sum>l\<leftarrow>ls. if P (l_account l) then l_amount l else (0 :: int))"
proof -
  let ?f = "\<lambda>(a, m, j :: uuid option, c :: uuid option). if P a then m else (0 :: int)"
  have "(\<Sum>l\<leftarrow>ms. if P (l_account l) then l_amount l else 0) = sum_list (map ?f (map leg ms))"
    by (simp add: leg_def comp_def)
  also have "\<dots> = sum_list (map ?f (map (\<lambda>l. (l_account l, - l_amount l, l_job l, l_customer l)) ls))"
    using assms unfolding mirrored_def by simp
  also have "\<dots> = - (\<Sum>l\<leftarrow>ls. if P (l_account l) then l_amount l else 0)" by (induction ls) auto
  finally show ?thesis .
qed

definition live_in :: "gl_db \<Rightarrow> gl_entry \<Rightarrow> bool" where
  "live_in db x \<longleftrightarrow> x \<in> set (db_entries db) \<and> e_status x = Posted"

lemma reverse_effect:
  assumes inv: "ledger_inv db" and live: "live_in db x" and rev: "reverse_entry env x eff by ov db = (Inr r, db')"
  shows "ledger_inv db'" "db_locks db' = db_locks db" "same_workflow db db'"
    "live_in db y \<Longrightarrow> y \<noteq> x \<Longrightarrow> live_in db' y"
    "y \<in> set (db_entries db) \<Longrightarrow> entry_ar_cents db' y = entry_ar_cents db y"
    "invoice_ar_balance_cents db' iv =
       invoice_ar_balance_cents db iv - (if of_invoice db iv (e_source_type x) (e_source_id x) then entry_ar_cents db x else 0)"
    "marked (e_id x) (e_id r) x \<in> set (db_entries db')"
proof -
  have x: "x \<in> set (db_entries db)" "e_status x = Posted" using live by (simp_all add: live_in_def)
  obtain db1 where lock: "check_period_lock (e_company x) (reversal_date x eff) ov by (reversal_key (e_id x)) db = (Inr (), db1)"
    and r: "r = reversal_of env db1 x (reversal_date x eff) by" and db': "db' = with_reversal env x (reversal_date x eff) by db1"
    and 1: "ledger_inv db1" "x \<in> set (db_entries db1)" "db_entries db1 = db_entries db" "db_uuid db1 = db_uuid db" "db_lines db1 = db_lines db"
    by (rule reverse_entry_Inr_live[OF inv x rev])
  have es: "db_entries db' = map (marked (e_id x) (e_id r)) (db_entries db) @ [r]"
    using with_reversal_entries[OF 1(1,2)] 1 by (simp add: r db')
  have acc: "db_accounts db' = db_accounts db"
    using check_period_lock_frame(3)[OF lock] by (simp add: db' with_reversal_def mark_reversed_def grown_def)
  then have ar: "ar_account db' = ar_account db" by (simp add: fun_eq_iff ar_account_def)
  have lines: "entry_lines db' (e_id y) = entry_lines db (e_id y)" if "y \<in> set (db_entries db)" for y
    using with_reversal_lines(1)[OF 1(1,2), of y] that 1 by (simp add: db' entry_lines_def)
  show "ledger_inv db'" by (rule inv_sound[OF tracksD[OF reverse_entry_sound rev] inv])
  show "db_locks db' = db_locks db"
    using check_period_lock_frame(5)[OF lock] by (simp add: db' with_reversal_def mark_reversed_def grown_def)
  show w: "same_workflow db db'" by (rule tracksD[OF reverse_entry_workflow rev])
  show "live_in db' y" if "live_in db y" "y \<noteq> x"
  proof -
    have y: "y \<in> set (db_entries db)" "e_status y = Posted" using that(1) by (simp_all add: live_in_def)
    have "e_id y \<noteq> e_id x" using entry_id_inject[OF inv y(1) x(1)] that(2) by blast
    then have "marked (e_id x) (e_id r) y = y" by (simp add: marked_def)
    then show ?thesis using y unfolding live_in_def es by (metis (no_types, lifting) Un_iff image_eqI set_append set_map)
  qed
  show old: "entry_ar_cents db' y = entry_ar_cents db y" if "y \<in> set (db_entries db)" for y
    using lines[OF that] ar by (simp add: entry_ar_if)
  show "marked (e_id x) (e_id r) x \<in> set (db_entries db')" using x(1) es by simp
  have "entry_lines db1 (e_id x) = entry_lines db (e_id x)" using 1(5) by (simp add: entry_lines_def)
  then have new: "entry_ar_cents db' r = - entry_ar_cents db x"
    unfolding entry_ar_if ar using mirrored_ar[OF with_reversal_lines(2)[OF 1(1,2)], of "ar_account db"] by (simp add: r db')
  have src: "e_source_type (marked u v y) = e_source_type y" "e_source_id (marked u v y) = e_source_id y" for u v y
    by (simp_all add: marked_def)
  let ?in = "\<lambda>e. of_invoice db iv (e_source_type e) (e_source_id e)"
  have "(\<Sum>e\<leftarrow>map (marked (e_id x) (e_id r)) (db_entries db). if ?in e then entry_ar_cents db' e else 0) =
      (\<Sum>e\<leftarrow>db_entries db. if ?in e then entry_ar_cents db e else 0)"
    unfolding map_map comp_def
    by (rule arg_cong[where f = sum_list], rule map_cong)
      (simp_all add: src old entry_ar_cents_def[of _ "marked _ _ _"] entry_ar_cents_def[symmetric])
  then show "invoice_ar_balance_cents db' iv =
       invoice_ar_balance_cents db iv - (if ?in x then entry_ar_cents db x else 0)"
    unfolding invoice_ar_by_entry of_invoice_workflow[OF w] es using new by (simp add: r)
qed

text \<open>
  The state after reversing a list of live entries: the other live entries and their receivables are as before, and the receivable
  of every invoice has dropped by what the reversed entries held of it.
\<close>

definition ar_of :: "gl_db \<Rightarrow> invoice \<Rightarrow> gl_entry list \<Rightarrow> int" where
  "ar_of db iv ds = (\<Sum>d\<leftarrow>ds. if of_invoice db iv (e_source_type d) (e_source_id d) then entry_ar_cents db d else 0)"

definition repaired :: "gl_db \<Rightarrow> gl_entry list \<Rightarrow> gl_db \<Rightarrow> bool" where
  "repaired db ds db' \<longleftrightarrow> ledger_inv db' \<and> db_locks db' = db_locks db \<and> same_workflow db db' \<and>
     (\<forall>y. live_in db y \<longrightarrow> y \<notin> set ds \<longrightarrow> live_in db' y \<and> entry_ar_cents db' y = entry_ar_cents db y) \<and>
     (\<forall>iv. invoice_ar_balance_cents db' iv = invoice_ar_balance_cents db iv - ar_of db iv ds)"

lemma repaired_refl: "ledger_inv db \<Longrightarrow> repaired db [] db"
  by (simp add: repaired_def ar_of_def workflow.R_refl)

lemma repaired_one:
  assumes "ledger_inv db" "live_in db x" "reverse_entry env x eff by ov db = (Inr r, db')"
  shows "repaired db [x] db'"
  using reverse_effect[OF assms] unfolding repaired_def ar_of_def live_in_def by simp

lemma repaired_trans:
  assumes a: "repaired db ds db1" and b: "repaired db1 es db2" and es: "\<forall>e \<in> set es. live_in db e \<and> e \<notin> set ds"
  shows "repaired db (ds @ es) db2"
proof -
  have w: "same_workflow db db1" "same_workflow db1 db2" using a b by (simp_all add: repaired_def)
  have "ar_of db1 iv es = ar_of db iv es" for iv
    unfolding ar_of_def of_invoice_workflow[OF w(1)] using a es
    by (intro arg_cong[where f = sum_list] map_cong) (simp_all add: repaired_def)
  moreover have "ar_of db iv (ds @ es) = ar_of db iv ds + ar_of db iv es" for iv by (simp add: ar_of_def)
  ultimately show ?thesis using a b workflow.R_trans[OF w] by (simp add: repaired_def)
qed

lemma reverse_all_repaired:
  assumes "ledger_inv db" "distinct ds" "\<forall>d \<in> set ds. live_in db d"
    and "fold_sem (\<lambda>d rs. andthen (reverse_entry env d eff by ov) (\<lambda>r. ok (rs @ [r]))) ds rs0 db = (Inr rs, db')"
  shows "repaired db ds db'"
  using assms
proof (induction ds arbitrary: db rs0)
  case Nil
  then show ?case by (simp add: ok_def repaired_refl)
next
  case (Cons d ds)
  obtain r db1 where 1: "reverse_entry env d eff by ov db = (Inr r, db1)"
    "fold_sem (\<lambda>d rs. andthen (reverse_entry env d eff by ov) (\<lambda>r. ok (rs @ [r]))) ds (rs0 @ [r]) db1 = (Inr rs, db')"
    using Cons.prems(4) by (auto simp: andthen_def ok_def split: prod.splits sum.splits)
  have one: "repaired db [d] db1" using repaired_one[OF Cons.prems(1) _ 1(1)] Cons.prems(3) by simp
  then have "repaired db1 ds db'" using Cons.IH[OF _ _ _ 1(2)] Cons.prems(2,3) by (auto simp: repaired_def)
  from repaired_trans[OF one this] Cons.prems(2,3) show ?case by auto
qed

lemma live_get_entry: "ledger_inv db \<Longrightarrow> live_in db e \<Longrightarrow> get_entry db (e_id e) = Some e"
  by (simp add: live_in_def get_entry_inv)

lemma get_entries_live:
  assumes "ledger_inv db" "\<forall>d \<in> set ds. live_in db d"
  shows "get_entries (map e_id ds) db = (Inr ds, db)"
proof -
  have "mapR (\<lambda>u. case get_entry db u of None \<Rightarrow> Inl AttributeError | Some e \<Rightarrow> Inr e) (map e_id ds) = Inr ds"
    using assms(2) by (induction ds) (simp_all add: live_get_entry[OF assms(1)])
  then show ?thesis by (simp add: get_entries_def reads_def)
qed

lemma repair_group_effect:
  assumes inv: "ledger_inv db" and ds: "map e_id ds = dg_duplicates g" "distinct ds" "\<forall>d \<in> set ds. live_in db d"
    and run: "repair_group env actor eff lock g r db = (Inr r', db')"
  shows "map fst (rp_rows r') = map fst (rp_rows r) \<and> db' = db \<or>
    dg_reversible g \<and> map fst (rp_rows r') = map fst (rp_rows r) @ [g] \<and> repaired db ds db'"
proof (cases "dg_reversible g")
  case True
  have get: "get_entries (dg_duplicates g) db = (Inr ds, db)" using get_entries_live[OF inv ds(3)] ds(1) by simp
  show ?thesis
  proof (cases "filter (locked_out lock eff) ds")
    case Nil
    then obtain rs where "reverse_all env actor eff ds db = (Inr rs, db')" "map fst (rp_rows r') = map fst (rp_rows r) @ [g]"
      using run True get by (auto simp: repair_group_def andthen_def ok_def split: prod.splits sum.splits)
    then show ?thesis using reverse_all_repaired[OF inv ds(2,3)] True unfolding reverse_all_def by blast
  next
    case (Cons b bs)
    then show ?thesis using run True get by (auto simp: repair_group_def andthen_def ok_def)
  qed
next
  case False
  then show ?thesis using run by (auto simp: repair_group_def ok_def)
qed

lemma repair_loop:
  assumes "ledger_inv db" "\<forall>g \<in> set groups. map e_id (E g) = dg_duplicates g \<and> (\<forall>e \<in> set (E g). live_in db e)"
    and "distinct (concat (map E groups))" and "fold_sem (repair_group env actor eff lock) groups r db = (Inr r', db')"
  shows "\<exists>fixed. subseq fixed groups \<and> (\<forall>g \<in> set fixed. dg_reversible g) \<and>
    map fst (rp_rows r') = map fst (rp_rows r) @ fixed \<and> repaired db (concat (map E fixed)) db'"
  using assms
proof (induction groups arbitrary: db r)
  case Nil
  then show ?case by (auto simp: ok_def repaired_refl)
next
  case (Cons g groups)
  obtain ra dba where a: "repair_group env actor eff lock g r db = (Inr ra, dba)" "fold_sem (repair_group env actor eff lock) groups ra dba = (Inr r', db')"
    using Cons.prems(4) by (auto simp: andthen_def split: prod.splits sum.splits)
  have E: "map e_id (E g) = dg_duplicates g" "distinct (E g)" "\<forall>d \<in> set (E g). live_in db d" using Cons.prems(2,3) by auto
  from repair_group_effect[OF Cons.prems(1) E a(1)] show ?case
  proof (elim disjE conjE)
    assume "map fst (rp_rows ra) = map fst (rp_rows r)" "dba = db"
    then show ?thesis using Cons.IH[of db ra] Cons.prems a(2) by (auto intro: list_emb_Cons)
  next
    assume g: "dg_reversible g" "map fst (rp_rows ra) = map fst (rp_rows r) @ [g]" and fixed: "repaired db (E g) dba"
    have apart: "e \<notin> set (E g)" "live_in db e" if "h \<in> set groups" "e \<in> set (E h)" for h e
      using that Cons.prems(2,3) by auto
    have keep: "live_in dba e" if "live_in db e" "e \<notin> set (E g)" for e using fixed that by (simp add: repaired_def)
    have "\<forall>h \<in> set groups. map e_id (E h) = dg_duplicates h \<and> (\<forall>e \<in> set (E h). live_in dba e)"
      using Cons.prems(2) apart keep by (meson list.set_intros(2))
    moreover have "ledger_inv dba" using fixed by (simp add: repaired_def)
    moreover have "distinct (concat (map E groups))" using Cons.prems(3) by simp
    ultimately obtain rest where rest: "subseq rest groups" "\<forall>g \<in> set rest. dg_reversible g"
      "map fst (rp_rows r') = map fst (rp_rows ra) @ rest" "repaired dba (concat (map E rest)) db'"
      using Cons.IH[of dba ra] a(2) by blast
    have "set rest \<subseteq> set groups" using list_emb_set[OF rest(1)] by blast
    then have "\<forall>e \<in> set (concat (map E rest)). live_in db e \<and> e \<notin> set (E g)" using apart by (auto simp: subset_iff)
    from repaired_trans[OF fixed rest(4) this] have "repaired db (concat (map E (g # rest))) db'" by simp
    then show ?thesis using rest(1-3) g by (intro exI[of _ "g # rest"]) simp
  qed
qed

section \<open>What the scan finds\<close>

lemma add_to_group_mset:
  "mset (concat (map snd (add_to_group e gs))) = mset (concat (map snd gs)) + (if one_shot_group e = None then {#} else {#e#})"
proof (cases "one_shot_group e")
  case (Some k)
  have "mset (concat (map snd (AList.update k ((case map_of gs k of None \<Rightarrow> [] | Some es \<Rightarrow> es) @ [e]) gs))) =
      add_mset e (mset (concat (map snd gs)))"
    by (induction gs) (auto split: option.splits)
  then show ?thesis using Some by (simp add: add_to_group_def)
qed (simp add: add_to_group_def)

definition grouped :: "(one_shot_key \<times> gl_entry list) list \<Rightarrow> bool" where
  "grouped gs \<longleftrightarrow> (\<forall>(k, es) \<in> set gs. \<forall>e \<in> set es. one_shot_group e = Some k)"

lemma grouped_update: "grouped gs \<Longrightarrow> \<forall>x \<in> set v. one_shot_group x = Some k \<Longrightarrow> grouped (AList.update k v gs)"
  by (induction gs) (auto simp: grouped_def)

lemma add_to_group_grouped: "grouped gs \<Longrightarrow> grouped (add_to_group e gs)"
proof (cases "one_shot_group e")
  case (Some k)
  assume g: "grouped gs"
  then have "\<forall>x \<in> set ((case map_of gs k of None \<Rightarrow> [] | Some es \<Rightarrow> es) @ [e]). one_shot_group x = Some k"
    using Some map_of_SomeD[of gs k] by (cases "map_of gs k") (auto simp: grouped_def)
  from grouped_update[OF g this] show ?thesis using Some by (simp add: add_to_group_def)
qed (simp add: add_to_group_def)

lemma groups_fold:
  "grouped gs \<Longrightarrow> grouped (fold add_to_group es gs)"
  "mset (concat (map snd (fold add_to_group es gs))) \<subseteq># mset (concat (map snd gs)) + mset es"
proof (induction es arbitrary: gs)
  case (Cons e es)
  {
    case 1
    then show ?case using Cons.IH(1) add_to_group_grouped by simp
  next
    case 2
    have "mset (concat (map snd (fold add_to_group es (add_to_group e gs)))) \<subseteq># mset (concat (map snd (add_to_group e gs))) + mset es"
      by (rule Cons.IH(2))
    also have "\<dots> \<subseteq># mset (concat (map snd gs)) + mset (e # es)" by (simp add: add_to_group_mset)
    finally show ?case by simp
  }
qed simp_all

lemma distinct_submset:
  assumes "distinct ys" "mset xs \<subseteq># mset ys"
  shows "distinct xs"
proof -
  have "count (mset xs) a \<le> (if a \<in> set ys then 1 else 0)" for a
    using mset_subset_eq_count[OF assms(2), of a] assms(1) by (simp add: distinct_count_atmost_1)
  then have "count (mset xs) a = (if a \<in> set xs then 1 else 0)" for a
    by (metis Suc_leI count_eq_zero_iff le_antisym le_zero_eq not_gr_zero One_nat_def set_mset_mset)
  then show ?thesis by (simp add: distinct_count_atmost_1)
qed

lemma one_shot_groups_ok:
  assumes "ledger_inv db"
  shows "grouped (one_shot_groups db)" "distinct (concat (map snd (one_shot_groups db)))"
    "\<forall>e \<in> set (concat (map snd (one_shot_groups db))). live_in db e"
proof -
  let ?es = "sort_key (\<lambda>e. (e_created_at e, e_no e, e_id e)) (filter (\<lambda>e. e_status e = Posted) (db_entries db))"
  show "grouped (one_shot_groups db)" unfolding one_shot_groups_def by (rule groups_fold) (simp add: grouped_def)
  have sub: "mset (concat (map snd (one_shot_groups db))) \<subseteq># mset ?es"
    using groups_fold(2)[of ?es "[]"] unfolding one_shot_groups_def by (simp del: mset_sort mset_filter)
  have "distinct (db_entries db)" using ledger_invD(1)[OF assms] by (simp add: distinct_map)
  then have "distinct ?es" by simp
  then show "distinct (concat (map snd (one_shot_groups db)))"
    by (rule distinct_submset[OF _ sub])
  show "\<forall>e \<in> set (concat (map snd (one_shot_groups db))). live_in db e"
    using mset_subset_eqD[OF sub] by (fastforce simp: live_in_def set_mset_mset[symmetric] simp del: set_mset_mset)
qed

lemma one_shot_group_source:
  "one_shot_group e = Some (st, sid, ev) \<Longrightarrow> e_source_type e = Some st \<and> e_source_id e = Some sid \<and> (st, ev) \<in> set ONE_SHOT_EVENTS"
  by (auto simp: one_shot_group_def split: option.splits list.splits if_splits)

definition from_scan :: "gl_db \<Rightarrow> dup_group \<Rightarrow> gl_entry list \<Rightarrow> bool" where
  "from_scan db g ds \<longleftrightarrow> dg_duplicates g = map e_id ds \<and> dg_ar_cents g = sum_list (map (entry_ar_cents db) ds) \<and>
     dg_invoice g = source_invoice_id db (dg_source_type g) (dg_source_id g) \<and> dg_source_type g \<in> {''invoice'', ''payment'', ''adjustment''} \<and>
     (\<forall>d \<in> set ds. e_source_type d = Some (dg_source_type g) \<and> e_source_id d = Some (dg_source_id g))"

lemma scan_group_Inr:
  assumes "scan_group db company (k, es) = Inr rows" "\<forall>e \<in> set es. one_shot_group e = Some k"
  shows "rows = [] \<or> (\<exists>g. rows = [g] \<and> from_scan db g (tl es))"
proof (cases es)
  case (Cons keeper dups)
  obtain st sid ev where k: "k = (st, sid, ev)" by (cases k)
  have src: "e_source_type e = Some st \<and> e_source_id e = Some sid \<and> (st, ev) \<in> set ONE_SHOT_EVENTS" if "e \<in> set es" for e
    using one_shot_group_source assms(2) that k by blast
  then have "st \<in> {''invoice'', ''payment'', ''adjustment''}" using Cons by (auto simp: ONE_SHOT_EVENTS_def)
  with src show ?thesis
    using assms(1) Cons k by (auto simp: scan_group_def bindR_eq_Inr Let_def from_scan_def split: if_splits)
qed (use assms in \<open>auto simp: scan_group_def\<close>)

lemma scan_groups_Inr:
  assumes "mapR (scan_group db company) gs = Inr rows" "grouped gs"
  shows "\<exists>D. list_all2 (from_scan db) (concat rows) D \<and> mset (concat D) \<subseteq># mset (concat (map snd gs))"
  using assms
proof (induction gs arbitrary: rows)
  case (Cons g gs)
  obtain k es where g: "g = (k, es)" by (cases g)
  obtain r rs where r: "rows = r # rs" "scan_group db company (k, es) = Inr r" "mapR (scan_group db company) gs = Inr rs"
    using Cons.prems(1) g by (auto simp: bindR_eq_Inr)
  obtain D where D: "list_all2 (from_scan db) (concat rs) D" "mset (concat D) \<subseteq># mset (concat (map snd gs))"
    using Cons.IH[OF r(3)] Cons.prems(2) by (auto simp: grouped_def)
  have "\<forall>e \<in> set es. one_shot_group e = Some k" using Cons.prems(2) g by (simp add: grouped_def)
  from scan_group_Inr[OF r(2) this] show ?case
  proof
    assume "r = []"
    moreover have "mset (concat D) \<subseteq># mset es + mset (concat (map snd gs))"
      using D(2) by (metis mset_subset_eq_add_right subset_mset.order_trans)
    ultimately show ?thesis using D(1) r(1) g by auto
  next
    assume "\<exists>h. r = [h] \<and> from_scan db h (tl es)"
    moreover have "mset (tl es) \<subseteq># mset es" by (cases es) auto
    ultimately show ?thesis using D r(1) g by (auto intro!: exI[of _ "tl es # D"] subset_mset.add_mono)
  qed
qed simp

lemma from_scan_core: "group_core a = group_core b \<Longrightarrow> from_scan db a ds = from_scan db b ds"
  by (auto simp: from_scan_def group_core_def)

definition duplicates_of :: "gl_db \<Rightarrow> dup_group \<Rightarrow> gl_entry list" where
  "duplicates_of db g = map (\<lambda>u. the (get_entry db u)) (dg_duplicates g)"

lemma duplicates_of_scan:
  assumes "ledger_inv db" "from_scan db g ds" "\<forall>d \<in> set ds. live_in db d"
  shows "duplicates_of db g = ds"
proof -
  have "map (\<lambda>d. the (get_entry db (e_id d))) ds = map (\<lambda>d. d) ds"
    by (rule map_cong) (use assms(3) live_get_entry[OF assms(1)] in auto)
  then show ?thesis using assms(2) by (simp add: duplicates_of_def from_scan_def comp_def)
qed

lemma mset_concat_map: "mset xs = mset ys \<Longrightarrow> mset (concat (map f xs)) = mset (concat (map f ys))"
  by (metis mset_concat map_map mset_map sum_mset_sum_list)

lemma duplicate_rows:
  assumes inv: "ledger_inv db" and run: "duplicate_one_shot_entries db company = Inr out"
  shows "\<forall>g \<in> set out. from_scan db g (duplicates_of db g) \<and> (\<forall>d \<in> set (duplicates_of db g). live_in db d)"
    and "distinct (concat (map (duplicates_of db) out))"
    and "remaining db [] i = Inr d \<Longrightarrow> subseq fixed out \<Longrightarrow> toward d (claimed i fixed)"
proof -
  let ?E = "duplicates_of db"
  obtain groups where g: "mapR (scan_group db company) (one_shot_groups db) = Inr groups"
    "decide_rows db (sort_key (\<lambda>r. (- \<bar>dg_ar_cents r\<bar>, case dg_number r of None \<Rightarrow> [] | Some n \<Rightarrow> n)) (concat groups)) [] = Inr out"
    using run by (auto simp: duplicate_one_shot_entries_def bindR_eq_Inr)
  let ?sorted = "sort_key (\<lambda>r. (- \<bar>dg_ar_cents r\<bar>, case dg_number r of None \<Rightarrow> [] | Some n \<Rightarrow> n)) (concat groups)"
  note ok = one_shot_groups_ok[OF inv]
  obtain D where D: "list_all2 (from_scan db) (concat groups) D" "mset (concat D) \<subseteq># mset (concat (map snd (one_shot_groups db)))"
    using scan_groups_Inr[OF g(1) ok(1)] by blast
  have live: "live_in db e" if "e \<in> set (concat D)" for e
    using mset_subset_eqD[OF D(2), of e] ok(3) that by auto
  have pair: "from_scan db r (?E r) \<and> ?E r = ds \<and> (\<forall>d \<in> set (?E r). live_in db d)" if "(r, ds) \<in> set (zip (concat groups) D)" for r ds
  proof -
    have f: "from_scan db r ds" using D(1) that by (auto simp: list_all2_iff)
    have "\<forall>d \<in> set ds. live_in db d" using live set_zip_rightD[OF that] by auto
    with f duplicates_of_scan[OF inv f this] show ?thesis by simp
  qed
  have len: "length (concat groups) = length D" using D(1) by (rule list_all2_lengthD)
  then have "list_all2 (\<lambda>r ds. ?E r = ds) (concat groups) D" using pair unfolding list_all2_iff by auto
  then have DE: "D = map ?E (concat groups)" unfolding list.rel_map(1)[symmetric] list.rel_eq by simp
  have core: "map group_core out = map group_core ?sorted" by (rule decide_rows_core[OF g(2)])
  let ?F = "\<lambda>c. case c of (st, sid, iv, us, n, l) \<Rightarrow> map (\<lambda>u. the (get_entry db u)) us"
  have F: "?E = ?F \<circ> group_core" by (simp add: fun_eq_iff duplicates_of_def group_core_def)
  have "map ?E out = map ?E ?sorted" unfolding F map_map[symmetric] core ..
  then have "mset (concat (map ?E out)) = mset (concat D)" unfolding DE by (simp only: mset_concat_map[OF mset_sort])
  then show "distinct (concat (map ?E out))" using distinct_submset[OF ok(2)] D(2) by simp
  show "\<forall>g \<in> set out. from_scan db g (?E g) \<and> (\<forall>d \<in> set (?E g). live_in db d)"
  proof
    fix g assume "g \<in> set out"
    then obtain h where h: "h \<in> set (concat groups)" "group_core g = group_core h"
      using arg_cong[OF core, of set] by (auto simp del: set_concat)
    then obtain ds where "(h, ds) \<in> set (zip (concat groups) D)"
      using len by (metis in_set_impl_in_set_zip1)
    from pair[OF this] have "from_scan db h (?E h)" "\<forall>d \<in> set (?E h). live_in db d" by blast+
    then show "from_scan db g (?E g) \<and> (\<forall>d \<in> set (?E g). live_in db d)"
      using from_scan_core[OF h(2)] F h(2) by simp
  qed
  show "toward d (claimed i fixed)" if "remaining db [] i = Inr d" "subseq fixed out"
    by (rule decide_rows_claims[OF g(2) that])
qed

section \<open>The repair moves drift toward zero\<close>

text \<open>The rules write a source id in its canonical spelling.\<close>

definition canonical_sources :: "gl_db \<Rightarrow> bool" where
  "canonical_sources db \<longleftrightarrow> (\<forall>e \<in> set (db_entries db). case Option.bind (e_source_id e) parse_uuid of
     None \<Rightarrow> True | Some u \<Rightarrow> e_source_id e = Some (uuid_str u))"

lemma first_filter_key:
  assumes "distinct (map f xs)"
  shows "first (filter (\<lambda>x. f x = u) xs) = Some x \<longleftrightarrow> x \<in> set xs \<and> f x = u"
proof
  assume "first (filter (\<lambda>x. f x = u) xs) = Some x"
  then show "x \<in> set xs \<and> f x = u" using first_in_set by fastforce
next
  assume x: "x \<in> set xs \<and> f x = u"
  then have "filter (\<lambda>x. f x = u) xs = [x]" by (intro filter_unique[OF assms]) auto
  then show "first (filter (\<lambda>x. f x = u) xs) = Some x" by simp
qed

lemma scan_attribution:
  assumes keys: "keys_ok db" and can: "canonical_sources db" and scan: "from_scan db g ds" and d: "d \<in> set ds" "live_in db d"
    and i: "dg_invoice g = Some j"
  shows "of_invoice db iv (e_source_type d) (e_source_id d) \<longleftrightarrow> j = i_id iv"
proof -
  have src: "e_source_type d = Some (dg_source_type g)" "e_source_id d = Some (dg_source_id g)"
    and j: "source_invoice_id db (dg_source_type g) (dg_source_id g) = Some j"
    and st: "dg_source_type g \<in> {''invoice'', ''payment'', ''adjustment''}"
    using scan d(1) i by (auto simp: from_scan_def)
  obtain u where u: "parse_uuid (dg_source_id g) = Some u" using j by (auto simp: source_invoice_id_def split: option.splits)
  then have sid: "dg_source_id g = uuid_str u" using can d(2) src(2) by (auto simp: canonical_sources_def live_in_def)
  have k: "distinct (map p_id (db_payments db))" "distinct (map adj_id (db_adjustments db))" using keys by (simp_all add: keys_ok_def)
  from st consider "dg_source_type g = ''invoice''" | "dg_source_type g = ''payment''" | "dg_source_type g = ''adjustment''" by auto
  then show ?thesis
  proof cases
    case 1
    then show ?thesis using j u by (simp add: src sid source_invoice_id_def of_invoice_def)
  next
    case 2
    then obtain p where "p \<in> set (db_payments db)" "p_id p = u" "p_invoice p = j"
      using j u first_filter_key[OF k(1)] by (auto simp: source_invoice_id_def)
    then show ?thesis using 2 k(1) by (auto simp: src sid of_invoice_def invoice_payments_def distinct_map dest: inj_onD)
  next
    case 3
    then obtain p where "p \<in> set (db_adjustments db)" "adj_id p = u" "adj_invoice p = j"
      using j u first_filter_key[OF k(2)] by (auto simp: source_invoice_id_def)
    then show ?thesis using 3 k(2) by (auto simp: src sid of_invoice_def invoice_adjustments_def distinct_map dest: inj_onD)
  qed
qed

lemma ar_of_claimed:
  assumes keys: "keys_ok db" and can: "canonical_sources db"
    and rows: "\<forall>g \<in> set fixed. dg_reversible g \<and> dg_invoice g \<noteq> None \<and> from_scan db g (E g) \<and> (\<forall>d \<in> set (E g). live_in db d)"
  shows "ar_of db iv (concat (map E fixed)) = claimed (i_id iv) fixed"
  using rows
proof (induction fixed)
  case (Cons g fixed)
  then obtain j where j: "dg_invoice g = Some j" and g: "dg_reversible g" "from_scan db g (E g)" "\<forall>d \<in> set (E g). live_in db d" by auto
  have "ar_of db iv (E g) = (\<Sum>d\<leftarrow>E g. if j = i_id iv then entry_ar_cents db d else 0)"
    unfolding ar_of_def using scan_attribution[OF keys can g(2) _ _ j] g(3) by (intro arg_cong[where f = sum_list] map_cong) auto
  also have "\<dots> = (if j = i_id iv then dg_ar_cents g else 0)" using g(2) by (simp add: from_scan_def)
  finally show ?case using Cons j g(1) by (auto simp: ar_of_def)
qed (simp add: ar_of_def)

text \<open>
  C25.  The repair never overshoots.  Whenever \<open>reverse_duplicate_one_shot_entries\<close> returns, the journal is sound and, for every
  invoice, the drift between its ledger receivable and what its row owes has moved toward zero or stayed, and never past zero,
  however many duplicate groups of that invoice were reversed, held or blocked by a lock.
\<close>

theorem repair_never_overshoots:
  assumes inv: "ledger_inv db" and keys: "keys_ok db" and can: "canonical_sources db"
    and run: "reverse_duplicate_one_shot_entries env company actor eff db = (Inr r, db')"
    and iv: "iv \<in> set (db_invoices db)" "expected_cents iv = Inr owed"
  shows "ledger_inv db' \<and>
    (let before = invoice_ar_balance_cents db iv - owed; after = invoice_ar_balance_cents db' iv - owed in
     0 \<le> after \<and> after \<le> before \<or> before \<le> after \<and> after \<le> 0)"
proof -
  obtain groups where g: "duplicate_one_shot_entries db company = Inr groups"
    "fold_sem (repair_group env actor eff (max_lock db)) groups no_repairs db = (Inr r, db')"
    using run by (auto simp: reverse_duplicate_one_shot_entries_def andthen_def asks_def reads_def throw_def split: if_splits sum.splits)
  let ?E = "duplicates_of db"
  note rows = duplicate_rows[OF inv g(1)]
  obtain fixed where f: "subseq fixed groups" "\<forall>g \<in> set fixed. dg_reversible g" "repaired db (concat (map ?E fixed)) db'"
    using repair_loop[OF inv _ rows(2) g(2)] rows(1) by (auto simp: from_scan_def)
  have sub: "set fixed \<subseteq> set groups" using list_emb_set[OF f(1)] by blast
  have "dg_invoice h \<noteq> None" if "h \<in> set fixed" for h
    using decide_rows_reversible g(1) that sub f(2) by (fastforce simp: duplicate_one_shot_entries_def bindR_eq_Inr)
  then have "ar_of db iv (concat (map ?E fixed)) = claimed (i_id iv) fixed"
    by (intro ar_of_claimed[OF keys can]) (use f(2) rows(1) sub in auto)
  moreover have "first (filter (\<lambda>i. i_id i = i_id iv) (db_invoices db)) = Some iv"
    using first_filter_key[of i_id "db_invoices db"] keys iv(1) by (simp add: keys_ok_def)
  then have "remaining db [] (i_id iv) = Inr (invoice_ar_balance_cents db iv - owed)"
    using iv(2) by (simp add: remaining_def invoice_drift_def get_invoice_def)
  from rows(3)[OF this f(1)] have "toward (invoice_ar_balance_cents db iv - owed) (claimed (i_id iv) fixed)" .
  ultimately show ?thesis using f(3) by (auto simp: repaired_def toward_def Let_def)
qed

section \<open>A lock never leaves a group half reversed\<close>

lemma latest_lock_max:
  assumes "latest_lock db c = Some l"
  shows "\<exists>m. max_lock db = Some m \<and> l \<le> m"
proof -
  let ?cs = "map k_date (filter (\<lambda>k. k_company k = c) (db_locks db))" and ?ds = "map k_date (db_locks db)"
  have "l \<in> set ?cs" using assms foldl_max_in unfolding latest_lock_def by (cases ?cs) auto
  then have "l \<in> set ?ds" by auto
  then show ?thesis using foldl_max_ge[of l "hd ?ds" "tl ?ds"] unfolding max_lock_def by (cases ?ds) auto
qed

lemma reverse_entry_open:
  assumes inv: "ledger_inv db" and live: "live_in db x" and free: "\<not> locked_out (max_lock db) eff x"
  shows "\<exists>r db'. reverse_entry env x eff by False db = (Inr r, db')"
proof -
  have "reversal_date x eff > l" if "latest_lock db (e_company x) = Some l" for l
    using latest_lock_max[OF that] free by (auto simp: locked_out_def reversal_date_def)
  then have "check_period_lock (e_company x) (reversal_date x eff) False by (reversal_key (e_id x)) db = (Inr (), db)"
    by (cases "latest_lock db (e_company x)") (simp_all add: check_period_lock_def)
  then show ?thesis using reverse_entry_live[OF inv live_get_entry[OF inv live]] live by (simp add: live_in_def)
qed

lemma reverse_all_open:
  assumes "ledger_inv db" "distinct ds" "\<forall>d \<in> set ds. live_in db d \<and> \<not> locked_out (max_lock db) eff d"
  shows "\<exists>rs db'. fold_sem (\<lambda>d rs. andthen (reverse_entry env d eff by False) (\<lambda>r. ok (rs @ [r]))) ds rs0 db = (Inr rs, db')"
  using assms
proof (induction ds arbitrary: db rs0)
  case (Cons d ds)
  obtain r db1 where r: "reverse_entry env d eff by False db = (Inr r, db1)"
    using reverse_entry_open[OF Cons.prems(1)] Cons.prems(3) by (meson list.set_intros(1))
  have one: "repaired db [d] db1" using repaired_one[OF Cons.prems(1) _ r] Cons.prems(3) by simp
  then have "max_lock db1 = max_lock db" by (simp add: repaired_def max_lock_def)
  then have "\<exists>rs db'. fold_sem (\<lambda>d rs. andthen (reverse_entry env d eff by False) (\<lambda>r. ok (rs @ [r]))) ds (rs0 @ [r]) db1 = (Inr rs, db')"
    using Cons.prems one by (intro Cons.IH) (auto simp: repaired_def)
  then show ?case using r by (simp add: andthen_def ok_def)
qed (simp add: ok_def)

lemma repair_group_open:
  assumes inv: "ledger_inv db" and ds: "map e_id ds = dg_duplicates g" "distinct ds" "\<forall>d \<in> set ds. live_in db d"
  shows "\<exists>r' db'. repair_group env actor eff (max_lock db) g r db = (Inr r', db') \<and>
    map fst (rp_rows r') = map fst (rp_rows r) @ (if dg_reversible g \<and> \<not> list_ex (locked_out (max_lock db) eff) ds then [g] else [])"
proof -
  have get: "get_entries (dg_duplicates g) db = (Inr ds, db)" using get_entries_live[OF inv ds(3)] ds(1) by simp
  show ?thesis
  proof (cases "filter (locked_out (max_lock db) eff) ds")
    case Nil
    then have free: "\<forall>d \<in> set ds. live_in db d \<and> \<not> locked_out (max_lock db) eff d" using ds(3) by (auto simp: filter_empty_conv)
    then have "\<not> list_ex (locked_out (max_lock db) eff) ds" by (auto simp: list_ex_iff)
    then show ?thesis
      using reverse_all_open[OF inv ds(2) free, of env "Some actor" "[]"] get Nil
      by (auto simp: repair_group_def reverse_all_def andthen_def ok_def)
  next
    case (Cons b bs)
    then have "b \<in> set (filter (locked_out (max_lock db) eff) ds)" by simp
    then have "list_ex (locked_out (max_lock db) eff) ds" by (auto simp: list_ex_iff)
    then show ?thesis using get Cons by (simp add: repair_group_def andthen_def ok_def)
  qed
qed

lemma repair_loop_open:
  assumes "ledger_inv db" "\<forall>g \<in> set groups. map e_id (E g) = dg_duplicates g \<and> (\<forall>e \<in> set (E g). live_in db e)"
    and "distinct (concat (map E groups))"
  shows "\<exists>r' db'. fold_sem (repair_group env actor eff (max_lock db)) groups r db = (Inr r', db') \<and>
    map fst (rp_rows r') = map fst (rp_rows r) @ filter (\<lambda>g. dg_reversible g \<and> \<not> list_ex (locked_out (max_lock db) eff) (E g)) groups"
  using assms
proof (induction groups arbitrary: db r)
  case (Cons g groups)
  have E: "map e_id (E g) = dg_duplicates g" "distinct (E g)" "\<forall>d \<in> set (E g). live_in db d" using Cons.prems(2,3) by auto
  obtain ra dba where a: "repair_group env actor eff (max_lock db) g r db = (Inr ra, dba)"
    "map fst (rp_rows ra) = map fst (rp_rows r) @ (if dg_reversible g \<and> \<not> list_ex (locked_out (max_lock db) eff) (E g) then [g] else [])"
    using repair_group_open[OF Cons.prems(1) E] by blast
  from repair_group_effect[OF Cons.prems(1) E a(1)] have k: "ledger_inv dba" "max_lock dba = max_lock db"
    using Cons.prems(1) by (auto simp: repaired_def max_lock_def)
  from repair_group_effect[OF Cons.prems(1) E a(1)] have keep: "live_in dba e" if "live_in db e" "e \<notin> set (E g)" for e
    using that by (auto simp: repaired_def)
  have "e \<notin> set (E g)" if "h \<in> set groups" "e \<in> set (E h)" for h e using that Cons.prems(3) by auto
  then have "\<forall>h \<in> set groups. map e_id (E h) = dg_duplicates h \<and> (\<forall>e \<in> set (E h). live_in dba e)"
    using Cons.prems(2) keep by (meson list.set_intros(2))
  with Cons.IH[of dba ra] k Cons.prems(3) obtain r' db' where
    "fold_sem (repair_group env actor eff (max_lock db)) groups ra dba = (Inr r', db')"
    "map fst (rp_rows r') = map fst (rp_rows ra) @ filter (\<lambda>g. dg_reversible g \<and> \<not> list_ex (locked_out (max_lock db) eff) (E g)) groups"
    by auto
  then show ?case using a by (simp add: andthen_def)
qed (simp add: ok_def)

lemma repair_runs:
  assumes inv: "ledger_inv db" and actor: "strip actor \<noteq> []" and scan: "duplicate_one_shot_entries db company = Inr groups"
  shows "\<exists>r db'. reverse_duplicate_one_shot_entries env company actor eff db = (Inr r, db') \<and>
    map fst (rp_rows r) = filter (\<lambda>g. dg_reversible g \<and> \<not> list_ex (locked_out (max_lock db) eff) (duplicates_of db g)) groups"
proof -
  note rows = duplicate_rows[OF inv scan]
  have "\<forall>g \<in> set groups. map e_id (duplicates_of db g) = dg_duplicates g \<and> (\<forall>e \<in> set (duplicates_of db g). live_in db e)"
    using rows(1) by (simp add: from_scan_def)
  from repair_loop_open[OF inv this rows(2), of env actor eff no_repairs] actor scan show ?thesis
    by (simp add: reverse_duplicate_one_shot_entries_def andthen_def asks_def reads_def no_repairs_def)
qed


section \<open>An anchor posted twice\<close>

definition anchor_event :: "int \<Rightarrow> posting_event" where
  "anchor_event n = event_of ''gdx'' ''invoice'' 100 EVENT_OPENING (Date 2026 4 15) (build_opening_lines untaxed_invoice n) None"

definition later_env :: gl_env where
  "later_env = sample_env\<lparr>sha256_hex := (\<lambda>s. ''00ff00ff00ff00ff''), now_utc := Datetime (Date 2026 5 1) 0\<rparr>"

definition doubled_db :: gl_db where
  "doubled_db =
     snd (post_for_event later_env False (anchor_event 4000)
       (snd (post_for_event sample_env False (anchor_event 10000)
         (opening_db\<lparr>db_invoices := [untaxed_invoice\<lparr>i_balance_due := Some (cents 10000)\<rparr>]\<rparr>))))"

lemma doubled_db_inv: "ledger_inv doubled_db"
proof -
  have "ledger_inv (opening_db\<lparr>db_invoices := xs\<rparr>)" for xs
    by (rule ledger_inv_frame[OF _ _ _ opening_db_inv]) simp_all
  moreover have "ledger_inv db \<Longrightarrow> digest_ok env \<Longrightarrow> ledger_inv (snd (post_for_event env False ev db))" for env db ev
    using post_for_event_tracks[of env False ev] inv_sound by (auto simp: tracks_def)
  moreover have "digest_ok later_env" by (simp add: later_env_def digest_ok_def sample_env_def)
  ultimately show ?thesis unfolding doubled_db_def using sample_digest_ok by blast
qed

definition repair_view :: "gl_db \<Rightarrow> (exn + (bool \<times> int \<times> bool) list) \<times> bool \<times> invoice list \<times> int list" where
  "repair_view db =
     (map_sum id (map (\<lambda>g. (dg_reversible g, dg_ar_cents g, list_ex (locked_out (max_lock db) None) (duplicates_of db g))))
        (duplicate_one_shot_entries db ''gdx''),
      keys_ok db \<and> canonical_sources db, db_invoices db, map (invoice_ar_balance_cents db) (db_invoices db))"

lemma doubled_view:
  "repair_view doubled_db = (Inr [(True, 4000, False)], True, [untaxed_invoice\<lparr>i_balance_due := Some (cents 10000)\<rparr>], [14000])"
  by code_simp

lemma doubled_scan:
  obtains g where "duplicate_one_shot_entries doubled_db ''gdx'' = Inr [g]" "dg_reversible g" "dg_ar_cents g = 4000"
    "\<not> list_ex (locked_out (max_lock doubled_db) None) (duplicates_of doubled_db g)"
  using doubled_view by (cases "duplicate_one_shot_entries doubled_db ''gdx''") (auto simp: repair_view_def)

lemma strip_ann: "strip ''ann'' \<noteq> []"
  by code_simp


theorem repair_never_overshoots_witness:
  "\<exists>r db'. reverse_duplicate_one_shot_entries sample_env ''gdx'' ''ann'' None doubled_db = (Inr r, db') \<and> ledger_inv db' \<and>
     0 \<le> invoice_ar_balance_cents db' untaxed_invoice - 10000 \<and> invoice_ar_balance_cents db' untaxed_invoice - 10000 \<le> 4000"
proof -
  let ?iv = "untaxed_invoice\<lparr>i_balance_due := Some (cents 10000)\<rparr>"
  obtain g where "duplicate_one_shot_entries doubled_db ''gdx'' = Inr [g]" by (rule doubled_scan)
  from repair_runs[OF doubled_db_inv strip_ann this]
  obtain r db' where run: "reverse_duplicate_one_shot_entries sample_env ''gdx'' ''ann'' None doubled_db = (Inr r, db')" by blast
  have k: "keys_ok doubled_db" "canonical_sources doubled_db" "db_invoices doubled_db = [?iv]" "invoice_ar_balance_cents doubled_db ?iv = 14000"
    using doubled_view by (auto simp: repair_view_def)
  have e: "expected_cents ?iv = Inr 10000" by code_simp
  have "invoice_ar_balance_cents db ?iv = invoice_ar_balance_cents db untaxed_invoice" for db
    by (simp add: invoice_ar_balance_cents_def of_invoice_def invoice_payments_def invoice_adjustments_def)
  then show ?thesis
    using repair_never_overshoots[OF doubled_db_inv k(1,2) run _ e] k(3,4) run by auto
qed

end
