(* ===== verification/Ledger_Opening.thy ===== *)
theory Ledger_Opening
  imports Ledger_Repair
begin

text \<open>
  \<^verbatim>\<open>modules/ledger/opening.py\<close>: opening balances derived from the archive of bank statements.  \<open>propose_opening\<close> finds, per bank
  account, the latest run of statements whose balances chain, the month boundaries the run proves, and the latest boundary all
  accounts share; \<open>apply_opening\<close> reverses what is dated before it, gives every bank account its ledger account, posts the opening
  entries, reverses stale ones, closes the era and anchors the open invoices.
\<close>

section \<open>The evidence\<close>

record bank_account =
  ba_id :: uuid
  ba_name :: string
  ba_kind :: string
  ba_last4 :: string
  ba_gl_account :: "uuid option"

record statement =
  st_account :: uuid
  st_start :: date
  st_end :: date
  st_beginning :: int
  st_ending :: int
  st_tie_out :: string
  st_voided_at :: "datetime option"
  st_created_at :: datetime

text \<open>The ledger, the bank accounts and statements, and the attestation stamp of each company's settings.\<close>

record bank_books =
  bb_gl :: gl_db
  bb_accounts :: "bank_account list"
  bb_statements :: "statement list"
  bb_attested :: "(string \<times> datetime \<times> string) list"

definition MAX_BOUNDARY_GAP_DAYS :: int where
  "MAX_BOUNDARY_GAP_DAYS = 3"

definition statement_chain :: "bank_books \<Rightarrow> uuid \<Rightarrow> statement list" where
  "statement_chain b u = sort_key (\<lambda>s. (st_start s, st_end s, st_created_at s))
     (filter (\<lambda>s. st_account s = u \<and> st_voided_at s = None \<and> st_tie_out s = ''passed'') (bb_statements b))"

definition linked :: "statement \<Rightarrow> statement \<Rightarrow> bool" where
  "linked prev imp \<longleftrightarrow>
     (let gap = days_between (st_start imp) (st_end prev) in
      st_beginning imp = st_ending prev \<and> 0 \<le> gap \<and> gap \<le> MAX_BOUNDARY_GAP_DAYS)"

definition latest_contiguous_run :: "statement list \<Rightarrow> statement list" where
  "latest_contiguous_run imports =
     foldl (\<lambda>run imp. (if run \<noteq> [] \<and> \<not> linked (last run) imp then [] else run) @ [imp]) [] imports"

definition month_boundary_after :: "date \<Rightarrow> date option" where
  "month_boundary_after d = (let candidate = add_days d 1 in if day candidate = 1 then Some candidate else None)"

definition add_candidates :: "(date \<times> int) list \<Rightarrow> statement \<Rightarrow> (date \<times> int) list" where
  "add_candidates candidates imp =
     (let c = (case month_boundary_after (st_end imp) of
                 None \<Rightarrow> candidates | Some after \<Rightarrow> AList.update after (st_ending imp) candidates)
      in if day (st_start imp) = 1 \<and> map_of c (st_start imp) = None then c @ [(st_start imp, st_beginning imp)] else c)"

definition boundary_candidates :: "statement list \<Rightarrow> (date \<times> int) list" where
  "boundary_candidates run = foldl add_candidates [] run"

definition pre_cutover_live_entries :: "gl_db \<Rightarrow> string \<Rightarrow> date \<Rightarrow> gl_entry list" where
  "pre_cutover_live_entries db company cutover =
     filter (\<lambda>e. e_company e = company \<and> e_status e = Posted \<and> e_reverses e = None \<and> e_effective_at e < cutover) (db_entries db)"

section \<open>The proposal\<close>

datatype derivation =
    NoBankAccounts
  | NoUsableChain "(string \<times> string) list"
  | NoCommonBoundary "(string \<times> date list) list"
  | EvidenceChanged date date
  | ReversalsChanged nat nat
  | CutoverAlreadySet date date

datatype opening_exn = OpeningDerivationError derivation | OpeningError exn

definition ellipsis :: string where
  "ellipsis = [CHR 0xE2, CHR 0x80, CHR 0xA6]"

definition bank_label :: "bank_account \<Rightarrow> string" where
  "bank_label a = ba_name a @ '' '' @ ellipsis @ ba_last4 a"

datatype evidence = NoEvidence string | Chain "statement list" "(date \<times> int) list"

definition evidence_of :: "bank_books \<Rightarrow> bank_account \<Rightarrow> evidence" where
  "evidence_of b a =
     (let imports = statement_chain b (ba_id a) in
      if imports = [] then NoEvidence ''no statements imported''
      else let run = latest_contiguous_run imports; candidates = boundary_candidates run in
           if candidates = [] then NoEvidence (''no statement in the chain starts on a month first or ends on a month end '' @
             em_dash @ '' import an adjacent statement'')
           else Chain run candidates)"

datatype account_proposal =
    Unusable uuid string string
  | Usable uuid string "statement list" int

record proposal =
  po_cutover :: date
  po_accounts :: "account_proposal list"
  po_already_set :: "date option"
  po_reversals :: "gl_entry list"

definition bank_order :: "bank_account \<Rightarrow> bool \<times> string \<times> string" where
  "bank_order a = (ba_kind a \<noteq> ''checking'', ba_name a, ba_last4 a)"

definition usable_candidates :: "(bank_account \<times> evidence) list \<Rightarrow> (bank_account \<times> (date \<times> int) list) list" where
  "usable_candidates staged = concat (map (\<lambda>(a, ev). case ev of NoEvidence _ \<Rightarrow> [] | Chain _ c \<Rightarrow> [(a, c)]) staged)"

definition common_boundaries :: "(date \<times> int) list list \<Rightarrow> date list" where
  "common_boundaries cs = (case cs of [] \<Rightarrow> [] | c # rest \<Rightarrow>
     filter (\<lambda>d. list_all (\<lambda>c'. map_of c' d \<noteq> None) rest) (map fst c))"

definition account_proposal_of :: "date \<Rightarrow> bank_account \<times> evidence \<Rightarrow> account_proposal" where
  "account_proposal_of cutover x = (case x of
     (a, NoEvidence reason) \<Rightarrow> Unusable (ba_id a) (bank_label a) reason
   | (a, Chain run candidates) \<Rightarrow> Usable (ba_id a) (bank_label a) run (the (map_of candidates cutover)))"

definition propose_opening :: "bank_books \<Rightarrow> string \<Rightarrow> opening_exn + proposal" where
  "propose_opening b company =
     (let accounts = sort_key bank_order (bb_accounts b) in
      if accounts = [] then Inl (OpeningDerivationError NoBankAccounts)
      else
        let staged = map (\<lambda>a. (a, evidence_of b a)) accounts;
            usable = usable_candidates staged
        in if usable = [] then Inl (OpeningDerivationError (NoUsableChain
             (map (\<lambda>(a, ev). (bank_label a, case ev of NoEvidence r \<Rightarrow> r | Chain _ _ \<Rightarrow> [])) staged)))
           else
             case common_boundaries (map snd usable) of
               [] \<Rightarrow> Inl (OpeningDerivationError (NoCommonBoundary (map (\<lambda>(a, c). (bank_label a, sort (map fst c))) usable)))
             | d # ds \<Rightarrow>
                 let cutover = foldl max d ds in
                 Inr \<lparr>po_cutover = cutover, po_accounts = map (account_proposal_of cutover) staged,
                      po_already_set = cutover_date (bb_gl b) company,
                      po_reversals = pre_cutover_live_entries (bb_gl b) company cutover\<rparr>)"

section \<open>The application\<close>

type_synonym 'a opens = "(bank_books, opening_exn, 'a) sem"

definition on_books :: "'a gl \<Rightarrow> 'a opens" where
  "on_books m = (\<lambda>b. case m (bb_gl b) of
     (Inl x, db) \<Rightarrow> (Inl (OpeningError x), b\<lparr>bb_gl := db\<rparr>) | (Inr y, db) \<Rightarrow> (Inr y, b\<lparr>bb_gl := db\<rparr>))"

definition set_cutover :: "string \<Rightarrow> date \<Rightarrow> gl_db \<Rightarrow> gl_db" where
  "set_cutover company d db =
     db\<lparr>db_settings := map (\<lambda>s. if s_company s = company then s\<lparr>s_cutover := Some d\<rparr> else s) (db_settings db)\<rparr>"

definition rename_account :: "uuid \<Rightarrow> string \<Rightarrow> gl_db \<Rightarrow> gl_db" where
  "rename_account u name db =
     db\<lparr>db_accounts := map (\<lambda>a. if a_id a = u then a\<lparr>a_name := name\<rparr> else a) (db_accounts db)\<rparr>"

text \<open>The first unused account code from \<open>n\<close> on.\<close>

function free_code :: "string list \<Rightarrow> nat \<Rightarrow> nat" where
  "free_code codes n = (if nat_str n \<in> set codes then free_code codes (Suc n) else n)"
  by pat_completeness auto

termination
proof (relation "measure (\<lambda>(codes, n). card {k. n \<le> k \<and> nat_str k \<in> set codes})")
  fix codes :: "string list" and n :: nat
  assume taken: "nat_str n \<in> set codes"
  have "finite {k. nat_str k \<in> set codes}"
    using finite_vimageI[OF finite_set[of codes], of nat_str] by (simp add: vimage_def inj_on_def)
  then have fin: "finite {k. n \<le> k \<and> nat_str k \<in> set codes}" by (rule rev_finite_subset) auto
  have "n \<in> {k. n \<le> k \<and> nat_str k \<in> set codes} - {k. Suc n \<le> k \<and> nat_str k \<in> set codes}" using taken by simp
  moreover have "{k. Suc n \<le> k \<and> nat_str k \<in> set codes} \<subseteq> {k. n \<le> k \<and> nat_str k \<in> set codes}" by auto
  ultimately have "{k. Suc n \<le> k \<and> nat_str k \<in> set codes} \<subset> {k. n \<le> k \<and> nat_str k \<in> set codes}" by blast
  from psubset_card_mono[OF fin this]
  show "((codes, Suc n), (codes, n)) \<in> measure (\<lambda>(codes, n). card {k. n \<le> k \<and> nat_str k \<in> set codes})" by simp
qed simp

declare free_code.simps [simp del]

definition new_bank_gl :: "string \<Rightarrow> string \<Rightarrow> nat \<Rightarrow> (nat \<times> uuid) gl" where
  "new_bank_gl company name next_code = (\<lambda>db.
     let code = free_code (map a_code (company_accounts db company)) next_code;
         acct = \<lparr>a_id = db_uuid db, a_code = nat_str code, a_name = name, a_type = Asset, a_parent = None, a_role = None,
                 a_is_system = False, a_active = True, a_company = company\<rparr>
     in (Inr (code, a_id acct), db\<lparr>db_accounts := db_accounts db @ [acct], db_uuid := Suc (db_uuid db)\<rparr>))"

text \<open>The ledger account of a bank account: the mapped one, the operating bank for the first, an account of its name, or a new one.\<close>

definition bank_gl_account ::
  "string \<Rightarrow> uuid \<Rightarrow> nat \<Rightarrow> uuid option \<Rightarrow> string \<Rightarrow> nat \<Rightarrow> (nat \<times> uuid) gl" where
  "bank_gl_account company operating idx mapped name next_code =
     (case mapped of
        Some u \<Rightarrow> andthen (asks (\<lambda>db. get_account db u)) (\<lambda>found.
          case found of None \<Rightarrow> throw AttributeError | Some a \<Rightarrow> ok (next_code, a_id a))
      | None \<Rightarrow>
          if idx = 0 then andthen (change (rename_account operating name)) (\<lambda>_. ok (next_code, operating))
          else andthen (asks (\<lambda>db. first (filter (\<lambda>a. a_name a = name) (company_accounts db company)))) (\<lambda>existing.
            case existing of Some a \<Rightarrow> ok (next_code, a_id a) | None \<Rightarrow> new_bank_gl company name next_code))"

definition opening_event :: "string \<Rightarrow> uuid \<Rightarrow> date \<Rightarrow> int \<Rightarrow> uuid \<Rightarrow> string \<Rightarrow> string \<Rightarrow> string option \<Rightarrow> posting_event" where
  "opening_event company bank cutover c acct chain_to name actor =
     event_of company ''bank_account'' bank ''opening'' cutover
       [posting_to c acct None None (''opening balance per statement chain through '' @ chain_to),
        posting (- c) ROLE_OPENING_EQUITY None None (''opening balance '' @ name)] actor"

definition live_bank_entries :: "gl_db \<Rightarrow> string \<Rightarrow> uuid \<Rightarrow> gl_entry list" where
  "live_bank_entries db company bank =
     filter (\<lambda>e. e_company e = company \<and> e_source_type e = Some ''bank_account'' \<and> e_source_id e = Some (uuid_str bank) \<and>
       e_status e = Posted \<and> e_reverses e = None) (db_entries db)"

definition reverse_entries :: "gl_env \<Rightarrow> string option \<Rightarrow> gl_entry list \<Rightarrow> unit gl" where
  "reverse_entries env actor es = for_each (\<lambda>e. andthen (reverse_entry env e None actor True) (\<lambda>_. ok ())) es"

definition post_bank_opening :: "gl_env \<Rightarrow> string \<Rightarrow> uuid \<Rightarrow> date \<Rightarrow> int \<Rightarrow> uuid \<Rightarrow> string \<Rightarrow> string \<Rightarrow> string option \<Rightarrow>
    (gl_entry option \<times> gl_entry list) gl" where
  "post_bank_opening env company bank cutover c acct chain_to name actor =
     andthen (if c \<noteq> 0 then andthen (post_for_event env False (opening_event company bank cutover c acct chain_to name actor)) (\<lambda>e. ok (Some e))
              else ok None) (\<lambda>fresh.
     andthen (asks (\<lambda>db. filter (\<lambda>e. fresh \<noteq> None \<longrightarrow> e_id e \<noteq> e_id (the fresh)) (live_bank_entries db company bank))) (\<lambda>stale.
     andthen (reverse_entries env actor stale) (\<lambda>_. ok (fresh, stale))))"

record opening_result =
  opn_cutover :: date
  opn_reversed :: "nat list"
  opn_stale :: "nat list"
  opn_entries :: "(string \<times> int \<times> nat) list"
  opn_lock :: date
  opn_anchors :: phase_result

definition set_bank_gl :: "uuid \<Rightarrow> uuid \<Rightarrow> bank_books \<Rightarrow> bank_books" where
  "set_bank_gl bank acct b =
     b\<lparr>bb_accounts := map (\<lambda>a. if ba_id a = bank then a\<lparr>ba_gl_account := Some acct\<rparr> else a) (bb_accounts b)\<rparr>"

text \<open>One usable account, then the loop over the accounts: index, next code, entries posted, stale entries reversed.\<close>

definition open_usable :: "gl_env \<Rightarrow> string \<Rightarrow> string option \<Rightarrow> date \<Rightarrow> uuid \<Rightarrow> nat \<Rightarrow> nat \<Rightarrow> bank_account \<Rightarrow> string \<Rightarrow> string \<Rightarrow> int \<Rightarrow>
    (nat \<times> gl_entry option \<times> gl_entry list) opens" where
  "open_usable env company actor cutover operating idx next_code ba name chain_to c =
     andthen (on_books (bank_gl_account company operating idx (ba_gl_account ba) name next_code)) (\<lambda>acct.
     andthen (change (set_bank_gl (ba_id ba) (snd acct))) (\<lambda>_.
     andthen (on_books (post_bank_opening env company (ba_id ba) cutover c (snd acct) chain_to name actor)) (\<lambda>posted.
     ok (fst acct, posted))))"

record opening_acc =
  oa_idx :: nat
  oa_code :: nat
  oa_entries :: "(string \<times> int \<times> nat) list"
  oa_stale :: "nat list"

definition open_bank_account :: "gl_env \<Rightarrow> string \<Rightarrow> string option \<Rightarrow> date \<Rightarrow> uuid \<Rightarrow> account_proposal \<Rightarrow> opening_acc \<Rightarrow> opening_acc opens" where
  "open_bank_account env company actor cutover operating p acc = (case p of
     Unusable _ _ _ \<Rightarrow> ok acc
   | Usable bank name run c \<Rightarrow>
       andthen (asks (\<lambda>b. first (filter (\<lambda>a. ba_id a = bank) (bb_accounts b)))) (\<lambda>row.
       case row of
         None \<Rightarrow> throw (OpeningError AttributeError)
       | Some ba \<Rightarrow>
           andthen (open_usable env company actor cutover operating (oa_idx acc) (oa_code acc) ba name (isoformat (st_end (last run))) c) (\<lambda>r.
           ok (acc\<lparr>oa_idx := Suc (oa_idx acc), oa_code := fst r,
                  oa_entries := oa_entries acc @ (case fst (snd r) of None \<Rightarrow> [] | Some e \<Rightarrow> [(name, c, e_no e)]),
                  oa_stale := oa_stale acc @ map e_no (snd (snd r))\<rparr>))))"

definition ensure_exact_lock :: "string \<Rightarrow> date \<Rightarrow> gl_db \<Rightarrow> gl_db" where
  "ensure_exact_lock company d db =
     (if list_ex (\<lambda>k. k_company k = company \<and> k_date k = d) (db_locks db) then db
      else db\<lparr>db_locks := db_locks db @ [\<lparr>k_date = d, k_company = company\<rparr>]\<rparr>)"

definition attest :: "gl_env \<Rightarrow> string \<Rightarrow> string option \<Rightarrow> bank_books \<Rightarrow> bank_books" where
  "attest env company actor b =
     (if map_of (bb_attested b) company = None
      then b\<lparr>bb_attested := (company, now_utc env, take 36 (or_str actor ''system'')) # bb_attested b\<rparr> else b)"

definition check_review :: "date option \<Rightarrow> nat option \<Rightarrow> proposal \<Rightarrow> opening_exn + unit" where
  "check_review expected_cutover expected_reversals p =
     (if expected_cutover \<noteq> None \<and> expected_cutover \<noteq> Some (po_cutover p) then
        Inl (OpeningDerivationError (EvidenceChanged (po_cutover p) (the expected_cutover)))
      else if expected_reversals \<noteq> None \<and> expected_reversals \<noteq> Some (length (po_reversals p)) then
        Inl (OpeningDerivationError (ReversalsChanged (length (po_reversals p)) (the expected_reversals)))
      else Inr ())"

definition apply_opening ::
  "gl_env \<Rightarrow> string \<Rightarrow> string option \<Rightarrow> date option \<Rightarrow> nat option \<Rightarrow> opening_result opens" where
  "apply_opening env company actor expected_cutover expected_reversals =
     andthen (reads (\<lambda>b. propose_opening b company)) (\<lambda>p.
     andthen (lift (check_review expected_cutover expected_reversals p)) (\<lambda>_.
     andthen (on_books (ensure_gl_seed company)) (\<lambda>settings.
     if s_cutover settings \<noteq> None \<and> s_cutover settings \<noteq> Some (po_cutover p) then
       throw (OpeningDerivationError (CutoverAlreadySet (the (s_cutover settings)) (po_cutover p)))
     else
       andthen (asks (\<lambda>b. pre_cutover_live_entries (bb_gl b) company (po_cutover p))) (\<lambda>olds.
       andthen (on_books (reverse_entries env actor olds)) (\<lambda>_.
       andthen (on_books (change (set_cutover company (po_cutover p)))) (\<lambda>_.
       andthen (on_books (reads (\<lambda>db. resolve_role_account db company ROLE_OPERATING_BANK))) (\<lambda>operating.
       andthen (fold_sem (open_bank_account env company actor (po_cutover p) (a_id operating)) (po_accounts p)
         \<lparr>oa_idx = 0, oa_code = 1010, oa_entries = [], oa_stale = []\<rparr>) (\<lambda>acc.
       andthen (on_books (change (ensure_exact_lock company (add_days (po_cutover p) (- 1))))) (\<lambda>_.
       andthen (change (attest env company actor)) (\<lambda>_.
       andthen (on_books (run_opening env company)) (\<lambda>anchors.
       ok \<lparr>opn_cutover = po_cutover p, opn_reversed = map e_no olds, opn_stale = oa_stale acc, opn_entries = oa_entries acc,
           opn_lock = add_days (po_cutover p) (- 1), opn_anchors = anchors\<rparr>)))))))))))"

section \<open>What the evidence proves\<close>

text \<open>A statement proves the balance of a month's first day: it starts on it, or it ends the day before.\<close>

definition proves :: "statement \<Rightarrow> date \<Rightarrow> int \<Rightarrow> bool" where
  "proves s d c \<longleftrightarrow> day d = 1 \<and> (d = add_days (st_end s) 1 \<and> c = st_ending s \<or> d = st_start s \<and> c = st_beginning s)"

fun chained :: "statement list \<Rightarrow> bool" where
  "chained (s # t # ss) \<longleftrightarrow> linked s t \<and> chained (t # ss)"
| "chained _ \<longleftrightarrow> True"

text \<open>Statements with real dates that cover three days or more.\<close>

definition covering :: "statement list \<Rightarrow> bool" where
  "covering ss \<longleftrightarrow> (\<forall>s \<in> set ss. valid_date (st_start s) \<and> valid_date (st_end s) \<and> ordinal (st_start s) + 2 \<le> ordinal (st_end s))"

lemma chained_append: "chained (xs @ [y]) \<longleftrightarrow> chained xs \<and> (xs \<noteq> [] \<longrightarrow> linked (last xs) y)"
  by (induction xs rule: chained.induct) auto

lemma latest_contiguous_run_ok:
  "chained (latest_contiguous_run ss) \<and> (ss \<noteq> [] \<longrightarrow> latest_contiguous_run ss \<noteq> [] \<and> last (latest_contiguous_run ss) = last ss) \<and>
   (\<exists>before. ss = before @ latest_contiguous_run ss \<and> (before \<noteq> [] \<longrightarrow> \<not> linked (last before) (hd (latest_contiguous_run ss))))"
proof (induction ss rule: rev_induct)
  case (snoc x xs)
  let ?run = "latest_contiguous_run xs"
  have step: "latest_contiguous_run (xs @ [x]) = (if ?run \<noteq> [] \<and> \<not> linked (last ?run) x then [] else ?run) @ [x]"
    by (simp add: latest_contiguous_run_def)
  obtain before where b: "xs = before @ ?run" "before \<noteq> [] \<longrightarrow> \<not> linked (last before) (hd ?run)" using snoc by blast
  show ?case
  proof (cases "?run \<noteq> [] \<and> \<not> linked (last ?run) x")
    case True
    then have "xs \<noteq> []" using snoc by (auto simp: latest_contiguous_run_def)
    then show ?thesis using True snoc unfolding step by simp
  next
    case False
    have "before = []" if "?run = []" using that snoc b by auto
    then show ?thesis using False snoc b unfolding step by (auto simp: chained_append hd_append intro!: exI[of _ before])
  qed
qed (simp add: latest_contiguous_run_def)

lemma chained_later:
  assumes "chained (s # ss)" "covering (s # ss)" "t \<in> set ss"
  shows "ordinal (st_end s) \<le> ordinal (st_start t) \<and> (ordinal (st_start t) < ordinal (st_end s) + 2 \<longrightarrow> st_beginning t = st_ending s)"
  using assms
proof (induction ss arbitrary: s)
  case (Cons u us)
  have l: "linked s u" "chained (u # us)" "covering (u # us)" using Cons.prems by (simp_all add: covering_def)
  have su: "ordinal (st_end s) \<le> ordinal (st_start u)" "st_beginning u = st_ending s"
    using l(1) by (simp_all add: linked_def Let_def days_between_def)
  show ?case
  proof (cases "t = u")
    case False
    then have "ordinal (st_end u) \<le> ordinal (st_start t)" using Cons.IH[OF l(2,3)] Cons.prems(3) by simp
    moreover have "ordinal (st_start u) + 2 \<le> ordinal (st_end u)" using l(3) by (simp add: covering_def)
    ultimately show ?thesis using su by simp
  qed (use su in simp)
qed simp

lemma proves_ordinal:
  assumes "proves s d c" "valid_date (st_start s)" "valid_date (st_end s)"
  shows "ordinal d = ordinal (st_end s) + 1 \<and> c = st_ending s \<or> ordinal d = ordinal (st_start s) \<and> c = st_beginning s"
  using assms ordinal_pos[of "st_end s"] add_days_valid[of "st_end s" 1] by (auto simp: proves_def)

lemma proofs_agree:
  assumes "chained ss" "covering ss" "s \<in> set ss" "t \<in> set ss" "proves s d c" "proves t d c'"
  shows "c = c'"
  using assms
proof (induction ss)
  case (Cons u us)
  have ch: "chained us" "covering us" using Cons.prems(1,2) by (cases us; simp add: covering_def)+
  have v: "valid_date (st_start x) \<and> valid_date (st_end x) \<and> ordinal (st_start x) + 2 \<le> ordinal (st_end x)" if "x \<in> set (u # us)" for x
    using that Cons.prems(2) by (auto simp: covering_def)
  have first: "a = b" if "x \<in> set us" "proves u d a" "proves x d b" for x a b
    using chained_later[OF Cons.prems(1,2) that(1)] proves_ordinal[OF that(2)] proves_ordinal[OF that(3)] v[of u] v[of x] that(1)
    by auto
  have same: "a = b" if "x \<in> set (u # us)" "proves x d a" "proves x d b" for x a b
    using proves_ordinal[OF that(2)] proves_ordinal[OF that(3)] v[OF that(1)] by auto
  show ?case using Cons.IH[OF ch] Cons.prems(3-6) first same by (metis set_ConsD)
qed simp

lemma add_candidates_proves:
  assumes "\<forall>d c. map_of cs d = Some c \<longrightarrow> proves s d c \<or> (\<exists>t \<in> S. proves t d c)"
  shows "map_of (add_candidates cs s) d = Some c \<Longrightarrow> proves s d c \<or> (\<exists>t \<in> S. proves t d c)"
  using assms by (auto simp: add_candidates_def Let_def month_boundary_after_def map_add_def proves_def update_conv' split: option.splits if_splits)

lemma add_candidates_keys:
  "map_of (add_candidates cs s) d = None \<longleftrightarrow> map_of cs d = None \<and> \<not> (\<exists>c. proves s d c)"
  by (auto simp: add_candidates_def Let_def month_boundary_after_def map_add_def proves_def update_conv' split: option.splits if_splits)

lemma boundary_candidates_proves:
  "map_of (boundary_candidates ss) d = Some c \<Longrightarrow> \<exists>s \<in> set ss. proves s d c"
  "map_of (boundary_candidates ss) d = None \<longleftrightarrow> \<not> (\<exists>s \<in> set ss. \<exists>c. proves s d c)"
proof -
  show "map_of (boundary_candidates ss) d = Some c \<Longrightarrow> \<exists>s \<in> set ss. proves s d c"
  proof (induction ss arbitrary: d c rule: rev_induct)
    case (snoc x xs)
    have "map_of (add_candidates (boundary_candidates xs) x) d = Some c" using snoc.prems by (simp add: boundary_candidates_def)
    from add_candidates_proves[OF _ this, of "set xs"] snoc.IH show ?case by auto
  qed (simp add: boundary_candidates_def)
  show "map_of (boundary_candidates ss) d = None \<longleftrightarrow> \<not> (\<exists>s \<in> set ss. \<exists>c. proves s d c)"
    by (induction ss rule: rev_induct) (auto simp: boundary_candidates_def add_candidates_keys)
qed

lemma candidates_exact:
  assumes "chained ss" "covering ss"
  shows "map_of (boundary_candidates ss) d = Some c \<longleftrightarrow> (\<exists>s \<in> set ss. proves s d c)"
proof
  assume "\<exists>s \<in> set ss. proves s d c"
  then obtain s where s: "s \<in> set ss" "proves s d c" by blast
  then obtain c' where c': "map_of (boundary_candidates ss) d = Some c'"
    using boundary_candidates_proves(2)[of ss d] by (cases "map_of (boundary_candidates ss) d") auto
  from boundary_candidates_proves(1)[OF this] s proofs_agree[OF assms] have "c' = c" by blast
  then show "map_of (boundary_candidates ss) d = Some c" using c' by simp
qed (rule boundary_candidates_proves(1))

lemma common_boundaries_iff:
  "cs \<noteq> [] \<Longrightarrow> d \<in> set (common_boundaries cs) \<longleftrightarrow> (\<forall>c \<in> set cs. map_of c d \<noteq> None)"
  by (cases cs) (auto simp: common_boundaries_def list_all_iff map_of_eq_None_iff)

lemma evidence_Chain:
  assumes "evidence_of b a = Chain run cs"
  shows "cs = boundary_candidates run \<and> run = latest_contiguous_run (statement_chain b (ba_id a))"
  using assms by (auto simp: evidence_of_def Let_def split: if_splits)

lemma run_of_chain:
  assumes "covering (bb_statements b)" "run = latest_contiguous_run (statement_chain b u)"
  shows "chained run" "covering run" "\<exists>before. statement_chain b u = before @ run"
proof -
  note ok = latest_contiguous_run_ok[of "statement_chain b u", folded assms(2)]
  show "chained run" "\<exists>before. statement_chain b u = before @ run" using ok by blast+
  then have "set run \<subseteq> set (bb_statements b)" by (auto simp: statement_chain_def dest!: arg_cong[where f = set])
  then show "covering run" using assms(1) by (auto simp: covering_def)
qed

text \<open>The usable accounts of a proposal, each with its run of statements and its opening balance.\<close>

definition proved_accounts :: "proposal \<Rightarrow> (uuid \<times> statement list \<times> int) list" where
  "proved_accounts p = concat (map (\<lambda>x. case x of Unusable _ _ _ \<Rightarrow> [] | Usable u _ run c \<Rightarrow> [(u, run, c)]) (po_accounts p))"

lemma propose_opening_Inr:
  assumes "propose_opening b company = Inr p"
  obtains staged where "staged = map (\<lambda>a. (a, evidence_of b a)) (sort_key bank_order (bb_accounts b))"
    "usable_candidates staged \<noteq> []" "po_accounts p = map (account_proposal_of (po_cutover p)) staged"
    "po_cutover p \<in> set (common_boundaries (map snd (usable_candidates staged)))"
    "\<And>d. d \<in> set (common_boundaries (map snd (usable_candidates staged))) \<Longrightarrow> d \<le> po_cutover p"
    "po_reversals p = pre_cutover_live_entries (bb_gl b) company (po_cutover p)"
proof -
  let ?staged = "map (\<lambda>a. (a, evidence_of b a)) (sort_key bank_order (bb_accounts b))"
  have ne: "usable_candidates ?staged \<noteq> []" using assms by (auto simp: propose_opening_def Let_def split: if_splits)
  obtain d ds where cb: "common_boundaries (map snd (usable_candidates ?staged)) = d # ds"
    and p: "p = \<lparr>po_cutover = foldl max d ds, po_accounts = map (account_proposal_of (foldl max d ds)) ?staged,
      po_already_set = cutover_date (bb_gl b) company, po_reversals = pre_cutover_live_entries (bb_gl b) company (foldl max d ds)\<rparr>"
    using assms ne by (auto simp: propose_opening_def Let_def split: if_splits list.splits)
  show thesis
    by (rule that[of ?staged]) (use ne cb p foldl_max_in[of d ds] foldl_max_ge[of _ d ds] in auto)
qed

text \<open>
  C9.  What a proposal rests on.  When every statement covers three days or more, the cutover of a proposal is the latest month's first
  day whose balance the run of every usable bank account proves, by a statement that starts on it or ends the day before.  Each account's
  opening balance is the one all such statements agree on, and its run is the end of its archive in which every balance is carried forward.
\<close>

theorem proposal_is_latest_proved:
  assumes cov: "covering (bb_statements b)" and run: "propose_opening b company = Inr p"
  shows "proved_accounts p \<noteq> [] \<and>
    (\<forall>(u, run, c) \<in> set (proved_accounts p). (\<exists>before. statement_chain b u = before @ run) \<and> chained run \<and>
       (\<exists>s \<in> set run. proves s (po_cutover p) c) \<and> (\<forall>s \<in> set run. \<forall>c'. proves s (po_cutover p) c' \<longrightarrow> c' = c)) \<and>
    (\<forall>d. (\<forall>(u, run, c) \<in> set (proved_accounts p). \<exists>s \<in> set run. \<exists>c'. proves s d c') \<longrightarrow> d \<le> po_cutover p)"
proof -
  obtain staged where st: "staged = map (\<lambda>a. (a, evidence_of b a)) (sort_key bank_order (bb_accounts b))"
    "usable_candidates staged \<noteq> []" "po_accounts p = map (account_proposal_of (po_cutover p)) staged"
    and cut: "po_cutover p \<in> set (common_boundaries (map snd (usable_candidates staged)))"
    and latest: "\<And>d. d \<in> set (common_boundaries (map snd (usable_candidates staged))) \<Longrightarrow> d \<le> po_cutover p"
    by (rule propose_opening_Inr[OF run]) blast
  have acc: "proved_accounts p = concat (map (\<lambda>(a, ev). case ev of NoEvidence _ \<Rightarrow> []
      | Chain run cs \<Rightarrow> [(ba_id a, run, the (map_of cs (po_cutover p)))]) staged)"
    by (auto simp: proved_accounts_def st(3) account_proposal_of_def comp_def split: evidence.splits intro!: arg_cong[where f = concat])
  have mem: "x \<in> set (proved_accounts p) \<longleftrightarrow> (\<exists>a run cs. (a, Chain run cs) \<in> set staged \<and> x = (ba_id a, run, the (map_of cs (po_cutover p))))" for x
    unfolding acc by (force split: evidence.splits)
  have use: "cs \<in> set (map snd (usable_candidates staged)) \<longleftrightarrow> (\<exists>a run. (a, Chain run cs) \<in> set staged)" for cs
    unfolding usable_candidates_def by (force split: evidence.splits)
  have ch: "cs = boundary_candidates run \<and> chained run \<and> covering run \<and> (\<exists>before. statement_chain b (ba_id a) = before @ run)"
    if "(a, Chain run cs) \<in> set staged" for a run cs
    using that evidence_Chain[of b a run cs] run_of_chain[OF cov] unfolding st(1) by auto
  have all: "d \<in> set (common_boundaries (map snd (usable_candidates staged))) \<longleftrightarrow>
      (\<forall>a run cs. (a, Chain run cs) \<in> set staged \<longrightarrow> map_of cs d \<noteq> None)" for d
    unfolding common_boundaries_iff[of "map snd (usable_candidates staged)" d, simplified list.map_disc_iff, OF st(2)] using use by blast
  have "\<exists>a run cs. (a, Chain run cs) \<in> set staged"
    using st(2) unfolding usable_candidates_def by (fastforce split: evidence.splits)
  then have "proved_accounts p \<noteq> []" using mem by fastforce
  moreover have "(\<exists>before. statement_chain b u = before @ r) \<and> chained r \<and> (\<exists>s \<in> set r. proves s (po_cutover p) c) \<and>
      (\<forall>s \<in> set r. \<forall>c'. proves s (po_cutover p) c' \<longrightarrow> c' = c)" if x: "(u, r, c) \<in> set (proved_accounts p)" for u r c
  proof -
    obtain a cs where a: "(a, Chain r cs) \<in> set staged" "u = ba_id a" "c = the (map_of cs (po_cutover p))" using mem[THEN iffD1, OF x] by auto
    note k = ch[OF a(1)]
    have c: "map_of cs (po_cutover p) = Some c" using all[THEN iffD1, OF cut] a by auto
    then have s: "\<exists>s \<in> set r. proves s (po_cutover p) c" using k candidates_exact[of r] by simp
    then have "c' = c" if "t \<in> set r" "proves t (po_cutover p) c'" for t c' using proofs_agree[of r t] k that by blast
    then show ?thesis using k a(2) s by blast
  qed
  moreover have "d \<le> po_cutover p" if "\<forall>(u, r, c) \<in> set (proved_accounts p). \<exists>s \<in> set r. \<exists>c'. proves s d c'" for d
  proof (rule latest, unfold all, intro allI impI)
    fix a r cs assume a: "(a, Chain r cs) \<in> set staged"
    then have "\<exists>s \<in> set r. \<exists>c'. proves s d c'" using that mem by fastforce
    then show "map_of cs d \<noteq> None" using ch[OF a] boundary_candidates_proves(2)[of r d] by auto
  qed
  ultimately show ?thesis by auto
qed

section \<open>Live original entries\<close>

definition originals :: "gl_db \<Rightarrow> gl_entry set" where
  "originals db = {e. live_in db e \<and> e_reverses e = None}"

lemma reverse_originals:
  assumes inv: "ledger_inv db" and x: "x \<in> originals db" and rev: "reverse_entry env x eff by ov db = (Inr r, db')"
  shows "ledger_inv db' \<and> originals db' = originals db - {x}"
proof -
  have x': "x \<in> set (db_entries db)" "e_status x = Posted" using x by (simp_all add: originals_def live_in_def)
  obtain db1 where r: "r = reversal_of env db1 x (reversal_date x eff) by" and db': "db' = with_reversal env x (reversal_date x eff) by db1"
    and 1: "ledger_inv db1" "x \<in> set (db_entries db1)" "db_entries db1 = db_entries db" "db_uuid db1 = db_uuid db"
    by (rule reverse_entry_Inr_live[OF inv x' rev])
  have es: "db_entries db' = map (marked (e_id x) (e_id r)) (db_entries db) @ [r]"
    using with_reversal_entries[OF 1(1,2)] 1 by (simp add: r db')
  have m: "marked (e_id x) (e_id r) y = y \<and> e_id y \<noteq> e_id x \<or> y = x \<and> e_status (marked (e_id x) (e_id r) y) = Reversed"
    if "y \<in> set (db_entries db)" for y
    using entry_id_inject[OF inv that x'(1)] by (auto simp: marked_def)
  have "y \<in> originals db' \<longleftrightarrow> y \<in> originals db - {x}" for y
  proof -
    have "y \<in> originals db' \<longleftrightarrow> (\<exists>z \<in> set (db_entries db). y = marked (e_id x) (e_id r) z) \<and> e_status y = Posted \<and> e_reverses y = None"
      by (auto simp: originals_def live_in_def es r)
    also have "\<dots> \<longleftrightarrow> y \<in> set (db_entries db) \<and> y \<noteq> x \<and> e_status y = Posted \<and> e_reverses y = None"
      using m by (metis entry_status.distinct(1))
    finally show ?thesis by (auto simp: originals_def live_in_def)
  qed
  then show ?thesis using inv_sound[OF tracksD[OF reverse_entry_sound rev] inv] by blast
qed

lemma reverse_entries_originals:
  assumes "ledger_inv db" "distinct es" "set es \<subseteq> originals db" "reverse_entries env actor es db = (Inr (), db')"
  shows "ledger_inv db' \<and> originals db' = originals db - set es"
  using assms
proof (induction es arbitrary: db)
  case (Cons e es)
  obtain r db1 where 1: "reverse_entry env e None actor True db = (Inr r, db1)" "reverse_entries env actor es db1 = (Inr (), db')"
    using Cons.prems(4) by (auto simp: reverse_entries_def andthen_def ok_def split: prod.splits sum.splits)
  have k: "ledger_inv db1 \<and> originals db1 = originals db - {e}"
    using reverse_originals[OF Cons.prems(1) _ 1(1)] Cons.prems(3) by simp
  then have "set es \<subseteq> originals db1" using Cons.prems(2,3) by auto
  from Cons.IH[OF _ _ this 1(2)] k Cons.prems(2) show ?case by auto
qed (simp add: reverse_entries_def ok_def)

lemma event_key_original: "ledger_inv db \<Longrightarrow> e \<in> set (db_entries db) \<Longrightarrow> event_key st u ev e \<Longrightarrow> e_reverses e = None"
  using ledger_invD(4)[of db e] by (auto simp: wf_key_def event_key_def)

lemma post_originals:
  assumes env: "digest_ok env" and inv: "ledger_inv db"
    and post: "post_for_event env ov (event_of c st u ev d ls a) db = (Inr e, db')"
  shows "ledger_inv db' \<and> originals db' = insert e (originals db) \<and> e_company e = c \<and> e_source_type e = Some st \<and>
    e_source_id e = Some (uuid_str u) \<and>
    (e \<in> originals db \<or> e_effective_at e = d \<and> map l_amount (entry_lines db' (e_id e)) = map pl_amount ls)"
proof -
  note P = post_for_event_entry[OF env inv post]
  have orig: "e_reverses e = None" by (rule event_key_original[OF P(7,1,6)])
  have "originals db' = insert e (originals db)"
    using P(1,2,8) orig by (auto simp: originals_def live_in_def split: if_splits)
  moreover have "e \<in> originals db \<or> e_effective_at e = d \<and> map l_amount (entry_lines db' (e_id e)) = map pl_amount ls"
  proof (cases "e \<in> set (db_entries db)")
    case False
    then have "e_effective_at e = d \<and> list_all2 (\<lambda>l gl. l_amount gl = pl_amount l) ls (entry_lines db' (e_id e))"
      using post_writes[OF env inv post] by (auto simp: event_of_def elim: list_all2_mono)
    moreover have "list_all2 (\<lambda>l gl. l_amount gl = pl_amount l) xs ys \<Longrightarrow> map l_amount ys = map pl_amount xs" for xs ys
      by (induction rule: list_all2_induct) auto
    ultimately show ?thesis by blast
  qed (use P(2) orig in \<open>simp add: originals_def live_in_def\<close>)
  ultimately show ?thesis using P by simp
qed

section \<open>Steps outside the journal, and lines that stay\<close>

definition journal_frame :: "gl_db \<Rightarrow> gl_db \<Rightarrow> bool" where
  "journal_frame db db' \<longleftrightarrow> db_entries db' = db_entries db \<and> db_lines db' = db_lines db \<and> db_uuid db \<le> db_uuid db'"

interpretation untouched: tracked journal_frame
  by unfold_locales (auto simp: journal_frame_def)

lemma journal_frameD:
  assumes "journal_frame db db'" "ledger_inv db"
  shows "ledger_inv db'" "originals db' = originals db"
  using assms ledger_inv_frame[of db' db] by (auto simp: journal_frame_def originals_def live_in_def)

definition lines_kept :: "gl_db \<Rightarrow> gl_db \<Rightarrow> bool" where
  "lines_kept db db' \<longleftrightarrow> db_uuid db \<le> db_uuid db' \<and> (\<forall>u < db_uuid db. entry_lines db' u = entry_lines db u)"

interpretation kept: tracked lines_kept
proof
  show "lines_kept s s" for s by (simp add: lines_kept_def)
  show "lines_kept s t \<Longrightarrow> lines_kept t u \<Longrightarrow> lines_kept s u" for s t u
    by (force simp: lines_kept_def)
qed

lemma frame_lines_kept: "journal_frame db db' \<Longrightarrow> lines_kept db db'"
  by (simp add: journal_frame_def lines_kept_def entry_lines_def)

lemma check_period_lock_frames: "tracks journal_frame (check_period_lock c d ov by k)"
  by (auto simp: tracks_def journal_frame_def check_period_lock_def split: option.splits)

lemma seed_coa_frames: "tracks journal_frame (seed_coa c)"
  by (simp add: tracks_def journal_frame_def snd_seed_coa add_rows_def)

lemma ensure_role_account_frames: "tracks journal_frame (ensure_role_account c r)"
  unfolding tracks_def
proof
  fix db show "journal_frame db (snd (ensure_role_account c r db))"
    using ensure_role_account_snd[of c r db] seed_coa_frames untouched.R_refl unfolding tracks_def by metis
qed

lemma resolve_lines_frames: "tracks journal_frame (resolve_lines c ls)"
  unfolding resolve_lines_def resolve_line_def by (intro untouched.tracks_rules ensure_role_account_frames)

lemma tracks_mono: "tracks R m \<Longrightarrow> (\<And>s t. R s t \<Longrightarrow> Q s t) \<Longrightarrow> tracks Q m"
  by (simp add: tracks_def)

lemma insert_entry_kept: "tracks lines_kept (insert_entry env c d st sid key rv by rs)"
  by (auto simp: tracks_def insert_entry_cases lines_kept_def Let_def grown_def spent_ids_def entry_lines_def mk_line_def
      split: prod.splits)

lemma post_for_event_kept: "tracks lines_kept (post_for_event env ov ev)"
  unfolding post_for_event_def post_for_event_among_def
  by (intro kept.tracks_rules post_loop_tracks[OF kept.tracked_axioms] insert_entry_kept
      tracks_mono[OF resolve_lines_frames frame_lines_kept] tracks_mono[OF check_period_lock_frames frame_lines_kept])

lemma reverse_entry_kept: "tracks lines_kept (reverse_entry env x eff by ov)"
proof (rule reverse_entry_tracks[OF kept.tracked_axioms])
  show "tracks lines_kept (check_period_lock c d ov by k)" for c d k
    by (rule tracks_mono[OF check_period_lock_frames frame_lines_kept])
  show "lines_kept db (mark_reversed u r db)" for u r db by (simp add: lines_kept_def mark_reversed_def entry_lines_def)
qed (rule tracksD[OF insert_entry_kept])

section \<open>One bank account\<close>

definition of_bank :: "string \<Rightarrow> uuid \<Rightarrow> gl_entry \<Rightarrow> bool" where
  "of_bank company u e \<longleftrightarrow> e_company e = company \<and> e_source_type e = Some ''bank_account'' \<and> e_source_id e = Some (uuid_str u)"

lemma set_live_bank_entries: "set (live_bank_entries db company u) = {e \<in> originals db. of_bank company u e}"
  by (auto simp: live_bank_entries_def originals_def live_in_def of_bank_def)

lemma distinct_live_bank_entries: "ledger_inv db \<Longrightarrow> distinct (live_bank_entries db company u)"
  using ledger_invD(1)[of db] by (simp add: live_bank_entries_def distinct_map)

lemma of_bank_inject: "of_bank company u e \<Longrightarrow> of_bank company v e \<Longrightarrow> u = v"
  by (simp add: of_bank_def)

text \<open>The live entries of a bank account after it was opened with a balance: none for zero, else one, live before or posted with it.\<close>

definition settled :: "string \<Rightarrow> gl_db \<Rightarrow> gl_db \<Rightarrow> uuid \<Rightarrow> int \<Rightarrow> bool" where
  "settled company db0 db u c \<longleftrightarrow>
     (if c = 0 then {e \<in> originals db. of_bank company u e} = {}
      else \<exists>e. {e \<in> originals db. of_bank company u e} = {e} \<and>
        (e \<in> originals db0 \<or> map l_amount (entry_lines db (e_id e)) = [c, - c]))"

lemma post_bank_opening_Inr:
  assumes "post_bank_opening env company bank cutover c acct ct name actor db = (Inr (fresh, stale), db')"
  obtains db1 where
    "(if c \<noteq> 0 then andthen (post_for_event env False (opening_event company bank cutover c acct ct name actor)) (\<lambda>e. ok (Some e)) else ok None) db =
       (Inr fresh, db1)"
    "stale = filter (\<lambda>e. fresh \<noteq> None \<longrightarrow> e_id e \<noteq> e_id (the fresh)) (live_bank_entries db1 company bank)"
    "reverse_entries env actor stale db1 = (Inr (), db')"
proof -
  let ?post = "if c \<noteq> 0 then andthen (post_for_event env False (opening_event company bank cutover c acct ct name actor)) (\<lambda>e. ok (Some e)) else ok None"
  obtain f db1 where f: "?post db = (Inr f, db1)" and rest: "andthen (asks (\<lambda>db. filter (\<lambda>e. f \<noteq> None \<longrightarrow> e_id e \<noteq> e_id (the f)) (live_bank_entries db company bank)))
      (\<lambda>stale. andthen (reverse_entries env actor stale) (\<lambda>_. ok (f, stale))) db1 = (Inr (fresh, stale), db')"
    using assms unfolding post_bank_opening_def andthen_Inr[of ?post] by blast
  show thesis using that[of db1] f rest by (auto simp: andthen_Inr asks_def ok_def)
qed

lemma post_bank_opening_settles:
  assumes env: "digest_ok env" and inv: "ledger_inv db"
    and run: "post_bank_opening env company bank cutover c acct ct name actor db = (Inr (fresh, stale), db')"
  shows "ledger_inv db' \<and> lines_kept db db' \<and> settled company db db' bank c \<and>
    (\<forall>e. \<not> of_bank company bank e \<longrightarrow> (e \<in> originals db' \<longleftrightarrow> e \<in> originals db)) \<and>
    (\<forall>e \<in> originals db'. e \<in> originals db \<or> e_effective_at e = cutover)"
proof -
  let ?post = "if c \<noteq> 0 then andthen (post_for_event env False (opening_event company bank cutover c acct ct name actor)) (\<lambda>e. ok (Some e)) else ok None"
  obtain db1 where 1: "?post db = (Inr fresh, db1)"
    and st: "stale = filter (\<lambda>e. fresh \<noteq> None \<longrightarrow> e_id e \<noteq> e_id (the fresh)) (live_bank_entries db1 company bank)"
    and 2: "reverse_entries env actor stale db1 = (Inr (), db')"
    by (rule post_bank_opening_Inr[OF run])
  have "tracks lines_kept ?post" by (intro kept.tracks_rules post_for_event_kept)
  from tracksD[OF this 1] have k1: "lines_kept db db1" .
  have "tracks lines_kept (reverse_entries env actor stale)"
    unfolding reverse_entries_def by (intro kept.tracks_rules reverse_entry_kept)
  from tracksD[OF this 2] have k2: "lines_kept db1 db'" .
  have F: "ledger_inv db1 \<and> originals db1 = originals db \<union> set_option fresh \<and> (fresh = None \<longleftrightarrow> c = 0) \<and>
      (\<forall>e. fresh = Some e \<longrightarrow> of_bank company bank e \<and>
         (e \<in> originals db \<or> e_effective_at e = cutover \<and> map l_amount (entry_lines db1 (e_id e)) = [c, - c]))"
  proof (cases "c = 0")
    case True
    then show ?thesis using 1 inv by (auto simp: ok_def)
  next
    case False
    then obtain e where e: "fresh = Some e" "post_for_event env False (opening_event company bank cutover c acct ct name actor) db = (Inr e, db1)"
      using 1 by (auto simp: andthen_Inr ok_def)
    from post_originals[OF env inv e(2)[unfolded opening_event_def]] False e(1) show ?thesis
      by (auto simp: of_bank_def)
  qed
  have inv1: "ledger_inv db1" using F by simp
  have live: "x \<in> set (db_entries db1)" if "x \<in> originals db1" for x using that by (simp add: originals_def live_in_def)
  have stale: "set stale = {e \<in> originals db1. of_bank company bank e} - set_option fresh"
  proof (cases fresh)
    case None
    then show ?thesis unfolding st by (simp add: set_live_bank_entries)
  next
    case (Some f)
    then have f: "f \<in> originals db1" using F by simp
    have "e_id x = e_id f \<longleftrightarrow> x = f" if "x \<in> originals db1" for x using entry_id_inject[OF inv1 live[OF that] live[OF f]] by auto
    then show ?thesis unfolding st Some by (auto simp: set_live_bank_entries)
  qed
  have "distinct stale" unfolding st using distinct_live_bank_entries[OF inv1] by simp
  from reverse_entries_originals[OF inv1 this _ 2] stale
  have o: "ledger_inv db'" "originals db' = originals db1 - ({e \<in> originals db1. of_bank company bank e} - set_option fresh)" by auto
  have bank: "{e \<in> originals db'. of_bank company bank e} = set_option fresh" unfolding o(2) using F by auto
  have "entry_lines db' (e_id e) = entry_lines db1 (e_id e)" if "fresh = Some e" for e
    using k2 ledger_invD(3)[OF inv1 live, of e] F that by (simp add: lines_kept_def)
  then have "settled company db db' bank c" unfolding settled_def bank using F by (cases fresh) auto
  moreover have "e \<in> originals db' \<longleftrightarrow> e \<in> originals db" if "\<not> of_bank company bank e" for e
    unfolding o(2) using F that by (cases fresh) auto
  moreover have "e \<in> originals db \<or> e_effective_at e = cutover" if "e \<in> originals db'" for e
    using F that unfolding o(2) by (cases fresh) auto
  ultimately show ?thesis using o(1) kept.R_trans[OF k1 k2] by blast
qed

lemma bank_gl_account_frames: "tracks journal_frame (bank_gl_account company operating idx mapped name next_code)"
proof -
  have "tracks journal_frame (change (rename_account u n))" for u n
    by (intro untouched.tracks_change) (simp add: journal_frame_def rename_account_def)
  moreover have "tracks journal_frame (new_bank_gl company name next_code)"
    by (simp add: tracks_def journal_frame_def new_bank_gl_def Let_def)
  ultimately show ?thesis unfolding bank_gl_account_def by (intro untouched.tracks_rules)
qed

lemma on_books_Inr: "on_books m b = (Inr x, b') \<longleftrightarrow> (\<exists>db'. m (bb_gl b) = (Inr x, db') \<and> b' = b\<lparr>bb_gl := db'\<rparr>)"
  by (auto simp: on_books_def split: prod.splits sum.splits)

lemma open_usable_Inr:
  assumes "open_usable env company actor cutover operating idx next_code ba name ct c b = (Inr r, b')"
  obtains x db1 y db2 where "bank_gl_account company operating idx (ba_gl_account ba) name next_code (bb_gl b) = (Inr x, db1)"
    "post_bank_opening env company (ba_id ba) cutover c (snd x) ct name actor db1 = (Inr y, db2)" "bb_gl b' = db2"
  using assms unfolding open_usable_def andthen_Inr on_books_Inr change_def ok_def set_bank_gl_def by auto

lemma open_bank_account_settles:
  assumes env: "digest_ok env" and inv: "ledger_inv (bb_gl b)"
    and run: "open_bank_account env company actor cutover operating (Usable bank name stmts c) acc b = (Inr acc', b')"
  shows "ledger_inv (bb_gl b') \<and> lines_kept (bb_gl b) (bb_gl b') \<and> settled company (bb_gl b) (bb_gl b') bank c \<and>
    (\<forall>e. \<not> of_bank company bank e \<longrightarrow> (e \<in> originals (bb_gl b') \<longleftrightarrow> e \<in> originals (bb_gl b))) \<and>
    (\<forall>e \<in> originals (bb_gl b'). e \<in> originals (bb_gl b) \<or> e_effective_at e = cutover)"
proof -
  obtain ba r where ba: "first (filter (\<lambda>a. ba_id a = bank) (bb_accounts b)) = Some ba"
    and r: "open_usable env company actor cutover operating (oa_idx acc) (oa_code acc) ba name (isoformat (st_end (last stmts))) c b = (Inr r, b')"
    using run by (auto simp: open_bank_account_def andthen_Inr asks_def throw_def ok_def split: option.splits)
  have id: "ba_id ba = bank" using first_in_set[OF ba] by simp
  obtain x db1 y db2 where 1: "bank_gl_account company operating (oa_idx acc) (ba_gl_account ba) name (oa_code acc) (bb_gl b) = (Inr x, db1)"
    and y: "post_bank_opening env company (ba_id ba) cutover c (snd x) (isoformat (st_end (last stmts))) name actor db1 = (Inr y, db2)"
    and b': "bb_gl b' = db2" by (rule open_usable_Inr[OF r])
  obtain fresh old where fo: "y = (fresh, old)" by (cases y)
  note 2 = y[unfolded fo id]
  have f: "journal_frame (bb_gl b) db1" by (rule tracksD[OF bank_gl_account_frames 1])
  note k = journal_frameD[OF f inv]
  show ?thesis
    using post_bank_opening_settles[OF env k(1) 2] kept.R_trans[OF frame_lines_kept[OF f]] unfolding settled_def k(2) b' by blast
qed

section \<open>The whole opening\<close>

definition banks_of :: "account_proposal list \<Rightarrow> (uuid \<times> int) list" where
  "banks_of ps = concat (map (\<lambda>x. case x of Unusable _ _ _ \<Rightarrow> [] | Usable u _ _ c \<Rightarrow> [(u, c)]) ps)"

lemma open_bank_accounts_settle:
  assumes env: "digest_ok env" and inv: "ledger_inv (bb_gl b)" and ids: "distinct (map fst (banks_of ps))"
    and run: "fold_sem (open_bank_account env company actor cutover operating) ps acc b = (Inr acc', b')"
  shows "ledger_inv (bb_gl b') \<and> lines_kept (bb_gl b) (bb_gl b') \<and>
    (\<forall>(u, c) \<in> set (banks_of ps). settled company (bb_gl b) (bb_gl b') u c) \<and>
    (\<forall>e. (\<forall>(u, c) \<in> set (banks_of ps). \<not> of_bank company u e) \<longrightarrow> (e \<in> originals (bb_gl b') \<longleftrightarrow> e \<in> originals (bb_gl b))) \<and>
    (\<forall>e \<in> originals (bb_gl b'). e \<in> originals (bb_gl b) \<or> e_effective_at e = cutover)"
  using inv ids run
proof (induction ps arbitrary: b acc)
  case Nil
  then show ?case by (simp add: banks_of_def ok_def kept.R_refl)
next
  case (Cons p ps)
  obtain acc1 b1 where 1: "open_bank_account env company actor cutover operating p acc b = (Inr acc1, b1)"
    and 2: "fold_sem (open_bank_account env company actor cutover operating) ps acc1 b1 = (Inr acc', b')"
    using Cons.prems(3) by (auto simp: andthen_Inr)
  show ?case
  proof (cases p)
    case (Unusable u n r)
    then have "b1 = b" using 1 by (auto simp: open_bank_account_def ok_def split: prod.splits)
    then show ?thesis using Cons.IH[of b acc1] Cons.prems(1,2) 2 by (simp add: banks_of_def Unusable)
  next
    case (Usable u n stmts c)
    note A = open_bank_account_settles[OF env Cons.prems(1) 1[unfolded Usable]]
    have banks: "banks_of (p # ps) = (u, c) # banks_of ps" by (simp add: banks_of_def Usable)
    have B: "ledger_inv (bb_gl b') \<and> lines_kept (bb_gl b1) (bb_gl b') \<and>
      (\<forall>(u, c) \<in> set (banks_of ps). settled company (bb_gl b1) (bb_gl b') u c) \<and>
      (\<forall>e. (\<forall>(u, c) \<in> set (banks_of ps). \<not> of_bank company u e) \<longrightarrow> (e \<in> originals (bb_gl b') \<longleftrightarrow> e \<in> originals (bb_gl b1))) \<and>
      (\<forall>e \<in> originals (bb_gl b'). e \<in> originals (bb_gl b1) \<or> e_effective_at e = cutover)"
      using Cons.IH[OF _ _ 2] A Cons.prems(2) unfolding banks by simp
    have fresh: "v \<noteq> u" if "(v, d) \<in> set (banks_of ps)" for v d using Cons.prems(2) that unfolding banks by force
    have mine: "{e \<in> originals (bb_gl b'). of_bank company u e} = {e \<in> originals (bb_gl b1). of_bank company u e}"
      using B fresh of_bank_inject by blast
    have "entry_lines (bb_gl b') (e_id e) = entry_lines (bb_gl b1) (e_id e)" if "e \<in> originals (bb_gl b1)" for e
      using that B A ledger_invD(3)[of "bb_gl b1" e] by (auto simp: lines_kept_def originals_def live_in_def)
    then have "settled company (bb_gl b) (bb_gl b') u c"
      using A unfolding settled_def mine by (smt (verit) insertI1 mem_Collect_eq)
    moreover have "settled company (bb_gl b) (bb_gl b') v d" if vd: "(v, d) \<in> set (banks_of ps)" for v d
    proof -
      have "settled company (bb_gl b1) (bb_gl b') v d" using B vd by blast
      moreover have "e \<in> originals (bb_gl b1) \<longleftrightarrow> e \<in> originals (bb_gl b)" if "of_bank company v e" for e
        using A fresh[OF vd] of_bank_inject[OF that] by blast
      ultimately show ?thesis unfolding settled_def by (auto split: if_splits)
    qed
    ultimately show ?thesis
      unfolding banks using A B kept.R_trans[of "bb_gl b" "bb_gl b1" "bb_gl b'"] by auto
  qed
qed

text \<open>The anchors of the opening phase: invoice entries dated at the company's cutover.\<close>

definition anchors_only :: "gl_db \<Rightarrow> gl_db \<Rightarrow> bool" where
  "anchors_only db db' \<longleftrightarrow> same_workflow db db' \<and> (ledger_inv db \<longrightarrow> ledger_inv db' \<and> originals db \<subseteq> originals db' \<and>
     (\<forall>e \<in> originals db' - originals db. e_source_type e = Some ''invoice'' \<and> cutover_date db (e_company e) = Some (e_effective_at e)))"

interpretation anchors: tracked anchors_only
proof
  show "anchors_only s s" for s by (simp add: anchors_only_def workflow.R_refl)
  fix s t u assume a: "anchors_only s t" "anchors_only t u"
  then have "cutover_date t = cutover_date s"
    by (simp add: fun_eq_iff anchors_only_def same_workflow_def cutover_date_def get_gl_settings_def)
  then show "anchors_only s u" using a workflow.R_trans[of s t u] unfolding anchors_only_def by auto
qed

lemma post_opening_balance_anchors: "digest_ok env \<Longrightarrow> tracks anchors_only (post_opening_balance env iv actor)"
  unfolding tracks_def
proof
  fix db assume env: "digest_ok env"
  show "anchors_only db (snd (post_opening_balance env iv actor db))"
  proof (cases "snd (post_opening_balance env iv actor db) = db")
    case False
    then obtain cutover ls q db' where cut: "cutover_date db (i_company iv) = Some cutover"
      and post: "post_for_event env False (event_of (i_company iv) ''invoice'' (i_id iv) EVENT_OPENING cutover ls actor) db = (q, db')"
      and db': "snd (post_opening_balance env iv actor db) = db'"
      by (auto simp: post_opening_balance_def andthen_def reads_def asks_def ok_def Let_def split: option.splits prod.splits sum.splits if_splits)
    have w: "same_workflow db db'" by (rule tracksD[OF post_for_event_workflow post])
    have "ledger_inv db' \<and> originals db \<subseteq> originals db' \<and> (\<forall>e \<in> originals db' - originals db.
        e_source_type e = Some ''invoice'' \<and> cutover_date db (e_company e) = Some (e_effective_at e))" if inv: "ledger_inv db"
    proof (cases q)
      case (Inr e)
      then show ?thesis using post_originals[OF env inv post[unfolded Inr]] cut by auto
    next
      case (Inl x)
      have "db_entries db' = db_entries db" using env inv post Inl by (cases rule: post_for_event_cases) auto
      then show ?thesis using inv_sound[OF tracksD[OF post_for_event_tracks[OF env] post] inv] by (auto simp: originals_def live_in_def)
    qed
    then show ?thesis using w by (simp add: anchors_only_def db')
  qed (simp add: anchors.R_refl)
qed

lemma run_opening_anchors: "digest_ok env \<Longrightarrow> tracks anchors_only (run_opening env company)"
proof -
  assume env: "digest_ok env"
  have "tracks anchors_only (ensure_cutover_lock c d)" for c d
    by (auto simp: tracks_def anchors_only_def ensure_cutover_lock_def Let_def same_workflow_def originals_def live_in_def
        split: option.splits intro: ledger_inv_frame[rotated 3])
  then show ?thesis
    unfolding run_opening_def open_invoice_def require_cutover_def Let_def
    by (intro anchors.tracks_rules anchors.tracks_fold_sem post_opening_balance_anchors env)
qed

lemma run_opening_kept: "tracks lines_kept (run_opening env company)"
proof -
  have "tracks lines_kept (ensure_cutover_lock c d)" for c d
    by (auto simp: tracks_def lines_kept_def ensure_cutover_lock_def Let_def entry_lines_def split: option.splits)
  then show ?thesis
    unfolding run_opening_def open_invoice_def require_cutover_def post_opening_balance_def Let_def
    by (intro kept.tracks_rules kept.tracks_fold_sem post_for_event_kept)
qed

lemma ensure_gl_settings_frames: "tracks journal_frame (ensure_gl_settings c)"
  by (auto simp: tracks_def journal_frame_def ensure_gl_settings_def put_settings_def Let_def split: option.splits sum.splits)

lemma ensure_gl_seed_frames: "tracks journal_frame (ensure_gl_seed c)"
  unfolding ensure_gl_seed_def by (intro untouched.tracks_rules seed_coa_frames ensure_gl_settings_frames)

lemma set_pre_cutover: "set (pre_cutover_live_entries db company d) = {e \<in> originals db. e_company e = company \<and> e_effective_at e < d}"
  by (auto simp: pre_cutover_live_entries_def originals_def live_in_def)

lemma distinct_singleton_set: "distinct xs \<Longrightarrow> set xs = {x} \<Longrightarrow> xs = [x]"
  by (cases xs; cases "tl xs") auto

lemma banks_of_banks: "propose_opening b company = Inr p \<Longrightarrow> distinct (map ba_id (bb_accounts b)) \<Longrightarrow> distinct (map fst (banks_of (po_accounts p)))"
proof -
  assume p: "propose_opening b company = Inr p" and d: "distinct (map ba_id (bb_accounts b))"
  obtain staged where st: "staged = map (\<lambda>a. (a, evidence_of b a)) (sort_key bank_order (bb_accounts b))"
    and acc: "po_accounts p = map (account_proposal_of (po_cutover p)) staged" by (rule propose_opening_Inr[OF p]) blast
  have "distinct (map ba_id (sort_key bank_order (bb_accounts b)))" using d by (simp add: distinct_map)
  then have "distinct (map (ba_id \<circ> fst) staged)" unfolding st by (simp add: comp_def)
  moreover have "map fst (banks_of (map (account_proposal_of d) staged)) =
      map (ba_id \<circ> fst) (filter (\<lambda>x. \<exists>stmts cs. snd x = Chain stmts cs) staged)" for d
    by (induction staged) (auto simp: banks_of_def account_proposal_of_def split: evidence.splits)
  ultimately show ?thesis unfolding acc by (simp add: distinct_map_filter)
qed

lemma settings_kept:
  "tracks same_workflow (bank_gl_account company operating idx mapped name next_code)"
  "tracks same_workflow (post_bank_opening env company bank cutover c acct ct name actor)"
proof -
  have "tracks same_workflow (change (rename_account u n))" for u n
    by (intro workflow.tracks_change) (simp add: same_workflow_def rename_account_def)
  moreover have "tracks same_workflow (new_bank_gl company name next_code)"
    by (simp add: tracks_def same_workflow_def new_bank_gl_def Let_def)
  ultimately show "tracks same_workflow (bank_gl_account company operating idx mapped name next_code)"
    unfolding bank_gl_account_def by (intro workflow.tracks_rules)
  show "tracks same_workflow (post_bank_opening env company bank cutover c acct ct name actor)"
    unfolding post_bank_opening_def reverse_entries_def by (intro workflow.tracks_rules tracking)
qed

lemma open_bank_accounts_workflow:
  "fold_sem (open_bank_account env company actor cutover operating) ps acc b = (Inr acc', b') \<Longrightarrow> same_workflow (bb_gl b) (bb_gl b')"
proof (induction ps arbitrary: b acc)
  case (Cons p ps)
  obtain acc1 b1 where 1: "open_bank_account env company actor cutover operating p acc b = (Inr acc1, b1)"
    and 2: "fold_sem (open_bank_account env company actor cutover operating) ps acc1 b1 = (Inr acc', b')"
    using Cons.prems by (auto simp: andthen_Inr)
  have "same_workflow (bb_gl b) (bb_gl b1)"
  proof (cases p)
    case (Unusable u n r)
    then show ?thesis using 1 by (simp add: open_bank_account_def ok_def workflow.R_refl)
  next
    case (Usable u n stmts c)
    then obtain ba r where "open_usable env company actor cutover operating (oa_idx acc) (oa_code acc) ba n (isoformat (st_end (last stmts))) c b = (Inr r, b1)"
      using 1 by (auto simp: open_bank_account_def andthen_Inr asks_def throw_def ok_def split: option.splits)
    then obtain x db1 y db2 where s: "bank_gl_account company operating (oa_idx acc) (ba_gl_account ba) n (oa_code acc) (bb_gl b) = (Inr x, db1)"
      "post_bank_opening env company (ba_id ba) cutover c (snd x) (isoformat (st_end (last stmts))) n actor db1 = (Inr y, db2)" "bb_gl b1 = db2"
      by (rule open_usable_Inr)
    show ?thesis unfolding s(3)
      by (rule workflow.R_trans[OF tracksD[OF settings_kept(1) s(1)] tracksD[OF settings_kept(2) s(2)]])
  qed
  then show ?case using Cons.IH[OF 2] workflow.R_trans by blast
qed (simp add: ok_def workflow.R_refl)

lemma cutover_set:
  assumes "get_gl_settings db company \<noteq> None"
  shows "cutover_date (set_cutover company d db) company = Some d"
proof -
  have "filter (\<lambda>s. s_company s = company) (map (\<lambda>s. if s_company s = company then s\<lparr>s_cutover := Some d\<rparr> else s) ss) =
      map (\<lambda>s. s\<lparr>s_cutover := Some d\<rparr>) (filter (\<lambda>s. s_company s = company) ss)" for ss :: "gl_settings list"
    by (induction ss) auto
  then show ?thesis using assms
    by (cases "filter (\<lambda>s. s_company s = company) (db_settings db)") (auto simp: cutover_date_def get_gl_settings_def set_cutover_def)
qed

lemma apply_opening_Inr:
  assumes "apply_opening env company actor ec er b = (Inr r, b')"
  obtains p settings db1 db2 bank_acct acc b3 anchors db5 where
    "propose_opening b company = Inr p" "ensure_gl_seed company (bb_gl b) = (Inr settings, db1)"
    "reverse_entries env actor (pre_cutover_live_entries db1 company (po_cutover p)) db1 = (Inr (), db2)"
    "fold_sem (open_bank_account env company actor (po_cutover p) bank_acct) (po_accounts p)
       \<lparr>oa_idx = 0, oa_code = 1010, oa_entries = [], oa_stale = []\<rparr> (b\<lparr>bb_gl := set_cutover company (po_cutover p) db2\<rparr>) = (Inr acc, b3)"
    "run_opening env company (ensure_exact_lock company (add_days (po_cutover p) (- 1)) (bb_gl b3)) = (Inr anchors, db5)"
    "bb_gl b' = db5" "opn_cutover r = po_cutover p"
proof -
  obtain p where p: "propose_opening b company = Inr p" "check_review ec er p = Inr ()"
    using assms by (auto simp: apply_opening_def andthen_Inr reads_def lift_def)
  obtain settings db1 where s: "ensure_gl_seed company (bb_gl b) = (Inr settings, db1)"
    using assms p by (auto simp: apply_opening_def andthen_Inr reads_def lift_def on_books_Inr)
  let ?fold = "\<lambda>bank_acct. fold_sem (open_bank_account env company actor (po_cutover p) bank_acct) (po_accounts p)
    \<lparr>oa_idx = 0, oa_code = 1010, oa_entries = [], oa_stale = []\<rparr>"
  have at: "bb_gl (attest env company actor x) = bb_gl x" for x by (simp add: attest_def)
  have "\<exists>db2 bank_acct acc b3 anchors db5.
      reverse_entries env actor (pre_cutover_live_entries db1 company (po_cutover p)) db1 = (Inr (), db2) \<and>
      ?fold bank_acct (b\<lparr>bb_gl := set_cutover company (po_cutover p) db2\<rparr>) = (Inr acc, b3) \<and>
      run_opening env company (ensure_exact_lock company (add_days (po_cutover p) (- 1)) (bb_gl b3)) = (Inr anchors, db5) \<and>
      bb_gl b' = db5 \<and> opn_cutover r = po_cutover p"
    using assms p s
    by (auto simp: apply_opening_def andthen_Inr reads_def lift_def on_books_Inr asks_def change_def ok_def throw_def at split: if_splits)
      (intro exI conjI, assumption+)+
  then show thesis using that[OF p(1) s] by blast
qed


section \<open>A checking account with two statements\<close>

definition monthly_statement :: "nat \<Rightarrow> nat \<Rightarrow> int \<Rightarrow> int \<Rightarrow> statement" where
  "monthly_statement m d beginning ending =
     \<lparr>st_account = 7, st_start = Date 2026 m 1, st_end = Date 2026 m d, st_beginning = beginning, st_ending = ending,
      st_tie_out = ''passed'', st_voided_at = None, st_created_at = Datetime (Date 2026 5 2) 0\<rparr>"

definition sample_books :: bank_books where
  "sample_books =
     \<lparr>bb_gl = empty_db\<lparr>db_settings := [(fresh_settings ''gdx'')\<lparr>s_enabled := True\<rparr>]\<rparr>,
      bb_accounts = [\<lparr>ba_id = 7, ba_name = ''Operating'', ba_kind = ''checking'', ba_last4 = ''1234'', ba_gl_account = None\<rparr>],
      bb_statements = [monthly_statement 3 31 0 50000, monthly_statement 4 30 50000 72500], bb_attested = []\<rparr>"

lemma sample_books_inv: "ledger_inv (bb_gl sample_books)"
  by (rule ledger_inv_frame[OF _ _ _ ledger_inv_empty]) (simp_all add: sample_books_def empty_db_def)

lemma sample_books_ids: "distinct (map ba_id (bb_accounts sample_books))"
  by (simp add: sample_books_def)

lemma sample_books_covering: "covering (bb_statements sample_books)"
  by code_simp

lemma sample_proposal:
  "map_sum id (\<lambda>p. (po_cutover p, map (\<lambda>(u, stmts, c). (u, c)) (proved_accounts p))) (propose_opening sample_books ''gdx'') =
     Inr (Date 2026 5 1, [(7, 72500)])"
  by code_simp

lemma sample_opening_runs:
  "map_sum id opn_cutover (fst (apply_opening sample_env ''gdx'' None None None sample_books)) = Inr (Date 2026 5 1)"
  by code_simp

theorem proposal_is_latest_proved_witness:
  "\<exists>p. propose_opening sample_books ''gdx'' = Inr p \<and> po_cutover p = Date 2026 5 1 \<and>
     (\<forall>(u, stmts, c) \<in> set (proved_accounts p). chained stmts \<and> (\<exists>s \<in> set stmts. proves s (Date 2026 5 1) c))"
proof -
  obtain p where p: "propose_opening sample_books ''gdx'' = Inr p" "po_cutover p = Date 2026 5 1"
    using sample_proposal by (cases "propose_opening sample_books ''gdx''") auto
  with proposal_is_latest_proved[OF sample_books_covering p(1)] show ?thesis by auto
qed


end
