(* ===== verification/Invoice_Void.thy ===== *)
theory Invoice_Void
  imports Ledger_Repair
begin

text \<open>
  \<^verbatim>\<open>core/invoice_void.py\<close>: the one void of an invoice, with everything it touches outside the ledger: the parts, change
  orders, closeout hours and day rows it billed (\<^verbatim>\<open>core/closeout_billing.py\<close>), an active payment plan, the audit trail and
  the sweep of stale payment intents.  The theorems say when a void is refused, that a refusal leaves nothing behind, that a void
  gives back exactly the claims of its invoice, and what it leaves of the invoice's receivable on the ledger.
\<close>

section \<open>The rows around the ledger\<close>

text \<open>A part needed, a change order, a closeout or a day row, with the invoice that billed it.\<close>

record billable =
  b_id :: uuid
  b_billed_invoice :: "uuid option"

record payment_plan =
  pp_id :: uuid
  pp_invoice :: uuid
  pp_status :: string
  pp_created_at :: datetime
  pp_cancelled_at :: "datetime option"
  pp_cancelled_by :: "string option"

datatype trail =
    LaborCloseoutReleased string uuid nat string
  | LaborDayRowsReleased string uuid nat string
  | PaymentPlanCancelled string uuid uuid string
  | InvoiceVoided string uuid "decimal option" nat nat nat "string option"

record office =
  of_gl :: gl_db
  of_parts :: "billable list"
  of_change_orders :: "billable list"
  of_closeouts :: "billable list"
  of_time_entries :: "billable list"
  of_plans :: "payment_plan list"
  of_trail :: "trail list"
  of_sweeps :: "uuid list"

datatype void_exn = InvoiceVoidRefused nat string | VoidError exn

type_synonym 'a off = "(office, void_exn, 'a) sem"

definition on_ledger :: "'a gl \<Rightarrow> 'a off" where
  "on_ledger m = (\<lambda>o1. case m (of_gl o1) of
     (Inl x, db) \<Rightarrow> (Inl (VoidError x), o1\<lparr>of_gl := db\<rparr>) | (Inr y, db) \<Rightarrow> (Inr y, o1\<lparr>of_gl := db\<rparr>))"

definition add_trail :: "trail \<Rightarrow> office \<Rightarrow> office" where
  "add_trail t o1 = o1\<lparr>of_trail := of_trail o1 @ [t]\<rparr>"

section \<open>Giving claims back\<close>

definition release_stamps :: "uuid \<Rightarrow> billable list \<Rightarrow> nat \<times> billable list" where
  "release_stamps i rows =
     (length (filter (\<lambda>b. b_billed_invoice b = Some i) rows),
      map (\<lambda>b. if b_billed_invoice b = Some i then b\<lparr>b_billed_invoice := None\<rparr> else b) rows)"

definition release_closeout_hours :: "invoice \<Rightarrow> string \<Rightarrow> string \<Rightarrow> nat off" where
  "release_closeout_hours iv actor why = (\<lambda>o1.
     let (released, rows) = release_stamps (i_id iv) (of_closeouts o1); o2 = o1\<lparr>of_closeouts := rows\<rparr>
     in (Inr released, if released \<noteq> 0 then add_trail (LaborCloseoutReleased actor (i_id iv) released why) o2 else o2))"

definition release_day_rows :: "invoice \<Rightarrow> string \<Rightarrow> string \<Rightarrow> nat off" where
  "release_day_rows iv actor why =
     andthen (release_closeout_hours iv actor why) (\<lambda>_ o1.
     let (released, rows) = release_stamps (i_id iv) (of_time_entries o1); o2 = o1\<lparr>of_time_entries := rows\<rparr>
     in (Inr released, if released \<noteq> 0 then add_trail (LaborDayRowsReleased actor (i_id iv) released why) o2 else o2))"

definition release_parts :: "invoice \<Rightarrow> nat off" where
  "release_parts iv = (\<lambda>o1. let (n, rows) = release_stamps (i_id iv) (of_parts o1) in (Inr n, o1\<lparr>of_parts := rows\<rparr>))"

definition release_change_orders :: "invoice \<Rightarrow> nat off" where
  "release_change_orders iv = (\<lambda>o1. let (n, rows) = release_stamps (i_id iv) (of_change_orders o1) in (Inr n, o1\<lparr>of_change_orders := rows\<rparr>))"

definition live_plan :: "uuid \<Rightarrow> office \<Rightarrow> payment_plan option" where
  "live_plan i o1 = first (rev (sort_key pp_created_at (filter (\<lambda>p. pp_invoice p = i \<and> pp_status p = ''active'') (of_plans o1))))"

definition cancel_plan :: "gl_env \<Rightarrow> invoice \<Rightarrow> string \<Rightarrow> unit off" where
  "cancel_plan env iv actor = (\<lambda>o1.
     case live_plan (i_id iv) o1 of
       None \<Rightarrow> (Inr (), o1)
     | Some p \<Rightarrow>
         (Inr (), add_trail (PaymentPlanCancelled actor (i_id iv) (pp_id p) ''invoice voided'')
            (o1\<lparr>of_plans := map (\<lambda>q. if pp_id q = pp_id p
               then q\<lparr>pp_status := ''cancelled'', pp_cancelled_at := Some (now_utc env), pp_cancelled_by := Some actor\<rparr> else q)
               (of_plans o1)\<rparr>)))"

section \<open>The void\<close>

datatype id_arg = IdUuid uuid | IdStr string

definition id_of :: "id_arg \<Rightarrow> uuid option" where
  "id_of a = (case a of IdUuid u \<Rightarrow> Some u | IdStr s \<Rightarrow> parse_uuid s)"

record void_result =
  vr_invoice :: "invoice option"
  vr_already_void :: bool
  vr_parts :: nat
  vr_change_orders :: nat
  vr_time_entries :: nat

definition not_found :: void_exn where
  "not_found = InvoiceVoidRefused 404 ''Invoice not found''"

definition zero_balance :: "uuid \<Rightarrow> gl_db \<Rightarrow> gl_db" where
  "zero_balance u db = db\<lparr>db_invoices := map (\<lambda>i. if i_id i = u then i\<lparr>i_balance_due := Some (cents 0)\<rparr> else i) (db_invoices db)\<rparr>"

text \<open>The ledger half: the status chokepoint, the adjustments, the opening settlement.\<close>

definition void_postings :: "gl_env \<Rightarrow> invoice \<Rightarrow> string \<Rightarrow> unit gl" where
  "void_postings env iv actor =
     andthen (transition_invoice_status POSTING_RULES env iv Void (Some actor)) (\<lambda>_.
     andthen (reverse_invoice_adjustments env (iv\<lparr>i_status := Void\<rparr>) (Some actor)) (\<lambda>_.
     settle_opening_on_void env (iv\<lparr>i_status := Void\<rparr>) (Some actor)))"

text \<open>
  A period lock rolls the session back, here to the state the call found, since the call is made on a session with nothing
  else pending.
\<close>

definition period_locked_text :: "date \<Rightarrow> date \<Rightarrow> string" where
  "period_locked_text lock d = ''period locked through '' @ isoformat lock @ ''; '' @ isoformat d @
     '' is not postable (post to the first open day with a memo naming the true date, or override with accounting.close)''"

definition refuse_locked :: "unit gl \<Rightarrow> unit off" where
  "refuse_locked m = (\<lambda>o1. case on_ledger m o1 of
     (Inl (VoidError (PeriodLockedError l d)), _) \<Rightarrow>
       (Inl (InvoiceVoidRefused 409 (''void posts into a locked accounting period '' @ em_dash @ '' '' @ period_locked_text l d)), o1)
   | r \<Rightarrow> r)"

definition finish_void :: "gl_env \<Rightarrow> invoice \<Rightarrow> string \<Rightarrow> string option \<Rightarrow> void_result off" where
  "finish_void env iv actor reason =
     andthen (change (\<lambda>o1. o1\<lparr>of_gl := zero_balance (i_id iv) (of_gl o1)\<rparr>)) (\<lambda>_.
     andthen (release_parts iv) (\<lambda>parts.
     andthen (release_change_orders iv) (\<lambda>cos.
     andthen (release_day_rows iv actor ''invoice_voided'') (\<lambda>days.
     andthen (cancel_plan env iv actor) (\<lambda>_.
     andthen (change (add_trail (InvoiceVoided actor (i_id iv) (i_total iv) parts cos days
       (if reason = Some [] then None else reason)))) (\<lambda>_.
     andthen (change (\<lambda>o1. o1\<lparr>of_sweeps := of_sweeps o1 @ [i_id iv]\<rparr>)) (\<lambda>_.
     andthen (asks (\<lambda>o1. first (filter (\<lambda>i. i_id i = i_id iv) (db_invoices (of_gl o1))))) (\<lambda>after.
     ok \<lparr>vr_invoice = after, vr_already_void = False, vr_parts = parts, vr_change_orders = cos, vr_time_entries = days\<rparr>))))))))"

definition find_invoice :: "office \<Rightarrow> uuid \<Rightarrow> invoice option" where
  "find_invoice o1 u = first (filter (\<lambda>i. i_id i = u \<and> i_deleted_at i = None) (db_invoices (of_gl o1)))"

definition void_invoice :: "gl_env \<Rightarrow> id_arg \<Rightarrow> string \<Rightarrow> string option \<Rightarrow> void_result off" where
  "void_invoice env ident actor reason =
     (if strip actor = [] then throw (VoidError ValueError)
      else case id_of ident of
        None \<Rightarrow> throw not_found
      | Some u \<Rightarrow>
          andthen (asks (\<lambda>o1. find_invoice o1 u)) (\<lambda>found.
          case found of
            None \<Rightarrow> throw not_found
          | Some iv \<Rightarrow>
              if i_status iv = Void then
                ok \<lparr>vr_invoice = Some iv, vr_already_void = True, vr_parts = 0, vr_change_orders = 0, vr_time_entries = 0\<rparr>
              else
                andthen (asks (\<lambda>o1. has_live_payment (of_gl o1) iv)) (\<lambda>paid.
                if paid then throw (InvoiceVoidRefused 409 (''invoice has recorded payments '' @ em_dash @ '' void or remove them first''))
                else andthen (refuse_locked (void_postings env iv actor)) (\<lambda>_. finish_void env iv actor reason))))"

section \<open>Receivables and reversal pairs\<close>

text \<open>A reversal carries the source of its original, as \<open>reverse_entry\<close> writes it.\<close>

definition reversal_sources :: "gl_db \<Rightarrow> bool" where
  "reversal_sources db \<longleftrightarrow> (\<forall>r \<in> set (db_entries db). \<forall>x \<in> set (db_entries db). e_reverses r = Some (e_id x) \<longrightarrow>
     e_source_type r = e_source_type x \<and> e_source_id r = e_source_id x)"

definition held :: "gl_db \<Rightarrow> invoice \<Rightarrow> gl_entry \<Rightarrow> int" where
  "held db iv e = (if of_invoice db iv (e_source_type e) (e_source_id e) then entry_ar_cents db e else 0)"

lemma ar_held: "invoice_ar_balance_cents db iv = sum_list (map (held db iv) (db_entries db))"
  unfolding invoice_ar_by_entry held_def ..

lemma reversal_unique:
  assumes inv: "ledger_inv db" and r: "r \<in> set (db_entries db)" "r' \<in> set (db_entries db)" "e_reverses r = Some u" "e_reverses r' = Some u"
  shows "r = r'"
proof -
  have "e_key r = Some (reversal_key u)" "e_key r' = Some (reversal_key u)"
    using ledger_invD(4)[OF inv r(1)] ledger_invD(4)[OF inv r(2)] r(3,4) by (auto simp: wf_key_def)
  then show ?thesis using entry_key_inject[OF inv r(1,2)] by simp
qed

lemma reversed_pairs:
  assumes inv: "ledger_inv db" and src: "reversal_sources db"
  shows "sum (held db iv) {r \<in> set (db_entries db). e_reverses r \<noteq> None} =
    - sum (held db iv) {x \<in> set (db_entries db). e_status x = Reversed}"
proof -
  let ?es = "set (db_entries db)"
  define orig where "orig r = the (get_entry db (the (e_reverses r)))" for r :: gl_entry
  have o: "orig r \<in> ?es \<and> e_id (orig r) = u \<and> e_status (orig r) = Reversed \<and> held db iv r = - held db iv (orig r)"
    if r: "r \<in> ?es" "e_reverses r = Some u" for r u
  proof -
    obtain x where x: "x \<in> ?es" "e_id x = u" "e_status x = Reversed"
      using ledger_invD(7)[OF inv r(1)] r(2) by (auto simp: reversal_ok_def)
    then obtain r' where r': "r' \<in> ?es" "e_reverses r' = Some u" "mirrored (entry_lines db (e_id x)) (entry_lines db (e_id r'))"
      using ledger_invD(7)[OF inv x(1)] by (auto simp: reversal_ok_def)
    have "r' = r" by (rule reversal_unique[OF inv r'(1) r(1) r'(2) r(2)])
    then have "entry_ar_cents db r = - entry_ar_cents db x"
      unfolding entry_ar_if using mirrored_ar[OF r'(3), of "ar_account db"] by simp
    moreover have "e_source_type r = e_source_type x" "e_source_id r = e_source_id x"
      using src r x by (auto simp: reversal_sources_def)
    moreover have "orig r = x" using r x get_entry_inv[OF inv x(1)] by (simp add: orig_def)
    ultimately show ?thesis using x by (simp add: held_def)
  qed
  have inj: "inj_on orig {r \<in> ?es. e_reverses r \<noteq> None}"
  proof (rule inj_onI)
    fix a b assume ab: "a \<in> {r \<in> ?es. e_reverses r \<noteq> None}" "b \<in> {r \<in> ?es. e_reverses r \<noteq> None}" "orig a = orig b"
    then obtain u v where uv: "e_reverses a = Some u" "e_reverses b = Some v" by auto
    have "u = v" using o[OF _ uv(1)] o[OF _ uv(2)] ab by force
    then show "a = b" using reversal_unique[OF inv, of a b u] uv ab by simp
  qed
  have "{x \<in> ?es. e_status x = Reversed} \<subseteq> orig ` {r \<in> ?es. e_reverses r \<noteq> None}"
  proof
    fix x assume "x \<in> {x \<in> ?es. e_status x = Reversed}"
    then obtain r where "r \<in> ?es" "e_reverses r = Some (e_id x)" "x \<in> ?es"
      using ledger_invD(7)[OF inv, of x] by (auto simp: reversal_ok_def)
    then have "orig r = x" "r \<in> {r \<in> ?es. e_reverses r \<noteq> None}" using o entry_id_inject[OF inv] by auto
    then show "x \<in> orig ` {r \<in> ?es. e_reverses r \<noteq> None}" by blast
  qed
  then have "orig ` {r \<in> ?es. e_reverses r \<noteq> None} = {x \<in> ?es. e_status x = Reversed}" using o by blast
  then have "sum (held db iv) {x \<in> ?es. e_status x = Reversed} = sum (held db iv \<circ> orig) {r \<in> ?es. e_reverses r \<noteq> None}"
    using sum.reindex[OF inj, of "held db iv"] by simp
  also have "\<dots> = sum (\<lambda>r. - held db iv r) {r \<in> ?es. e_reverses r \<noteq> None}" by (rule sum.cong) (use o in auto)
  finally show ?thesis by (simp add: sum_negf)
qed

text \<open>On a sound journal the receivable of an invoice is what its live original entries hold, less what reversed reversals hold.\<close>

lemma receivable_of_live:
  assumes inv: "ledger_inv db" and src: "reversal_sources db"
  shows "invoice_ar_balance_cents db iv =
    sum (held db iv) {e \<in> set (db_entries db). e_status e = Posted \<and> e_reverses e = None} -
    sum (held db iv) {e \<in> set (db_entries db). e_status e = Reversed \<and> e_reverses e \<noteq> None}"
proof -
  let ?es = "set (db_entries db)" and ?h = "sum (held db iv)"
  have split: "?h (A \<union> B) = ?h A + ?h B" if "A \<subseteq> ?es" "B \<subseteq> ?es" "A \<inter> B = {}" for A B
    using that by (intro sum.union_disjoint) (auto intro: finite_subset)
  have "distinct (db_entries db)" using ledger_invD(1)[OF inv] by (simp add: distinct_map)
  then have "invoice_ar_balance_cents db iv = ?h ?es" by (simp add: ar_held sum_list_distinct_conv_sum_set)
  also have "?es = {e \<in> ?es. e_reverses e \<noteq> None} \<union> ({e \<in> ?es. e_status e = Posted \<and> e_reverses e = None} \<union>
      {e \<in> ?es. e_status e = Reversed \<and> e_reverses e = None})" by (auto intro: entry_status.exhaust)
  also have "?h \<dots> = ?h {e \<in> ?es. e_reverses e \<noteq> None} + (?h {e \<in> ?es. e_status e = Posted \<and> e_reverses e = None} +
      ?h {e \<in> ?es. e_status e = Reversed \<and> e_reverses e = None})"
    by (subst split; (subst split)?; auto)
  also have "?h {e \<in> ?es. e_reverses e \<noteq> None} = - ?h {e \<in> ?es. e_status e = Reversed}" by (rule reversed_pairs[OF inv src])
  also have "{e \<in> ?es. e_status e = Reversed} = {e \<in> ?es. e_status e = Reversed \<and> e_reverses e = None} \<union>
      {e \<in> ?es. e_status e = Reversed \<and> e_reverses e \<noteq> None}" by auto
  also have "?h \<dots> = ?h {e \<in> ?es. e_status e = Reversed \<and> e_reverses e = None} + ?h {e \<in> ?es. e_status e = Reversed \<and> e_reverses e \<noteq> None}"
    by (rule split) auto
  finally show ?thesis by simp
qed

section \<open>The ledger half of a void\<close>

lemma for_each_reverse_repaired:
  assumes "ledger_inv db" "distinct ds" "\<forall>d \<in> set ds. live_in db d"
    and "for_each (\<lambda>l. andthen (reverse_entry env l None by False) (\<lambda>_. ok ())) ds db = (Inr (), db')"
  shows "repaired db ds db'"
  using assms
proof (induction ds arbitrary: db)
  case Nil
  then show ?case by (simp add: ok_def repaired_refl)
next
  case (Cons d ds)
  obtain r db1 where 1: "reverse_entry env d None by False db = (Inr r, db1)"
    "for_each (\<lambda>l. andthen (reverse_entry env l None by False) (\<lambda>_. ok ())) ds db1 = (Inr (), db')"
    using Cons.prems(4) by (auto simp: andthen_def ok_def split: prod.splits sum.splits)
  have one: "repaired db [d] db1" using repaired_one[OF Cons.prems(1) _ 1(1)] Cons.prems(3) by simp
  then have "repaired db1 ds db'" using Cons.IH[OF _ _ _ 1(2)] Cons.prems(2,3) by (auto simp: repaired_def)
  from repaired_trans[OF one this] Cons.prems(2,3) show ?case by auto
qed

text \<open>Reversing the entries of one source leaves the live entries of every other adjustment as they were.\<close>

lemma live_adjustments_after:
  assumes inv: "ledger_inv db" and live: "live_in db x" and rev: "reverse_entry env x eff by ov db = (Inr r, db')"
    and other: "e_source_type x \<noteq> Some ''adjustment'' \<or> e_source_id x \<noteq> Some (uuid_str (adj_id adj))"
  shows "live_adjustment_entries db' c adj = live_adjustment_entries db c adj"
proof -
  have x: "x \<in> set (db_entries db)" "e_status x = Posted" using live by (simp_all add: live_in_def)
  obtain db1 where r: "r = reversal_of env db1 x (reversal_date x eff) by" and db': "db' = with_reversal env x (reversal_date x eff) by db1"
    and 1: "ledger_inv db1" "x \<in> set (db_entries db1)" "db_entries db1 = db_entries db" "db_uuid db1 = db_uuid db"
    by (rule reverse_entry_Inr_live[OF inv x rev])
  have es: "db_entries db' = map (marked (e_id x) (e_id r)) (db_entries db) @ [r]"
    using with_reversal_entries[OF 1(1,2)] 1 by (simp add: r db')
  let ?P = "\<lambda>e. e_company e = c \<and> e_source_type e = Some ''adjustment'' \<and> e_source_id e = Some (uuid_str (adj_id adj)) \<and> e_status e = Posted"
  have "filter ?P (map (marked (e_id x) (e_id r)) ys) = filter ?P ys" if "set ys \<subseteq> set (db_entries db)" for ys
    using that
  proof (induction ys)
    case (Cons y ys)
    have "y = x" if "e_id y = e_id x" using entry_id_inject[OF inv _ x(1) that] Cons.prems by simp
    then have "marked (e_id x) (e_id r) y = y \<or> \<not> ?P y \<and> \<not> ?P (marked (e_id x) (e_id r) y)"
      using other by (auto simp: marked_def)
    then show ?case using Cons by auto
  qed simp
  then show ?thesis using other by (auto simp: live_adjustment_entries_def es r)
qed

lemma for_each_live_adjustments:
  assumes "ledger_inv db" "distinct ds" "\<forall>d \<in> set ds. live_in db d \<and> (e_source_type d \<noteq> Some ''adjustment'' \<or> e_source_id d \<noteq> Some (uuid_str (adj_id adj)))"
    and "for_each (\<lambda>l. andthen (reverse_entry env l None by False) (\<lambda>_. ok ())) ds db = (Inr (), db')"
  shows "live_adjustment_entries db' c adj = live_adjustment_entries db c adj"
  using assms
proof (induction ds arbitrary: db)
  case Nil
  then show ?case by (simp add: ok_def)
next
  case (Cons d ds)
  obtain r db1 where 1: "reverse_entry env d None by False db = (Inr r, db1)"
    "for_each (\<lambda>l. andthen (reverse_entry env l None by False) (\<lambda>_. ok ())) ds db1 = (Inr (), db')"
    using Cons.prems(4) by (auto simp: andthen_def ok_def split: prod.splits sum.splits)
  have one: "repaired db [d] db1" using repaired_one[OF Cons.prems(1) _ 1(1)] Cons.prems(3) by simp
  then have "live_adjustment_entries db' c adj = live_adjustment_entries db1 c adj"
    using Cons.prems(2,3) by (intro Cons.IH[OF _ _ _ 1(2)]) (auto simp: repaired_def)
  also have "\<dots> = live_adjustment_entries db c adj"
    using live_adjustments_after[OF Cons.prems(1) _ 1(1), of adj c] Cons.prems(3) by simp
  finally show ?case .
qed

lemma live_adjustments_ok:
  assumes "ledger_inv db"
  shows "distinct (live_adjustment_entries db c adj)" "\<forall>d \<in> set (live_adjustment_entries db c adj). live_in db d"
proof -
  have "distinct (db_entries db)" using ledger_invD(1)[OF assms] by (simp add: distinct_map)
  then show "distinct (live_adjustment_entries db c adj)" by (simp add: live_adjustment_entries_def)
qed (auto simp: live_adjustment_entries_def live_in_def)

lemma adjustments_loop:
  assumes "ledger_inv db" "distinct (map adj_id adjs)"
    and "for_each (\<lambda>adj. andthen (asks (\<lambda>db. live_adjustment_entries db c adj)) (\<lambda>lives.
           for_each (\<lambda>l. andthen (reverse_entry env l None by False) (\<lambda>_. ok ())) lives)) adjs db = (Inr (), db')"
  shows "repaired db (concat (map (live_adjustment_entries db c) adjs)) db'"
  using assms
proof (induction adjs arbitrary: db)
  case Nil
  then show ?case by (simp add: ok_def repaired_refl)
next
  case (Cons adj adjs)
  let ?L = "live_adjustment_entries db c adj"
  obtain db1 where 1: "for_each (\<lambda>l. andthen (reverse_entry env l None by False) (\<lambda>_. ok ())) ?L db = (Inr (), db1)"
    "for_each (\<lambda>adj. andthen (asks (\<lambda>db. live_adjustment_entries db c adj)) (\<lambda>lives.
       for_each (\<lambda>l. andthen (reverse_entry env l None by False) (\<lambda>_. ok ())) lives)) adjs db1 = (Inr (), db')"
    using Cons.prems(3) by (auto simp: andthen_def asks_def split: prod.splits sum.splits)
  note L = live_adjustments_ok[OF Cons.prems(1), of c]
  have one: "repaired db ?L db1" by (rule for_each_reverse_repaired[OF Cons.prems(1) L 1(1)])
  have same: "live_adjustment_entries db1 c a = live_adjustment_entries db c a" if "a \<in> set adjs" for a
  proof (rule for_each_live_adjustments[OF Cons.prems(1) L(1) _ 1(1)])
    show "\<forall>d \<in> set ?L. live_in db d \<and> (e_source_type d \<noteq> Some ''adjustment'' \<or> e_source_id d \<noteq> Some (uuid_str (adj_id a)))"
      using L(2) Cons.prems(2) that by (auto simp: live_adjustment_entries_def)
  qed
  have inv1: "ledger_inv db1" using one by (simp add: repaired_def)
  have "repaired db1 (concat (map (live_adjustment_entries db1 c) adjs)) db'"
    by (rule Cons.IH[OF inv1 _ 1(2)]) (use Cons.prems(2) in simp)
  also have "map (live_adjustment_entries db1 c) adjs = map (live_adjustment_entries db c) adjs" by (rule map_cong) (simp_all add: same)
  finally have rest: "repaired db1 (concat (map (live_adjustment_entries db c) adjs)) db'" .
  have "\<forall>e \<in> set (concat (map (live_adjustment_entries db c) adjs)). live_in db e \<and> e \<notin> set ?L"
    using Cons.prems(2) by (auto simp: live_adjustment_entries_def live_in_def) (metis image_eqI)
  from repaired_trans[OF one rest this] show ?case by simp
qed

text \<open>
  The state a void starts from: at most the issuance and the adjustments of the invoice are live, all in its own company, and
  none of its reversals was itself reversed.
\<close>

definition voidable :: "gl_db \<Rightarrow> invoice \<Rightarrow> bool" where
  "voidable db iv \<longleftrightarrow>
     (\<forall>e \<in> set (db_entries db). of_invoice db iv (e_source_type e) (e_source_id e) \<longrightarrow>
        e_company e = i_company iv \<and> (e_reverses e \<noteq> None \<longrightarrow> e_status e = Posted) \<and>
        (e_status e = Posted \<and> e_reverses e = None \<longrightarrow>
           e_source_type e = Some ''adjustment'' \<or> live_issuance_entry db iv = Some e))"

lemma live_issuance_live: "live_issuance_entry db iv = Some l \<Longrightarrow> live_in db l \<and> e_source_type l = Some ''invoice'' \<and> e_source_id l = Some (uuid_str (i_id iv))"
  unfolding live_issuance_entry_def by (drule first_in_set) (simp add: live_entries_def live_in_def)

lemma live_issuance_original:
  assumes "ledger_inv db" "live_issuance_entry db iv = Some l"
  shows "e_reverses l = None"
proof -
  have "l \<in> set (live_entries db (i_company iv) ''invoice'' (i_id iv) EVENT_ISSUED)"
    using first_in_set[OF assms(2)[unfolded live_issuance_entry_def]] .
  then have "l \<in> set (db_entries db)" "event_key ''invoice'' (i_id iv) EVENT_ISSUED l"
    using live_entries_iff[OF assms(1), of "''invoice''" EVENT_ISSUED] by simp_all
  then show ?thesis using ledger_invD(4)[OF assms(1), of l] by (auto simp: wf_key_def event_key_def)
qed

text \<open>Reversals create no live original entry.\<close>

definition fewer_live :: "gl_db \<Rightarrow> gl_db \<Rightarrow> bool" where
  "fewer_live db db' \<longleftrightarrow> (\<forall>y. live_in db' y \<and> e_reverses y = None \<longrightarrow> live_in db y)"

interpretation fewer: tracked fewer_live
  by unfold_locales (auto simp: fewer_live_def)

lemma fewer_frame: "db_entries db' = db_entries db \<Longrightarrow> fewer_live db db'"
  by (simp add: fewer_live_def live_in_def)

lemma reverse_entry_fewer: "tracks fewer_live (reverse_entry env x eff by ov)"
proof (rule reverse_entry_tracks[OF fewer.tracked_axioms])
  show "tracks fewer_live (check_period_lock c d ov by k)" for c d k
    unfolding tracks_def using check_period_lock_frame(1) fewer_frame by (metis prod.collapse)
  show "fewer_live db db'" if "insert_entry env c d st sid key (Some rv) by (map (mirror e) (entry_lines db u)) db = (q, db')"
    for db c d st sid key rv e u q db'
    using that by (auto simp: insert_entry_cases Let_def fewer_live_def live_in_def grown_def spent_ids_def mk_entry_def split: if_splits)
  show "fewer_live db (mark_reversed u r db)" for u r db
    by (auto simp: fewer_live_def live_in_def marked_def split: if_splits)
qed

lemma no_anchor_kept:
  assumes inv: "ledger_inv db'" and f: "fewer_live db db'" and "\<not> has_opening_anchor db iv" "ledger_inv db"
  shows "\<not> has_opening_anchor db' iv"
proof -
  have iff: "has_opening_anchor d iv \<longleftrightarrow> (\<exists>y. live_in d y \<and> e_company y = i_company iv \<and> e_source_type y = Some ''invoice'' \<and>
      e_source_id y = Some (uuid_str (i_id iv)) \<and> event_key ''invoice'' (i_id iv) EVENT_OPENING y)" if "ledger_inv d" for d
    unfolding has_opening_anchor_def live_opening_entry_def first_eq_None live_entries_iff[OF that, of "''invoice''" EVENT_OPENING, simplified]
    by (auto simp: filter_empty_conv live_in_def)
  have "e_reverses y = None" if "live_in db' y" "event_key ''invoice'' (i_id iv) EVENT_OPENING y" for y
    using ledger_invD(4)[OF inv, of y] that by (auto simp: live_in_def wf_key_def event_key_def)
  then show ?thesis using assms(3) f unfolding iff[OF inv] iff[OF assms(4)] fewer_live_def by blast
qed

lemma reverse_adjustments_fewer: "tracks fewer_live (reverse_invoice_adjustments env iv by)"
  unfolding reverse_invoice_adjustments_def by (intro fewer.tracks_rules reverse_entry_fewer)

lemma reverse_issuance_fewer: "tracks fewer_live (reverse_invoice_issuance env iv a b by)"
  unfolding reverse_invoice_issuance_def by (intro fewer.tracks_rules reverse_entry_fewer)

lemma void_postings_repaired:
  assumes inv: "ledger_inv db" and adjs: "distinct (map adj_id (db_adjustments db))"
    and st: "i_status iv \<in> {Sent, Paid}" and on: "ledger_posting_enabled db (i_company iv)"
    and era: "\<not> pre_cutover_era env db iv" "\<not> has_opening_anchor db iv"
    and run: "void_postings env iv actor db = (Inr (), db')"
  shows "repaired (sanctioned_write (i_id iv) Void db)
    ((case live_issuance_entry db iv of None \<Rightarrow> [] | Some l \<Rightarrow> [l]) @
      concat (map (live_adjustment_entries db (i_company iv)) (invoice_adjustments db iv))) db'"
proof -
  let ?w = "sanctioned_write (i_id iv) Void db" and ?iv = "iv\<lparr>i_status := Void\<rparr>" and ?c = "i_company iv"
  let ?ls = "case live_issuance_entry db iv of None \<Rightarrow> [] | Some l \<Rightarrow> [l]"
  have w: "db_entries ?w = db_entries db" "db_lines ?w = db_lines db" "db_uuid ?w = db_uuid db" "db_settings ?w = db_settings db"
    "db_adjustments ?w = db_adjustments db" by (simp_all add: sanctioned_write_def set_status_def)
  have invw: "ledger_inv ?w" by (rule ledger_inv_frame[OF w(1,2) _ inv]) (simp add: w(3))
  have same: "live_issuance_entry ?w ?iv = live_issuance_entry db iv" "live_adjustment_entries ?w = live_adjustment_entries db"
    "invoice_adjustments ?w ?iv = invoice_adjustments db iv" "ledger_posting_enabled ?w = ledger_posting_enabled db"
    by (simp_all add: fun_eq_iff live_issuance_entry_def live_entries_def live_adjustment_entries_def invoice_adjustments_def w
        ledger_posting_enabled_def get_gl_settings_def)
  have eff: "invoice_effective_at env ?iv = invoice_effective_at env iv" by (simp add: invoice_effective_at_def split: option.splits)
  obtain x db1 db2 where 1: "reverse_invoice_issuance env ?iv (i_status iv) Void (Some actor) ?w = (Inr (), db1)"
    and 2: "reverse_invoice_adjustments env ?iv (Some actor) db1 = (Inr (), db2)"
    and 3: "settle_opening_on_void env ?iv (Some actor) db2 = (Inr (), db')"
    using run st on same(4) by (auto simp: void_postings_def transition_invoice_status_def POSTING_RULES_def andthen_def change_def
        asks_def ok_def split: prod.splits sum.splits)
  have r1: "repaired ?w ?ls db1"
  proof (cases "live_issuance_entry db iv")
    case None
    then show ?thesis using 1 same(1) repaired_refl[OF invw] by (simp add: reverse_invoice_issuance_def andthen_def asks_def ok_def)
  next
    case (Some l)
    then obtain r where "reverse_entry env l None (Some actor) False ?w = (Inr r, db1)"
      using 1 same(1) by (auto simp: reverse_invoice_issuance_def andthen_def asks_def ok_def split: prod.splits sum.splits)
    then show ?thesis using repaired_one[OF invw] live_issuance_live[OF Some] Some w(1) by (simp add: live_in_def)
  qed
  have f1: "fewer_live ?w db1" by (rule tracksD[OF reverse_issuance_fewer 1])
  have inv1: "ledger_inv db1" and w1: "same_workflow ?w db1" using r1 by (simp_all add: repaired_def)
  have adj1: "invoice_adjustments db1 ?iv = invoice_adjustments db iv" "ledger_posting_enabled db1 ?c"
    using w1 w(4,5) on by (simp_all add: same_workflow_def invoice_adjustments_def ledger_posting_enabled_def get_gl_settings_def)
  have live1: "live_adjustment_entries db1 ?c a = live_adjustment_entries db ?c a" for a
  proof (cases "live_issuance_entry db iv")
    case None
    then show ?thesis using 1 same(1,2) by (simp add: reverse_invoice_issuance_def andthen_def asks_def ok_def)
  next
    case (Some l)
    then obtain r where "reverse_entry env l None (Some actor) False ?w = (Inr r, db1)"
      using 1 same(1) by (auto simp: reverse_invoice_issuance_def andthen_def asks_def ok_def split: prod.splits sum.splits)
    from live_adjustments_after[OF invw _ this, of a ?c] show ?thesis
      using live_issuance_live[OF Some] w(1) same(2) by (simp add: live_in_def)
  qed
  have "for_each (\<lambda>adj. andthen (asks (\<lambda>db. live_adjustment_entries db ?c adj)) (\<lambda>lives.
      for_each (\<lambda>l. andthen (reverse_entry env l None (Some actor) False) (\<lambda>_. ok ())) lives)) (invoice_adjustments db iv) db1 = (Inr (), db2)"
    using 2 adj1 by (simp add: reverse_invoice_adjustments_def andthen_def asks_def)
  moreover have "distinct (map adj_id (invoice_adjustments db iv))"
    using adjs by (simp add: invoice_adjustments_def distinct_map inj_on_def)
  ultimately have "repaired db1 (concat (map (live_adjustment_entries db1 ?c) (invoice_adjustments db iv))) db2"
    by (intro adjustments_loop[OF inv1])
  then have r2: "repaired db1 (concat (map (live_adjustment_entries db ?c) (invoice_adjustments db iv))) db2"
    using live1 by (simp cong: map_cong)
  have "\<forall>e \<in> set (concat (map (live_adjustment_entries db ?c) (invoice_adjustments db iv))). live_in ?w e \<and> e \<notin> set ?ls"
    using live_issuance_live w(1) by (auto simp: live_adjustment_entries_def live_in_def split: option.splits)
  from repaired_trans[OF r1 r2 this] have r: "repaired ?w (?ls @ concat (map (live_adjustment_entries db ?c) (invoice_adjustments db iv))) db2" .
  have "cutover_date db2 ?c = cutover_date db ?c"
    using r w(4) by (simp add: repaired_def same_workflow_def cutover_date_def get_gl_settings_def)
  then have "\<not> pre_cutover_era env db2 ?iv" using era(1) unfolding pre_cutover_era_def eff by simp
  moreover have "fewer_live db db2"
    using fewer.R_trans[OF fewer_frame[OF w(1)] fewer.R_trans[OF f1 tracksD[OF reverse_adjustments_fewer 2]]] .
  then have "\<not> has_opening_anchor db2 iv" using no_anchor_kept[OF _ _ era(2) inv] r by (simp add: repaired_def)
  then have "\<not> has_opening_anchor db2 ?iv" by (simp add: has_opening_anchor_def live_opening_entry_def)
  ultimately have "db' = db2" using 3 by (auto simp: settle_opening_on_void_def andthen_def asks_def ok_def split: if_splits)
  with r show ?thesis by simp
qed

lemma receivable_frame:
  assumes "db_entries db' = db_entries db" "db_lines db' = db_lines db" "db_accounts db' = db_accounts db"
    "db_payments db' = db_payments db" "db_adjustments db' = db_adjustments db"
  shows "held db' iv = held db iv" "invoice_ar_balance_cents db' iv = invoice_ar_balance_cents db iv"
proof -
  show "held db' iv = held db iv"
    by (simp add: fun_eq_iff held_def of_invoice_def invoice_payments_def invoice_adjustments_def entry_ar_cents_def entry_lines_def assms)
  then show "invoice_ar_balance_cents db' iv = invoice_ar_balance_cents db iv" by (simp add: ar_held assms(1))
qed

lemma live_adjustments_set:
  assumes v: "voidable db iv"
  shows "set (concat (map (live_adjustment_entries db (i_company iv)) (invoice_adjustments db iv))) =
    {e \<in> set (db_entries db). e_status e = Posted \<and> e_source_type e = Some ''adjustment'' \<and>
       of_invoice db iv (e_source_type e) (e_source_id e)}"
  using v by (auto simp: voidable_def live_adjustment_entries_def of_invoice_def)

lemma live_adjustments_distinct:
  assumes "ledger_inv db" "distinct (map adj_id (db_adjustments db))"
  shows "distinct (concat (map (live_adjustment_entries db c) (invoice_adjustments db iv)))"
proof -
  have "distinct (concat (map (live_adjustment_entries db c) as))" if "distinct (map adj_id as)" for as
    using that
  proof (induction as)
    case (Cons a as)
    then have "set (live_adjustment_entries db c a) \<inter> set (concat (map (live_adjustment_entries db c) as)) = {}"
      by (auto simp: live_adjustment_entries_def) (metis image_eqI)
    then show ?case using Cons live_adjustments_ok(1)[OF assms(1)] by simp
  qed simp
  then show ?thesis using assms(2) by (simp add: invoice_adjustments_def distinct_map inj_on_def)
qed

lemma void_postings_residual:
  assumes inv: "ledger_inv db" and src: "reversal_sources db" and adjs: "distinct (map adj_id (db_adjustments db))"
    and v: "voidable db iv" and st: "i_status iv \<in> {Sent, Paid}" and on: "ledger_posting_enabled db (i_company iv)"
    and era: "\<not> pre_cutover_era env db iv" "\<not> has_opening_anchor db iv"
    and run: "void_postings env iv actor db = (Inr (), db')"
  shows "invoice_ar_balance_cents db' iv = - sum_list (map (entry_ar_cents db) (filter (\<lambda>e. e_status e = Posted \<and> e_reverses e \<noteq> None)
    (concat (map (live_adjustment_entries db (i_company iv)) (invoice_adjustments db iv)))))"
proof -
  let ?es = "set (db_entries db)" and ?h = "held db iv" and ?w = "sanctioned_write (i_id iv) Void db"
  define L where "L = concat (map (live_adjustment_entries db (i_company iv)) (invoice_adjustments db iv))"
  have setL: "set L = {e \<in> ?es. e_status e = Posted \<and> e_source_type e = Some ''adjustment'' \<and>
       of_invoice db iv (e_source_type e) (e_source_id e)}" unfolding L_def by (rule live_adjustments_set[OF v])
  let ?ls = "case live_issuance_entry db iv of None \<Rightarrow> [] | Some l \<Rightarrow> [l]"
  have f: "held ?w iv = ?h" "invoice_ar_balance_cents ?w iv = invoice_ar_balance_cents db iv"
    by (rule receivable_frame; simp add: sanctioned_write_def set_status_def)+
  have "invoice_ar_balance_cents db' iv = invoice_ar_balance_cents ?w iv - ar_of ?w iv (?ls @ L)"
    using void_postings_repaired[OF inv adjs st on era run] by (simp only: repaired_def L_def)
  also have "ar_of ?w iv (?ls @ L) = sum_list (map ?h ?ls) + sum_list (map ?h L)"
    unfolding f(1)[symmetric] by (simp add: ar_of_def held_def[abs_def])
  finally have after: "invoice_ar_balance_cents db' iv = invoice_ar_balance_cents db iv - sum_list (map ?h ?ls) - sum_list (map ?h L)"
    using f(2) by simp
  have "e \<in> ?es \<Longrightarrow> e_status e = Reversed \<Longrightarrow> e_reverses e \<noteq> None \<Longrightarrow> ?h e = 0" for e
    using v by (auto simp: voidable_def held_def)
  then have "sum ?h {e \<in> ?es. e_status e = Reversed \<and> e_reverses e \<noteq> None} = 0" by (intro sum.neutral) auto
  with receivable_of_live[OF inv src]
  have before: "invoice_ar_balance_cents db iv = sum ?h {e \<in> ?es. e_status e = Posted \<and> e_reverses e = None}" by simp
  let ?A = "{e \<in> set L. e_reverses e = None}"
  have sub: "?A \<union> set ?ls \<subseteq> {e \<in> ?es. e_status e = Posted \<and> e_reverses e = None}"
    unfolding setL using live_issuance_live live_issuance_original[OF inv] by (fastforce simp: live_in_def split: option.splits)
  have "sum ?h {e \<in> ?es. e_status e = Posted \<and> e_reverses e = None} = sum ?h (?A \<union> set ?ls)"
    by (rule sum.mono_neutral_right) (use sub v in \<open>auto simp: setL voidable_def held_def\<close>)
  also have "\<dots> = sum ?h ?A + sum ?h (set ?ls)"
    by (rule sum.union_disjoint[OF _ finite_set]) (use live_issuance_live[of db iv] in \<open>auto simp: setL split: option.splits\<close>)
  also have "sum ?h (set ?ls) = sum_list (map ?h ?ls)" by (simp split: option.splits)
  also have "sum ?h ?A = sum_list (map ?h (filter (\<lambda>e. e_reverses e = None) L))"
    using live_adjustments_distinct[OF inv adjs, of "i_company iv" iv, folded L_def] by (subst sum_list_distinct_conv_sum_set) (simp_all del: set_concat)
  finally have "invoice_ar_balance_cents db' iv = - sum_list (map ?h (filter (\<lambda>e. e_reverses e \<noteq> None) L))"
    using after before sum_list_filter_split[of ?h "\<lambda>e. e_reverses e = None" L] by simp
  also have "map ?h (filter (\<lambda>e. e_reverses e \<noteq> None) L) = map (entry_ar_cents db) (filter (\<lambda>e. e_status e = Posted \<and> e_reverses e \<noteq> None) L)"
  proof -
    have "filter (\<lambda>e. e_reverses e \<noteq> None) L = filter (\<lambda>e. e_status e = Posted \<and> e_reverses e \<noteq> None) L"
      by (rule filter_cong) (use setL in blast)+
    moreover have "?h e = entry_ar_cents db e" if "e \<in> set L" for e
      using that unfolding setL by (auto simp: held_def)
    ultimately show ?thesis by simp
  qed
  finally show ?thesis unfolding L_def .
qed

section \<open>What a void does\<close>

lemma void_invoice_Inr:
  assumes run: "void_invoice env ident actor reason o1 = (Inr r, o2)"
    and iv: "Option.bind (id_of ident) (find_invoice o1) = Some iv" "i_status iv \<noteq> Void"
  obtains db' where "\<not> has_live_payment (of_gl o1) iv" "void_postings env iv actor (of_gl o1) = (Inr (), db')"
    "finish_void env iv actor reason (o1\<lparr>of_gl := db'\<rparr>) = (Inr r, o2)"
proof -
  have 1: "\<not> has_live_payment (of_gl o1) iv"
    and run': "andthen (refuse_locked (void_postings env iv actor)) (\<lambda>_. finish_void env iv actor reason) o1 = (Inr r, o2)"
    using run iv by (auto simp: void_invoice_def throw_def asks_def ok_def andthen_def split: if_splits option.splits)
  obtain q db' where q: "void_postings env iv actor (of_gl o1) = (q, db')" by fastforce
  have "q = Inr ()" using run' q
    by (cases q) (auto simp: andthen_def refuse_locked_def on_ledger_def split: exn.splits)
  then show thesis using that[OF 1] q run' by (simp add: andthen_def refuse_locked_def on_ledger_def)
qed

text \<open>The part of a void after the ledger never fails; what it writes, table by table.\<close>

lemma release_day_rows_runs:
  "\<exists>o2. release_day_rows iv actor why o1 = (Inr (fst (release_stamps (i_id iv) (of_time_entries o1))), o2) \<and>
     of_closeouts o2 = snd (release_stamps (i_id iv) (of_closeouts o1)) \<and>
     of_time_entries o2 = snd (release_stamps (i_id iv) (of_time_entries o1)) \<and> of_gl o2 = of_gl o1 \<and> of_parts o2 = of_parts o1 \<and>
     of_change_orders o2 = of_change_orders o1 \<and> of_plans o2 = of_plans o1 \<and> of_sweeps o2 = of_sweeps o1"
  by (simp add: release_day_rows_def release_closeout_hours_def andthen_def add_trail_def case_prod_beta Let_def)

lemma cancel_plan_runs:
  "\<exists>o2. cancel_plan env iv actor o1 = (Inr (), o2) \<and> of_gl o2 = of_gl o1 \<and> of_parts o2 = of_parts o1 \<and>
     of_change_orders o2 = of_change_orders o1 \<and> of_closeouts o2 = of_closeouts o1 \<and> of_time_entries o2 = of_time_entries o1 \<and>
     of_sweeps o2 = of_sweeps o1 \<and> of_plans o2 = of_plans (snd (cancel_plan env iv actor o1))"
  by (simp add: cancel_plan_def add_trail_def split: option.split)

lemma cancel_plan_plans:
  "of_plans o1 = of_plans o2 \<Longrightarrow> of_plans (snd (cancel_plan env iv actor o1)) = of_plans (snd (cancel_plan env iv actor o2))"
  by (simp add: cancel_plan_def live_plan_def add_trail_def split: option.split)

lemma finish_void_runs:
  "\<exists>r o2. finish_void env iv actor reason o1 = (Inr r, o2) \<and> \<not> vr_already_void r \<and> of_gl o2 = zero_balance (i_id iv) (of_gl o1) \<and>
     of_parts o2 = snd (release_stamps (i_id iv) (of_parts o1)) \<and> of_change_orders o2 = snd (release_stamps (i_id iv) (of_change_orders o1)) \<and>
     of_closeouts o2 = snd (release_stamps (i_id iv) (of_closeouts o1)) \<and> of_time_entries o2 = snd (release_stamps (i_id iv) (of_time_entries o1)) \<and>
     of_plans o2 = of_plans (snd (cancel_plan env iv actor o1)) \<and> of_sweeps o2 = of_sweeps o1 @ [i_id iv] \<and>
     vr_parts r = fst (release_stamps (i_id iv) (of_parts o1)) \<and> vr_change_orders r = fst (release_stamps (i_id iv) (of_change_orders o1)) \<and>
     vr_time_entries r = fst (release_stamps (i_id iv) (of_time_entries o1)) \<and>
     (\<exists>ts. of_trail o2 = ts @ [InvoiceVoided actor (i_id iv) (i_total iv) (vr_parts r) (vr_change_orders r) (vr_time_entries r)
       (if reason = Some [] then None else reason)])"
proof -
  let ?rel = "release_stamps (i_id iv)"
  define o2 where "o2 = o1\<lparr>of_gl := zero_balance (i_id iv) (of_gl o1), of_parts := snd (?rel (of_parts o1)),
    of_change_orders := snd (?rel (of_change_orders o1))\<rparr>"
  have o2: "of_gl o2 = zero_balance (i_id iv) (of_gl o1)" "of_parts o2 = snd (?rel (of_parts o1))" "of_plans o2 = of_plans o1"
    "of_change_orders o2 = snd (?rel (of_change_orders o1))" "of_closeouts o2 = of_closeouts o1"
    "of_time_entries o2 = of_time_entries o1" "of_sweeps o2 = of_sweeps o1" by (simp_all add: o2_def)
  obtain o3 where 3: "release_day_rows iv actor ''invoice_voided'' o2 = (Inr (fst (?rel (of_time_entries o2))), o3)"
    and o3: "of_closeouts o3 = snd (?rel (of_closeouts o2))" "of_time_entries o3 = snd (?rel (of_time_entries o2))" "of_gl o3 = of_gl o2"
      "of_parts o3 = of_parts o2" "of_change_orders o3 = of_change_orders o2" "of_plans o3 = of_plans o2" "of_sweeps o3 = of_sweeps o2"
    using release_day_rows_runs[of iv actor "''invoice_voided''" o2] by auto
  obtain o4 where 4: "cancel_plan env iv actor o3 = (Inr (), o4)"
    and o4: "of_gl o4 = of_gl o3" "of_parts o4 = of_parts o3" "of_change_orders o4 = of_change_orders o3" "of_closeouts o4 = of_closeouts o3"
      "of_time_entries o4 = of_time_entries o3" "of_sweeps o4 = of_sweeps o3" "of_plans o4 = of_plans (snd (cancel_plan env iv actor o3))"
    using cancel_plan_runs[of env iv actor o3] by auto
  have plans: "of_plans o4 = of_plans (snd (cancel_plan env iv actor o1))"
    unfolding o4(7) by (rule cancel_plan_plans) (simp add: o3 o2)
  show ?thesis
    unfolding finish_void_def release_parts_def release_change_orders_def andthen_def change_def asks_def ok_def
    by (simp add: case_prod_beta Let_def o2_def[symmetric] 3 4 o2 o3 o4 plans add_trail_def del: o4(7))
qed

lemma finish_void_gl:
  assumes "finish_void env iv actor reason o1 = (Inr r, o2)"
  shows "of_gl o2 = zero_balance (i_id iv) (of_gl o1)" "\<not> vr_already_void r"
  using finish_void_runs[of env iv actor reason o1] assms by auto

lemma void_invoice_runs:
  assumes "strip actor \<noteq> []" "Option.bind (id_of ident) (find_invoice o1) = Some iv" "i_status iv \<noteq> Void" "\<not> has_live_payment (of_gl o1) iv"
    and "fst (void_postings env iv actor (of_gl o1)) = Inr ()"
  shows "\<exists>r o2. void_invoice env ident actor reason o1 = (Inr r, o2)"
proof -
  obtain u where u: "id_of ident = Some u" "find_invoice o1 u = Some iv" using assms(2) by (auto simp: bind_eq_Some_conv)
  obtain db' where "void_postings env iv actor (of_gl o1) = (Inr (), db')" using assms(5) by (metis prod.collapse)
  then have "void_invoice env ident actor reason o1 = finish_void env iv actor reason (o1\<lparr>of_gl := db'\<rparr>)"
    using assms(1,3,4) u by (simp add: void_invoice_def andthen_def asks_def refuse_locked_def on_ledger_def)
  then show ?thesis using finish_void_runs[of env iv actor reason "o1\<lparr>of_gl := db'\<rparr>"] by auto
qed

text \<open>
  C32.  A refused void leaves nothing behind.  Whenever \<open>void_invoice\<close> answers with a refusal, every row is as before the call; it
  answers 404 exactly when no undeleted invoice has that id, and otherwise 409, because of a live payment or a locked period.
\<close>

theorem void_refusal_leaves_nothing:
  assumes run: "void_invoice env ident actor reason o1 = (Inl (InvoiceVoidRefused code detail), o2)"
  shows "o2 = o1 \<and> (code = 404 \<or> code = 409) \<and>
    (code = 404 \<longleftrightarrow> Option.bind (id_of ident) (find_invoice o1) = None) \<and>
    (code = 409 \<longrightarrow> (\<exists>iv. Option.bind (id_of ident) (find_invoice o1) = Some iv \<and> i_status iv \<noteq> Void \<and>
       (has_live_payment (of_gl o1) iv \<or> (\<exists>l d. fst (void_postings env iv actor (of_gl o1)) = Inl (PeriodLockedError l d)))))"
proof (cases "Option.bind (id_of ident) (find_invoice o1)")
  case None
  then show ?thesis using run
    by (auto simp: void_invoice_def throw_def asks_def andthen_def not_found_def split: if_splits option.splits)
next
  case (Some iv)
  then obtain u where u: "id_of ident = Some u" "find_invoice o1 u = Some iv" by (auto simp: bind_eq_Some_conv)
  have a: "strip actor \<noteq> []" "i_status iv \<noteq> Void" using run u by (auto simp: void_invoice_def throw_def asks_def andthen_def ok_def split: if_splits)
  have fin: "\<exists>r o3. finish_void env iv actor reason o2' = (Inr r, o3)" for o2'
    using finish_void_runs[of env iv actor reason o2'] by blast
  obtain q db' where q: "void_postings env iv actor (of_gl o1) = (q, db')" by fastforce
  show ?thesis
  proof (cases "has_live_payment (of_gl o1) iv")
    case True
    then show ?thesis using run u a Some by (auto simp: void_invoice_def throw_def asks_def andthen_def)
  next
    case False
    then have run': "andthen (refuse_locked (void_postings env iv actor)) (\<lambda>_. finish_void env iv actor reason) o1 =
        (Inl (InvoiceVoidRefused code detail), o2)"
      using run u a by (simp add: void_invoice_def asks_def andthen_def)
    show ?thesis
    proof (cases q)
      case (Inr y)
      then show ?thesis using run' q fin[of "o1\<lparr>of_gl := db'\<rparr>"] by (auto simp: andthen_def refuse_locked_def on_ledger_def)
    next
      case (Inl x)
      then show ?thesis using run' q Some a
        by (cases x) (auto simp: andthen_def refuse_locked_def on_ledger_def)
    qed
  qed
qed

text \<open>
  C30.  What a void leaves of the receivable.  After the void of an issued invoice of the current era, whose live entries are its
  issuance and its adjustments, the invoice's ledger receivable is the negative of what live reversals of its adjustments hold.
  It is zero when no adjustment entry had been reversed before; otherwise the void reverses that reversal too, and the
  receivable of the reversed adjustment comes back.
\<close>

theorem void_residual_receivable:
  assumes inv: "ledger_inv (of_gl o1)" and src: "reversal_sources (of_gl o1)" and adjs: "distinct (map adj_id (db_adjustments (of_gl o1)))"
    and iv: "Option.bind (id_of ident) (find_invoice o1) = Some iv" and v: "voidable (of_gl o1) iv" and st: "i_status iv \<in> {Sent, Paid}"
    and on: "ledger_posting_enabled (of_gl o1) (i_company iv)"
    and era: "\<not> pre_cutover_era env (of_gl o1) iv" "\<not> has_opening_anchor (of_gl o1) iv"
    and run: "void_invoice env ident actor reason o1 = (Inr r, o2)"
  shows "invoice_ar_balance_cents (of_gl o2) iv =
    - sum_list (map (entry_ar_cents (of_gl o1)) (filter (\<lambda>e. e_status e = Posted \<and> e_reverses e \<noteq> None)
        (concat (map (live_adjustment_entries (of_gl o1) (i_company iv)) (invoice_adjustments (of_gl o1) iv)))))"
proof -
  from st have "i_status iv \<noteq> Void" by auto
  from void_invoice_Inr[OF run iv this] obtain db' where 1: "void_postings env iv actor (of_gl o1) = (Inr (), db')"
    "finish_void env iv actor reason (o1\<lparr>of_gl := db'\<rparr>) = (Inr r, o2)" .
  have "of_gl o2 = zero_balance (i_id iv) db'" using finish_void_gl(1)[OF 1(2)] by simp
  then have "invoice_ar_balance_cents (of_gl o2) iv = invoice_ar_balance_cents db' iv"
    by (simp only:) (rule receivable_frame(2); simp add: zero_balance_def)
  then show ?thesis using void_postings_residual[OF inv src adjs v st on era 1(1)] by simp
qed

text \<open>The rows billed by an invoice: parts, change orders, closeouts and day rows.\<close>

definition claims :: "office \<Rightarrow> uuid \<Rightarrow> uuid list list" where
  "claims o1 u = map (\<lambda>rows. map b_id (filter (\<lambda>b. b_billed_invoice b = Some u) rows))
     [of_parts o1, of_change_orders o1, of_closeouts o1, of_time_entries o1]"

lemma release_stamps_claims:
  "map b_id (filter (\<lambda>b. b_billed_invoice b = Some v) (snd (release_stamps u rows))) =
     (if v = u then [] else map b_id (filter (\<lambda>b. b_billed_invoice b = Some v) rows))"
  by (induction rows) (auto simp: release_stamps_def)

lemma void_postings_invoices:
  assumes "void_postings env iv actor db = (Inr (), db')" "i_status iv \<noteq> Void"
  shows "db_invoices db' = db_invoices (set_status (i_id iv) Void db)"
proof -
  obtain a db1 db2 where 1: "transition_invoice_status POSTING_RULES env iv Void (Some actor) db = (Inr a, db1)"
    and 2: "reverse_invoice_adjustments env (iv\<lparr>i_status := Void\<rparr>) (Some actor) db1 = (Inr (), db2)"
    and 3: "settle_opening_on_void env (iv\<lparr>i_status := Void\<rparr>) (Some actor) db2 = (Inr (), db')"
    using assms(1) by (auto simp: void_postings_def andthen_def split: prod.splits sum.splits)
  have "same_workflow db1 db2" "same_workflow db2 db'"
    by (rule tracksD[OF adjustments_workflow(1) 2], rule tracksD[OF adjustments_workflow(2) 3])
  then show ?thesis using transition_moves(2)[OF POSTING_RULES_workflow 1] assms(2) by (simp add: same_workflow_def)
qed

text \<open>
  C31.  A void gives back exactly the claims of its invoice.  After a void no part, change order, closeout or day row is billed by the
  invoice, every row billed by another invoice is as it was, and the counts reported are the rows given back.  The stored invoice
  is Void and owes nothing, the other invoices are untouched, the sweep of stale payment intents is enqueued once and the trail
  ends with the void and its counts.
\<close>

theorem void_gives_claims_back:
  assumes run: "void_invoice env ident actor reason o1 = (Inr r, o2)"
    and iv: "Option.bind (id_of ident) (find_invoice o1) = Some iv" "i_status iv \<noteq> Void"
  shows "claims o2 (i_id iv) = [[], [], [], []] \<and> (\<forall>v. v \<noteq> i_id iv \<longrightarrow> claims o2 v = claims o1 v) \<and>
    [vr_parts r, vr_change_orders r, vr_time_entries r] = map length (map ((!) (claims o1 (i_id iv))) [0, 1, 3]) \<and>
    db_invoices (of_gl o2) = map (\<lambda>i. if i_id i = i_id iv then i\<lparr>i_status := Void, i_balance_due := Some (cents 0)\<rparr> else i)
      (db_invoices (of_gl o1)) \<and>
    of_sweeps o2 = of_sweeps o1 @ [i_id iv] \<and> \<not> vr_already_void r \<and>
    last (of_trail o2) = InvoiceVoided actor (i_id iv) (i_total iv) (vr_parts r) (vr_change_orders r) (vr_time_entries r)
      (if reason = Some [] then None else reason)"
proof -
  obtain db' where 1: "void_postings env iv actor (of_gl o1) = (Inr (), db')"
    and 2: "finish_void env iv actor reason (o1\<lparr>of_gl := db'\<rparr>) = (Inr r, o2)" using void_invoice_Inr[OF run iv] .
  have "db_invoices (zero_balance (i_id iv) db') = map (\<lambda>i. if i_id i = i_id iv then i\<lparr>i_status := Void, i_balance_due := Some (cents 0)\<rparr> else i)
      (db_invoices (of_gl o1))"
    using void_postings_invoices[OF 1 iv(2)] by (simp add: zero_balance_def set_status_def)
  moreover have "fst (release_stamps u rows) = length (map b_id (filter (\<lambda>b. b_billed_invoice b = Some u) rows))" for u rows
    by (simp add: release_stamps_def)
  ultimately show ?thesis
    using finish_void_runs[of env iv actor reason "o1\<lparr>of_gl := db'\<rparr>"] 2 by (auto simp: claims_def release_stamps_claims)
qed

section \<open>Voiding after a reversed credit memo\<close>

definition memo_db :: gl_db where
  "memo_db = snd (post_credit_memo sample_env sample_memo untaxed_invoice None
     ((issued_db 10000)\<lparr>db_adjustments := [sample_memo]\<rparr>))"

definition reverse_memo :: "gl_db \<Rightarrow> gl_db" where
  "reverse_memo db = (case live_adjustment_entries db ''gdx'' sample_memo of
     [] \<Rightarrow> db | e # _ \<Rightarrow> snd (reverse_entry sample_env e None (Some ''ann'') False db))"

definition reversed_memo_db :: gl_db where
  "reversed_memo_db = reverse_memo memo_db"

lemma reversed_memo_db_inv: "ledger_inv reversed_memo_db"
proof -
  have keep: "ledger_inv (snd (m db))" if "tracks sound_step m" "ledger_inv db" for m :: "'a gl" and db
    using that inv_sound tracksD[of sound_step m db "fst (m db)" "snd (m db)"] by (metis prod.collapse)
  have frame: "ledger_inv (db\<lparr>db_invoices := xs, db_adjustments := ys\<rparr>)" if "ledger_inv db" for db xs ys
    by (rule ledger_inv_frame[OF _ _ _ that]) simp_all
  have "ledger_inv (snd (repost_invoice_issuance sample_env untaxed_invoice None posting_db))"
    by (intro keep repost_invoice_issuance_sound sample_digest_ok posting_db_inv)
  from frame[OF this] have "ledger_inv ((issued_db 10000)\<lparr>db_adjustments := [sample_memo]\<rparr>)" by (simp add: issued_db_def)
  then have "ledger_inv memo_db" unfolding memo_db_def post_credit_memo_def
    by (intro keep post_one_shot_sound sample_digest_ok)
  then show ?thesis unfolding reversed_memo_db_def reverse_memo_def
    by (auto intro!: keep reverse_entry_sound split: list.split)
qed

definition office_on :: "gl_db \<Rightarrow> office" where
  "office_on db = \<lparr>of_gl = db, of_parts = [\<lparr>b_id = 1, b_billed_invoice = Some 100\<rparr>, \<lparr>b_id = 2, b_billed_invoice = Some 7\<rparr>],
     of_change_orders = [], of_closeouts = [\<lparr>b_id = 3, b_billed_invoice = Some 100\<rparr>], of_time_entries = [],
     of_plans = [], of_trail = [], of_sweeps = []\<rparr>"

definition void_view :: "gl_db \<Rightarrow> invoice list \<times> bool list \<times> int" where
  "void_view db =
     (db_invoices db,
      [reversal_sources db, distinct (map adj_id (db_adjustments db)), voidable db untaxed_invoice,
       ledger_posting_enabled db ''gdx'', \<not> pre_cutover_era sample_env db untaxed_invoice, \<not> has_opening_anchor db untaxed_invoice,
       db_payments db = []],
      sum_list (map (entry_ar_cents db) (filter (\<lambda>e. e_status e = Posted \<and> e_reverses e \<noteq> None)
        (concat (map (live_adjustment_entries db ''gdx'') (invoice_adjustments db untaxed_invoice))))))"

lemma reversed_memo_view:
  "void_view reversed_memo_db =
     ([untaxed_invoice\<lparr>i_balance_due := Some (cents 10000)\<rparr>], [True, True, True, True, True, True, True], 3000)"
  by code_simp

lemma reversed_memo_postings:
  "fst (void_postings sample_env (untaxed_invoice\<lparr>i_balance_due := Some (cents 10000)\<rparr>) ''ann'' reversed_memo_db) = Inr ()"
  by code_simp

lemma reversed_memo_found:
  "Option.bind (id_of (IdUuid 100)) (find_invoice (office_on reversed_memo_db)) = Some (untaxed_invoice\<lparr>i_balance_due := Some (cents 10000)\<rparr>)"
  using reversed_memo_view by (simp add: void_view_def find_invoice_def office_on_def id_of_def untaxed_invoice_def sample_invoice_def)

lemma reversed_memo_void:
  obtains r o2 where "void_invoice sample_env (IdUuid 100) ''ann'' None (office_on reversed_memo_db) = (Inr r, o2)"
proof -
  have "\<exists>r o2. void_invoice sample_env (IdUuid 100) ''ann'' None (office_on reversed_memo_db) = (Inr r, o2)"
    using reversed_memo_view reversed_memo_postings strip_ann
    by (intro void_invoice_runs[OF _ reversed_memo_found])
      (simp_all add: void_view_def office_on_def has_live_payment_def invoice_payments_def untaxed_invoice_def sample_invoice_def)
  then show thesis using that by blast
qed

theorem void_gives_claims_back_witness:
  "\<exists>r o2. void_invoice sample_env (IdUuid 100) ''ann'' None (office_on reversed_memo_db) = (Inr r, o2) \<and>
     claims o2 100 = [[], [], [], []] \<and> claims o2 7 = [[2], [], [], []] \<and> vr_parts r = 1"
proof -
  obtain r o2 where run: "void_invoice sample_env (IdUuid 100) ''ann'' None (office_on reversed_memo_db) = (Inr r, o2)"
    by (rule reversed_memo_void)
  have "claims (office_on reversed_memo_db) 7 = [[2], [], [], []]" "claims (office_on reversed_memo_db) 100 = [[1], [], [3], []]"
    by (simp_all add: claims_def office_on_def)
  with void_gives_claims_back[OF run reversed_memo_found] run show ?thesis
    by (auto simp: untaxed_invoice_def sample_invoice_def)
qed

theorem void_residual_receivable_witness:
  "\<exists>r o2. void_invoice sample_env (IdUuid 100) ''ann'' None (office_on reversed_memo_db) = (Inr r, o2) \<and>
     invoice_ar_balance_cents (of_gl o2) untaxed_invoice = - 3000"
proof -
  let ?iv = "untaxed_invoice\<lparr>i_balance_due := Some (cents 10000)\<rparr>" and ?db = "reversed_memo_db"
  obtain r o2 where run: "void_invoice sample_env (IdUuid 100) ''ann'' None (office_on ?db) = (Inr r, o2)" by (rule reversed_memo_void)
  have gl: "of_gl (office_on db) = db" for db by (simp add: office_on_def)
  have same: "invoice_ar_balance_cents db ?iv = invoice_ar_balance_cents db untaxed_invoice" "voidable db ?iv = voidable db untaxed_invoice"
    "pre_cutover_era sample_env db ?iv = pre_cutover_era sample_env db untaxed_invoice"
    "has_opening_anchor db ?iv = has_opening_anchor db untaxed_invoice" "invoice_adjustments db ?iv = invoice_adjustments db untaxed_invoice" for db
    by (simp_all add: invoice_ar_balance_cents_def of_invoice_def invoice_payments_def invoice_adjustments_def voidable_def
        live_issuance_entry_def pre_cutover_era_def invoice_effective_at_def has_opening_anchor_def live_opening_entry_def
        split: option.split)
  have company: "i_company ?iv = ''gdx''" by (simp add: untaxed_invoice_def sample_invoice_def)
  have v: "reversal_sources ?db" "distinct (map adj_id (db_adjustments ?db))" "voidable ?db ?iv" "ledger_posting_enabled ?db (i_company ?iv)"
    "\<not> pre_cutover_era sample_env ?db ?iv" "\<not> has_opening_anchor ?db ?iv"
    using reversed_memo_view unfolding same company by (simp_all add: void_view_def)
  have "i_status ?iv \<in> {Sent, Paid}" by (simp add: untaxed_invoice_def sample_invoice_def)
  with company void_residual_receivable[OF _ _ _ reversed_memo_found _ _ _ _ _ run] v reversed_memo_db_inv
  have "invoice_ar_balance_cents (of_gl o2) ?iv = - 3000"
    using reversed_memo_view by (simp add: gl void_view_def same)
  then show ?thesis using run same(1) by auto
qed

theorem void_refusal_leaves_nothing_witness:
  "\<exists>d. void_invoice sample_env (IdUuid 101) ''ann'' None (office_on posting_db) = (Inl (InvoiceVoidRefused 404 d), office_on posting_db)"
proof -
  have "fst (void_invoice sample_env (IdUuid 101) ''ann'' None (office_on posting_db)) = Inl not_found" by code_simp
  then obtain d o2 where "void_invoice sample_env (IdUuid 101) ''ann'' None (office_on posting_db) = (Inl (InvoiceVoidRefused 404 d), o2)"
    by (metis not_found_def prod.collapse)
  with void_refusal_leaves_nothing[OF this] show ?thesis by auto
qed

end
