(* ===== verification/Cash_Basis.thy ===== *)
theory Cash_Basis
  imports Ledger_Reports
begin

text \<open>
  \<^verbatim>\<open>modules/ledger/cash_basis.py\<close> and the cash half of \<^verbatim>\<open>reports.py\<close>: revenue recognised when money moves, derived at
  report time by walking the cash events of each invoice and prorating every recognised step over the
  invoice's components.  The walk recognises, over any window, exactly the clamped cash of the events in it.
\<close>

section \<open>Components and proration\<close>

record revenue_component =
  rc_cents :: int
  rc_role :: "string option"
  rc_account :: "uuid option"
  rc_memo :: "string option"

definition component_of :: "posting_line \<Rightarrow> revenue_component" where
  "component_of l = \<lparr>rc_cents = - pl_amount l, rc_role = pl_role l, rc_account = pl_account l, rc_memo = pl_memo l\<rparr>"

definition invoice_components :: "gl_db \<Rightarrow> invoice \<Rightarrow> exn + revenue_component list" where
  "invoice_components db iv =
     bindR (build_issuance_lines db iv) (\<lambda>ls. Inr (map component_of (filter (\<lambda>l. pl_amount l < 0) ls)))"

definition capped :: "int \<Rightarrow> int \<Rightarrow> int" where
  "capped event_cents invoice_total_cents =
     (if event_cents \<ge> 0 then min event_cents invoice_total_cents else max event_cents (- invoice_total_cents))"

definition prorate_event_cents :: "int list \<Rightarrow> int \<Rightarrow> int \<Rightarrow> exn + int list" where
  "prorate_event_cents components event_cents invoice_total_cents =
     (if invoice_total_cents \<le> 0 \<or> components = [] then Inr (replicate (length components) 0)
      else let recognized = capped event_cents invoice_total_cents in
        if recognized = 0 then Inr (replicate (length components) 0)
        else allocate recognized (map WInt components))"

definition prorate_components ::
  "revenue_component list \<Rightarrow> int \<Rightarrow> int \<Rightarrow> exn + (revenue_component \<times> int) list" where
  "prorate_components components event_cents invoice_total_cents =
     bindR (prorate_event_cents (map rc_cents components) event_cents invoice_total_cents)
       (\<lambda>parts. Inr (zip components parts))"

section \<open>Cash events\<close>

definition payment_cash_event :: "payment \<Rightarrow> exn + (date \<times> int) list" where
  "payment_cash_event p =
     (case (case p_date p of Some d \<Rightarrow> Some d | None \<Rightarrow> map_option dt_date (p_created_at p)) of
        None \<Rightarrow> Inr []
      | Some when \<Rightarrow> bindR (col_cents (p_amount p)) (\<lambda>c. Inr [(when, c)]))"

definition kind_event :: "adjustment_kind \<Rightarrow> string" where
  "kind_event k = (case k of CreditMemo \<Rightarrow> ''credit_memo'' | Refund \<Rightarrow> ''refund'' | CreditApplied \<Rightarrow> ''credit_applied'')"

definition adjustment_cash_event :: "gl_env \<Rightarrow> gl_db \<Rightarrow> adjustment \<Rightarrow> exn + (date \<times> int) list" where
  "adjustment_cash_event env db a =
     (if adj_created_at a = None then Inr []
      else bindR (col_cents (adj_amount a)) (\<lambda>c.
        Inr [(shop_effective_at env db ''adjustment'' (adj_id a) (kind_event (adj_kind a)) (adj_created_at a),
              (if adj_kind a = Refund then - c else c))]))"

definition cash_events :: "gl_env \<Rightarrow> gl_db \<Rightarrow> invoice \<Rightarrow> exn + (date \<times> int) list" where
  "cash_events env db iv =
     bindR (mapR payment_cash_event (filter (\<lambda>p. p_voided_at p = None) (invoice_payments db iv))) (\<lambda>ps.
     bindR (mapR (adjustment_cash_event env db)
              (filter (\<lambda>a. adj_kind a = Refund \<or> adj_kind a = CreditApplied) (invoice_adjustments db iv))) (\<lambda>as.
     Inr (sort_key fst (concat ps @ concat as))))"

section \<open>The walk\<close>

definition component_account :: "gl_db \<Rightarrow> string \<Rightarrow> revenue_component \<Rightarrow> exn + gl_account option" where
  "component_account db company c =
     (case rc_account c of
        Some u \<Rightarrow> Inr (get_account db u)
      | None \<Rightarrow> (case rc_role c of
                   None \<Rightarrow> Inl LedgerConfigError
                 | Some r \<Rightarrow> bindR (resolve_role_account db company r) (\<lambda>a. Inr (Some a))))"

primrec bucket_parts :: "gl_db \<Rightarrow> string \<Rightarrow> (revenue_component \<times> int) list \<Rightarrow> slots \<Rightarrow> exn + slots" where
  "bucket_parts db company [] buckets = Inr buckets"
| "bucket_parts db company (x # xs) buckets =
     (case x of (c, part) \<Rightarrow>
        if part = 0 then bucket_parts db company xs buckets
        else bindR (component_account db company c) (\<lambda>acct.
          bucket_parts db company xs (case acct of None \<Rightarrow> buckets | Some a \<Rightarrow> add_to_slot (a, - part) buckets)))"

text \<open>One invoice: the flag in the result says that it was skipped as irreconcilable.\<close>

primrec walk_events ::
  "gl_db \<Rightarrow> string \<Rightarrow> invoice \<Rightarrow> int \<Rightarrow> date \<Rightarrow> date \<Rightarrow> (date \<times> int) list \<Rightarrow> int \<Rightarrow> int \<Rightarrow>
   revenue_component list option \<Rightarrow> slots \<Rightarrow> exn + slots \<times> bool" where
  "walk_events db company iv total_cents start until [] cumulative recognized_prev components buckets = Inr (buckets, False)"
| "walk_events db company iv total_cents start until (ev # evs) cumulative recognized_prev components buckets =
     (case ev of (when, amount) \<Rightarrow>
        let cumulative' = cumulative + amount;
            recognized_now = min (max cumulative' 0) total_cents;
            delta = recognized_now - recognized_prev
        in if delta = 0 \<or> when < start \<or> when > until
           then walk_events db company iv total_cents start until evs cumulative' recognized_now components buckets
           else (case (case components of Some cs \<Rightarrow> Inr cs | None \<Rightarrow> invoice_components db iv) of
                   Inl e \<Rightarrow> (case e of IssuanceCompositionError _ \<Rightarrow> Inr (buckets, True) | _ \<Rightarrow> Inl e)
                 | Inr cs \<Rightarrow>
                     if components = None \<and> cs = [] then Inr (buckets, False)
                     else bindR (prorate_event_cents (map rc_cents cs) delta total_cents) (\<lambda>parts.
                          bindR (bucket_parts db company (zip cs parts) buckets) (\<lambda>buckets'.
                          walk_events db company iv total_cents start until evs cumulative' recognized_now (Some cs) buckets'))))"

definition cash_invoices :: "gl_db \<Rightarrow> string \<Rightarrow> invoice list" where
  "cash_invoices db company =
     filter (\<lambda>i. i_company i = company \<and> i_deleted_at i = None \<and> i_status i \<noteq> Void \<and> i_status i \<noteq> Draft) (db_invoices db)"

primrec cash_walk ::
  "gl_env \<Rightarrow> gl_db \<Rightarrow> string \<Rightarrow> date \<Rightarrow> date \<Rightarrow> invoice list \<Rightarrow> slots \<times> string list \<Rightarrow> exn + slots \<times> string list" where
  "cash_walk env db company start until [] acc = Inr acc"
| "cash_walk env db company start until (iv # ivs) acc =
     bindR (col_cents (i_total iv)) (\<lambda>total_cents.
     if total_cents \<le> 0 then cash_walk env db company start until ivs acc
     else bindR (cash_events env db iv) (\<lambda>evs.
          bindR (walk_events db company iv total_cents start until evs 0 0 None (fst acc)) (\<lambda>(buckets, skip).
          cash_walk env db company start until ivs
            (buckets, if skip then snd acc @ [i_number iv] else snd acc))))"

definition cash_revenue_by_account ::
  "gl_env \<Rightarrow> gl_db \<Rightarrow> string \<Rightarrow> date \<Rightarrow> date \<Rightarrow> exn + slots \<times> string list" where
  "cash_revenue_by_account env db company start until =
     cash_walk env db company start until (cash_invoices db company) ([], [])"

text \<open>\<^verbatim>\<open>{**a, **b}\<close> on dicts.\<close>

definition merge_slots :: "slots \<Rightarrow> slots \<Rightarrow> slots" where
  "merge_slots a b = fold (\<lambda>(k, v). AList.update k v) b a"

definition pnl_cash :: "gl_env \<Rightarrow> gl_db \<Rightarrow> string \<Rightarrow> date \<Rightarrow> date \<Rightarrow> exn + pnl_report \<times> string list" where
  "pnl_cash env db company start until =
     bindR (cash_revenue_by_account env db company start until) (\<lambda>(buckets, skipped).
     Inr (pnl_sections
       (merge_slots (filter (\<lambda>(u, a, n). a_type a = Revenue) buckets)
          (filter (\<lambda>(u, a, n). a_type a = Expense)
             (sum_by_account (line_rows db company (Some start) (Some until))))) start until ''cash'', skipped))"

section \<open>Proration keeps the amount\<close>

locale exact_split =
  fixes split :: "int \<Rightarrow> 'w list \<Rightarrow> exn + int list"
  assumes split_sum: "split t ws = Inr ps \<Longrightarrow> sum_list ps = t"
    and split_length: "split t ws = Inr ps \<Longrightarrow> length ps = length ws"
begin

lemma split_onto:
  "split t ws = Inr ps \<Longrightarrow> length cs = length ws \<Longrightarrow> sum_list (map snd (zip cs ps)) = t \<and> map fst (zip cs ps) = cs"
  by (simp add: split_length split_sum)

end

interpretation cents_split: exact_split allocate
proof
  have "sum_list ps = t \<and> length ps = length ws" if a: "allocate t ws = Inr ps" for t ws ps
  proof -
    obtain fs where fs: "mapR norm_weight ws = Inr fs" "ws \<noteq> []"
      using a by (cases "mapR norm_weight ws") (auto simp: allocate.simps[of t ws] split: if_splits)
    show ?thesis
    proof (cases "sum_list fs = 0")
      case True
      then have "t = 0" "ps = replicate (length fs) 0"
        using a fs by (auto simp: allocate.simps[of t ws] Let_def split: if_splits)
      then show ?thesis using mapR_length[OF fs(1)] by (simp add: sum_list_replicate)
    next
      case False
      then have "0 < sum_list fs" using norm_weights_nonneg[OF fs(1)] by (simp add: order_less_le sum_list_nonneg)
      from allocate_total[OF fs(1) this, of t] a show ?thesis by auto
    qed
  qed
  then show "allocate t ws = Inr ps \<Longrightarrow> sum_list ps = t" "allocate t ws = Inr ps \<Longrightarrow> length ps = length ws" for t ws ps by auto
qed

lemma capped_bounds: "0 < t \<Longrightarrow> \<bar>capped e t\<bar> \<le> t" "\<bar>e\<bar> \<le> t \<Longrightarrow> capped e t = e"
  by (auto simp: capped_def)

lemma prorate_sum:
  assumes "prorate_event_cents cs e t = Inr ps"
  shows "length ps = length cs" "sum_list ps = (if t \<le> 0 \<or> cs = [] then 0 else capped e t)"
  using assms cents_split.split_sum[of "capped e t" "map WInt cs"] cents_split.split_length[of "capped e t" "map WInt cs"]
  by (auto simp: prorate_event_cents_def Let_def sum_list_replicate split: if_splits)

section \<open>What the walk recognises\<close>

text \<open>Reference: the change of the clamped running total, summed over the events of the window.\<close>

primrec recognized :: "int \<Rightarrow> date \<Rightarrow> date \<Rightarrow> (date \<times> int) list \<Rightarrow> int \<Rightarrow> int" where
  "recognized t start until [] cum = 0"
| "recognized t start until (ev # evs) cum =
     (if start \<le> fst ev \<and> fst ev \<le> until then min (max (cum + snd ev) 0) t - min (max cum 0) t else 0) +
     recognized t start until evs (cum + snd ev)"

definition slot_sum :: "slots \<Rightarrow> int" where
  "slot_sum b = sum_list (map (\<lambda>(u, a, n). n) b)"

lemma slot_sum_add: "slot_sum (add_to_slot (a, n) b) = slot_sum b + n"
  unfolding slot_sum_def by (induction "(a, n)" b rule: add_to_slot.induct) auto

text \<open>Every component of an invoice has an account, so no part is dropped.\<close>

definition placed :: "gl_db \<Rightarrow> revenue_component \<Rightarrow> bool" where
  "placed db c \<longleftrightarrow> (\<forall>u. rc_account c = Some u \<longrightarrow> get_account db u \<noteq> None)"

lemma get_account_own: "get_account db u = Some a \<Longrightarrow> get_account db (a_id a) = Some a"
  using get_account_id[of db u a] by simp

lemma mapped_account_exists: "mapped_account db c v = Some u \<Longrightarrow> get_account db u \<noteq> None"
  by (auto simp: mapped_account_def get_account_own split: option.splits if_splits)

lemma revenue_line_placed: "placed db (component_of (revenue_line db iv il c))"
  using mapped_account_exists
  by (auto simp: placed_def component_of_def revenue_line_def revenue_account_id_for_def Let_def split: option.splits if_splits)

lemma invoice_components_placed:
  assumes "invoice_components db iv = Inr cs" "c \<in> set cs"
  shows "placed db c"
proof -
  obtain ls l where l: "build_issuance_lines db iv = Inr ls" "l \<in> set ls" "c = component_of l"
    using assms by (auto simp: invoice_components_def bindR_eq_Inr)
  have "placed db (component_of (posting n r j u m))" for n r j u m by (simp add: placed_def component_of_def)
  then show ?thesis
    using l revenue_line_placed by (auto simp: build_issuance_lines_def bindR_eq_Inr Let_def split: if_splits)
qed

lemma bucket_parts_sum:
  assumes "bucket_parts db company xs b = Inr b'" "\<And>x. x \<in> set xs \<Longrightarrow> placed db (fst x)"
  shows "slot_sum b' = slot_sum b - sum_list (map snd xs)"
  using assms
proof (induction xs arbitrary: b)
  case (Cons x xs)
  obtain c part where x: "x = (c, part)" by fastforce
  have pl: "placed db c" using Cons.prems(2)[of x] x by simp
  show ?case
  proof (cases "part = 0")
    case True
    then show ?thesis using Cons x by simp
  next
    case False
    then obtain acct where acct: "component_account db company c = Inr acct"
      "bucket_parts db company xs (case acct of None \<Rightarrow> b | Some a \<Rightarrow> add_to_slot (a, - part) b) = Inr b'"
      using Cons.prems(1) x by (auto simp: bindR_eq_Inr)
    moreover obtain a where "acct = Some a"
      using acct(1) pl by (auto simp: component_account_def placed_def bindR_eq_Inr split: option.splits)
    ultimately show ?thesis using Cons.IH[OF acct(2)] Cons.prems(2) x by (simp add: slot_sum_add)
  qed
qed simp

lemma clamp_diff: "0 < t \<Longrightarrow> \<bar>min (max x 0) t - min (max y 0) t\<bar> \<le> t" for t :: int
  unfolding min_def max_def by auto

lemma walk_events_sum:
  assumes "walk_events db company iv t start until evs cum prev comps b = Inr (b', False)"
    and "prev = min (max cum 0) t" "0 < t"
    and "\<And>cs. comps = Some cs \<Longrightarrow> cs \<noteq> [] \<and> (\<forall>c \<in> set cs. placed db c)"
    and "comps = None \<Longrightarrow> invoice_components db iv \<noteq> Inr []"
  shows "slot_sum b' = slot_sum b - recognized t start until evs cum"
  using assms
proof (induction evs arbitrary: cum prev comps b)
  case (Cons ev evs)
  obtain day amount where ev: "ev = (day, amount)" by fastforce
  let ?cum = "cum + amount" and ?now = "min (max (cum + amount) 0) t"
  let ?delta = "?now - prev"
  note run = Cons.prems(1)[unfolded ev walk_events.simps prod.case Let_def]
  show ?case
  proof (cases "?delta = 0 \<or> day < start \<or> until < day")
    case True
    then have "walk_events db company iv t start until evs ?cum ?now comps b = Inr (b', False)" using run by simp
    from Cons.IH[OF this refl Cons.prems(3,4,5)] show ?thesis using True Cons.prems(2) ev by auto
  next
    case False
    then obtain cs where cs: "(case comps of Some cs \<Rightarrow> Inr cs | None \<Rightarrow> invoice_components db iv) = Inr cs"
      using run by (auto split: sum.splits exn.splits)
    have cs': "cs \<noteq> []" "\<forall>c \<in> set cs. placed db c"
      using cs Cons.prems(4,5) invoice_components_placed[of db iv] by (auto split: option.splits)
    obtain parts b1 where parts: "prorate_event_cents (map rc_cents cs) ?delta t = Inr parts"
      "bucket_parts db company (zip cs parts) b = Inr b1"
      "walk_events db company iv t start until evs ?cum ?now (Some cs) b1 = Inr (b', False)"
      using run False cs cs'(1) by (auto simp: bindR_eq_Inr)
    have "\<bar>?delta\<bar> \<le> t" using Cons.prems(2) clamp_diff[OF Cons.prems(3)] by simp
    then have sum: "sum_list parts = ?delta" "length parts = length cs"
      using prorate_sum[OF parts(1)] Cons.prems(3) cs'(1) capped_bounds(2)[of ?delta t] by simp_all
    have "slot_sum b1 = slot_sum b - sum_list (map snd (zip cs parts))"
      by (rule bucket_parts_sum[OF parts(2)]) (use cs'(2) in \<open>auto dest: set_zip_leftD\<close>)
    then have "slot_sum b1 = slot_sum b - ?delta" using sum by simp
    then show ?thesis
      using Cons.IH[OF parts(3) refl Cons.prems(3)] cs' False Cons.prems(2) ev by auto
  qed
qed simp

lemma recognized_telescopes:
  "(\<And>e. e \<in> set evs \<Longrightarrow> start \<le> fst e \<and> fst e \<le> until) \<Longrightarrow>
   recognized t start until evs cum = min (max (cum + sum_list (map snd evs)) 0) t - min (max cum 0) t"
  by (induction evs arbitrary: cum) (auto simp: add.assoc)

text \<open>
  Cash-basis revenue of an invoice.  Whenever the walk over the events of an invoice with a positive
  total returns without skipping it, the buckets grow, in the credit sign, by exactly the change of the
  running cash clamped between zero and the total, summed over the events in the window; over a window
  that holds all events this is the clamped cash itself, never negative and never more than the total.
\<close>

theorem cash_walk_recognizes_clamped_cash:
  assumes "walk_events db company iv t start until evs 0 0 None b = Inr (b', False)" "0 < t"
    and "invoice_components db iv \<noteq> Inr []"
  shows "slot_sum b' = slot_sum b - recognized t start until evs 0 \<and>
    ((\<forall>e \<in> set evs. start \<le> fst e \<and> fst e \<le> until) \<longrightarrow>
       slot_sum b' = slot_sum b - min (max (sum_list (map snd evs)) 0) t)"
  using walk_events_sum[OF assms(1) _ assms(2)] assms(2,3) recognized_telescopes[of evs start until t 0] by auto

theorem cash_walk_recognizes_clamped_cash_witness:
  "\<exists>b. walk_events payment_db ''gdx'' untaxed_invoice 10000 (Date 2026 1 1) (Date 2026 12 31) [(Date 2026 3 5, 12000)] 0 0 None [] =
     Inr (b, False) \<and> slot_sum b = - 10000"
proof -
  let ?w = "walk_events payment_db ''gdx'' untaxed_invoice 10000 (Date 2026 1 1) (Date 2026 12 31) [(Date 2026 3 5, 12000)] 0 0 None []"
  have "map_sum id snd ?w = Inr False" by code_simp
  then obtain b where b: "?w = Inr (b, False)" by (cases ?w) auto
  have "map_sum id (map rc_cents) (invoice_components payment_db untaxed_invoice) = Inr [10000]" by code_simp
  then have "invoice_components payment_db untaxed_invoice \<noteq> Inr []" by auto
  from cash_walk_recognizes_clamped_cash[OF b _ this] b show ?thesis by (auto simp: slot_sum_def less_eq_date_def)
qed

end
