(* ===== verification/Ledger_System.thy ===== *)
theory Ledger_System
  imports Ledger_Opening Invoice_Void Cash_Basis
begin

text \<open>
  The ledger as one system.  A call of any ledger operation, an edit of operational rows and the application of an opening are
  steps on the database; every database reached from an empty one is sound, so its reports prove out, and no step
  rewrites what an earlier one posted.
\<close>

section \<open>Steps\<close>

datatype ledger_call =
    SeedLedger string
  | TransitionInvoice invoice invoice_status
  | RepostInvoice invoice
  | PostOpeningBalance invoice
  | ReceivePayment payment invoice
  | ResettlePayments invoice "date option"
  | PostAdjustment adjustment_kind adjustment invoice
  | VoidPostings invoice string
  | RecordExpense expense
  | RepostExpense expense
  | ReverseEntry gl_entry "date option" bool
  | OpeningPhase string
  | ReplayPhase string
  | RepairDuplicates string string "date option"

definition discard :: "'a gl \<Rightarrow> unit gl" where
  "discard m = andthen m (\<lambda>_. ok ())"

fun run_call :: "gl_env \<Rightarrow> string option \<Rightarrow> ledger_call \<Rightarrow> unit gl" where
  "run_call env actor (SeedLedger company) = discard (ensure_gl_seed company)"
| "run_call env actor (TransitionInvoice iv st) = discard (transition_invoice_status POSTING_RULES env iv st actor)"
| "run_call env actor (RepostInvoice iv) = repost_invoice_issuance env iv actor"
| "run_call env actor (PostOpeningBalance iv) = discard (post_opening_balance env iv actor)"
| "run_call env actor (ReceivePayment p iv) = discard (post_payment_received env p iv actor)"
| "run_call env actor (ResettlePayments iv fb) = resettle_invoice_payments env iv actor fb"
| "run_call env actor (PostAdjustment k adj iv) = discard (adjustment_poster k env adj iv actor)"
| "run_call env actor (VoidPostings iv who) = void_postings env iv who"
| "run_call env actor (RecordExpense x) = discard (post_expense_recorded env x actor)"
| "run_call env actor (RepostExpense x) = repost_expense env x actor"
| "run_call env actor (ReverseEntry e eff ov) = discard (reverse_entry env e eff actor ov)"
| "run_call env actor (OpeningPhase company) = discard (run_opening env company)"
| "run_call env actor (ReplayPhase company) = discard (run_replay env company)"
| "run_call env actor (RepairDuplicates company who d) = discard (reverse_duplicate_one_shot_entries env company who d)"

text \<open>
  The rows the office owns may change between calls in any way; the chart and the journal may not.  A call that raises leaves the state
  it had reached; a rollback to the state before is no step at all.
\<close>

definition office_edit :: "gl_db \<Rightarrow> gl_db \<Rightarrow> bool" where
  "office_edit db db' \<longleftrightarrow> db_accounts db' = db_accounts db \<and> db_entries db' = db_entries db \<and> db_lines db' = db_lines db \<and>
     db_uuid db \<le> db_uuid db'"

inductive ledger_step :: "gl_db \<Rightarrow> gl_db \<Rightarrow> bool" where
  call: "digest_ok env \<Longrightarrow> run_call env actor c db = (r, db') \<Longrightarrow> ledger_step db db'"
| edit: "office_edit db db' \<Longrightarrow> ledger_step db db'"
| opened: "digest_ok env \<Longrightarrow> apply_opening env company actor ec er b = (r, b') \<Longrightarrow> ledger_step (bb_gl b) (bb_gl b')"

inductive reachable :: "gl_db \<Rightarrow> bool" where
  start: "reachable empty_db"
| step: "reachable db \<Longrightarrow> ledger_step db db' \<Longrightarrow> reachable db'"

section \<open>What every step keeps\<close>

definition journal_kept :: "gl_db \<Rightarrow> gl_db \<Rightarrow> bool" where
  "journal_kept db db' \<longleftrightarrow>
     length (db_entries db) \<le> length (db_entries db') \<and>
     (\<forall>i < length (db_entries db). gl_entries_immutable (db_entries db ! i) (db_entries db' ! i)) \<and>
     prefix (db_lines db) (db_lines db') \<and> a_id ` set (db_accounts db) \<subseteq> a_id ` set (db_accounts db')"

definition system_step :: "gl_db \<Rightarrow> gl_db \<Rightarrow> bool" where
  "system_step db db' \<longleftrightarrow>
     (ledger_inv db \<and> accounts_ok db \<longrightarrow> ledger_inv db' \<and> accounts_ok db' \<and> journal_kept db db')"

interpretation system: tracked system_step
proof
  show "system_step s s" for s by (simp add: system_step_def journal_kept_def gl_entries_immutable_refl)
  fix s t u assume "system_step s t" and "system_step t u"
  moreover have "journal_kept s u" if st: "journal_kept s t" and tu: "journal_kept t u"
  proof -
    have "gl_entries_immutable (db_entries s ! i) (db_entries u ! i)" if "i < length (db_entries s)" for i
      using st tu that gl_entries_immutable_trans[of "db_entries s ! i" "db_entries t ! i" "db_entries u ! i"]
      by (simp add: journal_kept_def)
    then show ?thesis using st tu unfolding journal_kept_def by (meson order.trans prefix_order.trans)
  qed
  ultimately show "system_step s u" by (auto simp: system_step_def)
qed

lemma extends_journal: "extends db db' \<Longrightarrow> journal_kept db db'"
  by (auto simp: extends_def journal_kept_def prefix_def)

lemma system_of: "tracks sound_step m \<Longrightarrow> tracks (books_step {}) m \<Longrightarrow> tracks system_step m"
  by (auto simp: tracks_def system_step_def sound_step_def books_step_def intro: extends_journal)

lemma system_frame: "office_edit db db' \<Longrightarrow> system_step db db'"
  using sound_frame[of db' db] books_frame[of db' db "{}"]
  by (auto simp: office_edit_def system_step_def sound_step_def books_step_def intro: extends_journal)

lemma discard_tracks: "tracks system_step m \<Longrightarrow> tracks system_step (discard m)"
  unfolding discard_def by (intro system.tracks_rules)

section \<open>The calls\<close>

lemma seed_system: "tracks system_step (ensure_gl_seed c)"
proof -
  have "tracks system_step (seed_coa c)"
  proof (rule system_of)
    show "tracks sound_step (seed_coa c)" by (simp add: tracks_def seed_coa_def Let_def sound_add_rows)
    show "tracks (books_step {}) (seed_coa c)" by (simp add: tracks_def seed_coa_def Let_def books_add_rows)
  qed
  moreover have "tracks system_step (ensure_gl_settings c)"
    unfolding tracks_def using ensure_gl_settings_frames[of c]
    by (auto simp: tracks_def journal_frame_def ensure_gl_settings_def put_settings_def Let_def office_edit_def
        split: option.splits sum.splits intro!: system_frame)
  ultimately show ?thesis unfolding ensure_gl_seed_def by (intro system.tracks_rules)
qed

lemma transition_system: "digest_ok env \<Longrightarrow> tracks system_step (transition_invoice_status POSTING_RULES env iv st actor)"
proof (rule system_of)
  assume env: "digest_ok env"
  show "tracks sound_step (transition_invoice_status POSTING_RULES env iv st actor)"
    by (rule transition_sound) (auto simp: rules_sound_def POSTING_RULES_def intro: post_invoice_issuance_sound[OF env] tracking split: if_splits)
  have w: "tracks (books_step {}) (change (sanctioned_write u s))" for u s
    by (rule books.tracks_change, rule books_frame) (simp_all add: sanctioned_write_def)
  have e: "tracks (books_step {}) (change (\<lambda>db. db\<lparr>db_events := db_events db @ es\<rparr>))" for es
    by (rule books.tracks_change, rule books_frame) simp_all
  have r: "tracks (books_step {}) (case POSTING_RULES a b of None \<Rightarrow> ok () | Some rule \<Rightarrow> rule env i a b actor)" for a b i
    by (auto simp: POSTING_RULES_def intro: tracking books.tracks_rules)
  show "tracks (books_step {}) (transition_invoice_status POSTING_RULES env iv st actor)"
    unfolding transition_invoice_status_def Let_def by (intro books.tracks_rules w e r)
qed

lemma adjustment_system:
  assumes "digest_ok env"
  shows "tracks system_step (adjustment_poster k env adj iv actor)" "tracks system_step (reverse_invoice_adjustments env iv actor)"
    "tracks system_step (settle_opening_on_void env iv actor)"
  by (intro system_of adjustment_poster_tracks tracking post_one_shot_sound settle_opening_on_void_sound assms)+

lemma void_postings_system: "digest_ok env \<Longrightarrow> tracks system_step (void_postings env iv who)"
  unfolding void_postings_def by (intro system.tracks_rules transition_system adjustment_system)

lemma reverse_entry_system: "tracks system_step (reverse_entry env e eff by ov)"
  by (intro system_of tracking)

lemma repair_system: "tracks system_step (reverse_duplicate_one_shot_entries env company who d)"
  unfolding reverse_duplicate_one_shot_entries_def repair_group_def reverse_all_def get_entries_def Let_def
  by (intro system.tracks_rules system.tracks_fold_sem reverse_entry_system)

lemma run_call_system: "digest_ok env \<Longrightarrow> tracks system_step (run_call env actor c)"
proof (cases c)
  case (ReceivePayment p iv)
  assume "digest_ok env"
  then show ?thesis unfolding ReceivePayment by (simp, intro discard_tracks system_of tracking post_payment_received_sound)
qed (auto intro!: discard_tracks seed_system transition_system adjustment_system void_postings_system reverse_entry_system repair_system
    system_of[OF repost_invoice_issuance_sound repost_books(1)] system_of[OF post_opening_balance_sound issuance_books(3)]
    system_of[OF resettle_invoice_payments_sound resettle_books] system_of[OF post_expense_recorded_sound repost_books(3)]
    system_of[OF repost_expense_sound repost_books(2)] system_of[OF phases_sound(1) phases_books(1)]
    system_of[OF phases_sound(2) phases_books(2)])

section \<open>The opening\<close>

definition on_ledger_of :: "(gl_db \<Rightarrow> gl_db \<Rightarrow> bool) \<Rightarrow> bank_books \<Rightarrow> bank_books \<Rightarrow> bool" where
  "on_ledger_of R b b' \<longleftrightarrow> R (bb_gl b) (bb_gl b')"

interpretation books_system: tracked "on_ledger_of system_step"
  by unfold_locales (auto simp: on_ledger_of_def system.R_refl intro: system.R_trans)

lemma on_books_system: "tracks system_step m \<Longrightarrow> tracks (on_ledger_of system_step) (on_books m)"
  unfolding tracks_def on_ledger_of_def on_books_def by (auto split: prod.splits sum.splits) (metis snd_conv)+

lemma beside_ledger: "(\<And>b. bb_gl (f b) = bb_gl b) \<Longrightarrow> tracks (on_ledger_of system_step) (change f)"
  by (intro books_system.tracks_change) (simp add: on_ledger_of_def system.R_refl)

lemma edit_system: "(\<And>db. office_edit db (f db)) \<Longrightarrow> tracks system_step (change f)"
  by (intro system.tracks_change system_frame)

lemma rename_account_system: "system_step db (rename_account u n db)"
proof -
  let ?db = "rename_account u n db"
  have ids: "map a_id (db_accounts ?db) = map a_id (db_accounts db)" by (simp add: rename_account_def)
  have same: "db_entries ?db = db_entries db" "db_lines ?db = db_lines db" "db_uuid ?db = db_uuid db" by (simp_all add: rename_account_def)
  have "accounts_ok ?db" if "accounts_ok db"
    using that ids same arg_cong[OF ids, of set] unfolding accounts_ok_def set_map by (metis (no_types, lifting) imageE imageI)
  then show ?thesis
    using ledger_inv_frame[of ?db db] same arg_cong[OF ids, of set]
    by (simp add: system_step_def journal_kept_def gl_entries_immutable_refl del: map_map)
qed

lemma new_account_system:
  "a_id a = db_uuid db \<Longrightarrow> system_step db (db\<lparr>db_accounts := db_accounts db @ [a], db_uuid := Suc (db_uuid db)\<rparr>)"
proof -
  assume a: "a_id a = db_uuid db"
  let ?db = "db\<lparr>db_accounts := db_accounts db @ [a], db_uuid := Suc (db_uuid db)\<rparr>"
  have "accounts_ok ?db" if ok: "accounts_ok db"
  proof -
    have "b \<in> set (db_accounts db) \<Longrightarrow> a_id b < db_uuid db" for b using ok by (simp add: accounts_ok_def)
    then have "a_id a \<notin> a_id ` set (db_accounts db)" "\<forall>b \<in> set (db_accounts ?db). a_id b < db_uuid ?db"
      using a by (auto simp: less_Suc_eq) blast
    then show ?thesis using ok by (simp add: accounts_ok_def)
  qed
  moreover have "ledger_inv ?db" if "ledger_inv db" by (rule ledger_inv_frame[OF _ _ _ that]) simp_all
  ultimately show ?thesis by (auto simp: system_step_def journal_kept_def gl_entries_immutable_refl)
qed

lemma new_bank_gl_system: "tracks system_step (new_bank_gl company name code)"
  by (simp add: tracks_def new_bank_gl_def Let_def new_account_system)

lemma bank_gl_account_system: "tracks system_step (bank_gl_account company operating idx mapped name code)"
  unfolding bank_gl_account_def
  by (intro system.tracks_rules new_bank_gl_system system.tracks_change rename_account_system)

lemma post_bank_opening_system: "digest_ok env \<Longrightarrow> tracks system_step (post_bank_opening env company bank d c acct ct name actor)"
  unfolding post_bank_opening_def reverse_entries_def
  by (intro system.tracks_rules reverse_entry_system system_of post_for_event_tracks tracking)

lemma apply_opening_system:
  assumes env: "digest_ok env"
  shows "tracks (on_ledger_of system_step) (apply_opening env company actor ec er)"
proof -
  have "tracks (on_ledger_of system_step) (open_bank_account env company actor d operating p acc)" for d operating p acc
    unfolding open_bank_account_def open_usable_def
    by (cases p) (auto intro!: books_system.tracks_rules on_books_system bank_gl_account_system post_bank_opening_system env
        beside_ledger simp: set_bank_gl_def)
  moreover have "office_edit db (set_cutover company d db)" "office_edit db (ensure_exact_lock company d db)" for db d
    by (simp_all add: office_edit_def set_cutover_def ensure_exact_lock_def)
  ultimately show ?thesis
    unfolding apply_opening_def reverse_entries_def
    by (intro books_system.tracks_rules books_system.tracks_fold_sem on_books_system system.tracks_rules reverse_entry_system
        edit_system seed_system beside_ledger system_of[OF phases_sound(1)[OF env] phases_books(1)]) (simp_all add: attest_def)
qed

section \<open>Every reachable ledger\<close>

lemma ledger_step_system: "ledger_step db db' \<Longrightarrow> system_step db db'"
proof (induction rule: ledger_step.induct)
  case (call env actor c db r db')
  then show ?case using tracksD[OF run_call_system] by blast
next
  case (edit db db')
  then show ?case by (rule system_frame)
next
  case (opened env company actor ec er b r b')
  then show ?case using tracksD[OF apply_opening_system] unfolding on_ledger_of_def by blast
qed

lemma ledger_steps_system: "ledger_step\<^sup>*\<^sup>* db db' \<Longrightarrow> system_step db db'"
  by (induction rule: rtranclp_induct) (auto intro: system.R_refl system.R_trans ledger_step_system)

lemma reachable_steps: "reachable db \<longleftrightarrow> ledger_step\<^sup>*\<^sup>* empty_db db"
proof
  show "reachable db \<Longrightarrow> ledger_step\<^sup>*\<^sup>* empty_db db"
    by (induction rule: reachable.induct) (auto intro: rtranclp.rtrancl_into_rtrancl)
  show "ledger_step\<^sup>*\<^sup>* empty_db db \<Longrightarrow> reachable db"
    by (induction rule: rtranclp_induct) (auto intro: reachable.intros)
qed

lemma reachable_ok: "reachable db \<Longrightarrow> ledger_inv db \<and> accounts_ok db"
  using ledger_steps_system[of empty_db db] ledger_inv_empty
  by (auto simp: reachable_steps system_step_def accounts_ok_def empty_db_def)



section \<open>A run\<close>

text \<open>The office creates an invoice and the settings, the chart is seeded, and the opening phase posts the invoice's anchor.\<close>

definition office_rows :: gl_db where
  "office_rows = empty_db\<lparr>db_settings := [(fresh_settings ''gdx'')\<lparr>s_enabled := True, s_cutover := Some (Date 2026 4 15)\<rparr>],
     db_invoices := [untaxed_invoice]\<rparr>"

definition anchored_db :: gl_db where
  "anchored_db = snd (run_call sample_env None (OpeningPhase ''gdx'') office_rows)"

lemma office_rows_reachable: "reachable office_rows"
  by (rule reachable.step[OF reachable.start], rule ledger_step.edit) (simp add: office_edit_def office_rows_def)

lemma anchored_step: "ledger_step office_rows anchored_db"
  unfolding anchored_db_def by (rule ledger_step.call[OF sample_digest_ok]) (rule surjective_pairing)



end
