(* ===== verification/Bank_Models.thy ===== *)
theory Bank_Models
  imports Ledger_Opening
begin

text \<open>
  \<^verbatim>\<open>modules/bank_feeds/statement_models.py\<close> and the vendor-bill tables beside it: bank accounts, statement imports, evidence lines with
  their attestations and scans, matches with their two kinds of children, and the database state \<open>bank_db\<close> that the statement
  service and the matcher share with the ledger.
\<close>

datatype line_section = SECTION_DEPOSIT | SECTION_DEBIT | SECTION_CHECK | SECTION_SERVICE_CHARGE | SECTION_INTEREST

abbreviation "TIE_OUT_PASSED \<equiv> ''passed''"
abbreviation "TIE_OUT_FAILED \<equiv> ''failed''"

record registered_account = bank_account +
  ba_institution :: string

text \<open>One check of the tie-out report, and what the report shows on each side of it.\<close>

record overlap_failure =
  ov_other :: uuid
  ov_window :: "date \<times> date"
  ov_existing_unmatched :: nat
  ov_new_unmatched :: nat
  ov_drift :: "(date \<times> int \<times> string) list"

datatype check_value =
    CInt int
  | CText string
  | CDaily "(date \<times> int \<times> int) list"
  | COverlap "overlap_failure list"

record tie_check =
  tc_name :: string
  tc_ok :: bool
  tc_expected :: check_value
  tc_actual :: check_value

datatype continuity_warning =
    MismatchPredecessor date int int
  | MismatchSuccessor date int int

record tie_out_report =
  tr_checks :: "tie_check list"
  tr_warnings :: "continuity_warning list"

record bank_import = statement +
  im_id :: uuid
  im_sha :: string
  im_filename :: "string option"
  im_deposits_count :: "nat option"
  im_deposits_total :: int
  im_debits_count :: "nat option"
  im_debits_total :: int
  im_service_charge :: int
  im_interest :: int
  im_report :: tie_out_report
  im_lines_added :: nat
  im_lines_deduped :: nat
  im_imported_by :: "string option"

record bank_line =
  bl_id :: uuid
  bl_account :: uuid
  bl_import :: uuid
  bl_date :: date
  bl_amount :: int
  bl_description :: string
  bl_section :: line_section
  bl_check_number :: "string option"
  bl_occurrence :: nat
  bl_hash :: string

text \<open>An attestation: the import vouches for the line.\<close>

record line_source =
  so_line :: uuid
  so_import :: uuid

record line_image =
  im_of :: uuid
  im_line :: "uuid option"
  im_check_no :: "string option"
  im_amount :: "int option"
  im_date :: "date option"
  im_sort_order :: nat

datatype match_status = MATCH_SUGGESTED | MATCH_CONFIRMED | MATCH_REJECTED

record bank_match =
  bm_id :: uuid
  bm_account :: uuid
  bm_rule :: string
  bm_status :: match_status
  bm_classification :: "string option"
  bm_confidence :: "nat option"
  bm_note :: "string option"
  bm_created_by :: "string option"
  bm_confirmed_by :: "string option"
  bm_confirmed_at :: "datetime option"
  bm_created_expense :: "uuid option"

record match_line =
  ml_match :: uuid
  ml_line :: uuid
  ml_status :: match_status

datatype source_table = Payments | Expenses | VendorInvoices

record match_external =
  mx_match :: uuid
  mx_table :: source_table
  mx_source :: uuid
  mx_status :: match_status

section \<open>Vendor bills\<close>

datatype bill_status = STATUS_OPEN | STATUS_PAID | STATUS_VOID

record vendor_bill =
  vb_id :: uuid
  vb_date :: "date option"
  vb_total :: "decimal option"
  vb_status :: bill_status

record bill_payment =
  bp_id :: uuid
  bp_bill :: uuid
  bp_amount :: decimal
  bp_date :: "date option"
  bp_source :: string
  bp_reference :: "string option"
  bp_match :: "uuid option"
  bp_statement :: "uuid option"
  bp_created_by :: "string option"
  bp_created_at :: datetime
  bp_voided_at :: "datetime option"
  bp_voided_by :: "string option"

record bill_line =
  vl_bill :: uuid
  vl_expense :: "uuid option"

text \<open>The columns of an expense that the ledger does not read.\<close>

record expense_meta =
  xm_expense :: uuid
  xm_source :: string
  xm_status :: "string option"
  xm_updated_at :: datetime

section \<open>The state\<close>

record bank_db =
  bd_gl :: gl_db
  bd_accounts :: "registered_account list"
  bd_imports :: "bank_import list"
  bd_lines :: "bank_line list"
  bd_sources :: "line_source list"
  bd_images :: "line_image list"
  bd_matches :: "bank_match list"
  bd_match_lines :: "match_line list"
  bd_match_externals :: "match_external list"
  bd_bills :: "vendor_bill list"
  bd_bill_payments :: "bill_payment list"
  bd_bill_lines :: "bill_line list"
  bd_expense_meta :: "expense_meta list"
  bd_attested :: "(string \<times> datetime \<times> string) list"
  bd_uuid :: uuid

definition empty_bank_db :: bank_db where
  "empty_bank_db = \<lparr>bd_gl = empty_db, bd_accounts = [], bd_imports = [], bd_lines = [], bd_sources = [], bd_images = [],
     bd_matches = [], bd_match_lines = [], bd_match_externals = [], bd_bills = [], bd_bill_payments = [], bd_bill_lines = [],
     bd_expense_meta = [], bd_attested = [], bd_uuid = 0\<rparr>"

text \<open>
  What an operation may raise: a ledger or database exception, a void refused because of so many confirmed matches, the
  coded refusals of the matcher and of the bill payments, the refresh of a row that is gone, and a missing dictionary key.
\<close>

datatype bank_exn = LedgerRaised exn | VoidRefused nat | MatchError string | PaymentError string | InvalidRequestError | KeyError

type_synonym 'a bank = "(bank_db, bank_exn, 'a) sem"

text \<open>What \<open>apply_opening\<close> sees of the state.\<close>

definition opening_books :: "bank_db \<Rightarrow> bank_books" where
  "opening_books db = \<lparr>bb_gl = bd_gl db, bb_accounts = map bank_account.truncate (bd_accounts db),
     bb_statements = map statement.truncate (bd_imports db), bb_attested = bd_attested db\<rparr>"

end
