(* ===== verification/Bank_Statements.thy ===== *)
theory Bank_Statements
  imports Bank_Models
begin

text \<open>
  \<^verbatim>\<open>modules/bank_feeds/statement_service.py\<close>: the tie-out gate, the overlap check, the import of a statement's evidence and the
  void of an import.  A statement contributes all its lines or none.  The parser of the PDF is an argument
  (\<open>parse\<close>, \<open>scans\<close>): text extraction and image decoding are a library's.
\<close>

section \<open>A parsed statement\<close>

record caption_entry =
  cp_check_no :: string
  cp_amount :: int
  cp_date :: date

record parsed_txn =
  t_date :: date
  t_amount :: int
  t_anchor :: string
  t_description :: string
  t_section :: line_section
  t_check_number :: "string option"

record parsed_statement =
  ps_last4 :: string
  ps_title :: string
  ps_kind :: string
  ps_start :: date
  ps_end :: date
  ps_beginning :: int
  ps_ending :: int
  ps_deposits_count :: "nat option"
  ps_deposits_total :: int
  ps_debits_count :: "nat option"
  ps_debits_total :: int
  ps_service_charge :: int
  ps_interest :: int
  ps_lines :: "parsed_txn list"
  ps_daily :: "(date \<times> int) list"
  ps_captions :: "caption_entry list"
  ps_sc_detail :: int
  ps_has_sc_detail :: bool

datatype parse_failure = StatementParseError | StatementStructureError

definition INSTITUTION :: string where
  "INSTITUTION = ''Primary Bank''"

definition MAX_STATEMENT_BYTES :: int where
  "MAX_STATEMENT_BYTES = 10 * 1024 * 1024"

section \<open>Line hashes\<close>

text \<open>\<^verbatim>\<open>re.sub(r"\s+", " ", s)\<close>\<close>

function squeeze :: "string \<Rightarrow> string" where
  "squeeze [] = []"
| "squeeze (c # cs) = (if is_blank c then CHR '' '' # squeeze (dropWhile is_blank cs) else c # squeeze cs)"
  by pat_completeness auto

termination
  by (relation "measure length") (auto simp: less_Suc_eq_le intro: length_dropWhile_le)

definition normalize_anchor :: "string \<Rightarrow> string" where
  "normalize_anchor s = lower (strip (squeeze s))"

definition line_key :: "string \<Rightarrow> string \<Rightarrow> date \<Rightarrow> int \<Rightarrow> string \<Rightarrow> nat \<Rightarrow> string" where
  "line_key institution last4 d amount anchor n =
     institution @ ''|'' @ last4 @ ''|'' @ isoformat d @ ''|'' @ int_str amount @ ''|'' @ normalize_anchor anchor @ ''|'' @ nat_str n"

definition compute_line_hash :: "gl_env \<Rightarrow> string \<Rightarrow> string \<Rightarrow> date \<Rightarrow> int \<Rightarrow> string \<Rightarrow> nat \<Rightarrow> string" where
  "compute_line_hash env institution last4 d amount anchor n = sha256_hex env (line_key institution last4 d amount anchor n)"

type_synonym txn_key = "date \<times> int \<times> string"
type_synonym hashed_line = "parsed_txn \<times> nat \<times> string"

definition txn_key :: "parsed_txn \<Rightarrow> txn_key" where
  "txn_key t = (t_date t, t_amount t, normalize_anchor (t_anchor t))"

fun number_lines :: "(txn_key \<times> nat) list \<Rightarrow> parsed_txn list \<Rightarrow> (parsed_txn \<times> nat) list" where
  "number_lines seen [] = []"
| "number_lines seen (t # ts) =
     (let occurrence = Suc (case map_of seen (txn_key t) of None \<Rightarrow> 0 | Some n \<Rightarrow> n)
      in (t, occurrence) # number_lines (AList.update (txn_key t) occurrence seen) ts)"

definition hashed_lines :: "gl_env \<Rightarrow> parsed_statement \<Rightarrow> hashed_line list" where
  "hashed_lines env ps = map (\<lambda>(t, n). (t, n, compute_line_hash env INSTITUTION (ps_last4 ps) (t_date t) (t_amount t) (t_anchor t) n))
     (number_lines [] (ps_lines ps))"

section \<open>The tie-out\<close>

definition cents_of :: "parsed_txn list \<Rightarrow> int" where
  "cents_of ts = sum_list (map t_amount ts)"

definition check_int :: "string \<Rightarrow> int \<Rightarrow> int \<Rightarrow> tie_check" where
  "check_int name expected actual = \<lparr>tc_name = name, tc_ok = (actual = expected), tc_expected = CInt expected, tc_actual = CInt actual\<rparr>"

definition check_count :: "string \<Rightarrow> nat option \<Rightarrow> parsed_txn list \<Rightarrow> tie_check list" where
  "check_count name printed ts = (case printed of None \<Rightarrow> [] | Some n \<Rightarrow> [check_int name (int n) (int (length ts))])"

definition running_balance :: "parsed_statement \<Rightarrow> date \<Rightarrow> int" where
  "running_balance ps d = ps_beginning ps + cents_of (filter (\<lambda>t. t_date t \<le> d) (ps_lines ps))"

definition daily_failures :: "parsed_statement \<Rightarrow> (date \<times> int \<times> int) list" where
  "daily_failures ps = concat (map (\<lambda>(d, bal). let run = running_balance ps d in if run \<noteq> bal then [(d, bal, run)] else []) (ps_daily ps))"

definition tie_out_checks :: "parsed_statement \<Rightarrow> tie_check list" where
  "tie_out_checks ps =
     (let dep = filter (\<lambda>t. t_section t = SECTION_DEPOSIT) (ps_lines ps);
          deb = filter (\<lambda>t. t_section t = SECTION_DEBIT \<or> t_section t = SECTION_CHECK) (ps_lines ps);
          sc = filter (\<lambda>t. t_section t = SECTION_SERVICE_CHARGE) (ps_lines ps);
          intr = filter (\<lambda>t. t_section t = SECTION_INTEREST) (ps_lines ps);
          eq = ps_beginning ps + ps_deposits_total ps + ps_interest ps - ps_debits_total ps - ps_service_charge ps;
          failures = daily_failures ps
      in [check_int ''summary_equation'' (ps_ending ps) eq]
       @ check_count ''deposits_count'' (ps_deposits_count ps) dep
       @ [check_int ''deposits_total'' (ps_deposits_total ps) (cents_of dep)]
       @ check_count ''debits_count'' (ps_debits_count ps) deb
       @ [check_int ''debits_total'' (ps_debits_total ps) (- cents_of deb),
          check_int ''service_charge_rows'' (ps_service_charge ps) (- cents_of sc)]
       @ (if ps_has_sc_detail ps then [check_int ''service_charge_detail'' (ps_service_charge ps) (ps_sc_detail ps)] else [])
       @ [check_int ''interest_rows'' (ps_interest ps) (cents_of intr),
          \<lparr>tc_name = ''daily_recompute'', tc_ok = (failures = []), tc_expected = CText (nat_str (length (ps_daily ps)) @ '' rows''),
           tc_actual = (if failures = [] then CText ''all match'' else CDaily failures)\<rparr>,
          check_int ''ending_equation'' (ps_ending ps) (ps_beginning ps + cents_of (ps_lines ps))])"

definition compute_tie_out :: "parsed_statement \<Rightarrow> string \<times> tie_check list" where
  "compute_tie_out ps =
     (let checks = tie_out_checks ps in (if list_all tc_ok checks then TIE_OUT_PASSED else TIE_OUT_FAILED, checks))"

section \<open>Against the imports on file\<close>

definition passed_imports :: "bank_db \<Rightarrow> uuid \<Rightarrow> bank_import list" where
  "passed_imports db account = filter (\<lambda>i. st_account i = account \<and> st_voided_at i = None \<and> st_tie_out i = TIE_OUT_PASSED) (bd_imports db)"

definition continuity_warnings :: "bank_db \<Rightarrow> uuid \<Rightarrow> parsed_statement \<Rightarrow> continuity_warning list" where
  "continuity_warnings db account ps =
     concat (map (\<lambda>other.
       (if add_days (st_end other) 1 = ps_start ps \<and> st_ending other \<noteq> ps_beginning ps
        then [MismatchPredecessor (st_end other) (st_ending other) (ps_beginning ps)] else [])
       @ (if add_days (ps_end ps) 1 = st_start other \<and> ps_ending ps \<noteq> st_beginning other
          then [MismatchSuccessor (st_start other) (st_beginning other) (ps_ending ps)] else [])) (passed_imports db account))"

text \<open>The lines an import attests, in the order of its attestations.\<close>

definition get_line :: "bank_db \<Rightarrow> uuid \<Rightarrow> bank_line option" where
  "get_line db u = first (filter (\<lambda>l. bl_id l = u) (bd_lines db))"

definition attested :: "bank_db \<Rightarrow> uuid \<Rightarrow> bank_line list" where
  "attested db i = concat (map (\<lambda>s. filter (\<lambda>l. bl_id l = so_line s) (bd_lines db)) (filter (\<lambda>s. so_import s = i) (bd_sources db)))"

definition in_window :: "date \<Rightarrow> date \<Rightarrow> date \<Rightarrow> bool" where
  "in_window lo hi d \<longleftrightarrow> lo \<le> d \<and> d \<le> hi"

definition by_hash :: "(string \<times> 'a) list \<Rightarrow> (string \<times> 'a) list" where
  "by_hash rows = foldl (\<lambda>m (h, x). AList.update h x m) [] rows"

definition overlap_with :: "bank_db \<Rightarrow> parsed_statement \<Rightarrow> hashed_line list \<Rightarrow> bank_import \<Rightarrow> overlap_failure list" where
  "overlap_with db ps hashed other =
     (let lo = max (ps_start ps) (st_start other); hi = min (ps_end ps) (st_end other) in
      if lo > hi then []
      else
        let existing = by_hash (map (\<lambda>l. (bl_hash l, l)) (filter (\<lambda>l. in_window lo hi (bl_date l)) (attested db (im_id other))));
            new = by_hash (map (\<lambda>(t, n, h). (h, t)) (filter (\<lambda>(t, n, h). in_window lo hi (t_date t)) hashed));
            missing_from_new = filter (\<lambda>(h, l). h \<notin> fst ` set new) existing;
            missing_from_existing = filter (\<lambda>(h, t). h \<notin> fst ` set existing) new
        in if missing_from_new = [] \<and> missing_from_existing = [] then []
           else
             let existing_da = map (\<lambda>(h, l). (bl_date l, bl_amount l)) missing_from_new;
                 drift = map (\<lambda>(h, t). (t_date t, t_amount t, t_anchor t))
                   (filter (\<lambda>(h, t). (t_date t, t_amount t) \<in> set existing_da) missing_from_existing)
             in [\<lparr>ov_other = im_id other, ov_window = (lo, hi), ov_existing_unmatched = length missing_from_new,
                  ov_new_unmatched = length missing_from_existing, ov_drift = drift\<rparr>])"

definition overlap_integrity :: "bank_db \<Rightarrow> uuid \<Rightarrow> parsed_statement \<Rightarrow> hashed_line list \<Rightarrow> overlap_failure list" where
  "overlap_integrity db account ps hashed = concat (map (overlap_with db ps hashed) (passed_imports db account))"

section \<open>Import\<close>

text \<open>\<^verbatim>\<open>str.title()\<close>: the first letter of every run of letters upper-case, the others lower-case.\<close>

definition is_letter :: "char \<Rightarrow> bool" where
  "is_letter c \<longleftrightarrow> to_lower c \<noteq> c \<or> (97 \<le> (of_char c :: nat) \<and> (of_char c :: nat) \<le> 122)"

definition to_upper :: "char \<Rightarrow> char" where
  "to_upper c = (if 97 \<le> (of_char c :: nat) \<and> (of_char c :: nat) \<le> 122 then char_of ((of_char c :: nat) - 32) else c)"

fun title_case :: "bool \<Rightarrow> string \<Rightarrow> string" where
  "title_case inside [] = []"
| "title_case inside (c # cs) = (if inside then to_lower c else to_upper c) # title_case (is_letter c) cs"

definition fresh_id :: "uuid bank" where
  "fresh_id = (\<lambda>db. (Inr (bd_uuid db), db\<lparr>bd_uuid := Suc (bd_uuid db)\<rparr>))"

definition find_account :: "bank_db \<Rightarrow> string \<Rightarrow> registered_account option" where
  "find_account db last4 = first (filter (\<lambda>a. ba_institution a = INSTITUTION \<and> ba_last4 a = last4) (bd_accounts db))"

definition get_or_create_account :: "parsed_statement \<Rightarrow> registered_account bank" where
  "get_or_create_account ps =
     andthen (asks (\<lambda>db. find_account db (ps_last4 ps))) (\<lambda>found.
     case found of
       Some a \<Rightarrow> ok a
     | None \<Rightarrow>
         andthen fresh_id (\<lambda>u.
         let name = title_case False (ps_title ps);
             a = \<lparr>ba_id = u, ba_name = (if name = [] then ''Account x'' @ ps_last4 ps else name), ba_kind = ps_kind ps,
                  ba_last4 = ps_last4 ps, ba_gl_account = None, ba_institution = INSTITUTION\<rparr>
         in andthen (change (\<lambda>db. db\<lparr>bd_accounts := bd_accounts db @ [a]\<rparr>)) (\<lambda>_. ok a)))"

text \<open>One parsed line: the line of the account with its hash, or a new one; and the attestation, unique per line and import.\<close>

definition attest_line :: "uuid \<Rightarrow> uuid \<Rightarrow> hashed_line \<Rightarrow> nat \<times> nat \<times> uuid list \<Rightarrow> (nat \<times> nat \<times> uuid list) bank" where
  "attest_line account imp row acc = (case row of (t, n, h) \<Rightarrow> case acc of (added, deduped, ids) \<Rightarrow>
     andthen (asks (\<lambda>db. first (filter (\<lambda>l. bl_account l = account \<and> bl_hash l = h) (bd_lines db)))) (\<lambda>found.
     andthen (case found of
                Some l \<Rightarrow> ok (bl_id l, added, Suc deduped)
              | None \<Rightarrow>
                  andthen fresh_id (\<lambda>u.
                  andthen (change (\<lambda>db. db\<lparr>bd_lines := bd_lines db @
                    [\<lparr>bl_id = u, bl_account = account, bl_import = imp, bl_date = t_date t, bl_amount = t_amount t,
                      bl_description = t_description t, bl_section = t_section t, bl_check_number = t_check_number t,
                      bl_occurrence = n, bl_hash = h\<rparr>]\<rparr>)) (\<lambda>_.
                  ok (u, Suc added, deduped)))) (\<lambda>(u, added', deduped').
     andthen (asks (\<lambda>db. list_ex (\<lambda>s. so_line s = u \<and> so_import s = imp) (bd_sources db))) (\<lambda>twice.
     if twice then throw (LedgerRaised IntegrityError)
     else andthen (change (\<lambda>db. db\<lparr>bd_sources := bd_sources db @ [\<lparr>so_line = u, so_import = imp\<rparr>]\<rparr>)) (\<lambda>_.
          ok (added', deduped', ids @ [u]))))))"

text \<open>
  The scans.  Decoding is a library's: for a file it yields nothing recognisable, or per image whether it was saved, could not be
  written (it is skipped), or broke the loop with another exception.
\<close>

datatype scan = Saved | Unwritable | Broken

definition caption_hits :: "caption_entry \<Rightarrow> parsed_txn \<Rightarrow> bool" where
  "caption_hits c t \<longleftrightarrow>
     (if cp_check_no c \<noteq> ''0'' then t_section t = SECTION_CHECK \<and> t_check_number t = Some (cp_check_no c)
      else t_section t = SECTION_DEPOSIT \<and> t_amount t = cp_amount c \<and> t_date t = cp_date c)"

definition line_for :: "(parsed_txn \<times> uuid) list \<Rightarrow> nat list \<Rightarrow> caption_entry \<Rightarrow> nat option" where
  "line_for txns consumed c = first (filter (\<lambda>i. i \<notin> set consumed \<and> caption_hits c (fst (txns ! i))) [0..<length txns])"

fun attach_scans :: "uuid \<Rightarrow> (parsed_txn \<times> uuid) list \<Rightarrow> (nat \<Rightarrow> caption_entry option) \<Rightarrow> nat list \<Rightarrow> nat \<Rightarrow> scan list \<Rightarrow> (bool \<times> line_image list)" where
  "attach_scans imp txns caption consumed i [] = (True, [])"
| "attach_scans imp txns caption consumed i (sc # scs) = (case sc of
     Broken \<Rightarrow> (False, [])
   | Unwritable \<Rightarrow> attach_scans imp txns caption consumed (Suc i) scs
   | Saved \<Rightarrow>
       let c = caption i;
           hit = (case c of None \<Rightarrow> None | Some c' \<Rightarrow> line_for txns consumed c');
           row = \<lparr>im_of = imp, im_line = map_option (\<lambda>k. snd (txns ! k)) hit, im_check_no = map_option cp_check_no c,
                  im_amount = map_option cp_amount c, im_date = map_option cp_date c, im_sort_order = i\<rparr>;
           rest = attach_scans imp txns caption (case hit of None \<Rightarrow> consumed | Some k \<Rightarrow> k # consumed) (Suc i) scs
       in (fst rest, row # snd rest))"

record image_stats =
  is_extracted :: nat
  is_paired :: nat
  is_error :: bool

definition attach_images :: "uuid \<Rightarrow> parsed_statement \<Rightarrow> scan list option \<Rightarrow> uuid list \<Rightarrow> image_stats bank" where
  "attach_images imp ps scans ids = (\<lambda>db. case scans of
     None \<Rightarrow> (Inr \<lparr>is_extracted = 0, is_paired = 0, is_error = False\<rparr>, db)
   | Some [] \<Rightarrow> (Inr \<lparr>is_extracted = 0, is_paired = 0, is_error = False\<rparr>, db)
   | Some scs \<Rightarrow>
       let caption = (\<lambda>i. if length scs = length (ps_captions ps) then Some (ps_captions ps ! i) else None);
           r = attach_scans imp (zip (ps_lines ps) ids) caption [] 0 scs;
           paired = length (filter (\<lambda>m. im_line m \<noteq> None) (snd r))
       in (Inr (if fst r then \<lparr>is_extracted = length scs, is_paired = paired, is_error = False\<rparr>
                else \<lparr>is_extracted = 0, is_paired = 0, is_error = True\<rparr>),
           db\<lparr>bd_images := bd_images db @ snd r\<rparr>))"

record import_done =
  id_import :: uuid
  id_account :: registered_account
  id_tie_out :: string
  id_added :: nat
  id_deduped :: nat
  id_warnings :: "continuity_warning list"
  id_images :: image_stats

datatype import_result =
    TooLarge
  | ParseFailed parse_failure
  | DuplicateFile uuid string
  | FailedTieOut import_done
  | Imported import_done

definition mk_import :: "gl_env \<Rightarrow> uuid \<Rightarrow> uuid \<Rightarrow> string \<Rightarrow> string \<Rightarrow> string option \<Rightarrow> parsed_statement \<Rightarrow> string \<Rightarrow> tie_out_report \<Rightarrow> bank_import" where
  "mk_import env u account sha filename by ps status report =
     \<lparr>st_account = account, st_start = ps_start ps, st_end = ps_end ps, st_beginning = ps_beginning ps, st_ending = ps_ending ps,
      st_tie_out = status, st_voided_at = None, st_created_at = now_utc env, im_id = u, im_sha = sha,
      im_filename = (if filename = [] then None else Some (take 255 filename)),
      im_deposits_count = ps_deposits_count ps, im_deposits_total = ps_deposits_total ps, im_debits_count = ps_debits_count ps,
      im_debits_total = ps_debits_total ps, im_service_charge = ps_service_charge ps, im_interest = ps_interest ps,
      im_report = report, im_lines_added = 0, im_lines_deduped = 0, im_imported_by = by\<rparr>"

definition set_counts :: "uuid \<Rightarrow> nat \<Rightarrow> nat \<Rightarrow> bank_db \<Rightarrow> bank_db" where
  "set_counts u added deduped db = db\<lparr>bd_imports :=
     map (\<lambda>i. if im_id i = u then i\<lparr>im_lines_added := added, im_lines_deduped := deduped\<rparr> else i) (bd_imports db)\<rparr>"

text \<open>The verdict: the arithmetic, then, where it holds, the agreement with every overlapping import.\<close>

definition verdict :: "bank_db \<Rightarrow> uuid \<Rightarrow> parsed_statement \<Rightarrow> hashed_line list \<Rightarrow> string \<times> tie_check list" where
  "verdict db account ps hashed = (case compute_tie_out ps of (status, checks) \<Rightarrow>
     if status = TIE_OUT_PASSED then
       let failures = overlap_integrity db account ps hashed in
       (if failures \<noteq> [] then TIE_OUT_FAILED else status,
        checks @ [\<lparr>tc_name = ''overlap_integrity'', tc_ok = (failures = []),
          tc_expected = CText ''bidirectional hash agreement over period intersections'',
          tc_actual = (if failures = [] then CText ''no conflicts'' else COverlap failures)\<rparr>])
     else (status, checks))"

definition record_statement :: "gl_env \<Rightarrow> string \<Rightarrow> string \<Rightarrow> string option \<Rightarrow> parsed_statement \<Rightarrow> scan list option \<Rightarrow> import_result bank" where
  "record_statement env sha filename by ps scans =
     andthen (get_or_create_account ps) (\<lambda>account.
     let hashed = hashed_lines env ps in
     andthen (asks (\<lambda>db. (verdict db (ba_id account) ps hashed, continuity_warnings db (ba_id account) ps))) (\<lambda>((status, checks), warnings).
     andthen fresh_id (\<lambda>u.
     andthen (change (\<lambda>db. db\<lparr>bd_imports := bd_imports db @
       [mk_import env u (ba_id account) sha filename by ps status \<lparr>tr_checks = checks, tr_warnings = warnings\<rparr>]\<rparr>)) (\<lambda>_.
     if status = TIE_OUT_PASSED then
       andthen (fold_sem (attest_line (ba_id account) u) hashed (0, 0, [])) (\<lambda>(added, deduped, ids).
       andthen (change (set_counts u added deduped)) (\<lambda>_.
       andthen (if ps_captions ps \<noteq> [] then attach_images u ps scans ids
                else ok \<lparr>is_extracted = 0, is_paired = 0, is_error = False\<rparr>) (\<lambda>images.
       ok (Imported \<lparr>id_import = u, id_account = account, id_tie_out = status, id_added = added, id_deduped = deduped,
           id_warnings = warnings, id_images = images\<rparr>))))
     else ok (FailedTieOut \<lparr>id_import = u, id_account = account, id_tie_out = status, id_added = 0, id_deduped = 0,
           id_warnings = warnings, id_images = \<lparr>is_extracted = 0, is_paired = 0, is_error = False\<rparr>\<rparr>)))))"

definition import_statement :: "gl_env \<Rightarrow> (string \<Rightarrow> parse_failure + parsed_statement) \<Rightarrow> (string \<Rightarrow> scan list option) \<Rightarrow>
    string \<Rightarrow> string \<Rightarrow> string option \<Rightarrow> import_result bank" where
  "import_statement env parse scans pdf filename by =
     (if MAX_STATEMENT_BYTES < int (length pdf) then ok TooLarge
      else
        let sha = sha256_hex env pdf in
        andthen (asks (\<lambda>db. first (filter (\<lambda>i. im_sha i = sha \<and> st_voided_at i = None) (bd_imports db)))) (\<lambda>existing.
        case existing of
          Some i \<Rightarrow> ok (DuplicateFile (im_id i) (st_tie_out i))
        | None \<Rightarrow> (case parse pdf of
            Inl e \<Rightarrow> ok (ParseFailed e)
          | Inr ps \<Rightarrow> record_statement env sha filename by ps (scans pdf))))"

section \<open>Void\<close>

datatype void_outcome = AlreadyVoided | Voided nat nat

definition attested_ids :: "bank_db \<Rightarrow> uuid \<Rightarrow> uuid list" where
  "attested_ids db imp = map so_line (filter (\<lambda>s. so_import s = imp) (bd_sources db))"

definition doomed_ids :: "bank_db \<Rightarrow> uuid \<Rightarrow> uuid list" where
  "doomed_ids db imp = filter (\<lambda>u. \<not> list_ex (\<lambda>s. so_line s = u \<and> so_import s \<noteq> imp) (bd_sources db)) (attested_ids db imp)"

definition referencing :: "bank_db \<Rightarrow> uuid list \<Rightarrow> match_line list" where
  "referencing db lines = filter (\<lambda>ml. ml_line ml \<in> set lines) (bd_match_lines db)"

definition drop_matches :: "uuid list \<Rightarrow> bank_db \<Rightarrow> bank_db" where
  "drop_matches ms db = db\<lparr>bd_match_lines := filter (\<lambda>r. ml_match r \<notin> set ms) (bd_match_lines db),
     bd_match_externals := filter (\<lambda>r. mx_match r \<notin> set ms) (bd_match_externals db),
     bd_matches := filter (\<lambda>r. bm_id r \<notin> set ms) (bd_matches db)\<rparr>"

definition drop_import :: "datetime \<Rightarrow> uuid \<Rightarrow> uuid list \<Rightarrow> bank_db \<Rightarrow> bank_db" where
  "drop_import now imp doomed db = db\<lparr>
     bd_images := filter (\<lambda>r. im_of r \<noteq> imp) (bd_images db),
     bd_sources := filter (\<lambda>s. so_import s \<noteq> imp) (bd_sources db),
     bd_lines := filter (\<lambda>l. bl_id l \<notin> set doomed) (bd_lines db),
     bd_imports := map (\<lambda>i. if im_id i = imp then i\<lparr>st_voided_at := Some now\<rparr> else i) (bd_imports db)\<rparr>"

definition void_import :: "gl_env \<Rightarrow> bank_import \<Rightarrow> void_outcome bank" where
  "void_import env imp =
     (if st_voided_at imp \<noteq> None then ok AlreadyVoided
      else
        andthen (asks (\<lambda>db. (attested_ids db (im_id imp), doomed_ids db (im_id imp)))) (\<lambda>(attested, doomed).
        andthen (asks (\<lambda>db. referencing db doomed)) (\<lambda>refs.
        let confirmed = remdups (map ml_match (filter (\<lambda>r. ml_status r = MATCH_CONFIRMED) refs)) in
        if confirmed \<noteq> [] then throw (VoidRefused (length confirmed))
        else
          andthen (change (drop_matches (map ml_match refs))) (\<lambda>_.
          andthen (change (drop_import (now_utc env) (im_id imp) doomed)) (\<lambda>_.
          ok (Voided (length doomed) (length attested - length doomed)))))))"

end
