(* ===== verification/Bank_Evidence.thy ===== *)
theory Bank_Evidence
  imports Bank_Statements
begin

text \<open>
  The archive of statement evidence: what every import and every void keeps of it.
\<close>

section \<open>Line keys\<close>

lemma bar_free [simp]: "CHR ''|'' \<notin> set (isoformat d)" "CHR ''|'' \<notin> set (int_str i)" "CHR ''|'' \<notin> set (nat_str n)"
proof -
  have nd: "\<not> is_digit (CHR ''|'')" by (simp add: is_digit_def)
  show "CHR ''|'' \<notin> set (isoformat d)" unfolding isoformat_def using pad_nat_str_notin[OF nd] by auto
  show "CHR ''|'' \<notin> set (int_str i)" using int_str_chars[of "CHR ''|''" i] nd by auto
  show "CHR ''|'' \<notin> set (nat_str n)" using nd by simp
qed

lemma last_sep_inject:
  assumes "c \<notin> set us" and "c \<notin> set vs"
  shows "xs @ c # us = ys @ c # vs \<longleftrightarrow> xs = ys \<and> us = vs"
proof -
  have "xs @ c # us = ys @ c # vs \<longleftrightarrow> rev us @ c # rev xs = rev vs @ c # rev ys"
    by (metis (no_types, lifting) append.assoc append_Cons append_Nil rev.simps(2) rev_append rev_rev_ident)
  then show ?thesis using assms append_sep_inject[of c "rev us" "rev vs" "rev xs" "rev ys"] by auto
qed

lemma line_key_inject:
  "line_key inst last4 d a x n = line_key inst last4 d' a' x' n' \<longleftrightarrow> d = d' \<and> a = a' \<and> normalize_anchor x = normalize_anchor x' \<and> n = n'"
  by (auto simp: line_key_def append_sep_inject last_sep_inject)

lemma number_lines_fresh:
  "distinct (map (\<lambda>(t, n). (txn_key t, n)) (number_lines seen ts)) \<and>
   (\<forall>(t, n) \<in> set (number_lines seen ts). \<forall>k. map_of seen (txn_key t) = Some k \<longrightarrow> k < n)"
proof (induction seen ts rule: number_lines.induct)
  case (2 seen t ts)
  let ?n = "Suc (case map_of seen (txn_key t) of None \<Rightarrow> 0 | Some n \<Rightarrow> n)"
  let ?seen = "AList.update (txn_key t) ?n seen"
  have ih: "distinct (map (\<lambda>(t, n). (txn_key t, n)) (number_lines ?seen ts))"
    "\<forall>(t', n) \<in> set (number_lines ?seen ts). \<forall>k. map_of ?seen (txn_key t') = Some k \<longrightarrow> k < n" using 2 by auto
  have "(txn_key t, ?n) \<notin> set (map (\<lambda>(t, n). (txn_key t, n)) (number_lines ?seen ts))"
    using ih(2) by (auto simp: update_conv')
  moreover have "k < n" if "(t', n) \<in> set (number_lines ?seen ts)" "map_of seen (txn_key t') = Some k" for t' n k
    using ih(2) that by (cases "txn_key t' = txn_key t") (force simp: update_conv')+
  ultimately show ?case using ih(1) by (auto simp: Let_def split: option.splits)
qed simp

lemma number_lines_map: "map fst (number_lines seen ts) = ts"
  by (induction seen ts rule: number_lines.induct) (simp_all add: Let_def)

section \<open>The archive\<close>

definition live :: "bank_import \<Rightarrow> bool" where
  "live i \<longleftrightarrow> st_voided_at i = None \<and> st_tie_out i = TIE_OUT_PASSED"

definition statement_keys :: "parsed_statement \<Rightarrow> string set" where
  "statement_keys ps = (\<lambda>(t, n). line_key INSTITUTION (ps_last4 ps) (t_date t) (t_amount t) (t_anchor t) n) ` set (number_lines [] (ps_lines ps))"

text \<open>The strings hashed so far: SHA-256 is only asked not to collide on them.\<close>

definition collision_free :: "gl_env \<Rightarrow> string set \<Rightarrow> bool" where
  "collision_free env K \<longleftrightarrow> inj_on (sha256_hex env) K"

definition hashes_itself :: "gl_env \<Rightarrow> string set \<Rightarrow> registered_account \<Rightarrow> bank_line \<Rightarrow> bool" where
  "hashes_itself env K a l \<longleftrightarrow> (\<exists>anchor. line_key INSTITUTION (ba_last4 a) (bl_date l) (bl_amount l) anchor (bl_occurrence l) \<in> K \<and>
     bl_hash l = compute_line_hash env INSTITUTION (ba_last4 a) (bl_date l) (bl_amount l) anchor (bl_occurrence l))"

definition attests :: "bank_db \<Rightarrow> uuid \<Rightarrow> bank_line \<Rightarrow> bool" where
  "attests db i l \<longleftrightarrow> \<lparr>so_line = bl_id l, so_import = i\<rparr> \<in> set (bd_sources db)"

definition tables_ok :: "gl_env \<Rightarrow> string set \<Rightarrow> bank_db \<Rightarrow> bool" where
  "tables_ok env K db \<longleftrightarrow>
     distinct (map ba_id (bd_accounts db)) \<and> (\<forall>a \<in> set (bd_accounts db). ba_id a < bd_uuid db) \<and>
     distinct (map im_id (bd_imports db)) \<and> (\<forall>i \<in> set (bd_imports db). im_id i < bd_uuid db) \<and>
     distinct (map bl_id (bd_lines db)) \<and> (\<forall>l \<in> set (bd_lines db). bl_id l < bd_uuid db) \<and>
     distinct (map (\<lambda>l. (bl_account l, bl_hash l)) (bd_lines db)) \<and>
     distinct (bd_sources db) \<and>
     (\<forall>s \<in> set (bd_sources db). \<exists>l \<in> set (bd_lines db). bl_id l = so_line s \<and>
        (\<exists>i \<in> set (bd_imports db). im_id i = so_import s \<and> live i \<and> st_account i = bl_account l)) \<and>
     (\<forall>l \<in> set (bd_lines db). (\<exists>i. attests db i l) \<and> (\<exists>a \<in> set (bd_accounts db). ba_id a = bl_account l \<and> hashes_itself env K a l))"

text \<open>
  The archive invariant: the tables fit together, every live import's balances differ by exactly the lines it attests, and
  two live imports of an account attest the same lines wherever both periods reach.
\<close>

definition carries :: "bank_db \<Rightarrow> bank_import \<Rightarrow> bool" where
  "carries db i \<longleftrightarrow> st_ending i = st_beginning i + sum_list (map bl_amount (attested db (im_id i)))"

definition agree :: "bank_db \<Rightarrow> bank_import \<Rightarrow> bank_import \<Rightarrow> bool" where
  "agree db i j \<longleftrightarrow> (\<forall>l \<in> set (bd_lines db). in_window (st_start i) (st_end i) (bl_date l) \<and> in_window (st_start j) (st_end j) (bl_date l) \<longrightarrow>
     attests db (im_id i) l = attests db (im_id j) l)"

definition evidence_inv :: "gl_env \<Rightarrow> string set \<Rightarrow> bank_db \<Rightarrow> bool" where
  "evidence_inv env K db \<longleftrightarrow> tables_ok env K db \<and>
     (\<forall>i \<in> set (bd_imports db). live i \<longrightarrow> carries db i) \<and>
     (\<forall>i \<in> set (bd_imports db). \<forall>j \<in> set (bd_imports db). live i \<and> live j \<and> st_account i = st_account j \<longrightarrow> agree db i j)"

lemma evidence_inv_empty: "evidence_inv env K empty_bank_db"
  by (simp add: evidence_inv_def tables_ok_def empty_bank_db_def)

lemma tables_okD:
  assumes "tables_ok env K db"
  shows "distinct (map ba_id (bd_accounts db))" "distinct (map im_id (bd_imports db))" "distinct (map bl_id (bd_lines db))"
    "distinct (map (\<lambda>l. (bl_account l, bl_hash l)) (bd_lines db))" "distinct (bd_sources db)"
    "\<And>a. a \<in> set (bd_accounts db) \<Longrightarrow> ba_id a < bd_uuid db" "\<And>i. i \<in> set (bd_imports db) \<Longrightarrow> im_id i < bd_uuid db"
    "\<And>l. l \<in> set (bd_lines db) \<Longrightarrow> bl_id l < bd_uuid db"
    "\<And>s. s \<in> set (bd_sources db) \<Longrightarrow> \<exists>l \<in> set (bd_lines db). bl_id l = so_line s \<and>
        (\<exists>i \<in> set (bd_imports db). im_id i = so_import s \<and> live i \<and> st_account i = bl_account l)"
    "\<And>l. l \<in> set (bd_lines db) \<Longrightarrow> \<exists>i. attests db i l"
    "\<And>l. l \<in> set (bd_lines db) \<Longrightarrow> \<exists>a \<in> set (bd_accounts db). ba_id a = bl_account l \<and> hashes_itself env K a l"
  using assms unfolding tables_ok_def by blast+

lemma same_key:
  assumes "collision_free env K" "hashes_itself env K a l" "line_key INSTITUTION (ba_last4 a) d c x n \<in> K"
    and "bl_hash l = compute_line_hash env INSTITUTION (ba_last4 a) d c x n"
  shows "bl_date l = d \<and> bl_amount l = c"
  using assms unfolding hashes_itself_def collision_free_def compute_line_hash_def inj_on_def by (metis line_key_inject)

lemma distinct_map_eq: "distinct (map f xs) \<Longrightarrow> x \<in> set xs \<Longrightarrow> y \<in> set xs \<Longrightarrow> f x = f y \<Longrightarrow> x = y"
  by (auto simp: distinct_map dest: inj_onD)

lemma filter_by_key: "distinct (map f xs) \<Longrightarrow> x \<in> set xs \<Longrightarrow> filter (\<lambda>y. f y = f x) xs = [x]"
proof (induction xs)
  case (Cons y ys)
  show ?case
  proof (cases "x = y")
    case True
    have "filter (\<lambda>z. f z = f x) ys = []" using Cons.prems(1) True by (auto simp: filter_empty_conv) (metis imageI)
    then show ?thesis using True by simp
  next
    case False
    then have "x \<in> set ys" using Cons.prems(2) by simp
    moreover have "f y \<noteq> f x" using Cons.prems(1) \<open>x \<in> set ys\<close> by auto
    ultimately show ?thesis using Cons by simp
  qed
qed simp

lemma source_eta [simp]: "\<lparr>so_line = so_line s, so_import = so_import s\<rparr> = s"
  by simp

lemma set_attested: "set (attested db i) = {l \<in> set (bd_lines db). attests db i l}"
  by (auto simp: attested_def attests_def)

section \<open>Attesting a line\<close>

text \<open>What stands for a parsed line among the attested ones.\<close>

definition stands_for :: "uuid \<Rightarrow> hashed_line \<Rightarrow> bank_line \<Rightarrow> bool" where
  "stands_for account row l \<longleftrightarrow> (case row of (t, n, h) \<Rightarrow>
     bl_account l = account \<and> bl_hash l = h \<and> bl_date l = t_date t \<and> bl_amount l = t_amount t)"

definition keyed :: "gl_env \<Rightarrow> string set \<Rightarrow> string \<Rightarrow> hashed_line \<Rightarrow> bool" where
  "keyed env K last4 row \<longleftrightarrow> (case row of (t, n, h) \<Rightarrow>
     line_key INSTITUTION last4 (t_date t) (t_amount t) (t_anchor t) n \<in> K \<and>
     h = compute_line_hash env INSTITUTION last4 (t_date t) (t_amount t) (t_anchor t) n)"

definition with_line :: "bank_line option \<Rightarrow> uuid \<Rightarrow> uuid \<Rightarrow> bank_db \<Rightarrow> bank_db" where
  "with_line l u imp db = (case l of None \<Rightarrow> db | Some x \<Rightarrow> db\<lparr>bd_lines := bd_lines db @ [x], bd_uuid := Suc (bd_uuid db)\<rparr>)
     \<lparr>bd_sources := bd_sources db @ [\<lparr>so_line = u, so_import = imp\<rparr>]\<rparr>"

definition new_line :: "uuid \<Rightarrow> uuid \<Rightarrow> hashed_line \<Rightarrow> uuid \<Rightarrow> bank_line" where
  "new_line account imp row u = (case row of (t, n, h) \<Rightarrow>
     \<lparr>bl_id = u, bl_account = account, bl_import = imp, bl_date = t_date t, bl_amount = t_amount t,
      bl_description = t_description t, bl_section = t_section t, bl_check_number = t_check_number t, bl_occurrence = n, bl_hash = h\<rparr>)"

lemma attest_line_cases:
  "attest_line account imp row (added, deduped, ids) db =
     (let h = snd (snd row); found = first (filter (\<lambda>l. bl_account l = account \<and> bl_hash l = h) (bd_lines db)) in
      case found of
        Some l \<Rightarrow> if \<lparr>so_line = bl_id l, so_import = imp\<rparr> \<in> set (bd_sources db) then (Inl (LedgerRaised IntegrityError), db)
                  else (Inr (added, Suc deduped, ids @ [bl_id l]), with_line None (bl_id l) imp db)
      | None \<Rightarrow> let u = bd_uuid db; l = new_line account imp row u; db1 = db\<lparr>bd_lines := bd_lines db @ [l], bd_uuid := Suc u\<rparr> in
                if \<lparr>so_line = u, so_import = imp\<rparr> \<in> set (bd_sources db) then (Inl (LedgerRaised IntegrityError), db1)
                else (Inr (Suc added, deduped, ids @ [u]), with_line (Some l) u imp db))"
proof -
  have ex: "list_ex (\<lambda>s. so_line s = u \<and> so_import s = imp) ss \<longleftrightarrow> \<lparr>so_line = u, so_import = imp\<rparr> \<in> set ss" for u ss
    by (induction ss) auto
  obtain t n h where row: "row = (t, n, h)" by (cases row)
  show ?thesis
    by (simp add: row attest_line_def andthen_def asks_def ok_def throw_def fresh_id_def change_def ex with_line_def new_line_def Let_def
        split: option.split)
qed

lemma attested_other: "v \<noteq> imp \<Longrightarrow> (\<And>s. s \<in> set (bd_sources db) \<Longrightarrow> \<forall>x. l = Some x \<longrightarrow> so_line s \<noteq> bl_id x) \<Longrightarrow>
   attested (with_line l u imp db) v = attested db v"
  unfolding attested_def with_line_def
  by (auto split: option.splits intro!: arg_cong[where f = concat] map_cong) blast

lemma attested_self: "attested (with_line l u imp db) imp =
   concat (map (\<lambda>s. filter (\<lambda>l. bl_id l = so_line s) (bd_lines (with_line l u imp db))) (filter (\<lambda>s. so_import s = imp) (bd_sources db))) @
   filter (\<lambda>l. bl_id l = u) (bd_lines (with_line l u imp db))"
  by (simp add: attested_def with_line_def split: option.splits)

text \<open>What no attestation touches.\<close>

definition same_books :: "bank_db \<Rightarrow> bank_db \<Rightarrow> bool" where
  "same_books db db' \<longleftrightarrow> bd_gl db' = bd_gl db \<and> bd_accounts db' = bd_accounts db \<and> bd_imports db' = bd_imports db \<and>
     bd_images db' = bd_images db \<and> bd_matches db' = bd_matches db \<and> bd_match_lines db' = bd_match_lines db \<and>
     bd_match_externals db' = bd_match_externals db \<and> bd_bills db' = bd_bills db \<and> bd_bill_payments db' = bd_bill_payments db"

lemma same_books_with_line: "same_books db (with_line l u imp db)"
  by (simp add: same_books_def with_line_def split: option.splits)

text \<open>A live import of the account, about to attest a line hashed for the account.\<close>

definition attestable :: "gl_env \<Rightarrow> string set \<Rightarrow> bank_db \<Rightarrow> registered_account \<Rightarrow> bank_import \<Rightarrow> hashed_line \<Rightarrow> bool" where
  "attestable env K db a i row \<longleftrightarrow> tables_ok env K db \<and> collision_free env K \<and> a \<in> set (bd_accounts db) \<and>
     i \<in> set (bd_imports db) \<and> live i \<and> st_account i = ba_id a \<and> keyed env K (ba_last4 a) row"

lemma old_line_attested:
  assumes ready: "attestable env K db a i row"
    and l: "l \<in> set (bd_lines db)" "bl_account l = ba_id a" "bl_hash l = snd (snd row)"
    and new: "\<lparr>so_line = bl_id l, so_import = im_id i\<rparr> \<notin> set (bd_sources db)"
  shows "tables_ok env K (with_line None (bl_id l) (im_id i) db)" "stands_for (ba_id a) row l"
    "attested (with_line None (bl_id l) (im_id i) db) (im_id i) = attested db (im_id i) @ [l]"
proof -
  have tables: "tables_ok env K db" and cf: "collision_free env K" and acct: "a \<in> set (bd_accounts db)"
    and imp: "i \<in> set (bd_imports db)" "live i" "st_account i = ba_id a" and key: "keyed env K (ba_last4 a) row"
    using ready by (simp_all add: attestable_def)
  have lines: "bd_lines (with_line None u v db) = bd_lines db" for u v by (simp add: with_line_def)
  obtain b where "b \<in> set (bd_accounts db)" "ba_id b = bl_account l" "hashes_itself env K b l" using tables_okD(11)[OF tables l(1)] by blast
  then have "hashes_itself env K a l" using distinct_map_eq[OF tables_okD(1)[OF tables] acct] l(2) by metis
  then show "stands_for (ba_id a) row l"
    using key same_key[OF cf] l(2,3) by (cases row) (fastforce simp: keyed_def stands_for_def)
  show "attested (with_line None (bl_id l) (im_id i) db) (im_id i) = attested db (im_id i) @ [l]"
    unfolding attested_self lines filter_by_key[OF tables_okD(3)[OF tables] l(1)] by (simp add: attested_def)
  show "tables_ok env K (with_line None (bl_id l) (im_id i) db)"
    using tables new l imp unfolding tables_ok_def with_line_def attests_def by (auto 4 3)
qed

lemma new_line_attested:
  assumes ready: "attestable env K db a i row" and none: "\<forall>l \<in> set (bd_lines db). bl_account l = ba_id a \<longrightarrow> bl_hash l \<noteq> snd (snd row)"
  defines "l \<equiv> new_line (ba_id a) (im_id i) row (bd_uuid db)"
  shows "tables_ok env K (with_line (Some l) (bd_uuid db) (im_id i) db)" "stands_for (ba_id a) row l"
    "attested (with_line (Some l) (bd_uuid db) (im_id i) db) (im_id i) = attested db (im_id i) @ [l]"
    "\<lparr>so_line = bd_uuid db, so_import = im_id i\<rparr> \<notin> set (bd_sources db)"
proof -
  have tables: "tables_ok env K db" and acct: "a \<in> set (bd_accounts db)"
    and imp: "i \<in> set (bd_imports db)" "live i" "st_account i = ba_id a" and key: "keyed env K (ba_last4 a) row"
    using ready by (simp_all add: attestable_def)
  obtain t n h where row: "row = (t, n, h)" by (cases row)
  have f: "bl_id l = bd_uuid db" "bl_account l = ba_id a" "bl_hash l = h" by (simp_all add: l_def new_line_def row)
  have lines: "bd_lines (with_line (Some l) u v db) = bd_lines db @ [l]" for u v by (simp add: with_line_def)
  have old: "bl_id x \<noteq> bd_uuid db" if "x \<in> set (bd_lines db)" for x using tables_okD(8)[OF tables that] by simp
  have src: "so_line s \<noteq> bd_uuid db" if "s \<in> set (bd_sources db)" for s using tables_okD(9)[OF tables that] old by metis
  show "\<lparr>so_line = bd_uuid db, so_import = im_id i\<rparr> \<notin> set (bd_sources db)" using src by fastforce
  show "stands_for (ba_id a) row l" by (simp add: stands_for_def l_def new_line_def row)
  have self: "hashes_itself env K a l" using key by (auto simp: hashes_itself_def keyed_def l_def new_line_def row)
  have "filter (\<lambda>x. bl_id x = bd_uuid db) (bd_lines db @ [l]) = [l]" using old f by (auto simp: filter_empty_conv)
  moreover have "map (\<lambda>s. filter (\<lambda>x. bl_id x = so_line s) (bd_lines db @ [l])) (filter (\<lambda>s. so_import s = im_id i) (bd_sources db)) =
      map (\<lambda>s. filter (\<lambda>x. bl_id x = so_line s) (bd_lines db)) (filter (\<lambda>s. so_import s = im_id i) (bd_sources db))"
    by (intro map_cong) (auto simp: f(1) dest: src)
  ultimately show "attested (with_line (Some l) (bd_uuid db) (im_id i) db) (im_id i) = attested db (im_id i) @ [l]"
    unfolding attested_self lines by (simp only: attested_def)
  let ?db = "with_line (Some l) (bd_uuid db) (im_id i) db"
  have rest: "bd_accounts ?db = bd_accounts db" "bd_imports ?db = bd_imports db" "bd_uuid ?db = Suc (bd_uuid db)"
    "bd_sources ?db = bd_sources db @ [\<lparr>so_line = bl_id l, so_import = im_id i\<rparr>]" by (simp_all add: with_line_def f)
  show "tables_ok env K ?db"
    unfolding tables_ok_def rest lines
  proof (intro conjI ballI)
    show "distinct (map bl_id (bd_lines db @ [l]))" using tables_okD(3)[OF tables] by (auto simp: f(1) dest: old)
    show "distinct (map (\<lambda>l. (bl_account l, bl_hash l)) (bd_lines db @ [l]))"
      using tables_okD(4)[OF tables] none f by (auto simp: row)
    show "distinct (bd_sources db @ [\<lparr>so_line = bl_id l, so_import = im_id i\<rparr>])"
      using tables_okD(5)[OF tables] src f(1) by fastforce
    fix s assume "s \<in> set (bd_sources db @ [\<lparr>so_line = bl_id l, so_import = im_id i\<rparr>])"
    then show "\<exists>x \<in> set (bd_lines db @ [l]). bl_id x = so_line s \<and>
        (\<exists>j \<in> set (bd_imports db). im_id j = so_import s \<and> live j \<and> st_account j = bl_account x)"
      using tables_okD(9)[OF tables] imp f(2) by fastforce
  next
    fix x assume x: "x \<in> set (bd_lines db @ [l])"
    show "\<exists>j. attests ?db j x" using x tables_okD(10)[OF tables] by (auto simp: attests_def rest)
    show "\<exists>b \<in> set (bd_accounts db). ba_id b = bl_account x \<and> hashes_itself env K b x"
      using x tables_okD(11)[OF tables] acct self f(2) by auto
  qed (use tables_okD[OF tables] f(1) in \<open>auto intro: less_SucI\<close>)
qed

text \<open>Attesting rows: the tables stay sound, the import attests one line more per row, other imports attest what they did.\<close>

definition attests_more :: "uuid \<Rightarrow> uuid \<Rightarrow> hashed_line list \<Rightarrow> bank_db \<Rightarrow> bank_db \<Rightarrow> bool" where
  "attests_more account imp rows db db' \<longleftrightarrow> same_books db db' \<and>
     (\<exists>ls. attested db' imp = attested db imp @ ls \<and> list_all2 (stands_for account) rows ls) \<and>
     (\<forall>v. v \<noteq> imp \<longrightarrow> attested db' v = attested db v)"

lemma attests_more_trans:
  "attests_more account imp rows db db1 \<Longrightarrow> attests_more account imp rows' db1 db2 \<Longrightarrow> attests_more account imp (rows @ rows') db db2"
  unfolding attests_more_def same_books_def by (auto intro!: list_all2_appendI)

lemma attest_line_step:
  assumes ready: "attestable env K db a i row" and fresh: "\<forall>l \<in> set (attested db (im_id i)). bl_hash l \<noteq> snd (snd row)"
  obtains acc' db' where "attest_line (ba_id a) (im_id i) row acc db = (Inr acc', db')" "tables_ok env K db'"
    "attests_more (ba_id a) (im_id i) [row] db db'"
proof -
  obtain added deduped ids where acc: "acc = (added, deduped, ids)" by (cases acc)
  have tables: "tables_ok env K db" using ready by (simp add: attestable_def)
  show thesis
  proof (cases "first (filter (\<lambda>l. bl_account l = ba_id a \<and> bl_hash l = snd (snd row)) (bd_lines db))")
    case (Some l)
    then have l: "l \<in> set (bd_lines db)" "bl_account l = ba_id a" "bl_hash l = snd (snd row)" using first_in_set by force+
    have new: "\<lparr>so_line = bl_id l, so_import = im_id i\<rparr> \<notin> set (bd_sources db)"
      using fresh l(1,3) by (auto simp: set_attested attests_def)
    note k = old_line_attested[OF ready l new]
    have "attests_more (ba_id a) (im_id i) [row] db (with_line None (bl_id l) (im_id i) db)"
      unfolding attests_more_def using k(2,3) same_books_with_line attested_other[of _ "im_id i" db None] by auto
    then show thesis using that k(1) Some new by (simp add: acc attest_line_cases Let_def)
  next
    case None
    then have none: "\<forall>l \<in> set (bd_lines db). bl_account l = ba_id a \<longrightarrow> bl_hash l \<noteq> snd (snd row)" by (auto simp: filter_empty_conv)
    let ?l = "new_line (ba_id a) (im_id i) row (bd_uuid db)"
    note k = new_line_attested[OF ready none]
    have "so_line s \<noteq> bl_id ?l" if "s \<in> set (bd_sources db)" for s
      using tables_okD(9)[OF tables that] tables_okD(8)[OF tables] by (cases row) (force simp: new_line_def)
    then have "attests_more (ba_id a) (im_id i) [row] db (with_line (Some ?l) (bd_uuid db) (im_id i) db)"
      unfolding attests_more_def using k(2,3) same_books_with_line attested_other[of _ "im_id i" db "Some ?l"] by auto
    then show thesis using that k(1,4) None by (simp add: acc attest_line_cases Let_def)
  qed
qed

lemma attest_lines:
  assumes "tables_ok env K db" "collision_free env K" "a \<in> set (bd_accounts db)" "i \<in> set (bd_imports db)" "live i" "st_account i = ba_id a"
    and "\<forall>row \<in> set rows. keyed env K (ba_last4 a) row" "distinct (map (\<lambda>row. snd (snd row)) rows)"
    and "\<forall>l \<in> set (attested db (im_id i)). bl_hash l \<notin> (\<lambda>row. snd (snd row)) ` set rows"
  shows "\<exists>acc' db'. fold_sem (attest_line (ba_id a) (im_id i)) rows acc db = (Inr acc', db') \<and> tables_ok env K db' \<and>
    attests_more (ba_id a) (im_id i) rows db db'"
  using assms
proof (induction rows arbitrary: acc db)
  case Nil
  then show ?case by (cases acc) (simp add: ok_def attests_more_def same_books_def)
next
  case (Cons row rows)
  have ready: "attestable env K db a i row" using Cons.prems by (simp add: attestable_def)
  obtain acc1 db1 where 1: "attest_line (ba_id a) (im_id i) row acc db = (Inr acc1, db1)" "tables_ok env K db1"
    "attests_more (ba_id a) (im_id i) [row] db db1"
    by (rule attest_line_step[OF ready]) (use Cons.prems(9) in auto)
  then obtain l where l: "attested db1 (im_id i) = attested db (im_id i) @ [l]" "stands_for (ba_id a) row l" and s: "same_books db db1"
    by (auto simp: attests_more_def list_all2_Cons1)
  have "bl_hash l = snd (snd row)" using l(2) by (cases row) (simp add: stands_for_def)
  then have "\<forall>l \<in> set (attested db1 (im_id i)). bl_hash l \<notin> (\<lambda>row. snd (snd row)) ` set rows" using Cons.prems(8,9) l(1) by auto
  moreover have "a \<in> set (bd_accounts db1)" "i \<in> set (bd_imports db1)" using s Cons.prems by (simp_all add: same_books_def)
  ultimately have "\<exists>acc' db'. fold_sem (attest_line (ba_id a) (im_id i)) rows acc1 db1 = (Inr acc', db') \<and> tables_ok env K db' \<and>
      attests_more (ba_id a) (im_id i) rows db1 db'"
    by (intro Cons.IH) (use 1(2) Cons.prems in simp_all)
  then obtain acc2 db2 where 2: "fold_sem (attest_line (ba_id a) (im_id i)) rows acc1 db1 = (Inr acc2, db2)" "tables_ok env K db2"
    "attests_more (ba_id a) (im_id i) rows db1 db2" by blast
  have "fold_sem (attest_line (ba_id a) (im_id i)) (row # rows) acc db = (Inr acc2, db2)" using 1(1) 2(1) by (simp add: andthen_def)
  moreover have "attests_more (ba_id a) (im_id i) (row # rows) db db2" using attests_more_trans[OF 1(3) 2(3)] by simp
  ultimately show ?case using 2(2) by blast
qed

section \<open>The verdict\<close>

lemma agree_iff: "agree db i j \<longleftrightarrow> (\<forall>l. in_window (st_start i) (st_end i) (bl_date l) \<and> in_window (st_start j) (st_end j) (bl_date l) \<longrightarrow>
    l \<in> set (attested db (im_id i)) \<longleftrightarrow> l \<in> set (attested db (im_id j)))"
  unfolding agree_def set_attested by blast

lemma tie_out_passed: "fst (compute_tie_out ps) = TIE_OUT_PASSED \<Longrightarrow> ps_ending ps = ps_beginning ps + cents_of (ps_lines ps)"
  by (simp add: compute_tie_out_def tie_out_checks_def Let_def check_int_def split: if_splits)

lemma keys_by_hash: "fst ` set (by_hash rows) = fst ` set rows"
proof -
  have "fst ` set (foldl (\<lambda>m (h, x). AList.update h x m) m rows) = fst ` set m \<union> fst ` set rows" for m
    by (induction rows arbitrary: m) (simp_all add: dom_update case_prod_beta' insert_commute)
  then show ?thesis by (simp add: by_hash_def)
qed

lemma overlap_with_Nil:
  assumes "overlap_with db ps hashed other = []" "in_window (ps_start ps) (ps_end ps) d" "in_window (st_start other) (st_end other) d"
  shows "\<lbrakk>l \<in> set (attested db (im_id other)); bl_date l = d\<rbrakk> \<Longrightarrow> \<exists>(t, n, h) \<in> set hashed. h = bl_hash l"
    and "\<lbrakk>(t, n, h) \<in> set hashed; t_date t = d\<rbrakk> \<Longrightarrow> \<exists>l \<in> set (attested db (im_id other)). bl_hash l = h"
proof -
  let ?lo = "max (ps_start ps) (st_start other)" and ?hi = "min (ps_end ps) (st_end other)"
  let ?E = "filter (\<lambda>l. in_window ?lo ?hi (bl_date l)) (attested db (im_id other))"
  let ?N = "filter (\<lambda>(t, n, h). in_window ?lo ?hi (t_date t)) hashed"
  have w: "in_window ?lo ?hi d" using assms(2,3) by (simp add: in_window_def)
  then have ne: "\<not> ?lo > ?hi" unfolding in_window_def by (meson leD order.trans)
  let ?e = "by_hash (map (\<lambda>l. (bl_hash l, l)) ?E)" and ?n = "by_hash (map (\<lambda>(t, n, h). (h, t)) ?N)"
  have "filter (\<lambda>(h, l). h \<notin> fst ` set ?n) ?e = []" "filter (\<lambda>(h, t). h \<notin> fst ` set ?e) ?n = []"
    using assms(1) ne by (auto simp: overlap_with_def Let_def simp del: not_less split: if_splits)
  then have "fst ` set ?e = fst ` set ?n" by (fastforce simp: filter_empty_conv)
  then have "bl_hash ` set ?E = (\<lambda>(t, n, h). h) ` set ?N" unfolding keys_by_hash by (simp add: image_image case_prod_beta')
  then have mem: "(\<exists>l \<in> set ?E. bl_hash l = x) \<longleftrightarrow> (\<exists>(t, n, h) \<in> set ?N. h = x)" for x by (auto simp: set_eq_iff image_iff) (metis+)
  show "\<exists>(t, n, h) \<in> set hashed. h = bl_hash l" if "l \<in> set (attested db (im_id other))" "bl_date l = d"
    using mem[of "bl_hash l"] that w by auto
  show "\<exists>l \<in> set (attested db (im_id other)). bl_hash l = h" if "(t, n, h) \<in> set hashed" "t_date t = d"
    using mem[of h] that w by auto
qed

lemma verdict_passed:
  assumes "fst (verdict db account ps hashed) = TIE_OUT_PASSED"
  shows "ps_ending ps = ps_beginning ps + cents_of (ps_lines ps)" "\<forall>other \<in> set (passed_imports db account). overlap_with db ps hashed other = []"
  using assms tie_out_passed[of ps]
  by (auto simp: verdict_def Let_def overlap_integrity_def split: prod.splits if_splits)

lemma verdict_values: "fst (verdict db account ps hashed) = TIE_OUT_PASSED \<or> fst (verdict db account ps hashed) = TIE_OUT_FAILED"
  by (auto simp: verdict_def compute_tie_out_def Let_def split: prod.splits)

section \<open>Import\<close>

lemma hashed_lines_keyed: "statement_keys ps \<subseteq> K \<Longrightarrow> row \<in> set (hashed_lines env ps) \<Longrightarrow> keyed env K (ps_last4 ps) row"
  by (force simp: hashed_lines_def statement_keys_def keyed_def)

lemma hashed_lines_distinct:
  assumes "collision_free env K" "statement_keys ps \<subseteq> K"
  shows "distinct (map (\<lambda>row. snd (snd row)) (hashed_lines env ps))"
proof -
  let ?key = "\<lambda>(t, n). line_key INSTITUTION (ps_last4 ps) (t_date t) (t_amount t) (t_anchor t) n"
  have "inj_on (\<lambda>(t, n). (txn_key t, n)) (set (number_lines [] (ps_lines ps)))" "distinct (number_lines [] (ps_lines ps))"
    using number_lines_fresh[of "[]" "ps_lines ps"] by (auto simp: distinct_map)
  moreover from this(1) have "inj_on ?key (set (number_lines [] (ps_lines ps)))"
    by (auto simp: inj_on_def line_key_inject txn_key_def) fastforce
  moreover have "inj_on (sha256_hex env) (?key ` set (number_lines [] (ps_lines ps)))"
    using assms unfolding collision_free_def statement_keys_def by (rule inj_on_subset)
  ultimately have "distinct (map (sha256_hex env \<circ> ?key) (number_lines [] (ps_lines ps)))"
    by (simp add: distinct_map comp_inj_on)
  moreover have "map (\<lambda>row. snd (snd row)) (hashed_lines env ps) = map (sha256_hex env \<circ> ?key) (number_lines [] (ps_lines ps))"
    by (simp add: hashed_lines_def compute_line_hash_def comp_def case_prod_beta')
  ultimately show ?thesis by metis
qed

lemma hashed_lines_fst: "map fst (hashed_lines env ps) = ps_lines ps"
  using number_lines_map[of "[]" "ps_lines ps"] by (simp add: hashed_lines_def comp_def case_prod_beta')

lemma stands_for_amounts: "list_all2 (stands_for account) rows ls \<Longrightarrow> map bl_amount ls = map (\<lambda>row. t_amount (fst row)) rows"
  by (induction rule: list_all2_induct) (auto simp: stands_for_def)

lemma attested_cong: "bd_lines db' = bd_lines db \<Longrightarrow> bd_sources db' = bd_sources db \<Longrightarrow> attested db' = attested db"
  by (rule ext) (simp add: attested_def)

lemma attests_cong: "bd_sources db' = bd_sources db \<Longrightarrow> attests db' = attests db"
  by (intro ext) (simp add: attests_def)

text \<open>Accounts and imports may be added, and imports rewritten where the evidence does not look.\<close>

definition same_facts :: "bank_import \<Rightarrow> bank_import \<Rightarrow> bool" where
  "same_facts i j \<longleftrightarrow> im_id i = im_id j \<and> statement.truncate i = statement.truncate j"

lemma same_factsD:
  "same_facts i j \<Longrightarrow> im_id i = im_id j \<and> live i = live j \<and> st_account i = st_account j \<and> st_start i = st_start j \<and> st_end i = st_end j \<and>
     st_beginning i = st_beginning j \<and> st_ending i = st_ending j"
  by (simp add: same_facts_def statement.truncate_def live_def)

lemma same_facts_refl: "same_facts i i"
  by (simp add: same_facts_def)

lemma tables_grow:
  assumes "tables_ok env K db" and "bd_lines db' = bd_lines db" "bd_sources db' = bd_sources db" "bd_uuid db \<le> bd_uuid db'"
    and "set (bd_accounts db) \<subseteq> set (bd_accounts db')" "distinct (map ba_id (bd_accounts db'))" "\<forall>a \<in> set (bd_accounts db'). ba_id a < bd_uuid db'"
    and "\<forall>i \<in> set (bd_imports db). \<exists>j \<in> set (bd_imports db'). same_facts i j"
      "distinct (map im_id (bd_imports db'))" "\<forall>i \<in> set (bd_imports db'). im_id i < bd_uuid db'"
  shows "tables_ok env K db'"
proof -
  have "\<exists>j \<in> set (bd_imports db'). im_id j = u \<and> live j \<and> st_account j = c"
    if "\<exists>i \<in> set (bd_imports db). im_id i = u \<and> live i \<and> st_account i = c" for u c
    using that assms(8) same_factsD by metis
  moreover have "bl_id l < bd_uuid db'" if "l \<in> set (bd_lines db)" for l using tables_okD(8)[OF assms(1) that] assms(4) by simp
  moreover have "\<exists>a \<in> set (bd_accounts db'). ba_id a = bl_account l \<and> hashes_itself env K a l" if "l \<in> set (bd_lines db)" for l
    using tables_okD(11)[OF assms(1) that] assms(5) by blast
  ultimately show ?thesis
    unfolding tables_ok_def assms(2,3) attests_cong[OF assms(3)]
    using assms(6,7,9,10) tables_okD(3-5)[OF assms(1)] tables_okD(9,10)[OF assms(1)] by meson
qed

lemma evidence_carried:
  assumes inv: "evidence_inv env K db" and t: "tables_ok env K db'" and att: "attested db' = attested db"
    and imps: "\<And>j. j \<in> set (bd_imports db') \<Longrightarrow> live j \<Longrightarrow> \<exists>i \<in> set (bd_imports db). same_facts i j"
  shows "evidence_inv env K db'"
  unfolding evidence_inv_def
proof (intro conjI ballI impI t)
  fix i assume "i \<in> set (bd_imports db')" "live i"
  then obtain i' where "i' \<in> set (bd_imports db)" "live i'" "same_facts i' i" using imps same_factsD by metis
  then show "carries db' i" using inv same_factsD[of i' i] unfolding evidence_inv_def carries_def att by metis
next
  fix i j assume ij: "i \<in> set (bd_imports db')" "j \<in> set (bd_imports db')" "live i \<and> live j \<and> st_account i = st_account j"
  obtain i' where i: "i' \<in> set (bd_imports db)" "same_facts i' i" using imps ij(1,3) by blast
  obtain j' where j: "j' \<in> set (bd_imports db)" "same_facts j' j" using imps ij(2,3) by blast
  have "agree db i' j'" using inv i j ij(3) same_factsD[OF i(2)] same_factsD[OF j(2)] unfolding evidence_inv_def by metis
  then show "agree db' i j" using same_factsD[OF i(2)] same_factsD[OF j(2)] unfolding agree_iff att by simp
qed

lemma create_account:
  assumes inv: "evidence_inv env K db"
  obtains a db1 where "get_or_create_account ps db = (Inr a, db1)" "a \<in> set (bd_accounts db1)" "ba_last4 a = ps_last4 ps" "evidence_inv env K db1"
    "bd_imports db1 = bd_imports db" "bd_lines db1 = bd_lines db" "bd_sources db1 = bd_sources db"
proof (cases "find_account db (ps_last4 ps)")
  case (Some a)
  then have "a \<in> set (bd_accounts db)" "ba_last4 a = ps_last4 ps" unfolding find_account_def using first_in_set by force+
  then show thesis using that[of a db] Some inv by (simp add: get_or_create_account_def andthen_def asks_def ok_def)
next
  case None
  define a where "a = \<lparr>ba_id = bd_uuid db, ba_name = (if title_case False (ps_title ps) = [] then ''Account x'' @ ps_last4 ps
    else title_case False (ps_title ps)), ba_kind = ps_kind ps, ba_last4 = ps_last4 ps, ba_gl_account = None, ba_institution = INSTITUTION\<rparr>"
  let ?db = "db\<lparr>bd_uuid := Suc (bd_uuid db), bd_accounts := bd_accounts db @ [a]\<rparr>"
  have id: "ba_id a = bd_uuid db" by (simp add: a_def)
  have t: "tables_ok env K db" using inv by (simp add: evidence_inv_def)
  have old: "x \<in> set (bd_imports db) \<Longrightarrow> im_id x < bd_uuid db" "y \<in> set (bd_accounts db) \<Longrightarrow> ba_id y < bd_uuid db" for x y
    using tables_okD(6,7)[OF t] by auto
  have "bd_uuid db \<noteq> ba_id x" if "x \<in> set (bd_accounts db)" for x using old(2)[OF that] by simp
  then have "bd_uuid db \<notin> ba_id ` set (bd_accounts db)" by blast
  then have "distinct (map ba_id (bd_accounts ?db))" using tables_okD(1)[OF t] by (simp add: id)
  moreover have "\<forall>i \<in> set (bd_imports db). \<exists>j \<in> set (bd_imports ?db). same_facts i j" using same_facts_refl by (simp add: Bex_def) blast
  moreover have "\<forall>x \<in> set (bd_accounts ?db). ba_id x < bd_uuid ?db" "\<forall>i \<in> set (bd_imports ?db). im_id i < bd_uuid ?db"
    using old by (simp_all add: id less_SucI)
  ultimately have "tables_ok env K ?db" using tables_okD(2)[OF t] by (intro tables_grow[OF t]) (simp_all add: subset_insertI)
  then have "evidence_inv env K ?db" by (rule evidence_carried[OF inv]) (use same_facts_refl in \<open>auto intro: attested_cong\<close>)
  moreover have "get_or_create_account ps db = (Inr a, ?db)"
    using None by (simp add: get_or_create_account_def andthen_def asks_def ok_def fresh_id_def change_def Let_def a_def)
  ultimately show thesis using that[of a ?db] by (simp add: a_def)
qed

lemma add_import:
  assumes t: "tables_ok env K db" and u: "im_id i = bd_uuid db"
  shows "tables_ok env K (db\<lparr>bd_uuid := Suc (bd_uuid db), bd_imports := bd_imports db @ [i]\<rparr>)" "attested db (im_id i) = []"
proof -
  have old: "x \<in> set (bd_imports db) \<Longrightarrow> im_id x < bd_uuid db" "y \<in> set (bd_accounts db) \<Longrightarrow> ba_id y < bd_uuid db" for x y
    using tables_okD(6,7)[OF t] by auto
  show "tables_ok env K (db\<lparr>bd_uuid := Suc (bd_uuid db), bd_imports := bd_imports db @ [i]\<rparr>)"
    by (rule tables_grow[OF t]) (use tables_okD(1,2)[OF t] u in \<open>auto simp: same_facts_def dest: old\<close>)
  have "so_import s \<noteq> im_id i" if "s \<in> set (bd_sources db)" for s using tables_okD(9)[OF t that] old(1) u by fastforce
  then show "attested db (im_id i) = []" by (auto simp: attested_def filter_empty_conv)
qed

lemma set_counts_facts: "evidence_inv env K db \<Longrightarrow> evidence_inv env K (set_counts u m n db)"
proof -
  assume inv: "evidence_inv env K db"
  let ?f = "\<lambda>i. if im_id i = u then i\<lparr>im_lines_added := m, im_lines_deduped := n\<rparr> else i" and ?db = "set_counts u m n db"
  have f: "same_facts i (?f i)" for i by (simp add: same_facts_def statement.truncate_def)
  have sets: "set (bd_imports ?db) = ?f ` set (bd_imports db)" "bd_lines ?db = bd_lines db" "bd_sources ?db = bd_sources db"
    "bd_accounts ?db = bd_accounts db" "bd_uuid ?db = bd_uuid db" by (simp_all add: set_counts_def)
  have ids: "map im_id (bd_imports ?db) = map im_id (bd_imports db)" by (simp add: set_counts_def)
  have t: "tables_ok env K db" using inv by (simp add: evidence_inv_def)
  have "tables_ok env K ?db"
  proof (rule tables_grow[OF t])
    show "\<forall>i \<in> set (bd_imports db). \<exists>j \<in> set (bd_imports ?db). same_facts i j" using f unfolding sets(1) by blast
    show "distinct (map im_id (bd_imports ?db))" using tables_okD(2)[OF t] unfolding ids .
    show "\<forall>i \<in> set (bd_imports ?db). im_id i < bd_uuid ?db"
      using tables_okD(7)[OF t] arg_cong[OF ids, of set] sets(5) unfolding set_map by (metis (no_types, lifting) imageE imageI)
  qed (use tables_okD(1,6)[OF t] sets in auto)
  moreover have "\<exists>i \<in> set (bd_imports db). same_facts i j" if "j \<in> set (bd_imports ?db)" for j using that f unfolding sets(1) by blast
  ultimately show ?thesis using attested_cong[OF sets(2,3)] by (intro evidence_carried[OF inv])
qed

lemma attested_account:
  assumes t: "tables_ok env K db" and k: "k \<in> set (bd_imports db)" and y: "y \<in> set (attested db (im_id k))"
  shows "y \<in> set (bd_lines db)" "bl_account y = st_account k"
proof -
  from y show l: "y \<in> set (bd_lines db)" by (simp add: set_attested)
  have "\<lparr>so_line = bl_id y, so_import = im_id k\<rparr> \<in> set (bd_sources db)" using y by (simp add: set_attested attests_def)
  from tables_okD(9)[OF t this] obtain z k' where z: "z \<in> set (bd_lines db)" "bl_id z = bl_id y" "k' \<in> set (bd_imports db)"
    "im_id k' = im_id k" "st_account k' = bl_account z" by auto
  then show "bl_account y = st_account k"
    using distinct_map_eq[OF tables_okD(3)[OF t] z(1) l] distinct_map_eq[OF tables_okD(2)[OF t] z(3) k] by simp
qed

text \<open>A statement that passed agrees with every import it overlaps.\<close>

lemma overlap_agrees:
  assumes t: "tables_ok env K db'" and i: "i \<in> set (bd_imports db')" "st_start i = ps_start ps" "st_end i = ps_end ps" "st_account i = account"
    and j: "j \<in> set (bd_imports db')" "st_account j = account" "attested db' (im_id j) = attested db (im_id j)"
    and ls: "list_all2 (stands_for account) rows (attested db' (im_id i))" and ov: "overlap_with db ps rows j = []"
  shows "agree db' i j"
  unfolding agree_iff i(2,3)
proof (intro allI impI)
  fix l :: bank_line assume w: "in_window (ps_start ps) (ps_end ps) (bl_date l) \<and> in_window (st_start j) (st_end j) (bl_date l)"
  have uniq: "x = y" if "x \<in> set (attested db' (im_id i))" "y \<in> set (attested db' (im_id j))" "bl_hash x = bl_hash y" for x y
    using distinct_map_eq[OF tables_okD(4)[OF t] attested_account(1)[OF t i(1) that(1)] attested_account(1)[OF t j(1) that(2)]]
      attested_account(2)[OF t i(1) that(1)] attested_account(2)[OF t j(1) that(2)] that(3) i(4) j(2) by simp
  have rows: "x \<in> set (attested db' (im_id i)) \<Longrightarrow> \<exists>row \<in> set rows. stands_for account row x"
    "row \<in> set rows \<Longrightarrow> \<exists>x \<in> set (attested db' (im_id i)). stands_for account row x" for x row
    using ls by (metis in_set_conv_nth list_all2_conv_all_nth)+
  show "l \<in> set (attested db' (im_id i)) \<longleftrightarrow> l \<in> set (attested db' (im_id j))"
  proof
    assume l: "l \<in> set (attested db' (im_id i))"
    then obtain t n h where row: "(t, n, h) \<in> set rows" "t_date t = bl_date l" "h = bl_hash l" using rows(1) by (fastforce simp: stands_for_def)
    from overlap_with_Nil(2)[OF ov _ _ row(1,2)] w obtain x where "x \<in> set (attested db (im_id j))" "bl_hash x = h" by blast
    then show "l \<in> set (attested db' (im_id j))" using uniq[OF l] row(3) j(3) by metis
  next
    assume l: "l \<in> set (attested db' (im_id j))"
    then have "\<exists>(t, n, h) \<in> set rows. h = bl_hash l" using overlap_with_Nil(1)[OF ov, of "bl_date l" l] w j(3) by simp
    then obtain t n where "(t, n, bl_hash l) \<in> set rows" by auto
    from rows(2)[OF this] obtain x where "x \<in> set (attested db' (im_id i))" "bl_hash x = bl_hash l" by (auto simp: stands_for_def)
    then show "l \<in> set (attested db' (im_id i))" using uniq[OF _ l] by metis
  qed
qed

lemma imported_evidence:
  assumes inv: "evidence_inv env K db" and cf: "collision_free env K" and keys: "statement_keys ps \<subseteq> K"
    and a: "a \<in> set (bd_accounts db)" "ba_last4 a = ps_last4 ps"
    and passed: "fst (verdict db (ba_id a) ps (hashed_lines env ps)) = TIE_OUT_PASSED"
    and i: "im_id i = bd_uuid db" "live i" "st_account i = ba_id a" "st_start i = ps_start ps" "st_end i = ps_end ps"
      "st_beginning i = ps_beginning ps" "st_ending i = ps_ending ps"
  defines "db1 \<equiv> db\<lparr>bd_uuid := Suc (bd_uuid db), bd_imports := bd_imports db @ [i]\<rparr>"
  shows "\<exists>acc db'. fold_sem (attest_line (ba_id a) (im_id i)) (hashed_lines env ps) (0, 0, []) db1 = (Inr acc, db') \<and>
    evidence_inv env K db' \<and> same_books db1 db' \<and>
    list_all2 (stands_for (ba_id a)) (hashed_lines env ps) (attested db' (im_id i)) \<and> (\<forall>v. v \<noteq> im_id i \<longrightarrow> attested db' v = attested db v)"
proof -
  let ?rows = "hashed_lines env ps"
  have t: "tables_ok env K db" using inv by (simp add: evidence_inv_def)
  note t2 = add_import[OF t i(1), folded db1_def]
  have att: "attested db1 = attested db" unfolding db1_def by (rule attested_cong) simp_all
  have db1: "bd_accounts db1 = bd_accounts db" "bd_imports db1 = bd_imports db @ [i]" by (simp_all add: db1_def)
  have "\<exists>acc db'. fold_sem (attest_line (ba_id a) (im_id i)) ?rows (0, 0, []) db1 = (Inr acc, db') \<and> tables_ok env K db' \<and>
      attests_more (ba_id a) (im_id i) ?rows db1 db'"
    by (rule attest_lines[OF t2(1) cf _ _ i(2,3)])
      (use a hashed_lines_keyed[OF keys] hashed_lines_distinct[OF cf keys] t2(2) in \<open>simp_all add: att db1\<close>)
  then obtain acc db' where run: "fold_sem (attest_line (ba_id a) (im_id i)) ?rows (0, 0, []) db1 = (Inr acc, db')"
    and t': "tables_ok env K db'" and more: "attests_more (ba_id a) (im_id i) ?rows db1 db'" by blast
  have same: "same_books db1 db'" using more by (simp add: attests_more_def)
  have ls: "list_all2 (stands_for (ba_id a)) ?rows (attested db' (im_id i))" using more t2(2) unfolding attests_more_def att by auto
  have others: "attested db' v = attested db v" if "v \<noteq> im_id i" for v using more that unfolding attests_more_def att by blast
  have imps: "set (bd_imports db') = insert i (set (bd_imports db))" using same by (simp add: same_books_def db1)
  have old: "im_id j \<noteq> im_id i" if "j \<in> set (bd_imports db)" for j using tables_okD(7)[OF t that] i(1) by simp
  note v = verdict_passed[OF passed]
  have "map bl_amount (attested db' (im_id i)) = map t_amount (ps_lines ps)"
    unfolding stands_for_amounts[OF ls] hashed_lines_fst[of env ps, symmetric] by simp
  then have carries: "carries db' i" using v(1) i by (simp add: carries_def cents_of_def)
  have agree: "agree db' i j" if j: "j \<in> set (bd_imports db)" "live j" "st_account j = ba_id a" for j
  proof (rule overlap_agrees[OF t' _ i(4,5,3) _ j(3) others[OF old[OF j(1)]] ls])
    show "overlap_with db ps ?rows j = []" using v(2) j by (simp add: passed_imports_def live_def)
  qed (simp_all add: imps j(1))
  have "evidence_inv env K db'"
    unfolding evidence_inv_def
  proof (intro conjI ballI impI t')
    fix j assume "j \<in> set (bd_imports db')" "live j"
    then consider "j = i" | "j \<in> set (bd_imports db)" "live j" unfolding imps by blast
    then show "carries db' j"
    proof cases
      case 2
      then have "carries db j" using inv by (simp add: evidence_inv_def)
      then show ?thesis using others[OF old[OF 2(1)]] by (simp add: carries_def)
    qed (use carries in simp)
  next
    fix j k assume jk: "j \<in> set (bd_imports db')" "k \<in> set (bd_imports db')" "live j \<and> live k \<and> st_account j = st_account k"
    have sym: "agree db' x y \<Longrightarrow> agree db' y x" for x y by (simp add: agree_iff)
    show "agree db' j k"
    proof (cases "j = i \<or> k = i")
      case True
      moreover have "agree db' i i" by (simp add: agree_iff)
      ultimately show ?thesis using jk agree sym i(3) unfolding imps by (metis insertE)
    next
      case False
      then have "j \<in> set (bd_imports db)" "k \<in> set (bd_imports db)" using jk unfolding imps by auto
      moreover from this have "agree db j k" using inv jk(3) by (simp add: evidence_inv_def)
      ultimately show ?thesis by (simp add: agree_iff others[OF old])
    qed
  qed
  then show ?thesis using run same ls others by blast
qed

lemma attach_images_run: "\<exists>images rows. attach_images imp ps scans ids db = (Inr images, db\<lparr>bd_images := rows\<rparr>)"
proof -
  have same: "db = db\<lparr>bd_images := bd_images db\<rparr>" by simp
  consider "scans = None \<or> scans = Some []" | sc scs where "scans = Some (sc # scs)" by (metis list.exhaust option.exhaust)
  then show ?thesis
  proof cases
    case 1
    then have "attach_images imp ps scans ids db = (Inr \<lparr>is_extracted = 0, is_paired = 0, is_error = False\<rparr>, db)"
      by (auto simp: attach_images_def)
    then show ?thesis using same by metis
  next
    case 2
    then show ?thesis by (simp add: attach_images_def Let_def) blast
  qed
qed

lemma images_evidence: "evidence_inv env K (db\<lparr>bd_images := rows\<rparr>) = evidence_inv env K db"
  by (simp add: evidence_inv_def tables_ok_def attests_def carries_def agree_iff attested_def)

lemma verdict_cong:
  assumes "bd_imports db' = bd_imports db" "bd_lines db' = bd_lines db" "bd_sources db' = bd_sources db"
  shows "verdict db' = verdict db"
proof -
  have "overlap_with db' = overlap_with db" by (intro ext) (simp only: overlap_with_def attested_cong[OF assms(2,3)])
  moreover have "passed_imports db' = passed_imports db" by (intro ext) (simp only: passed_imports_def assms(1))
  ultimately have "overlap_integrity db' = overlap_integrity db" by (intro ext) (simp only: overlap_integrity_def)
  then show ?thesis by (intro ext) (simp only: verdict_def)
qed

text \<open>What recording a statement leaves: all its lines attested, or none.\<close>

definition recorded :: "gl_env \<Rightarrow> parsed_statement \<Rightarrow> bank_db \<Rightarrow> import_result \<Rightarrow> bank_db \<Rightarrow> bool" where
  "recorded env ps db r db' \<longleftrightarrow> (case r of
     Imported d \<Rightarrow>
       fst (verdict db (ba_id (id_account d)) ps (hashed_lines env ps)) = TIE_OUT_PASSED \<and>
       (\<exists>i \<in> set (bd_imports db'). im_id i = id_import d \<and> live i \<and> st_account i = ba_id (id_account d) \<and> st_start i = ps_start ps \<and>
          st_end i = ps_end ps \<and> st_beginning i = ps_beginning ps \<and> st_ending i = ps_ending ps) \<and>
       list_all2 (stands_for (ba_id (id_account d))) (hashed_lines env ps) (attested db' (id_import d)) \<and>
       (\<forall>v. v \<noteq> id_import d \<longrightarrow> attested db' v = attested db v)
   | FailedTieOut d \<Rightarrow>
       fst (verdict db (ba_id (id_account d)) ps (hashed_lines env ps)) = TIE_OUT_FAILED \<and>
       (\<exists>i \<in> set (bd_imports db'). im_id i = id_import d \<and> st_tie_out i = TIE_OUT_FAILED) \<and>
       bd_lines db' = bd_lines db \<and> bd_sources db' = bd_sources db
   | _ \<Rightarrow> False)"

lemma record_statement_evidence:
  assumes inv: "evidence_inv env K db" and cf: "collision_free env K" and keys: "statement_keys ps \<subseteq> K"
  shows "\<exists>r db'. record_statement env sha filename user ps scans db = (Inr r, db') \<and> evidence_inv env K db' \<and> recorded env ps db r db'"
proof -
  obtain a db1 where a: "get_or_create_account ps db = (Inr a, db1)" "a \<in> set (bd_accounts db1)" "ba_last4 a = ps_last4 ps"
    and inv1: "evidence_inv env K db1" and same1: "bd_imports db1 = bd_imports db" "bd_lines db1 = bd_lines db" "bd_sources db1 = bd_sources db"
    by (rule create_account[OF inv])
  have att1: "attested db1 = attested db" by (rule attested_cong[OF same1(2,3)])
  have vd1: "verdict db1 = verdict db" by (rule verdict_cong[OF same1])
  obtain status checks where vd: "verdict db1 (ba_id a) ps (hashed_lines env ps) = (status, checks)" by fastforce
  define i where "i = mk_import env (bd_uuid db1) (ba_id a) sha filename user ps status
    \<lparr>tr_checks = checks, tr_warnings = continuity_warnings db1 (ba_id a) ps\<rparr>"
  have i: "im_id i = bd_uuid db1" "st_account i = ba_id a" "st_start i = ps_start ps" "st_end i = ps_end ps" "st_beginning i = ps_beginning ps"
    "st_ending i = ps_ending ps" "st_tie_out i = status" "live i \<longleftrightarrow> status = TIE_OUT_PASSED" by (simp_all add: i_def mk_import_def live_def)
  define db2 where "db2 = db1\<lparr>bd_uuid := Suc (bd_uuid db1), bd_imports := bd_imports db1 @ [i]\<rparr>"
  have run: "record_statement env sha filename user ps scans db =
     (if status = TIE_OUT_PASSED then
       andthen (fold_sem (attest_line (ba_id a) (im_id i)) (hashed_lines env ps) (0, 0, [])) (\<lambda>(added, deduped, ids).
       andthen (change (set_counts (im_id i) added deduped)) (\<lambda>_.
       andthen (if ps_captions ps \<noteq> [] then attach_images (im_id i) ps scans ids
                else ok \<lparr>is_extracted = 0, is_paired = 0, is_error = False\<rparr>) (\<lambda>images.
       ok (Imported \<lparr>id_import = im_id i, id_account = a, id_tie_out = status, id_added = added, id_deduped = deduped,
           id_warnings = continuity_warnings db1 (ba_id a) ps, id_images = images\<rparr>)))) db2
     else (Inr (FailedTieOut \<lparr>id_import = im_id i, id_account = a, id_tie_out = status, id_added = 0, id_deduped = 0,
           id_warnings = continuity_warnings db1 (ba_id a) ps, id_images = \<lparr>is_extracted = 0, is_paired = 0, is_error = False\<rparr>\<rparr>), db2))"
    unfolding i(1) unfolding db2_def i_def
    using a(1) vd by (simp add: record_statement_def andthen_def asks_def fresh_id_def change_def ok_def Let_def)
  show ?thesis
  proof (cases "status = TIE_OUT_PASSED")
    case True
    then have "fst (verdict db1 (ba_id a) ps (hashed_lines env ps)) = TIE_OUT_PASSED" "live i" using vd i(8) by simp_all
    from imported_evidence[OF inv1 cf keys a(2,3) this(1) i(1) this(2) i(2-6), folded db2_def]
    obtain added deduped ids db3 where f: "fold_sem (attest_line (ba_id a) (im_id i)) (hashed_lines env ps) (0, 0, []) db2 = (Inr (added, deduped, ids), db3)"
      and inv3: "evidence_inv env K db3" and same3: "same_books db2 db3"
      and ls: "list_all2 (stands_for (ba_id a)) (hashed_lines env ps) (attested db3 (im_id i))"
      and others: "\<forall>v. v \<noteq> im_id i \<longrightarrow> attested db3 v = attested db v" unfolding att1 by auto
    let ?db4 = "set_counts (im_id i) added deduped db3"
    obtain images rows where im: "(if ps_captions ps \<noteq> [] then attach_images (im_id i) ps scans ids
        else ok \<lparr>is_extracted = 0, is_paired = 0, is_error = False\<rparr>) ?db4 = (Inr images, ?db4\<lparr>bd_images := rows\<rparr>)"
    proof (cases "ps_captions ps = []")
      case True
      then show thesis using that[of _ "bd_images ?db4"] by (simp add: ok_def)
    next
      case False
      then show thesis using that attach_images_run[of "im_id i" ps scans ids ?db4] by auto
    qed
    let ?db5 = "?db4\<lparr>bd_images := rows\<rparr>"
    have att: "attested ?db5 = attested db3" by (rule attested_cong) (simp_all add: set_counts_def)
    have inv5: "evidence_inv env K ?db5" unfolding images_evidence by (rule set_counts_facts[OF inv3])
    have "i\<lparr>im_lines_added := added, im_lines_deduped := deduped\<rparr> \<in> set (bd_imports ?db5)"
      using same3 by (simp add: set_counts_def same_books_def db2_def)
    then have "\<exists>x \<in> set (bd_imports ?db5). im_id x = im_id i \<and> live x \<and> st_account x = ba_id a \<and> st_start x = ps_start ps \<and>
          st_end x = ps_end ps \<and> st_beginning x = ps_beginning ps \<and> st_ending x = ps_ending ps"
      by (rule rev_bexI) (use i True in \<open>simp add: live_def\<close>)
    then have rec: "recorded env ps db (Imported \<lparr>id_import = im_id i, id_account = a, id_tie_out = status, id_added = added, id_deduped = deduped,
           id_warnings = continuity_warnings db1 (ba_id a) ps, id_images = images\<rparr>) ?db5"
      using ls others vd True by (simp add: recorded_def att vd1)
    have "record_statement env sha filename user ps scans db = (Inr (Imported \<lparr>id_import = im_id i, id_account = a, id_tie_out = status,
        id_added = added, id_deduped = deduped, id_warnings = continuity_warnings db1 (ba_id a) ps, id_images = images\<rparr>), ?db5)"
      unfolding run using f im True by (simp add: andthen_def change_def ok_def)
    then show ?thesis using inv5 rec by blast
  next
    case False
    then have failed: "status = TIE_OUT_FAILED" using verdict_values[of db1 "ba_id a" ps "hashed_lines env ps"] vd by simp
    have t2: "tables_ok env K db2" unfolding db2_def by (rule add_import(1)) (use inv1 i(1) in \<open>simp_all add: evidence_inv_def\<close>)
    have att2: "attested db2 = attested db1" unfolding db2_def by (rule attested_cong) simp_all
    have imps: "bd_imports db2 = bd_imports db1 @ [i]" by (simp add: db2_def)
    have "evidence_inv env K db2"
      by (rule evidence_carried[OF inv1 t2 att2]) (use False i(8) same_facts_refl in \<open>auto simp: imps\<close>)
    then show ?thesis using False failed i(7) same1 vd unfolding run by (simp add: recorded_def imps vd1) (simp add: db2_def)
  qed
qed

section \<open>Void\<close>

definition only_attested_by :: "bank_db \<Rightarrow> uuid \<Rightarrow> uuid \<Rightarrow> bool" where
  "only_attested_by db imp u \<longleftrightarrow> (\<exists>s \<in> set (bd_sources db). so_line s = u) \<and> (\<forall>s \<in> set (bd_sources db). so_line s = u \<longrightarrow> so_import s = imp)"

lemma set_doomed: "set (doomed_ids db imp) = {u. only_attested_by db imp u}"
  by (auto simp: doomed_ids_def attested_ids_def only_attested_by_def list_ex_iff)

lemma drop_import_attested:
  assumes "v \<noteq> imp"
  shows "attested (drop_import now imp (doomed_ids db imp) db) v = attested db v"
proof -
  have "filter (\<lambda>s. so_import s = v) (filter (\<lambda>s. so_import s \<noteq> imp) (bd_sources db)) = filter (\<lambda>s. so_import s = v) (bd_sources db)"
    using assms by (induction "bd_sources db" rule: list.induct) (auto intro: filter_cong)
  moreover have "filter (\<lambda>l. bl_id l = so_line s) (filter (\<lambda>l. bl_id l \<notin> set (doomed_ids db imp)) (bd_lines db)) =
      filter (\<lambda>l. bl_id l = so_line s) (bd_lines db)" if "s \<in> set (filter (\<lambda>s. so_import s = v) (bd_sources db))" for s
  proof -
    have "so_line s \<notin> set (doomed_ids db imp)" using that assms unfolding set_doomed by (auto simp: only_attested_by_def)
    then show ?thesis by (auto intro: filter_cong)
  qed
  ultimately show ?thesis unfolding attested_def drop_import_def by (auto intro!: arg_cong[where f = concat] map_cong)
qed

lemma drop_matches_evidence: "evidence_inv env K (drop_matches ms db) = evidence_inv env K db"
  by (simp add: evidence_inv_def tables_ok_def attests_def carries_def agree_iff attested_def drop_matches_def)

lemma drop_import_tables:
  assumes t: "tables_ok env K db"
  shows "tables_ok env K (drop_import now imp (doomed_ids db imp) db)"
proof -
  let ?db = "drop_import now imp (doomed_ids db imp) db"
  let ?v = "\<lambda>i. if im_id i = imp then i\<lparr>st_voided_at := Some now\<rparr> else i"
  have f: "bd_accounts ?db = bd_accounts db" "bd_imports ?db = map ?v (bd_imports db)" "bd_uuid ?db = bd_uuid db"
    "bd_lines ?db = filter (\<lambda>l. \<not> only_attested_by db imp (bl_id l)) (bd_lines db)"
    "bd_sources ?db = filter (\<lambda>s. so_import s \<noteq> imp) (bd_sources db)"
    by (simp_all add: drop_import_def set_doomed)
  have ids: "map im_id (map ?v (bd_imports db)) = map im_id (bd_imports db)" by simp
  show ?thesis
    unfolding tables_ok_def f
  proof (intro conjI ballI)
    show "distinct (map im_id (map ?v (bd_imports db)))" unfolding ids by (rule tables_okD(2)[OF t])
    fix s assume "s \<in> set (filter (\<lambda>s. so_import s \<noteq> imp) (bd_sources db))"
    then have s: "s \<in> set (bd_sources db)" "so_import s \<noteq> imp" by simp_all
    from tables_okD(9)[OF t s(1)] obtain l i where l: "l \<in> set (bd_lines db)" "bl_id l = so_line s" and i: "i \<in> set (bd_imports db)"
      "im_id i = so_import s" "live i" "st_account i = bl_account l" by blast
    have l': "l \<in> set (filter (\<lambda>l. \<not> only_attested_by db imp (bl_id l)) (bd_lines db))"
      using s l by (auto simp: only_attested_by_def)
    have i': "i \<in> set (map ?v (bd_imports db))" using i(1,2) s(2) by force
    show "\<exists>l \<in> set (filter (\<lambda>l. \<not> only_attested_by db imp (bl_id l)) (bd_lines db)). bl_id l = so_line s \<and>
        (\<exists>i \<in> set (map ?v (bd_imports db)). im_id i = so_import s \<and> live i \<and> st_account i = bl_account l)"
      by (rule bexI[OF _ l'], rule conjI[OF l(2)], rule bexI[OF _ i']) (simp add: i(2-4))
  next
    fix l assume "l \<in> set (filter (\<lambda>l. \<not> only_attested_by db imp (bl_id l)) (bd_lines db))"
    then have l: "l \<in> set (bd_lines db)" "\<not> only_attested_by db imp (bl_id l)" by simp_all
    obtain v where "attests db v l" using tables_okD(10)[OF t l(1)] by blast
    then obtain s where "s \<in> set (bd_sources db)" "so_line s = bl_id l" "so_import s \<noteq> imp" using l(2)
      by (auto simp: only_attested_by_def attests_def)
    then have "attests ?db (so_import s) l" by (auto simp: attests_def f) (metis source_eta)
    then show "\<exists>i. attests ?db i l" by blast
    show "\<exists>a \<in> set (bd_accounts db). ba_id a = bl_account l \<and> hashes_itself env K a l" by (rule tables_okD(11)[OF t l(1)])
  next
    fix i assume "i \<in> set (map ?v (bd_imports db))"
    then have "im_id i \<in> set (map im_id (bd_imports db))" unfolding ids[symmetric] by (metis (no_types, lifting) image_eqI list.set_map)
    then show "im_id i < bd_uuid db" using tables_okD(7)[OF t] by auto
  qed (use tables_okD(1-6,8)[OF t] in \<open>auto simp: distinct_map_filter distinct_filter\<close>)
qed

lemma drop_import_evidence:
  assumes inv: "evidence_inv env K db"
  shows "evidence_inv env K (drop_import now imp (doomed_ids db imp) db)"
proof -
  let ?db = "drop_import now imp (doomed_ids db imp) db"
  have live: "j \<in> set (bd_imports db) \<and> im_id j \<noteq> imp" if "j \<in> set (bd_imports ?db)" "live j" for j
    using that by (auto simp: drop_import_def live_def split: if_splits)
  show ?thesis
    unfolding evidence_inv_def
  proof (intro conjI ballI impI)
    show "tables_ok env K ?db" by (rule drop_import_tables) (use inv in \<open>simp add: evidence_inv_def\<close>)
    fix i assume i: "i \<in> set (bd_imports ?db)" "live i"
    then have "carries db i" using inv live by (simp add: evidence_inv_def)
    then show "carries ?db i" using live[OF i] by (simp add: carries_def drop_import_attested)
  next
    fix i j assume ij: "i \<in> set (bd_imports ?db)" "j \<in> set (bd_imports ?db)" "live i \<and> live j \<and> st_account i = st_account j"
    then have "agree db i j" using inv live by (simp add: evidence_inv_def)
    then show "agree ?db i j" using live ij by (simp add: agree_iff drop_import_attested)
  qed
qed

lemma void_import_cases:
  assumes "void_import env imp db = (r, db')"
  obtains "st_voided_at imp \<noteq> None" "r = Inr AlreadyVoided" "db' = db"
  | n where "r = Inl (VoidRefused n)" "db' = db" "st_voided_at imp = None"
      "\<exists>ml \<in> set (bd_match_lines db). ml_status ml = MATCH_CONFIRMED \<and> only_attested_by db (im_id imp) (ml_line ml)"
  | "st_voided_at imp = None" "\<forall>ml \<in> set (bd_match_lines db). only_attested_by db (im_id imp) (ml_line ml) \<longrightarrow> ml_status ml \<noteq> MATCH_CONFIRMED"
    "r = Inr (Voided (length (doomed_ids db (im_id imp))) (length (attested_ids db (im_id imp)) - length (doomed_ids db (im_id imp))))"
    "db' = drop_import (now_utc env) (im_id imp) (doomed_ids db (im_id imp)) (drop_matches (map ml_match (referencing db (doomed_ids db (im_id imp)))) db)"
proof (cases "st_voided_at imp")
  case None
  let ?refs = "referencing db (doomed_ids db (im_id imp))"
  have conf: "filter (\<lambda>r. ml_status r = MATCH_CONFIRMED) ?refs = [] \<longleftrightarrow>
      (\<forall>ml \<in> set (bd_match_lines db). only_attested_by db (im_id imp) (ml_line ml) \<longrightarrow> ml_status ml \<noteq> MATCH_CONFIRMED)"
    by (auto simp: referencing_def set_doomed filter_empty_conv)
  show thesis
  proof (cases "filter (\<lambda>r. ml_status r = MATCH_CONFIRMED) ?refs = []")
    case True
    then have "void_import env imp db = (Inr (Voided (length (doomed_ids db (im_id imp)))
        (length (attested_ids db (im_id imp)) - length (doomed_ids db (im_id imp)))),
        drop_import (now_utc env) (im_id imp) (doomed_ids db (im_id imp)) (drop_matches (map ml_match ?refs) db))"
      using None by (simp add: void_import_def andthen_def asks_def change_def ok_def Let_def)
    then show thesis using that(3) None assms True conf by simp
  next
    case False
    then have "\<exists>n. void_import env imp db = (Inl (VoidRefused n), db)"
      using None by (simp add: void_import_def andthen_def asks_def throw_def Let_def)
    then show thesis using that(2) assms None False conf by auto
  qed
next
  case (Some d)
  then show thesis using that(1) assms by (simp add: void_import_def ok_def)
qed

lemma doomed_drop_matches: "doomed_ids (drop_matches ms db) = doomed_ids db" "bd_imports (drop_matches ms db) = bd_imports db"
  "bd_lines (drop_matches ms db) = bd_lines db" "bd_sources (drop_matches ms db) = bd_sources db"
  by (rule ext) (simp_all add: doomed_ids_def attested_ids_def drop_matches_def)

lemma void_import_evidence:
  assumes "evidence_inv env K db" and "void_import env' imp db = (r, db')"
  shows "evidence_inv env K db'"
  using assms(2)
proof (cases rule: void_import_cases)
  case 3
  let ?ms = "map ml_match (referencing db (doomed_ids db (im_id imp)))"
  have "evidence_inv env K (drop_matches ?ms db)" using assms(1) unfolding drop_matches_evidence .
  from drop_import_evidence[OF this, of "now_utc env'" "im_id imp"] show ?thesis unfolding 3 doomed_drop_matches .
qed (use assms(1) in simp_all)

lemma import_statement_cases:
  "import_statement env parse scans pdf filename user db =
     (if MAX_STATEMENT_BYTES < int (length pdf) then (Inr TooLarge, db)
      else case first (filter (\<lambda>i. im_sha i = sha256_hex env pdf \<and> st_voided_at i = None) (bd_imports db)) of
        Some i \<Rightarrow> (Inr (DuplicateFile (im_id i) (st_tie_out i)), db)
      | None \<Rightarrow> (case parse pdf of
          Inl e \<Rightarrow> (Inr (ParseFailed e), db)
        | Inr ps \<Rightarrow> record_statement env (sha256_hex env pdf) filename user ps (scans pdf) db))"
  by (simp add: import_statement_def andthen_def asks_def ok_def Let_def split: option.split sum.split)

lemma import_statement_split:
  obtains r where "import_statement env parse scans pdf filename user db = (Inr r, db)" "\<forall>d. r \<noteq> Imported d \<and> r \<noteq> FailedTieOut d"
  | ps where "parse pdf = Inr ps" "\<forall>i \<in> set (bd_imports db). im_sha i = sha256_hex env pdf \<longrightarrow> st_voided_at i \<noteq> None"
    "import_statement env parse scans pdf filename user db = record_statement env (sha256_hex env pdf) filename user ps (scans pdf) db"
proof (cases "MAX_STATEMENT_BYTES < int (length pdf)")
  case True
  then show thesis using that(1)[of TooLarge] by (simp add: import_statement_cases)
next
  case small: False
  show thesis
  proof (cases "first (filter (\<lambda>i. im_sha i = sha256_hex env pdf \<and> st_voided_at i = None) (bd_imports db))")
    case (Some i)
    then show thesis using that(1)[of "DuplicateFile (im_id i) (st_tie_out i)"] small by (simp add: import_statement_cases)
  next
    case None
    then have "\<forall>i \<in> set (bd_imports db). im_sha i = sha256_hex env pdf \<longrightarrow> st_voided_at i \<noteq> None" by (simp add: filter_empty_conv)
    then show thesis
      using that(1)[of "ParseFailed _"] that(2) small None by (cases "parse pdf") (simp_all add: import_statement_cases)
  qed
qed

lemma import_statement_evidence:
  assumes inv: "evidence_inv env K db" and cf: "collision_free env K" and keys: "\<And>ps. parse pdf = Inr ps \<Longrightarrow> statement_keys ps \<subseteq> K"
  shows "\<exists>r db'. import_statement env parse scans pdf filename user db = (Inr r, db') \<and> evidence_inv env K db' \<and>
    ((\<forall>d. r \<noteq> Imported d \<and> r \<noteq> FailedTieOut d) \<and> db' = db \<or> (\<exists>ps. parse pdf = Inr ps \<and> recorded env ps db r db'))"
proof (cases rule: import_statement_split[of env parse scans pdf filename user db])
  case (2 ps)
  from record_statement_evidence[OF inv cf keys[OF 2(1)]] 2 show ?thesis by metis
qed (use inv in blast)

section \<open>The archive over time\<close>

text \<open>
  Imports and voids in any order, and between them whatever leaves the evidence alone: the matcher, the ledger, the renaming
  and mapping of bank accounts.
\<close>

definition beside_evidence :: "bank_db \<Rightarrow> bank_db \<Rightarrow> bool" where
  "beside_evidence db db' \<longleftrightarrow> bd_imports db' = bd_imports db \<and> bd_lines db' = bd_lines db \<and> bd_sources db' = bd_sources db \<and>
     map (\<lambda>a. (ba_id a, ba_last4 a, ba_institution a)) (bd_accounts db') = map (\<lambda>a. (ba_id a, ba_last4 a, ba_institution a)) (bd_accounts db) \<and>
     bd_uuid db \<le> bd_uuid db'"

inductive archive_step :: "(string \<Rightarrow> string) \<Rightarrow> string set \<Rightarrow> bank_db \<Rightarrow> bank_db \<Rightarrow> bool" for sha :: "string \<Rightarrow> string" and K :: "string set" where
  imported: "sha256_hex env = sha \<Longrightarrow> (\<And>ps. parse pdf = Inr ps \<Longrightarrow> statement_keys ps \<subseteq> K) \<Longrightarrow>
     import_statement env parse scans pdf filename user db = (r, db') \<Longrightarrow> archive_step sha K db db'"
| voided: "i \<in> set (bd_imports db) \<Longrightarrow> void_import env i db = (r, db') \<Longrightarrow> archive_step sha K db db'"
| beside: "beside_evidence db db' \<Longrightarrow> archive_step sha K db db'"

lemma evidence_inv_sha: "sha256_hex env = sha256_hex env' \<Longrightarrow> evidence_inv env K db = evidence_inv env' K db"
  by (simp add: evidence_inv_def tables_ok_def hashes_itself_def compute_line_hash_def)

lemma beside_evidence_inv:
  assumes inv: "evidence_inv env K db" and b: "beside_evidence db db'"
  shows "evidence_inv env K db'"
proof -
  have t: "tables_ok env K db" using inv by (simp add: evidence_inv_def)
  let ?k = "\<lambda>a. (ba_id a, ba_last4 a, ba_institution a)"
  have same: "bd_imports db' = bd_imports db" "bd_lines db' = bd_lines db" "bd_sources db' = bd_sources db" "bd_uuid db \<le> bd_uuid db'"
    and accts: "map ?k (bd_accounts db') = map ?k (bd_accounts db)" using b by (simp_all add: beside_evidence_def)
  have "map ba_id (bd_accounts db') = map (fst \<circ> ?k) (bd_accounts db')" by simp
  also have "\<dots> = map fst (map ?k (bd_accounts db))" by (simp only: map_map[symmetric] accts)
  finally have ids: "map ba_id (bd_accounts db') = map ba_id (bd_accounts db)" by simp
  have acct: "\<exists>y \<in> set (bd_accounts db'). ba_id y = ba_id x \<and> ba_last4 y = ba_last4 x" if "x \<in> set (bd_accounts db)" for x
    using that arg_cong[OF accts, of set] by (auto simp: image_iff set_eq_iff) metis
  have "tables_ok env K db'"
    unfolding tables_ok_def same attests_cong[OF same(3)] ids
  proof (intro conjI ballI)
    fix l assume l: "l \<in> set (bd_lines db)"
    from tables_okD(11)[OF t l] acct show "\<exists>a \<in> set (bd_accounts db'). ba_id a = bl_account l \<and> hashes_itself env K a l"
      unfolding hashes_itself_def by metis
  next
    fix a assume "a \<in> set (bd_accounts db')"
    then have "ba_id a \<in> set (map ba_id (bd_accounts db))" unfolding ids[symmetric] by simp
    then show "ba_id a < bd_uuid db'" using tables_okD(6)[OF t] same(4) by fastforce
  qed (use tables_okD[OF t] same(4) in \<open>auto intro: less_le_trans\<close>)
  then show ?thesis
    by (rule evidence_carried[OF inv]) (use attested_cong[OF same(2,3)] same_facts_refl in \<open>auto simp: same(1)\<close>)
qed

lemma archive_step_inv: "archive_step sha K db db' \<Longrightarrow> inj_on sha K \<Longrightarrow> sha256_hex env = sha \<Longrightarrow> evidence_inv env K db \<Longrightarrow> evidence_inv env K db'"
proof (induction rule: archive_step.induct)
  case (imported env' parse pdf scans filename user db r db')
  then have "collision_free env' K" "evidence_inv env' K db" using evidence_inv_sha[of env env'] by (simp_all add: collision_free_def)
  from import_statement_evidence[OF this(2,1), of parse pdf scans filename user] have "evidence_inv env' K db'"
    using imported.hyps(2,3) by fastforce
  then show ?case using evidence_inv_sha[of env env'] imported by simp
qed (auto intro: void_import_evidence beside_evidence_inv)

lemma archive_inv: "(archive_step sha K)\<^sup>*\<^sup>* empty_bank_db db \<Longrightarrow> inj_on sha K \<Longrightarrow> sha256_hex env = sha \<Longrightarrow> evidence_inv env K db"
  by (induction rule: rtranclp_induct) (auto intro: evidence_inv_empty archive_step_inv)

text \<open>
  C10.  The archive stays consistent.  However statements are imported and voided, as long as SHA-256 does not collide on the lines hashed: the
  ending balance of every live import is its beginning balance plus the lines it attests; two live imports of an account attest the
  same lines on the days both cover; and every line is attested by a live import of its account.
\<close>

theorem archive_stays_consistent:
  assumes "(archive_step sha K)\<^sup>*\<^sup>* empty_bank_db db" and "inj_on sha K"
  shows "(\<forall>i \<in> set (bd_imports db). live i \<longrightarrow> st_ending i = st_beginning i + sum_list (map bl_amount (attested db (im_id i)))) \<and>
    (\<forall>i \<in> set (bd_imports db). \<forall>j \<in> set (bd_imports db). live i \<and> live j \<and> st_account i = st_account j \<longrightarrow>
       (\<forall>l \<in> set (bd_lines db). in_window (st_start i) (st_end i) (bl_date l) \<and> in_window (st_start j) (st_end j) (bl_date l) \<longrightarrow>
          attests db (im_id i) l = attests db (im_id j) l)) \<and>
    (\<forall>l \<in> set (bd_lines db). \<exists>i \<in> set (bd_imports db). live i \<and> st_account i = bl_account l \<and> attests db (im_id i) l)"
proof -
  define env where "env = sample_env\<lparr>sha256_hex := sha\<rparr>"
  have inv: "evidence_inv env K db" by (rule archive_inv[OF assms]) (simp add: env_def)
  have t: "tables_ok env K db" using inv by (simp add: evidence_inv_def)
  have "\<exists>i \<in> set (bd_imports db). live i \<and> st_account i = bl_account l \<and> attests db (im_id i) l" if l: "l \<in> set (bd_lines db)" for l
  proof -
    obtain v where v: "attests db v l" using tables_okD(10)[OF t l] by blast
    from tables_okD(9)[OF t v[unfolded attests_def]] obtain l' i where "l' \<in> set (bd_lines db)" "bl_id l' = bl_id l"
      "i \<in> set (bd_imports db)" "im_id i = v" "live i" "st_account i = bl_account l'" by auto
    then show ?thesis using distinct_map_eq[OF tables_okD(3)[OF t], of l' l] l v by auto
  qed
  then show ?thesis using inv unfolding evidence_inv_def carries_def agree_def by blast
qed

end
