(* ===== verification/Bank_Archive.thy ===== *)
theory Bank_Archive
  imports Bank_Evidence
begin

text \<open>
  What the operations of the statement service do, one at a time, and what the opening balances of the ledger rest on.
\<close>

section \<open>Import\<close>

text \<open>
  C11.  A statement contributes all its lines or none, and the import always answers.  On a consistent archive, a readable statement no live
  import has the bytes of is recorded: as imported exactly when its arithmetic ties out and it agrees with every overlapping import, and
  then the import attests one line per parsed line, in order, of the same day, amount and hash; and as failed otherwise, with no line
  and no attestation added.
\<close>

theorem import_all_or_nothing:
  assumes "evidence_inv env K db" and "collision_free env K" and "parse pdf = Inr ps" and "statement_keys ps \<subseteq> K"
    and "int (length pdf) \<le> MAX_STATEMENT_BYTES" and "\<forall>i \<in> set (bd_imports db). im_sha i = sha256_hex env pdf \<longrightarrow> st_voided_at i \<noteq> None"
  shows "\<exists>r db'. import_statement env parse scans pdf filename user db = (Inr r, db') \<and> evidence_inv env K db' \<and>
    (case r of
       Imported d \<Rightarrow> fst (verdict db (ba_id (id_account d)) ps (hashed_lines env ps)) = TIE_OUT_PASSED \<and>
         list_all2 (stands_for (ba_id (id_account d))) (hashed_lines env ps) (attested db' (id_import d)) \<and>
         (\<forall>v. v \<noteq> id_import d \<longrightarrow> attested db' v = attested db v)
     | FailedTieOut d \<Rightarrow> fst (verdict db (ba_id (id_account d)) ps (hashed_lines env ps)) = TIE_OUT_FAILED \<and>
         bd_lines db' = bd_lines db \<and> bd_sources db' = bd_sources db
     | _ \<Rightarrow> False)"
proof -
  have none: "filter (\<lambda>i. im_sha i = sha256_hex env pdf \<and> st_voided_at i = None) (bd_imports db) = []"
    using assms(6) by (auto simp: filter_empty_conv)
  have run: "import_statement env parse scans pdf filename user db = record_statement env (sha256_hex env pdf) filename user ps (scans pdf) db"
    using assms(3,5) by (simp add: import_statement_cases none)
  from record_statement_evidence[OF assms(1,2,4), of "sha256_hex env pdf" filename user "scans pdf"]
  obtain r db' where "record_statement env (sha256_hex env pdf) filename user ps (scans pdf) db = (Inr r, db')" "evidence_inv env K db'"
    "recorded env ps db r db'" by blast
  then show ?thesis unfolding run recorded_def by (auto split: import_result.splits)
qed

section \<open>Void\<close>


section \<open>Import, then void\<close>

text \<open>What one import adds: lines with ids of its own and attestations of its own.\<close>

definition adds_own :: "uuid \<Rightarrow> bank_db \<Rightarrow> bank_db \<Rightarrow> bool" where
  "adds_own imp db db' \<longleftrightarrow> bd_uuid db \<le> bd_uuid db' \<and> (\<exists>ls. bd_lines db' = bd_lines db @ ls \<and> (\<forall>l \<in> set ls. bd_uuid db \<le> bl_id l)) \<and>
     (\<exists>ss. bd_sources db' = bd_sources db @ ss \<and> (\<forall>s \<in> set ss. so_import s = imp)) \<and>
     bd_match_lines db' = bd_match_lines db \<and> bd_matches db' = bd_matches db \<and> bd_match_externals db' = bd_match_externals db"

interpretation own: tracked "adds_own imp" for imp
proof
  show "adds_own imp s s" for s by (simp add: adds_own_def)
  fix s t u assume "adds_own imp s t" "adds_own imp t u"
  then show "adds_own imp s u" unfolding adds_own_def by (fastforce intro: order.trans)
qed

lemma attest_line_adds: "tracks (adds_own imp) (attest_line account imp row acc)"
  unfolding tracks_def
  by (cases acc) (auto simp: attest_line_cases Let_def adds_own_def with_line_def new_line_def split: option.splits prod.splits)

lemma frame_adds: "bd_uuid db \<le> bd_uuid db' \<Longrightarrow> bd_lines db' = bd_lines db \<Longrightarrow> bd_sources db' = bd_sources db \<Longrightarrow> bd_match_lines db' = bd_match_lines db \<Longrightarrow>
   bd_matches db' = bd_matches db \<Longrightarrow> bd_match_externals db' = bd_match_externals db \<Longrightarrow> adds_own imp db db'"
  by (simp add: adds_own_def)

lemma record_statement_adds:
  assumes "record_statement env sha filename user ps scans db = (Inr (Imported d), db')"
  shows "adds_own (id_import d) db db' \<and> bd_uuid db \<le> id_import d \<and>
    (\<forall>j \<in> set (bd_imports db'). im_id j \<noteq> id_import d \<longrightarrow> j \<in> set (bd_imports db))"
proof -
  obtain a db1 where a: "get_or_create_account ps db = (Inr a, db1)"
    using assms by (auto simp: record_statement_def andthen_Inr)
  have f1: "adds_own v db db1" "bd_imports db1 = bd_imports db" for v
    using a by (auto simp: get_or_create_account_def andthen_def asks_def ok_def fresh_id_def change_def Let_def split: option.splits intro!: frame_adds)
  let ?u = "bd_uuid db1"
  obtain status checks where vd: "verdict db1 (ba_id a) ps (hashed_lines env ps) = (status, checks)" by fastforce
  define db2 where "db2 = db1\<lparr>bd_uuid := Suc ?u, bd_imports := bd_imports db1 @ [mk_import env ?u (ba_id a) sha filename user ps status
    \<lparr>tr_checks = checks, tr_warnings = continuity_warnings db1 (ba_id a) ps\<rparr>]\<rparr>"
  have f2: "adds_own v db1 db2" for v unfolding db2_def by (rule frame_adds) simp_all
  have st: "status = TIE_OUT_PASSED"
    using assms a vd by (auto simp: record_statement_def andthen_Inr asks_def fresh_id_def change_def ok_def Let_def split: if_splits)
  from assms a vd st obtain added deduped ids db3 images where
    3: "fold_sem (attest_line (ba_id a) ?u) (hashed_lines env ps) (0, 0, []) db2 = (Inr (added, deduped, ids), db3)"
    and 4: "(if ps_captions ps \<noteq> [] then attach_images ?u ps scans ids else ok \<lparr>is_extracted = 0, is_paired = 0, is_error = False\<rparr>)
       (set_counts ?u added deduped db3) = (Inr images, db')" and d: "id_import d = ?u"
    by (auto simp: record_statement_def andthen_Inr asks_def fresh_id_def change_def ok_def Let_def db2_def)
  have "tracks (adds_own ?u) (fold_sem (attest_line (ba_id a) ?u) (hashed_lines env ps) (0, 0, []))"
    by (intro own.tracks_fold_sem attest_line_adds)
  from tracksD[OF this 3] have f3: "adds_own ?u db2 db3" .
  have same3: "bd_imports db3 = bd_imports db2"
  proof -
    have "tracks (\<lambda>s t. bd_imports t = bd_imports s) (attest_line (ba_id a) ?u row acc)" for row acc
      by (cases acc) (auto simp: tracks_def attest_line_cases Let_def with_line_def split: option.splits)
    moreover have "tracked (\<lambda>s t. bd_imports t = bd_imports s)" by unfold_locales simp_all
    ultimately have "tracks (\<lambda>s t. bd_imports t = bd_imports s) (fold_sem (attest_line (ba_id a) ?u) (hashed_lines env ps) (0, 0, []))"
      by (intro tracked.tracks_fold_sem)
    from tracksD[OF this 3] show ?thesis .
  qed
  obtain images' rows where "attach_images ?u ps scans ids (set_counts ?u added deduped db3) = (Inr images', (set_counts ?u added deduped db3)\<lparr>bd_images := rows\<rparr>)"
    using attach_images_run by blast
  then have db': "\<exists>rows. db' = (set_counts ?u added deduped db3)\<lparr>bd_images := rows\<rparr>"
    using 4 by (cases "ps_captions ps = []") (auto simp: ok_def intro: exI[of _ "bd_images (set_counts ?u added deduped db3)"])
  then have "adds_own ?u db3 db'" by (auto simp: set_counts_def intro!: frame_adds)
  from own.R_trans[OF own.R_trans[OF own.R_trans[OF f1(1) f2] f3] this] have "adds_own ?u db db'" .
  moreover have "bd_uuid db \<le> ?u" using f1(1)[of 0] by (simp add: adds_own_def)
  moreover have "j \<in> set (bd_imports db)" if "j \<in> set (bd_imports db')" "im_id j \<noteq> ?u" for j
    using that db' same3 f1(2) by (auto simp: set_counts_def db2_def mk_import_def split: if_splits)
  ultimately show ?thesis using d by simp
qed

text \<open>
  C13.  Voiding an import undoes it.  On a consistent archive whose matches hold existing lines, the void of the import just made
  succeeds, the lines, the attestations and the matches are again what they were before the import, and no live import has the bytes of
  the file, so that the same file can be imported again.
\<close>

theorem import_then_void_restores:
  assumes inv: "evidence_inv env K db" and cf: "collision_free env K" and keys: "\<And>ps. parse pdf = Inr ps \<Longrightarrow> statement_keys ps \<subseteq> K"
    and fk: "\<forall>ml \<in> set (bd_match_lines db). ml_line ml \<in> bl_id ` set (bd_lines db)"
    and run: "import_statement env parse scans pdf filename user db = (Inr (Imported d), db1)"
    and i: "i \<in> set (bd_imports db1)" "im_id i = id_import d"
  shows "\<exists>n k db2. void_import env i db1 = (Inr (Voided n k), db2) \<and> bd_lines db2 = bd_lines db \<and> bd_sources db2 = bd_sources db \<and>
    bd_matches db2 = bd_matches db \<and> bd_match_lines db2 = bd_match_lines db \<and> bd_match_externals db2 = bd_match_externals db \<and>
    (\<forall>j \<in> set (bd_imports db2). im_sha j = sha256_hex env pdf \<longrightarrow> st_voided_at j \<noteq> None)"
proof -
  obtain ps where ps: "parse pdf = Inr ps" "\<forall>i \<in> set (bd_imports db). im_sha i = sha256_hex env pdf \<longrightarrow> st_voided_at i \<noteq> None"
    "record_statement env (sha256_hex env pdf) filename user ps (scans pdf) db = (Inr (Imported d), db1)"
    using run by (cases rule: import_statement_split[of env parse scans pdf filename user db]) auto
  have t: "tables_ok env K db" using inv by (simp add: evidence_inv_def)
  have rec: "evidence_inv env K db1" "recorded env ps db (Imported d) db1"
    using record_statement_evidence[OF inv cf keys[OF ps(1)], of "sha256_hex env pdf" filename user "scans pdf"] ps(3) by auto
  have t1: "tables_ok env K db1" using rec(1) by (simp add: evidence_inv_def)
  from record_statement_adds[OF ps(3)] obtain ls ss where add: "bd_lines db1 = bd_lines db @ ls" "\<forall>l \<in> set ls. bd_uuid db \<le> bl_id l"
    "bd_sources db1 = bd_sources db @ ss" "\<forall>s \<in> set ss. so_import s = id_import d" "bd_uuid db \<le> id_import d"
    and same: "bd_match_lines db1 = bd_match_lines db" "bd_matches db1 = bd_matches db" "bd_match_externals db1 = bd_match_externals db"
    and imps: "\<forall>j \<in> set (bd_imports db1). im_id j \<noteq> id_import d \<longrightarrow> j \<in> set (bd_imports db)" unfolding adds_own_def by blast
  have old_src: "so_import s \<noteq> id_import d" if "s \<in> set (bd_sources db)" for s
    using tables_okD(9)[OF t that] tables_okD(7)[OF t] add(5) by fastforce
  have old: "\<not> only_attested_by db1 (id_import d) (bl_id l)" if l: "l \<in> set (bd_lines db)" for l
  proof -
    obtain v where "\<lparr>so_line = bl_id l, so_import = v\<rparr> \<in> set (bd_sources db)" using tables_okD(10)[OF t l] by (auto simp: attests_def)
    moreover from this have "v \<noteq> id_import d" using old_src[of "\<lparr>so_line = bl_id l, so_import = v\<rparr>"] by simp
    ultimately show ?thesis
      unfolding only_attested_by_def add(3) by (metis UnI1 line_source.select_convs set_append)
  qed
  have new: "only_attested_by db1 (id_import d) (bl_id l)" if l: "l \<in> set ls" for l
  proof -
    have "\<exists>s \<in> set (bd_sources db1). so_line s = bl_id l" using tables_okD(10)[OF t1, of l] l add(1) by (force simp: attests_def)
    moreover have "so_line s \<noteq> bl_id l" if "s \<in> set (bd_sources db)" for s
      using tables_okD(9)[OF t that] tables_okD(8)[OF t] add(2) l by fastforce
    ultimately show ?thesis using add(3,4) unfolding only_attested_by_def by (metis UnE set_append)
  qed
  have no_refs: "referencing db1 (doomed_ids db1 (im_id i)) = []"
    using fk old by (auto simp: referencing_def same filter_empty_conv set_doomed i(2))
  have live: "st_voided_at i = None"
  proof -
    from rec(2) obtain j where "j \<in> set (bd_imports db1)" "im_id j = id_import d" "live j" by (auto simp: recorded_def)
    then have "live i" using distinct_map_eq[OF tables_okD(2)[OF t1] i(1)] i(2) by auto
    then show ?thesis by (simp add: live_def)
  qed
  have noms: "drop_matches [] db1 = db1" by (simp add: drop_matches_def)
  have "void_import env i db1 = (Inr (Voided (length (doomed_ids db1 (im_id i))) (length (attested_ids db1 (im_id i)) - length (doomed_ids db1 (im_id i)))),
      drop_import (now_utc env) (im_id i) (doomed_ids db1 (im_id i)) db1)"
    using live no_refs noms by (simp add: void_import_def andthen_def asks_def change_def ok_def Let_def)
  moreover have "filter (\<lambda>l. \<not> only_attested_by db1 (id_import d) (bl_id l)) (bd_lines db1) = bd_lines db"
    using old new by (auto simp: add(1) filter_empty_conv intro: filter_True)
  moreover have "filter (\<lambda>s. so_import s \<noteq> id_import d) (bd_sources db1) = bd_sources db"
    using old_src add(4) by (auto simp: add(3) filter_empty_conv intro: filter_True)
  ultimately show ?thesis
    using imps ps(2) by (auto simp: drop_import_def same i(2) set_doomed)
qed

section \<open>The evidence under an opening\<close>

lemma proved_account_run:
  assumes "propose_opening b company = Inr p" and x: "(u, r, c) \<in> set (proved_accounts p)"
  shows "chained r \<and> set r \<subseteq> set (statement_chain b u) \<and> (\<exists>s \<in> set r. proves s (po_cutover p) c)"
proof -
  obtain staged where st: "staged = map (\<lambda>a. (a, evidence_of b a)) (sort_key bank_order (bb_accounts b))" "usable_candidates staged \<noteq> []"
    "po_accounts p = map (account_proposal_of (po_cutover p)) staged" "po_cutover p \<in> set (common_boundaries (map snd (usable_candidates staged)))"
    by (rule propose_opening_Inr[OF assms(1)]) blast
  obtain a cs where a: "(a, Chain r cs) \<in> set staged" "u = ba_id a" "c = the (map_of cs (po_cutover p))"
  proof -
    obtain a ev where "(a, ev) \<in> set staged" "(u, r, c) \<in> set (case account_proposal_of (po_cutover p) (a, ev) of
        Unusable _ _ _ \<Rightarrow> [] | Usable u _ run c \<Rightarrow> [(u, run, c)])" using x unfolding proved_accounts_def st(3) by auto
    then show thesis using that by (cases ev) (auto simp: account_proposal_of_def)
  qed
  have "cs \<in> set (map snd (usable_candidates staged))" using a(1) unfolding usable_candidates_def by force
  then have "map_of cs (po_cutover p) \<noteq> None" using st(2,4) common_boundaries_iff[of "map snd (usable_candidates staged)"] by auto
  then have c: "map_of cs (po_cutover p) = Some c" using a(3) by auto
  have "evidence_of b a = Chain r cs" using a(1) unfolding st(1) by auto
  note k = evidence_Chain[OF this]
  from latest_contiguous_run_ok[of "statement_chain b (ba_id a)"] k
  have "chained r" "set r \<subseteq> set (statement_chain b u)" unfolding a(2) by (metis, metis Un_upper2 set_append)
  then show ?thesis using boundary_candidates_proves(1) k c by auto
qed

definition lines_total :: "bank_db \<Rightarrow> bank_import list \<Rightarrow> int" where
  "lines_total db is = sum_list (map (\<lambda>i. sum_list (map bl_amount (attested db (im_id i)))) is)"

lemma run_telescopes:
  assumes "chained (map statement.truncate is)" "\<forall>i \<in> set is. carries db i" "k < length is"
  shows "st_beginning (is ! k) = st_beginning (hd is) + lines_total db (take k is) \<and>
    st_ending (is ! k) = st_beginning (hd is) + lines_total db (take (Suc k) is)"
  using assms
proof (induction "is" arbitrary: k)
  case (Cons i rest)
  have i: "st_ending i = st_beginning i + sum_list (map bl_amount (attested db (im_id i)))" using Cons.prems(2) by (simp add: carries_def)
  show ?case
  proof (cases k)
    case 0
    then show ?thesis using i by (simp add: lines_total_def)
  next
    case (Suc m)
    then obtain j js where rest: "rest = j # js" using Cons.prems(3) by (cases rest) auto
    have "st_beginning j = st_ending i" using Cons.prems(1) by (simp add: rest linked_def Let_def statement.truncate_def)
    moreover have "st_beginning (rest ! m) = st_beginning (hd rest) + lines_total db (take m rest) \<and>
        st_ending (rest ! m) = st_beginning (hd rest) + lines_total db (take (Suc m) rest)"
      by (rule Cons.IH) (use Cons.prems Suc rest in auto)
    ultimately show ?thesis using i Suc by (simp add: rest lines_total_def)
  qed
qed simp


section \<open>A statement\<close>

definition april_statement :: parsed_statement where
  "april_statement = \<lparr>ps_last4 = ''1234'', ps_title = ''BUSINESS CHECKING'', ps_kind = ''checking'', ps_start = Date 26 4 1, ps_end = Date 26 4 30,
     ps_beginning = 50, ps_ending = 73, ps_deposits_count = Some 1, ps_deposits_total = 30, ps_debits_count = Some 1,
     ps_debits_total = 7, ps_service_charge = 0, ps_interest = 0,
     ps_lines = [\<lparr>t_date = Date 26 4 3, t_amount = 30, t_anchor = ''DEPOSIT'', t_description = ''DEPOSIT'', t_section = SECTION_DEPOSIT,
        t_check_number = None\<rparr>,
       \<lparr>t_date = Date 26 4 10, t_amount = - 7, t_anchor = ''Check 101'', t_description = ''Check 101'', t_section = SECTION_CHECK,
        t_check_number = Some ''101''\<rparr>],
     ps_daily = [(Date 26 4 3, 80), (Date 26 4 10, 73)], ps_captions = [], ps_sc_detail = 0, ps_has_sc_detail = False\<rparr>"

text \<open>A digest without collisions, and the archive after one import.\<close>

definition bank_env :: gl_env where
  "bank_env = sample_env\<lparr>sha256_hex := (\<lambda>s. s)\<rparr>"

definition april_import :: "bank_db \<Rightarrow> (bank_exn + import_result) \<times> bank_db" where
  "april_import = import_statement bank_env (\<lambda>_. Inr april_statement) (\<lambda>_. None) ''%PDF-april'' ''april.pdf'' None"

definition april_db :: bank_db where
  "april_db = snd (april_import empty_bank_db)"

lemma bank_env_free: "collision_free bank_env K"
  by (simp add: collision_free_def bank_env_def inj_on_def)

definition april_view :: "(bank_exn + import_result) \<times> bank_db \<Rightarrow>
    (uuid \<times> nat) option \<times> (uuid \<times> int) list \<times> (uuid \<times> bool) list \<times> match_line list \<times> (date \<times> (uuid \<times> int) list) option" where
  "april_view x = (case x of (r, db) \<Rightarrow>
     (case r of Inr (Imported d) \<Rightarrow> Some (id_import d, id_added d) | _ \<Rightarrow> None,
      map (\<lambda>l. (bl_id l, bl_amount l)) (bd_lines db), map (\<lambda>i. (im_id i, st_voided_at i = None)) (bd_imports db), bd_match_lines db,
      case propose_opening (opening_books db) ''gdx'' of Inl _ \<Rightarrow> None
      | Inr p \<Rightarrow> Some (po_cutover p, map (\<lambda>(u, stmts, c). (u, c)) (proved_accounts p))))"

lemma april_viewed:
  "april_view (april_import empty_bank_db) = (Some (1, 2), [(2, 30), (3, - 7)], [(1, True)], [], Some (Date 26 5 1, [(0, 73)]))"
  by code_simp

lemma april_run: obtains d where "april_import empty_bank_db = (Inr (Imported d), april_db)" "id_import d = 1"
proof -
  obtain r where r: "april_import empty_bank_db = (r, april_db)" unfolding april_db_def by (metis prod.collapse)
  then have "(case r of Inr (Imported d) \<Rightarrow> Some (id_import d, id_added d) | _ \<Rightarrow> None) = Some (1, 2)"
    using april_viewed by (simp add: april_view_def)
  then obtain d where "r = Inr (Imported d)" "id_import d = 1" by (cases r; cases "projr r") auto
  then show thesis using that r by simp
qed

lemma april_rows:
  "map (\<lambda>l. (bl_id l, bl_amount l)) (bd_lines april_db) = [(2, 30), (3, - 7)]" "bd_match_lines april_db = []"
  "map (\<lambda>i. (im_id i, st_voided_at i = None)) (bd_imports april_db) = [(1, True)]"
  "(case propose_opening (opening_books april_db) ''gdx'' of Inl _ \<Rightarrow> None
      | Inr p \<Rightarrow> Some (po_cutover p, map (\<lambda>(u, stmts, c). (u, c)) (proved_accounts p))) = Some (Date 26 5 1, [(0, 73)])"
  using april_viewed unfolding april_db_def april_view_def by (simp_all add: case_prod_beta')

lemma april_step: "(archive_step (\<lambda>s. s) UNIV)\<^sup>*\<^sup>* empty_bank_db april_db"
proof -
  obtain d where "april_import empty_bank_db = (Inr (Imported d), april_db)" by (rule april_run)
  then have "archive_step (\<lambda>s. s) UNIV empty_bank_db april_db"
    unfolding april_import_def by (intro archive_step.imported) (simp_all add: bank_env_def)
  then show ?thesis by (rule r_into_rtranclp[where r = "archive_step (\<lambda>s. s) UNIV"])
qed

lemma april_inv: "evidence_inv bank_env UNIV april_db"
  by (rule archive_inv[OF april_step]) (simp_all add: bank_env_def)

lemma april_only: obtains i where "bd_imports april_db = [i]" "im_id i = 1" "st_voided_at i = None"
  using april_rows(3) by (cases "bd_imports april_db") auto

theorem archive_stays_consistent_witness:
  "\<exists>i \<in> set (bd_imports april_db). \<forall>l \<in> set (bd_lines april_db). attests april_db (im_id i) l"
proof -
  obtain i where i: "bd_imports april_db = [i]" by (rule april_only)
  have "\<forall>l \<in> set (bd_lines april_db). \<exists>i \<in> set (bd_imports april_db). live i \<and> st_account i = bl_account l \<and> attests april_db (im_id i) l"
    using archive_stays_consistent[OF april_step] by (simp add: inj_on_def)
  then show ?thesis by (auto simp: i)
qed

theorem import_all_or_nothing_witness:
  "\<exists>d. april_import empty_bank_db = (Inr (Imported d), april_db) \<and> length (attested april_db (id_import d)) = 2"
proof -
  obtain d where d: "april_import empty_bank_db = (Inr (Imported d), april_db)" by (rule april_run)
  have len: "length (hashed_lines bank_env april_statement) = 2"
    using arg_cong[OF hashed_lines_fst[of bank_env april_statement], of length] by (simp add: april_statement_def)
  have "list_all2 (stands_for (ba_id (id_account d))) (hashed_lines bank_env april_statement) (attested april_db (id_import d))"
  proof -
    have "int (length ''%PDF-april'') \<le> MAX_STATEMENT_BYTES" "\<forall>i \<in> set (bd_imports empty_bank_db). im_sha i = sha256_hex bank_env ''%PDF-april'' \<longrightarrow> st_voided_at i \<noteq> None"
      by (simp_all add: MAX_STATEMENT_BYTES_def empty_bank_db_def)
    from import_all_or_nothing[where parse = "\<lambda>_. Inr april_statement" and scans = "\<lambda>_. None" and filename = "''april.pdf''" and user = None,
        OF evidence_inv_empty bank_env_free refl subset_UNIV this]
    show ?thesis using d unfolding april_import_def by auto
  qed
  then show ?thesis using d len by (auto dest: list_all2_lengthD)
qed


theorem import_then_void_restores_witness:
  "\<exists>i n k db2. i \<in> set (bd_imports april_db) \<and> void_import bank_env i april_db = (Inr (Voided n k), db2) \<and> bd_lines db2 = []"
proof -
  obtain d where d: "april_import empty_bank_db = (Inr (Imported d), april_db)" "id_import d = 1" by (rule april_run)
  obtain i where i: "bd_imports april_db = [i]" "im_id i = 1" by (rule april_only)
  have "\<forall>ml \<in> set (bd_match_lines empty_bank_db). ml_line ml \<in> bl_id ` set (bd_lines empty_bank_db)" by (simp add: empty_bank_db_def)
  from import_then_void_restores[OF evidence_inv_empty bank_env_free subset_UNIV this d(1)[unfolded april_import_def], of i]
  show ?thesis using i d(2) by (auto simp: empty_bank_db_def)
qed


end
