(* ===== verification/Vendor_Payments.thy ===== *)
theory Vendor_Payments
  imports Bank_Statements Decimals
begin

text \<open>
  \<^verbatim>\<open>modules/vendor_invoices/payments.py\<close>: payments against vendor bills, the status derived from them, and the cash-basis date
  of the bill's expenses, which moves with the settlement and is reposted in the ledger.
\<close>

section \<open>Reading a bill\<close>

text \<open>A ledger or decimal computation inside the bank state.\<close>

definition ledger :: "'a gl \<Rightarrow> 'a bank" where
  "ledger m = (\<lambda>db. case m (bd_gl db) of (r, g) \<Rightarrow> (map_sum LedgerRaised id r, db\<lparr>bd_gl := g\<rparr>))"

definition computed :: "(bank_db \<Rightarrow> exn + 'a) \<Rightarrow> 'a bank" where
  "computed f = reads (\<lambda>db. map_sum LedgerRaised id (f db))"

abbreviation "PAY_SOURCE_MANUAL \<equiv> ''manual''"
abbreviation "PAY_SOURCE_STATEMENT_MATCH \<equiv> ''statement_match''"
abbreviation "PAY_SOURCE_STATEMENT_DIFF \<equiv> ''statement_diff''"

definition VALID_PAYMENT_SOURCES :: "string list" where
  "VALID_PAYMENT_SOURCES = [PAY_SOURCE_MANUAL, PAY_SOURCE_STATEMENT_MATCH, PAY_SOURCE_STATEMENT_DIFF]"

definition get_bill :: "bank_db \<Rightarrow> uuid \<Rightarrow> vendor_bill option" where
  "get_bill db u = first (filter (\<lambda>b. vb_id b = u) (bd_bills db))"

definition live_bill_payments :: "bank_db \<Rightarrow> uuid \<Rightarrow> bill_payment list" where
  "live_bill_payments db u = sort_key bp_created_at (filter (\<lambda>p. bp_bill p = u \<and> bp_voided_at p = None) (bd_bill_payments db))"

definition paid_total :: "bank_db \<Rightarrow> uuid \<Rightarrow> exn + decimal" where
  "paid_total db u = dec_sum_from (Fin 0 (-2)) (map bp_amount (live_bill_payments db u))"

text \<open>\<^verbatim>\<open>invoice.total or Decimal("0.00")\<close>: NULL and zero are falsy.\<close>

definition bill_total :: "vendor_bill \<Rightarrow> decimal" where
  "bill_total b = (case vb_total b of Some (Fin c e) \<Rightarrow> if c = 0 then Fin 0 (-2) else Fin c e | Some d \<Rightarrow> d | None \<Rightarrow> Fin 0 (-2))"

definition open_balance :: "bank_db \<Rightarrow> vendor_bill \<Rightarrow> exn + decimal" where
  "open_balance db b = bindR (paid_total db (vb_id b)) (\<lambda>paid. dec_minus (bill_total b) paid)"

text \<open>\<^verbatim>\<open>total > 0 and paid >= total\<close>; the sum is taken only when the total is positive.\<close>

definition covered :: "bank_db \<Rightarrow> vendor_bill \<Rightarrow> exn + bool" where
  "covered db b =
     bindR (dec_le (bill_total b) (Fin 0 0)) (\<lambda>nothing.
     if nothing then Inr False
     else bindR (paid_total db (vb_id b)) (\<lambda>paid. dec_le (bill_total b) paid))"

definition set_bill_status :: "uuid \<Rightarrow> bill_status \<Rightarrow> bank_db \<Rightarrow> bank_db" where
  "set_bill_status u st db = db\<lparr>bd_bills := map (\<lambda>b. if vb_id b = u then b\<lparr>vb_status := st\<rparr> else b) (bd_bills db)\<rparr>"

definition recompute_status :: "vendor_bill \<Rightarrow> bill_status bank" where
  "recompute_status b =
     (if vb_status b = STATUS_VOID then ok STATUS_VOID
      else andthen (computed (\<lambda>db. covered db b)) (\<lambda>c.
        let st = (if c then STATUS_PAID else STATUS_OPEN) in
        andthen (change (set_bill_status (vb_id b) st)) (\<lambda>_. ok st)))"

section \<open>The date of the bill's expenses\<close>

definition settled_date :: "bank_db \<Rightarrow> vendor_bill \<Rightarrow> exn + date option" where
  "settled_date db b =
     (let ps = live_bill_payments db (vb_id b) in
      bindR (dec_le (bill_total b) (Fin 0 0)) (\<lambda>nothing.
      if nothing then Inr None
      else bindR (paid_total db (vb_id b)) (\<lambda>paid.
        bindR (dec_le (bill_total b) paid) (\<lambda>enough.
        if \<not> enough then Inr None
        else if list_ex (\<lambda>p. bp_date p = None) ps then Inr None
        else case map (\<lambda>p. the (bp_date p)) ps of
               [] \<Rightarrow> Inl ValueError
             | d # ds \<Rightarrow> Inr (Some (fold max ds d))))))"

definition effective_expense_date :: "gl_env \<Rightarrow> bank_db \<Rightarrow> vendor_bill \<Rightarrow> exn + date" where
  "effective_expense_date env db b =
     bindR (settled_date db b) (\<lambda>settled.
     case settled of
       Some d \<Rightarrow> Inr d
     | None \<Rightarrow> Inr (case vb_date b of Some d \<Rightarrow> d | None \<Rightarrow> shop_today env))"

definition get_expense :: "bank_db \<Rightarrow> uuid \<Rightarrow> expense option" where
  "get_expense db u = first (filter (\<lambda>x. x_id x = u) (db_expenses (bd_gl db)))"

definition expense_source :: "bank_db \<Rightarrow> uuid \<Rightarrow> string option" where
  "expense_source db u = map_option xm_source (first (filter (\<lambda>m. xm_expense m = u) (bd_expense_meta db)))"

definition expense_ids :: "bank_db \<Rightarrow> uuid \<Rightarrow> uuid list" where
  "expense_ids db u = List.map_filter vl_expense (filter (\<lambda>l. vl_bill l = u) (bd_bill_lines db))"

text \<open>The live entries of an expense, reversal entries left out.\<close>

definition posted_entries :: "gl_db \<Rightarrow> expense \<Rightarrow> gl_entry list" where
  "posted_entries g x =
     filter (\<lambda>e. e_company e = x_company x \<and> e_source_type e = Some ''expense'' \<and> e_source_id e = Some (uuid_str (x_id x)) \<and>
                e_status e = Posted \<and> e_reverses e = None) (db_entries g)"

fun period_locked :: "bank_exn \<Rightarrow> bool" where
  "period_locked (LedgerRaised (PeriodLockedError _ _)) = True"
| "period_locked _ = False"

definition reverse_lock_tolerant :: "gl_env \<Rightarrow> gl_entry \<Rightarrow> unit bank" where
  "reverse_lock_tolerant env e =
     andthen (catch (ledger (reverse_entry env e None None False)) (\<lambda>x.
       if period_locked x then ledger (reverse_entry env e (Some (shop_today env)) None False) else throw x)) (\<lambda>_. ok ())"

text \<open>The column default \<^verbatim>\<open>onupdate\<close> stamps the row whenever a column of it is written.\<close>

definition edit_expense :: "gl_env \<Rightarrow> uuid \<Rightarrow> (expense \<Rightarrow> expense) \<Rightarrow> bank_db \<Rightarrow> bank_db" where
  "edit_expense env u f db =
     db\<lparr>bd_gl := (bd_gl db)\<lparr>db_expenses := map (\<lambda>x. if x_id x = u then f x else x) (db_expenses (bd_gl db))\<rparr>,
        bd_expense_meta := map (\<lambda>m. if xm_expense m = u then m\<lparr>xm_updated_at := now_utc env\<rparr> else m) (bd_expense_meta db)\<rparr>"

definition still_posted :: "gl_db \<Rightarrow> gl_entry \<Rightarrow> bool" where
  "still_posted g p = (case get_entry g (e_id p) of Some e \<Rightarrow> e_status e = Posted | None \<Rightarrow> False)"

definition finish_reversal :: "gl_env \<Rightarrow> date \<Rightarrow> gl_entry \<Rightarrow> unit bank" where
  "finish_reversal env target p =
     andthen (asks (\<lambda>db. still_posted (bd_gl db) p)) (\<lambda>live.
     if live then andthen (ledger (reverse_entry env p (Some target) None False)) (\<lambda>_. ok ()) else ok ())"

definition repost_redated :: "gl_env \<Rightarrow> date \<Rightarrow> expense \<Rightarrow> gl_entry list \<Rightarrow> unit bank" where
  "repost_redated env target x prior =
     catch (ledger (repost_expense env x None)) (\<lambda>e.
       if \<not> period_locked e then throw e
       else
         andthen (asks (\<lambda>db. filter (\<lambda>f. e_effective_at f = target \<and> e_id f \<notin> e_id ` set prior) (posted_entries (bd_gl db) x))) (\<lambda>fresh.
         if fresh = [] then throw e else for_each (finish_reversal env target) prior))"

definition redate_expense :: "gl_env \<Rightarrow> date \<Rightarrow> date option option \<Rightarrow> expense \<Rightarrow> date option bank" where
  "redate_expense env target cache x =
     andthen (asks (\<lambda>db. posted_entries (bd_gl db) x)) (\<lambda>prior.
     andthen (change (edit_expense env (x_id x) (\<lambda>y. y\<lparr>x_date := Some target\<rparr>))) (\<lambda>_.
     andthen (asks (\<lambda>db. case cache of Some c \<Rightarrow> c | None \<Rightarrow> cutover_date (bd_gl db) (x_company x))) (\<lambda>cutover.
     andthen (if (case cutover of None \<Rightarrow> False | Some c \<Rightarrow> target < c)
              then for_each (reverse_lock_tolerant env) prior
              else repost_redated env target (x\<lparr>x_date := Some target\<rparr>) prior) (\<lambda>_.
     ok cutover))))"

text \<open>Expenses that are gone, deleted, not the bill's own or dated right already are passed over.\<close>

definition redatable :: "bank_db \<Rightarrow> date \<Rightarrow> uuid \<Rightarrow> expense option" where
  "redatable db target u =
     (case get_expense db u of
        None \<Rightarrow> None
      | Some x \<Rightarrow> if x_deleted_at x \<noteq> None \<or> expense_source db u \<noteq> Some ''vendor_invoice'' \<or> x_date x = Some target then None else Some x)"

fun redate_expenses :: "gl_env \<Rightarrow> date \<Rightarrow> date option option \<Rightarrow> uuid list \<Rightarrow> nat bank" where
  "redate_expenses env target cache [] = ok 0"
| "redate_expenses env target cache (u # us) =
     andthen (asks (\<lambda>db. redatable db target u)) (\<lambda>found.
     case found of
       None \<Rightarrow> redate_expenses env target cache us
     | Some x \<Rightarrow>
         andthen (redate_expense env target cache x) (\<lambda>cutover.
         andthen (redate_expenses env target (Some cutover) us) (\<lambda>n. ok (Suc n))))"

definition sync_expense_dates :: "gl_env \<Rightarrow> vendor_bill \<Rightarrow> nat bank" where
  "sync_expense_dates env b =
     andthen (computed (\<lambda>db. effective_expense_date env db b)) (\<lambda>target.
     andthen (asks (\<lambda>db. expense_ids db (vb_id b))) (\<lambda>ids. redate_expenses env target None ids))"

section \<open>Recording and voiding\<close>

record payment_input =
  pi_amount :: decimal
  pi_date :: "date option"
  pi_source :: string
  pi_reference :: "string option"
  pi_match :: "uuid option"
  pi_statement :: "uuid option"
  pi_created_by :: "string option"

definition mk_payment :: "gl_env \<Rightarrow> uuid \<Rightarrow> uuid \<Rightarrow> payment_input \<Rightarrow> bill_payment" where
  "mk_payment env u bill i =
     \<lparr>bp_id = u, bp_bill = bill, bp_amount = pi_amount i, bp_date = pi_date i, bp_source = pi_source i, bp_reference = pi_reference i,
      bp_match = pi_match i, bp_statement = pi_statement i, bp_created_by = pi_created_by i, bp_created_at = now_utc env,
      bp_voided_at = None, bp_voided_by = None\<rparr>"

text \<open>The flush of a new payment meets the partial unique index: one live payment per match.\<close>

definition match_paid :: "bank_db \<Rightarrow> uuid option \<Rightarrow> bool" where
  "match_paid db m = (case m of None \<Rightarrow> False | Some u \<Rightarrow> list_ex (\<lambda>p. bp_match p = Some u \<and> bp_voided_at p = None) (bd_bill_payments db))"

definition insert_payment :: "gl_env \<Rightarrow> uuid \<Rightarrow> payment_input \<Rightarrow> bill_payment bank" where
  "insert_payment env bill i =
     andthen (asks (\<lambda>db. match_paid db (pi_match i))) (\<lambda>twice.
     if twice then throw (LedgerRaised IntegrityError)
     else andthen fresh_id (\<lambda>u.
       let p = mk_payment env u bill i in
       andthen (change (\<lambda>db. db\<lparr>bd_bill_payments := bd_bill_payments db @ [p]\<rparr>)) (\<lambda>_. ok p)))"

definition refresh_bill :: "uuid \<Rightarrow> vendor_bill bank" where
  "refresh_bill u = reads (\<lambda>db. case get_bill db u of None \<Rightarrow> Inl InvalidRequestError | Some b \<Rightarrow> Inr b)"

definition record_payment :: "gl_env \<Rightarrow> uuid \<Rightarrow> payment_input \<Rightarrow> bill_payment bank" where
  "record_payment env bill i =
     (if pi_source i \<notin> set VALID_PAYMENT_SOURCES then throw (PaymentError ''invalid_source'')
      else
        andthen (refresh_bill bill) (\<lambda>b.
        if vb_status b = STATUS_VOID then throw (PaymentError ''bill_void'')
        else
          andthen (computed (\<lambda>_. dec_le (pi_amount i) (Fin 0 0))) (\<lambda>nonpos.
          if nonpos then throw (PaymentError ''amount_not_positive'')
          else
            andthen (computed (\<lambda>db. bindR (open_balance db b) (\<lambda>bal. dec_le (pi_amount i) bal))) (\<lambda>fits.
            if \<not> fits then throw (PaymentError ''over_open_balance'')
            else
              andthen (insert_payment env bill i) (\<lambda>p.
              andthen (recompute_status b) (\<lambda>_.
              andthen (sync_expense_dates env b) (\<lambda>_.
              ok p)))))))"

definition get_match :: "bank_db \<Rightarrow> uuid \<Rightarrow> bank_match option" where
  "get_match db u = first (filter (\<lambda>m. bm_id m = u) (bd_matches db))"

definition match_confirmed :: "bank_db \<Rightarrow> uuid option \<Rightarrow> bool" where
  "match_confirmed db m =
     (case m of None \<Rightarrow> False | Some u \<Rightarrow> (case get_match db u of None \<Rightarrow> False | Some bm \<Rightarrow> bm_status bm = MATCH_CONFIRMED))"

definition mark_voided :: "gl_env \<Rightarrow> uuid \<Rightarrow> string option \<Rightarrow> bank_db \<Rightarrow> bank_db" where
  "mark_voided env u who db =
     db\<lparr>bd_bill_payments := map (\<lambda>p. if bp_id p = u then p\<lparr>bp_voided_at := Some (now_utc env), bp_voided_by := who\<rparr> else p)
          (bd_bill_payments db)\<rparr>"

definition void_payment :: "gl_env \<Rightarrow> string option \<Rightarrow> bool \<Rightarrow> bill_payment \<Rightarrow> unit bank" where
  "void_payment env who via_unconfirm p =
     (if bp_voided_at p \<noteq> None then ok ()
      else
        andthen (asks (\<lambda>db. \<not> via_unconfirm \<and> match_confirmed db (bp_match p))) (\<lambda>refused.
        if refused then throw (PaymentError ''match_void_ceremony'')
        else
          andthen (change (mark_voided env (bp_id p) who)) (\<lambda>_.
          andthen (asks (\<lambda>db. get_bill db (bp_bill p))) (\<lambda>found.
          case found of
            None \<Rightarrow> ok ()
          | Some b \<Rightarrow> andthen (recompute_status b) (\<lambda>_. andthen (sync_expense_dates env b) (\<lambda>_. ok ()))))))"

text \<open>\<^verbatim>\<open>payment_summary\<close>: what is paid, what is open, and whether the bill is partly paid.\<close>

definition payment_summary :: "bank_db \<Rightarrow> vendor_bill \<Rightarrow> exn + (decimal \<times> decimal \<times> bool)" where
  "payment_summary db b =
     bindR (paid_total db (vb_id b)) (\<lambda>paid.
     bindR (dec_minus (bill_total b) paid) (\<lambda>bal.
     bindR (dec_le paid (Fin 0 0)) (\<lambda>nothing.
     if nothing then Inr (paid, bal, False)
     else bindR (dec_le (bill_total b) paid) (\<lambda>full. Inr (paid, bal, \<not> full)))))"

end
