(* ===== verification/Match_Rules.thy ===== *)
theory Match_Rules
  imports Vendor_Payments Calendar
begin

text \<open>
  The suggestion ladder of \<^verbatim>\<open>modules/bank_feeds/statement_matching.py\<close>: classification (R5), exact one-to-one pairs (R2) and
  deposit sweeps (R3).  Everything is suggested only; a pairing the office rejected is not suggested again.
\<close>

section \<open>Helpers\<close>

text \<open>Strings are UTF-8 bytes; the notes of the matcher contain a dash.\<close>

definition EM_DASH :: string where
  "EM_DASH = [CHR 0xE2, CHR 0x80, CHR 0x94]"

definition R2_BUSINESS_DAYS :: nat where "R2_BUSINESS_DAYS = 3"
definition R3_WINDOW_BACK_DAYS :: int where "R3_WINDOW_BACK_DAYS = 7"
definition R3_WINDOW_FWD_DAYS :: int where "R3_WINDOW_FWD_DAYS = 1"
definition R3_MAX_CANDIDATES :: nat where "R3_MAX_CANDIDATES = 12"
definition R3_MAX_SUBSET :: nat where "R3_MAX_SUBSET = 6"
definition VENDOR_INVOICE_WINDOW_DAYS :: int where "VENDOR_INVOICE_WINDOW_DAYS = 10"

definition PROCESSOR_METHODS :: "string list" where
  "PROCESSOR_METHODS = [''card'', ''credit'', ''credit_card'', ''debit_card'', ''stripe'', ''ach'']"

definition R3_EXCLUDED_METHODS :: "string list" where
  "R3_EXCLUDED_METHODS = PROCESSOR_METHODS @ [''quickbooks'']"

text \<open>\<^verbatim>\<open>_cents\<close>: \<^verbatim>\<open>int(Decimal(str(amount)) * 100)\<close>, which truncates toward zero; \<^verbatim>\<open>str(None)\<close> is no number.\<close>

fun dec_int :: "decimal \<Rightarrow> exn + int" where
  "dec_int (Fin c e) = Inr (if 0 \<le> e then c * 10 ^ nat e else sgn c * (\<bar>c\<bar> div 10 ^ nat (- e)))"
| "dec_int (Inf _) = Inl OverflowError"
| "dec_int NaN = Inl ValueError"

definition amount_cents :: "decimal option \<Rightarrow> exn + int" where
  "amount_cents a = (case a of None \<Rightarrow> Inl InvalidOperation | Some d \<Rightarrow> bindR (dec_times d (Fin 100 0)) dec_int)"

text \<open>\<^verbatim>\<open>_business_days_apart\<close>: the loop steps a cursor from the earlier day to the later one.\<close>

fun weekdays_from :: "date \<Rightarrow> nat \<Rightarrow> nat" where
  "weekdays_from cursor 0 = 0"
| "weekdays_from cursor (Suc n) =
     (let c = add_days cursor 1 in (if weekday c < 5 then 1 else 0) + weekdays_from c n)"

definition business_days_apart :: "date \<Rightarrow> date \<Rightarrow> nat" where
  "business_days_apart a b = weekdays_from (min a b) (nat (days_between (max a b) (min a b)))"

definition anchor_of :: "bank_line \<Rightarrow> string" where
  "anchor_of l = takeWhile (\<lambda>c. c \<noteq> CHR 0x0A) (bl_description l)"

text \<open>The two transfer patterns, matched from the start without regard to case.\<close>

fun after_prefix :: "string \<Rightarrow> string \<Rightarrow> string option" where
  "after_prefix [] s = Some s"
| "after_prefix (p # ps) [] = None"
| "after_prefix (p # ps) (c # cs) = (if to_lower c = to_lower p then after_prefix ps cs else None)"

definition four_digits :: "string \<Rightarrow> string option" where
  "four_digits s = (if 4 \<le> length s \<and> list_all is_digit (take 4 s) then Some (drop 4 s) else None)"

definition after_either :: "string \<Rightarrow> string \<Rightarrow> string \<Rightarrow> string option" where
  "after_either p q s = (case after_prefix p s of Some r \<Rightarrow> Some r | None \<Rightarrow> after_prefix q s)"

definition transfer_long :: "string \<Rightarrow> bool" where
  "transfer_long s =
     (Option.bind (after_prefix ''Transfer '' s) (\<lambda>a. Option.bind (after_either ''from x'' ''to x'' a) (\<lambda>b.
      Option.bind (four_digits b) (\<lambda>c. Option.bind (after_prefix '' to x'' c) four_digits))) \<noteq> None)"

definition transfer_short :: "string \<Rightarrow> bool" where
  "transfer_short s =
     (Option.bind (after_prefix ''Trnsfr '' s) (\<lambda>a. Option.bind (after_either ''Frm Act Ending in '' ''To Act Ending in '' a) four_digits) \<noteq> None)"

definition is_transfer :: "bank_line \<Rightarrow> bool" where
  "is_transfer l = (let s = strip (anchor_of l) in transfer_long s \<or> transfer_short s)"

text \<open>Filtering with a test that may raise.\<close>

fun filterR :: "('a \<Rightarrow> 'e + bool) \<Rightarrow> 'a list \<Rightarrow> 'e + 'a list" where
  "filterR f [] = Inr []"
| "filterR f (x # xs) = bindR (f x) (\<lambda>b. bindR (filterR f xs) (\<lambda>ys. Inr (if b then x # ys else ys)))"

section \<open>The match tables\<close>

type_synonym books_record = "source_table \<times> uuid"
type_synonym signature = "uuid list \<times> books_record list"

definition matched_line_ids :: "bank_db \<Rightarrow> uuid list" where
  "matched_line_ids db = map ml_line (filter (\<lambda>m. ml_status m \<noteq> MATCH_REJECTED) (bd_match_lines db))"

definition external_key :: "match_external \<Rightarrow> books_record" where
  "external_key x = (mx_table x, mx_source x)"

definition used_externals :: "bank_db \<Rightarrow> books_record list" where
  "used_externals db = map external_key (filter (\<lambda>x. mx_status x \<noteq> MATCH_REJECTED) (bd_match_externals db))"

text \<open>The two partial unique indexes.\<close>

definition exclusive :: "bank_db \<Rightarrow> bool" where
  "exclusive db \<longleftrightarrow> distinct (matched_line_ids db) \<and> distinct (used_externals db)"

definition lines_of :: "bank_db \<Rightarrow> uuid \<Rightarrow> uuid list" where
  "lines_of db m = map ml_line (filter (\<lambda>l. ml_match l = m) (bd_match_lines db))"

definition externals_of :: "bank_db \<Rightarrow> uuid \<Rightarrow> books_record list" where
  "externals_of db m = map external_key (filter (\<lambda>x. mx_match x = m) (bd_match_externals db))"

definition rejected_signatures :: "bank_db \<Rightarrow> uuid \<Rightarrow> signature list" where
  "rejected_signatures db account =
     map (\<lambda>m. (lines_of db (bm_id m), externals_of db (bm_id m)))
       (filter (\<lambda>m. bm_account m = account \<and> bm_status m = MATCH_REJECTED) (bd_matches db))"

text \<open>Signatures are pairs of frozen sets.\<close>

definition same_signature :: "signature \<Rightarrow> signature \<Rightarrow> bool" where
  "same_signature a b \<longleftrightarrow> set (fst a) = set (fst b) \<and> set (snd a) = set (snd b)"

definition flush_matches :: "unit bank" where
  "flush_matches = reads (\<lambda>db. if exclusive db then Inr () else Inl (LedgerRaised IntegrityError))"

record match_input =
  mi_account :: uuid
  mi_rule :: string
  mi_lines :: "uuid list"
  mi_externals :: "books_record list"
  mi_classification :: "string option"
  mi_confidence :: "nat option"
  mi_note :: "string option"

definition mk_match :: "uuid \<Rightarrow> match_input \<Rightarrow> bank_match" where
  "mk_match u i =
     \<lparr>bm_id = u, bm_account = mi_account i, bm_rule = mi_rule i, bm_status = MATCH_SUGGESTED, bm_classification = mi_classification i,
      bm_confidence = mi_confidence i, bm_note = mi_note i, bm_created_by = Some ''matcher'', bm_confirmed_by = None,
      bm_confirmed_at = None, bm_created_expense = None\<rparr>"

definition mk_match_line :: "uuid \<Rightarrow> uuid \<Rightarrow> match_line" where
  "mk_match_line m l = \<lparr>ml_match = m, ml_line = l, ml_status = MATCH_SUGGESTED\<rparr>"

definition mk_match_external :: "uuid \<Rightarrow> books_record \<Rightarrow> match_external" where
  "mk_match_external m r = \<lparr>mx_match = m, mx_table = fst r, mx_source = snd r, mx_status = MATCH_SUGGESTED\<rparr>"

definition add_children :: "uuid \<Rightarrow> match_input \<Rightarrow> bank_db \<Rightarrow> bank_db" where
  "add_children u i db =
     db\<lparr>bd_match_lines := bd_match_lines db @ map (mk_match_line u) (mi_lines i),
        bd_match_externals := bd_match_externals db @ map (mk_match_external u) (mi_externals i)\<rparr>"

text \<open>
  \<^verbatim>\<open>_new_match\<close>.  The flush that gives the match its id also writes the children of the matches before it; its own children wait
  for the next flush.
\<close>

definition new_match :: "signature list option \<Rightarrow> match_input \<Rightarrow> uuid option bank" where
  "new_match rejected i =
     (if list_ex (same_signature (mi_lines i, mi_externals i)) (case rejected of None \<Rightarrow> [] | Some sigs \<Rightarrow> sigs) then ok None
      else
        andthen flush_matches (\<lambda>_.
        andthen fresh_id (\<lambda>u.
        andthen (change (\<lambda>db. db\<lparr>bd_matches := bd_matches db @ [mk_match u i]\<rparr>)) (\<lambda>_.
        andthen (change (add_children u i)) (\<lambda>_.
        ok (Some u))))))"

section \<open>The ladder\<close>

definition in_range :: "date \<Rightarrow> date \<Rightarrow> date \<Rightarrow> bool" where
  "in_range lo hi d \<longleftrightarrow> lo \<le> d \<and> d \<le> hi"

definition range_lines :: "bank_db \<Rightarrow> uuid \<Rightarrow> date \<Rightarrow> date \<Rightarrow> bank_line list" where
  "range_lines db account lo hi =
     sort_key bl_date (filter (\<lambda>l. bl_account l = account \<and> in_range lo hi (bl_date l)) (bd_lines db))"

text \<open>The suggestions of the account that touch the range.\<close>

definition stale_suggestions :: "bank_db \<Rightarrow> uuid \<Rightarrow> date \<Rightarrow> date \<Rightarrow> uuid list" where
  "stale_suggestions db account lo hi =
     map bm_id (filter (\<lambda>m. bm_status m = MATCH_SUGGESTED \<and> bm_account m = account \<and>
       list_ex (\<lambda>ml. ml_match ml = bm_id m \<and>
         list_ex (\<lambda>l. bl_id l = ml_line ml \<and> in_range lo hi (bl_date l)) (bd_lines db)) (bd_match_lines db)) (bd_matches db))"

definition open_lines :: "bank_db \<Rightarrow> uuid \<Rightarrow> date \<Rightarrow> date \<Rightarrow> bank_line list" where
  "open_lines db account lo hi = filter (\<lambda>l. bl_id l \<notin> set (matched_line_ids db)) (range_lines db account lo hi)"

definition line_match :: "uuid \<Rightarrow> string \<Rightarrow> bank_line \<Rightarrow> books_record list \<Rightarrow> string option \<Rightarrow> nat \<Rightarrow> string option \<Rightarrow> match_input" where
  "line_match account rule l externals classification confidence note =
     \<lparr>mi_account = account, mi_rule = rule, mi_lines = [bl_id l], mi_externals = externals, mi_classification = classification,
      mi_confidence = Some confidence, mi_note = note\<rparr>"

subsection \<open>R5\<close>

definition classification_of :: "bank_line \<Rightarrow> (string \<times> nat) option" where
  "classification_of l =
     (if bl_section l = SECTION_SERVICE_CHARGE then Some (''bank_fee'', 99)
      else if bl_section l = SECTION_INTEREST then Some (''interest'', 99)
      else if is_transfer l then Some (''transfer'', 95) else None)"

fun classify :: "uuid \<Rightarrow> signature list \<Rightarrow> bank_line list \<Rightarrow> nat bank" where
  "classify account sigs [] = ok 0"
| "classify account sigs (l # ls) =
     (case classification_of l of
        None \<Rightarrow> classify account sigs ls
      | Some (c, conf) \<Rightarrow>
          andthen (new_match (Some sigs) (line_match account ''R5'' l [] (Some c) conf None)) (\<lambda>created.
          andthen (classify account sigs ls) (\<lambda>n. ok (if created = None then n else Suc n))))"

subsection \<open>R2 for deposits\<close>

definition payment_method :: "payment \<Rightarrow> string" where
  "payment_method p = lower (strip (or_str (p_method p) []))"

definition window_payments :: "bank_db \<Rightarrow> date \<Rightarrow> date \<Rightarrow> payment list" where
  "window_payments db lo hi =
     filter (\<lambda>p. p_voided_at p = None \<and> (case p_date p of None \<Rightarrow> False | Some d \<Rightarrow> in_range lo hi d) \<and>
                (Payments, p_id p) \<notin> set (used_externals db)) (db_payments (bd_gl db))"

text \<open>The amount agrees and the days are near; the amount is read first.\<close>

definition near :: "decimal option \<Rightarrow> date \<Rightarrow> int \<Rightarrow> bank_line \<Rightarrow> exn + bool" where
  "near amount d signed l =
     bindR (amount_cents amount) (\<lambda>c. Inr (c = signed \<and> business_days_apart d (bl_date l) \<le> R2_BUSINESS_DAYS))"

definition payment_hit :: "bank_line \<Rightarrow> payment \<Rightarrow> exn + bool" where
  "payment_hit l p = near (p_amount p) (the (p_date p)) (bl_amount l) l"

definition r2_candidates :: "payment list \<Rightarrow> bank_line \<Rightarrow> exn + payment list" where
  "r2_candidates ps l = filterR (payment_hit l) (filter (\<lambda>p. payment_method p \<notin> set PROCESSOR_METHODS) ps)"

definition competitor_deposits :: "bank_db \<Rightarrow> date \<Rightarrow> date \<Rightarrow> bank_line list" where
  "competitor_deposits db lo hi =
     filter (\<lambda>l. bl_section l = SECTION_DEPOSIT \<and> in_range lo hi (bl_date l) \<and> bl_id l \<notin> set (matched_line_ids db) \<and> \<not> is_transfer l)
       (bd_lines db)"

definition pairs_of :: "(bank_line \<Rightarrow> exn + 'a list) \<Rightarrow> bank_line list \<Rightarrow> exn + (bank_line \<times> 'a list) list" where
  "pairs_of hits ls = mapR (\<lambda>l. bindR (hits l) (\<lambda>xs. Inr (l, xs))) ls"

text \<open>How many of the lines hit the record: the length of its entry in the reverse index.\<close>

definition degree :: "('a \<Rightarrow> uuid) \<Rightarrow> (bank_line \<times> 'a list) list \<Rightarrow> 'a \<Rightarrow> nat" where
  "degree ident table x = length (filter (\<lambda>y. ident y = ident x) (concat (map snd table)))"

text \<open>The single candidate, when it has no rival line; a candidate without an entry in the reverse index is a KeyError.\<close>

definition unrivalled :: "('a \<Rightarrow> uuid) \<Rightarrow> (bank_line \<times> 'a list) list \<Rightarrow> 'a list \<Rightarrow> bank_exn + 'a option" where
  "unrivalled ident table candidates =
     (case candidates of
        [x] \<Rightarrow> let d = degree ident table x in if d = 0 then Inl KeyError else Inr (if d = 1 then Some x else None)
      | _ \<Rightarrow> Inr None)"

fun r2_deposits :: "uuid \<Rightarrow> signature list \<Rightarrow> (bank_line \<times> payment list) list \<Rightarrow> (bank_line \<times> payment list) list \<Rightarrow> (uuid list \<times> bank_line list) bank" where
  "r2_deposits account sigs rivals [] = ok ([], [])"
| "r2_deposits account sigs rivals ((l, candidates) # rest) =
     andthen (lift (unrivalled p_id rivals candidates)) (\<lambda>pick.
     andthen (case pick of
                None \<Rightarrow> ok None
              | Some p \<Rightarrow>
                  andthen (new_match (Some sigs) (line_match account ''R2'' l [(Payments, p_id p)] None 95 None)) (\<lambda>created.
                  ok (if created = None then None else Some (p_id p)))) (\<lambda>taken.
     andthen (r2_deposits account sigs rivals rest) (\<lambda>(used, still_open).
     ok (case taken of None \<Rightarrow> (used, l # still_open) | Some u \<Rightarrow> (u # used, still_open)))))"

subsection \<open>R3\<close>

text \<open>\<^verbatim>\<open>itertools.combinations\<close>, in its order.\<close>

fun combinations :: "nat \<Rightarrow> 'a list \<Rightarrow> 'a list list" where
  "combinations 0 xs = [[]]"
| "combinations (Suc k) [] = []"
| "combinations (Suc k) (x # xs) = map ((#) x) (combinations k xs) @ combinations (Suc k) xs"

definition sweep_subsets :: "'a list \<Rightarrow> 'a list list" where
  "sweep_subsets xs = concat (map (\<lambda>k. combinations k xs) [2..<Suc (min R3_MAX_SUBSET (length xs))])"

text \<open>The search stops at the second hit.\<close>

fun search_sweep :: "int \<Rightarrow> nat \<Rightarrow> payment list list \<Rightarrow> exn + payment list list" where
  "search_sweep target n [] = Inr []"
| "search_sweep target n (combo # rest) =
     bindR (mapR (\<lambda>p. amount_cents (p_amount p)) combo) (\<lambda>cs.
     if sum_list cs \<noteq> target then search_sweep target n rest
     else if n = 0 then Inr [combo]
     else bindR (search_sweep target (n - 1) rest) (\<lambda>hits. Inr (combo # hits)))"

definition sweep_candidates :: "payment list \<Rightarrow> uuid list \<Rightarrow> bank_line \<Rightarrow> payment list" where
  "sweep_candidates pool swept l =
     filter (\<lambda>p. p_id p \<notin> set swept \<and>
       in_range (add_days (bl_date l) (- R3_WINDOW_BACK_DAYS)) (add_days (bl_date l) R3_WINDOW_FWD_DAYS) (the (p_date p))) pool"

definition find_sweep :: "payment list \<Rightarrow> bank_line \<Rightarrow> exn + payment list option" where
  "find_sweep candidates l =
     (if candidates = [] \<or> R3_MAX_CANDIDATES < length candidates then Inr None
      else bindR (search_sweep (bl_amount l) 1 (sweep_subsets candidates)) (\<lambda>hits.
        Inr (case hits of [combo] \<Rightarrow> Some combo | _ \<Rightarrow> None)))"

definition sweep_match :: "uuid \<Rightarrow> bank_line \<Rightarrow> payment list \<Rightarrow> match_input" where
  "sweep_match account l combo =
     line_match account ''R3'' l (map (\<lambda>p. (Payments, p_id p)) combo) None 90
       (Some (''deposit sweep of '' @ nat_str (length combo) @ '' payments''))"

fun r3_sweeps :: "uuid \<Rightarrow> signature list \<Rightarrow> payment list \<Rightarrow> uuid list \<Rightarrow> bank_line list \<Rightarrow> uuid list bank" where
  "r3_sweeps account sigs pool swept [] = ok []"
| "r3_sweeps account sigs pool swept (l # ls) =
     andthen (computed (\<lambda>_. find_sweep (sweep_candidates pool swept l) l)) (\<lambda>found.
     case found of
       None \<Rightarrow> r3_sweeps account sigs pool swept ls
     | Some combo \<Rightarrow>
         andthen (new_match (Some sigs) (sweep_match account l combo)) (\<lambda>created.
         if created = None then r3_sweeps account sigs pool swept ls
         else andthen (r3_sweeps account sigs pool (map p_id combo @ swept) ls) (\<lambda>done_ids. ok (bl_id l # done_ids))))"

subsection \<open>R2 for debits\<close>

definition window_expenses :: "bank_db \<Rightarrow> date \<Rightarrow> date \<Rightarrow> expense list" where
  "window_expenses db lo hi =
     filter (\<lambda>x. x_deleted_at x = None \<and> (case x_date x of None \<Rightarrow> False | Some d \<Rightarrow> in_range lo hi d) \<and>
                (Expenses, x_id x) \<notin> set (used_externals db)) (db_expenses (bd_gl db))"

definition open_bills :: "bank_db \<Rightarrow> vendor_bill list" where
  "open_bills db =
     filter (\<lambda>v. vb_status v = STATUS_OPEN \<and> (VendorInvoices, vb_id v) \<notin> set (used_externals db) \<and> vb_date v \<noteq> None) (bd_bills db)"

definition expense_hits :: "expense list \<Rightarrow> bank_line \<Rightarrow> exn + expense list" where
  "expense_hits xs l = filterR (\<lambda>x. near (x_amount x) (the (x_date x)) (- bl_amount l) l) xs"

definition vendor_hits :: "vendor_bill list \<Rightarrow> bank_line \<Rightarrow> exn + vendor_bill list" where
  "vendor_hits vs l =
     filterR (\<lambda>v. bindR (amount_cents (vb_total v)) (\<lambda>c.
       Inr (c = - bl_amount l \<and> \<bar>days_between (the (vb_date v)) (bl_date l)\<bar> \<le> VENDOR_INVOICE_WINDOW_DAYS)))
       (filter (\<lambda>v. vb_total v \<noteq> None) vs)"

definition try_match :: "signature list \<Rightarrow> match_input option \<Rightarrow> bool bank" where
  "try_match sigs i =
     (case i of None \<Rightarrow> ok False
      | Some mi \<Rightarrow> andthen (new_match (Some sigs) mi) (\<lambda>created. ok (created \<noteq> None)))"

definition expense_match :: "uuid \<Rightarrow> bank_line \<Rightarrow> expense \<Rightarrow> match_input" where
  "expense_match account l x = line_match account ''R2'' l [(Expenses, x_id x)] None 90 None"

definition bill_match :: "uuid \<Rightarrow> bank_line \<Rightarrow> vendor_bill \<Rightarrow> match_input" where
  "bill_match account l v =
     line_match account ''R2'' l [(VendorInvoices, vb_id v)] None 60
       (Some (''matched on vendor invoice total '' @ EM_DASH @ '' verify it was paid from this account''))"

text \<open>Counts of lines matched with an expense, with a bill, and with nothing.\<close>

fun r2_debits :: "uuid \<Rightarrow> signature list \<Rightarrow> (bank_line \<times> expense list) list \<Rightarrow> (bank_line \<times> vendor_bill list) list \<Rightarrow>
    (bank_line \<times> expense list \<times> vendor_bill list) list \<Rightarrow> (nat \<times> nat \<times> nat) bank" where
  "r2_debits account sigs xtable vtable [] = ok (0, 0, 0)"
| "r2_debits account sigs xtable vtable ((l, xs, vs) # rest) =
     andthen (lift (unrivalled x_id xtable xs)) (\<lambda>x.
     andthen (try_match sigs (map_option (expense_match account l) x)) (\<lambda>spent.
     andthen (if spent then ok False
              else andthen (lift (unrivalled vb_id vtable vs)) (\<lambda>v. try_match sigs (map_option (bill_match account l) v))) (\<lambda>billed.
     andthen (r2_debits account sigs xtable vtable rest) (\<lambda>(a, b, c).
     ok (if spent then (Suc a, b, c) else if billed then (a, Suc b, c) else (a, b, Suc c))))))"

section \<open>A run\<close>

record match_stats =
  ms_classified :: nat
  ms_r2_payments :: nat
  ms_r3_sweeps :: nat
  ms_r2_expenses :: nat
  ms_r2_vendor_invoices :: nat
  ms_unmatched :: nat

definition suggest_deposits :: "uuid \<Rightarrow> signature list \<Rightarrow> payment list \<Rightarrow> bank_line list \<Rightarrow> bank_line list \<Rightarrow> (nat \<times> nat \<times> nat) bank" where
  "suggest_deposits account sigs payments competitors deposits =
     andthen (computed (\<lambda>_. pairs_of (r2_candidates payments) deposits)) (\<lambda>table.
     andthen (computed (\<lambda>_. pairs_of (\<lambda>l. filterR (payment_hit l) payments) competitors)) (\<lambda>rivals.
     andthen (r2_deposits account sigs rivals table) (\<lambda>(used, still_open).
     let pool = filter (\<lambda>p. p_id p \<notin> set used \<and> payment_method p \<notin> set R3_EXCLUDED_METHODS) payments in
     andthen (r3_sweeps account sigs pool [] still_open) (\<lambda>swept.
     ok (length used, length swept, length (filter (\<lambda>l. bl_id l \<notin> set swept) still_open))))))"

definition suggest_debits :: "uuid \<Rightarrow> signature list \<Rightarrow> expense list \<Rightarrow> vendor_bill list \<Rightarrow> bank_line list \<Rightarrow> (nat \<times> nat \<times> nat) bank" where
  "suggest_debits account sigs expenses bills debits =
     andthen (computed (\<lambda>_. pairs_of (expense_hits expenses) debits)) (\<lambda>xtable.
     andthen (computed (\<lambda>_. pairs_of (vendor_hits bills) debits)) (\<lambda>vtable.
     r2_debits account sigs xtable vtable (map2 (\<lambda>(l, xs) (_, vs). (l, xs, vs)) xtable vtable)))"

definition suggest_ladder :: "uuid \<Rightarrow> date \<Rightarrow> date \<Rightarrow> match_stats bank" where
  "suggest_ladder account lo hi = (\<lambda>db.
     let sigs = rejected_signatures db account;
         ls = open_lines db account lo hi;
         rest = filter (\<lambda>l. classification_of l = None) ls;
         wlo = add_days lo (- R3_WINDOW_BACK_DAYS);
         whi = add_days hi R3_WINDOW_BACK_DAYS
     in andthen (classify account sigs ls) (\<lambda>classified.
        andthen (suggest_deposits account sigs (window_payments db wlo whi) (competitor_deposits db wlo whi)
          (filter (\<lambda>l. bl_section l = SECTION_DEPOSIT) rest)) (\<lambda>(r2, r3, dep).
        andthen (suggest_debits account sigs (window_expenses db wlo whi) (open_bills db)
          (filter (\<lambda>l. bl_section l = SECTION_DEBIT \<or> bl_section l = SECTION_CHECK) rest)) (\<lambda>(spent, billed, deb).
        ok \<lparr>ms_classified = classified, ms_r2_payments = r2, ms_r3_sweeps = r3, ms_r2_expenses = spent,
            ms_r2_vendor_invoices = billed, ms_unmatched = deb + dep\<rparr>))) db)"

text \<open>A bill payment that still names a match keeps its row from being deleted.\<close>

definition pinned :: "bank_db \<Rightarrow> uuid list \<Rightarrow> bool" where
  "pinned db ms \<longleftrightarrow> list_ex (\<lambda>p. case bp_match p of None \<Rightarrow> False | Some m \<Rightarrow> m \<in> set ms) (bd_bill_payments db)"

text \<open>The commit checks the indexes; a violation rolls the whole run back.\<close>

definition suggest_matches :: "uuid \<Rightarrow> date \<Rightarrow> date \<Rightarrow> match_stats bank" where
  "suggest_matches account lo hi = (\<lambda>db.
     let stale = stale_suggestions db account lo hi in
     if pinned db stale then (Inl (LedgerRaised IntegrityError), db)
     else case suggest_ladder account lo hi (drop_matches stale db) of
       (Inl e, t) \<Rightarrow> (Inl e, t)
     | (Inr stats, t) \<Rightarrow> if exclusive t then (Inr stats, t) else (Inl (MatchError ''concurrent_run''), db))"

end
