(* ===== verification/Bill_Books.thy ===== *)
theory Bill_Books
  imports Vendor_Payments
begin

text \<open>
  What the payment operations keep of the bills: nothing is paid beyond the total, the status of a bill that is not void says
  whether its live payments cover it, and the expenses follow the settlement.
\<close>

section \<open>Running effects\<close>

lemma run_simps:
  "andthen (ok x) g s = g x s" "andthen (throw e) g s = (Inl e, s)" "andthen (asks f) g s = g (f s) s" "andthen (change h) gu s = gu () (h s)"
  "andthen (reads r) g s = (case r s of Inl e \<Rightarrow> (Inl e, s) | Inr x \<Rightarrow> g x s)"
  "andthen (lift v) g s = (case v of Inl e \<Rightarrow> (Inl e, s) | Inr x \<Rightarrow> g x s)"
  "andthen (computed k) g s = (case k s of Inl e \<Rightarrow> (Inl (LedgerRaised e), s) | Inr x \<Rightarrow> g x s)"
  "andthen (andthen m1 m2) g s = andthen m1 (\<lambda>x. andthen (m2 x) g) s"
  by (simp_all add: ok_def throw_def asks_def change_def reads_def lift_def computed_def andthen_def split: sum.split prod.split)

lemma run_ends: "ok x s = (Inr x, s)" "throw e s = (Inl e, s)" "change h s = (Inr (), h s)"
  by (simp_all add: ok_def throw_def change_def)

section \<open>Whole cents\<close>

fun cents_val :: "decimal \<Rightarrow> int" where
  "cents_val (Fin c e) = c * 10 ^ nat (e + 2)"
| "cents_val _ = 0"

fun whole_cents :: "decimal \<Rightarrow> bool" where
  "whole_cents (Fin c e) \<longleftrightarrow> -2 \<le> e \<and> e \<le> 0"
| "whole_cents _ \<longleftrightarrow> False"

lemma scaled: "-2 \<le> m \<Longrightarrow> m \<le> e \<Longrightarrow> (a * 10 ^ nat (e - m)) * 10 ^ nat (m + 2) = (a * 10 ^ nat (e + 2) :: int)" for a e m :: int
proof -
  assume "-2 \<le> m" "m \<le> e"
  then have "nat (e + 2) = nat (e - m) + nat (m + 2)" by simp
  then show ?thesis by (simp add: power_add mult.assoc)
qed

lemma whole_dec_plus:
  assumes "whole_cents a" "whole_cents b" "\<bar>cents_val a + cents_val b\<bar> < 10 ^ 20"
  shows "\<exists>d. dec_plus a b = Inr d \<and> whole_cents d \<and> cents_val d = cents_val a + cents_val b"
proof -
  obtain x e where a: "a = Fin x e" "-2 \<le> e" "e \<le> 0" using assms(1) by (cases a) auto
  obtain y f where b: "b = Fin y f" "-2 \<le> f" "f \<le> 0" using assms(2) by (cases b) auto
  define m where "m = min e f"
  define v where "v = x * 10 ^ nat (e - m) + y * 10 ^ nat (f - m)"
  have m: "-2 \<le> m" "m \<le> e" "m \<le> f" "m \<le> 0" using a b by (auto simp: m_def)
  have v: "v * 10 ^ nat (m + 2) = cents_val a + cents_val b"
    by (simp add: v_def a(1) b(1) distrib_right scaled m)
  have "\<bar>v\<bar> * 1 \<le> \<bar>v\<bar> * 10 ^ nat (m + 2)" by (rule mult_left_mono) simp_all
  then have "\<bar>v\<bar> \<le> \<bar>v * 10 ^ nat (m + 2)\<bar>" by (simp add: abs_mult)
  then have "\<bar>v\<bar> < 10 ^ 28" using assms(3) unfolding v by simp
  then have "dec_plus a b = Inr (Fin v m)" by (simp add: a(1) b(1) m_def[symmetric] v_def[symmetric] Let_def)
  then show ?thesis using m v by simp
qed

lemma whole_dec_neg: "whole_cents a \<Longrightarrow> whole_cents (dec_neg a) \<and> cents_val (dec_neg a) = - cents_val a"
  by (cases a) auto

lemma whole_dec_minus:
  assumes "whole_cents a" "whole_cents b" "\<bar>cents_val a - cents_val b\<bar> < 10 ^ 20"
  shows "\<exists>d. dec_minus a b = Inr d \<and> whole_cents d \<and> cents_val d = cents_val a - cents_val b"
  using whole_dec_plus[of a "dec_neg b"] whole_dec_neg[OF assms(2)] assms by (simp add: dec_minus_def)

lemma whole_dec_le:
  assumes "whole_cents a" "whole_cents b"
  shows "dec_le a b = Inr (cents_val a \<le> cents_val b)"
proof -
  obtain x e where a: "a = Fin x e" "-2 \<le> e" "e \<le> 0" using assms(1) by (cases a) auto
  obtain y f where b: "b = Fin y f" "-2 \<le> f" "f \<le> 0" using assms(2) by (cases b) auto
  define m where "m = min e f"
  have m: "-2 \<le> m" "m \<le> e" "m \<le> f" using a b by (auto simp: m_def)
  have "x * 10 ^ nat (e - m) \<le> y * 10 ^ nat (f - m) \<longleftrightarrow>
      (x * 10 ^ nat (e - m)) * 10 ^ nat (m + 2) \<le> (y * 10 ^ nat (f - m)) * 10 ^ nat (m + 2)" by simp
  then show ?thesis by (simp add: a(1) b(1) m_def[symmetric] Let_def scaled[OF m(1,2)] scaled[OF m(1,3)])
qed

lemma whole_dec_sum:
  assumes "whole_cents acc" "\<forall>x \<in> set xs. whole_cents x \<and> 0 < cents_val x" "0 \<le> cents_val acc"
    "cents_val acc + sum_list (map cents_val xs) < 10 ^ 20"
  shows "\<exists>d. dec_sum_from acc xs = Inr d \<and> whole_cents d \<and> cents_val d = cents_val acc + sum_list (map cents_val xs)"
  using assms
proof (induction xs arbitrary: acc)
  case (Cons x xs)
  have "0 \<le> sum_list (map cents_val xs)" using Cons.prems(2) by (intro sum_list_nonneg) fastforce
  then have "\<bar>cents_val acc + cents_val x\<bar> < 10 ^ 20" using Cons.prems by simp
  then obtain d where d: "dec_plus acc x = Inr d" "whole_cents d" "cents_val d = cents_val acc + cents_val x"
    using whole_dec_plus[of acc x] Cons.prems by auto
  show ?case using Cons.IH[of d] Cons.prems d by (auto simp: algebra_simps)
qed simp

lemma whole_zero [simp]: "whole_cents (Fin 0 e) \<longleftrightarrow> -2 \<le> e \<and> e \<le> 0" "cents_val (Fin 0 e) = 0"
  by simp_all

section \<open>The invariant of the bills\<close>

definition bill_cents :: "vendor_bill \<Rightarrow> int" where
  "bill_cents b = cents_val (bill_total b)"

definition paid_cents :: "bank_db \<Rightarrow> uuid \<Rightarrow> int" where
  "paid_cents db u = sum_list (map (\<lambda>p. cents_val (bp_amount p)) (live_bill_payments db u))"

definition settles :: "bank_db \<Rightarrow> vendor_bill \<Rightarrow> bool" where
  "settles db b \<longleftrightarrow> 0 < bill_cents b \<and> bill_cents b \<le> paid_cents db (vb_id b)"

definition bill_ok :: "bank_db \<Rightarrow> vendor_bill \<Rightarrow> bool" where
  "bill_ok db b \<longleftrightarrow> whole_cents (bill_total b) \<and> \<bar>bill_cents b\<bar> < 10 ^ 12 \<and> paid_cents db (vb_id b) \<le> max 0 (bill_cents b) \<and>
     (vb_status b \<noteq> STATUS_VOID \<longrightarrow> vb_status b = (if settles db b then STATUS_PAID else STATUS_OPEN))"

definition payments_ok :: "bank_db \<Rightarrow> bool" where
  "payments_ok db \<longleftrightarrow> distinct (map bp_id (bd_bill_payments db)) \<and>
     (\<forall>p \<in> set (bd_bill_payments db). bp_id p < bd_uuid db \<and> whole_cents (bp_amount p) \<and> 0 < cents_val (bp_amount p))"

definition bills_ok :: "bank_db \<Rightarrow> bool" where
  "bills_ok db \<longleftrightarrow> distinct (map vb_id (bd_bills db)) \<and> payments_ok db \<and> (\<forall>b \<in> set (bd_bills db). bill_ok db b)"

lemma set_live_bill_payments: "set (live_bill_payments db u) = {p \<in> set (bd_bill_payments db). bp_bill p = u \<and> bp_voided_at p = None}"
  by (auto simp: live_bill_payments_def)

lemma paid_cents_filter:
  "paid_cents db u = sum_list (map (\<lambda>p. cents_val (bp_amount p)) (filter (\<lambda>p. bp_bill p = u \<and> bp_voided_at p = None) (bd_bill_payments db)))"
proof -
  have "mset (map (\<lambda>p. cents_val (bp_amount p)) (live_bill_payments db u)) =
      mset (map (\<lambda>p. cents_val (bp_amount p)) (filter (\<lambda>p. bp_bill p = u \<and> bp_voided_at p = None) (bd_bill_payments db)))"
    by (simp add: live_bill_payments_def)
  then show ?thesis unfolding paid_cents_def by (metis sum_mset_sum_list)
qed

lemma paid_cents_nonneg: "payments_ok db \<Longrightarrow> 0 \<le> paid_cents db u"
  unfolding paid_cents_filter payments_ok_def by (intro sum_list_nonneg) fastforce

lemma first_filter_member: "first (filter P xs) = Some x \<Longrightarrow> x \<in> set xs \<and> P x"
  by (cases "filter P xs") (auto simp: filter_eq_Cons_iff)

lemma get_billD: "get_bill db u = Some b \<Longrightarrow> b \<in> set (bd_bills db) \<and> vb_id b = u"
  unfolding get_bill_def by (drule first_filter_member) simp

lemma paid_total_whole:
  assumes "payments_ok db" "paid_cents db u < 10 ^ 20"
  shows "\<exists>d. paid_total db u = Inr d \<and> whole_cents d \<and> cents_val d = paid_cents db u"
proof -
  have pos: "\<forall>x \<in> set (map bp_amount (live_bill_payments db u)). whole_cents x \<and> 0 < cents_val x"
    using assms(1) by (auto simp: payments_ok_def set_live_bill_payments)
  have sum: "sum_list (map cents_val (map bp_amount (live_bill_payments db u))) = paid_cents db u" by (simp add: paid_cents_def comp_def)
  have "cents_val (Fin 0 (-2)) + sum_list (map cents_val (map bp_amount (live_bill_payments db u))) < 10 ^ 20" using sum assms(2) by simp
  from whole_dec_sum[OF _ pos _ this] sum show ?thesis by (simp add: paid_total_def)
qed

text \<open>On a bill in order the decimal computations are the computations in cents.\<close>

lemma bill_ok_numbers:
  assumes "payments_ok db" "whole_cents (bill_total b)" "\<bar>bill_cents b\<bar> < 10 ^ 12" "paid_cents db (vb_id b) < 10 ^ 19"
  shows "\<exists>d. open_balance db b = Inr d \<and> whole_cents d \<and> cents_val d = bill_cents b - paid_cents db (vb_id b)"
    and "covered db b = Inr (settles db b)"
proof -
  obtain p where p: "paid_total db (vb_id b) = Inr p" "whole_cents p" "cents_val p = paid_cents db (vb_id b)"
    using paid_total_whole[OF assms(1), of "vb_id b"] assms(4) by auto
  have nn: "0 \<le> paid_cents db (vb_id b)" by (rule paid_cents_nonneg[OF assms(1)])
  have "\<bar>cents_val (bill_total b) - cents_val p\<bar> < 10 ^ 20" using assms(3,4) nn p(3) by (simp add: bill_cents_def)
  from whole_dec_minus[OF assms(2) p(2) this]
  show "\<exists>d. open_balance db b = Inr d \<and> whole_cents d \<and> cents_val d = bill_cents b - paid_cents db (vb_id b)"
    using p by (simp add: open_balance_def bill_cents_def)
  have "dec_le (bill_total b) (Fin 0 0) = Inr (bill_cents b \<le> 0)" using whole_dec_le[OF assms(2), of "Fin 0 0"] by (simp add: bill_cents_def)
  moreover have "dec_le (bill_total b) p = Inr (bill_cents b \<le> paid_cents db (vb_id b))"
    using whole_dec_le[OF assms(2) p(2)] p(3) by (simp add: bill_cents_def)
  ultimately show "covered db b = Inr (settles db b)" by (auto simp: covered_def p(1) settles_def)
qed

lemma bill_ok_small: "payments_ok db \<Longrightarrow> bill_ok db b \<Longrightarrow> paid_cents db (vb_id b) < 10 ^ 19"
  by (auto simp: bill_ok_def)

section \<open>Frames\<close>

text \<open>A relation between ledgers, carried through the operations on the bank state that call the ledger.\<close>

locale ledger_tracked = tracked R for R :: "gl_db \<Rightarrow> gl_db \<Rightarrow> bool"

sublocale ledger_tracked \<subseteq> bank: tracked "\<lambda>s t. R (bd_gl s) (bd_gl t)"
  by unfold_locales (auto intro: R_refl R_trans)

context ledger_tracked
begin

lemma tracks_ledger: "tracks R m \<Longrightarrow> tracks (\<lambda>s t. R (bd_gl s) (bd_gl t)) (ledger m)"
  by (auto simp: tracks_def ledger_def split: prod.split) (metis snd_conv)

lemma tracks_aside: "(\<And>db. bd_gl (f db) = bd_gl db) \<Longrightarrow> tracks (\<lambda>s t. R (bd_gl s) (bd_gl t)) (change f)"
  by (simp add: tracks_def change_def R_refl)

end

interpretation sound_books: ledger_tracked sound_step
  by (simp add: ledger_tracked_def journal.tracked_axioms)

text \<open>Only the ledger and the timestamps of expenses change.\<close>

definition books_only :: "bank_db \<Rightarrow> bank_db \<Rightarrow> bool" where
  "books_only s t \<longleftrightarrow> t = s\<lparr>bd_gl := bd_gl t, bd_expense_meta := bd_expense_meta t\<rparr>"

interpretation books: tracked books_only
proof
  show "books_only s s" for s by (simp add: books_only_def)
  fix s t u assume st: "books_only s t" and tu: "books_only t u"
  have "u = (s\<lparr>bd_gl := bd_gl t, bd_expense_meta := bd_expense_meta t\<rparr>)\<lparr>bd_gl := bd_gl u, bd_expense_meta := bd_expense_meta u\<rparr>"
    using st tu unfolding books_only_def by simp
  then show "books_only s u" unfolding books_only_def by simp
qed

lemma books_only_ledger [tracking]: "tracks books_only (ledger m)"
  by (simp add: tracks_def ledger_def books_only_def split: prod.split)

lemma books_only_edit [tracking]: "tracks books_only (change (edit_expense env u f))"
  by (simp add: tracks_def change_def edit_expense_def books_only_def)

lemma books_only_computed [tracking]: "tracks books_only (computed f)"
  unfolding computed_def by (rule books.tracks_reads)

lemma redate_expense_books [tracking]: "tracks books_only (redate_expense env target cache x)"
  unfolding redate_expense_def repost_redated_def reverse_lock_tolerant_def finish_reversal_def by (intro books.tracks_rules tracking)

lemma redate_expenses_books [tracking]: "tracks books_only (redate_expenses env target cache us)"
  by (induction us arbitrary: cache) (simp, intro books.tracks_rules tracking, simp, intro books.tracks_rules tracking, assumption+)

lemma sync_expense_dates_books [tracking]: "tracks books_only (sync_expense_dates env b)"
  unfolding sync_expense_dates_def by (intro books.tracks_rules tracking)

lemma books_only_fields:
  assumes "books_only s t"
  shows "bd_bills t = bd_bills s" "bd_bill_payments t = bd_bill_payments s" "bd_uuid t = bd_uuid s" "bd_matches t = bd_matches s"
    "bd_match_lines t = bd_match_lines s" "bd_match_externals t = bd_match_externals s" "bd_lines t = bd_lines s" "bd_bill_lines t = bd_bill_lines s"
    "bd_sources t = bd_sources s" "bd_imports t = bd_imports s" "bd_accounts t = bd_accounts s"
proof -
  obtain g m where "t = s\<lparr>bd_gl := g, bd_expense_meta := m\<rparr>" using assms unfolding books_only_def by blast
  then show "bd_bills t = bd_bills s" "bd_bill_payments t = bd_bill_payments s" "bd_uuid t = bd_uuid s" "bd_matches t = bd_matches s"
    "bd_match_lines t = bd_match_lines s" "bd_match_externals t = bd_match_externals s" "bd_lines t = bd_lines s" "bd_bill_lines t = bd_bill_lines s"
    "bd_sources t = bd_sources s" "bd_imports t = bd_imports s" "bd_accounts t = bd_accounts s" by simp_all
qed

lemma bills_ok_frame:
  assumes "bd_bills t = bd_bills s" "bd_bill_payments t = bd_bill_payments s" "bd_uuid s \<le> bd_uuid t"
  shows "bills_ok s \<Longrightarrow> bills_ok t" and "live_bill_payments t u = live_bill_payments s u" and "paid_cents t u = paid_cents s u"
proof -
  show lp: "live_bill_payments t u = live_bill_payments s u" for u by (simp add: live_bill_payments_def assms)
  then show pc: "paid_cents t u = paid_cents s u" for u by (simp add: paid_cents_def)
  assume "bills_ok s"
  moreover have "settles t b = settles s b" for b by (simp add: settles_def pc)
  then have "bill_ok t b = bill_ok s b" for b by (simp add: bill_ok_def pc)
  ultimately show "bills_ok t" using assms by (fastforce simp: bills_ok_def payments_ok_def)
qed

section \<open>Recording\<close>

lemma settles_same: "bd_bill_payments t = bd_bill_payments s \<Longrightarrow> settles t b = settles s b"
  by (simp add: settles_def paid_cents_def live_bill_payments_def)

definition add_payment :: "gl_env \<Rightarrow> uuid \<Rightarrow> payment_input \<Rightarrow> bank_db \<Rightarrow> bank_db" where
  "add_payment env u i db =
     db\<lparr>bd_uuid := Suc (bd_uuid db), bd_bill_payments := bd_bill_payments db @ [mk_payment env (bd_uuid db) u i]\<rparr>"

lemma add_payment_paid:
  "paid_cents (add_payment env u i db) v = paid_cents db v + (if v = u then cents_val (pi_amount i) else 0)"
  by (simp add: paid_cents_filter add_payment_def mk_payment_def)

lemma payments_ok_add:
  assumes "payments_ok db" "whole_cents (pi_amount i)" "0 < cents_val (pi_amount i)"
  shows "payments_ok (add_payment env u i db)"
  using assms unfolding payments_ok_def add_payment_def mk_payment_def by (auto simp: less_Suc_eq)

text \<open>Setting the derived status of one bill puts the books back in order.\<close>

lemma bills_ok_restatus:
  assumes dist: "distinct (map vb_id (bd_bills db))" and pay: "payments_ok db" and b: "b \<in> set (bd_bills db)"
    and rest: "\<forall>c \<in> set (bd_bills db). c \<noteq> b \<longrightarrow> bill_ok db c"
    and this_bill: "whole_cents (bill_total b)" "\<bar>bill_cents b\<bar> < 10 ^ 12" "paid_cents db (vb_id b) \<le> max 0 (bill_cents b)"
  shows "bills_ok (set_bill_status (vb_id b) (if settles db b then STATUS_PAID else STATUS_OPEN) db)"
proof -
  define st where "st = (if settles db b then STATUS_PAID else STATUS_OPEN)"
  define t where "t = set_bill_status (vb_id b) st db"
  have bills: "bd_bills t = map (\<lambda>c. if vb_id c = vb_id b then c\<lparr>vb_status := st\<rparr> else c) (bd_bills db)"
    and rows: "bd_bill_payments t = bd_bill_payments db" "bd_uuid t = bd_uuid db" by (simp_all add: t_def set_bill_status_def)
  have ids: "map vb_id (bd_bills t) = map vb_id (bd_bills db)" unfolding bills by simp
  have same: "settles t c = settles db c" "paid_cents t u = paid_cents db u" for c u
    using rows by (simp_all add: settles_def paid_cents_def live_bill_payments_def)
  have up: "bill_total (b\<lparr>vb_status := st\<rparr>) = bill_total b" "bill_cents (b\<lparr>vb_status := st\<rparr>) = bill_cents b"
    "settles db (b\<lparr>vb_status := st\<rparr>) = settles db b"
    by (simp_all add: bill_total_def bill_cents_def settles_def cong: option.case_cong decimal.case_cong)
  have "bill_ok t c" if "c \<in> set (bd_bills t)" for c
  proof -
    obtain c0 where c0: "c0 \<in> set (bd_bills db)" "c = (if vb_id c0 = vb_id b then c0\<lparr>vb_status := st\<rparr> else c0)"
      using \<open>c \<in> set (bd_bills t)\<close> unfolding bills by auto
    show ?thesis
    proof (cases "vb_id c0 = vb_id b")
      case True
      then have "c0 = b" using dist b c0(1) by (metis distinct_map inj_onD)
      then have "c = b\<lparr>vb_status := st\<rparr>" using c0(2) by simp
      then show ?thesis using this_bill unfolding bill_ok_def by (simp add: same up) (simp add: st_def)
    next
      case False
      then show ?thesis using c0 rest by (auto simp: bill_ok_def same)
    qed
  qed
  moreover have "payments_ok t" using pay by (simp add: payments_ok_def rows)
  ultimately show ?thesis using dist ids unfolding t_def[symmetric] st_def[symmetric] bills_ok_def by simp
qed

lemma bill_ok_other:
  assumes "bill_ok db c" "paid_cents t (vb_id c) = paid_cents db (vb_id c)"
  shows "bill_ok t c"
  using assms by (simp add: bill_ok_def settles_def)

lemma recompute_status_run:
  assumes "payments_ok db" "whole_cents (bill_total b)" "\<bar>bill_cents b\<bar> < 10 ^ 12" "paid_cents db (vb_id b) < 10 ^ 19" "vb_status b \<noteq> STATUS_VOID"
  shows "recompute_status b db =
    (Inr (if settles db b then STATUS_PAID else STATUS_OPEN), set_bill_status (vb_id b) (if settles db b then STATUS_PAID else STATUS_OPEN) db)"
  using bill_ok_numbers(2)[OF assms(1-4)] assms(5)
  by (simp add: recompute_status_def computed_def andthen_def reads_def change_def ok_def Let_def)

text \<open>Why a payment is refused, in the order of the checks.\<close>

definition payment_refusal_code :: "bank_db \<Rightarrow> vendor_bill \<Rightarrow> payment_input \<Rightarrow> string option" where
  "payment_refusal_code db b i =
     (if vb_status b = STATUS_VOID then Some ''bill_void''
      else if cents_val (pi_amount i) \<le> 0 then Some ''amount_not_positive''
      else if bill_cents b - paid_cents db (vb_id b) < cents_val (pi_amount i) then Some ''over_open_balance'' else None)"

lemma record_payment_run:
  assumes inv: "bills_ok db" and amt: "whole_cents (pi_amount i)" and src: "pi_source i \<in> set VALID_PAYMENT_SOURCES" and b: "get_bill db u = Some b"
  shows "record_payment env u i db =
    (case payment_refusal_code db b i of
       Some c \<Rightarrow> (Inl (PaymentError c), db)
     | None \<Rightarrow>
         if match_paid db (pi_match i) then (Inl (LedgerRaised IntegrityError), db)
         else let db1 = add_payment env u i db;
                  db2 = set_bill_status u (if settles db1 b then STATUS_PAID else STATUS_OPEN) db1
              in case sync_expense_dates env b db2 of (Inl e, t) \<Rightarrow> (Inl e, t)
                 | (Inr _, t) \<Rightarrow> (Inr (mk_payment env (bd_uuid db) u i), t))"
proof -
  have mem: "b \<in> set (bd_bills db)" "vb_id b = u" using get_billD[OF b] by simp_all
  have pay: "payments_ok db" and bo: "bill_ok db b" using inv mem by (simp_all add: bills_ok_def)
  have small: "paid_cents db (vb_id b) < 10 ^ 19" by (rule bill_ok_small[OF pay bo])
  have w: "whole_cents (bill_total b)" "\<bar>bill_cents b\<bar> < 10 ^ 12" using bo by (simp_all add: bill_ok_def)
  obtain bal where bal: "open_balance db b = Inr bal" "whole_cents bal" "cents_val bal = bill_cents b - paid_cents db (vb_id b)"
    using bill_ok_numbers(1)[OF pay w small] by blast
  have le: "dec_le (pi_amount i) (Fin 0 0) = Inr (cents_val (pi_amount i) \<le> 0)" "dec_le (pi_amount i) bal = Inr (cents_val (pi_amount i) \<le> cents_val bal)"
    using whole_dec_le[OF amt, of "Fin 0 0"] whole_dec_le[OF amt bal(2)] by simp_all
  have after: "recompute_status b (add_payment env u i db) =
      (Inr (if settles (add_payment env u i db) b then STATUS_PAID else STATUS_OPEN),
       set_bill_status u (if settles (add_payment env u i db) b then STATUS_PAID else STATUS_OPEN) (add_payment env u i db))"
    if "payment_refusal_code db b i = None"
  proof -
    have c: "vb_status b \<noteq> STATUS_VOID" "0 < cents_val (pi_amount i)" "cents_val (pi_amount i) \<le> bill_cents b - paid_cents db (vb_id b)"
      using \<open>payment_refusal_code db b i = None\<close> by (auto simp: payment_refusal_code_def split: if_splits)
    have "paid_cents (add_payment env u i db) (vb_id b) < 10 ^ 19" using c w(2) by (simp add: add_payment_paid mem)
    from recompute_status_run[OF payments_ok_add[OF pay amt c(2)] w this c(1)] mem(2) show ?thesis by simp
  qed
  show ?thesis
  proof (cases "payment_refusal_code db b i")
    case (Some c)
    then show ?thesis using src
      by (auto simp: record_payment_def refresh_bill_def computed_def reads_def andthen_def throw_def b bal(1) le bal(3) payment_refusal_code_def
          split: if_splits)
  next
    case None
    then have c: "vb_status b \<noteq> STATUS_VOID" "0 < cents_val (pi_amount i)" "cents_val (pi_amount i) \<le> bill_cents b - paid_cents db (vb_id b)"
      by (auto simp: payment_refusal_code_def split: if_splits)
    have ins: "insert_payment env u i db = (if match_paid db (pi_match i) then (Inl (LedgerRaised IntegrityError), db)
        else (Inr (mk_payment env (bd_uuid db) u i), add_payment env u i db))"
      by (simp add: insert_payment_def fresh_id_def asks_def andthen_def throw_def change_def ok_def Let_def add_payment_def)
    have head: "record_payment env u i db = andthen (insert_payment env u i) (\<lambda>p. andthen (recompute_status b) (\<lambda>_.
        andthen (sync_expense_dates env b) (\<lambda>_. ok p))) db"
      using src c by (simp add: record_payment_def refresh_bill_def run_simps b bal(1) le bal(3))
    show ?thesis unfolding head
      by (simp add: None ins andthen_def after[OF None] Let_def ok_def split: sum.split prod.split)
  qed
qed

lemma sync_keeps_bills:
  assumes "bills_ok db" "sync_expense_dates env b db = (r, db')"
  shows "bills_ok db'" "bd_bills db' = bd_bills db" "bd_bill_payments db' = bd_bill_payments db"
proof -
  note f = books_only_fields[OF tracksD[OF sync_expense_dates_books assms(2)]]
  show "bd_bills db' = bd_bills db" "bd_bill_payments db' = bd_bill_payments db" using f by simp_all
  show "bills_ok db'" using bills_ok_frame(1)[OF f(1,2)] f(3) assms(1) by simp
qed

lemma added_in_order:
  assumes inv: "bills_ok db" and amt: "whole_cents (pi_amount i)" and b: "get_bill db u = Some b" and c: "payment_refusal_code db b i = None"
  shows "bills_ok (set_bill_status u (if settles (add_payment env u i db) b then STATUS_PAID else STATUS_OPEN) (add_payment env u i db))"
proof -
  define db1 where "db1 = add_payment env u i db"
  have mem: "b \<in> set (bd_bills db)" "vb_id b = u" using get_billD[OF b] by simp_all
  have bills: "bd_bills db1 = bd_bills db" by (simp add: db1_def add_payment_def)
  have lim: "0 < cents_val (pi_amount i)" "cents_val (pi_amount i) \<le> bill_cents b - paid_cents db (vb_id b)"
    using c by (auto simp: payment_refusal_code_def split: if_splits)
  have paid: "paid_cents db1 v = paid_cents db v + (if v = u then cents_val (pi_amount i) else 0)" for v
    unfolding db1_def by (rule add_payment_paid)
  have dist: "distinct (map vb_id (bd_bills db))" using inv by (simp add: bills_ok_def)
  have "bill_ok db1 x" if x: "x \<in> set (bd_bills db1)" "x \<noteq> b" for x
  proof -
    have "vb_id x \<noteq> u" using x mem dist unfolding bills by (metis distinct_map inj_onD)
    then have "paid_cents db1 (vb_id x) = paid_cents db (vb_id x)" by (simp add: paid)
    moreover have "bill_ok db x" using inv x(1) by (simp add: bills bills_ok_def)
    ultimately show ?thesis using bill_ok_other by blast
  qed
  moreover have "payments_ok db1" using payments_ok_add[OF _ amt lim(1)] inv by (simp add: db1_def bills_ok_def)
  moreover have "whole_cents (bill_total b)" "\<bar>bill_cents b\<bar> < 10 ^ 12" using inv mem(1) by (auto simp: bills_ok_def bill_ok_def)
  moreover have "paid_cents db1 (vb_id b) \<le> max 0 (bill_cents b)" using lim(2) mem(2) by (simp add: paid)
  ultimately show ?thesis using bills_ok_restatus[of db1 b] mem dist unfolding db1_def[symmetric] by (simp add: bills)
qed

lemma record_payment_keeps:
  assumes inv: "bills_ok db" and amt: "whole_cents (pi_amount i)" and run: "record_payment env u i db = (r, db')"
  shows "bills_ok db'"
proof (cases "pi_source i \<in> set VALID_PAYMENT_SOURCES")
  case src: True
  show ?thesis
  proof (cases "get_bill db u")
    case None
    then have "db' = db" using run src by (simp add: record_payment_def refresh_bill_def run_simps)
    then show ?thesis using inv by simp
  next
    case (Some b)
    note R = run[unfolded record_payment_run[OF inv amt src Some]]
    show ?thesis
    proof (cases "payment_refusal_code db b i = None \<and> \<not> match_paid db (pi_match i)")
      case True
      let ?db2 = "set_bill_status u (if settles (add_payment env u i db) b then STATUS_PAID else STATUS_OPEN) (add_payment env u i db)"
      have ok: "bills_ok ?db2" using added_in_order[OF inv amt Some] True by blast
      obtain r2 where "sync_expense_dates env b ?db2 = (r2, db')"
        using R True by (auto simp: Let_def split: prod.splits sum.splits)
      then show ?thesis using sync_keeps_bills(1)[OF ok] by blast
    next
      case False
      then have "db' = db" using R by (auto split: option.splits)
      then show ?thesis using inv by simp
    qed
  qed
next
  case False
  then show ?thesis using run inv by (simp add: record_payment_def run_ends)
qed

section \<open>Voiding\<close>

lemma mark_voided_fields [simp]:
  "bd_bills (mark_voided env u who db) = bd_bills db" "bd_uuid (mark_voided env u who db) = bd_uuid db"
  "map bp_id (bd_bill_payments (mark_voided env u who db)) = map bp_id (bd_bill_payments db)"
  by (simp_all add: mark_voided_def comp_def if_distrib cong: if_cong)

lemma live_after_void: "live_bill_payments (mark_voided env u who db) v = filter (\<lambda>q. bp_id q \<noteq> u) (live_bill_payments db v)"
proof -
  have "filter (\<lambda>p. bp_bill p = v \<and> bp_voided_at p = None) (map (\<lambda>p. if bp_id p = u then p\<lparr>bp_voided_at := Some (now_utc env), bp_voided_by := who\<rparr> else p) ps)
    = filter (\<lambda>p. bp_id p \<noteq> u) (filter (\<lambda>p. bp_bill p = v \<and> bp_voided_at p = None) ps)" for ps :: "bill_payment list"
    by (induction ps) auto
  then show ?thesis by (simp add: live_bill_payments_def mark_voided_def filter_sort del: filter_filter)
qed

lemma payments_ok_void: "payments_ok db \<Longrightarrow> payments_ok (mark_voided env u who db)"
  unfolding payments_ok_def mark_voided_fields by (auto simp: mark_voided_def)

lemma sum_filter_le: "(\<And>x. x \<in> set xs \<Longrightarrow> 0 \<le> (f x :: int)) \<Longrightarrow> sum_list (map f (filter P xs)) \<le> sum_list (map f xs)"
  by (induction xs) (auto simp: add_increasing)

lemma paid_after_void:
  assumes "payments_ok db"
  shows "paid_cents (mark_voided env u who db) v \<le> paid_cents db v"
  unfolding paid_cents_def live_after_void
  using assms by (intro sum_filter_le) (fastforce simp: payments_ok_def set_live_bill_payments)

lemma void_other_bill:
  assumes "payments_ok db" "p \<in> set (bd_bill_payments db)" "v \<noteq> bp_bill p"
  shows "live_bill_payments (mark_voided env (bp_id p) who db) v = live_bill_payments db v"
proof -
  have "bp_id q \<noteq> bp_id p" if "q \<in> set (live_bill_payments db v)" for q
    using that assms unfolding set_live_bill_payments payments_ok_def by (auto simp: distinct_map dest: inj_onD)
  then show ?thesis unfolding live_after_void by (simp add: filter_id_conv)
qed

lemma voided_in_order:
  fixes env who
  assumes inv: "bills_ok db" and p: "p \<in> set (bd_bill_payments db)"
  defines "db1 \<equiv> mark_voided env (bp_id p) who db"
  shows "\<forall>c \<in> set (bd_bills db1). vb_id c \<noteq> bp_bill p \<longrightarrow> bill_ok db1 c" and "payments_ok db1"
    and "\<forall>c \<in> set (bd_bills db1). whole_cents (bill_total c) \<and> \<bar>bill_cents c\<bar> < 10 ^ 12 \<and> paid_cents db1 (vb_id c) \<le> max 0 (bill_cents c)"
proof -
  have pay: "payments_ok db" using inv by (simp add: bills_ok_def)
  then show "payments_ok db1" unfolding db1_def by (rule payments_ok_void)
  have "bill_ok db1 c" if c: "c \<in> set (bd_bills db)" "vb_id c \<noteq> bp_bill p" for c
  proof -
    have "paid_cents db1 (vb_id c) = paid_cents db (vb_id c)" using void_other_bill[OF pay p c(2)] by (simp add: paid_cents_def db1_def)
    moreover have "bill_ok db c" using inv c(1) by (simp add: bills_ok_def)
    ultimately show ?thesis using bill_ok_other by blast
  qed
  then show "\<forall>c \<in> set (bd_bills db1). vb_id c \<noteq> bp_bill p \<longrightarrow> bill_ok db1 c" by (simp add: db1_def)
  show "\<forall>c \<in> set (bd_bills db1). whole_cents (bill_total c) \<and> \<bar>bill_cents c\<bar> < 10 ^ 12 \<and> paid_cents db1 (vb_id c) \<le> max 0 (bill_cents c)"
  proof
    fix c assume "c \<in> set (bd_bills db1)"
    then have "bill_ok db c" using inv by (simp add: db1_def bills_ok_def)
    then show "whole_cents (bill_total c) \<and> \<bar>bill_cents c\<bar> < 10 ^ 12 \<and> paid_cents db1 (vb_id c) \<le> max 0 (bill_cents c)"
      using paid_after_void[OF pay, of env "bp_id p" who "vb_id c"] by (auto simp: bill_ok_def db1_def)
  qed
qed


lemma void_payment_run:
  fixes env who
  assumes inv: "bills_ok db" and p: "p \<in> set (bd_bill_payments db)" "bp_voided_at p = None" and b: "get_bill db (bp_bill p) = Some b"
    and via: "via \<or> \<not> match_confirmed db (bp_match p)"
  defines "db1 \<equiv> mark_voided env (bp_id p) who db"
  defines "db2 \<equiv> if vb_status b = STATUS_VOID then db1 else set_bill_status (bp_bill p) (if settles db1 b then STATUS_PAID else STATUS_OPEN) db1"
  shows "void_payment env who via p db = (case sync_expense_dates env b db2 of (Inl e, t) \<Rightarrow> (Inl e, t) | (Inr _, t) \<Rightarrow> (Inr (), t))"
    and "bills_ok db2"
proof -
  note V = voided_in_order[OF inv p(1), of env who, folded db1_def]
  have mem: "b \<in> set (bd_bills db1)" "vb_id b = bp_bill p" using get_billD[OF b] by (simp_all add: db1_def)
  have dist: "distinct (map vb_id (bd_bills db1))" using inv by (simp add: bills_ok_def db1_def)
  have w: "whole_cents (bill_total b)" "\<bar>bill_cents b\<bar> < 10 ^ 12" "paid_cents db1 (vb_id b) \<le> max 0 (bill_cents b)" using V(3) mem(1) by blast+
  have small: "paid_cents db1 (vb_id b) < 10 ^ 19" using w(2,3) by simp
  have bill1: "get_bill db1 (bp_bill p) = Some b" using b by (simp add: get_bill_def db1_def)
  have rec: "recompute_status b db1 = (Inr (if vb_status b = STATUS_VOID then STATUS_VOID else if settles db1 b then STATUS_PAID else STATUS_OPEN), db2)"
    using recompute_status_run[OF V(2) w(1,2) small] mem(2) by (auto simp: db2_def recompute_status_def run_ends)
  have "void_payment env who via p db = andthen (recompute_status b) (\<lambda>_. andthen (sync_expense_dates env b) (\<lambda>_. ok ())) db1"
    using p(2) via by (auto simp: void_payment_def run_simps db1_def[symmetric] bill1)
  then show "void_payment env who via p db = (case sync_expense_dates env b db2 of (Inl e, t) \<Rightarrow> (Inl e, t) | (Inr _, t) \<Rightarrow> (Inr (), t))"
    by (simp add: andthen_def rec ok_def split: sum.split prod.split)
  have rest: "\<forall>c \<in> set (bd_bills db1). c \<noteq> b \<longrightarrow> bill_ok db1 c"
    using V(1) mem dist by (metis distinct_map inj_onD)
  show "bills_ok db2"
  proof (cases "vb_status b = STATUS_VOID")
    case True
    then have "bill_ok db1 b" using w by (simp add: bill_ok_def)
    then show ?thesis using True V(2) rest dist by (auto simp: db2_def bills_ok_def)
  next
    case False
    then show ?thesis using bills_ok_restatus[OF dist V(2) mem(1) rest w] mem(2) by (simp add: db2_def)
  qed
qed

lemma void_payment_keeps:
  assumes inv: "bills_ok db" and p: "p \<in> set (bd_bill_payments db)" and run: "void_payment env who via p db = (r, db')"
  shows "bills_ok db'"
proof (cases "bp_voided_at p = None \<and> (via \<or> \<not> match_confirmed db (bp_match p))")
  case go: True
  show ?thesis
  proof (cases "get_bill db (bp_bill p)")
    case None
    have "db' = mark_voided env (bp_id p) who db"
      using go run None by (auto simp: void_payment_def run_simps run_ends get_bill_def)
    moreover have "bill_ok db' c" if c: "c \<in> set (bd_bills db)" for c
    proof -
      have "vb_id c \<noteq> bp_bill p" using None c by (auto simp: get_bill_def first_def filter_empty_conv split: list.splits)
      then show ?thesis using voided_in_order(1)[OF inv p, of env who] c \<open>db' = _\<close> by simp
    qed
    ultimately show ?thesis using voided_in_order(2)[OF inv p, of env who] inv by (simp add: bills_ok_def)
  next
    case (Some b)
    note V = void_payment_run[OF inv p _ Some, where env = env and who = who and via = via]
    show ?thesis using V go run sync_keeps_bills(1) by (auto split: prod.splits sum.splits)
  qed
next
  case False
  then have "db' = db" using run by (cases "bp_voided_at p") (auto simp: void_payment_def run_simps run_ends)
  then show ?thesis using inv by simp
qed

end
