(* ===== verification/Match_Plan.thy ===== *)
theory Match_Plan
  imports Match_Rules Bill_Books
begin

text \<open>
  The suggestion run refines a pure plan: which matches it creates depends on the rows it reads and on the rejected signatures
  only, and the creation never meets an index violation because the plan uses every line and every books record at most once.
\<close>

section \<open>Creating planned matches\<close>

definition wanted :: "signature list \<Rightarrow> match_input \<Rightarrow> bool" where
  "wanted sigs i \<longleftrightarrow> \<not> list_ex (same_signature (mi_lines i, mi_externals i)) sigs"

definition added :: "match_input \<Rightarrow> bank_db \<Rightarrow> bank_db" where
  "added i db = add_children (bd_uuid db) i (db\<lparr>bd_uuid := Suc (bd_uuid db), bd_matches := bd_matches db @ [mk_match (bd_uuid db) i]\<rparr>)"

definition add_all :: "match_input list \<Rightarrow> bank_db \<Rightarrow> bank_db" where
  "add_all is db = fold added is db"

lemma add_all_simps [simp]: "add_all [] db = db" "add_all (i # is) db = add_all is (added i db)" "add_all (is @ js) db = add_all js (add_all is db)"
  by (simp_all add: add_all_def)

lemma new_match_run:
  "new_match (Some sigs) i db =
    (if wanted sigs i then (if exclusive db then (Inr (Some (bd_uuid db)), added i db) else (Inl (LedgerRaised IntegrityError), db))
     else (Inr None, db))"
  by (simp add: new_match_def wanted_def added_def flush_matches_def reads_def fresh_id_def change_def ok_def andthen_def)

lemma added_ids:
  "matched_line_ids (added i db) = matched_line_ids db @ mi_lines i" "used_externals (added i db) = used_externals db @ mi_externals i"
  by (simp_all add: matched_line_ids_def used_externals_def added_def add_children_def comp_def mk_match_line_def mk_match_external_def external_key_def)

lemma add_all_ids:
  "matched_line_ids (add_all is db) = matched_line_ids db @ concat (map mi_lines is)"
  "used_externals (add_all is db) = used_externals db @ concat (map mi_externals is)"
  by (induction "is" arbitrary: db) (simp_all add: added_ids)

lemma exclusive_add_all:
  "exclusive (add_all is db) \<longleftrightarrow> distinct (matched_line_ids db @ concat (map mi_lines is)) \<and> distinct (used_externals db @ concat (map mi_externals is))"
  by (simp add: exclusive_def add_all_ids)

lemma exclusive_before: "exclusive (add_all is db) \<Longrightarrow> exclusive db"
  unfolding exclusive_def add_all_ids by simp

text \<open>An effect follows a plan: unless the plan itself collides, it returns the value and creates the planned matches.\<close>

definition plans :: "'a bank \<Rightarrow> 'a \<Rightarrow> match_input list \<Rightarrow> bool" where
  "plans m v is \<longleftrightarrow> (\<forall>db. exclusive (add_all is db) \<longrightarrow> m db = (Inr v, add_all is db))"

named_theorems planning \<open>effects that follow a plan\<close>

lemma plans_ok [planning]: "plans (ok v) v []"
  by (simp add: plans_def ok_def)

lemma plans_andthen:
  assumes "plans m x is" "plans (f x) y js"
  shows "plans (andthen m f) y (is @ js)"
  unfolding plans_def
proof (intro allI impI)
  fix db assume ex: "exclusive (add_all (is @ js) db)"
  then have "exclusive (add_all js (add_all is db))" by simp
  then have "exclusive (add_all is db)" by (rule exclusive_before)
  then have "m db = (Inr x, add_all is db)" using assms(1) by (simp add: plans_def)
  moreover have "f x (add_all is db) = (Inr y, add_all js (add_all is db))" using assms(2) ex by (simp add: plans_def)
  ultimately show "andthen m f db = (Inr y, add_all (is @ js) db)" by (simp add: andthen_def)
qed

lemma plans_then: "plans m x is \<Longrightarrow> f x = ok y \<Longrightarrow> plans (andthen m f) y is"
  using plans_andthen[of m x "is" f y "[]"] by (simp add: plans_ok)

lemma plans_pure:
  "r = Inr x \<Longrightarrow> plans (g x) v is \<Longrightarrow> plans (andthen (lift r) g) v is"
  "r' = Inr x \<Longrightarrow> plans (g x) v is \<Longrightarrow> plans (andthen (computed (\<lambda>_. r')) g) v is"
  by (simp_all add: plans_def run_simps)

lemma plans_new:
  assumes "\<And>u. wanted sigs i \<Longrightarrow> plans (g (Some u)) v is" "\<not> wanted sigs i \<Longrightarrow> plans (g None) v is"
  shows "plans (andthen (new_match (Some sigs) i) g) v (if wanted sigs i then i # is else is)"
proof (cases "wanted sigs i")
  case True
  show ?thesis unfolding plans_def
  proof (intro allI impI)
    fix db assume "exclusive (add_all (if wanted sigs i then i # is else is) db)"
    then have ex: "exclusive (add_all (i # is) db)" using True by simp
    then have "exclusive db" by (rule exclusive_before)
    then have "new_match (Some sigs) i db = (Inr (Some (bd_uuid db)), added i db)" using True by (simp add: new_match_run)
    then show "andthen (new_match (Some sigs) i) g db = (Inr v, add_all (if wanted sigs i then i # is else is) db)"
      using assms(1)[OF True] ex True by (simp add: andthen_def plans_def)
  qed
next
  case False
  then show ?thesis using assms(2) by (simp add: plans_def andthen_def new_match_run)
qed

section \<open>The plans of the rungs\<close>

definition keep :: "signature list \<Rightarrow> match_input \<Rightarrow> match_input list" where
  "keep sigs i = (if wanted sigs i then [i] else [])"

definition class_input :: "uuid \<Rightarrow> bank_line \<Rightarrow> match_input option" where
  "class_input account l = map_option (\<lambda>(c, conf). line_match account ''R5'' l [] (Some c) conf None) (classification_of l)"

definition class_plan :: "uuid \<Rightarrow> signature list \<Rightarrow> bank_line list \<Rightarrow> match_input list" where
  "class_plan account sigs ls = filter (wanted sigs) (List.map_filter (class_input account) ls)"

lemma classify_plans: "plans (classify account sigs ls) (length (class_plan account sigs ls)) (class_plan account sigs ls)"
proof (induction ls)
  case Nil
  then show ?case by (simp add: class_plan_def map_filter_simps plans_ok)
next
  case (Cons l ls)
  show ?case
  proof (cases "classification_of l")
    case None
    then show ?thesis using Cons by (simp add: class_plan_def map_filter_simps class_input_def)
  next
    case (Some p)
    obtain c conf where p: "p = (c, conf)" by fastforce
    let ?i = "line_match account ''R5'' l [] (Some c) conf None"
    have tail: "plans (andthen (classify account sigs ls) (\<lambda>n. ok (if cr = None then n else Suc n)))
        (if cr = None then length (class_plan account sigs ls) else Suc (length (class_plan account sigs ls))) (class_plan account sigs ls)" for cr :: "uuid option"
      by (rule plans_then[OF Cons]) simp
    have "plans (classify account sigs (l # ls)) (if wanted sigs ?i then Suc (length (class_plan account sigs ls)) else length (class_plan account sigs ls))
        (if wanted sigs ?i then ?i # class_plan account sigs ls else class_plan account sigs ls)"
      using plans_new[of sigs ?i "\<lambda>cr. andthen (classify account sigs ls) (\<lambda>n. ok (if cr = None then n else Suc n))"] tail[of None] tail[of "Some u" for u]
      by (simp add: Some p split: if_split)
    then show ?thesis by (auto simp: class_plan_def map_filter_simps class_input_def Some p split: if_splits)
  qed
qed

definition sole :: "('a \<Rightarrow> uuid) \<Rightarrow> (bank_line \<times> 'a list) list \<Rightarrow> 'a list \<Rightarrow> 'a option" where
  "sole ident table xs = (case xs of [x] \<Rightarrow> if degree ident table x = 1 then Some x else None | _ \<Rightarrow> None)"

lemma unrivalled_sole:
  assumes "\<And>x. xs = [x] \<Longrightarrow> degree ident table x \<noteq> 0"
  shows "unrivalled ident table xs = Inr (sole ident table xs)"
  using assms by (auto simp: unrivalled_def sole_def Let_def split: list.splits)

definition pay_input :: "uuid \<Rightarrow> bank_line \<Rightarrow> payment \<Rightarrow> match_input" where
  "pay_input account l p = line_match account ''R2'' l [(Payments, p_id p)] None 95 None"

text \<open>What R2 takes for one row, and the plan, the payments used and the lines left over all rows.\<close>

definition r2_take :: "uuid \<Rightarrow> signature list \<Rightarrow> (bank_line \<times> payment list) list \<Rightarrow> bank_line \<times> payment list \<Rightarrow> payment option" where
  "r2_take account sigs rivals row =
     (case sole p_id rivals (snd row) of None \<Rightarrow> None | Some p \<Rightarrow> if wanted sigs (pay_input account (fst row) p) then Some p else None)"

definition r2_plan :: "uuid \<Rightarrow> signature list \<Rightarrow> (bank_line \<times> payment list) list \<Rightarrow> (bank_line \<times> payment list) list \<Rightarrow> match_input list" where
  "r2_plan account sigs rivals rows =
     List.map_filter (\<lambda>row. map_option (pay_input account (fst row)) (r2_take account sigs rivals row)) rows"

definition r2_used :: "uuid \<Rightarrow> signature list \<Rightarrow> (bank_line \<times> payment list) list \<Rightarrow> (bank_line \<times> payment list) list \<Rightarrow> uuid list" where
  "r2_used account sigs rivals rows = List.map_filter (\<lambda>row. map_option p_id (r2_take account sigs rivals row)) rows"

definition r2_open :: "uuid \<Rightarrow> signature list \<Rightarrow> (bank_line \<times> payment list) list \<Rightarrow> (bank_line \<times> payment list) list \<Rightarrow> bank_line list" where
  "r2_open account sigs rivals rows = map fst (filter (\<lambda>row. r2_take account sigs rivals row = None) rows)"

lemma r2_deposits_plans:
  assumes "\<forall>row \<in> set rows. \<forall>x. snd row = [x] \<longrightarrow> degree p_id rivals x \<noteq> 0"
  shows "plans (r2_deposits account sigs rivals rows) (r2_used account sigs rivals rows, r2_open account sigs rivals rows) (r2_plan account sigs rivals rows)"
  using assms
proof (induction rows)
  case Nil
  then show ?case by (simp add: r2_plan_def r2_used_def r2_open_def map_filter_simps plans_ok)
next
  case (Cons row rows)
  obtain l xs where row: "row = (l, xs)" by fastforce
  have un: "unrivalled p_id rivals xs = Inr (sole p_id rivals xs)" using Cons.prems row by (intro unrivalled_sole) auto
  have IH: "plans (r2_deposits account sigs rivals rows) (r2_used account sigs rivals rows, r2_open account sigs rivals rows) (r2_plan account sigs rivals rows)"
    using Cons by simp
  have tail: "plans (andthen (r2_deposits account sigs rivals rows) (\<lambda>(used, still_open).
        ok (case taken of None \<Rightarrow> (used, l # still_open) | Some u \<Rightarrow> (u # used, still_open))))
      (case taken of None \<Rightarrow> (r2_used account sigs rivals rows, l # r2_open account sigs rivals rows)
       | Some u \<Rightarrow> (u # r2_used account sigs rivals rows, r2_open account sigs rivals rows)) (r2_plan account sigs rivals rows)" for taken
    by (rule plans_then[OF IH]) (simp split: option.split)
  have head: "plans (case sole p_id rivals xs of
                None \<Rightarrow> ok None
              | Some p \<Rightarrow>
                  andthen (new_match (Some sigs) (line_match account ''R2'' l [(Payments, p_id p)] None 95 None)) (\<lambda>created.
                  ok (if created = None then None else Some (p_id p))))
      (map_option p_id (r2_take account sigs rivals row)) (case r2_take account sigs rivals row of None \<Rightarrow> [] | Some p \<Rightarrow> [pay_input account l p])"
  proof (cases "sole p_id rivals xs")
    case None
    then show ?thesis by (simp add: r2_take_def row plans_ok)
  next
    case (Some p)
    have "plans (andthen (new_match (Some sigs) (pay_input account l p)) (\<lambda>created. ok (if created = None then None else Some (p_id p))))
        (if wanted sigs (pay_input account l p) then Some (p_id p) else None) (if wanted sigs (pay_input account l p) then [pay_input account l p] else [])"
      by (rule plans_new) (simp_all add: plans_ok)
    then show ?thesis by (simp add: Some r2_take_def row pay_input_def[symmetric] split: if_splits)
  qed
  have "plans (r2_deposits account sigs rivals (row # rows))
      (case map_option p_id (r2_take account sigs rivals row) of None \<Rightarrow> (r2_used account sigs rivals rows, l # r2_open account sigs rivals rows)
       | Some u \<Rightarrow> (u # r2_used account sigs rivals rows, r2_open account sigs rivals rows))
      ((case r2_take account sigs rivals row of None \<Rightarrow> [] | Some p \<Rightarrow> [pay_input account l p]) @ r2_plan account sigs rivals rows)"
    unfolding row r2_deposits.simps by (rule plans_pure(1)[OF un], rule plans_andthen[OF head[unfolded row] tail])
  then show ?case by (auto simp: r2_plan_def r2_used_def r2_open_def map_filter_simps row split: option.splits)
qed

definition exact_money :: "decimal option \<Rightarrow> bool" where
  "exact_money a \<longleftrightarrow> (\<exists>d. a = Some d \<and> whole_cents d \<and> \<bar>cents_val d\<bar> < 10 ^ 20)"

definition row_cents :: "decimal option \<Rightarrow> int" where
  "row_cents a = (case a of None \<Rightarrow> 0 | Some d \<Rightarrow> cents_val d)"

lemma amount_cents_exact:
  assumes "exact_money a"
  shows "amount_cents a = Inr (row_cents a)"
proof -
  obtain c e where a: "a = Some (Fin c e)" "-2 \<le> e" "e \<le> 0" "\<bar>c * 10 ^ nat (e + 2)\<bar> < 10 ^ 20"
  proof -
    obtain d where d: "a = Some d" "whole_cents d" "\<bar>cents_val d\<bar> < 10 ^ 20" using assms by (auto simp: exact_money_def)
    show ?thesis using d that by (cases d) auto
  qed
  have e: "e = -2 \<or> e = -1 \<or> e = 0" using a(2,3) by linarith
  then have "\<bar>c\<bar> < 10 ^ 20" using a(4) by auto
  then have "\<bar>c * 100\<bar> < 10 ^ 28" by (simp add: abs_mult)
  then have "dec_times (Fin c e) (Fin 100 0) = Inr (Fin (c * 100) e)" by simp
  moreover have "sgn (c * 100) * (\<bar>c * 100\<bar> div 100) = c" "sgn (c * 100) * (\<bar>c * 100\<bar> div 10) = c * 10"
    by (cases c "0 :: int" rule: linorder_cases; simp add: abs_mult sgn_mult mult_sgn_abs)+
  ultimately show ?thesis using e by (auto simp: amount_cents_def a(1) row_cents_def)
qed

definition sweep_total :: "payment list \<Rightarrow> int" where
  "sweep_total ps = sum_list (map (\<lambda>p. row_cents (p_amount p)) ps)"

definition sweep :: "payment list \<Rightarrow> bank_line \<Rightarrow> payment list option" where
  "sweep candidates l =
     (if candidates = [] \<or> R3_MAX_CANDIDATES < length candidates then None
      else case take 2 (filter (\<lambda>combo. sweep_total combo = bl_amount l) (sweep_subsets candidates)) of [combo] \<Rightarrow> Some combo | _ \<Rightarrow> None)"

lemma combinations_subset: "ys \<in> set (combinations k xs) \<Longrightarrow> set ys \<subseteq> set xs"
proof (induction k xs arbitrary: ys rule: combinations.induct)
  case (3 k x xs)
  then show ?case by fastforce
qed auto

lemma search_sweep_run:
  assumes "\<forall>combo \<in> set L. \<forall>p \<in> set combo. exact_money (p_amount p)"
  shows "search_sweep t n L = Inr (take (Suc n) (filter (\<lambda>combo. sweep_total combo = t) L))"
  using assms
proof (induction L arbitrary: n)
  case (Cons combo L)
  have "mapR (\<lambda>p. amount_cents (p_amount p)) combo = Inr (map (\<lambda>p. row_cents (p_amount p)) combo)"
    using Cons.prems by (intro mapR_Inr_map) (simp add: amount_cents_exact)
  then show ?case using Cons by (cases n) (auto simp: sweep_total_def)
qed simp

lemma find_sweep_run:
  assumes "\<forall>p \<in> set candidates. exact_money (p_amount p)"
  shows "find_sweep candidates l = Inr (sweep candidates l)"
proof -
  have "\<forall>combo \<in> set (sweep_subsets candidates). \<forall>p \<in> set combo. exact_money (p_amount p)"
    using assms combinations_subset unfolding sweep_subsets_def by fastforce
  from search_sweep_run[OF this, of "bl_amount l" 1] show ?thesis by (simp add: find_sweep_def sweep_def numeral_2_eq_2)
qed

fun r3_plan :: "uuid \<Rightarrow> signature list \<Rightarrow> payment list \<Rightarrow> uuid list \<Rightarrow> bank_line list \<Rightarrow> match_input list" where
  "r3_plan account sigs pool swept [] = []"
| "r3_plan account sigs pool swept (l # ls) =
     (case sweep (sweep_candidates pool swept l) l of
        None \<Rightarrow> r3_plan account sigs pool swept ls
      | Some combo \<Rightarrow>
          if wanted sigs (sweep_match account l combo)
          then sweep_match account l combo # r3_plan account sigs pool (map p_id combo @ swept) ls
          else r3_plan account sigs pool swept ls)"

lemma sweep_match_fields [simp]:
  "mi_lines (sweep_match account l combo) = [bl_id l]" "mi_externals (sweep_match account l combo) = map (\<lambda>p. (Payments, p_id p)) combo"
  by (simp_all add: sweep_match_def line_match_def)

lemma r3_sweeps_plans:
  assumes "\<forall>p \<in> set pool. exact_money (p_amount p)"
  shows "plans (r3_sweeps account sigs pool swept ls) (concat (map mi_lines (r3_plan account sigs pool swept ls))) (r3_plan account sigs pool swept ls)"
proof (induction ls arbitrary: swept)
  case Nil
  then show ?case by (simp add: plans_ok)
next
  case (Cons l ls)
  have "\<forall>p \<in> set (sweep_candidates pool swept l). exact_money (p_amount p)" using assms by (simp add: sweep_candidates_def)
  note f = find_sweep_run[OF this, of l]
  show ?case
  proof (cases "sweep (sweep_candidates pool swept l) l")
    case None
    then show ?thesis using Cons unfolding r3_sweeps.simps by (auto intro: plans_pure(2)[OF f])
  next
    case (Some combo)
    let ?i = "sweep_match account l combo"
    have more: "plans (andthen (r3_sweeps account sigs pool (map p_id combo @ swept) ls) (\<lambda>done_ids. ok (bl_id l # done_ids)))
        (bl_id l # concat (map mi_lines (r3_plan account sigs pool (map p_id combo @ swept) ls))) (r3_plan account sigs pool (map p_id combo @ swept) ls)"
      by (rule plans_then[OF Cons]) simp
    have "plans (andthen (new_match (Some sigs) ?i) (\<lambda>created. if created = None then r3_sweeps account sigs pool swept ls
          else andthen (r3_sweeps account sigs pool (map p_id combo @ swept) ls) (\<lambda>done_ids. ok (bl_id l # done_ids))))
        (concat (map mi_lines (r3_plan account sigs pool swept (l # ls))))
        (if wanted sigs ?i then ?i # (if wanted sigs ?i then r3_plan account sigs pool (map p_id combo @ swept) ls else r3_plan account sigs pool swept ls)
         else (if wanted sigs ?i then r3_plan account sigs pool (map p_id combo @ swept) ls else r3_plan account sigs pool swept ls))"
      by (rule plans_new) (simp_all add: Some more Cons)
    then show ?thesis unfolding r3_sweeps.simps by (intro plans_pure(2)[OF f]) (simp add: Some split: if_splits)
  qed
qed


section \<open>Debits\<close>

definition debit_take :: "uuid \<Rightarrow> signature list \<Rightarrow> (bank_line \<times> expense list) list \<Rightarrow> (bank_line \<times> vendor_bill list) list \<Rightarrow>
    bank_line \<times> expense list \<times> vendor_bill list \<Rightarrow> match_input list" where
  "debit_take account sigs xt vt row =
     (case row of (l, xs, vs) \<Rightarrow>
        let spent = filter (wanted sigs) (map (expense_match account l) (case sole x_id xt xs of None \<Rightarrow> [] | Some x \<Rightarrow> [x]));
            billed = filter (wanted sigs) (map (bill_match account l) (case sole vb_id vt vs of None \<Rightarrow> [] | Some v \<Rightarrow> [v]))
        in if spent \<noteq> [] then spent else billed)"

lemma try_match_plans:
  "plans (try_match sigs i) (case i of None \<Rightarrow> False | Some mi \<Rightarrow> wanted sigs mi) (case i of None \<Rightarrow> [] | Some mi \<Rightarrow> keep sigs mi)"
proof (cases i)
  case None
  then show ?thesis by (simp add: try_match_def plans_ok)
next
  case (Some mi)
  have "plans (andthen (new_match (Some sigs) mi) (\<lambda>created. ok (created \<noteq> None))) (wanted sigs mi) (if wanted sigs mi then [mi] else [])"
    by (rule plans_new) (simp_all add: plans_ok)
  then show ?thesis by (simp add: Some try_match_def keep_def)
qed

lemma r2_debits_plans:
  assumes "\<forall>(l, xs, vs) \<in> set rows. (\<forall>x. xs = [x] \<longrightarrow> degree x_id xt x \<noteq> 0) \<and> (\<forall>v. vs = [v] \<longrightarrow> degree vb_id vt v \<noteq> 0)"
  shows "\<exists>n. plans (r2_debits account sigs xt vt rows) n (concat (map (debit_take account sigs xt vt) rows))"
  using assms
proof (induction rows)
  case Nil
  then show ?case by (auto intro!: exI plans_ok)
next
  case (Cons row rows)
  obtain l xs vs where row: "row = (l, xs, vs)" by (cases row) auto
  obtain n where IH: "plans (r2_debits account sigs xt vt rows) n (concat (map (debit_take account sigs xt vt) rows))" using Cons by auto
  obtain a b c where n: "n = (a, b, c)" by (cases n) auto
  have ux: "unrivalled x_id xt xs = Inr (sole x_id xt xs)" and uv: "unrivalled vb_id vt vs = Inr (sole vb_id vt vs)"
    using Cons.prems row by (auto intro!: unrivalled_sole)
  define xi where "xi = map_option (expense_match account l) (sole x_id xt xs)"
  define vi where "vi = map_option (bill_match account l) (sole vb_id vt vs)"
  define spent where "spent = (case xi of None \<Rightarrow> False | Some mi \<Rightarrow> wanted sigs mi)"
  define xin where "xin = (case xi of None \<Rightarrow> [] | Some mi \<Rightarrow> keep sigs mi)"
  define billed where "billed = (if spent then False else case vi of None \<Rightarrow> False | Some mi \<Rightarrow> wanted sigs mi)"
  define vin where "vin = (if spent then [] else case vi of None \<Rightarrow> [] | Some mi \<Rightarrow> keep sigs mi)"
  have p1: "plans (try_match sigs xi) spent xin" unfolding spent_def xin_def by (rule try_match_plans)
  have p2: "plans (if spent then ok False else andthen (lift (unrivalled vb_id vt vs)) (\<lambda>v. try_match sigs (map_option (bill_match account l) v))) billed vin"
    using plans_pure(1)[OF uv, of "\<lambda>v. try_match sigs (map_option (bill_match account l) v)"] try_match_plans[of sigs vi]
    by (simp add: billed_def vin_def vi_def plans_ok)
  have p3: "plans (andthen (r2_debits account sigs xt vt rows) (\<lambda>(a, b, c). ok (if spent then (Suc a, b, c) else if billed then (a, Suc b, c) else (a, b, Suc c))))
      (if spent then (Suc a, b, c) else if billed then (a, Suc b, c) else (a, b, Suc c)) (concat (map (debit_take account sigs xt vt) rows))"
    by (rule plans_then[OF IH]) (simp add: n)
  have "plans (r2_debits account sigs xt vt (row # rows)) (if spent then (Suc a, b, c) else if billed then (a, Suc b, c) else (a, b, Suc c))
      (xin @ vin @ concat (map (debit_take account sigs xt vt) rows))"
    unfolding row r2_debits.simps by (rule plans_pure(1)[OF ux], unfold xi_def[symmetric], rule plans_andthen[OF p1], rule plans_andthen[OF p2], rule p3)
  moreover have "debit_take account sigs xt vt row = xin @ vin"
    by (auto simp: debit_take_def row xin_def vin_def xi_def vi_def spent_def keep_def split: option.splits)
  ultimately have "plans (r2_debits account sigs xt vt (row # rows)) (if spent then (Suc a, b, c) else if billed then (a, Suc b, c) else (a, b, Suc c))
      (concat (map (debit_take account sigs xt vt) (row # rows)))" by simp
  then show ?case by (rule exI)
qed

section \<open>The reads\<close>

lemma filterR_run: "(\<And>x. x \<in> set xs \<Longrightarrow> f x = Inr (P x)) \<Longrightarrow> filterR f xs = Inr (filter P xs)"
  by (induction xs) auto

lemma pairs_of_run: "(\<And>l. l \<in> set ls \<Longrightarrow> hits l = Inr (h l)) \<Longrightarrow> pairs_of hits ls = Inr (map (\<lambda>l. (l, h l)) ls)"
  unfolding pairs_of_def by (rule mapR_Inr_map) simp

definition pays :: "payment \<Rightarrow> bank_line \<Rightarrow> bool" where
  "pays p l \<longleftrightarrow> row_cents (p_amount p) = bl_amount l \<and> business_days_apart (the (p_date p)) (bl_date l) \<le> R2_BUSINESS_DAYS"

definition spends :: "expense \<Rightarrow> bank_line \<Rightarrow> bool" where
  "spends x l \<longleftrightarrow> row_cents (x_amount x) = - bl_amount l \<and> business_days_apart (the (x_date x)) (bl_date l) \<le> R2_BUSINESS_DAYS"

definition bills :: "vendor_bill \<Rightarrow> bank_line \<Rightarrow> bool" where
  "bills v l \<longleftrightarrow> row_cents (vb_total v) = - bl_amount l \<and> \<bar>days_between (the (vb_date v)) (bl_date l)\<bar> \<le> VENDOR_INVOICE_WINDOW_DAYS"

definition by_hand :: "payment \<Rightarrow> bool" where
  "by_hand p \<longleftrightarrow> payment_method p \<notin> set PROCESSOR_METHODS"

lemma hits_run:
  "\<forall>p \<in> set ps. exact_money (p_amount p) \<Longrightarrow> filterR (payment_hit l) ps = Inr (filter (\<lambda>p. pays p l) ps)"
  "\<forall>p \<in> set ps. exact_money (p_amount p) \<Longrightarrow> r2_candidates ps l = Inr (filter (\<lambda>p. by_hand p \<and> pays p l) ps)"
  "\<forall>x \<in> set xs. exact_money (x_amount x) \<Longrightarrow> expense_hits xs l = Inr (filter (\<lambda>x. spends x l) xs)"
  "\<forall>v \<in> set vs. vb_total v \<noteq> None \<longrightarrow> exact_money (vb_total v) \<Longrightarrow> vendor_hits vs l = Inr (filter (\<lambda>v. vb_total v \<noteq> None \<and> bills v l) vs)"
proof -
  show "filterR (payment_hit l) ps = Inr (filter (\<lambda>p. pays p l) ps)" if "\<forall>p \<in> set ps. exact_money (p_amount p)" for ps
    using that by (intro filterR_run) (simp add: payment_hit_def near_def pays_def amount_cents_exact)
  from this[of "filter by_hand ps"] show "r2_candidates ps l = Inr (filter (\<lambda>p. by_hand p \<and> pays p l) ps)"
    if "\<forall>p \<in> set ps. exact_money (p_amount p)"
    using that by (simp add: r2_candidates_def by_hand_def[abs_def] conj_commute)
  show "expense_hits xs l = Inr (filter (\<lambda>x. spends x l) xs)" if "\<forall>x \<in> set xs. exact_money (x_amount x)"
    unfolding expense_hits_def using that by (intro filterR_run) (simp add: near_def spends_def amount_cents_exact)
  have "vendor_hits vs l = Inr (filter (\<lambda>v. bills v l) (filter (\<lambda>v. vb_total v \<noteq> None) vs))"
    if "\<forall>v \<in> set vs. vb_total v \<noteq> None \<longrightarrow> exact_money (vb_total v)"
    unfolding vendor_hits_def using that by (intro filterR_run) (simp add: bills_def amount_cents_exact)
  then show "vendor_hits vs l = Inr (filter (\<lambda>v. vb_total v \<noteq> None \<and> bills v l) vs)" if "\<forall>v \<in> set vs. vb_total v \<noteq> None \<longrightarrow> exact_money (vb_total v)"
    using that by (simp add: conj_commute)
qed

end
