(* ===== verification/Match_Suggest.thy ===== *)
theory Match_Suggest
  imports Match_Plan
begin

text \<open>
  A suggestion run always completes: the plan uses a line and a books record at most once.  It leaves confirmed and rejected matches
  alone, never repeats a rejected pairing, and what it pairs agrees to the cent.
\<close>

section \<open>Collisions\<close>

lemma distinct_concat_map:
  assumes "distinct xs" "\<And>x. x \<in> set xs \<Longrightarrow> distinct (f x)" "\<And>x y. x \<in> set xs \<Longrightarrow> y \<in> set xs \<Longrightarrow> x \<noteq> y \<Longrightarrow> set (f x) \<inter> set (f y) = {}"
  shows "distinct (concat (map f xs))"
  using assms
proof (induction xs)
  case (Cons x xs)
  have "distinct (concat (map f xs))" by (rule Cons.IH) (use Cons.prems in auto)
  moreover have "set (f x) \<inter> set (f y) = {}" if "y \<in> set xs" for y using Cons.prems(3)[of x y] Cons.prems(1) that by auto
  ultimately show ?case using Cons.prems(2) by auto
qed simp

lemma map_filter_concat: "List.map_filter f xs = concat (map (\<lambda>x. case f x of None \<Rightarrow> [] | Some y \<Rightarrow> [y]) xs)"
  by (induction xs) (auto simp: map_filter_simps split: option.splits)

lemma set_map_filter_Some: "set (List.map_filter f xs) = {y. \<exists>x \<in> set xs. f x = Some y}"
  by (force simp: List.map_filter_def)

lemma degree_pos: "(l, xs) \<in> set table \<Longrightarrow> x \<in> set xs \<Longrightarrow> degree ident table x \<noteq> 0"
  by (force simp: degree_def filter_empty_conv)

lemma degree_two:
  assumes "(l, xs) \<in> set table" "(k, ys) \<in> set table" "(l, xs) \<noteq> (k, ys)" "x \<in> set xs" "y \<in> set ys" "ident y = ident x"
  shows "2 \<le> degree ident table x"
proof -
  let ?n = "\<lambda>row. length (filter (\<lambda>z. ident z = ident x) (snd row))"
  have deg: "degree ident t x = sum_list (map ?n t)" for t
    by (induction t) (simp_all add: degree_def)
  have one: "1 \<le> ?n (l, xs)" "1 \<le> ?n (k, ys)" using assms(4-6) by (auto simp: Suc_le_eq filter_empty_conv)
  have "(k, ys) \<in> set (remove1 (l, xs) table)" using assms(2,3) by (metis in_set_remove1)
  then have "?n (k, ys) \<in> set (map ?n (remove1 (l, xs) table))" unfolding set_map by (rule imageI)
  then have "?n (k, ys) \<le> sum_list (map ?n (remove1 (l, xs) table))" by (rule member_le_sum_list) simp
  moreover have "sum_list (map ?n table) = ?n (l, xs) + sum_list (map ?n (remove1 (l, xs) table))" by (rule sum_list_map_remove1[OF assms(1)])
  ultimately show ?thesis using one unfolding deg by linarith
qed

text \<open>Two rows of lines that differ cannot both take a record that only one of them may take.\<close>

lemma sole_exclusive:
  assumes "sole ident table xs = Some x" "sole ident table ys = Some y" "(l, xs') \<in> set table" "(k, ys') \<in> set table"
    "set xs \<subseteq> set xs'" "set ys \<subseteq> set ys'" "l \<noteq> k"
  shows "ident x \<noteq> ident y"
proof
  assume same: "ident x = ident y"
  have x: "xs = [x]" "degree ident table x = 1" and y: "ys = [y]"
    using assms(1,2) by (auto simp: sole_def split: list.splits if_splits)
  have "2 \<le> degree ident table x"
    by (rule degree_two[OF assms(3,4)]) (use assms(5-7) x(1) y same in auto)
  then show False using x(2) by simp
qed

section \<open>Subsets\<close>

lemma combinations_length: "ys \<in> set (combinations k xs) \<Longrightarrow> length ys = k"
  by (induction k xs arbitrary: ys rule: combinations.induct) auto

lemma combinations_subseq: "set (combinations k xs) = {ys. subseq ys xs \<and> length ys = k}"
proof (induction k xs rule: combinations.induct)
  case (1 xs)
  then show ?case by auto
next
  case (2 k)
  then show ?case by auto
next
  case (3 k x xs)
  show ?case
  proof (intro set_eqI iffI)
    fix ys assume "ys \<in> set (combinations (Suc k) (x # xs))"
    then show "ys \<in> {ys. subseq ys (x # xs) \<and> length ys = Suc k}" using 3 by auto
  next
    fix ys assume "ys \<in> {ys. subseq ys (x # xs) \<and> length ys = Suc k}"
    then show "ys \<in> set (combinations (Suc k) (x # xs))" using 3 by (cases ys) (auto split: if_splits)
  qed
qed

lemma combinations_distinct: "distinct xs \<Longrightarrow> ys \<in> set (combinations k xs) \<Longrightarrow> distinct ys"
  unfolding combinations_subseq by (auto simp: subseq_conv_nths distinct_nthsI)

lemma sweep_Some:
  assumes "sweep cs l = Some combo"
  shows "combo \<in> set (sweep_subsets cs)" "sweep_total combo = bl_amount l"
    "\<And>other. other \<in> set (sweep_subsets cs) \<Longrightarrow> sweep_total other = bl_amount l \<Longrightarrow> other = combo" "length cs \<le> R3_MAX_CANDIDATES"
proof -
  let ?hits = "filter (\<lambda>combo. sweep_total combo = bl_amount l) (sweep_subsets cs)"
  have two: "take 2 ?hits = [combo]" and len: "length cs \<le> R3_MAX_CANDIDATES"
    using assms by (auto simp: sweep_def split: if_splits list.splits)
  have hits: "?hits = [combo]"
  proof (cases ?hits)
    case (Cons a as)
    then show ?thesis using two by (cases as) auto
  qed (use two in simp)
  then have "combo \<in> set ?hits" by simp
  then show "combo \<in> set (sweep_subsets cs)" "sweep_total combo = bl_amount l" by auto
  show "other = combo" if "other \<in> set (sweep_subsets cs)" "sweep_total other = bl_amount l" for other
  proof -
    have "other \<in> set ?hits" using that by simp
    then show ?thesis unfolding hits by simp
  qed
  show "length cs \<le> R3_MAX_CANDIDATES" by (rule len)
qed

lemma sweep_subsets_set: "set (sweep_subsets cs) = {ys. subseq ys cs \<and> 2 \<le> length ys \<and> length ys \<le> R3_MAX_SUBSET}"
proof -
  have "length ys \<le> length cs" if "subseq ys cs" for ys using that by (rule list_emb_length)
  then show ?thesis by (force simp: sweep_subsets_def combinations_subseq less_Suc_eq_le)
qed


section \<open>What each rung uses\<close>

definition fits :: "match_input list \<Rightarrow> uuid set \<Rightarrow> books_record set \<Rightarrow> bool" where
  "fits is L E \<longleftrightarrow> distinct (concat (map mi_lines is)) \<and> set (concat (map mi_lines is)) \<subseteq> L \<and>
     distinct (concat (map mi_externals is)) \<and> set (concat (map mi_externals is)) \<subseteq> E"

lemma fits_append: "fits is L E \<Longrightarrow> fits js L' E' \<Longrightarrow> L \<inter> L' = {} \<Longrightarrow> E \<inter> E' = {} \<Longrightarrow> fits (is @ js) (L \<union> L') (E \<union> E')"
  unfolding fits_def map_append concat_append distinct_append set_append by blast

lemma fits_mono: "fits is L E \<Longrightarrow> L \<subseteq> L' \<Longrightarrow> E \<subseteq> E' \<Longrightarrow> fits is L' E'"
  unfolding fits_def by auto

text \<open>Rows that each plan at most one match over their own line.\<close>

lemma fits_rows:
  assumes "distinct (map (\<lambda>row. bl_id (line row)) rows)"
    and "\<And>row i. row \<in> set rows \<Longrightarrow> f row = [] \<or> (\<exists>i. f row = [i] \<and> mi_lines i = [bl_id (line row)] \<and> distinct (mi_externals i) \<and> set (mi_externals i) \<subseteq> E)"
    and "\<And>r s i j. r \<in> set rows \<Longrightarrow> s \<in> set rows \<Longrightarrow> bl_id (line r) \<noteq> bl_id (line s) \<Longrightarrow> f r = [i] \<Longrightarrow> f s = [j] \<Longrightarrow> set (mi_externals i) \<inter> set (mi_externals j) = {}"
  shows "fits (concat (map f rows)) ((\<lambda>row. bl_id (line row)) ` {row \<in> set rows. f row \<noteq> []}) E"
proof -
  have dist: "distinct rows" using assms(1) by (simp add: distinct_map)
  have inj: "bl_id (line r) \<noteq> bl_id (line s)" if "r \<in> set rows" "s \<in> set rows" "r \<noteq> s" for r s
    using assms(1) that by (auto simp: distinct_map dest: inj_onD)
  have a: "concat (map mi_lines (concat (map f rows))) = concat (map (\<lambda>row. concat (map mi_lines (f row))) rows)"
    and b: "concat (map mi_externals (concat (map f rows))) = concat (map (\<lambda>row. concat (map mi_externals (f row))) rows)"
    by (induction rows) simp_all
  have lines: "concat (map mi_lines (f row)) = [] \<or> concat (map mi_lines (f row)) = [bl_id (line row)]" if "row \<in> set rows" for row
    using assms(2)[OF that] by auto
  have "distinct (concat (map (\<lambda>row. concat (map mi_lines (f row))) rows))"
  proof (rule distinct_concat_map[OF dist])
    fix r assume "r \<in> set rows"
    then show "distinct (concat (map mi_lines (f r)))" using lines by (metis distinct.simps(1) distinct_singleton)
  next
    fix r s assume rs: "r \<in> set rows" "s \<in> set rows" "r \<noteq> s"
    then show "set (concat (map mi_lines (f r))) \<inter> set (concat (map mi_lines (f s))) = {}"
      using lines[OF rs(1)] lines[OF rs(2)] inj[OF rs] by (metis disjoint_insert(2) inf_bot_left inf_bot_right list.set(1) list.set(2) singletonD)
  qed
  moreover have "distinct (concat (map (\<lambda>row. concat (map mi_externals (f row))) rows))"
  proof (rule distinct_concat_map[OF dist])
    fix r assume "r \<in> set rows"
    then show "distinct (concat (map mi_externals (f r)))" using assms(2) by fastforce
  next
    fix r s assume rs: "r \<in> set rows" "s \<in> set rows" "r \<noteq> s"
    consider "f r = []" | "f s = []" | i j where "f r = [i]" "f s = [j]" using assms(2) rs by metis
    then show "set (concat (map mi_externals (f r))) \<inter> set (concat (map mi_externals (f s))) = {}"
      using assms(3)[OF rs(1,2) inj[OF rs]] by cases auto
  qed
  moreover have "set (concat (map (\<lambda>row. concat (map mi_externals (f row))) rows)) \<subseteq> E"
  proof -
    have "set (concat (map mi_externals (f row))) \<subseteq> E" if "row \<in> set rows" for row using assms(2)[OF that] by auto
    then show ?thesis by auto
  qed
  moreover have "set (concat (map (\<lambda>row. concat (map mi_lines (f row))) rows)) \<subseteq> (\<lambda>row. bl_id (line row)) ` {row \<in> set rows. f row \<noteq> []}"
  proof -
    have "set (concat (map mi_lines (f row))) \<subseteq> (\<lambda>row. bl_id (line row)) ` {row \<in> set rows. f row \<noteq> []}" if "row \<in> set rows" for row
      using assms(2)[OF that] that by auto
    then show ?thesis by auto
  qed
  ultimately show ?thesis unfolding fits_def a b by blast
qed

lemma line_match_fields [simp]:
  "mi_lines (line_match a r l xs c k n) = [bl_id l]" "mi_externals (line_match a r l xs c k n) = xs"
  by (simp_all add: line_match_def)

lemma class_plan_fits:
  assumes "distinct (map bl_id ls)"
  shows "fits (class_plan account sigs ls) (bl_id ` {l \<in> set ls. classification_of l \<noteq> None}) {}"
proof -
  let ?f = "\<lambda>l. filter (wanted sigs) (case class_input account l of None \<Rightarrow> [] | Some i \<Rightarrow> [i])"
  have eq: "class_plan account sigs ls = concat (map ?f ls)"
    unfolding class_plan_def map_filter_concat by (simp add: filter_concat comp_def)
  have "fits (concat (map ?f ls)) ((\<lambda>l. bl_id l) ` {l \<in> set ls. ?f l \<noteq> []}) {}"
    by (rule fits_rows) (use assms in \<open>auto simp: class_input_def split: option.splits if_splits\<close>)
  then show ?thesis unfolding eq by (rule fits_mono) (auto simp: class_input_def split: option.splits if_splits)
qed

lemma sole_in: "sole ident table xs = Some x \<Longrightarrow> xs = [x]"
  by (auto simp: sole_def split: list.splits if_splits)

lemma r2_takeD:
  assumes "r2_take account sigs rivals row = Some p"
  shows "sole p_id rivals (snd row) = Some p" "wanted sigs (pay_input account (fst row) p)"
  using assms by (auto simp: r2_take_def split: option.splits if_splits)

lemma r2_plan_fits:
  assumes dist: "distinct (map (\<lambda>row. bl_id (fst row)) rows)"
    and table: "\<And>l xs. (l, xs) \<in> set rows \<Longrightarrow> \<exists>xs'. (l, xs') \<in> set rivals \<and> set xs \<subseteq> set xs'"
  shows "fits (r2_plan account sigs rivals rows) ((\<lambda>row. bl_id (fst row)) ` {row \<in> set rows. r2_take account sigs rivals row \<noteq> None})
    (Pair Payments ` set (r2_used account sigs rivals rows))"
proof -
  let ?f = "\<lambda>row. case map_option (pay_input account (fst row)) (r2_take account sigs rivals row) of None \<Rightarrow> [] | Some i \<Rightarrow> [i]"
  have eq: "r2_plan account sigs rivals rows = concat (map ?f rows)" unfolding r2_plan_def map_filter_concat by simp
  have "fits (concat (map ?f rows)) ((\<lambda>row. bl_id (fst row)) ` {row \<in> set rows. ?f row \<noteq> []}) (Pair Payments ` set (r2_used account sigs rivals rows))"
  proof (rule fits_rows[OF dist])
    fix row assume "row \<in> set rows"
    then show "?f row = [] \<or> (\<exists>i. ?f row = [i] \<and> mi_lines i = [bl_id (fst row)] \<and> distinct (mi_externals i) \<and>
        set (mi_externals i) \<subseteq> Pair Payments ` set (r2_used account sigs rivals rows))"
      by (cases "r2_take account sigs rivals row") (force simp: pay_input_def r2_used_def set_map_filter_Some)+
  next
    fix r s i j assume rs: "r \<in> set rows" "s \<in> set rows" "bl_id (fst r) \<noteq> bl_id (fst s)" "?f r = [i]" "?f s = [j]"
    obtain p q where p: "r2_take account sigs rivals r = Some p" "i = pay_input account (fst r) p"
      and q: "r2_take account sigs rivals s = Some q" "j = pay_input account (fst s) q"
      using rs(4,5) by (auto split: option.splits)
    obtain xs where xs: "(fst r, xs) \<in> set rivals" "set (snd r) \<subseteq> set xs" using table[of "fst r" "snd r"] rs(1) by auto
    obtain ys where ys: "(fst s, ys) \<in> set rivals" "set (snd s) \<subseteq> set ys" using table[of "fst s" "snd s"] rs(2) by auto
    have "fst r \<noteq> fst s" using rs(3) by metis
    from sole_exclusive[OF r2_takeD(1)[OF p(1)] r2_takeD(1)[OF q(1)] xs(1) ys(1) xs(2) ys(2) this]
    have "p_id p \<noteq> p_id q" .
    then show "set (mi_externals i) \<inter> set (mi_externals j) = {}" using p(2) q(2) by (simp add: pay_input_def)
  qed
  then show ?thesis unfolding eq by (rule fits_mono) (auto split: option.splits)
qed


lemma sweep_combo:
  assumes "sweep cs l = Some combo" "distinct (map p_id cs)"
  shows "set combo \<subseteq> set cs" "distinct (map p_id combo)"
proof -
  have "combo \<in> set (sweep_subsets cs)" by (rule sweep_Some(1)[OF assms(1)])
  then have sub: "subseq combo cs" by (simp add: sweep_subsets_set)
  then show "set combo \<subseteq> set cs" by (auto simp: subseq_conv_nths dest: in_set_nthsD)
  have "subseq (map p_id combo) (map p_id cs)" using sub by (rule subseq_map)
  then show "distinct (map p_id combo)" using assms(2) by (auto simp: subseq_conv_nths distinct_nthsI)
qed

lemma r3_plan_fits:
  assumes "distinct (map p_id pool)" "distinct (map bl_id ls)"
  shows "fits (r3_plan account sigs pool swept ls) (bl_id ` set ls) (Pair Payments ` (p_id ` set pool - set swept))"
  using assms(2)
proof (induction ls arbitrary: swept)
  case Nil
  then show ?case by (simp add: fits_def)
next
  case (Cons l ls)
  let ?cs = "sweep_candidates pool swept l"
  have cs: "distinct (map p_id ?cs)" "p_id ` set ?cs \<subseteq> p_id ` set pool - set swept"
    using assms(1) by (auto simp: sweep_candidates_def distinct_map inj_on_def)
  have IH: "fits (r3_plan account sigs pool sw ls) (bl_id ` set ls) (Pair Payments ` (p_id ` set pool - set sw))" for sw
    using Cons by simp
  have skip: "fits (r3_plan account sigs pool swept ls) (bl_id ` set (l # ls)) (Pair Payments ` (p_id ` set pool - set swept))"
    by (rule fits_mono[OF IH]) auto
  show ?case
  proof (cases "sweep ?cs l")
    case None
    then show ?thesis using skip by simp
  next
    case (Some combo)
    let ?i = "sweep_match account l combo"
    note C = sweep_combo[OF Some cs(1)]
    have one: "fits [?i] {bl_id l} (Pair Payments ` p_id ` set combo)"
      using C(2) by (simp add: fits_def distinct_map inj_on_def image_image)
    have all: "fits ([?i] @ r3_plan account sigs pool (map p_id combo @ swept) ls) ({bl_id l} \<union> bl_id ` set ls)
        (Pair Payments ` p_id ` set combo \<union> Pair Payments ` (p_id ` set pool - set (map p_id combo @ swept)))"
    proof (rule fits_append[OF one IH])
      show "{bl_id l} \<inter> bl_id ` set ls = {}" using Cons.prems by simp
      have "p_id ` set combo \<inter> (p_id ` set pool - set (map p_id combo @ swept)) = {}" unfolding set_append set_map by blast
      then show "Pair Payments ` p_id ` set combo \<inter> Pair Payments ` (p_id ` set pool - set (map p_id combo @ swept)) = {}" by blast
    qed
    have "p_id ` set combo \<subseteq> p_id ` set pool - set swept" using C(1) cs(2) by blast
    then have "fits ([?i] @ r3_plan account sigs pool (map p_id combo @ swept) ls) (bl_id ` set (l # ls)) (Pair Payments ` (p_id ` set pool - set swept))"
      by (intro fits_mono[OF all]) auto
    then show ?thesis using skip by (simp add: Some)
  qed
qed

lemma debit_takeD:
  assumes "i \<in> set (debit_take account sigs xt vt (l, xs, vs))"
  obtains x where "sole x_id xt xs = Some x" "i = expense_match account l x" "debit_take account sigs xt vt (l, xs, vs) = [i]" "wanted sigs i"
  | v where "sole vb_id vt vs = Some v" "i = bill_match account l v" "debit_take account sigs xt vt (l, xs, vs) = [i]" "wanted sigs i"
  using assms by (auto simp: debit_take_def Let_def split: option.splits if_splits)

lemma debit_fields [simp]:
  "mi_lines (expense_match a l x) = [bl_id l]" "mi_externals (expense_match a l x) = [(Expenses, x_id x)]"
  "mi_lines (bill_match a l v) = [bl_id l]" "mi_externals (bill_match a l v) = [(VendorInvoices, vb_id v)]"
  by (simp_all add: expense_match_def bill_match_def)

lemma debit_plan_fits:
  assumes dist: "distinct (map (\<lambda>row. bl_id (fst row)) rows)"
    and xt: "\<And>l xs vs. (l, xs, vs) \<in> set rows \<Longrightarrow> (l, xs) \<in> set xt \<and> set xs \<subseteq> X"
    and vt: "\<And>l xs vs. (l, xs, vs) \<in> set rows \<Longrightarrow> (l, vs) \<in> set vt \<and> set vs \<subseteq> V"
  shows "fits (concat (map (debit_take account sigs xt vt) rows)) ((\<lambda>row. bl_id (fst row)) ` set rows)
    (Pair Expenses ` x_id ` X \<union> Pair VendorInvoices ` vb_id ` V)"
proof -
  let ?f = "debit_take account sigs xt vt"
  have "fits (concat (map ?f rows)) ((\<lambda>row. bl_id (fst row)) ` {row \<in> set rows. ?f row \<noteq> []}) (Pair Expenses ` x_id ` X \<union> Pair VendorInvoices ` vb_id ` V)"
  proof (rule fits_rows[OF dist])
    fix row assume row: "row \<in> set rows"
    obtain l xs vs where r: "row = (l, xs, vs)" by (cases row) auto
    show "?f row = [] \<or> (\<exists>i. ?f row = [i] \<and> mi_lines i = [bl_id (fst row)] \<and> distinct (mi_externals i) \<and>
        set (mi_externals i) \<subseteq> Pair Expenses ` x_id ` X \<union> Pair VendorInvoices ` vb_id ` V)"
    proof (cases "?f row")
      case (Cons i rest)
      then have "i \<in> set (?f (l, xs, vs))" by (simp add: r)
      then show ?thesis
        by (rule debit_takeD) (use xt[of l xs vs] vt[of l xs vs] row r sole_in in fastforce)+
    qed simp
  next
    fix r s i j assume rs: "r \<in> set rows" "s \<in> set rows" "bl_id (fst r) \<noteq> bl_id (fst s)" "?f r = [i]" "?f s = [j]"
    obtain l xs vs k ys ws where e: "r = (l, xs, vs)" "s = (k, ys, ws)" by (cases r; cases s) auto
    have lk: "l \<noteq> k" using rs(3) e by auto
    have i: "i \<in> set (?f (l, xs, vs))" and j: "j \<in> set (?f (k, ys, ws))" using rs(4,5) e by simp_all
    have xr: "(l, xs) \<in> set xt" "(k, ys) \<in> set xt" and vr: "(l, vs) \<in> set vt" "(k, ws) \<in> set vt" using xt vt rs(1,2) e by blast+
    show "set (mi_externals i) \<inter> set (mi_externals j) = {}"
    proof (rule debit_takeD[OF i])
      fix x assume x: "sole x_id xt xs = Some x" "i = expense_match account l x"
      show ?thesis
        by (rule debit_takeD[OF j]) (use x sole_exclusive[OF x(1) _ xr subset_refl subset_refl lk] in auto)
    next
      fix v assume v: "sole vb_id vt vs = Some v" "i = bill_match account l v"
      show ?thesis
        by (rule debit_takeD[OF j]) (use v sole_exclusive[OF v(1) _ vr subset_refl subset_refl lk] in auto)
    qed
  qed
  then show ?thesis by (rule fits_mono) auto
qed


section \<open>The plan of a run\<close>

definition deposit_rows :: "payment list \<Rightarrow> bank_line list \<Rightarrow> (bank_line \<times> payment list) list" where
  "deposit_rows ps ls = map (\<lambda>l. (l, filter (\<lambda>p. by_hand p \<and> pays p l) ps)) ls"

definition rival_rows :: "payment list \<Rightarrow> bank_line list \<Rightarrow> (bank_line \<times> payment list) list" where
  "rival_rows ps ls = map (\<lambda>l. (l, filter (\<lambda>p. pays p l) ps)) ls"

definition sweep_pool :: "payment list \<Rightarrow> uuid list \<Rightarrow> payment list" where
  "sweep_pool ps used = filter (\<lambda>p. p_id p \<notin> set used \<and> payment_method p \<notin> set R3_EXCLUDED_METHODS) ps"

definition deposit_plan :: "uuid \<Rightarrow> signature list \<Rightarrow> payment list \<Rightarrow> bank_line list \<Rightarrow> bank_line list \<Rightarrow> match_input list" where
  "deposit_plan account sigs ps cs ls =
     r2_plan account sigs (rival_rows ps cs) (deposit_rows ps ls) @
     r3_plan account sigs (sweep_pool ps (r2_used account sigs (rival_rows ps cs) (deposit_rows ps ls))) []
       (r2_open account sigs (rival_rows ps cs) (deposit_rows ps ls))"

lemma suggest_deposits_plans:
  assumes ex: "\<forall>p \<in> set ps. exact_money (p_amount p)" and sub: "set ls \<subseteq> set cs"
  shows "\<exists>n. plans (suggest_deposits account sigs ps cs ls) n (deposit_plan account sigs ps cs ls)"
proof -
  let ?rows = "deposit_rows ps ls" let ?rivals = "rival_rows ps cs"
  have t: "pairs_of (r2_candidates ps) ls = Inr ?rows" "pairs_of (\<lambda>l. filterR (payment_hit l) ps) cs = Inr ?rivals"
    unfolding deposit_rows_def rival_rows_def using hits_run(1,2)[OF ex] by (auto intro: pairs_of_run)
  have "\<forall>row \<in> set ?rows. \<forall>x. snd row = [x] \<longrightarrow> degree p_id ?rivals x \<noteq> 0"
  proof (intro ballI allI impI)
    fix row x assume "row \<in> set ?rows" "snd row = [x]"
    then obtain l where l0: "l \<in> set ls" "filter (\<lambda>p. by_hand p \<and> pays p l) ps = [x]" by (auto simp: deposit_rows_def)
    have "x \<in> set (filter (\<lambda>p. by_hand p \<and> pays p l) ps)" unfolding l0(2) by simp
    then have l: "l \<in> set cs" "x \<in> set (filter (\<lambda>p. pays p l) ps)" using l0(1) sub by auto
    have "(l, filter (\<lambda>p. pays p l) ps) \<in> set ?rivals" using l(1) by (auto simp: rival_rows_def)
    then show "degree p_id ?rivals x \<noteq> 0" using l(2) by (rule degree_pos)
  qed
  note r2 = r2_deposits_plans[OF this, of account sigs]
  define used where "used = r2_used account sigs ?rivals ?rows"
  define left where "left = r2_open account sigs ?rivals ?rows"
  have "\<forall>p \<in> set (sweep_pool ps used). exact_money (p_amount p)" using ex by (simp add: sweep_pool_def)
  note r3 = r3_sweeps_plans[OF this, of account sigs "[]" left]
  define sw where "sw = concat (map mi_lines (r3_plan account sigs (sweep_pool ps used) [] left))"
  have "plans (suggest_deposits account sigs ps cs ls) (length used, length sw, length (filter (\<lambda>l. bl_id l \<notin> set sw) left))
      (r2_plan account sigs ?rivals ?rows @ r3_plan account sigs (sweep_pool ps used) [] left)"
    unfolding suggest_deposits_def
  proof (rule plans_pure(2)[OF t(1)], rule plans_pure(2)[OF t(2)], rule plans_andthen[OF r2])
    show "plans (case (r2_used account sigs ?rivals ?rows, r2_open account sigs ?rivals ?rows) of (used, still_open) \<Rightarrow>
        let pool = filter (\<lambda>p. p_id p \<notin> set used \<and> payment_method p \<notin> set R3_EXCLUDED_METHODS) ps in
        andthen (r3_sweeps account sigs pool [] still_open) (\<lambda>swept.
          ok (length used, length swept, length (filter (\<lambda>l. bl_id l \<notin> set swept) still_open))))
      (length used, length sw, length (filter (\<lambda>l. bl_id l \<notin> set sw) left)) (r3_plan account sigs (sweep_pool ps used) [] left)"
      unfolding prod.case Let_def used_def[symmetric] left_def[symmetric] sweep_pool_def[symmetric]
      by (rule plans_then[OF r3]) (simp add: sw_def)
  qed
  then show ?thesis unfolding deposit_plan_def used_def left_def by (rule exI)
qed

definition expense_rows_for :: "expense list \<Rightarrow> bank_line list \<Rightarrow> (bank_line \<times> expense list) list" where
  "expense_rows_for xs ls = map (\<lambda>l. (l, filter (\<lambda>x. spends x l) xs)) ls"

definition bill_rows_for :: "vendor_bill list \<Rightarrow> bank_line list \<Rightarrow> (bank_line \<times> vendor_bill list) list" where
  "bill_rows_for vs ls = map (\<lambda>l. (l, filter (\<lambda>v. vb_total v \<noteq> None \<and> bills v l) vs)) ls"

definition debit_rows :: "expense list \<Rightarrow> vendor_bill list \<Rightarrow> bank_line list \<Rightarrow> (bank_line \<times> expense list \<times> vendor_bill list) list" where
  "debit_rows xs vs ls = map (\<lambda>l. (l, filter (\<lambda>x. spends x l) xs, filter (\<lambda>v. vb_total v \<noteq> None \<and> bills v l) vs)) ls"

definition debit_plan :: "uuid \<Rightarrow> signature list \<Rightarrow> expense list \<Rightarrow> vendor_bill list \<Rightarrow> bank_line list \<Rightarrow> match_input list" where
  "debit_plan account sigs xs vs ls =
     concat (map (debit_take account sigs (expense_rows_for xs ls) (bill_rows_for vs ls)) (debit_rows xs vs ls))"

lemma suggest_debits_plans:
  assumes "\<forall>x \<in> set xs. exact_money (x_amount x)" "\<forall>v \<in> set vs. vb_total v \<noteq> None \<longrightarrow> exact_money (vb_total v)"
  shows "\<exists>n. plans (suggest_debits account sigs xs vs ls) n (debit_plan account sigs xs vs ls)"
proof -
  let ?xt = "expense_rows_for xs ls" let ?vt = "bill_rows_for vs ls"
  have t: "pairs_of (expense_hits xs) ls = Inr ?xt" "pairs_of (vendor_hits vs) ls = Inr ?vt"
    unfolding expense_rows_for_def bill_rows_for_def using hits_run(3)[OF assms(1)] hits_run(4)[OF assms(2)] by (auto intro: pairs_of_run)
  have z: "map2 (\<lambda>(l, xs) (_, vs). (l, xs, vs)) ?xt ?vt = debit_rows xs vs ls"
    by (simp add: expense_rows_for_def bill_rows_for_def debit_rows_def map2_map_map)
  have "\<forall>(l, as, bs) \<in> set (debit_rows xs vs ls). (\<forall>x. as = [x] \<longrightarrow> degree x_id ?xt x \<noteq> 0) \<and> (\<forall>v. bs = [v] \<longrightarrow> degree vb_id ?vt v \<noteq> 0)"
  proof (clarify, intro conjI allI impI)
    fix l as bs assume row: "(l, as, bs) \<in> set (debit_rows xs vs ls)"
    then have "(l, as) \<in> set ?xt" "(l, bs) \<in> set ?vt" by (auto simp: debit_rows_def expense_rows_for_def bill_rows_for_def)
    then show "as = [x] \<Longrightarrow> degree x_id ?xt x \<noteq> 0" "bs = [v] \<Longrightarrow> degree vb_id ?vt v \<noteq> 0" for x v
      using degree_pos[of l as ?xt x x_id] degree_pos[of l bs ?vt v vb_id] by simp_all
  qed
  then obtain n where n: "plans (r2_debits account sigs ?xt ?vt (debit_rows xs vs ls)) n (debit_plan account sigs xs vs ls)"
    using r2_debits_plans unfolding debit_plan_def by blast
  have "plans (suggest_debits account sigs xs vs ls) n (debit_plan account sigs xs vs ls)"
    unfolding suggest_debits_def by (rule plans_pure(2)[OF t(1)], rule plans_pure(2)[OF t(2)]) (simp only: z n)
  then show ?thesis by (rule exI)
qed


section \<open>The run\<close>

definition rows_ok :: "bank_db \<Rightarrow> bool" where
  "rows_ok db \<longleftrightarrow> distinct (map bl_id (bd_lines db)) \<and> distinct (map p_id (db_payments (bd_gl db))) \<and>
     distinct (map x_id (db_expenses (bd_gl db))) \<and> distinct (map vb_id (bd_bills db)) \<and>
     (\<forall>p \<in> set (db_payments (bd_gl db)). exact_money (p_amount p)) \<and> (\<forall>x \<in> set (db_expenses (bd_gl db)). exact_money (x_amount x)) \<and>
     (\<forall>v \<in> set (bd_bills db). vb_total v \<noteq> None \<longrightarrow> exact_money (vb_total v))"

definition range_ok :: "date \<Rightarrow> date \<Rightarrow> bool" where
  "range_ok lo hi \<longleftrightarrow> valid_date lo \<and> valid_date hi \<and> R3_WINDOW_BACK_DAYS < ordinal lo"

lemma padded: "range_ok lo hi \<Longrightarrow> in_range lo hi d \<Longrightarrow> in_range (add_days lo (- R3_WINDOW_BACK_DAYS)) (add_days hi R3_WINDOW_BACK_DAYS) d"
proof -
  assume r: "range_ok lo hi" and d: "in_range lo hi d"
  have a: "valid_date (add_days lo (-7))" "ordinal (add_days lo (-7)) = ordinal lo - 7"
    using add_days_valid[of lo "-7"] r by (simp_all add: range_ok_def R3_WINDOW_BACK_DAYS_def)
  have b: "valid_date (add_days hi 7)" "ordinal (add_days hi 7) = ordinal hi + 7"
    using add_days_valid[of hi 7] ordinal_pos[of hi] r by (simp_all add: range_ok_def)
  have "add_days lo (-7) \<le> lo" "hi \<le> add_days hi 7"
    using ordinal_le_iff[OF a(1), of lo] ordinal_le_iff[OF _ b(1), of hi] a(2) b(2) r by (simp_all add: range_ok_def)
  then show ?thesis using d by (auto simp: in_range_def R3_WINDOW_BACK_DAYS_def)
qed

definition open_rest :: "bank_db \<Rightarrow> uuid \<Rightarrow> date \<Rightarrow> date \<Rightarrow> line_section list \<Rightarrow> bank_line list" where
  "open_rest db account lo hi secs = filter (\<lambda>l. bl_section l \<in> set secs) (filter (\<lambda>l. classification_of l = None) (open_lines db account lo hi))"

definition ladder_plan :: "bank_db \<Rightarrow> uuid \<Rightarrow> date \<Rightarrow> date \<Rightarrow> match_input list" where
  "ladder_plan db account lo hi =
     (let sigs = rejected_signatures db account;
          wlo = add_days lo (- R3_WINDOW_BACK_DAYS); whi = add_days hi R3_WINDOW_BACK_DAYS
      in class_plan account sigs (open_lines db account lo hi) @
         deposit_plan account sigs (window_payments db wlo whi) (competitor_deposits db wlo whi) (open_rest db account lo hi [SECTION_DEPOSIT]) @
         debit_plan account sigs (window_expenses db wlo whi) (open_bills db) (open_rest db account lo hi [SECTION_DEBIT, SECTION_CHECK]))"

lemma open_lines_props:
  assumes "rows_ok db"
  shows "distinct (map bl_id (open_lines db account lo hi))" "set (map bl_id (open_lines db account lo hi)) \<inter> set (matched_line_ids db) = {}"
    "l \<in> set (open_lines db account lo hi) \<Longrightarrow> l \<in> set (bd_lines db) \<and> bl_account l = account \<and> in_range lo hi (bl_date l)"
proof -
  show "distinct (map bl_id (open_lines db account lo hi))"
    using assms by (auto simp: rows_ok_def open_lines_def range_lines_def distinct_map inj_on_def)
  show "set (map bl_id (open_lines db account lo hi)) \<inter> set (matched_line_ids db) = {}"
    by (auto simp: open_lines_def)
  show "l \<in> set (open_lines db account lo hi) \<Longrightarrow> l \<in> set (bd_lines db) \<and> bl_account l = account \<and> in_range lo hi (bl_date l)"
    by (auto simp: open_lines_def range_lines_def)
qed

lemma deposits_compete:
  assumes "rows_ok db" "range_ok lo hi"
  shows "set (open_rest db account lo hi [SECTION_DEPOSIT]) \<subseteq> set (competitor_deposits db (add_days lo (- R3_WINDOW_BACK_DAYS)) (add_days hi R3_WINDOW_BACK_DAYS))"
proof
  fix l assume "l \<in> set (open_rest db account lo hi [SECTION_DEPOSIT])"
  then have l: "l \<in> set (open_lines db account lo hi)" "classification_of l = None" "bl_section l = SECTION_DEPOSIT" by (simp_all add: open_rest_def)
  have "\<not> is_transfer l" using l(2) by (simp add: classification_of_def split: if_splits)
  moreover have "bl_id l \<notin> set (matched_line_ids db)" using l(1) by (simp add: open_lines_def)
  ultimately show "l \<in> set (competitor_deposits db (add_days lo (- R3_WINDOW_BACK_DAYS)) (add_days hi R3_WINDOW_BACK_DAYS))"
    using open_lines_props(3)[OF assms(1) l(1)] l(3) padded[OF assms(2)] by (simp add: competitor_deposits_def)
qed

lemma ladder_plans:
  assumes "rows_ok db" "range_ok lo hi" "exclusive (add_all (ladder_plan db account lo hi) db)"
  shows "\<exists>stats. suggest_ladder account lo hi db = (Inr stats, add_all (ladder_plan db account lo hi) db)"
proof -
  define sigs where "sigs = rejected_signatures db account"
  define wlo where "wlo = add_days lo (- R3_WINDOW_BACK_DAYS)"
  define whi where "whi = add_days hi R3_WINDOW_BACK_DAYS"
  define ls where "ls = open_lines db account lo hi"
  define dep where "dep = open_rest db account lo hi [SECTION_DEPOSIT]"
  define deb where "deb = open_rest db account lo hi [SECTION_DEBIT, SECTION_CHECK]"
  have "\<forall>p \<in> set (window_payments db wlo whi). exact_money (p_amount p)" using assms(1) by (simp add: rows_ok_def window_payments_def)
  moreover have "set dep \<subseteq> set (competitor_deposits db wlo whi)" unfolding dep_def wlo_def whi_def by (rule deposits_compete[OF assms(1,2)])
  ultimately obtain a where a: "plans (suggest_deposits account sigs (window_payments db wlo whi) (competitor_deposits db wlo whi) dep) a
      (deposit_plan account sigs (window_payments db wlo whi) (competitor_deposits db wlo whi) dep)"
    using suggest_deposits_plans by blast
  have "\<forall>x \<in> set (window_expenses db wlo whi). exact_money (x_amount x)" "\<forall>v \<in> set (open_bills db). vb_total v \<noteq> None \<longrightarrow> exact_money (vb_total v)"
    using assms(1) by (simp_all add: rows_ok_def window_expenses_def open_bills_def)
  then obtain b where b: "plans (suggest_debits account sigs (window_expenses db wlo whi) (open_bills db) deb) b
      (debit_plan account sigs (window_expenses db wlo whi) (open_bills db) deb)"
    using suggest_debits_plans by blast
  obtain a1 a2 a3 b1 b2 b3 where ab: "a = (a1, a2, a3)" "b = (b1, b2, b3)" by (cases a; cases b) auto
  let ?st = "\<lparr>ms_classified = length (class_plan account sigs ls), ms_r2_payments = a1, ms_r3_sweeps = a2, ms_r2_expenses = b1,
      ms_r2_vendor_invoices = b2, ms_unmatched = b3 + a3\<rparr>"
  have "plans (andthen (classify account sigs ls) (\<lambda>classified.
        andthen (suggest_deposits account sigs (window_payments db wlo whi) (competitor_deposits db wlo whi) dep) (\<lambda>(r2, r3, dep).
        andthen (suggest_debits account sigs (window_expenses db wlo whi) (open_bills db) deb) (\<lambda>(spent, billed, deb).
        ok \<lparr>ms_classified = classified, ms_r2_payments = r2, ms_r3_sweeps = r3, ms_r2_expenses = spent,
            ms_r2_vendor_invoices = billed, ms_unmatched = deb + dep\<rparr>)))) ?st (ladder_plan db account lo hi)"
  proof -
    have "plans (andthen (suggest_debits account sigs (window_expenses db wlo whi) (open_bills db) deb) (\<lambda>(spent, billed, deb).
        ok \<lparr>ms_classified = length (class_plan account sigs ls), ms_r2_payments = a1, ms_r3_sweeps = a2, ms_r2_expenses = spent,
            ms_r2_vendor_invoices = billed, ms_unmatched = deb + a3\<rparr>)) ?st (debit_plan account sigs (window_expenses db wlo whi) (open_bills db) deb)"
      by (rule plans_then[OF b]) (simp add: ab)
    then show ?thesis
      unfolding ladder_plan_def Let_def sigs_def[symmetric] wlo_def[symmetric] whi_def[symmetric] ls_def[symmetric] dep_def[symmetric] deb_def[symmetric]
      by (intro plans_andthen[OF classify_plans] plans_andthen[OF a]) (simp add: ab)
  qed
  moreover have "suggest_ladder account lo hi db = andthen (classify account sigs ls) (\<lambda>classified.
        andthen (suggest_deposits account sigs (window_payments db wlo whi) (competitor_deposits db wlo whi) dep) (\<lambda>(r2, r3, dep).
        andthen (suggest_debits account sigs (window_expenses db wlo whi) (open_bills db) deb) (\<lambda>(spent, billed, deb).
        ok \<lparr>ms_classified = classified, ms_r2_payments = r2, ms_r3_sweeps = r3, ms_r2_expenses = spent,
            ms_r2_vendor_invoices = billed, ms_unmatched = deb + dep\<rparr>))) db"
    unfolding suggest_ladder_def Let_def sigs_def ls_def wlo_def whi_def dep_def deb_def open_rest_def by simp
  ultimately show ?thesis using assms(3) unfolding plans_def by auto
qed


lemma deposit_plan_fits:
  assumes dl: "distinct (map bl_id ls)" and dp: "distinct (map p_id ps)" and sub: "set ls \<subseteq> set cs"
  shows "fits (deposit_plan account sigs ps cs ls) (bl_id ` set ls) (Pair Payments ` p_id ` set ps)"
proof -
  let ?rows = "deposit_rows ps ls" let ?rivals = "rival_rows ps cs"
  define used where "used = r2_used account sigs ?rivals ?rows"
  define left where "left = r2_open account sigs ?rivals ?rows"
  have rows: "map (\<lambda>row. bl_id (fst row)) ?rows = map bl_id ls" "map fst ?rows = ls" by (simp_all add: deposit_rows_def comp_def)
  have dr: "distinct (map (\<lambda>row. bl_id (fst row)) ?rows)" unfolding rows by (rule dl)
  have inj: "r = s" if "r \<in> set ?rows" "s \<in> set ?rows" "bl_id (fst r) = bl_id (fst s)" for r s
    using that dr by (auto simp: distinct_map dest: inj_onD)
  have used: "set used \<subseteq> p_id ` set ps"
  proof -
    have "p \<in> set ps" if "row \<in> set ?rows" "r2_take account sigs ?rivals row = Some p" for row p
      using sole_in[OF r2_takeD(1)[OF that(2)]] that(1) by (auto simp: deposit_rows_def filter_eq_Cons_iff)
    then show ?thesis unfolding used_def r2_used_def set_map_filter_Some by auto
  qed
  have a: "fits (r2_plan account sigs ?rivals ?rows) ((\<lambda>row. bl_id (fst row)) ` {row \<in> set ?rows. r2_take account sigs ?rivals row \<noteq> None}) (Pair Payments ` set used)"
    unfolding used_def
  proof (rule r2_plan_fits[OF dr])
    fix l xs assume "(l, xs) \<in> set ?rows"
    then have "l \<in> set cs" "set xs \<subseteq> set (filter (\<lambda>p. pays p l) ps)" using sub by (auto simp: deposit_rows_def)
    then show "\<exists>xs'. (l, xs') \<in> set ?rivals \<and> set xs \<subseteq> set xs'"
      by (intro exI[of _ "filter (\<lambda>p. pays p l) ps"]) (auto simp: rival_rows_def)
  qed
  have leftset: "set left = fst ` {row \<in> set ?rows. r2_take account sigs ?rivals row = None}" by (simp add: left_def r2_open_def)
  have "distinct (map bl_id left)"
    using dr by (auto simp: left_def r2_open_def distinct_map inj_on_def comp_def)
  moreover have "distinct (map p_id (sweep_pool ps used))" using dp by (auto simp: sweep_pool_def distinct_map inj_on_def)
  ultimately have b: "fits (r3_plan account sigs (sweep_pool ps used) [] left) (bl_id ` set left) (Pair Payments ` (p_id ` set (sweep_pool ps used) - set []))"
    by (intro r3_plan_fits)
  have "fits (r2_plan account sigs ?rivals ?rows @ r3_plan account sigs (sweep_pool ps used) [] left)
      ((\<lambda>row. bl_id (fst row)) ` {row \<in> set ?rows. r2_take account sigs ?rivals row \<noteq> None} \<union> bl_id ` set left)
      (Pair Payments ` set used \<union> Pair Payments ` (p_id ` set (sweep_pool ps used) - set []))"
  proof (rule fits_append[OF a b])
    show "(\<lambda>row. bl_id (fst row)) ` {row \<in> set ?rows. r2_take account sigs ?rivals row \<noteq> None} \<inter> bl_id ` set left = {}"
    proof -
      have no: "bl_id (fst r) \<noteq> bl_id (fst q)"
        if "r \<in> set ?rows" "r2_take account sigs ?rivals r \<noteq> None" "q \<in> set ?rows" "r2_take account sigs ?rivals q = None" for r q
        using inj[OF that(1,3)] that(2,4) by metis
      show ?thesis unfolding leftset image_image by (rule equals0I) (use no in blast)
    qed
    show "Pair Payments ` set used \<inter> Pair Payments ` (p_id ` set (sweep_pool ps used) - set []) = {}"
      by (auto simp: sweep_pool_def)
  qed
  moreover have "(\<lambda>row. bl_id (fst row)) ` {row \<in> set ?rows. r2_take account sigs ?rivals row \<noteq> None} \<union> bl_id ` set left \<subseteq> bl_id ` set ls"
    unfolding leftset using arg_cong[OF rows(2), of set] by auto
  moreover have "Pair Payments ` set used \<union> Pair Payments ` (p_id ` set (sweep_pool ps used) - set []) \<subseteq> Pair Payments ` p_id ` set ps"
    using used by (auto simp: sweep_pool_def)
  ultimately show ?thesis unfolding deposit_plan_def used_def[symmetric] left_def[symmetric] by (rule fits_mono)
qed

lemma debit_plan_fits_rows:
  assumes "distinct (map bl_id ls)"
  shows "fits (debit_plan account sigs xs vs ls) (bl_id ` set ls) (Pair Expenses ` x_id ` set xs \<union> Pair VendorInvoices ` vb_id ` set vs)"
proof -
  have "fits (debit_plan account sigs xs vs ls) ((\<lambda>row. bl_id (fst row)) ` set (debit_rows xs vs ls)) (Pair Expenses ` x_id ` set xs \<union> Pair VendorInvoices ` vb_id ` set vs)"
    unfolding debit_plan_def
    by (rule debit_plan_fits) (use assms in \<open>auto simp: debit_rows_def expense_rows_for_def bill_rows_for_def comp_def\<close>)
  then show ?thesis by (simp add: debit_rows_def image_image)
qed

lemma ladder_exclusive:
  assumes ok: "rows_ok db" and r: "range_ok lo hi" and ex: "exclusive db"
  shows "exclusive (add_all (ladder_plan db account lo hi) db)"
proof -
  define ls where "ls = open_lines db account lo hi"
  define dep where "dep = open_rest db account lo hi [SECTION_DEPOSIT]"
  define deb where "deb = open_rest db account lo hi [SECTION_DEBIT, SECTION_CHECK]"
  define sigs where "sigs = rejected_signatures db account"
  define wlo where "wlo = add_days lo (- R3_WINDOW_BACK_DAYS)"
  define whi where "whi = add_days hi R3_WINDOW_BACK_DAYS"
  have dl: "distinct (map bl_id ls)" unfolding ls_def by (rule open_lines_props(1)[OF ok])
  have sub: "set dep \<subseteq> {l \<in> set ls. classification_of l = None \<and> bl_section l = SECTION_DEPOSIT}"
    "set deb \<subseteq> {l \<in> set ls. classification_of l = None \<and> (bl_section l = SECTION_DEBIT \<or> bl_section l = SECTION_CHECK)}"
    by (auto simp: dep_def deb_def open_rest_def ls_def)
  have dd: "distinct (map bl_id dep)" "distinct (map bl_id deb)"
    using dl by (auto simp: dep_def deb_def open_rest_def ls_def distinct_map inj_on_def)
  have inj: "inj_on bl_id (set ls)" using dl by (simp add: distinct_map)
  have c: "fits (class_plan account sigs ls) (bl_id ` {l \<in> set ls. classification_of l \<noteq> None}) {}" by (rule class_plan_fits[OF dl])
  have d: "fits (deposit_plan account sigs (window_payments db wlo whi) (competitor_deposits db wlo whi) dep) (bl_id ` set dep) (Pair Payments ` p_id ` set (window_payments db wlo whi))"
  proof (rule deposit_plan_fits[OF dd(1)])
    show "distinct (map p_id (window_payments db wlo whi))" using ok by (auto simp: rows_ok_def window_payments_def distinct_map inj_on_def)
    show "set dep \<subseteq> set (competitor_deposits db wlo whi)" unfolding dep_def wlo_def whi_def by (rule deposits_compete[OF ok r])
  qed
  have e: "fits (debit_plan account sigs (window_expenses db wlo whi) (open_bills db) deb) (bl_id ` set deb)
      (Pair Expenses ` x_id ` set (window_expenses db wlo whi) \<union> Pair VendorInvoices ` vb_id ` set (open_bills db))"
    by (rule debit_plan_fits_rows[OF dd(2)])
  have disj: "bl_id ` set dep \<inter> bl_id ` set deb = {}" "bl_id ` {l \<in> set ls. classification_of l \<noteq> None} \<inter> (bl_id ` set dep \<union> bl_id ` set deb) = {}"
  proof -
    have im: "bl_id ` A \<inter> bl_id ` B = {}" if "A \<subseteq> set ls" "B \<subseteq> set ls" "A \<inter> B = {}" for A B
      using inj_on_image_Int[OF inj that(1,2)] that(3) by simp
    have "False" if "x \<in> set dep" "x \<in> set deb" for x
    proof -
      have "bl_section x = SECTION_DEPOSIT" "bl_section x = SECTION_DEBIT \<or> bl_section x = SECTION_CHECK" using sub that by blast+
      then show False by auto
    qed
    then show "bl_id ` set dep \<inter> bl_id ` set deb = {}" by (intro im) (use sub in auto)
    show "bl_id ` {l \<in> set ls. classification_of l \<noteq> None} \<inter> (bl_id ` set dep \<union> bl_id ` set deb) = {}"
      unfolding image_Un[symmetric] by (rule im) (use sub in auto)
  qed
  have de: "fits (deposit_plan account sigs (window_payments db wlo whi) (competitor_deposits db wlo whi) dep @
        debit_plan account sigs (window_expenses db wlo whi) (open_bills db) deb) (bl_id ` set dep \<union> bl_id ` set deb)
      (Pair Payments ` p_id ` set (window_payments db wlo whi) \<union>
       (Pair Expenses ` x_id ` set (window_expenses db wlo whi) \<union> Pair VendorInvoices ` vb_id ` set (open_bills db)))"
    by (rule fits_append[OF d e disj(1)]) auto
  have "fits (ladder_plan db account lo hi) (bl_id ` {l \<in> set ls. classification_of l \<noteq> None} \<union> (bl_id ` set dep \<union> bl_id ` set deb))
      ({} \<union> (Pair Payments ` p_id ` set (window_payments db wlo whi) \<union>
       (Pair Expenses ` x_id ` set (window_expenses db wlo whi) \<union> Pair VendorInvoices ` vb_id ` set (open_bills db))))"
    unfolding ladder_plan_def Let_def sigs_def[symmetric] wlo_def[symmetric] whi_def[symmetric] ls_def[symmetric] dep_def[symmetric] deb_def[symmetric]
    by (rule fits_append[OF c de disj(2)]) simp
  moreover have "bl_id ` {l \<in> set ls. classification_of l \<noteq> None} \<union> (bl_id ` set dep \<union> bl_id ` set deb) \<subseteq> - set (matched_line_ids db)"
    using sub open_lines_props(2)[OF ok, of account lo hi] unfolding ls_def by auto
  moreover have "{} \<union> (Pair Payments ` p_id ` set (window_payments db wlo whi) \<union>
       (Pair Expenses ` x_id ` set (window_expenses db wlo whi) \<union> Pair VendorInvoices ` vb_id ` set (open_bills db))) \<subseteq> - set (used_externals db)"
    by (auto simp: window_payments_def window_expenses_def open_bills_def)
  ultimately have "fits (ladder_plan db account lo hi) (- set (matched_line_ids db)) (- set (used_externals db))" by (rule fits_mono)
  then show ?thesis using ex unfolding exclusive_def add_all_ids distinct_append fits_def by blast
qed

end
