(* ===== verification/Match_Lifecycle.thy ===== *)
theory Match_Lifecycle
  imports Match_Rules
begin

text \<open>
  The life of a match in \<^verbatim>\<open>statement_matching.py\<close> and the three routes over it: confirming records a bill payment when the match is
  one bill paid by debits, unconfirming undoes exactly that, a manual match is born confirmed, and the reports show what is unsettled
  or settled by a record that has since died.
\<close>

section \<open>Live and dead books records\<close>

definition get_payment :: "bank_db \<Rightarrow> uuid \<Rightarrow> payment option" where
  "get_payment db u = first (filter (\<lambda>p. p_id p = u) (db_payments (bd_gl db)))"

definition dead_source_reason :: "bank_db \<Rightarrow> books_record \<Rightarrow> string option" where
  "dead_source_reason db r =
     (case r of
        (Payments, u) \<Rightarrow>
          (case get_payment db u of
             None \<Rightarrow> Some ''payment record missing''
           | Some p \<Rightarrow> if p_voided_at p \<noteq> None then Some ''payment voided'' else None)
      | (Expenses, u) \<Rightarrow>
          (case get_expense db u of
             None \<Rightarrow> Some ''expense record missing''
           | Some x \<Rightarrow> if x_deleted_at x \<noteq> None then Some ''expense deleted'' else None)
      | (VendorInvoices, u) \<Rightarrow>
          (case get_bill db u of
             None \<Rightarrow> Some ''vendor invoice record missing''
           | Some b \<Rightarrow> if vb_status b = STATUS_VOID then Some ''vendor invoice voided'' else None))"

section \<open>The match row and its children\<close>

definition edit_match :: "uuid \<Rightarrow> (bank_match \<Rightarrow> bank_match) \<Rightarrow> bank_db \<Rightarrow> bank_db" where
  "edit_match u f db = db\<lparr>bd_matches := map (\<lambda>m. if bm_id m = u then f m else m) (bd_matches db)\<rparr>"

definition sync_children :: "uuid \<Rightarrow> match_status \<Rightarrow> bank_db \<Rightarrow> bank_db" where
  "sync_children u st db =
     db\<lparr>bd_match_lines := map (\<lambda>l. if ml_match l = u then l\<lparr>ml_status := st\<rparr> else l) (bd_match_lines db),
        bd_match_externals := map (\<lambda>x. if mx_match x = u then x\<lparr>mx_status := st\<rparr> else x) (bd_match_externals db)\<rparr>"

definition strip_bar :: "string \<Rightarrow> string" where
  "strip_bar s = (let b = (\<lambda>c. c = CHR '' '' \<or> c = CHR ''|'') in rev (dropWhile b (rev (dropWhile b s))))"

definition append_note :: "string \<Rightarrow> bank_match \<Rightarrow> bank_match" where
  "append_note t m = m\<lparr>bm_note := Some (case bm_note m of Some (c # cs) \<Rightarrow> strip_bar ((c # cs) @ '' | '' @ t) | _ \<Rightarrow> t)\<rparr>"

section \<open>What a confirmation does\<close>

datatype confirm_effect = NothingRecorded | AlreadyRecorded | PaymentRecorded uuid

text \<open>\<^verbatim>\<open>Decimal(n) / 100\<close>: the quotient is exact and keeps no zeros after the point.\<close>

definition div100 :: "int \<Rightarrow> decimal" where
  "div100 n = (if n mod 100 = 0 then Fin (n div 100) 0 else if n mod 10 = 0 then Fin (n div 10) (-1) else Fin n (-2))"

definition PAYMENT_REFUSAL_MESSAGES :: "(string \<times> string) list" where
  "PAYMENT_REFUSAL_MESSAGES =
     [(''invalid_source'', ''invalid payment source''),
      (''bill_void'', ''bill is void '' @ EM_DASH @ '' reopen it before recording payments''),
      (''amount_not_positive'', ''payment amount must be positive''),
      (''over_open_balance'', ''payment exceeds the bill'' @ [CHR 0x27] @ ''s open balance '' @ EM_DASH @ '' void the wrong record first if reality disagrees''),
      (''match_void_ceremony'', ''this payment was recorded by a confirmed bank match '' @ EM_DASH @
         '' unconfirm the match instead of voiding the payment'')]"

definition payment_refusal_message :: "string \<Rightarrow> string" where
  "payment_refusal_message code = (case map_of PAYMENT_REFUSAL_MESSAGES code of Some t \<Rightarrow> t | None \<Rightarrow> ''invalid payment operation'')"

definition NOTE_MULTI :: string where
  "NOTE_MULTI = ''no payment auto-recorded: multi-record match has no allocation rule '' @ EM_DASH @ '' record bill payments manually''"

definition NOTE_NOT_DEBIT :: string where
  "NOTE_NOT_DEBIT = ''no payment auto-recorded: non-debit lines in the match (a deposit against a bill is a refund, not a payment)''"

definition NOTE_MODIFIED :: string where
  "NOTE_MODIFIED = ''created expense was modified after creation '' @ EM_DASH @ '' detached, not deleted''"

definition noted :: "uuid \<Rightarrow> string \<Rightarrow> 'a \<Rightarrow> 'a bank" where
  "noted u t x = andthen (change (edit_match u (append_note t))) (\<lambda>_. ok x)"

definition match_lines :: "bank_db \<Rightarrow> uuid \<Rightarrow> bank_line list" where
  "match_lines db u = List.map_filter (get_line db) (lines_of db u)"

definition live_match_payments :: "bank_db \<Rightarrow> uuid \<Rightarrow> bill_payment list" where
  "live_match_payments db u = filter (\<lambda>p. bp_match p = Some u \<and> bp_voided_at p = None) (bd_bill_payments db)"

definition is_debit :: "bank_line \<Rightarrow> bool" where
  "is_debit l \<longleftrightarrow> bl_section l = SECTION_DEBIT \<or> bl_section l = SECTION_CHECK"

definition match_payment :: "bank_match \<Rightarrow> bank_line list \<Rightarrow> string option \<Rightarrow> payment_input" where
  "match_payment m ls user =
     \<lparr>pi_amount = div100 (sum_list (map (\<lambda>l. \<bar>bl_amount l\<bar>) ls)), pi_date = Some (fold min (map bl_date (tl ls)) (bl_date (hd ls))),
      pi_source = PAY_SOURCE_STATEMENT_MATCH, pi_reference = Some (''bank match '' @ bm_rule m), pi_match = Some (bm_id m),
      pi_statement = None, pi_created_by = user\<rparr>"

fun payment_refusal :: "bank_exn \<Rightarrow> string option" where
  "payment_refusal (PaymentError code) = Some code"
| "payment_refusal _ = None"

definition pay_bill :: "gl_env \<Rightarrow> bank_match \<Rightarrow> string option \<Rightarrow> uuid \<Rightarrow> confirm_effect bank" where
  "pay_bill env m user bill =
     andthen (asks (\<lambda>db. match_lines db (bm_id m))) (\<lambda>ls.
     if ls = [] then ok NothingRecorded
     else if \<not> list_all is_debit ls then noted (bm_id m) NOTE_NOT_DEBIT NothingRecorded
     else andthen (asks (\<lambda>db. get_bill db bill)) (\<lambda>found.
       case found of
         None \<Rightarrow> ok NothingRecorded
       | Some b \<Rightarrow>
           catch (andthen (record_payment env (vb_id b) (match_payment m ls user)) (\<lambda>p. ok (PaymentRecorded (bp_id p)))) (\<lambda>e.
             case payment_refusal e of
               None \<Rightarrow> throw e
             | Some code \<Rightarrow> noted (bm_id m) (''no payment auto-recorded: '' @ payment_refusal_message code) NothingRecorded)))"

definition apply_confirm_effects :: "gl_env \<Rightarrow> bank_match \<Rightarrow> string option \<Rightarrow> confirm_effect bank" where
  "apply_confirm_effects env m user =
     andthen (asks (\<lambda>db. externals_of db (bm_id m))) (\<lambda>externals.
     case filter (\<lambda>r. fst r = VendorInvoices) externals of
       [] \<Rightarrow> ok NothingRecorded
     | bill # _ \<Rightarrow>
         if 1 < length externals then noted (bm_id m) NOTE_MULTI NothingRecorded
         else andthen (asks (\<lambda>db. live_match_payments db (bm_id m))) (\<lambda>existing.
           if existing \<noteq> [] then ok AlreadyRecorded else pay_bill env m user (snd bill)))"

section \<open>What taking it back does\<close>

record revert_effect =
  re_payments_voided :: nat
  re_expense_deleted :: bool
  re_expense_detached :: bool

definition detached_reference :: "uuid \<Rightarrow> string option \<Rightarrow> string" where
  "detached_reference u ref = take 200 (strip (or_str ref [] @ '' [unconfirmed from match '' @ uuid_str u @ '']''))"

definition detach_payment :: "uuid \<Rightarrow> uuid \<Rightarrow> bank_db \<Rightarrow> bank_db" where
  "detach_payment u p db =
     db\<lparr>bd_bill_payments := map (\<lambda>q. if bp_id q = p
          then q\<lparr>bp_reference := Some (detached_reference u (bp_reference q)), bp_match := None\<rparr> else q) (bd_bill_payments db)\<rparr>"

definition withdraw_payment :: "gl_env \<Rightarrow> uuid \<Rightarrow> string option \<Rightarrow> bill_payment \<Rightarrow> unit bank" where
  "withdraw_payment env u user p = andthen (void_payment env user True p) (\<lambda>_. change (detach_payment u (bp_id p)))"

text \<open>Two timestamps less than two seconds apart.\<close>

definition micros_of :: "datetime \<Rightarrow> int" where
  "micros_of t = ordinal (dt_date t) * 86400000000 + int (dt_micros t)"

definition unmodified :: "bank_db \<Rightarrow> expense \<Rightarrow> exn + bool" where
  "unmodified db x =
     (case (first (filter (\<lambda>m. xm_expense m = x_id x) (bd_expense_meta db)), x_created_at x) of
        (Some m, Some created) \<Rightarrow>
          Inr (\<bar>micros_of (xm_updated_at m) - micros_of created\<bar> < 2000000 \<and> or_str (xm_status m) ''draft'' = ''draft'')
      | _ \<Rightarrow> Inl TypeError)"

definition withdraw_expense :: "gl_env \<Rightarrow> uuid \<Rightarrow> uuid \<Rightarrow> (bool \<times> bool) bank" where
  "withdraw_expense env u xid =
     andthen (asks (\<lambda>db. get_expense db xid)) (\<lambda>found.
     case found of
       None \<Rightarrow> ok (False, False)
     | Some x \<Rightarrow>
         if x_deleted_at x \<noteq> None then ok (False, False)
         else andthen (computed (\<lambda>db. unmodified db x)) (\<lambda>same.
           if same then
             andthen (change (edit_expense env xid (\<lambda>y. y\<lparr>x_deleted_at := Some (now_utc env)\<rparr>))) (\<lambda>_.
             andthen (ledger (repost_expense env (x\<lparr>x_deleted_at := Some (now_utc env)\<rparr>) None)) (\<lambda>_. ok (True, False)))
           else noted u NOTE_MODIFIED (False, True)))"

definition revert_confirm_effects :: "gl_env \<Rightarrow> bank_match \<Rightarrow> string option \<Rightarrow> revert_effect bank" where
  "revert_confirm_effects env m user =
     andthen (asks (\<lambda>db. live_match_payments db (bm_id m))) (\<lambda>ps.
     andthen (for_each (withdraw_payment env (bm_id m) user) ps) (\<lambda>_.
     andthen (case bm_created_expense m of
                None \<Rightarrow> ok (False, False)
              | Some xid \<Rightarrow>
                  andthen (withdraw_expense env (bm_id m) xid) (\<lambda>r.
                  andthen (change (edit_match (bm_id m) (\<lambda>b. b\<lparr>bm_created_expense := None\<rparr>))) (\<lambda>_. ok r))) (\<lambda>(gone, detached).
     ok \<lparr>re_payments_voided = length ps, re_expense_deleted = gone, re_expense_detached = detached\<rparr>)))"

section \<open>Transitions\<close>

datatype effects = NoEffects | Confirmed confirm_effect | Reverted revert_effect

definition match_status_of :: "string \<Rightarrow> match_status option" where
  "match_status_of s =
     (if s = ''suggested'' then Some MATCH_SUGGESTED else if s = ''confirmed'' then Some MATCH_CONFIRMED
      else if s = ''rejected'' then Some MATCH_REJECTED else None)"

definition stamp :: "gl_env \<Rightarrow> match_status \<Rightarrow> string option \<Rightarrow> bank_match \<Rightarrow> bank_match" where
  "stamp env st user m =
     (if st = MATCH_CONFIRMED then m\<lparr>bm_status := st, bm_confirmed_by := user, bm_confirmed_at := Some (now_utc env)\<rparr>
      else m\<lparr>bm_status := st, bm_confirmed_by := None, bm_confirmed_at := None\<rparr>)"

definition set_match_status :: "gl_env \<Rightarrow> bank_match \<Rightarrow> string \<Rightarrow> string option \<Rightarrow> effects bank" where
  "set_match_status env m status user =
     (case match_status_of status of
        None \<Rightarrow> throw (MatchError ''invalid_status'')
      | Some st \<Rightarrow>
          andthen (asks (\<lambda>db. st = MATCH_CONFIRMED \<and> bm_status m \<noteq> MATCH_CONFIRMED \<and>
            list_ex (\<lambda>r. dead_source_reason db r \<noteq> None) (externals_of db (bm_id m)))) (\<lambda>dead.
          if dead then throw (MatchError ''dead_external_confirm'')
          else
            andthen (change (edit_match (bm_id m) (stamp env st user))) (\<lambda>_.
            andthen (if st = MATCH_CONFIRMED \<and> bm_status m \<noteq> MATCH_CONFIRMED
                     then andthen (apply_confirm_effects env m user) (\<lambda>e. ok (Confirmed e))
                     else if st \<noteq> MATCH_CONFIRMED \<and> bm_status m = MATCH_CONFIRMED
                     then andthen (revert_confirm_effects env m user) (\<lambda>e. ok (Reverted e))
                     else ok NoEffects) (\<lambda>eff.
            andthen (change (sync_children (bm_id m) st)) (\<lambda>_.
            andthen flush_matches (\<lambda>_. ok eff))))))"

text \<open>The routes: what a match may become is decided by what it is.\<close>

datatype route_answer = NotFound | Conflict | AlreadyConfirmed | Done effects

definition with_match :: "uuid \<Rightarrow> (bank_match \<Rightarrow> route_answer bank) \<Rightarrow> route_answer bank" where
  "with_match u f = andthen (asks (\<lambda>db. get_match db u)) (\<lambda>found. case found of None \<Rightarrow> ok NotFound | Some m \<Rightarrow> f m)"

definition confirm_match :: "gl_env \<Rightarrow> string option \<Rightarrow> uuid \<Rightarrow> route_answer bank" where
  "confirm_match env user u = with_match u (\<lambda>m.
     if bm_status m = MATCH_REJECTED then ok Conflict
     else if bm_status m = MATCH_CONFIRMED then ok AlreadyConfirmed
     else andthen (set_match_status env m ''confirmed'' user) (\<lambda>e. ok (Done e)))"

definition reject_match :: "gl_env \<Rightarrow> string option \<Rightarrow> uuid \<Rightarrow> route_answer bank" where
  "reject_match env user u = with_match u (\<lambda>m.
     if bm_status m = MATCH_CONFIRMED then ok Conflict
     else andthen (set_match_status env m ''rejected'' user) (\<lambda>e. ok (Done e)))"

definition unconfirm_match :: "gl_env \<Rightarrow> string option \<Rightarrow> uuid \<Rightarrow> route_answer bank" where
  "unconfirm_match env user u = with_match u (\<lambda>m.
     if bm_status m \<noteq> MATCH_CONFIRMED then ok Conflict
     else andthen (set_match_status env m ''suggested'' user) (\<lambda>e. ok (Done e)))"

section \<open>Manual matches\<close>

definition source_table_of :: "string \<Rightarrow> source_table option" where
  "source_table_of s =
     (if s = ''payments'' then Some Payments else if s = ''expenses'' then Some Expenses
      else if s = ''vendor_invoices'' then Some VendorInvoices else None)"

fun check_lines :: "bank_db \<Rightarrow> uuid \<Rightarrow> uuid list \<Rightarrow> bank_exn + bank_line list" where
  "check_lines db account [] = Inr []"
| "check_lines db account (u # us) =
     (case get_line db u of
        None \<Rightarrow> Inl (MatchError ''unknown_line'')
      | Some l \<Rightarrow>
          if bl_account l \<noteq> account then Inl (MatchError ''unknown_line'')
          else if bl_id l \<in> set (matched_line_ids db) then Inl (MatchError ''line_taken'')
          else bindR (check_lines db account us) (\<lambda>ls. Inr (l # ls)))"

text \<open>\<^verbatim>\<open>getattr(row, "amount", None) or getattr(row, "total", 0)\<close>: zero is falsy, and only a bill has a total.\<close>

definition record_amount :: "bank_db \<Rightarrow> books_record \<Rightarrow> decimal option option" where
  "record_amount db r =
     (case r of
        (Payments, u) \<Rightarrow> map_option p_amount (get_payment db u)
      | (Expenses, u) \<Rightarrow> map_option x_amount (get_expense db u)
      | (VendorInvoices, u) \<Rightarrow> map_option vb_total (get_bill db u))"

definition or_zero :: "decimal option \<Rightarrow> decimal" where
  "or_zero v = (case v of None \<Rightarrow> Fin 0 0 | Some (Fin c e) \<Rightarrow> if c = 0 then Fin 0 0 else Fin c e | Some d \<Rightarrow> d)"

fun check_externals :: "bank_db \<Rightarrow> (string \<times> uuid) list \<Rightarrow> bank_exn + (books_record \<times> int) list" where
  "check_externals db [] = Inr []"
| "check_externals db ((t, u) # rest) =
     (case source_table_of t of
        None \<Rightarrow> Inl (MatchError ''bad_source_table'')
      | Some tab \<Rightarrow>
          (case record_amount db (tab, u) of
             None \<Rightarrow> Inl (MatchError ''unknown_record'')
           | Some amount \<Rightarrow>
               if dead_source_reason db (tab, u) \<noteq> None then Inl (MatchError ''dead_record'')
               else if (tab, u) \<in> set (used_externals db) then Inl (MatchError ''record_taken'')
               else bindR (map_sum LedgerRaised id (amount_cents (Some (or_zero amount)))) (\<lambda>c.
                 bindR (check_externals db rest) (\<lambda>rs. Inr (((tab, u), c) # rs)))))"

definition imbalance_note :: "int \<Rightarrow> int \<Rightarrow> string" where
  "imbalance_note a b = '' [imbalance: lines '' @ int_str a @ [CHR 0xC2, CHR 0xA2] @ '' vs records '' @ int_str b @ [CHR 0xC2, CHR 0xA2] @ '']''"

definition manual_note :: "string option \<Rightarrow> bank_line list \<Rightarrow> (books_record \<times> int) list \<Rightarrow> string option" where
  "manual_note note ls rs =
     (let a = sum_list (map (\<lambda>l. \<bar>bl_amount l\<bar>) ls);
          b = sum_list (map snd rs);
          n = or_str note [];
          full = (if rs \<noteq> [] \<and> a \<noteq> b then strip (n @ imbalance_note a b) else n)
      in if full = [] then None else Some full)"

record manual_input =
  mn_account :: uuid
  mn_lines :: "uuid list"
  mn_externals :: "(string \<times> uuid) list"
  mn_classification :: "string option"
  mn_note :: "string option"
  mn_user :: "string option"
  mn_created_expense :: "uuid option"

definition born_confirmed :: "gl_env \<Rightarrow> manual_input \<Rightarrow> bank_match \<Rightarrow> bank_match" where
  "born_confirmed env i m =
     m\<lparr>bm_status := MATCH_CONFIRMED, bm_created_by := mn_user i, bm_confirmed_by := mn_user i, bm_confirmed_at := Some (now_utc env),
       bm_created_expense := mn_created_expense i\<rparr>"

definition create_manual_match :: "gl_env \<Rightarrow> manual_input \<Rightarrow> uuid bank" where
  "create_manual_match env i =
     (if mn_lines i = [] then throw (MatchError ''no_lines'')
      else if mn_externals i = [] \<and> or_str (mn_classification i) [] = [] then throw (MatchError ''no_content'')
      else
        andthen (reads (\<lambda>db. check_lines db (mn_account i) (mn_lines i))) (\<lambda>ls.
        andthen (reads (\<lambda>db. check_externals db (mn_externals i))) (\<lambda>rs.
        andthen (new_match None \<lparr>mi_account = mn_account i, mi_rule = ''manual'', mi_lines = map bl_id ls, mi_externals = map fst rs,
          mi_classification = mn_classification i, mi_confidence = None, mi_note = manual_note (mn_note i) ls rs\<rparr>) (\<lambda>created.
        case created of
          None \<Rightarrow> throw (LedgerRaised AttributeError)
        | Some u \<Rightarrow>
            andthen (change (edit_match u (born_confirmed env i))) (\<lambda>_.
            andthen flush_matches (\<lambda>_.
            andthen (asks (\<lambda>db. get_match db u)) (\<lambda>found.
            case found of
              None \<Rightarrow> throw (LedgerRaised AttributeError)
            | Some m \<Rightarrow>
                andthen (apply_confirm_effects env m (mn_user i)) (\<lambda>_.
                andthen (change (sync_children u MATCH_CONFIRMED)) (\<lambda>_.
                andthen flush_matches (\<lambda>_. ok u))))))))))"

end
