(* ===== verification/Bill_Dates.thy ===== *)
theory Bill_Dates
  imports Bill_Books
begin

text \<open>
  The expenses of a bill follow its settlement: after every payment that is recorded or voided they carry the date of the
  settlement, or the bill's own date while it is open, and voiding the last payment takes everything back.
\<close>

section \<open>Redating\<close>

definition expense_rows :: "bank_db \<Rightarrow> expense list" where
  "expense_rows db = db_expenses (bd_gl db)"

definition redated :: "date \<Rightarrow> bank_db \<Rightarrow> bank_db \<Rightarrow> expense \<Rightarrow> expense \<Rightarrow> bool" where
  "redated target db db' x y \<longleftrightarrow> y = x \<or> expense_source db (x_id x) = Some ''vendor_invoice'' \<and> y = x\<lparr>x_date := Some target\<rparr>"

text \<open>Rows keep their place and their sources; a row that changes is the bill's own kind and takes the target date.\<close>

definition redates :: "date \<Rightarrow> uuid set \<Rightarrow> bank_db \<Rightarrow> bank_db \<Rightarrow> bool" where
  "redates target S s t \<longleftrightarrow> expense_source t = expense_source s \<and>
     list_all2 (\<lambda>x y. y = x \<or> x_id x \<in> S \<and> expense_source s (x_id x) = Some ''vendor_invoice'' \<and> y = x\<lparr>x_date := Some target\<rparr>)
       (expense_rows s) (expense_rows t)"

interpretation dating: tracked "redates target S" for target S
proof
  show "redates target S s s" for s by (simp add: redates_def list_all2_same)
  fix s t u assume st: "redates target S s t" and tu: "redates target S t u"
  have src: "expense_source t = expense_source s" "expense_source u = expense_source s" using st tu by (simp_all add: redates_def)
  have "list_all2 (\<lambda>x z. z = x \<or> x_id x \<in> S \<and> expense_source s (x_id x) = Some ''vendor_invoice'' \<and> z = x\<lparr>x_date := Some target\<rparr>)
      (expense_rows s) (expense_rows u)"
  proof (rule list_all2_trans)
    show "list_all2 (\<lambda>x y. y = x \<or> x_id x \<in> S \<and> expense_source s (x_id x) = Some ''vendor_invoice'' \<and> y = x\<lparr>x_date := Some target\<rparr>)
      (expense_rows s) (expense_rows t)" using st by (simp add: redates_def)
    show "list_all2 (\<lambda>x y. y = x \<or> x_id x \<in> S \<and> expense_source s (x_id x) = Some ''vendor_invoice'' \<and> y = x\<lparr>x_date := Some target\<rparr>)
      (expense_rows t) (expense_rows u)" using tu src by (simp add: redates_def)
  qed auto
  then show "redates target S s u" using src by (simp add: redates_def)
qed

lemma redates_ledger [tracking]:
  assumes "tracks same_workflow m"
  shows "tracks (redates target S) (ledger m)"
  unfolding tracks_def
proof
  fix db :: bank_db
  obtain r g where m: "m (bd_gl db) = (r, g)" by fastforce
  have "db_expenses g = db_expenses (bd_gl db)" using tracksD[OF assms m] by (simp add: same_workflow_def)
  then have "redates target S db (db\<lparr>bd_gl := g\<rparr>)"
    unfolding redates_def expense_rows_def expense_source_def by (simp add: list_all2_same)
  then show "redates target S db (snd (ledger m db))" by (simp add: ledger_def m)
qed

lemma redates_computed [tracking]: "tracks (redates target S) (computed f)"
  unfolding computed_def by (rule dating.tracks_reads)

lemma expense_source_edit: "expense_source (edit_expense env u f db) v = expense_source db v"
proof -
  have "filter (\<lambda>m. xm_expense m = v) (map (\<lambda>m. if xm_expense m = u then m\<lparr>xm_updated_at := now_utc env\<rparr> else m) ms) =
      map (\<lambda>m. if xm_expense m = u then m\<lparr>xm_updated_at := now_utc env\<rparr> else m) (filter (\<lambda>m. xm_expense m = v) ms)" for ms :: "expense_meta list"
    by (induction ms) auto
  then show ?thesis by (simp add: expense_source_def edit_expense_def first_def split: list.split)
qed

lemma edit_rows: "expense_rows (edit_expense env u f db) = map (\<lambda>x. if x_id x = u then f x else x) (expense_rows db)"
  by (simp add: expense_rows_def edit_expense_def)

lemma edit_redates:
  assumes "u \<in> S" "expense_source db u = Some ''vendor_invoice''"
  shows "redates target S db (edit_expense env u (\<lambda>y. y\<lparr>x_date := Some target\<rparr>) db)"
  unfolding redates_def edit_rows list_all2_map2
  using assms by (auto simp: list_all2_same fun_eq_iff expense_source_edit)

lemma redate_effects [tracking]:
  "tracks (redates target S) (reverse_lock_tolerant env e)" "tracks (redates target S) (finish_reversal env d e)"
  "tracks (redates target S) (repost_redated env d x prior)"
  unfolding reverse_lock_tolerant_def finish_reversal_def repost_redated_def by (intro dating.tracks_rules tracking)+

lemma get_expenseD: "get_expense db u = Some x \<Longrightarrow> x \<in> set (expense_rows db) \<and> x_id x = u"
  unfolding get_expense_def expense_rows_def by (drule first_filter_member) simp

lemma redatable_None_stays:
  assumes r: "redates target S s t" and none: "redatable s target u = None"
  shows "redatable t target u = None"
proof -
  have src: "expense_source t = expense_source s" using r by (simp add: redates_def)
  have rows: "list_all2 (\<lambda>x y. y = x \<or> x_id x \<in> S \<and> expense_source s (x_id x) = Some ''vendor_invoice'' \<and> y = x\<lparr>x_date := Some target\<rparr>)
      (expense_rows s) (expense_rows t)" using r by (simp add: redates_def)
  have "rel_option (\<lambda>x y. y = x \<or> y = x\<lparr>x_date := Some target\<rparr>) (first (filter (\<lambda>x. x_id x = u) xs)) (first (filter (\<lambda>x. x_id x = u) ys))"
    if "list_all2 (\<lambda>x y. y = x \<or> x_id x \<in> S \<and> expense_source s (x_id x) = Some ''vendor_invoice'' \<and> y = x\<lparr>x_date := Some target\<rparr>) xs ys" for xs ys
    using that by induction auto
  from this[OF rows] have "rel_option (\<lambda>x y. y = x \<or> y = x\<lparr>x_date := Some target\<rparr>) (get_expense s u) (get_expense t u)"
    by (simp add: get_expense_def expense_rows_def)
  then show ?thesis using none src
    by (auto simp: redatable_def split: option.splits if_splits elim!: option.rel_cases)
qed

lemma redate_expense_redates:
  assumes "redatable s target u = Some x" "u \<in> S" "redate_expense env target cache x s = (r, t)"
  shows "redates target S s t" "redatable t target u = None"
proof -
  have x: "get_expense s u = Some x" "expense_source s u = Some ''vendor_invoice''" "x_id x = u"
  proof -
    obtain y where y: "get_expense s u = Some y" using assms(1) by (cases "get_expense s u") (simp_all add: redatable_def)
    have "y = x" "expense_source s u = Some ''vendor_invoice''" using assms(1) unfolding redatable_def y by (simp_all split: if_split_asm)
    then show "get_expense s u = Some x" "expense_source s u = Some ''vendor_invoice''" "x_id x = u" using y get_expenseD by simp_all
  qed
  define s1 where "s1 = edit_expense env u (\<lambda>y. y\<lparr>x_date := Some target\<rparr>) s"
  have s1: "redates target S s s1" unfolding s1_def by (rule edit_redates[OF assms(2) x(2)])
  have here: "redatable s1 target u = None"
  proof (cases "get_expense s1 u")
    case (Some y)
    then have y: "y \<in> set (expense_rows s1)" "x_id y = u" using get_expenseD by blast+
    then obtain x0 where "y = (if x_id x0 = u then x0\<lparr>x_date := Some target\<rparr> else x0)" unfolding s1_def edit_rows set_map by blast
    then have "x_date y = Some target" using y(2) by (cases "x_id x0 = u") simp_all
    then show ?thesis using Some by (simp add: redatable_def)
  qed (simp add: redatable_def)
  define prior where "prior = posted_entries (bd_gl s) x"
  define rest where "rest = andthen (asks (\<lambda>db. case cache of Some c \<Rightarrow> c | None \<Rightarrow> cutover_date (bd_gl db) (x_company x))) (\<lambda>cutover.
      andthen (if (case cutover of None \<Rightarrow> False | Some c \<Rightarrow> target < c) then for_each (reverse_lock_tolerant env) prior
        else repost_redated env target (x\<lparr>x_date := Some target\<rparr>) prior) (\<lambda>_. ok cutover))"
  have m: "tracks (redates target S) rest" unfolding rest_def by (intro dating.tracks_rules redate_effects)
  have "rest s1 = (r, t)" using assms(3) unfolding redate_expense_def run_simps x(3) rest_def prior_def s1_def .
  note mt = tracksD[OF m this]
  show "redatable t target u = None" by (rule redatable_None_stays[OF mt here])
  show "redates target S s t" by (rule dating.R_trans[OF s1 mt])
qed

lemma redate_expenses_run:
  assumes "redate_expenses env target cache us s = (r, t)" "set us \<subseteq> S"
  shows "redates target S s t \<and> (\<forall>n. r = Inr n \<longrightarrow> (\<forall>u \<in> set us. redatable t target u = None))"
  using assms
proof (induction us arbitrary: cache s r t)
  case Nil
  then show ?case by (simp add: run_ends dating.R_refl)
next
  case (Cons u us)
  show ?case
  proof (cases "redatable s target u")
    case None
    then have run: "redate_expenses env target cache us s = (r, t)" using Cons.prems(1) by (simp add: run_simps)
    from Cons.IH[OF this] Cons.prems(2) redatable_None_stays[OF _ None] show ?thesis by auto
  next
    case (Some x)
    obtain r1 s1 where one: "redate_expense env target cache x s = (r1, s1)" by fastforce
    have S: "u \<in> S" "set us \<subseteq> S" using Cons.prems(2) by auto
    note O = redate_expense_redates[OF Some S(1) one]
    show ?thesis
    proof (cases r1)
      case (Inl e)
      then show ?thesis using Cons.prems(1) O by (simp add: run_simps(3) Some andthen_def[of "redate_expense env target cache x"] one) auto
    next
      case (Inr c)
      obtain r2 where two: "redate_expenses env target (Some c) us s1 = (r2, t)" "\<And>n. r = Inr n \<Longrightarrow> \<exists>k. r2 = Inr k"
        using Cons.prems(1) by (auto simp: run_simps(3) Some andthen_def[of "redate_expense env target cache x"] andthen_def[of "redate_expenses env target (Some c) us"] one Inr ok_def split: prod.splits sum.splits)
      note I = Cons.IH[OF two(1) S(2)]
      show ?thesis using I O two(2) dating.R_trans[OF O(1)] redatable_None_stays[OF _ O(2)] by (metis set_ConsD)
    qed
  qed
qed

section \<open>Payments and the dates\<close>

text \<open>The bill's own expenses that are live carry the date.\<close>

definition dated :: "bank_db \<Rightarrow> uuid \<Rightarrow> date \<Rightarrow> bool" where
  "dated db u d \<longleftrightarrow> (\<forall>v \<in> set (expense_ids db u). \<forall>x. get_expense db v = Some x \<and> x_deleted_at x = None \<and>
     expense_source db v = Some ''vendor_invoice'' \<longrightarrow> x_date x = Some d)"

lemma effective_date_same:
  assumes "live_bill_payments t (vb_id b) = live_bill_payments s (vb_id c)" "bill_total b = bill_total c" "vb_date b = vb_date c"
  shows "effective_expense_date env t b = effective_expense_date env s c"
  by (simp only: effective_expense_date_def settled_date_def paid_total_def assms)

lemma sync_dates:
  assumes "sync_expense_dates env b db = (Inr n, db')"
  shows "\<exists>d. effective_expense_date env db' b = Inr d \<and> effective_expense_date env db b = Inr d \<and> dated db' (vb_id b) d \<and>
    redates d (set (expense_ids db (vb_id b))) db db'"
proof -
  note f = books_only_fields[OF tracksD[OF sync_expense_dates_books assms]]
  obtain d where d: "effective_expense_date env db b = Inr d" "redate_expenses env d None (expense_ids db (vb_id b)) db = (Inr n, db')"
    using assms by (auto simp: sync_expense_dates_def run_simps split: sum.splits)
  note R = redate_expenses_run[OF d(2) subset_refl]
  have ids: "expense_ids db' u = expense_ids db u" for u using f(8) by (simp add: expense_ids_def)
  have "dated db' (vb_id b) d"
    unfolding dated_def ids
  proof (intro ballI allI impI)
    fix v x assume v: "v \<in> set (expense_ids db (vb_id b))" and x: "get_expense db' v = Some x \<and> x_deleted_at x = None \<and> expense_source db' v = Some ''vendor_invoice''"
    have "redatable db' d v = None" using R v by blast
    then show "x_date x = Some d" using x by (simp add: redatable_def split: if_split_asm)
  qed
  moreover have "effective_expense_date env db' b = effective_expense_date env db b"
    by (rule effective_date_same) (simp_all add: live_bill_payments_def f)
  ultimately show ?thesis using d(1) R by auto
qed

lemma get_bill_status:
  "get_bill (set_bill_status u st db) v = map_option (\<lambda>b. if vb_id b = u then b\<lparr>vb_status := st\<rparr> else b) (get_bill db v)"
proof -
  have "first (filter (\<lambda>b. vb_id b = v) (map (\<lambda>b. if vb_id b = u then b\<lparr>vb_status := st\<rparr> else b) bs)) =
      map_option (\<lambda>b. if vb_id b = u then b\<lparr>vb_status := st\<rparr> else b) (first (filter (\<lambda>b. vb_id b = v) bs))" for bs :: "vendor_bill list"
    by (induction bs) auto
  then show ?thesis by (simp add: get_bill_def set_bill_status_def)
qed

lemma status_only [simp]: "bill_total (b\<lparr>vb_status := st\<rparr>) = bill_total b"
  by (simp add: bill_total_def)

text \<open>
  C18.  A recorded payment.  In books in order it raises what is paid by its amount, never beyond the total; the bill is paid exactly when
  nothing is left open; and the bill's live expenses carry the cash-basis date, the other rows of the table unchanged.
\<close>

theorem payment_settles_bill:
  assumes inv: "bills_ok db" and amt: "whole_cents (pi_amount i)" and b: "get_bill db u = Some b"
    and run: "record_payment env u i db = (Inr p, db')"
  shows "bills_ok db' \<and> paid_cents db' u = paid_cents db u + cents_val (pi_amount i) \<and> paid_cents db' u \<le> bill_cents b \<and>
    get_bill db' u = Some (b\<lparr>vb_status := (if paid_cents db' u = bill_cents b then STATUS_PAID else STATUS_OPEN)\<rparr>) \<and>
    (\<exists>d. effective_expense_date env db' b = Inr d \<and> dated db' u d \<and> redates d (set (expense_ids db u)) db db')"
proof -
  have src: "pi_source i \<in> set VALID_PAYMENT_SOURCES"
    using run by (cases "pi_source i \<in> set VALID_PAYMENT_SOURCES") (simp_all add: record_payment_def run_ends)
  define db1 where "db1 = add_payment env u i db"
  define db2 where "db2 = set_bill_status u (if settles db1 b then STATUS_PAID else STATUS_OPEN) db1"
  have c: "payment_refusal_code db b i = None" and sy: "\<exists>n. sync_expense_dates env b db2 = (Inr n, db')"
    using run unfolding record_payment_run[OF inv amt src b] db2_def db1_def
    by (auto simp: Let_def split: option.splits if_split_asm prod.splits sum.splits)
  obtain n where n: "sync_expense_dates env b db2 = (Inr n, db')" using sy by blast
  have ok2: "bills_ok db2" unfolding db2_def db1_def by (rule added_in_order[OF inv amt b c])
  note S = sync_keeps_bills[OF ok2 n]
  have vb: "vb_id b = u" using get_billD[OF b] by simp
  have lim: "cents_val (pi_amount i) \<le> bill_cents b - paid_cents db u" "0 < cents_val (pi_amount i)"
    using c vb by (auto simp: payment_refusal_code_def split: if_splits)
  have pd: "paid_cents db' u = paid_cents db u + cents_val (pi_amount i)"
  proof -
    have "paid_cents db' u = paid_cents db1 u" by (simp add: paid_cents_def live_bill_payments_def S db2_def set_bill_status_def)
    then show ?thesis unfolding db1_def add_payment_paid by simp
  qed
  have "0 \<le> paid_cents db u" using inv by (intro paid_cents_nonneg) (simp add: bills_ok_def)
  then have pos: "0 < bill_cents b" using lim by simp
  have st: "settles db1 b \<longleftrightarrow> paid_cents db' u = bill_cents b"
    using lim pos pd by (auto simp: settles_def vb db1_def add_payment_paid)
  have "get_bill db' u = get_bill db2 u" "get_bill db1 u = Some b" using b by (simp_all add: get_bill_def S(2) db1_def add_payment_def)
  then have gb: "get_bill db' u = Some (b\<lparr>vb_status := (if paid_cents db' u = bill_cents b then STATUS_PAID else STATUS_OPEN)\<rparr>)"
    using vb by (simp add: db2_def get_bill_status st)
  obtain d where d: "effective_expense_date env db' b = Inr d" "dated db' u d" "redates d (set (expense_ids db2 u)) db2 db'"
    using sync_dates[OF n] vb by auto
  have "expense_ids db2 u = expense_ids db u" "redates d S db2 db' = redates d S db db'" for S
    by (simp_all add: expense_ids_def redates_def expense_rows_def expense_source_def fun_eq_iff db2_def db1_def set_bill_status_def add_payment_def)
  then show ?thesis using S(1) pd lim gb d by auto
qed


lemma live_after_take_back:
  assumes "payments_ok db"
  shows "live_bill_payments (mark_voided env2 (bd_uuid db) who (add_payment env u i db)) v = live_bill_payments db v"
proof -
  have "filter (\<lambda>q. bp_id q \<noteq> bd_uuid db) (filter (\<lambda>p. bp_bill p = v \<and> bp_voided_at p = None) (bd_bill_payments (add_payment env u i db)))
      = filter (\<lambda>p. bp_bill p = v \<and> bp_voided_at p = None) (bd_bill_payments db)"
    using assms by (auto simp: add_payment_def mk_payment_def payments_ok_def intro!: filter_cong)
  then show ?thesis unfolding live_after_void by (simp add: live_bill_payments_def filter_sort del: filter_filter)
qed

text \<open>
  C19.  Voiding the payment just recorded takes it back: every bill is as before, the same payments are live, and the expenses of the bill
  carry the date they have without the payment.
\<close>

theorem void_undoes_payment:
  assumes inv: "bills_ok db" and amt: "whole_cents (pi_amount i)" and b: "get_bill db u = Some b" and m: "pi_match i = None"
    and rec: "record_payment env u i db = (Inr p, db1)" and void: "void_payment env2 who False p db1 = (Inr (), db2)"
  shows "bd_bills db2 = bd_bills db \<and> (\<forall>v. live_bill_payments db2 v = live_bill_payments db v) \<and>
    (\<exists>d. effective_expense_date env2 db b = Inr d \<and> dated db2 u d)"
proof -
  have src: "pi_source i \<in> set VALID_PAYMENT_SOURCES"
    using rec by (cases "pi_source i \<in> set VALID_PAYMENT_SOURCES") (simp_all add: record_payment_def run_ends)
  define da where "da = add_payment env u i db"
  define st where "st = (if settles da b then STATUS_PAID else STATUS_OPEN)"
  have c: "payment_refusal_code db b i = None" and p: "p = mk_payment env (bd_uuid db) u i"
    and sy: "\<exists>n. sync_expense_dates env b (set_bill_status u st da) = (Inr n, db1)"
    using rec unfolding record_payment_run[OF inv amt src b] st_def da_def
    by (auto simp: Let_def split: option.splits if_split_asm prod.splits sum.splits)
  obtain n where n: "sync_expense_dates env b (set_bill_status u st da) = (Inr n, db1)" using sy by blast
  have ok2: "bills_ok (set_bill_status u st da)" unfolding st_def da_def by (rule added_in_order[OF inv amt b c])
  note S = sync_keeps_bills[OF ok2 n]
  have vb: "vb_id b = u" "b \<in> set (bd_bills db)" using get_billD[OF b] by simp_all
  have nv: "vb_status b \<noteq> STATUS_VOID" using c by (auto simp: payment_refusal_code_def split: if_splits)
  have pays: "bd_bill_payments db1 = bd_bill_payments db @ [p]" using S(3) by (simp add: set_bill_status_def da_def add_payment_def p)
  have pm: "p \<in> set (bd_bill_payments db1)" "bp_voided_at p = None" "bp_bill p = u" "bp_match p = None" "bp_id p = bd_uuid db"
    using m by (simp_all add: pays) (simp_all add: p mk_payment_def)
  define b1 where "b1 = b\<lparr>vb_status := st\<rparr>"
  have b1: "get_bill db1 u = Some b1"
    using b vb(1) S(2) get_bill_status[of u st da u] by (simp add: get_bill_def b1_def da_def add_payment_def)
  define dv where "dv = mark_voided env2 (bp_id p) who db1"
  have live: "live_bill_payments dv v = live_bill_payments db v" for v
  proof -
    have "live_bill_payments dv v = live_bill_payments (mark_voided env2 (bd_uuid db) who da) v"
      using pays pm(5) by (simp add: dv_def live_bill_payments_def mark_voided_def da_def add_payment_def p)
    then show ?thesis using live_after_take_back[of db] inv by (simp add: da_def bills_ok_def)
  qed
  have same: "settles dv b1 = settles db b" by (simp add: settles_def bill_cents_def b1_def paid_cents_def live)
  have st0: "vb_status b = (if settles db b then STATUS_PAID else STATUS_OPEN)" using inv vb(2) nv by (auto simp: bills_ok_def bill_ok_def)
  define d2 where "d2 = set_bill_status u (vb_status b) dv"
  have b1st: "vb_status b1 \<noteq> STATUS_VOID" by (simp add: b1_def st_def)
  have "\<exists>k. sync_expense_dates env2 b1 d2 = (Inr k, db2)"
    using void void_payment_run(1)[OF S(1) pm(1,2), of b1 False env2 who] b1 pm b1st
    unfolding pm(3) dv_def[symmetric] same st0[symmetric] d2_def by (auto simp: match_confirmed_def split: prod.splits sum.splits)
  then obtain k where k: "sync_expense_dates env2 b1 d2 = (Inr k, db2)" by blast
  note f = books_only_fields[OF tracksD[OF sync_expense_dates_books k]]
  have live2: "live_bill_payments db2 v = live_bill_payments db v" for v
    using live by (simp add: live_bill_payments_def f d2_def set_bill_status_def)
  have "bd_bills db2 = bd_bills db"
  proof -
    have "bd_bills db2 = map (\<lambda>c. if vb_id c = u then c\<lparr>vb_status := vb_status b\<rparr> else c) (bd_bills db)"
      by (simp add: f d2_def dv_def set_bill_status_def S(2) da_def add_payment_def comp_def if_distrib cong: if_cong)
    moreover have "c\<lparr>vb_status := vb_status b\<rparr> = c" if "c \<in> set (bd_bills db)" "vb_id c = u" for c
    proof -
      have "c = b" using that vb inv unfolding bills_ok_def by (metis distinct_map inj_onD)
      then show ?thesis by simp
    qed
    ultimately show ?thesis by (auto intro: map_idI)
  qed
  moreover obtain d where "effective_expense_date env2 d2 b1 = Inr d" "dated db2 u d"
    using sync_dates[OF k] vb(1) by (auto simp: b1_def)
  moreover have "effective_expense_date env2 d2 b1 = effective_expense_date env2 db b"
    using live by (intro effective_date_same) (simp_all add: b1_def live_bill_payments_def d2_def set_bill_status_def)
  ultimately show ?thesis using live2 by auto
qed

section \<open>A bill of one dollar\<close>

definition bill_sample :: bank_db where
  "bill_sample = empty_bank_db\<lparr>
     bd_gl := empty_db\<lparr>db_expenses := [\<lparr>x_id = 7, x_company = ''gdx'', x_vendor = ''Midwest'', x_amount = Some (Fin 100 (-2)), x_date = Some (Date 26 4 10),
       x_category = None, x_job = None, x_created_at = None, x_deleted_at = None, x_lines = []\<rparr>]\<rparr>,
     bd_bills := [\<lparr>vb_id = 1, vb_date = Some (Date 26 4 10), vb_total = Some (Fin 100 (-2)), vb_status = STATUS_OPEN\<rparr>],
     bd_bill_lines := [\<lparr>vl_bill = 1, vl_expense = Some 7\<rparr>],
     bd_expense_meta := [\<lparr>xm_expense = 7, xm_source = ''vendor_invoice'', xm_status = None, xm_updated_at = Datetime (Date 26 4 10) 0\<rparr>],
     bd_uuid := 9\<rparr>"

definition bill_check :: payment_input where
  "bill_check = \<lparr>pi_amount = Fin 100 (-2), pi_date = Some (Date 26 5 2), pi_source = PAY_SOURCE_MANUAL, pi_reference = None, pi_match = None,
     pi_statement = None, pi_created_by = None\<rparr>"

definition dates_view :: "(bank_exn + 'a) \<times> bank_db \<Rightarrow> bool \<times> date option list \<times> bill_status list" where
  "dates_view r = (\<not> isl (fst r), map x_date (db_expenses (bd_gl (snd r))), map vb_status (bd_bills (snd r)))"

lemma bill_sample_ok: "bills_ok bill_sample" "whole_cents (pi_amount bill_check)" "pi_match bill_check = None"
  "get_bill bill_sample 1 = Some \<lparr>vb_id = 1, vb_date = Some (Date 26 4 10), vb_total = Some (Fin 100 (-2)), vb_status = STATUS_OPEN\<rparr>"
  by (simp_all add: bills_ok_def payments_ok_def bill_ok_def settles_def bill_cents_def bill_total_def paid_cents_def live_bill_payments_def
      bill_sample_def empty_bank_db_def bill_check_def get_bill_def)

lemma bill_sample_run:
  "dates_view (record_payment sample_env 1 bill_check bill_sample) = (True, [Some (Date 26 5 2)], [STATUS_PAID]) \<and>
   dates_view (case record_payment sample_env 1 bill_check bill_sample of (Inr p, db1) \<Rightarrow> void_payment sample_env None False p db1 | (Inl e, db1) \<Rightarrow> (Inl e, db1))
     = (True, [Some (Date 26 4 10)], [STATUS_OPEN])"
  by code_simp

theorem payment_settles_bill_witness:
  "\<exists>p db'. record_payment sample_env 1 bill_check bill_sample = (Inr p, db') \<and> bills_ok db' \<and>
     paid_cents db' 1 = paid_cents bill_sample 1 + 100 \<and> map vb_status (bd_bills db') = [STATUS_PAID] \<and>
     map x_date (db_expenses (bd_gl db')) = [Some (Date 26 5 2)]"
proof -
  obtain p db' where r: "record_payment sample_env 1 bill_check bill_sample = (Inr p, db')" and
    v: "map vb_status (bd_bills db') = [STATUS_PAID]" "map x_date (db_expenses (bd_gl db')) = [Some (Date 26 5 2)]"
    using bill_sample_run by (cases "record_payment sample_env 1 bill_check bill_sample"; cases "fst (record_payment sample_env 1 bill_check bill_sample)")
      (auto simp: dates_view_def)
  have "cents_val (pi_amount bill_check) = 100" by (simp add: bill_check_def)
  then show ?thesis using payment_settles_bill[OF bill_sample_ok(1,2,4) r] r v by auto
qed

theorem void_undoes_payment_witness:
  "\<exists>p db1 db2. record_payment sample_env 1 bill_check bill_sample = (Inr p, db1) \<and> void_payment sample_env None False p db1 = (Inr (), db2) \<and>
     bd_bills db2 = bd_bills bill_sample \<and> live_bill_payments db2 1 = live_bill_payments bill_sample 1 \<and>
     map x_date (db_expenses (bd_gl db2)) = [Some (Date 26 4 10)]"
proof -
  obtain p db1 where r: "record_payment sample_env 1 bill_check bill_sample = (Inr p, db1)"
    using bill_sample_run by (cases "record_payment sample_env 1 bill_check bill_sample"; cases "fst (record_payment sample_env 1 bill_check bill_sample)")
      (auto simp: dates_view_def)
  have "dates_view (void_payment sample_env None False p db1) = (True, [Some (Date 26 4 10)], [STATUS_OPEN])"
    using bill_sample_run unfolding r by simp
  then obtain db2 where v: "void_payment sample_env None False p db1 = (Inr (), db2)" "map x_date (db_expenses (bd_gl db2)) = [Some (Date 26 4 10)]"
    by (cases "void_payment sample_env None False p db1"; cases "fst (void_payment sample_env None False p db1)") (auto simp: dates_view_def)
  then show ?thesis using void_undoes_payment[OF bill_sample_ok(1,2,4,3) r v(1)] r by auto
qed

end
