(* ===== verification/Match_System.thy ===== *)
theory Match_System
  imports Match_Suggest Match_Lifecycle Bill_Dates
begin

text \<open>
  The invariant of the match tables: children carry the status of their match, a line and a books record sit in at most one match that
  is not rejected, and a bill payment names a match only while it is live and the match confirmed.
\<close>

section \<open>The invariant\<close>

definition has_parent :: "bank_db \<Rightarrow> uuid \<Rightarrow> match_status \<Rightarrow> bool" where
  "has_parent db u st \<longleftrightarrow> (\<exists>m \<in> set (bd_matches db). bm_id m = u \<and> bm_status m = st)"

definition match_ok :: "bank_db \<Rightarrow> bool" where
  "match_ok db \<longleftrightarrow> distinct (map bm_id (bd_matches db)) \<and> (\<forall>m \<in> set (bd_matches db). bm_id m < bd_uuid db) \<and>
     (\<forall>l \<in> set (bd_match_lines db). has_parent db (ml_match l) (ml_status l)) \<and>
     (\<forall>x \<in> set (bd_match_externals db). has_parent db (mx_match x) (mx_status x)) \<and> exclusive db"

definition payment_matches_ok :: "bank_db \<Rightarrow> bool" where
  "payment_matches_ok db \<longleftrightarrow> distinct (map bp_match (filter (\<lambda>p. bp_match p \<noteq> None) (bd_bill_payments db))) \<and>
     (\<forall>p \<in> set (bd_bill_payments db). \<forall>u. bp_match p = Some u \<longrightarrow> bp_voided_at p = None \<and> has_parent db u MATCH_CONFIRMED)"

lemma match_ok_children:
  assumes "match_ok db"
  shows "l \<in> set (bd_match_lines db) \<Longrightarrow> ml_match l < bd_uuid db" "x \<in> set (bd_match_externals db) \<Longrightarrow> mx_match x < bd_uuid db"
  using assms unfolding match_ok_def has_parent_def by metis+

lemma parent_unique:
  assumes "match_ok db" "has_parent db u st" "m \<in> set (bd_matches db)" "bm_id m = u"
  shows "bm_status m = st"
  using assms by (auto simp: match_ok_def has_parent_def distinct_map dest: inj_onD)

section \<open>Adding and dropping\<close>

lemma added_fields [simp]:
  "bd_matches (added i db) = bd_matches db @ [mk_match (bd_uuid db) i]" "bd_uuid (added i db) = Suc (bd_uuid db)"
  "bd_match_lines (added i db) = bd_match_lines db @ map (mk_match_line (bd_uuid db)) (mi_lines i)"
  "bd_match_externals (added i db) = bd_match_externals db @ map (mk_match_external (bd_uuid db)) (mi_externals i)"
  "bd_bill_payments (added i db) = bd_bill_payments db" "bd_bills (added i db) = bd_bills db" "bd_gl (added i db) = bd_gl db"
  "bd_lines (added i db) = bd_lines db"
  by (simp_all add: added_def add_children_def)

lemma mk_match_fields [simp]: "bm_status (mk_match u i) = MATCH_SUGGESTED" "bm_account (mk_match u i) = mi_account i" "bm_id (mk_match u i) = u"
  by (simp_all add: mk_match_def)

lemma children_of_added:
  assumes "match_ok db"
  shows "lines_of (added i db) u = (if u = bd_uuid db then mi_lines i else lines_of db u)"
    and "externals_of (added i db) u = (if u = bd_uuid db then mi_externals i else externals_of db u)"
proof -
  have old: "filter (\<lambda>l. ml_match l = bd_uuid db) (bd_match_lines db) = []" "filter (\<lambda>x. mx_match x = bd_uuid db) (bd_match_externals db) = []"
    by (rule filter_False, use match_ok_children[OF assms] in force)+
  show "lines_of (added i db) u = (if u = bd_uuid db then mi_lines i else lines_of db u)"
    using old(1) by (simp add: lines_of_def mk_match_line_def comp_def)
  show "externals_of (added i db) u = (if u = bd_uuid db then mi_externals i else externals_of db u)"
    using old(2) by (simp add: externals_of_def external_key_def mk_match_external_def comp_def)
qed

lemma match_ok_added:
  assumes ok: "match_ok db" and ex: "exclusive (added i db)"
  shows "match_ok (added i db)"
proof -
  have old: "has_parent db u st \<Longrightarrow> has_parent (added i db) u st" for u st by (auto simp: has_parent_def)
  have new: "has_parent (added i db) (bd_uuid db) MATCH_SUGGESTED" by (auto simp: has_parent_def mk_match_def)
  have "distinct (map bm_id (bd_matches (added i db)))" "\<forall>m \<in> set (bd_matches (added i db)). bm_id m < bd_uuid (added i db)"
    using ok by (auto simp: match_ok_def mk_match_def less_Suc_eq)
  moreover have "\<forall>l \<in> set (bd_match_lines (added i db)). has_parent (added i db) (ml_match l) (ml_status l)"
    "\<forall>x \<in> set (bd_match_externals (added i db)). has_parent (added i db) (mx_match x) (mx_status x)"
    using ok old new by (auto simp: match_ok_def mk_match_line_def mk_match_external_def)
  ultimately show ?thesis using ex by (simp add: match_ok_def)
qed

lemma payment_matches_added: "payment_matches_ok db \<Longrightarrow> payment_matches_ok (added i db)"
  by (auto simp: payment_matches_ok_def has_parent_def)

lemma add_all_ok:
  assumes "match_ok db" "exclusive (add_all is db)"
  shows "match_ok (add_all is db)"
  using assms
proof (induction "is" arbitrary: db)
  case (Cons i "is")
  have "exclusive (add_all is (added i db))" using Cons.prems(2) by simp
  then have "exclusive (added i db)" by (rule exclusive_before)
  with Cons show ?case using match_ok_added by simp
qed simp

lemma add_all_rest:
  "payment_matches_ok db \<Longrightarrow> payment_matches_ok (add_all is db)" "bd_bill_payments (add_all is db) = bd_bill_payments db"
  "bd_bills (add_all is db) = bd_bills db" "bd_gl (add_all is db) = bd_gl db" "bd_lines (add_all is db) = bd_lines db"
  "bd_uuid db \<le> bd_uuid (add_all is db)" "set (bd_matches db) \<subseteq> set (bd_matches (add_all is db))"
proof (induction "is" arbitrary: db)
  case (Cons i "is")
  { case 1 then show ?case using Cons(1)[of "added i db"] payment_matches_added by simp }
  { case 2 show ?case using Cons(2)[of "added i db"] by simp }
  { case 3 show ?case using Cons(3)[of "added i db"] by simp }
  { case 4 show ?case using Cons(4)[of "added i db"] by simp }
  { case 5 show ?case using Cons(5)[of "added i db"] by simp }
  { case 6 show ?case using Cons(6)[of "added i db"] by simp }
  { case 7 show ?case using Cons(7)[of "added i db"] by auto }
qed simp_all

lemma children_of_add_all:
  assumes "match_ok db" "exclusive (add_all is db)"
  shows "u < bd_uuid db \<Longrightarrow> lines_of (add_all is db) u = lines_of db u \<and> externals_of (add_all is db) u = externals_of db u"
    and "m \<in> set (bd_matches (add_all is db)) \<Longrightarrow> m \<in> set (bd_matches db) \<or>
      (\<exists>i \<in> set is. bd_uuid db \<le> bm_id m \<and> m = mk_match (bm_id m) i \<and> lines_of (add_all is db) (bm_id m) = mi_lines i \<and>
        externals_of (add_all is db) (bm_id m) = mi_externals i)"
  using assms
proof (induction "is" arbitrary: db u m)
  case (Cons i "is")
  have ex: "exclusive (added i db)" if "exclusive (add_all (i # is) db)" for db using exclusive_before[of "is" "added i db"] that by simp
  { case 1
    then have "match_ok (added i db)" using match_ok_added ex by blast
    then show ?case using Cons(1)[of u "added i db"] 1 children_of_added[OF 1(2)] by simp }
  { case 2
    then have ok1: "match_ok (added i db)" using match_ok_added ex by blast
    have "m \<in> set (bd_matches (added i db)) \<or> (\<exists>j \<in> set is. bd_uuid (added i db) \<le> bm_id m \<and> m = mk_match (bm_id m) j \<and>
        lines_of (add_all is (added i db)) (bm_id m) = mi_lines j \<and> externals_of (add_all is (added i db)) (bm_id m) = mi_externals j)"
      using Cons(2)[of m "added i db"] 2 ok1 by simp
    moreover have "lines_of (add_all is (added i db)) (bd_uuid db) = mi_lines i \<and> externals_of (add_all is (added i db)) (bd_uuid db) = mi_externals i"
      using Cons(1)[of "bd_uuid db" "added i db"] 2 ok1 children_of_added[OF 2(2)] by simp
    ultimately show ?case by (auto simp: mk_match_def) }
qed simp_all

lemma plan_members:
  assumes "match_ok db" "exclusive (add_all is db)" "i \<in> set is"
  shows "\<exists>m \<in> set (bd_matches (add_all is db)). lines_of (add_all is db) (bm_id m) = mi_lines i \<and> externals_of (add_all is db) (bm_id m) = mi_externals i"
  using assms
proof (induction "is" arbitrary: db)
  case (Cons j "is")
  have ex: "exclusive (add_all is (added j db))" using Cons.prems(2) by simp
  have ok: "match_ok (added j db)" by (rule match_ok_added[OF Cons.prems(1) exclusive_before[OF ex]])
  show ?case
  proof (cases "i = j")
    case True
    have "mk_match (bd_uuid db) j \<in> set (bd_matches (add_all is (added j db)))" using add_all_rest(7)[of "added j db" "is"] by auto
    then show ?thesis using children_of_add_all(1)[OF ok ex, of "bd_uuid db"] children_of_added[OF Cons.prems(1)] True by force
  next
    case False
    then show ?thesis using Cons.IH[OF ok ex] Cons.prems(3) by simp
  qed
qed simp

lemma drop_fields [simp]:
  "bd_uuid (drop_matches ms db) = bd_uuid db" "bd_bill_payments (drop_matches ms db) = bd_bill_payments db" "bd_gl (drop_matches ms db) = bd_gl db"
  "bd_lines (drop_matches ms db) = bd_lines db" "bd_bills (drop_matches ms db) = bd_bills db"
  "set (bd_matches (drop_matches ms db)) = {m \<in> set (bd_matches db). bm_id m \<notin> set ms}"
  by (auto simp: drop_matches_def)

lemma children_of_drop: "u \<notin> set ms \<Longrightarrow> lines_of (drop_matches ms db) u = lines_of db u \<and> externals_of (drop_matches ms db) u = externals_of db u"
  by (auto simp: lines_of_def externals_of_def drop_matches_def intro!: arg_cong[where f = "map _"] filter_cong)

lemma has_parent_drop: "has_parent db u st \<Longrightarrow> u \<notin> set ms \<Longrightarrow> has_parent (drop_matches ms db) u st"
  by (auto simp: has_parent_def)

lemma exclusive_drop:
  assumes "exclusive db"
  shows "exclusive (drop_matches ms db)"
proof -
  have swap: "distinct (map f (filter P (filter Q xs)))" if "distinct (map f (filter P xs))" for f :: "'a \<Rightarrow> 'b" and P Q xs
  proof -
    have "filter P (filter Q xs) = filter Q (filter P xs)" by (simp add: conj_commute)
    then show ?thesis using distinct_map_filter[OF that, of Q] by simp
  qed
  show ?thesis using assms unfolding exclusive_def matched_line_ids_def used_externals_def
    by (simp add: drop_matches_def swap del: filter_filter)
qed

lemma match_ok_drop:
  assumes "match_ok db"
  shows "match_ok (drop_matches ms db)"
proof -
  note par = has_parent_drop[of db _ _ ms]
  have "exclusive (drop_matches ms db)" using assms exclusive_drop by (simp add: match_ok_def)
  moreover have "distinct (map bm_id (bd_matches (drop_matches ms db)))" using assms by (auto simp: match_ok_def drop_matches_def distinct_map inj_on_def)
  moreover have "l \<in> set (bd_match_lines (drop_matches ms db)) \<Longrightarrow> l \<in> set (bd_match_lines db) \<and> ml_match l \<notin> set ms"
    "x \<in> set (bd_match_externals (drop_matches ms db)) \<Longrightarrow> x \<in> set (bd_match_externals db) \<and> mx_match x \<notin> set ms" for l x
    by (auto simp: drop_matches_def)
  ultimately show ?thesis using assms par by (auto simp: match_ok_def)
qed

lemma stale_are_suggested:
  assumes "match_ok db" "u \<in> set (stale_suggestions db account lo hi)"
  shows "has_parent db u MATCH_SUGGESTED" "\<And>m. m \<in> set (bd_matches db) \<Longrightarrow> bm_id m = u \<Longrightarrow> bm_status m = MATCH_SUGGESTED"
proof -
  show p: "has_parent db u MATCH_SUGGESTED" using assms(2) by (auto simp: stale_suggestions_def has_parent_def)
  show "bm_status m = MATCH_SUGGESTED" if "m \<in> set (bd_matches db)" "bm_id m = u" for m using parent_unique[OF assms(1) p that] .
qed

lemma payments_spare_stale:
  assumes ok: "match_ok db" and pm: "payment_matches_ok db"
  shows "\<not> pinned db (stale_suggestions db account lo hi)" "payment_matches_ok (drop_matches (stale_suggestions db account lo hi) db)"
proof -
  have safe: "u \<notin> set (stale_suggestions db account lo hi)" if "p \<in> set (bd_bill_payments db)" "bp_match p = Some u" for p u
  proof
    assume "u \<in> set (stale_suggestions db account lo hi)"
    then have "\<And>m. m \<in> set (bd_matches db) \<Longrightarrow> bm_id m = u \<Longrightarrow> bm_status m = MATCH_SUGGESTED" using stale_are_suggested(2)[OF ok] by blast
    moreover have "has_parent db u MATCH_CONFIRMED" using pm that by (simp add: payment_matches_ok_def)
    ultimately show False by (auto simp: has_parent_def)
  qed
  then show "\<not> pinned db (stale_suggestions db account lo hi)" by (auto simp: pinned_def list_ex_iff split: option.splits)
  show "payment_matches_ok (drop_matches (stale_suggestions db account lo hi) db)"
    using pm safe has_parent_drop by (simp add: payment_matches_ok_def)
qed

lemma rows_ok_drop: "rows_ok db \<Longrightarrow> rows_ok (drop_matches ms db)"
  by (simp add: rows_ok_def)

lemma suggest_run:
  fixes account :: uuid
  assumes "match_ok db" "payment_matches_ok db" "rows_ok db" "range_ok lo hi"
  defines "db0 \<equiv> drop_matches (stale_suggestions db account lo hi) db"
  shows "\<exists>stats. suggest_matches account lo hi db = (Inr stats, add_all (ladder_plan db0 account lo hi) db0)"
    and "exclusive (add_all (ladder_plan db0 account lo hi) db0)" "match_ok db0"
proof -
  show ok: "match_ok db0" unfolding db0_def by (rule match_ok_drop[OF assms(1)])
  have rows: "rows_ok db0" unfolding db0_def by (rule rows_ok_drop[OF assms(3)])
  have "exclusive db0" using ok by (simp add: match_ok_def)
  then show ex: "exclusive (add_all (ladder_plan db0 account lo hi) db0)" by (rule ladder_exclusive[OF rows assms(4)])
  obtain stats where "suggest_ladder account lo hi db0 = (Inr stats, add_all (ladder_plan db0 account lo hi) db0)"
    using ladder_plans[OF rows assms(4) ex] by blast
  then show "\<exists>stats. suggest_matches account lo hi db = (Inr stats, add_all (ladder_plan db0 account lo hi) db0)"
    using ex payments_spare_stale(1)[OF assms(1,2), of account lo hi] unfolding suggest_matches_def Let_def db0_def[symmetric] by simp
qed

lemma ladder_wanted:
  assumes "i \<in> set (ladder_plan db account lo hi)"
  shows "wanted (rejected_signatures db account) i"
proof -
  have r3: "i \<in> set (r3_plan account sigs pool swept ls) \<Longrightarrow> wanted sigs i" for sigs pool swept ls
    by (induction ls arbitrary: swept) (auto split: option.splits if_splits)
  have r2: "i \<in> set (r2_plan account sigs rivals rows) \<Longrightarrow> wanted sigs i" for sigs rivals rows
    by (auto simp: r2_plan_def set_map_filter_Some dest: r2_takeD(2))
  have deb: "i \<in> set (debit_take account sigs xt vt row) \<Longrightarrow> wanted sigs i" for sigs xt vt row
    by (cases row) (auto elim: debit_takeD)
  show ?thesis using assms
    by (auto simp: ladder_plan_def Let_def class_plan_def deposit_plan_def debit_plan_def dest: r2 r3 deb)
qed

lemma ladder_account:
  assumes "i \<in> set (ladder_plan db account lo hi)"
  shows "mi_account i = account"
proof -
  have r3: "i \<in> set (r3_plan account sigs pool swept ls) \<Longrightarrow> mi_account i = account" for sigs pool swept ls
    by (induction ls arbitrary: swept) (auto simp: sweep_match_def line_match_def split: option.splits if_splits)
  have deb: "i \<in> set (debit_take account sigs xt vt row) \<Longrightarrow> mi_account i = account" for sigs xt vt row
    by (cases row) (auto elim!: debit_takeD simp: expense_match_def bill_match_def line_match_def)
  show ?thesis using assms
    by (auto simp: ladder_plan_def Let_def class_plan_def class_input_def deposit_plan_def debit_plan_def r2_plan_def pay_input_def set_map_filter_Some
        line_match_def dest: r3 deb split: option.splits)
qed

section \<open>A suggestion run\<close>



section \<open>What is paired agrees\<close>

definition record_cents :: "bank_db \<Rightarrow> books_record \<Rightarrow> int" where
  "record_cents db r = (case record_amount db r of None \<Rightarrow> 0 | Some a \<Rightarrow> row_cents a)"

lemma first_unique: "distinct (map f xs) \<Longrightarrow> x \<in> set xs \<Longrightarrow> first (filter (\<lambda>y. f y = f x) xs) = Some x"
proof (induction xs)
  case (Cons y ys)
  show ?case
  proof (cases "x = y")
    case False
    then have "f y \<noteq> f x" using Cons.prems by auto
    then show ?thesis using Cons False by simp
  qed simp
qed simp

lemma live_records:
  assumes "rows_ok db"
  shows "p \<in> set (db_payments (bd_gl db)) \<Longrightarrow> p_voided_at p = None \<Longrightarrow>
      record_cents db (Payments, p_id p) = row_cents (p_amount p) \<and> dead_source_reason db (Payments, p_id p) = None"
    and "x \<in> set (db_expenses (bd_gl db)) \<Longrightarrow> x_deleted_at x = None \<Longrightarrow>
      record_cents db (Expenses, x_id x) = row_cents (x_amount x) \<and> dead_source_reason db (Expenses, x_id x) = None"
    and "v \<in> set (bd_bills db) \<Longrightarrow> vb_status v = STATUS_OPEN \<Longrightarrow>
      record_cents db (VendorInvoices, vb_id v) = row_cents (vb_total v) \<and> dead_source_reason db (VendorInvoices, vb_id v) = None"
  using assms first_unique[of p_id "db_payments (bd_gl db)" p] first_unique[of x_id "db_expenses (bd_gl db)" x] first_unique[of vb_id "bd_bills db" v]
  by (simp_all add: rows_ok_def record_cents_def record_amount_def dead_source_reason_def get_payment_def get_expense_def get_bill_def)

definition agrees :: "bank_db \<Rightarrow> bank_line \<Rightarrow> books_record list \<Rightarrow> bool" where
  "agrees db l rs \<longleftrightarrow> sum_list (map (record_cents db) rs) = (if bl_section l = SECTION_DEPOSIT then bl_amount l else - bl_amount l) \<and>
     (\<forall>r \<in> set rs. dead_source_reason db r = None)"

definition pairs_well :: "bank_db \<Rightarrow> bank_line set \<Rightarrow> match_input \<Rightarrow> bool" where
  "pairs_well db L i \<longleftrightarrow> (\<exists>l \<in> L. mi_lines i = [bl_id l] \<and> (if mi_externals i = [] then classification_of l \<noteq> None else agrees db l (mi_externals i)))"

lemma window_live:
  "p \<in> set (window_payments db lo hi) \<Longrightarrow> p \<in> set (db_payments (bd_gl db)) \<and> p_voided_at p = None"
  "x \<in> set (window_expenses db lo hi) \<Longrightarrow> x \<in> set (db_expenses (bd_gl db)) \<and> x_deleted_at x = None"
  "v \<in> set (open_bills db) \<Longrightarrow> v \<in> set (bd_bills db) \<and> vb_status v = STATUS_OPEN"
  by (simp_all add: window_payments_def window_expenses_def open_bills_def)

lemma r2_pairs_well:
  assumes ok: "rows_ok db" and sec: "\<forall>l \<in> set ls. bl_section l = SECTION_DEPOSIT"
    and i: "i \<in> set (r2_plan account sigs rivals (deposit_rows (window_payments db wlo whi) ls))"
  shows "pairs_well db (set ls) i"
proof -
  obtain row p where row: "row \<in> set (deposit_rows (window_payments db wlo whi) ls)" "r2_take account sigs rivals row = Some p" "i = pay_input account (fst row) p"
    using i by (auto simp: r2_plan_def set_map_filter_Some)
  obtain l where l: "l \<in> set ls" "row = (l, filter (\<lambda>p. by_hand p \<and> pays p l) (window_payments db wlo whi))" using row(1) by (auto simp: deposit_rows_def)
  have "p \<in> set (snd row)" using sole_in[OF r2_takeD(1)[OF row(2)]] by simp
  then have p: "p \<in> set (window_payments db wlo whi)" "pays p l" using l(2) by auto
  then have "agrees db l [(Payments, p_id p)]"
    using live_records(1)[OF ok, of p] window_live(1)[OF p(1)] sec l(1) by (simp add: agrees_def pays_def)
  then show ?thesis using row(3) l by (auto simp: pairs_well_def pay_input_def)
qed

lemma r3_pairs_well:
  assumes ok: "rows_ok db" and pool: "set pool \<subseteq> set (window_payments db wlo whi)"
  shows "\<forall>l \<in> set ls. bl_section l = SECTION_DEPOSIT \<Longrightarrow> i \<in> set (r3_plan account sigs pool swept ls) \<Longrightarrow> pairs_well db (set ls) i"
proof (induction ls arbitrary: swept)
  case (Cons l ls)
  have rest: "i \<in> set (r3_plan account sigs pool sw ls) \<Longrightarrow> pairs_well db (set (l # ls)) i" for sw
    using Cons by (auto simp: pairs_well_def)
  have here: "pairs_well db (set (l # ls)) (sweep_match account l combo)" if c: "sweep (sweep_candidates pool swept l) l = Some combo" for combo
  proof -
    have sub: "combo \<in> set (sweep_subsets (sweep_candidates pool swept l))" by (rule sweep_Some(1)[OF c])
    then have "set combo \<subseteq> set (sweep_candidates pool swept l)" "combo \<noteq> []"
      by (auto simp: sweep_subsets_set subseq_conv_nths dest: in_set_nthsD)
    then have ps: "set combo \<subseteq> set (window_payments db wlo whi)" using pool by (auto simp: sweep_candidates_def)
    have rec: "record_cents db (Payments, p_id p) = row_cents (p_amount p) \<and> dead_source_reason db (Payments, p_id p) = None" if "p \<in> set combo" for p
    proof -
      have "p \<in> set (window_payments db wlo whi)" using ps that by blast
      then show ?thesis using window_live(1) live_records(1)[OF ok] by simp
    qed
    have "map (record_cents db) (map (\<lambda>p. (Payments, p_id p)) combo) = map (\<lambda>p. row_cents (p_amount p)) combo" using rec by simp
    then have "sum_list (map (record_cents db) (map (\<lambda>p. (Payments, p_id p)) combo)) = sweep_total combo" unfolding sweep_total_def by (rule arg_cong)
    then have "agrees db l (map (\<lambda>p. (Payments, p_id p)) combo)"
      using rec sweep_Some(2)[OF c] Cons.prems(1) unfolding agrees_def by simp
    then show ?thesis using \<open>combo \<noteq> []\<close> by (simp add: pairs_well_def)
  qed
  show ?case using Cons.prems(2) rest here by (auto split: option.splits if_splits)
qed simp

lemma debit_pairs_well:
  assumes ok: "rows_ok db" and sec: "\<forall>l \<in> set ls. bl_section l \<noteq> SECTION_DEPOSIT"
    and i: "i \<in> set (debit_plan account sigs (window_expenses db wlo whi) (open_bills db) ls)"
  shows "pairs_well db (set ls) i"
proof -
  obtain l where l: "l \<in> set ls" and t: "i \<in> set (debit_take account sigs (expense_rows_for (window_expenses db wlo whi) ls) (bill_rows_for (open_bills db) ls)
      (l, filter (\<lambda>x. spends x l) (window_expenses db wlo whi), filter (\<lambda>v. vb_total v \<noteq> None \<and> bills v l) (open_bills db)))"
    using i by (auto simp: debit_plan_def debit_rows_def)
  show ?thesis
  proof (rule debit_takeD[OF t])
    fix x assume x: "sole x_id (expense_rows_for (window_expenses db wlo whi) ls) (filter (\<lambda>x. spends x l) (window_expenses db wlo whi)) = Some x" "i = expense_match account l x"
    have "x \<in> set (filter (\<lambda>x. spends x l) (window_expenses db wlo whi))" unfolding sole_in[OF x(1)] by simp
    then have "x \<in> set (window_expenses db wlo whi)" "spends x l" by auto
    then have "agrees db l [(Expenses, x_id x)]"
      using live_records(2)[OF ok, of x] window_live(2)[of x db wlo whi] sec l by (simp add: agrees_def spends_def)
    then show ?thesis using x(2) l by (auto simp: pairs_well_def)
  next
    fix v assume v: "sole vb_id (bill_rows_for (open_bills db) ls) (filter (\<lambda>v. vb_total v \<noteq> None \<and> bills v l) (open_bills db)) = Some v" "i = bill_match account l v"
    have "v \<in> set (filter (\<lambda>v. vb_total v \<noteq> None \<and> bills v l) (open_bills db))" unfolding sole_in[OF v(1)] by simp
    then have "v \<in> set (open_bills db)" "bills v l" by auto
    then have "agrees db l [(VendorInvoices, vb_id v)]"
      using live_records(3)[OF ok, of v] window_live(3)[of v db] sec l by (simp add: agrees_def bills_def)
    then show ?thesis using v(2) l by (auto simp: pairs_well_def)
  qed
qed

lemma ladder_pairs_well:
  assumes ok: "rows_ok db" and i: "i \<in> set (ladder_plan db account lo hi)"
  shows "pairs_well db (set (open_lines db account lo hi)) i"
proof -
  define sigs where "sigs = rejected_signatures db account"
  define wlo where "wlo = add_days lo (- R3_WINDOW_BACK_DAYS)"
  define whi where "whi = add_days hi R3_WINDOW_BACK_DAYS"
  define ps where "ps = window_payments db wlo whi"
  define rivals where "rivals = rival_rows ps (competitor_deposits db wlo whi)"
  define dep where "dep = open_rest db account lo hi [SECTION_DEPOSIT]"
  define deb where "deb = open_rest db account lo hi [SECTION_DEBIT, SECTION_CHECK]"
  define used where "used = r2_used account sigs rivals (deposit_rows ps dep)"
  define left where "left = r2_open account sigs rivals (deposit_rows ps dep)"
  have up: "pairs_well db (set ls) i \<Longrightarrow> set ls \<subseteq> set (open_lines db account lo hi) \<Longrightarrow> ?thesis" for ls
    by (auto simp: pairs_well_def)
  have sub: "set dep \<subseteq> set (open_lines db account lo hi)" "set deb \<subseteq> set (open_lines db account lo hi)" "set left \<subseteq> set dep"
    by (auto simp: dep_def deb_def open_rest_def left_def r2_open_def deposit_rows_def)
  have sec: "\<forall>l \<in> set dep. bl_section l = SECTION_DEPOSIT" "\<forall>l \<in> set deb. bl_section l \<noteq> SECTION_DEPOSIT" "\<forall>l \<in> set left. bl_section l = SECTION_DEPOSIT"
    using sub(3) by (auto simp: dep_def deb_def open_rest_def)
  consider "i \<in> set (class_plan account sigs (open_lines db account lo hi))" | "i \<in> set (r2_plan account sigs rivals (deposit_rows ps dep))"
    | "i \<in> set (r3_plan account sigs (sweep_pool ps used) [] left)" | "i \<in> set (debit_plan account sigs (window_expenses db wlo whi) (open_bills db) deb)"
    using i unfolding ladder_plan_def Let_def deposit_plan_def sigs_def wlo_def whi_def ps_def rivals_def dep_def deb_def used_def left_def by auto
  then show ?thesis
  proof cases
    case 1
    then obtain l c conf where "l \<in> set (open_lines db account lo hi)" "classification_of l = Some (c, conf)"
      "i = line_match account ''R5'' l [] (Some c) conf None"
      by (auto simp: class_plan_def set_map_filter_Some class_input_def)
    then show ?thesis by (auto simp: pairs_well_def)
  next
    case 2
    then show ?thesis using up[OF r2_pairs_well[OF ok sec(1)] sub(1)] unfolding ps_def by blast
  next
    case 3
    have "set (sweep_pool ps used) \<subseteq> set (window_payments db wlo whi)" by (auto simp: sweep_pool_def ps_def)
    from up[OF r3_pairs_well[OF ok this sec(3) 3]] sub show ?thesis by blast
  next
    case 4
    then show ?thesis using up[OF debit_pairs_well[OF ok sec(2)] sub(2)] by blast
  qed
qed

text \<open>
  C21.  Every new suggestion is about one open line of the account in the range.  It either classifies the line, or its books records are
  live and add up to the line to the cent: money in for a deposit, money out for a debit or a check.
\<close>

theorem suggestions_agree_to_the_cent:
  assumes "match_ok db" "payment_matches_ok db" "rows_ok db" "range_ok lo hi"
    and "suggest_matches account lo hi db = (Inr stats, db')" and "m \<in> set (bd_matches db') - set (bd_matches db)"
  shows "\<exists>l \<in> set (bd_lines db). lines_of db' (bm_id m) = [bl_id l] \<and> bl_account l = account \<and> in_range lo hi (bl_date l) \<and>
    (if externals_of db' (bm_id m) = [] then classification_of l \<noteq> None else agrees db l (externals_of db' (bm_id m)))"
proof -
  define db0 where "db0 = drop_matches (stale_suggestions db account lo hi) db"
  define plan where "plan = ladder_plan db0 account lo hi"
  have S: "db' = add_all plan db0" "exclusive (add_all plan db0)" "match_ok db0"
    using suggest_run[OF assms(1-4), of account] assms(5) unfolding plan_def db0_def by auto
  have "m \<notin> set (bd_matches db0)" using assms(6) by (simp add: db0_def)
  then obtain i where i: "i \<in> set plan" "lines_of db' (bm_id m) = mi_lines i" "externals_of db' (bm_id m) = mi_externals i"
    using children_of_add_all(2)[OF S(3) S(2), folded S(1), of m] assms(6) by blast
  have ok: "rows_ok db0" unfolding db0_def by (rule rows_ok_drop[OF assms(3)])
  obtain l where l: "l \<in> set (open_lines db0 account lo hi)" "mi_lines i = [bl_id l]"
      "if mi_externals i = [] then classification_of l \<noteq> None else agrees db0 l (mi_externals i)"
    using ladder_pairs_well[OF ok i(1)[unfolded plan_def]] by (auto simp: pairs_well_def)
  have "agrees db0 l rs = agrees db l rs" for rs
  proof -
    have "record_cents db0 r = record_cents db r" "dead_source_reason db0 r = dead_source_reason db r" for r
      by (cases r; cases "fst r"; simp add: db0_def record_cents_def record_amount_def dead_source_reason_def get_payment_def get_expense_def get_bill_def)+
    then have "record_cents db0 = record_cents db" "dead_source_reason db0 = dead_source_reason db" by (simp_all add: fun_eq_iff)
    then show ?thesis by (simp add: agrees_def)
  qed
  then show ?thesis using l i(2,3) open_lines_props(3)[OF ok l(1)] by (auto simp: db0_def)
qed

section \<open>A deposit and a check\<close>

definition sample_deposit :: bank_line where
  "sample_deposit = \<lparr>bl_id = 2, bl_account = 1, bl_import = 0, bl_date = Date 26 4 10, bl_amount = 50, bl_description = ''DEPOSIT'',
     bl_section = SECTION_DEPOSIT, bl_check_number = None, bl_occurrence = 1, bl_hash = ''h''\<rparr>"

definition sample_check :: payment where
  "sample_check = \<lparr>p_id = 3, p_invoice = 4, p_amount = Some (Fin 50 (-2)), p_surcharge = None, p_method = Some ''check'',
     p_date = Some (Date 26 4 9), p_created_at = None, p_voided_at = None\<rparr>"

definition match_sample :: bank_db where
  "match_sample = empty_bank_db\<lparr>bd_gl := empty_db\<lparr>db_payments := [sample_check]\<rparr>, bd_lines := [sample_deposit], bd_uuid := 5\<rparr>"

lemma match_sample_fields:
  "db_payments (bd_gl match_sample) = [sample_check]" "db_expenses (bd_gl match_sample) = []" "bd_lines match_sample = [sample_deposit]"
  "bd_bills match_sample = []" "bd_matches match_sample = []" "bd_match_lines match_sample = []" "bd_match_externals match_sample = []"
  "bd_bill_payments match_sample = []" "bd_uuid match_sample = 5"
  by (simp_all add: match_sample_def empty_bank_db_def empty_db_def)

lemma match_sample_ok: "match_ok match_sample" "payment_matches_ok match_sample" "rows_ok match_sample" "range_ok (Date 26 4 1) (Date 26 4 30)"
proof -
  show "range_ok (Date 26 4 1) (Date 26 4 30)" by code_simp
  show "rows_ok match_sample" by (simp add: rows_ok_def match_sample_fields exact_money_def sample_check_def)
  show "match_ok match_sample" "payment_matches_ok match_sample"
    by (simp_all add: match_ok_def payment_matches_ok_def exclusive_def matched_line_ids_def used_externals_def match_sample_fields)
qed

lemma seven_days: "f ^^ 7 = (f :: date \<Rightarrow> date) \<circ> f \<circ> f \<circ> f \<circ> f \<circ> f \<circ> f"
  by (simp add: eval_nat_numeral comp_assoc)

lemma sample_window:
  "add_days (Date 26 4 1) (- R3_WINDOW_BACK_DAYS) = Date 26 3 25" "add_days (Date 26 4 30) R3_WINDOW_BACK_DAYS = Date 26 5 7"
  by (simp_all add: add_days_def R3_WINDOW_BACK_DAYS_def seven_days next_day_def prev_day_def month_days_def leap_def)

lemma sample_reading:
  "in_range (Date 26 4 1) (Date 26 4 30) (bl_date sample_deposit)" "in_range (Date 26 3 25) (Date 26 5 7) (bl_date sample_deposit)"
  "in_range (Date 26 3 25) (Date 26 5 7) (the (p_date sample_check))" "classification_of sample_deposit = None" "\<not> is_transfer sample_deposit"
  "pays sample_check sample_deposit" "by_hand sample_check"
  by code_simp+

lemma match_sample_plan: "pay_input 1 sample_deposit sample_check \<in> set (ladder_plan match_sample 1 (Date 26 4 1) (Date 26 4 30))"
proof -
  have d: "bl_account sample_deposit = 1" "bl_section sample_deposit = SECTION_DEPOSIT" by (simp_all add: sample_deposit_def)
  have p: "p_date sample_check = Some (the (p_date sample_check))" "p_voided_at sample_check = None" by (simp_all add: sample_check_def)
  have none: "rejected_signatures match_sample 1 = []" "matched_line_ids match_sample = []" "used_externals match_sample = []"
    by (simp_all add: rejected_signatures_def matched_line_ids_def used_externals_def match_sample_fields)
  have ps: "window_payments match_sample (Date 26 3 25) (Date 26 5 7) = [sample_check]"
    unfolding window_payments_def none using sample_reading(3) p by (cases "p_date sample_check") (simp_all add: match_sample_fields)
  have cs: "competitor_deposits match_sample (Date 26 3 25) (Date 26 5 7) = [sample_deposit]"
    unfolding competitor_deposits_def none using sample_reading d by (simp add: match_sample_fields)
  have ls: "open_rest match_sample 1 (Date 26 4 1) (Date 26 4 30) [SECTION_DEPOSIT] = [sample_deposit]"
    unfolding open_rest_def open_lines_def range_lines_def none using sample_reading d by (simp add: match_sample_fields)
  have "r2_plan 1 [] (rival_rows [sample_check] [sample_deposit]) (deposit_rows [sample_check] [sample_deposit]) = [pay_input 1 sample_deposit sample_check]"
    using sample_reading by (simp add: r2_plan_def r2_take_def rival_rows_def deposit_rows_def sole_def degree_def wanted_def map_filter_simps)
  then show ?thesis unfolding ladder_plan_def Let_def deposit_plan_def sample_window none ps cs ls by simp
qed


theorem suggestions_agree_to_the_cent_witness:
  "\<exists>stats db' m. suggest_matches 1 (Date 26 4 1) (Date 26 4 30) match_sample = (Inr stats, db') \<and> m \<in> set (bd_matches db') \<and>
     lines_of db' (bm_id m) = [2] \<and> externals_of db' (bm_id m) = [(Payments, 3)] \<and> agrees match_sample sample_deposit [(Payments, 3)]"
proof -
  define plan where "plan = ladder_plan match_sample 1 (Date 26 4 1) (Date 26 4 30)"
  have "drop_matches (stale_suggestions match_sample 1 (Date 26 4 1) (Date 26 4 30)) match_sample = match_sample"
    by (simp add: drop_matches_def stale_suggestions_def match_sample_def empty_bank_db_def)
  then obtain stats where run: "suggest_matches 1 (Date 26 4 1) (Date 26 4 30) match_sample = (Inr stats, add_all plan match_sample)"
    and ex: "exclusive (add_all plan match_sample)"
    using suggest_run[OF match_sample_ok, of 1] unfolding plan_def by auto
  obtain m where m: "m \<in> set (bd_matches (add_all plan match_sample))" "lines_of (add_all plan match_sample) (bm_id m) = [2]"
    "externals_of (add_all plan match_sample) (bm_id m) = [(Payments, 3)]"
    using plan_members[OF match_sample_ok(1) ex match_sample_plan[folded plan_def]]
    by (auto simp: pay_input_def line_match_def sample_deposit_def sample_check_def)
  have "m \<in> set (bd_matches (add_all plan match_sample)) - set (bd_matches match_sample)" using m(1) by (simp add: match_sample_fields)
  from suggestions_agree_to_the_cent[OF match_sample_ok run this] have "agrees match_sample sample_deposit [(Payments, 3)]"
    unfolding m(2,3) by (simp add: match_sample_fields)
  then show ?thesis using run m by blast
qed

end
