(* ===== verification/Match_Effects.thy ===== *)
theory Match_Effects
  imports Match_System
begin

text \<open>
  Confirming, rejecting, unconfirming and matching by hand keep the invariant of the match tables, of the payments that name a match,
  and of the bills.
\<close>

section \<open>What the effects leave alone\<close>

text \<open>The ids and statuses of the matches.\<close>

definition roster :: "bank_db \<Rightarrow> (uuid \<times> match_status) list" where
  "roster db = map (\<lambda>m. (bm_id m, bm_status m)) (bd_matches db)"

lemma has_parent_roster: "has_parent db u st \<longleftrightarrow> (u, st) \<in> set (roster db)"
  by (auto simp: has_parent_def roster_def)

lemma match_ids_roster: "map bm_id (bd_matches db) = map fst (roster db)"
  by (simp add: roster_def)

text \<open>What the identity and the money of the rows are.\<close>

definition rows_view :: "bank_db \<Rightarrow> uuid list \<times> (uuid \<times> decimal option) list \<times> (uuid \<times> decimal option) list \<times> (uuid \<times> decimal option) list" where
  "rows_view db = (map bl_id (bd_lines db), map (\<lambda>p. (p_id p, p_amount p)) (db_payments (bd_gl db)),
     map (\<lambda>x. (x_id x, x_amount x)) (db_expenses (bd_gl db)), map (\<lambda>v. (vb_id v, vb_total v)) (bd_bills db))"

lemma rows_ok_view:
  "rows_ok db \<longleftrightarrow> (case rows_view db of (ls, ps, xs, vs) \<Rightarrow> distinct ls \<and> distinct (map fst ps) \<and> distinct (map fst xs) \<and> distinct (map fst vs) \<and>
     (\<forall>p \<in> set ps. exact_money (snd p)) \<and> (\<forall>x \<in> set xs. exact_money (snd x)) \<and> (\<forall>v \<in> set vs. snd v \<noteq> None \<longrightarrow> exact_money (snd v)))"
  by (simp add: rows_ok_def rows_view_def comp_def)

text \<open>The confirm and revert effects: notes, statuses, dates, payments of bills and the ledger may change, the match structure does not.\<close>

definition calm :: "bank_db \<Rightarrow> bank_db \<Rightarrow> bool" where
  "calm s t \<longleftrightarrow> roster t = roster s \<and> bd_match_lines t = bd_match_lines s \<and> bd_match_externals t = bd_match_externals s \<and>
     rows_view t = rows_view s \<and> bd_uuid s \<le> bd_uuid t"

interpretation effects: tracked calm
  by unfold_locales (auto simp: calm_def)

lemma calm_edit_match: "(\<And>m. bm_id (f m) = bm_id m) \<Longrightarrow> (\<And>m. bm_status (f m) = bm_status m) \<Longrightarrow> tracks calm (change (edit_match u f))"
  by (auto simp: tracks_def change_def calm_def roster_def edit_match_def rows_view_def)

lemma calm_noted [tracking]: "tracks calm (noted u t x)"
  unfolding noted_def by (intro effects.tracks_rules calm_edit_match) (simp_all add: append_note_def)

lemma calm_computed [tracking]: "tracks calm (computed f)"
  unfolding computed_def by (rule effects.tracks_reads)

lemma calm_fresh [tracking]: "tracks calm fresh_id"
  by (simp add: tracks_def fresh_id_def calm_def roster_def rows_view_def)

lemma calm_rows [tracking]:
  "tracks calm (change (\<lambda>db. db\<lparr>bd_bill_payments := g db\<rparr>))" "tracks calm (change (set_bill_status b st))"
  "tracks calm (change (mark_voided env p who))" "tracks calm (change (detach_payment u p))"
  by (auto simp: tracks_def change_def calm_def roster_def set_bill_status_def mark_voided_def detach_payment_def rows_view_def)

lemma calm_edit_expense: "(\<And>x. x_id (f x) = x_id x) \<Longrightarrow> (\<And>x. x_amount (f x) = x_amount x) \<Longrightarrow> tracks calm (change (edit_expense env u f))"
  by (auto simp: tracks_def change_def calm_def roster_def edit_expense_def rows_view_def)

lemma calm_redate [tracking]: "tracks calm (change (edit_expense env u (\<lambda>y. y\<lparr>x_date := d\<rparr>)))" "tracks calm (change (edit_expense env u (\<lambda>y. y\<lparr>x_deleted_at := t\<rparr>)))"
  by (rule calm_edit_expense; simp)+

lemma calm_ledger [tracking]:
  assumes "tracks same_workflow m"
  shows "tracks calm (ledger m)"
  unfolding tracks_def
proof
  fix db :: bank_db
  obtain r g where m: "m (bd_gl db) = (r, g)" by fastforce
  have "db_expenses g = db_expenses (bd_gl db)" "db_payments g = db_payments (bd_gl db)" using tracksD[OF assms m] by (simp_all add: same_workflow_def)
  then show "calm db (snd (ledger m db))" by (simp add: ledger_def m calm_def roster_def rows_view_def)
qed

lemma calm_redate_expense [tracking]: "tracks calm (redate_expense env target cache x)"
  unfolding redate_expense_def repost_redated_def reverse_lock_tolerant_def finish_reversal_def by (intro effects.tracks_rules tracking)

lemma calm_redate_expenses [tracking]: "tracks calm (redate_expenses env target cache us)"
  by (induction us arbitrary: cache) (simp, intro effects.tracks_rules tracking, simp, intro effects.tracks_rules tracking, assumption+)

lemma calm_sync [tracking]: "tracks calm (sync_expense_dates env b)"
  unfolding sync_expense_dates_def by (intro effects.tracks_rules tracking)

lemma calm_recompute [tracking]: "tracks calm (recompute_status b)"
  unfolding recompute_status_def Let_def by (intro effects.tracks_rules tracking)

lemma calm_record [tracking]: "tracks calm (record_payment env b i)"
  unfolding record_payment_def refresh_bill_def insert_payment_def Let_def by (intro effects.tracks_rules tracking)

lemma calm_void [tracking]: "tracks calm (void_payment env who via p)"
  unfolding void_payment_def by (intro effects.tracks_rules tracking)

lemma calm_apply [tracking]: "tracks calm (apply_confirm_effects env m user)"
  unfolding apply_confirm_effects_def pay_bill_def by (intro effects.tracks_rules tracking)

lemma calm_forget: "tracks calm (change (edit_match u (\<lambda>b. b\<lparr>bm_created_expense := None\<rparr>)))"
  by (rule calm_edit_match; simp)

lemma calm_revert [tracking]: "tracks calm (revert_confirm_effects env m user)"
  unfolding revert_confirm_effects_def withdraw_payment_def withdraw_expense_def
  by (intro effects.tracks_rules tracking calm_forget)

section \<open>The match tables\<close>

lemma exclusive_frame: "bd_match_lines t = bd_match_lines s \<Longrightarrow> bd_match_externals t = bd_match_externals s \<Longrightarrow> exclusive t = exclusive s"
  by (simp add: exclusive_def matched_line_ids_def used_externals_def)

lemma ids_below_roster: "(\<forall>m \<in> set (bd_matches db). bm_id m < n) \<longleftrightarrow> (\<forall>e \<in> set (roster db). fst e < n)"
  by (auto simp: roster_def)

lemma match_ok_calm:
  assumes "calm s t" "match_ok s"
  shows "match_ok t"
proof -
  have c: "roster t = roster s" "bd_match_lines t = bd_match_lines s" "bd_match_externals t = bd_match_externals s" "bd_uuid s \<le> bd_uuid t"
    using assms(1) by (simp_all add: calm_def)
  show ?thesis using assms(2) c(4) unfolding match_ok_def has_parent_roster match_ids_roster ids_below_roster exclusive_frame[OF c(2,3)] c(1-3) by auto
qed

text \<open>A transition gives one match and then its children the new status.\<close>

lemma match_ok_moved:
  assumes ok: "match_ok db" and f: "\<And>m. bm_id (f m) = bm_id m" "\<And>m. bm_status (f m) = st" and u: "has_parent db u st0"
    and c: "calm (edit_match u f db) t" and ex: "exclusive (sync_children u st t)"
  shows "match_ok (sync_children u st t)"
proof -
  have r: "roster (sync_children u st t) = map (\<lambda>e. if fst e = u then (u, st) else e) (roster db)"
    using c by (simp add: calm_def roster_def sync_children_def edit_match_def comp_def f if_distrib cong: if_cong)
  have ch: "bd_match_lines t = bd_match_lines db" "bd_match_externals t = bd_match_externals db" "bd_uuid db \<le> bd_uuid (sync_children u st t)"
    using c by (simp_all add: calm_def edit_match_def sync_children_def)
  have par: "has_parent (sync_children u st t) v s" if "v \<noteq> u" "has_parent db v s" for v s
    using that unfolding has_parent_roster r by force
  have new: "has_parent (sync_children u st t) u st" using u unfolding has_parent_roster r by force
  have "map fst (roster (sync_children u st t)) = map fst (roster db)" unfolding r by (simp add: comp_def if_distrib cong: if_cong)
  moreover have "\<forall>e \<in> set (roster (sync_children u st t)). fst e < bd_uuid (sync_children u st t)"
    using ok ch(3) u unfolding match_ok_def ids_below_roster r has_parent_roster by fastforce
  moreover have "\<forall>l \<in> set (bd_match_lines (sync_children u st t)). has_parent (sync_children u st t) (ml_match l) (ml_status l)"
    "\<forall>x \<in> set (bd_match_externals (sync_children u st t)). has_parent (sync_children u st t) (mx_match x) (mx_status x)"
    using ok par new unfolding match_ok_def by (auto simp: sync_children_def ch)
  ultimately show ?thesis using ok ex unfolding match_ok_def match_ids_roster ids_below_roster by simp
qed

section \<open>The payments that name a match\<close>

text \<open>What the recording and the voiding of a payment do to the table.\<close>

lemma frame_pays: "tracks books_only m \<Longrightarrow> m s = (r, t) \<Longrightarrow> bd_bill_payments t = bd_bill_payments s \<and> bd_bills t = bd_bills s"
  using books_only_fields(1,2)[of s t] tracksD[of books_only m s r t] by auto

lemma recompute_pays: "recompute_status b s = (r, t) \<Longrightarrow> bd_bill_payments t = bd_bill_payments s"
  by (auto simp: recompute_status_def run_simps run_ends computed_def Let_def set_bill_status_def split: if_split_asm sum.split_asm)

lemma settle_pays:
  assumes "andthen (recompute_status b) (\<lambda>_. andthen (sync_expense_dates env b) (\<lambda>_. ok x)) s = (r, t)"
  shows "bd_bill_payments t = bd_bill_payments s"
proof -
  obtain r1 s1 where 1: "recompute_status b s = (r1, s1)" by fastforce
  obtain r2 s2 where 2: "sync_expense_dates env b s1 = (r2, s2)" by fastforce
  have "t = s1 \<or> t = s2" using assms 1 2 by (auto simp: andthen_def ok_def split: sum.split_asm)
  then show ?thesis using recompute_pays[OF 1] frame_pays[OF sync_expense_dates_books 2] by auto
qed

lemma void_pays:
  assumes "void_payment env who via p s = (r, t)"
  shows "bd_bill_payments t = bd_bill_payments s \<and> (r = Inr () \<longrightarrow> bp_voided_at p \<noteq> None) \<or>
    (via \<or> \<not> match_confirmed s (bp_match p)) \<and> bd_bill_payments t = bd_bill_payments (mark_voided env (bp_id p) who s)"
  using assms by (auto simp: void_payment_def run_simps run_ends split: if_split_asm option.split_asm dest: settle_pays)

lemma record_pays:
  assumes "record_payment env u i s = (r, t)"
  shows "bd_bill_payments t = bd_bill_payments s \<and> (\<forall>p. r \<noteq> Inr p) \<or>
    (\<exists>p. bd_bill_payments t = bd_bill_payments s @ [p] \<and> bp_match p = pi_match i \<and> bp_voided_at p = None)"
proof -
  define tail where "tail b = andthen (insert_payment env u i) (\<lambda>p. andthen (recompute_status b) (\<lambda>_. andthen (sync_expense_dates env b) (\<lambda>_. ok p)))" for b
  have "(\<exists>e. r = Inl e) \<and> t = s \<or> (\<exists>b. tail b s = (r, t))"
    using assms by (auto simp: record_payment_def refresh_bill_def run_simps run_ends computed_def tail_def split: if_split_asm sum.split_asm option.split_asm)
  then show ?thesis
  proof
    assume "\<exists>b. tail b s = (r, t)"
    then obtain b where b: "tail b s = (r, t)" ..
    define s1 where "s1 = add_payment env u i s"
    define p where "p = mk_payment env (bd_uuid s) u i"
    have "tail b s = (if match_paid s (pi_match i) then (Inl (LedgerRaised IntegrityError), s)
        else andthen (recompute_status b) (\<lambda>_. andthen (sync_expense_dates env b) (\<lambda>_. ok p)) s1)"
      by (simp add: tail_def insert_payment_def andthen_def asks_def throw_def fresh_id_def change_def ok_def Let_def s1_def p_def add_payment_def)
    moreover have "bd_bill_payments s1 = bd_bill_payments s @ [p]" "bp_match p = pi_match i" "bp_voided_at p = None"
      by (simp_all add: s1_def p_def add_payment_def mk_payment_def)
    ultimately show ?thesis using b settle_pays[of b env p s1 r t] by (auto split: if_split_asm)
  qed auto
qed

text \<open>The parents a payment may have, in two lists of payments.\<close>

lemma payment_matches_add:
  assumes "payment_matches_ok s" "bd_bill_payments t = bd_bill_payments s @ [p]" "bp_voided_at p = None"
    and "\<And>u. bp_match p = Some u \<Longrightarrow> has_parent t u MATCH_CONFIRMED \<and> (\<forall>q \<in> set (bd_bill_payments s). bp_match q \<noteq> Some u)"
    and "\<And>u. has_parent s u MATCH_CONFIRMED \<Longrightarrow> has_parent t u MATCH_CONFIRMED"
  shows "payment_matches_ok t"
  using assms unfolding payment_matches_ok_def by (auto 4 3)

text \<open>A step that changes neither bills nor their payments.\<close>

definition bills_kept :: "bank_db \<Rightarrow> bank_db \<Rightarrow> bool" where
  "bills_kept s t \<longleftrightarrow> bd_bills t = bd_bills s \<and> bd_bill_payments t = bd_bill_payments s \<and> bd_uuid s \<le> bd_uuid t"

interpretation aside: tracked bills_kept
  by unfold_locales (auto simp: bills_kept_def)

lemma bills_ok_kept: "bills_kept s t \<Longrightarrow> bills_ok s \<Longrightarrow> bills_ok t"
  unfolding bills_kept_def by (rule bills_ok_frame(1)) auto

lemma kept_rules [tracking]:
  "tracks bills_kept (computed h)" "tracks bills_kept (ledger m)" "tracks bills_kept (change (edit_expense env v f))"
  "tracks bills_kept (change (edit_match u g))" "tracks bills_kept (change (sync_children u st))" "tracks bills_kept flush_matches"
  by (simp_all add: tracks_def computed_def reads_def ledger_def change_def flush_matches_def bills_kept_def edit_expense_def edit_match_def
      sync_children_def split: prod.split)

lemma kept_noted [tracking]: "tracks bills_kept (noted u t x)"
  unfolding noted_def by (intro aside.tracks_rules tracking)

lemma kept_withdraw_expense [tracking]: "tracks bills_kept (withdraw_expense env u v)"
  unfolding withdraw_expense_def by (intro aside.tracks_rules tracking)

section \<open>Confirming\<close>

lemma div100_whole: "whole_cents (div100 n)"
  by (simp add: div100_def)

text \<open>The ways the effects of a confirmation end.\<close>

lemma pay_bill_shape:
  assumes "pay_bill env m user v db = (Inr e, t)"
  shows "t = db \<or> (\<exists>u n x. noted u n x db = (Inr e, t)) \<or>
    (\<exists>w r s. record_payment env w (match_payment m (match_lines db (bm_id m)) user) db = (r, s) \<and> (t = s \<or> (\<exists>u n x. noted u n x s = (Inr e, t))))"
proof -
  define i where "i = match_payment m (match_lines db (bm_id m)) user"
  show ?thesis
    using assms unfolding pay_bill_def run_simps(3) i_def[symmetric]
    by (auto simp: run_ends run_simps catch_def andthen_def split: if_split_asm option.split_asm prod.split_asm sum.split_asm) blast+
qed

lemma apply_shape:
  assumes "apply_confirm_effects env m user db = (Inr e, t)"
  shows "t = db \<or> (\<exists>u n x. noted u n x db = (Inr e, t)) \<or> (\<exists>v. pay_bill env m user v db = (Inr e, t))"
  using assms by (auto simp: apply_confirm_effects_def run_simps run_ends split: if_split_asm list.split_asm)

lemma match_payment_fields: "whole_cents (pi_amount (match_payment m ls user))" "pi_match (match_payment m ls user) = Some (bm_id m)"
  by (simp_all add: match_payment_def div100_whole)

lemma pay_bill_effects:
  assumes ok: "bills_ok db" and run: "pay_bill env m user v db = (Inr e, t)"
  shows "bills_ok t \<and> (bd_bill_payments t = bd_bill_payments db \<or>
    (\<exists>p. bd_bill_payments t = bd_bill_payments db @ [p] \<and> bp_match p = Some (bm_id m) \<and> bp_voided_at p = None))"
proof -
  define i where "i = match_payment m (match_lines db (bm_id m)) user"
  have i: "whole_cents (pi_amount i)" "pi_match i = Some (bm_id m)" by (simp_all add: i_def match_payment_fields)
  have quiet: "bills_ok t \<and> bd_bill_payments t = bd_bill_payments s" if "bills_ok s" "noted u n x s = (Inr y, t)" for s u n x and y :: confirm_effect
    using tracksD[OF kept_noted that(2)] bills_ok_kept that(1) by (auto simp: bills_kept_def)
  consider "t = db" | u n x where "noted u n x db = (Inr e, t)"
    | w r s where "record_payment env w i db = (r, s)" "t = s \<or> (\<exists>u n x. noted u n x s = (Inr e, t))"
    using pay_bill_shape[OF run] unfolding i_def by blast
  then show ?thesis
  proof cases
    case 3
    have "bills_ok s" by (rule record_payment_keeps[OF ok i(1) 3(1)])
    moreover have "bills_ok t \<and> bd_bill_payments t = bd_bill_payments s" using calculation 3(2) quiet by blast
    ultimately show ?thesis using record_pays[OF 3(1)] i(2) by auto
  qed (use ok quiet in blast)+
qed

lemma apply_effects:
  assumes ok: "bills_ok db" and run: "apply_confirm_effects env m user db = (Inr e, t)"
  shows "bills_ok t \<and> (bd_bill_payments t = bd_bill_payments db \<or>
    (\<exists>p. bd_bill_payments t = bd_bill_payments db @ [p] \<and> bp_match p = Some (bm_id m) \<and> bp_voided_at p = None))"
proof -
  show ?thesis using apply_shape[OF run] ok pay_bill_effects[OF ok] tracksD[OF kept_noted] bills_ok_kept unfolding bills_kept_def by metis
qed

section \<open>Unconfirming\<close>

definition withdrawn :: "gl_env \<Rightarrow> string option \<Rightarrow> uuid \<Rightarrow> bill_payment \<Rightarrow> bill_payment" where
  "withdrawn env user u q =
     q\<lparr>bp_voided_at := Some (now_utc env), bp_voided_by := user, bp_reference := Some (detached_reference u (bp_reference q)), bp_match := None\<rparr>"

lemma detach_bills: "bills_ok s \<Longrightarrow> bills_ok (detach_payment u p s)"
proof -
  assume ok: "bills_ok s"
  have same: "paid_cents (detach_payment u p s) v = paid_cents s v" for v
  proof -
    have "sum_list (map (\<lambda>p. cents_val (bp_amount p)) (filter (\<lambda>p. bp_bill p = v \<and> bp_voided_at p = None)
        (map (\<lambda>q. if bp_id q = p then q\<lparr>bp_reference := Some (detached_reference u (bp_reference q)), bp_match := None\<rparr> else q) qs))) =
      sum_list (map (\<lambda>p. cents_val (bp_amount p)) (filter (\<lambda>p. bp_bill p = v \<and> bp_voided_at p = None) qs))" for qs :: "bill_payment list"
      by (induction qs) auto
    then show ?thesis by (simp add: paid_cents_filter detach_payment_def)
  qed
  have "payments_ok (detach_payment u p s)"
    using ok by (auto simp: bills_ok_def payments_ok_def detach_payment_def comp_def if_distrib cong: if_cong)
  moreover have "bill_ok (detach_payment u p s) b" if "b \<in> set (bd_bills s)" for b
    using ok that bill_ok_other[OF _ same] by (simp add: bills_ok_def)
  ultimately show ?thesis using ok by (simp add: bills_ok_def detach_payment_def)
qed

lemma withdraw_effects:
  assumes ok: "bills_ok s" and p: "p \<in> set (bd_bill_payments s)" "bp_voided_at p = None" and run: "withdraw_payment env u user p s = (Inr (), t)"
  shows "bills_ok t" "bd_bill_payments t = map (\<lambda>q. if bp_id q = bp_id p then withdrawn env user u q else q) (bd_bill_payments s)"
proof -
  obtain s1 where v: "void_payment env user True p s = (Inr (), s1)" and t: "t = detach_payment u (bp_id p) s1"
    using run by (auto simp: withdraw_payment_def andthen_def change_def split: prod.split_asm sum.split_asm)
  show "bills_ok t" unfolding t by (rule detach_bills[OF void_payment_keeps[OF ok p(1) v]])
  have "bd_bill_payments s1 = bd_bill_payments (mark_voided env (bp_id p) user s)" using void_pays[OF v] p(2) by auto
  then show "bd_bill_payments t = map (\<lambda>q. if bp_id q = bp_id p then withdrawn env user u q else q) (bd_bill_payments s)"
    unfolding t by (simp add: detach_payment_def mark_voided_def withdrawn_def)
qed

text \<open>At most one payment names a match.\<close>

definition tied :: "bill_payment list \<Rightarrow> bool" where
  "tied ps \<longleftrightarrow> distinct (map bp_match (filter (\<lambda>p. bp_match p \<noteq> None) ps)) \<and> (\<forall>p \<in> set ps. bp_match p \<noteq> None \<longrightarrow> bp_voided_at p = None)"

lemma payment_matches_tied:
  "payment_matches_ok db \<longleftrightarrow> tied (bd_bill_payments db) \<and> (\<forall>p \<in> set (bd_bill_payments db). \<forall>u. bp_match p = Some u \<longrightarrow> has_parent db u MATCH_CONFIRMED)"
  by (auto simp: payment_matches_ok_def tied_def)

lemma one_payment_per_match:
  assumes "tied (bd_bill_payments s)"
  shows "\<exists>p. live_match_payments s u = [p] \<or> live_match_payments s u = []"
proof -
  have d: "distinct (map bp_match (filter (\<lambda>p. bp_match p \<noteq> None) (bd_bill_payments s)))" using assms unfolding tied_def by blast
  have "live_match_payments s u = filter (\<lambda>p. bp_match p = Some u \<and> bp_voided_at p = None) (filter (\<lambda>p. bp_match p \<noteq> None) (bd_bill_payments s))"
    unfolding live_match_payments_def filter_filter by (rule filter_cong) auto
  then have dist: "distinct (map bp_match (live_match_payments s u))" using distinct_map_filter[OF d] by (simp only:)
  have all: "\<forall>p \<in> set (live_match_payments s u). bp_match p = Some u" by (simp add: live_match_payments_def)
  show ?thesis
  proof (cases "live_match_payments s u")
    case (Cons a as)
    then show ?thesis using dist all by (cases as) auto
  qed simp
qed

lemma revert_shape:
  assumes "revert_confirm_effects env m user db = (Inr e, t)"
  obtains s where "for_each (withdraw_payment env (bm_id m) user) (live_match_payments db (bm_id m)) db = (Inr (), s)" "bills_kept s t"
proof -
  define tail :: "revert_effect bank" where "tail = andthen (case bm_created_expense m of
              None \<Rightarrow> ok (False, False)
            | Some xid \<Rightarrow>
                andthen (withdraw_expense env (bm_id m) xid) (\<lambda>r.
                andthen (change (edit_match (bm_id m) (\<lambda>b. b\<lparr>bm_created_expense := None\<rparr>))) (\<lambda>_. ok r))) (\<lambda>(gone, detached).
     ok \<lparr>re_payments_voided = length (live_match_payments db (bm_id m)), re_expense_deleted = gone, re_expense_detached = detached\<rparr>)"
  have k: "tracks bills_kept tail" unfolding tail_def by (intro aside.tracks_rules tracking)
  have "andthen (for_each (withdraw_payment env (bm_id m) user) (live_match_payments db (bm_id m))) (\<lambda>_. tail) db = (Inr e, t)"
    using assms unfolding revert_confirm_effects_def run_simps(3) tail_def .
  then obtain s where "for_each (withdraw_payment env (bm_id m) user) (live_match_payments db (bm_id m)) db = (Inr (), s)" "tail s = (Inr e, t)"
    by (auto simp: andthen_def split: prod.split_asm sum.split_asm)
  then show thesis using that tracksD[OF k] by blast
qed

lemma revert_effects:
  assumes ok: "bills_ok db" and pm: "tied (bd_bill_payments db)" and run: "revert_confirm_effects env m user db = (Inr e, t)"
  shows "bills_ok t" "bd_bill_payments t = map (\<lambda>q. if bp_match q = Some (bm_id m) then withdrawn env user (bm_id m) q else q) (bd_bill_payments db)"
proof -
  let ?w = "\<lambda>q. if bp_match q = Some (bm_id m) then withdrawn env user (bm_id m) q else q"
  have live: "bp_voided_at q = None" if "q \<in> set (bd_bill_payments db)" "bp_match q = Some (bm_id m)" for q
    using pm that by (simp add: tied_def)
  obtain s where s: "for_each (withdraw_payment env (bm_id m) user) (live_match_payments db (bm_id m)) db = (Inr (), s)" and rest: "bills_kept s t"
    by (rule revert_shape[OF run])
  have "bills_ok s \<and> bd_bill_payments s = map ?w (bd_bill_payments db)"
  proof (cases "live_match_payments db (bm_id m) = []")
    case True
    then have "\<forall>q \<in> set (bd_bill_payments db). bp_match q \<noteq> Some (bm_id m)" using live by (auto simp: live_match_payments_def filter_empty_conv)
    then have "map ?w (bd_bill_payments db) = bd_bill_payments db" by (simp add: map_idI)
    then show ?thesis using s True ok by (simp add: run_ends)
  next
    case False
    then obtain p where p: "live_match_payments db (bm_id m) = [p]" using one_payment_per_match[OF pm, of "bm_id m"] by auto
    have mem: "p \<in> set (bd_bill_payments db)" "bp_voided_at p = None" "bp_match p = Some (bm_id m)"
    proof -
      have "p \<in> set (live_match_payments db (bm_id m))" using p by simp
      then show "p \<in> set (bd_bill_payments db)" "bp_voided_at p = None" "bp_match p = Some (bm_id m)" by (simp_all add: live_match_payments_def)
    qed
    have w: "withdraw_payment env (bm_id m) user p db = (Inr (), s)"
      using s unfolding p by (auto simp: andthen_def ok_def split: prod.split_asm sum.split_asm)
    have "bp_id q = bp_id p \<longleftrightarrow> bp_match q = Some (bm_id m)" if "q \<in> set (bd_bill_payments db)" for q
    proof
      assume "bp_id q = bp_id p"
      then have "q = p" using that mem(1) ok by (auto simp: bills_ok_def payments_ok_def distinct_map dest: inj_onD)
      then show "bp_match q = Some (bm_id m)" using mem(3) by simp
    next
      assume "bp_match q = Some (bm_id m)"
      then have "q \<in> set (live_match_payments db (bm_id m))" using that live by (simp add: live_match_payments_def)
      then show "bp_id q = bp_id p" using p by simp
    qed
    then have "map (\<lambda>q. if bp_id q = bp_id p then withdrawn env user (bm_id m) q else q) (bd_bill_payments db) = map ?w (bd_bill_payments db)" by simp
    then show ?thesis using withdraw_effects[OF ok mem(1,2) w] by simp
  qed
  then show "bills_ok t" "bd_bill_payments t = map ?w (bd_bill_payments db)" using rest bills_ok_kept[OF rest] by (simp_all add: bills_kept_def)
qed

section \<open>Transitions\<close>

lemma tied_add: "tied ps \<Longrightarrow> bp_voided_at p = None \<Longrightarrow> (\<And>q. q \<in> set ps \<Longrightarrow> bp_match p \<noteq> None \<Longrightarrow> bp_match q \<noteq> bp_match p) \<Longrightarrow> tied (ps @ [p])"
  unfolding tied_def by (auto 4 3)

lemma tied_withdrawn: "tied ps \<Longrightarrow> tied (map (\<lambda>q. if bp_match q = Some u then withdrawn env user u q else q) ps)"
proof -
  assume t: "tied ps"
  have "map bp_match (filter (\<lambda>p. bp_match p \<noteq> None) (map (\<lambda>q. if bp_match q = Some u then withdrawn env user u q else q) ps)) =
      map bp_match (filter (\<lambda>p. bp_match p \<noteq> Some u) (filter (\<lambda>p. bp_match p \<noteq> None) ps))"
    by (induction ps) (auto simp: withdrawn_def)
  moreover have "distinct (map bp_match (filter (\<lambda>p. bp_match p \<noteq> Some u) (filter (\<lambda>p. bp_match p \<noteq> None) ps)))"
    by (rule distinct_map_filter) (use t in \<open>simp add: tied_def\<close>)
  moreover have "\<forall>p \<in> set (map (\<lambda>q. if bp_match q = Some u then withdrawn env user u q else q) ps). bp_match p \<noteq> None \<longrightarrow> bp_voided_at p = None"
    using t by (auto simp: tied_def withdrawn_def)
  ultimately show ?thesis unfolding tied_def by simp
qed

definition reconciled :: "bank_db \<Rightarrow> bool" where
  "reconciled db \<longleftrightarrow> match_ok db \<and> payment_matches_ok db \<and> bills_ok db \<and> rows_ok db"

lemma get_matchD: "get_match db u = Some m \<Longrightarrow> m \<in> set (bd_matches db) \<and> bm_id m = u"
  unfolding get_match_def by (drule first_filter_member) simp

text \<open>Any move of one match whose effects add a payment for it on confirmation, or take its payments back, keeps the payments in order.\<close>

lemma payment_matches_moved:
  assumes pm: "payment_matches_ok db" and f: "\<And>m. bm_id (f m) = bm_id m" "\<And>m. bm_status (f m) = st"
    and u: "has_parent db u st0" and c: "calm (edit_match u f db) t"
    and ps: "tied (bd_bill_payments t)" "\<And>p v. p \<in> set (bd_bill_payments t) \<Longrightarrow> bp_match p = Some v \<Longrightarrow>
      v = u \<and> st = MATCH_CONFIRMED \<or> v \<noteq> u \<and> has_parent db v MATCH_CONFIRMED"
  shows "payment_matches_ok (sync_children u st t)"
proof -
  have r: "roster (sync_children u st t) = map (\<lambda>e. if fst e = u then (u, st) else e) (roster db)"
    using c by (simp add: calm_def roster_def sync_children_def edit_match_def comp_def f if_distrib cong: if_cong)
  have "has_parent (sync_children u st t) v s" if "v \<noteq> u" "has_parent db v s" for v s
    using that unfolding has_parent_roster r by force
  moreover have "has_parent (sync_children u st t) u st" using u unfolding has_parent_roster r by force
  moreover have "bd_bill_payments (sync_children u st t) = bd_bill_payments t" by (simp add: sync_children_def)
  ultimately show ?thesis using ps unfolding payment_matches_tied by metis
qed

text \<open>Confirming a match no payment names: what the effects leave is in order again once the children follow.\<close>

lemma confirmation_keeps:
  assumes ok: "match_ok db" "payment_matches_ok db" "bills_ok db" "rows_ok db" and u: "has_parent db (bm_id m) st0" "st0 \<noteq> MATCH_CONFIRMED"
    and f: "\<And>m. bm_id (f m) = bm_id m" "\<And>m. bm_status (f m) = MATCH_CONFIRMED"
    and run: "apply_confirm_effects env m user (edit_match (bm_id m) f db) = (Inr e, t)" and ex: "exclusive (sync_children (bm_id m) MATCH_CONFIRMED t)"
  shows "reconciled (sync_children (bm_id m) MATCH_CONFIRMED t)"
proof -
  let ?t = "sync_children (bm_id m) MATCH_CONFIRMED t"
  have c: "calm (edit_match (bm_id m) f db) t" by (rule tracksD[OF calm_apply run])
  have b1: "bills_ok (edit_match (bm_id m) f db)" by (rule bills_ok_frame(1)[OF _ _ _ ok(3)]) (simp_all add: edit_match_def)
  note A = apply_effects[OF b1 run]
  have free: "bp_match q \<noteq> Some (bm_id m)" if "q \<in> set (bd_bill_payments db)" for q
  proof
    assume "bp_match q = Some (bm_id m)"
    then have "has_parent db (bm_id m) MATCH_CONFIRMED" using ok(2) that by (simp add: payment_matches_ok_def)
    then show False using u ok(1) parent_unique unfolding has_parent_def by metis
  qed
  have old: "bp_match q = Some v \<Longrightarrow> has_parent db v MATCH_CONFIRMED" if "q \<in> set (bd_bill_payments db)" for q v
    using ok(2) that by (simp add: payment_matches_ok_def)
  have tied0: "tied (bd_bill_payments db)" using ok(2) payment_matches_tied by blast
  consider "bd_bill_payments t = bd_bill_payments db" | p where "bd_bill_payments t = bd_bill_payments db @ [p]" "bp_match p = Some (bm_id m)" "bp_voided_at p = None"
    using A by (auto simp: edit_match_def)
  then have ps: "tied (bd_bill_payments t) \<and> (\<forall>p \<in> set (bd_bill_payments t). \<forall>v. bp_match p = Some v \<longrightarrow>
      v = bm_id m \<and> MATCH_CONFIRMED = MATCH_CONFIRMED \<or> v \<noteq> bm_id m \<and> has_parent db v MATCH_CONFIRMED)"
  proof cases
    case 1
    then show ?thesis using tied0 free old by metis
  next
    case 2
    have "tied (bd_bill_payments t)" unfolding 2(1) by (rule tied_add[OF tied0 2(3)]) (use free 2(2) in auto)
    then show ?thesis using free old 2 by (auto dest: free)
  qed
  have "match_ok ?t" by (rule match_ok_moved[OF ok(1) f u(1) c ex])
  moreover have "payment_matches_ok ?t" by (rule payment_matches_moved[OF ok(2) f u(1) c]) (use ps in blast)+
  moreover have "bills_ok ?t" by (rule bills_ok_frame(1)[of _ t]) (use A in \<open>simp_all add: sync_children_def\<close>)
  moreover have "rows_view ?t = rows_view db" using c by (simp add: calm_def rows_view_def sync_children_def edit_match_def)
  ultimately show ?thesis using ok(4) by (simp add: reconciled_def rows_ok_view)
qed

text \<open>A move without effects, and one that takes the effects of a confirmation back.\<close>

lemma plain_move_keeps:
  assumes ok: "reconciled db" and u: "has_parent db u st0" and f: "\<And>m. bm_id (f m) = bm_id m" "\<And>m. bm_status (f m) = st"
    and same: "st0 = MATCH_CONFIRMED \<longleftrightarrow> st = MATCH_CONFIRMED" and ex: "exclusive (sync_children u st (edit_match u f db))"
  shows "reconciled (sync_children u st (edit_match u f db))"
proof -
  let ?s = "edit_match u f db" let ?t = "sync_children u st ?s"
  have o: "match_ok db" "payment_matches_ok db" "bills_ok db" "rows_ok db" using ok by (simp_all add: reconciled_def)
  have c: "calm ?s ?s" by (rule effects.R_refl)
  have pay: "bd_bill_payments ?s = bd_bill_payments db" by (simp add: edit_match_def)
  have "match_ok ?t" by (rule match_ok_moved[OF o(1) f u c ex])
  moreover have "payment_matches_ok ?t"
  proof (rule payment_matches_moved[OF o(2) f u c])
    show "tied (bd_bill_payments ?s)" using o(2) unfolding pay payment_matches_tied by blast
    fix p v assume p: "p \<in> set (bd_bill_payments ?s)" "bp_match p = Some v"
    then have v: "has_parent db v MATCH_CONFIRMED" using o(2) unfolding pay payment_matches_tied by blast
    show "v = u \<and> st = MATCH_CONFIRMED \<or> v \<noteq> u \<and> has_parent db v MATCH_CONFIRMED"
    proof (cases "v = u")
      case True
      then have "st0 = MATCH_CONFIRMED" using v u o(1) parent_unique unfolding has_parent_def by metis
      then show ?thesis using True same by simp
    qed (use v in simp)
  qed
  moreover have "bills_ok ?t" by (rule bills_ok_frame(1)[OF _ _ _ o(3)]) (simp_all add: edit_match_def sync_children_def)
  moreover have "rows_view ?t = rows_view db" by (simp add: rows_view_def sync_children_def edit_match_def)
  ultimately show ?thesis using o(4) by (simp add: reconciled_def rows_ok_view)
qed

lemma reversion_keeps:
  assumes ok: "reconciled db" and u: "has_parent db (bm_id m) st0" and f: "\<And>m. bm_id (f m) = bm_id m" "\<And>m. bm_status (f m) = st"
    and run: "revert_confirm_effects env m user (edit_match (bm_id m) f db) = (Inr e, t)" and ex: "exclusive (sync_children (bm_id m) st t)"
  shows "reconciled (sync_children (bm_id m) st t)"
proof -
  let ?s = "edit_match (bm_id m) f db" let ?t = "sync_children (bm_id m) st t"
  have o: "match_ok db" "payment_matches_ok db" "bills_ok db" "rows_ok db" using ok by (simp_all add: reconciled_def)
  have c: "calm ?s t" by (rule tracksD[OF calm_revert run])
  have pay: "bd_bill_payments ?s = bd_bill_payments db" by (simp add: edit_match_def)
  have b1: "bills_ok ?s" by (rule bills_ok_frame(1)[OF _ _ _ o(3)]) (simp_all add: edit_match_def)
  have tied0: "tied (bd_bill_payments ?s)" using o(2) unfolding pay payment_matches_tied by blast
  note R = revert_effects[OF b1 tied0 run, unfolded pay]
  have "match_ok ?t" by (rule match_ok_moved[OF o(1) f u c ex])
  moreover have "payment_matches_ok ?t"
  proof (rule payment_matches_moved[OF o(2) f u c])
    show "tied (bd_bill_payments t)" unfolding R(2) by (rule tied_withdrawn[OF tied0[unfolded pay]])
    fix p v assume p: "p \<in> set (bd_bill_payments t)" "bp_match p = Some v"
    then obtain q where q: "q \<in> set (bd_bill_payments db)" "p = (if bp_match q = Some (bm_id m) then withdrawn env user (bm_id m) q else q)"
      unfolding R(2) by auto
    then have "bp_match q \<noteq> Some (bm_id m)" "p = q" using p(2) by (auto simp: withdrawn_def split: if_split_asm)
    then show "v = bm_id m \<and> st = MATCH_CONFIRMED \<or> v \<noteq> bm_id m \<and> has_parent db v MATCH_CONFIRMED"
      using p(2) q(1) o(2) unfolding payment_matches_tied by auto
  qed
  moreover have "bills_ok ?t" by (rule bills_ok_frame(1)[OF _ _ _ R(1)]) (simp_all add: sync_children_def)
  moreover have "rows_view ?t = rows_view db" using c by (simp add: calm_def rows_view_def sync_children_def edit_match_def)
  ultimately show ?thesis using o(4) by (simp add: reconciled_def rows_ok_view)
qed

lemma stamp_fields: "bm_id (stamp env st user m) = bm_id m" "bm_status (stamp env st user m) = st"
  by (simp_all add: stamp_def)

lemma set_match_status_run:
  assumes "set_match_status env m status user db = (Inr e, t)"
  obtains st s where "match_status_of status = Some st" "t = sync_children (bm_id m) st s" "exclusive t"
    "st = MATCH_CONFIRMED \<and> bm_status m \<noteq> MATCH_CONFIRMED \<and> (\<exists>x. apply_confirm_effects env m user (edit_match (bm_id m) (stamp env st user) db) = (Inr x, s)) \<or>
     st \<noteq> MATCH_CONFIRMED \<and> bm_status m = MATCH_CONFIRMED \<and> (\<exists>x. revert_confirm_effects env m user (edit_match (bm_id m) (stamp env st user) db) = (Inr x, s)) \<or>
     (st = MATCH_CONFIRMED \<longleftrightarrow> bm_status m = MATCH_CONFIRMED) \<and> s = edit_match (bm_id m) (stamp env st user) db"
proof -
  obtain st where st: "match_status_of status = Some st" using assms by (cases "match_status_of status") (simp_all add: set_match_status_def run_ends)
  define body where "body = (if st = MATCH_CONFIRMED \<and> bm_status m \<noteq> MATCH_CONFIRMED
                     then andthen (apply_confirm_effects env m user) (\<lambda>e. ok (Confirmed e))
                     else if st \<noteq> MATCH_CONFIRMED \<and> bm_status m = MATCH_CONFIRMED
                     then andthen (revert_confirm_effects env m user) (\<lambda>e. ok (Reverted e))
                     else ok NoEffects)"
  have "andthen body (\<lambda>eff. andthen (change (sync_children (bm_id m) st)) (\<lambda>_. andthen flush_matches (\<lambda>_. ok eff)))
      (edit_match (bm_id m) (stamp env st user) db) = (Inr e, t)"
    using assms unfolding set_match_status_def st option.case body_def[symmetric] by (simp add: run_simps(3,4) run_ends split: if_split_asm)
  then obtain x s where b: "body (edit_match (bm_id m) (stamp env st user) db) = (Inr x, s)" and
    "andthen (change (sync_children (bm_id m) st)) (\<lambda>_. andthen flush_matches (\<lambda>_. ok x)) s = (Inr e, t)"
    by (auto simp: andthen_def[of body] split: prod.split_asm sum.split_asm)
  then have "t = sync_children (bm_id m) st s" "exclusive t"
    by (auto simp: run_simps flush_matches_def run_ends split: if_split_asm)
  moreover have "st = MATCH_CONFIRMED \<and> bm_status m \<noteq> MATCH_CONFIRMED \<and> (\<exists>x. apply_confirm_effects env m user (edit_match (bm_id m) (stamp env st user) db) = (Inr x, s)) \<or>
     st \<noteq> MATCH_CONFIRMED \<and> bm_status m = MATCH_CONFIRMED \<and> (\<exists>x. revert_confirm_effects env m user (edit_match (bm_id m) (stamp env st user) db) = (Inr x, s)) \<or>
     (st = MATCH_CONFIRMED \<longleftrightarrow> bm_status m = MATCH_CONFIRMED) \<and> s = edit_match (bm_id m) (stamp env st user) db"
    using b unfolding body_def by (auto simp: andthen_def ok_def split: if_split_asm prod.split_asm sum.split_asm)
  ultimately show thesis using that st by blast
qed

lemma set_match_status_keeps:
  assumes ok: "reconciled db" and m: "get_match db u = Some m" and run: "set_match_status env m status user db = (Inr e, t)"
  shows "reconciled t"
proof -
  have par: "has_parent db (bm_id m) (bm_status m)" using get_matchD[OF m] by (auto simp: has_parent_def)
  have o: "match_ok db" "payment_matches_ok db" "bills_ok db" "rows_ok db" using ok by (simp_all add: reconciled_def)
  from run show ?thesis
  proof (rule set_match_status_run)
    fix st s assume t: "t = sync_children (bm_id m) st s" "exclusive t" and
      cases: "st = MATCH_CONFIRMED \<and> bm_status m \<noteq> MATCH_CONFIRMED \<and> (\<exists>x. apply_confirm_effects env m user (edit_match (bm_id m) (stamp env st user) db) = (Inr x, s)) \<or>
       st \<noteq> MATCH_CONFIRMED \<and> bm_status m = MATCH_CONFIRMED \<and> (\<exists>x. revert_confirm_effects env m user (edit_match (bm_id m) (stamp env st user) db) = (Inr x, s)) \<or>
       (st = MATCH_CONFIRMED \<longleftrightarrow> bm_status m = MATCH_CONFIRMED) \<and> s = edit_match (bm_id m) (stamp env st user) db"
    note F = stamp_fields[of env st user]
    from cases consider x where "st = MATCH_CONFIRMED" "bm_status m \<noteq> MATCH_CONFIRMED" "apply_confirm_effects env m user (edit_match (bm_id m) (stamp env st user) db) = (Inr x, s)"
      | x where "revert_confirm_effects env m user (edit_match (bm_id m) (stamp env st user) db) = (Inr x, s)"
      | "bm_status m = MATCH_CONFIRMED \<longleftrightarrow> st = MATCH_CONFIRMED" "s = edit_match (bm_id m) (stamp env st user) db" by blast
    then show ?thesis
    proof cases
      case 1
      show ?thesis using confirmation_keeps[OF o par 1(2) stamp_fields 1(3)[unfolded 1(1)]] t 1(1) by simp
    next
      case 2
      show ?thesis using reversion_keeps[OF ok par F 2] t by simp
    next
      case 3
      show ?thesis using plain_move_keeps[OF ok par F 3(1)] t 3(2) by simp
    qed
  qed
qed

section \<open>Manual matches, payments and suggestions\<close>

lemma added_keeps:
  assumes ok: "reconciled db" and ex: "exclusive (added i db)"
  shows "reconciled (added i db)"
proof -
  have o: "match_ok db" "payment_matches_ok db" "bills_ok db" "rows_ok db" using ok by (simp_all add: reconciled_def)
  have "match_ok (added i db)" by (rule match_ok_added[OF o(1) ex])
  moreover have "payment_matches_ok (added i db)" by (rule payment_matches_added[OF o(2)])
  moreover have "bills_ok (added i db)" by (rule bills_ok_frame(1)[OF _ _ _ o(3)]) simp_all
  moreover have "rows_view (added i db) = rows_view db" by (simp add: rows_view_def)
  ultimately show ?thesis using o(4) by (simp add: reconciled_def rows_ok_view)
qed

lemma create_manual_match_run:
  assumes "create_manual_match env i db = (Inr u, t)"
  obtains j m x s where "u = bd_uuid db" "exclusive (added j db)" "bm_id m = u" "t = sync_children u MATCH_CONFIRMED s" "exclusive t"
    "apply_confirm_effects env m (mn_user i) (edit_match u (born_confirmed env i) (added j db)) = (Inr x, s)"
proof -
  obtain ls rs where "check_lines db (mn_account i) (mn_lines i) = Inr ls" "check_externals db (mn_externals i) = Inr rs"
    using assms by (auto simp: create_manual_match_def run_simps run_ends split: if_split_asm sum.split_asm)
  note c = this
  define j where "j = \<lparr>mi_account = mn_account i, mi_rule = ''manual'', mi_lines = map bl_id ls, mi_externals = map fst rs,
          mi_classification = mn_classification i, mi_confidence = None, mi_note = manual_note (mn_note i) ls rs\<rparr>"
  define s1 where "s1 = edit_match (bd_uuid db) (born_confirmed env i) (added j db)"
  have new: "new_match None j db = (if exclusive db then (Inr (Some (bd_uuid db)), added j db) else (Inl (LedgerRaised IntegrityError), db))"
    by (simp add: new_match_def flush_matches_def added_def andthen_def fresh_id_def reads_def change_def ok_def)
  define tail where "tail v = andthen (asks (\<lambda>db. get_match db v)) (\<lambda>found.
            case found of
              None \<Rightarrow> throw (LedgerRaised AttributeError)
            | Some m \<Rightarrow>
                andthen (apply_confirm_effects env m (mn_user i)) (\<lambda>_.
                andthen (change (sync_children v MATCH_CONFIRMED)) (\<lambda>_.
                andthen flush_matches (\<lambda>_. ok v))))" for v
  have "andthen (new_match None j) (\<lambda>created.
        case created of
          None \<Rightarrow> throw (LedgerRaised AttributeError)
        | Some v \<Rightarrow> andthen (change (edit_match v (born_confirmed env i))) (\<lambda>_. andthen flush_matches (\<lambda>_. tail v))) db = (Inr u, t)"
    using assms c unfolding create_manual_match_def tail_def j_def by (simp add: run_simps(5) run_ends split: if_split_asm)
  then have ex: "exclusive s1" and t: "tail (bd_uuid db) s1 = (Inr u, t)"
    by (auto simp: andthen_def[of "new_match None j"] new run_simps flush_matches_def s1_def split: if_split_asm)
  obtain m x s where m: "get_match s1 (bd_uuid db) = Some m" "apply_confirm_effects env m (mn_user i) s1 = (Inr x, s)"
    "u = bd_uuid db" "t = sync_children (bd_uuid db) MATCH_CONFIRMED s" "exclusive t"
    using t unfolding tail_def run_simps(3)
    by (auto simp: andthen_def[of "apply_confirm_effects env _ (mn_user i)"] run_simps flush_matches_def run_ends split: option.split_asm prod.split_asm sum.split_asm if_split_asm)
  have "exclusive (added j db)" using ex exclusive_frame[of s1 "added j db"] by (simp add: s1_def edit_match_def)
  then show thesis using that m get_matchD[OF m(1)] unfolding s1_def by blast
qed

lemma create_manual_match_keeps:
  assumes ok: "reconciled db" and run: "create_manual_match env i db = (Inr u, t)"
  shows "reconciled t"
  using run
proof (rule create_manual_match_run)
  fix j m x s
  assume j: "u = bd_uuid db" "exclusive (added j db)" and m: "bm_id m = u" and t: "t = sync_children u MATCH_CONFIRMED s" "exclusive t"
    and a: "apply_confirm_effects env m (mn_user i) (edit_match u (born_confirmed env i) (added j db)) = (Inr x, s)"
  have o: "match_ok (added j db)" "payment_matches_ok (added j db)" "bills_ok (added j db)" "rows_ok (added j db)"
    using added_keeps[OF ok j(2)] by (simp_all add: reconciled_def)
  have par: "has_parent (added j db) (bm_id m) MATCH_SUGGESTED" using m j(1) by (auto simp: has_parent_def)
  show ?thesis
    using confirmation_keeps[OF o par _ _ _ a[folded m], of] t m by (simp add: born_confirmed_def)
qed

lemma calm_keeps:
  assumes "reconciled s" "calm s t" "bills_ok t" "payment_matches_ok t"
  shows "reconciled t"
proof -
  have "rows_ok t" using assms(1,2) by (simp add: reconciled_def calm_def rows_ok_view)
  then show ?thesis using assms match_ok_calm by (simp add: reconciled_def)
qed

lemma has_parent_calm: "calm s t \<Longrightarrow> has_parent t u st = has_parent s u st"
  by (simp add: has_parent_roster calm_def)

lemma record_payment_reconciled:
  assumes ok: "reconciled db" and i: "whole_cents (pi_amount i)" "pi_match i = None" and run: "record_payment env u i db = (r, t)"
  shows "reconciled t"
proof (rule calm_keeps[OF ok])
  have o: "payment_matches_ok db" "bills_ok db" using ok by (simp_all add: reconciled_def)
  show c: "calm db t" by (rule tracksD[OF calm_record run])
  show "bills_ok t" by (rule record_payment_keeps[OF o(2) i(1) run])
  have t0: "tied (bd_bill_payments db)" using o(1) payment_matches_tied by blast
  have "tied (bd_bill_payments t) \<and> (\<forall>p \<in> set (bd_bill_payments t). bp_match p = None \<or> p \<in> set (bd_bill_payments db))"
    using record_pays[OF run] t0 i(2) by (auto intro!: tied_add)
  then show "payment_matches_ok t" using o(1) unfolding payment_matches_tied has_parent_calm[OF c] by (metis option.distinct(1))
qed

lemma void_payment_reconciled:
  assumes ok: "reconciled db" and p: "p \<in> set (bd_bill_payments db)" and run: "void_payment env who False p db = (r, t)"
  shows "reconciled t"
proof (rule calm_keeps[OF ok])
  have o: "match_ok db" "payment_matches_ok db" "bills_ok db" using ok by (simp_all add: reconciled_def)
  show c: "calm db t" by (rule tracksD[OF calm_void run])
  show "bills_ok t" by (rule void_payment_keeps[OF o(3) p run])
  consider "bd_bill_payments t = bd_bill_payments db" | "\<not> match_confirmed db (bp_match p)" "bd_bill_payments t = bd_bill_payments (mark_voided env (bp_id p) who db)"
    using void_pays[OF run] by blast
  then show "payment_matches_ok t"
  proof cases
    case 1
    then show ?thesis using o(2) unfolding payment_matches_tied has_parent_calm[OF c] by simp
  next
    case 2
    have free: "bp_match p = None"
    proof (rule ccontr)
      assume "bp_match p \<noteq> None"
      then obtain v where v: "bp_match p = Some v" by blast
      then have "has_parent db v MATCH_CONFIRMED" using o(2) p by (simp add: payment_matches_ok_def)
      then obtain m where m: "m \<in> set (bd_matches db)" "bm_id m = v" "bm_status m = MATCH_CONFIRMED" by (auto simp: has_parent_def)
      have "get_match db v = Some m" using first_unique[of bm_id "bd_matches db" m] o(1) m(1,2) by (simp add: get_match_def match_ok_def)
      then show False using 2(1) v m(3) by (simp add: match_confirmed_def)
    qed
    have same: "q = p" if "q \<in> set (bd_bill_payments db)" "bp_id q = bp_id p" for q
      using that p o(3) by (auto simp: bills_ok_def payments_ok_def distinct_map dest: inj_onD)
    have ms: "map bp_match (filter (\<lambda>q. bp_match q \<noteq> None) (bd_bill_payments t)) = map bp_match (filter (\<lambda>q. bp_match q \<noteq> None) (bd_bill_payments db))"
      unfolding 2(2) by (simp add: mark_voided_def filter_map comp_def if_distrib cong: if_cong)
    have origin: "\<exists>q \<in> set (bd_bill_payments db). bp_match q = bp_match q' \<and> bp_voided_at q' = None" if q': "q' \<in> set (bd_bill_payments t)" "bp_match q' \<noteq> None" for q'
    proof -
      obtain q where q: "q \<in> set (bd_bill_payments db)" "q' = (if bp_id q = bp_id p then q\<lparr>bp_voided_at := Some (now_utc env), bp_voided_by := who\<rparr> else q)"
        using q'(1) unfolding 2(2) by (auto simp: mark_voided_def)
      have "bp_match q \<noteq> None" using q(2) q'(2) by (simp split: if_split_asm)
      then have "bp_id q \<noteq> bp_id p" using same[OF q(1)] free by auto
      then show ?thesis using q o(2) \<open>bp_match q \<noteq> None\<close> by (auto simp: payment_matches_ok_def)
    qed
    then show ?thesis using o(2) ms unfolding payment_matches_ok_def has_parent_calm[OF c] by (metis option.distinct(1))
  qed
qed

lemma suggest_keeps:
  assumes ok: "reconciled db" and range: "range_ok lo hi" and run: "suggest_matches account lo hi db = (Inr stats, t)"
  shows "reconciled t"
proof -
  define stale where "stale = stale_suggestions db account lo hi"
  define db0 where "db0 = drop_matches stale db"
  define plan where "plan = ladder_plan db0 account lo hi"
  have o: "match_ok db" "payment_matches_ok db" "bills_ok db" "rows_ok db" using ok by (simp_all add: reconciled_def)
  have S: "t = add_all plan db0" "exclusive (add_all plan db0)" "match_ok db0"
    using suggest_run[OF o(1,2,4) range, of account] run unfolding plan_def db0_def stale_def by auto
  have "match_ok t" unfolding S(1) by (rule add_all_ok[OF S(3) S(2)])
  moreover have "payment_matches_ok t" unfolding S(1) db0_def stale_def by (rule add_all_rest(1)[OF payments_spare_stale(2)[OF o(1,2)]])
  moreover have "bills_ok t" by (rule bills_ok_frame(1)[OF _ _ _ o(3)]) (use add_all_rest(6)[of db0 plan] in \<open>simp_all add: S(1) add_all_rest db0_def\<close>)
  moreover have "rows_view t = rows_view db" by (simp add: rows_view_def S(1) add_all_rest db0_def)
  ultimately show ?thesis using o(4) by (simp add: reconciled_def rows_ok_view)
qed

section \<open>The office at work\<close>

text \<open>
  What commits.  A request that raises is rolled back and is no step.  Outside the requests below, rows of the books and statement lines
  come and change as long as ids stay unique and amounts fit their column; matches, bills and bill payments are written by the requests only,
  but for bills that are filed.
\<close>

definition elsewhere :: "bank_db \<Rightarrow> bank_db \<Rightarrow> bool" where
  "elsewhere s t \<longleftrightarrow> bd_matches t = bd_matches s \<and> bd_match_lines t = bd_match_lines s \<and> bd_match_externals t = bd_match_externals s \<and>
     bd_bills t = bd_bills s \<and> bd_bill_payments t = bd_bill_payments s \<and> bd_uuid s \<le> bd_uuid t \<and> rows_ok t"

definition file_bill :: "vendor_bill \<Rightarrow> bank_db \<Rightarrow> bank_db" where
  "file_bill b db = db\<lparr>bd_bills := bd_bills db @ [b]\<rparr>"

inductive office_step :: "bank_db \<Rightarrow> bank_db \<Rightarrow> bool" where
  suggested: "range_ok lo hi \<Longrightarrow> suggest_matches account lo hi db = (Inr stats, t) \<Longrightarrow> office_step db t"
| confirmed: "confirm_match env user u db = (Inr answer, t) \<Longrightarrow> office_step db t"
| rejected: "reject_match env user u db = (Inr answer, t) \<Longrightarrow> office_step db t"
| unconfirmed: "unconfirm_match env user u db = (Inr answer, t) \<Longrightarrow> office_step db t"
| matched: "create_manual_match env i db = (Inr u, t) \<Longrightarrow> office_step db t"
| paid: "whole_cents (pi_amount j) \<Longrightarrow> pi_match j = None \<Longrightarrow> record_payment env u j db = (Inr p, t) \<Longrightarrow> office_step db t"
| voided: "p \<in> set (bd_bill_payments db) \<Longrightarrow> void_payment env user False p db = (Inr (), t) \<Longrightarrow> office_step db t"
| filed: "vb_id b \<notin> set (map vb_id (bd_bills db)) \<Longrightarrow> \<forall>p \<in> set (bd_bill_payments db). bp_bill p \<noteq> vb_id b \<Longrightarrow>
    vb_status b = STATUS_OPEN \<Longrightarrow> vb_total b = Some a \<Longrightarrow> whole_cents a \<Longrightarrow> \<bar>cents_val a\<bar> < 10 ^ 12 \<Longrightarrow> office_step db (file_bill b db)"
| other: "elsewhere db t \<Longrightarrow> office_step db t"

inductive_cases office_stepE: "office_step db t"

lemma with_match_run:
  assumes "with_match u f db = (Inr answer, t)"
  shows "t = db \<or> (\<exists>m. get_match db u = Some m \<and> f m db = (Inr answer, t))"
  using assms by (auto simp: with_match_def run_simps run_ends split: option.split_asm)

lemma match_routes:
  assumes "confirm_match env user u db = (Inr answer, t) \<or> reject_match env user u db = (Inr answer, t) \<or> unconfirm_match env user u db = (Inr answer, t)"
  shows "t = db \<or> (\<exists>m status e. get_match db u = Some m \<and> set_match_status env m status user db = (Inr e, t))"
  using assms unfolding confirm_match_def reject_match_def unconfirm_match_def
  by (auto dest!: with_match_run simp: andthen_def ok_def split: if_split_asm prod.split_asm sum.split_asm)

lemma filed_keeps:
  assumes ok: "reconciled db" and new: "vb_id b \<notin> set (map vb_id (bd_bills db))" "\<forall>p \<in> set (bd_bill_payments db). bp_bill p \<noteq> vb_id b"
    and b: "vb_status b = STATUS_OPEN" "vb_total b = Some a" "whole_cents a" "\<bar>cents_val a\<bar> < 10 ^ 12"
  shows "reconciled (file_bill b db)"
proof -
  let ?t = "file_bill b db"
  have o: "match_ok db" "payment_matches_ok db" "bills_ok db" "rows_ok db" using ok by (simp_all add: reconciled_def)
  have tot: "whole_cents (bill_total b)" "bill_cents b = cents_val a" using b(2,3) by (cases a; simp add: bill_total_def bill_cents_def)+
  have paid: "paid_cents ?t v = paid_cents db v" for v by (simp add: paid_cents_def live_bill_payments_def file_bill_def)
  have zero: "paid_cents db (vb_id b) = 0" using new(2) by (simp add: paid_cents_filter filter_False)
  have "bill_ok ?t b" using b tot zero by (simp add: bill_ok_def settles_def paid)
  moreover have "bill_ok ?t c" if "c \<in> set (bd_bills db)" for c using o(3) that bill_ok_other[OF _ paid] by (simp add: bills_ok_def)
  ultimately have "bills_ok ?t" using o(3) new(1) by (auto simp: bills_ok_def payments_ok_def file_bill_def)
  moreover have "match_ok ?t" "payment_matches_ok ?t"
    using o(1,2) by (simp_all add: match_ok_def payment_matches_ok_def has_parent_def exclusive_def matched_line_ids_def used_externals_def file_bill_def)
  moreover have "rows_ok ?t"
    using o(4) new(1) b(2-4) by (auto simp: rows_ok_def file_bill_def exact_money_def)
  ultimately show ?thesis by (simp add: reconciled_def)
qed

lemma elsewhere_keeps: "reconciled s \<Longrightarrow> elsewhere s t \<Longrightarrow> reconciled t"
proof -
  assume ok: "reconciled s" and e: "elsewhere s t"
  have f: "bd_matches t = bd_matches s" "bd_match_lines t = bd_match_lines s" "bd_match_externals t = bd_match_externals s"
    "bd_bills t = bd_bills s" "bd_bill_payments t = bd_bill_payments s" "bd_uuid s \<le> bd_uuid t" "rows_ok t" using e by (simp_all add: elsewhere_def)
  have "bills_ok t" using bills_ok_frame(1)[OF f(4,5,6)] ok by (simp add: reconciled_def)
  moreover have "match_ok t" "payment_matches_ok t"
    using ok f(6) unfolding reconciled_def match_ok_def payment_matches_ok_def has_parent_def exclusive_frame[OF f(2,3)] f(1-5) by auto
  ultimately show ?thesis using f(7) by (simp add: reconciled_def)
qed

lemma office_step_keeps: "office_step db t \<Longrightarrow> reconciled db \<Longrightarrow> reconciled t"
proof (induction rule: office_step.induct)
  case (confirmed env user u db answer t)
  then show ?case using match_routes[of env user u db answer t] set_match_status_keeps by blast
next
  case (rejected env user u db answer t)
  then show ?case using match_routes[of env user u db answer t] set_match_status_keeps by blast
next
  case (unconfirmed env user u db answer t)
  then show ?case using match_routes[of env user u db answer t] set_match_status_keeps by blast
qed (blast intro: suggest_keeps create_manual_match_keeps record_payment_reconciled void_payment_reconciled filed_keeps elsewhere_keeps)+

lemma empty_reconciled: "reconciled empty_bank_db"
  by (simp add: reconciled_def match_ok_def payment_matches_ok_def exclusive_def matched_line_ids_def used_externals_def bills_ok_def payments_ok_def
      rows_ok_def empty_bank_db_def empty_db_def)

lemma reachable_reconciled: "office_step\<^sup>*\<^sup>* empty_bank_db db \<Longrightarrow> reconciled db"
  by (induction rule: rtranclp_induct) (auto simp: empty_reconciled intro: office_step_keeps)

text \<open>
  C15.  Whatever the office commits, in any order: the children of a match carry its status, a statement line and a books record sit in at most
  one match that is not rejected, a bill payment that names a match is live, the only one of that match, and the match is confirmed; no bill is paid
  beyond its total, and an open or paid bill is paid exactly when its live payments cover it.
\<close>

theorem reconciliation_stays_consistent:
  assumes "office_step\<^sup>*\<^sup>* empty_bank_db db"
  shows "(\<forall>l \<in> set (bd_match_lines db). \<exists>m \<in> set (bd_matches db). bm_id m = ml_match l \<and> bm_status m = ml_status l) \<and>
    (\<forall>x \<in> set (bd_match_externals db). \<exists>m \<in> set (bd_matches db). bm_id m = mx_match x \<and> bm_status m = mx_status x) \<and>
    distinct (matched_line_ids db) \<and> distinct (used_externals db) \<and>
    (\<forall>p \<in> set (bd_bill_payments db). \<forall>u. bp_match p = Some u \<longrightarrow> live_match_payments db u = [p] \<and>
       (\<exists>m \<in> set (bd_matches db). bm_id m = u \<and> bm_status m = MATCH_CONFIRMED)) \<and>
    (\<forall>b \<in> set (bd_bills db). paid_cents db (vb_id b) \<le> max 0 (bill_cents b) \<and>
       (vb_status b \<noteq> STATUS_VOID \<longrightarrow> (vb_status b = STATUS_PAID \<longleftrightarrow> 0 < bill_cents b \<and> bill_cents b \<le> paid_cents db (vb_id b))))"
proof -
  have o: "match_ok db" "payment_matches_ok db" "bills_ok db" using reachable_reconciled[OF assms] by (simp_all add: reconciled_def)
  have "live_match_payments db u = [p]" if p: "p \<in> set (bd_bill_payments db)" "bp_match p = Some u" for p u
  proof -
    have "tied (bd_bill_payments db)" using o(2) payment_matches_tied by blast
    moreover have "p \<in> set (live_match_payments db u)" using o(2) p by (simp add: live_match_payments_def payment_matches_ok_def)
    ultimately show ?thesis using one_payment_per_match[of db u] by fastforce
  qed
  moreover have "\<forall>b \<in> set (bd_bills db). paid_cents db (vb_id b) \<le> max 0 (bill_cents b) \<and>
       (vb_status b \<noteq> STATUS_VOID \<longrightarrow> (vb_status b = STATUS_PAID \<longleftrightarrow> 0 < bill_cents b \<and> bill_cents b \<le> paid_cents db (vb_id b)))"
    using o(3) by (auto simp: bills_ok_def bill_ok_def settles_def split: if_split_asm)
  ultimately show ?thesis using o(1,2) by (simp add: match_ok_def exclusive_def payment_matches_ok_def has_parent_def)
qed

section \<open>A check that clears\<close>

definition clearing_sample :: bank_db where
  "clearing_sample = empty_bank_db\<lparr>
     bd_lines := [\<lparr>bl_id = 2, bl_account = 1, bl_import = 0, bl_date = Date 26 4 10, bl_amount = - 50, bl_description = ''CHECK'',
       bl_section = SECTION_CHECK, bl_check_number = None, bl_occurrence = 1, bl_hash = ''h''\<rparr>],
     bd_uuid := 5\<rparr>"

definition clearing_bill :: vendor_bill where
  "clearing_bill = \<lparr>vb_id = 3, vb_date = Some (Date 26 4 9), vb_total = Some (Fin 50 (-2)), vb_status = STATUS_OPEN\<rparr>"

definition clearing_match :: manual_input where
  "clearing_match = \<lparr>mn_account = 1, mn_lines = [2], mn_externals = [(''vendor_invoices'', 3)], mn_classification = None, mn_note = None,
     mn_user = None, mn_created_expense = None\<rparr>"

lemma clearing_run:
  "(case create_manual_match sample_env clearing_match (file_bill clearing_bill clearing_sample) of (r, t) \<Rightarrow>
     (r, map vb_status (bd_bills t), map bp_match (bd_bill_payments t))) = (Inr 5, [STATUS_PAID], [Some 5])"
  by code_simp

lemma clearing_reachable: "office_step\<^sup>*\<^sup>* empty_bank_db (file_bill clearing_bill clearing_sample)"
proof -
  have "office_step empty_bank_db clearing_sample"
    by (rule office_step.other) (simp add: elsewhere_def rows_ok_def clearing_sample_def empty_bank_db_def empty_db_def)
  also have "office_step\<^sup>*\<^sup>* clearing_sample (file_bill clearing_bill clearing_sample)"
    by (intro r_into_rtranclp office_step.filed[of _ _ "Fin 50 (-2)"]) (simp_all add: clearing_bill_def clearing_sample_def empty_bank_db_def)
  finally show ?thesis by simp
qed

theorem reconciliation_stays_consistent_witness:
  "\<exists>db. office_step\<^sup>*\<^sup>* empty_bank_db db \<and> map vb_status (bd_bills db) = [STATUS_PAID] \<and> (\<exists>p \<in> set (bd_bill_payments db). live_match_payments db 5 = [p])"
proof -
  obtain t where t: "create_manual_match sample_env clearing_match (file_bill clearing_bill clearing_sample) = (Inr 5, t)"
    "map vb_status (bd_bills t) = [STATUS_PAID]" "map bp_match (bd_bill_payments t) = [Some 5]"
    using clearing_run by (cases "create_manual_match sample_env clearing_match (file_bill clearing_bill clearing_sample)") auto
  have r: "office_step\<^sup>*\<^sup>* empty_bank_db t" using clearing_reachable office_step.matched[OF t(1)] by (rule rtranclp.rtrancl_into_rtrancl)
  obtain p where p: "p \<in> set (bd_bill_payments t)" "bp_match p = Some 5" using t(3) by (cases "bd_bill_payments t") auto
  then have "live_match_payments t 5 = [p]" using reconciliation_stays_consistent[OF r] by simp
  then show ?thesis using r t(2) p(1) by (intro exI[of _ t]) auto
qed

end
