(* ===== verification/Match_Undo.thy ===== *)
theory Match_Undo
  imports Match_Effects
begin

text \<open>
  What a confirmation does to a bill, and that taking it back restores the bills, the live payments and the match.
\<close>

section \<open>Bills change their status only\<close>

definition bills_like :: "bank_db \<Rightarrow> bank_db \<Rightarrow> bool" where
  "bills_like s t \<longleftrightarrow> list_all2 (\<lambda>b c. c = b\<lparr>vb_status := vb_status c\<rparr> \<and> (vb_status b = STATUS_VOID \<longleftrightarrow> vb_status c = STATUS_VOID)) (bd_bills s) (bd_bills t)"

interpretation statuses: tracked bills_like
proof
  show "bills_like s s" for s by (simp add: bills_like_def list_all2_same)
  show "bills_like s u" if "bills_like s t" "bills_like t u" for s t u
    unfolding bills_like_def
  proof (rule list_all2_trans[OF _ that[unfolded bills_like_def]])
    fix b c d :: vendor_bill
    assume bc: "c = b\<lparr>vb_status := vb_status c\<rparr> \<and> (vb_status b = STATUS_VOID \<longleftrightarrow> vb_status c = STATUS_VOID)"
      and cd: "d = c\<lparr>vb_status := vb_status d\<rparr> \<and> (vb_status c = STATUS_VOID \<longleftrightarrow> vb_status d = STATUS_VOID)"
    have "d = b\<lparr>vb_status := vb_status d\<rparr>" using bc cd by (cases b; cases c; cases d) simp
    then show "d = b\<lparr>vb_status := vb_status d\<rparr> \<and> (vb_status b = STATUS_VOID \<longleftrightarrow> vb_status d = STATUS_VOID)" using bc cd by simp
  qed
qed

lemma bills_like_same: "bd_bills t = bd_bills s \<Longrightarrow> bills_like s t"
  using statuses.R_refl[of s] by (simp add: bills_like_def)

lemma restatus_like:
  assumes d: "distinct (map vb_id (bd_bills s))" and b: "get_bill s u = Some b" "vb_status b \<noteq> STATUS_VOID" and st: "st \<noteq> STATUS_VOID"
    and t: "bd_bills t = bd_bills (set_bill_status u st s)"
  shows "bills_like s t"
proof -
  have "c = b" if "c \<in> set (bd_bills s)" "vb_id c = u" for c
    using that get_billD[OF b(1)] d by (metis distinct_map inj_onD)
  then show ?thesis using b(2) st unfolding bills_like_def t by (auto simp: set_bill_status_def list_all2_map2 list_all2_same)
qed

lemma record_like:
  assumes ok: "bills_ok db" and amt: "whole_cents (pi_amount i)" and run: "record_payment env u i db = (r, t)"
  shows "bills_like db t"
proof (cases "pi_source i \<in> set VALID_PAYMENT_SOURCES \<and> get_bill db u \<noteq> None")
  case True
  then obtain b where b: "get_bill db u = Some b" and src: "pi_source i \<in> set VALID_PAYMENT_SOURCES" by auto
  define db1 where "db1 = add_payment env u i db"
  define st where "st = (if settles db1 b then STATUS_PAID else STATUS_OPEN)"
  have "t = db \<or> payment_refusal_code db b i = None \<and> (\<exists>r1. sync_expense_dates env b (set_bill_status u st db1) = (r1, t))"
    using run unfolding record_payment_run[OF ok amt src b] st_def db1_def
    by (auto simp: Let_def split: option.splits if_split_asm prod.splits sum.splits)
  then show ?thesis
  proof
    assume c: "payment_refusal_code db b i = None \<and> (\<exists>r1. sync_expense_dates env b (set_bill_status u st db1) = (r1, t))"
    then obtain r1 where "sync_expense_dates env b (set_bill_status u st db1) = (r1, t)" by blast
    then have "bd_bills t = bd_bills (set_bill_status u st db)"
      using frame_pays[OF sync_expense_dates_books] by (simp add: set_bill_status_def db1_def add_payment_def)
    moreover have "vb_status b \<noteq> STATUS_VOID" using c by (auto simp: payment_refusal_code_def split: if_split_asm)
    ultimately show ?thesis using restatus_like[OF _ b, of st t] ok by (auto simp: bills_ok_def st_def)
  qed (simp add: statuses.R_refl)
next
  case False
  then have "t = db" using run by (auto simp: record_payment_def refresh_bill_def run_simps run_ends split: if_split_asm)
  then show ?thesis by (simp add: statuses.R_refl)
qed

lemma void_like:
  assumes ok: "bills_ok db" and p: "p \<in> set (bd_bill_payments db)" and run: "void_payment env who via p db = (r, t)"
  shows "bills_like db t"
proof (cases "bp_voided_at p = None \<and> (via \<or> \<not> match_confirmed db (bp_match p))")
  case go: True
  show ?thesis
  proof (cases "get_bill db (bp_bill p)")
    case None
    have "t = mark_voided env (bp_id p) who db"
      using go run None by (auto simp: void_payment_def run_simps run_ends get_bill_def)
    then show ?thesis by (simp add: bills_like_same)
  next
    case (Some b)
    define d1 where "d1 = mark_voided env (bp_id p) who db"
    define d2 where "d2 = (if vb_status b = STATUS_VOID then d1 else set_bill_status (bp_bill p) (if settles d1 b then STATUS_PAID else STATUS_OPEN) d1)"
    have "\<exists>r1. sync_expense_dates env b d2 = (r1, t)"
      using void_payment_run(1)[OF ok p _ Some, where env = env and who = who and via = via] go run
      unfolding d2_def d1_def by (auto split: prod.splits sum.splits)
    then have t: "bd_bills t = bd_bills d2" using frame_pays[OF sync_expense_dates_books] by blast
    show ?thesis
    proof (cases "vb_status b = STATUS_VOID")
      case True
      then show ?thesis using t by (intro bills_like_same) (simp add: d2_def d1_def)
    next
      case False
      then have "bd_bills t = bd_bills (set_bill_status (bp_bill p) (if settles d1 b then STATUS_PAID else STATUS_OPEN) db)"
        using t by (simp add: d2_def d1_def set_bill_status_def)
      then show ?thesis using restatus_like[OF _ Some False, of "if settles d1 b then STATUS_PAID else STATUS_OPEN" t] ok by (simp add: bills_ok_def)
    qed
  qed
next
  case False
  then have "t = db" using run by (cases "bp_voided_at p") (auto simp: void_payment_def run_simps run_ends)
  then show ?thesis by (simp add: statuses.R_refl)
qed

text \<open>In order on both sides, the same payments mean the same bills.\<close>

lemma bills_determined:
  assumes "bills_ok s" "bills_ok t" "bills_like s t" "\<And>v. live_bill_payments t v = live_bill_payments s v"
  shows "bd_bills t = bd_bills s"
proof -
  have "list_all2 (=) (bd_bills s) (bd_bills t)"
  proof (rule list.rel_mono_strong[OF assms(3)[unfolded bills_like_def]])
    fix b c assume m: "b \<in> set (bd_bills s)" "c \<in> set (bd_bills t)"
      and bc: "c = b\<lparr>vb_status := vb_status c\<rparr> \<and> (vb_status b = STATUS_VOID \<longleftrightarrow> vb_status c = STATUS_VOID)"
    have "bill_total c = bill_total b" "vb_id c = vb_id b" using bc status_only by (metis, metis vendor_bill.select_convs(1) vendor_bill.surjective vendor_bill.update_convs(4))
    then have "settles t c = settles s b" by (simp add: settles_def bill_cents_def paid_cents_def assms(4))
    moreover have "bill_ok s b" "bill_ok t c" using assms(1,2) m by (simp_all add: bills_ok_def)
    ultimately have "vb_status c = vb_status b" using bc unfolding bill_ok_def by metis
    then show "b = c" using bc by (cases b) simp
  qed
  then show ?thesis by (simp add: list.rel_eq)
qed

section \<open>The effects on the bills\<close>

lemma kept_like: "bills_kept s t \<Longrightarrow> bills_like s t"
  by (simp add: bills_kept_def bills_like_same)

lemma pay_bill_like:
  assumes ok: "bills_ok db" and run: "pay_bill env m user v db = (Inr e, t)"
  shows "bills_like db t"
  using pay_bill_shape[OF run] statuses.R_refl record_like[OF ok match_payment_fields(1)] kept_like[OF tracksD[OF kept_noted]] statuses.R_trans by metis

lemma apply_like:
  assumes ok: "bills_ok db" and run: "apply_confirm_effects env m user db = (Inr e, t)"
  shows "bills_like db t"
  using apply_shape[OF run] statuses.R_refl pay_bill_like[OF ok] kept_like[OF tracksD[OF kept_noted]] by metis

lemma withdraw_like:
  assumes ok: "bills_ok db" and p: "p \<in> set (bd_bill_payments db)" and run: "withdraw_payment env u user p db = (Inr (), t)"
  shows "bills_like db t"
proof -
  obtain s where v: "void_payment env user True p db = (Inr (), s)" and t: "t = detach_payment u (bp_id p) s"
    using run by (auto simp: withdraw_payment_def andthen_def change_def split: prod.split_asm sum.split_asm)
  show ?thesis using void_like[OF ok p v] by (simp add: t bills_like_def detach_payment_def)
qed

lemma revert_like:
  assumes ok: "bills_ok db" and pm: "tied (bd_bill_payments db)" and run: "revert_confirm_effects env m user db = (Inr e, t)"
  shows "bills_like db t"
  using run
proof (rule revert_shape)
  fix s assume s: "for_each (withdraw_payment env (bm_id m) user) (live_match_payments db (bm_id m)) db = (Inr (), s)" and rest: "bills_kept s t"
  have "bills_like db s"
  proof (cases "live_match_payments db (bm_id m) = []")
    case True
    then show ?thesis using s by (simp add: run_ends statuses.R_refl)
  next
    case False
    then obtain p where p: "live_match_payments db (bm_id m) = [p]" using one_payment_per_match[OF pm, of "bm_id m"] by auto
    have "p \<in> set (live_match_payments db (bm_id m))" using p by simp
    then have "p \<in> set (bd_bill_payments db)" by (simp add: live_match_payments_def)
    moreover have "withdraw_payment env (bm_id m) user p db = (Inr (), s)"
      using s unfolding p by (auto simp: andthen_def ok_def split: prod.split_asm sum.split_asm)
    ultimately show ?thesis using withdraw_like[OF ok] by blast
  qed
  then show ?thesis using kept_like[OF rest] statuses.R_trans by blast
qed

section \<open>Confirm and unconfirm\<close>

text \<open>Through the routes a suggested match is confirmed, and a confirmed one goes back.\<close>

lemma confirm_done:
  assumes "confirm_match env user u db = (Inr (Done e), t)"
  obtains m x where "get_match db u = Some m" "bm_status m = MATCH_SUGGESTED" "set_match_status env m ''confirmed'' user db = (Inr x, t)"
  using assms by (cases "get_match db u") (auto simp: confirm_match_def with_match_def run_simps run_ends andthen_def[of "set_match_status env _ ''confirmed'' user"] ok_def
      split: if_split_asm prod.split_asm sum.split_asm intro: match_status.exhaust)

lemma unconfirm_done:
  assumes "unconfirm_match env user u db = (Inr (Done e), t)"
  obtains m x where "get_match db u = Some m" "bm_status m = MATCH_CONFIRMED" "set_match_status env m ''suggested'' user db = (Inr x, t)"
  using assms by (cases "get_match db u") (auto simp: unconfirm_match_def with_match_def run_simps run_ends andthen_def[of "set_match_status env _ ''suggested'' user"] ok_def
      split: if_split_asm prod.split_asm sum.split_asm)

lemma confirm_run:
  assumes "confirm_match env user u db = (Inr (Done e), t)"
  obtains m x s where "get_match db u = Some m" "bm_status m = MATCH_SUGGESTED" "t = sync_children u MATCH_CONFIRMED s"
    "apply_confirm_effects env m user (edit_match u (stamp env MATCH_CONFIRMED user) db) = (Inr x, s)"
  using assms
proof (rule confirm_done)
  fix m x assume m: "get_match db u = Some m" "bm_status m = MATCH_SUGGESTED" and run: "set_match_status env m ''confirmed'' user db = (Inr x, t)"
  have u: "bm_id m = u" using get_matchD[OF m(1)] by simp
  from run show thesis
    by (rule set_match_status_run) (use m u that in \<open>auto simp: match_status_of_def\<close>)
qed

lemma unconfirm_run:
  assumes "unconfirm_match env user u db = (Inr (Done e), t)"
  obtains m x s where "get_match db u = Some m" "t = sync_children u MATCH_SUGGESTED s"
    "revert_confirm_effects env m user (edit_match u (stamp env MATCH_SUGGESTED user) db) = (Inr x, s)"
  using assms
proof (rule unconfirm_done)
  fix m x assume m: "get_match db u = Some m" "bm_status m = MATCH_CONFIRMED" and run: "set_match_status env m ''suggested'' user db = (Inr x, t)"
  have u: "bm_id m = u" using get_matchD[OF m(1)] by simp
  from run show thesis
    by (rule set_match_status_run) (use m u that in \<open>auto simp: match_status_of_def\<close>)
qed

lemma unnamed:
  assumes ok: "reconciled db" and m: "get_match db u = Some m" "bm_status m \<noteq> MATCH_CONFIRMED" and p: "p \<in> set (bd_bill_payments db)"
  shows "bp_match p \<noteq> Some u"
proof
  assume "bp_match p = Some u"
  then have "has_parent db u MATCH_CONFIRMED" using ok p by (simp add: reconciled_def payment_matches_ok_def)
  then show False using parent_unique[of db u MATCH_CONFIRMED m] get_matchD[OF m(1)] m(2) ok by (auto simp: reconciled_def)
qed

text \<open>The children and the roster after two moves.\<close>

lemma there_and_back:
  assumes ok: "match_ok db" and m: "get_match db u = Some m" "bm_status m = st0"
    and c1: "calm (edit_match u (stamp env st user) db) s1" and c2: "calm (edit_match u (stamp env2 st0 user2) (sync_children u st s1)) s2"
  shows "bd_match_lines (sync_children u st0 s2) = bd_match_lines db" "bd_match_externals (sync_children u st0 s2) = bd_match_externals db"
    "roster (sync_children u st0 s2) = roster db"
proof -
  have k: "bd_match_lines s1 = bd_match_lines db" "bd_match_externals s1 = bd_match_externals db"
    "bd_match_lines s2 = bd_match_lines (sync_children u st s1)" "bd_match_externals s2 = bd_match_externals (sync_children u st s1)"
    using c1 c2 by (simp_all add: calm_def edit_match_def)
  have par: "st' = st0" if "has_parent db u st'" for st' using parent_unique[OF ok that] get_matchD[OF m(1)] m(2) by simp
  have l: "l\<lparr>ml_status := st0\<rparr> = l" if "l \<in> set (bd_match_lines db)" "ml_match l = u" for l
    using that par ok by (auto simp: match_ok_def)
  have x: "x\<lparr>mx_status := st0\<rparr> = x" if "x \<in> set (bd_match_externals db)" "mx_match x = u" for x
    using that par ok by (auto simp: match_ok_def)
  show "bd_match_lines (sync_children u st0 s2) = bd_match_lines db" "bd_match_externals (sync_children u st0 s2) = bd_match_externals db"
    using l x by (auto simp: sync_children_def k intro!: map_idI)
  have r1: "roster s1 = map (\<lambda>e. if fst e = u then (u, st) else e) (roster db)"
    using c1 by (simp add: calm_def roster_def edit_match_def comp_def stamp_fields if_distrib cong: if_cong)
  have r2: "roster s2 = map (\<lambda>e. if fst e = u then (u, st0) else e) (roster s1)"
    using c2 by (simp add: calm_def roster_def edit_match_def sync_children_def comp_def stamp_fields if_distrib cong: if_cong)
  have "e = (u, st0)" if "e \<in> set (roster db)" "fst e = u" for e using par[of "snd e"] that unfolding has_parent_roster by (cases e) auto
  then have "roster s2 = roster db" unfolding r2 r1 by (auto intro!: map_idI)
  then show "roster (sync_children u st0 s2) = roster db" by (simp add: roster_def sync_children_def)
qed

text \<open>
  C17.  Unconfirming undoes confirming.  In books in order, after a match was confirmed and unconfirmed, every bill is as before, the
  same payments are live, every match and child has the status it had, and no payment names the match.
\<close>

theorem unconfirm_undoes_confirm:
  assumes ok: "reconciled db" and c: "confirm_match env user u db = (Inr (Done e1), db1)" and r: "unconfirm_match env2 user2 u db1 = (Inr (Done e2), db2)"
  shows "bd_bills db2 = bd_bills db \<and> (\<forall>v. live_bill_payments db2 v = live_bill_payments db v) \<and>
    bd_match_lines db2 = bd_match_lines db \<and> bd_match_externals db2 = bd_match_externals db \<and>
    map (\<lambda>m. (bm_id m, bm_status m)) (bd_matches db2) = map (\<lambda>m. (bm_id m, bm_status m)) (bd_matches db) \<and>
    (\<forall>p \<in> set (bd_bill_payments db2). bp_match p \<noteq> Some u)"
  using c
proof (rule confirm_run)
  fix m x s1 assume m: "get_match db u = Some m" "bm_status m = MATCH_SUGGESTED" and db1: "db1 = sync_children u MATCH_CONFIRMED s1"
    and a: "apply_confirm_effects env m user (edit_match u (stamp env MATCH_CONFIRMED user) db) = (Inr x, s1)"
  from r show ?thesis
  proof (rule unconfirm_run)
    fix m1 y s2 assume m1: "get_match db1 u = Some m1" and db2: "db2 = sync_children u MATCH_SUGGESTED s2"
      and v: "revert_confirm_effects env2 m1 user2 (edit_match u (stamp env2 MATCH_SUGGESTED user2) db1) = (Inr y, s2)"
    let ?d = "edit_match u (stamp env MATCH_CONFIRMED user) db" let ?d1 = "edit_match u (stamp env2 MATCH_SUGGESTED user2) db1"
    have ids: "bm_id m = u" "bm_id m1 = u" using get_matchD[OF m(1)] get_matchD[OF m1] by simp_all
    have ok1: "reconciled db1" by (rule office_step_keeps[OF office_step.confirmed[OF c] ok])
    have ok2: "reconciled db2" by (rule office_step_keeps[OF office_step.unconfirmed[OF r] ok1])
    have b: "bills_ok ?d" "bills_ok ?d1" "tied (bd_bill_payments ?d1)"
    proof -
      show "bills_ok ?d" using bills_ok_frame(1)[of ?d db] ok by (simp add: edit_match_def reconciled_def)
      show "bills_ok ?d1" using bills_ok_frame(1)[of ?d1 db1] ok1 by (simp add: edit_match_def reconciled_def)
      show "tied (bd_bill_payments ?d1)" using ok1 payment_matches_tied[of db1] by (simp add: edit_match_def reconciled_def)
    qed
    define w where "w q = (if bp_match q = Some u then withdrawn env2 user2 u q else q)" for q
    have free: "bp_match q \<noteq> Some u" if "q \<in> set (bd_bill_payments db)" for q using unnamed[OF ok m(1) _ that] m(2) by simp
    have p2: "bd_bill_payments db2 = map w (bd_bill_payments db1)"
      using revert_effects(2)[OF b(2,3) v] by (simp add: db2 sync_children_def edit_match_def ids w_def)
    have p1: "bd_bill_payments db1 = bd_bill_payments db \<or> (\<exists>p. bd_bill_payments db1 = bd_bill_payments db @ [p] \<and> bp_match p = Some u)"
      using apply_effects[OF b(1) a] by (auto simp: db1 sync_children_def edit_match_def ids)
    have "map w (bd_bill_payments db) = bd_bill_payments db" using free by (auto simp: w_def intro: map_idI)
    then have p: "bd_bill_payments db2 = bd_bill_payments db \<or> (\<exists>p. bd_bill_payments db2 = bd_bill_payments db @ [p] \<and> bp_voided_at p \<noteq> None \<and> bp_match p = None)"
      using p1 p2 by (auto simp: w_def withdrawn_def)
    have live: "live_bill_payments db2 k = live_bill_payments db k" for k using p by (auto simp: live_bill_payments_def)
    have "bills_like db s1" using apply_like[OF b(1) a] by (simp add: bills_like_def edit_match_def)
    moreover have "bills_like s1 db2" using revert_like[OF b(2,3) v] by (simp add: bills_like_def edit_match_def db1 db2 sync_children_def)
    ultimately have "bd_bills db2 = bd_bills db"
      using bills_determined[of db db2] ok ok2 live statuses.R_trans by (auto simp: reconciled_def)
    moreover note there_and_back[OF _ m tracksD[OF calm_apply a] tracksD[OF calm_revert v, unfolded db1], folded db2]
    ultimately show ?thesis using ok live p free by (auto simp: reconciled_def roster_def)
  qed
qed

section \<open>What a confirmation pays\<close>

lemma get_bill_like:
  assumes "bills_like s t" "get_bill s v = Some b"
  shows "\<exists>st. get_bill t v = Some (b\<lparr>vb_status := st\<rparr>) \<and> (vb_status b = STATUS_VOID \<longleftrightarrow> st = STATUS_VOID)"
proof -
  have "rel_option (\<lambda>b c. c = b\<lparr>vb_status := vb_status c\<rparr> \<and> (vb_status b = STATUS_VOID \<longleftrightarrow> vb_status c = STATUS_VOID))
      (first (filter (\<lambda>b. vb_id b = v) bs)) (first (filter (\<lambda>b. vb_id b = v) cs))"
    if "list_all2 (\<lambda>b c. c = b\<lparr>vb_status := vb_status c\<rparr> \<and> (vb_status b = STATUS_VOID \<longleftrightarrow> vb_status c = STATUS_VOID)) bs cs" for bs cs
    using that
  proof induction
    case (Cons b bs c cs)
    have "vb_id c = vb_id b" using Cons(1) by (cases b; cases c) simp
    then show ?case using Cons by simp
  qed simp
  from this[OF assms(1)[unfolded bills_like_def]] have "rel_option (\<lambda>b c. c = b\<lparr>vb_status := vb_status c\<rparr> \<and> (vb_status b = STATUS_VOID \<longleftrightarrow> vb_status c = STATUS_VOID))
      (Some b) (get_bill t v)" using assms(2) by (simp add: get_bill_def)
  then show ?thesis by (cases "get_bill t v") auto
qed

definition lines_cents :: "bank_line list \<Rightarrow> int" where
  "lines_cents ls = sum_list (map (\<lambda>l. \<bar>bl_amount l\<bar>) ls)"

lemma cents_div100: "cents_val (div100 n) = n"
proof -
  have "n mod 100 = 0 \<Longrightarrow> n div 100 * 100 = n" "n mod 10 = 0 \<Longrightarrow> n div 10 * 10 = n"
    using div_mult_mod_eq[of n 100] div_mult_mod_eq[of n 10] by simp_all
  then show ?thesis by (simp add: div100_def)
qed

lemma match_payment_reads:
  assumes "ls \<noteq> []"
  shows "cents_val (pi_amount (match_payment m ls user)) = lines_cents ls" "pi_date (match_payment m ls user) = Some (Min (bl_date ` set ls))"
proof -
  obtain l ls' where l: "ls = l # ls'" using assms by (cases ls) auto
  have "fold min (map bl_date ls') (bl_date l) = Min (set (bl_date l # map bl_date ls'))" by (simp only: Min.set_eq_fold)
  then show "pi_date (match_payment m ls user) = Some (Min (bl_date ` set ls))" by (simp add: match_payment_def l)
qed (simp add: match_payment_def cents_div100 lines_cents_def)

text \<open>The effects on a match of one bill that the lines can still pay.\<close>

lemma apply_pays:
  assumes ok: "bills_ok db" and free: "\<And>p. p \<in> set (bd_bill_payments db) \<Longrightarrow> bp_match p \<noteq> Some (bm_id m)"
    and ext: "externals_of db (bm_id m) = [(VendorInvoices, v)]" and b: "get_bill db v = Some b" "vb_status b \<noteq> STATUS_VOID"
    and ls: "match_lines db (bm_id m) \<noteq> []" "list_all is_debit (match_lines db (bm_id m))"
    and fits: "0 < lines_cents (match_lines db (bm_id m))" "lines_cents (match_lines db (bm_id m)) \<le> bill_cents b - paid_cents db v"
    and run: "apply_confirm_effects env m user db = (Inr x, t)"
  shows "bd_bill_payments t = bd_bill_payments db @ [mk_payment env (bd_uuid db) v (match_payment m (match_lines db (bm_id m)) user)]"
proof -
  define i where "i = match_payment m (match_lines db (bm_id m)) user"
  have none: "live_match_payments db (bm_id m) = []" "\<not> match_paid db (pi_match i)"
    using free by (auto simp: live_match_payments_def match_paid_def i_def match_payment_fields list_ex_iff)
  have vb: "vb_id b = v" using get_billD[OF b(1)] by simp
  have src: "pi_source i \<in> set VALID_PAYMENT_SOURCES" by (simp add: i_def match_payment_def VALID_PAYMENT_SOURCES_def)
  have code: "payment_refusal_code db b i = None"
    using b(2) fits vb by (simp add: payment_refusal_code_def i_def match_payment_reads(1)[OF ls(1)])
  obtain r s where rs: "record_payment env v i db = (r, s)" by fastforce
  have "catch (andthen (record_payment env v i) (\<lambda>p. ok (PaymentRecorded (bp_id p)))) (\<lambda>e.
             case payment_refusal e of
               None \<Rightarrow> throw e
             | Some code \<Rightarrow> noted (bm_id m) (''no payment auto-recorded: '' @ payment_refusal_message code) NothingRecorded) db = (Inr x, t)"
    using run ext none(1) ls b(1) unfolding apply_confirm_effects_def pay_bill_def i_def[symmetric]
    by (simp add: run_simps(3) vb i_def del: append.simps)
  then have "t = s \<or> (\<exists>u n y. noted u n y s = (Inr x, t))"
    by (auto simp: catch_def andthen_def rs ok_def throw_def split: sum.split_asm option.split_asm)
  then have "bd_bill_payments t = bd_bill_payments s" using tracksD[OF kept_noted] unfolding bills_kept_def by metis
  moreover have "\<exists>r1. sync_expense_dates env b (set_bill_status v (if settles (add_payment env v i db) b then STATUS_PAID else STATUS_OPEN) (add_payment env v i db)) = (r1, s)"
    using rs none(2) code unfolding record_payment_run[OF ok match_payment_fields(1)[of m "match_lines db (bm_id m)" user, folded i_def] src b(1)]
    by (auto simp: Let_def split: prod.splits sum.splits)
  ultimately show ?thesis
    using frame_pays[OF sync_expense_dates_books] by (auto simp: set_bill_status_def add_payment_def i_def)
qed

text \<open>
  C16.  Confirming a match of debits with one bill, when the money fits what is open, records exactly one payment for it: of the lines' money,
  dated at the earliest line, and the bill is paid exactly when that covers the total.
\<close>

theorem confirm_pays_bill:
  assumes ok: "reconciled db" and ext: "externals_of db u = [(VendorInvoices, v)]" and b: "get_bill db v = Some b" "vb_status b \<noteq> STATUS_VOID"
    and ls: "match_lines db u \<noteq> []" "list_all is_debit (match_lines db u)"
    and fits: "0 < lines_cents (match_lines db u)" "lines_cents (match_lines db u) \<le> bill_cents b - paid_cents db v"
    and c: "confirm_match env user u db = (Inr (Done e), t)"
  shows "paid_cents t v = paid_cents db v + lines_cents (match_lines db u) \<and>
    get_bill t v = Some (b\<lparr>vb_status := (if paid_cents t v = bill_cents b then STATUS_PAID else STATUS_OPEN)\<rparr>) \<and>
    (\<exists>p. live_match_payments t u = [p] \<and> bp_bill p = v \<and> cents_val (bp_amount p) = lines_cents (match_lines db u) \<and>
       bp_date p = Some (Min (bl_date ` set (match_lines db u))))"
  using c
proof (rule confirm_run)
  fix m x s assume m: "get_match db u = Some m" "bm_status m = MATCH_SUGGESTED" and t: "t = sync_children u MATCH_CONFIRMED s"
    and a: "apply_confirm_effects env m user (edit_match u (stamp env MATCH_CONFIRMED user) db) = (Inr x, s)"
  let ?d = "edit_match u (stamp env MATCH_CONFIRMED user) db"
  have id: "bm_id m = u" using get_matchD[OF m(1)] by simp
  have "get_line ?d = get_line db" by (simp add: fun_eq_iff get_line_def edit_match_def)
  then have d: "bd_bill_payments ?d = bd_bill_payments db" "bd_bills ?d = bd_bills db" "bd_uuid ?d = bd_uuid db" "externals_of ?d u = externals_of db u"
    "match_lines ?d u = match_lines db u" "get_bill ?d v = get_bill db v" "paid_cents ?d v = paid_cents db v"
    by (simp_all add: edit_match_def externals_of_def match_lines_def lines_of_def get_bill_def paid_cents_def live_bill_payments_def)
  have okd: "bills_ok ?d" using bills_ok_frame(1)[OF d(2,1)] d(3) ok by (simp add: reconciled_def)
  have free: "bp_match q \<noteq> Some u" if "q \<in> set (bd_bill_payments db)" for q using unnamed[OF ok m(1) _ that] m(2) by simp
  define p where "p = mk_payment env (bd_uuid db) v (match_payment m (match_lines db u) user)"
  have pt: "bd_bill_payments t = bd_bill_payments db @ [p]"
    using apply_pays[OF okd _ _ _ b(2), of m v env user x s] a ext b(1) ls fits free unfolding id d p_def
    by (simp add: t sync_children_def)
  have pf: "bp_bill p = v" "bp_voided_at p = None" "bp_match p = Some u" "cents_val (bp_amount p) = lines_cents (match_lines db u)"
    "bp_date p = Some (Min (bl_date ` set (match_lines db u)))"
    using match_payment_reads[OF ls(1), of m user] by (simp_all add: p_def mk_payment_def match_payment_fields id)
  have paid: "paid_cents t v = paid_cents db v + lines_cents (match_lines db u)" using pf by (simp add: paid_cents_filter pt)
  have "live_match_payments t u = [p]" using free pf by (simp add: live_match_payments_def pt filter_False)
  moreover have "get_bill t v = Some (b\<lparr>vb_status := (if paid_cents t v = bill_cents b then STATUS_PAID else STATUS_OPEN)\<rparr>)"
  proof -
    have "bills_like db t" using apply_like[OF okd a] by (simp add: bills_like_def edit_match_def t sync_children_def)
    then obtain st where st: "get_bill t v = Some (b\<lparr>vb_status := st\<rparr>)" "st \<noteq> STATUS_VOID" using get_bill_like[OF _ b(1)] b(2) by blast
    have "bills_ok t" using office_step_keeps[OF office_step.confirmed[OF c] ok] by (simp add: reconciled_def)
    then have "bill_ok t (b\<lparr>vb_status := st\<rparr>)" using get_billD[OF st(1)] by (simp add: bills_ok_def)
    moreover have "bill_cents (b\<lparr>vb_status := st\<rparr>) = bill_cents b" "vb_id b = v" using get_billD[OF b(1)] by (simp_all add: bill_cents_def)
    moreover have "0 < bill_cents b" "paid_cents t v \<le> bill_cents b"
      using fits paid paid_cents_nonneg[of db v] ok by (auto simp: reconciled_def bills_ok_def)
    ultimately have "st = (if paid_cents t v = bill_cents b then STATUS_PAID else STATUS_OPEN)" using st(2) by (auto simp: bill_ok_def settles_def split: if_split_asm)
    then show ?thesis using st(1) by simp
  qed
  ultimately show ?thesis using paid pf by blast
qed

section \<open>A suggested match of a check and its bill\<close>

definition undo_sample :: bank_db where
  "undo_sample = added (bill_match 1 (hd (bd_lines clearing_sample)) clearing_bill) (file_bill clearing_bill clearing_sample)"

lemma undo_sample_ok: "reconciled undo_sample"
  unfolding undo_sample_def
  by (rule added_keeps[OF reachable_reconciled[OF clearing_reachable]])
    (simp add: exclusive_def matched_line_ids_def used_externals_def bill_match_def line_match_def mk_match_line_def mk_match_external_def
      file_bill_def clearing_sample_def empty_bank_db_def)

definition match_view :: "(bank_exn + route_answer) \<times> bank_db \<Rightarrow> bool \<times> bill_status list \<times> match_status list" where
  "match_view r = ((case fst r of Inr (Done e) \<Rightarrow> True | _ \<Rightarrow> False), map vb_status (bd_bills (snd r)), map bm_status (bd_matches (snd r)))"

lemma undo_sample_confirm: "match_view (confirm_match sample_env None 5 undo_sample) = (True, [STATUS_PAID], [MATCH_CONFIRMED])"
  by code_simp

lemma undo_sample_unconfirm:
  "match_view (unconfirm_match sample_env None 5 (snd (confirm_match sample_env None 5 undo_sample))) = (True, [STATUS_OPEN], [MATCH_SUGGESTED])"
  by code_simp

lemma match_view_done: "match_view r = (True, v) \<Longrightarrow> \<exists>e t. r = (Inr (Done e), t)"
  by (cases r; cases "fst r") (auto simp: match_view_def split: route_answer.splits)

lemma undo_sample_reads:
  "externals_of undo_sample 5 = [(VendorInvoices, 3)]" "get_bill undo_sample 3 = Some clearing_bill" "vb_status clearing_bill \<noteq> STATUS_VOID"
  "match_lines undo_sample 5 = bd_lines clearing_sample" "list_all is_debit (match_lines undo_sample 5)" "lines_cents (match_lines undo_sample 5) = 50"
  "bill_cents clearing_bill = 50" "paid_cents undo_sample 3 = 0"
  by code_simp+

theorem unconfirm_undoes_confirm_witness:
  "\<exists>e1 db1 e2 db2. confirm_match sample_env None 5 undo_sample = (Inr (Done e1), db1) \<and> unconfirm_match sample_env None 5 db1 = (Inr (Done e2), db2) \<and>
     map vb_status (bd_bills db1) = [STATUS_PAID] \<and> bd_bills db2 = bd_bills undo_sample"
proof -
  obtain e1 db1 where c: "confirm_match sample_env None 5 undo_sample = (Inr (Done e1), db1)" using match_view_done[OF undo_sample_confirm] by blast
  obtain e2 db2 where r: "unconfirm_match sample_env None 5 db1 = (Inr (Done e2), db2)" using match_view_done[OF undo_sample_unconfirm] c by auto
  have "map vb_status (bd_bills db1) = [STATUS_PAID]" using undo_sample_confirm by (simp add: c match_view_def)
  moreover have "bd_bills db2 = bd_bills undo_sample" using unconfirm_undoes_confirm[OF undo_sample_ok c r] by (rule conjunct1)
  ultimately show ?thesis using c r by (intro exI conjI)
qed

theorem confirm_pays_bill_witness:
  "\<exists>e t. confirm_match sample_env None 5 undo_sample = (Inr (Done e), t) \<and> paid_cents t 3 = 50 \<and>
     get_bill t 3 = Some (clearing_bill\<lparr>vb_status := STATUS_PAID\<rparr>)"
proof -
  obtain e t where c: "confirm_match sample_env None 5 undo_sample = (Inr (Done e), t)" using match_view_done[OF undo_sample_confirm] by blast
  have "match_lines undo_sample 5 \<noteq> []" unfolding undo_sample_reads(4) by (simp add: clearing_sample_def)
  from confirm_pays_bill[OF undo_sample_ok undo_sample_reads(1-3) this undo_sample_reads(5) _ _ c] show ?thesis
    using c by (simp add: undo_sample_reads(6-8))
qed

end
