(* ===== verification/Spec2Isabelle.thy ===== *)
theory Spec2Isabelle
  imports Ledger_Guard Pay_Periods Invoice_Invariant Ledger_System Bank_Archive Match_Undo
begin

text \<open>
  A verification of the accounting core of gdx_dispatch, the office program of a garage-door company.

  \<^bold>\<open>The program.\<close>  Invoices, payments, adjustments and expenses are rows the office edits.  A double-entry ledger
  (\<^verbatim>\<open>src/gdx_dispatch/modules/ledger\<close>) shadows them: the status chokepoint and the routes call posting rules, the rules turn a row into
  a balanced set of lines, and the engine writes one journal entry per event under an idempotency key.  Entries are never edited; a
  change reverses the live entry and posts a new one.  Reports read the journal, a backfill brings older rows in, a guard at
  flush refuses status changes that bypass the chokepoint, a guard at commit refuses invoices whose total is not their lines plus tax,
  and a void undoes an invoice with everything it claimed.

  \<^bold>\<open>Representation.\<close>  A Python function that runs in a session is a function from the database to an exception or a value and
  the new database (\<open>sem\<close>, Prelude); what a raise leaves behind stays.  Rows are records, tables are lists in insertion order, money is
  integer cents or an exact decimal (coefficient and exponent, infinities, NaN), UUIDs are numbers handed out by a counter in the
  database, and the clock, the company's time zone and SHA-256 are fields of an environment \<open>gl_env\<close> of which only a hex digest is assumed.

  \<^bold>\<open>The theories, in the order of their imports.\<close>
  \<^item> Prelude: effects, the locale \<open>tracked\<close> (a preorder on states that operations respect, with its lifting through the combinators), dates,
    lists and sums.
  \<^item> Money: \<^verbatim>\<open>money.py\<close>, \<open>to_cents\<close> rounds half up to the nearest cent, \<open>allocate\<close> splits exactly, fairly and fails only on bad weights.
  \<^item> Ledger_Models, Ledger_Keys, Ledger_Coa, Ledger_Ddl: the tables and their database state \<open>gl_db\<close>; canonical JSON, content hashes,
    key prefixes and sequence numbers; the chart of accounts with its seed and role resolution; the database triggers as predicates.
  \<^item> Ledger_Engine: \<open>post_for_event\<close> with its retry loop (at most \<open>MAX_KEY_ATTEMPTS\<close> rounds, each against a database other transactions may
    have changed), \<open>reverse_entry\<close>, period locks.
  \<^item> Ledger_Invariant, Ledger_Posting, Ledger_Reversal: the journal invariant (unique ids and keys, balanced entries, paired reversals), that
    posting and reversal keep it, replay returns the live entry, a reversal cancels its original and happens once, locked periods stay closed.
  \<^item> Ledger_Service, Ledger_Guard: settings and role maps, \<open>transition_invoice_status\<close>; the flush guard that refuses exactly the unsanctioned
    status changes of a posting company.
  \<^item> Rules_Base, Rules_Invoice, Rules_Payment, Rules_Resettle, Rules_Adjustment, Rules_Expense: \<^verbatim>\<open>rules.py\<close>, P1 to P9.  An issuance balances
    and one is live after any edit; payments fill the receivable exactly once; resettling leaves one live entry per payment.
  \<^item> Ledger_Books, Ledger_Reports, Cash_Basis: accounts and lines fit together, the trial balance proves zero, the balance sheet balances and
    rolls forward by the P&L; the cash-basis walk recognises the clamped cash.
  \<^item> Ledger_Backfill, Ar_Control, Ledger_Repair: the opening phase (idempotent) and the replay; the control-account tie and what it means; the
    repair of one-shot postings posted twice, which completes and never overshoots.
  \<^item> Invoice_Void: \<^verbatim>\<open>core/invoice_void.py\<close> over the ledger and the rows around it: refusals leave nothing behind, claims are given back, and
    what is left of the receivable, with the case where it is not zero.
  \<^item> Decimals, Invoice_Invariant: Python's decimal arithmetic at 28 digits; the commit-time totals guard with its savepoint stack as a
    reachability relation: strict mode commits only valid totals, a refused savepoint is contained, and a guarded invoice posts without a
    rounding line.
  \<^item> Ledger_Opening: \<^verbatim>\<open>opening.py\<close>: the proposed cutover is the latest month boundary the archived statements of every bank account
    prove, and an applied opening leaves one opening entry per account and nothing live before the cutover.
  \<^item> Ledger_System: all ledger operations as steps of one system; every reachable database is sound and posted history is permanent.
  \<^item> Bank_Models, Bank_Statements, Bank_Evidence, Bank_Archive: \<^verbatim>\<open>modules/bank_feeds/statement_service.py\<close>: the tables, the tie-out and overlap gates,
    the import and the void of a statement.  In every archive reached by imports and voids the passed statements tie to their lines and
    agree where they overlap; a void takes only the lines no other import attests; the proposed opening rests on the imported lines.  The parser
    of the PDF is an argument, and SHA-256 is assumed injective on the line keys of the statements at hand (\<open>K\<close>) only.
  \<^item> Vendor_Payments, Bill_Books, Bill_Dates: \<^verbatim>\<open>modules/vendor_invoices/payments.py\<close>: the payments of a vendor bill, its derived
    status, and the dates of the expenses it booked, with their ledger entries.  Payments never exceed the total, the status says whether
    anything is open, every live expense of the bill carries the cash-basis date, and voiding the payment just recorded takes it all back.
  \<^item> Match_Rules, Match_Lifecycle: \<^verbatim>\<open>modules/bank_feeds/statement_matching.py\<close>: the suggestion ladder (R5 classifications, R2 pairs,
    R3 sweeps) and the life of a match, with the bill payments and expenses that confirming and unconfirming touch.  Confidences are percent.
  \<^item> Match_Plan, Match_Suggest, Match_System: a run of the ladder equals a plan of match rows computed from the tables.  From this: a run
    returns whatever the tables hold, keeps each line and books record in one match, leaves confirmed and rejected matches alone, never
    repeats a rejected pairing, and suggests only live records that add up to their line to the cent.
  \<^item> Match_Effects, Match_Undo: the requests of the office as steps of one system.  In every state reached the match tables, the payments and the
    bills agree; confirming pays the bill it can pay; unconfirming undoes confirming.
  \<^item> Calendar, Pay_Periods: day arithmetic and \<^verbatim>\<open>core/pay_periods.py\<close>: the periods tile the calendar and meet.

  \<^bold>\<open>Interfaces.\<close>  \<open>tracked\<close> is interpreted by every relation the operations respect: the journal is sound and append-only, the workflow rows
  are untouched, accounts fit the lines, live originals only shrink, the guarded session stays recorded, and more.  Posting rules are
  bound to the chokepoint through \<open>rules_sound\<close>, proved of the registered table \<open>POSTING_RULES\<close>.

  \<^bold>\<open>Bounds.\<close>  \<open>MAX_KEY_ATTEMPTS\<close>, \<open>MAX_RESIDUAL_CENTS\<close> and the display limits are the source's.  Money columns are NUMERIC(12, 2); theorems
  that need it say so (\<open>is_money\<close>), and sums are bounded by the number of lines, far above any invoice.  No definition uses fuel; the one
  loop without a structural measure, the retry loop, counts its attempts.

  \<^bold>\<open>Not modelled.\<close>  HTTP routes and their payloads, rendering, the front end, e-mail, SMS and payment providers are I/O around the
  code above.  QuickBooks synchronisation, mobile, inventory, pricing, scheduling and the plug-in system are separate parts of the
  program that do not write the journal.  Bulk statements that bypass the unit of work are invisible to the two session guards, in the code
  as in the model.  Of the reports the completeness disclosure and the journal browser are read-only payloads, as are
  \<^verbatim>\<open>manual_candidates\<close> and \<^verbatim>\<open>build_reports\<close> of the statement matcher; the routes of a match answer a refusal with 409 where the model keeps the
  exception.  The text the statement parser reads comes from a PDF library.
\<close>

end
